(* ===== verification/Prelude.thy ===== *)
theory Prelude
  imports Main "HOL-Library.Word" "HOL-Library.Monad_Syntax"
begin

text \<open>
  Shared vocabulary of the development: the C integer types as words, the Linux error
  numbers, the return codes of \<open>gni_pub.h\<close>, the representation of a kernel fault, and the
  facts about lists, options and words that the component theories use.
\<close>

unbundle bit_operations_syntax

section \<open>Collections of facts\<close>

named_theorems sm_prims \<open>primitive state updates of the session manager\<close>
named_theorems sm_sel \<open>projections of primitive state updates\<close>
named_theorems memhndl_defs \<open>accessors of the memory handle\<close>
named_theorems fault_simps \<open>evaluation of the fault monad\<close>

section \<open>C types\<close>

type_synonym u8 = "8 word"
type_synonym u16 = "16 word"
type_synonym u32 = "32 word"
type_synonym u64 = "64 word"

text \<open>Kernel objects live at addresses; a pointer is an optional address, \<open>None\<close> is NULL.\<close>

type_synonym addr = nat
type_synonym 'a ptr = "nat option"

section \<open>Error numbers\<close>

abbreviation EPERM :: int where "EPERM \<equiv> 1"
abbreviation ENOENT :: int where "ENOENT \<equiv> 2"
abbreviation ESRCH :: int where "ESRCH \<equiv> 3"
abbreviation EINTR :: int where "EINTR \<equiv> 4"
abbreviation ENXIO :: int where "ENXIO \<equiv> 6"
abbreviation E2BIG :: int where "E2BIG \<equiv> 7"
abbreviation EAGAIN :: int where "EAGAIN \<equiv> 11"
abbreviation ENOMEM :: int where "ENOMEM \<equiv> 12"
abbreviation EACCES :: int where "EACCES \<equiv> 13"
abbreviation EFAULT :: int where "EFAULT \<equiv> 14"
abbreviation EBUSY :: int where "EBUSY \<equiv> 16"
abbreviation EEXIST :: int where "EEXIST \<equiv> 17"
abbreviation EINVAL :: int where "EINVAL \<equiv> 22"
abbreviation EMFILE :: int where "EMFILE \<equiv> 24"
abbreviation ENOTTY :: int where "ENOTTY \<equiv> 25"
abbreviation ENOSPC :: int where "ENOSPC \<equiv> 28"
abbreviation ERESTARTSYS :: int where "ERESTARTSYS \<equiv> 512"

section \<open>Return codes of the GNI interface\<close>

datatype gni_return =
    GNI_RC_SUCCESS
  | GNI_RC_NOT_DONE
  | GNI_RC_INVALID_PARAM
  | GNI_RC_ERROR_RESOURCE
  | GNI_RC_TIMEOUT
  | GNI_RC_PERMISSION_ERROR
  | GNI_RC_DESCRIPTOR_ERROR
  | GNI_RC_ALIGNMENT_ERROR
  | GNI_RC_INVALID_STATE
  | GNI_RC_NO_MATCH
  | GNI_RC_SIZE_ERROR
  | GNI_RC_TRANSACTION_ERROR
  | GNI_RC_ILLEGAL_OP
  | GNI_RC_ERROR_NOMEM

section \<open>Kernel faults\<close>

text \<open>
  A computation that fails a \<open>GASSERT\<close> (which calls \<open>BUG()\<close>), dereferences NULL or an
  object that has been freed, or indexes an array out of range, does not return: its value is
  \<open>None\<close>. Every other outcome is \<open>Some\<close>.
\<close>

type_synonym 'a run = "'a option"

definition GASSERT :: "bool \<Rightarrow> unit run" where
  "GASSERT b = (if b then Some () else None)"

lemma GASSERT_True [simp]: "GASSERT True = Some ()"
  and GASSERT_False [simp]: "GASSERT False = None"
  by (simp_all add: GASSERT_def)

lemma GASSERT_Some_iff [simp]: "GASSERT b = Some u \<longleftrightarrow> b"
  by (simp add: GASSERT_def)

lemma GASSERT_bind [simp]: "(GASSERT b \<bind> f) = (if b then f () else None)"
  by (simp add: GASSERT_def)

text \<open>\<open>ok r P\<close>: the computation returns, and its result satisfies \<open>P\<close>.\<close>

definition ok :: "'a run \<Rightarrow> ('a \<Rightarrow> bool) \<Rightarrow> bool" where
  "ok r P \<longleftrightarrow> (\<exists>x. r = Some x \<and> P x)"

lemma ok_Some [simp]: "ok (Some x) P \<longleftrightarrow> P x"
  and ok_None [simp]: "\<not> ok None P"
  by (simp_all add: ok_def)

lemma okD: "ok r P \<Longrightarrow> \<exists>x. r = Some x \<and> P x"
  by (simp add: ok_def)

lemma ok_bind: "ok (r \<bind> f) P \<longleftrightarrow> ok r (\<lambda>x. ok (f x) P)"
  by (auto simp: ok_def bind_eq_Some_conv)

lemma ok_mono: "ok r P \<Longrightarrow> (\<And>x. P x \<Longrightarrow> Q x) \<Longrightarrow> ok r Q"
  by (auto simp: ok_def)

lemma ok_bindI: "ok r P \<Longrightarrow> (\<And>x. P x \<Longrightarrow> ok (f x) Q) \<Longrightarrow> ok (r \<bind> f) Q"
  by (auto simp: ok_def)

lemma ok_conj: "ok r (\<lambda>x. P x \<and> Q x) \<longleftrightarrow> ok r P \<and> ok r Q"
  by (auto simp: ok_def)

lemma ok_map_option: "ok (map_option f r) P \<longleftrightarrow> ok r (P \<circ> f)"
  by (cases r) simp_all

definition array_get :: "'a list \<Rightarrow> nat \<Rightarrow> 'a run" where
  "array_get xs i = (if i < length xs then Some (xs ! i) else None)"

lemma array_get_Some_iff: "array_get xs i = Some x \<longleftrightarrow> i < length xs \<and> xs ! i = x"
  by (auto simp: array_get_def)

lemma array_get_in [simp]: "i < length xs \<Longrightarrow> array_get xs i = Some (xs ! i)"
  by (simp add: array_get_def)

text \<open>An access that stays inside an array; outside it the computation faults.\<close>

abbreviation in_bounds :: "bool \<Rightarrow> unit run" where
  "in_bounds \<equiv> GASSERT"

text \<open>\<open>memcpy(dst, src, n)\<close> on byte arrays that both have \<open>n\<close> bytes.\<close>

definition memcpy :: "'a list \<Rightarrow> 'a list \<Rightarrow> nat \<Rightarrow> 'a list" where
  "memcpy dst src n = take n src @ drop n dst"

lemma take_memcpy [simp]: "n \<le> length src \<Longrightarrow> take n (memcpy dst src n) = take n src"
  by (simp add: memcpy_def)

lemma length_memcpy [simp]:
  "n \<le> length src \<Longrightarrow> n \<le> length dst \<Longrightarrow> length (memcpy dst src n) = length dst"
  by (simp add: memcpy_def)

lemma memcpy_0 [simp]: "memcpy dst src 0 = dst"
  by (simp add: memcpy_def)

text \<open>\<open>time_before(a, b)\<close> of Linux: the signed difference is negative, so it is right across
  a wrap of the tick counter.\<close>

definition time_before :: "u64 \<Rightarrow> u64 \<Rightarrow> bool" where
  "time_before a b \<longleftrightarrow> sint (a - b) < 0"

section \<open>Words\<close>

text \<open>Masking a value and shifting it up, then shifting it down and masking it, recovers the
  masked value as long as the field fits into the word.\<close>

lemma field_roundtrip:
  fixes v :: u64
  assumes "n + w \<le> 64"
  shows "take_bit w (drop_bit n (push_bit n (take_bit w v))) = take_bit w v"
  using assms by (auto intro!: bit_eqI simp: bit_simps)

lemma field_disjoint:
  fixes v :: u64
  assumes "n + w \<le> k \<or> k + l \<le> n"
  shows "take_bit l (drop_bit k (push_bit n (take_bit w v))) = 0"
  using assms by (auto intro!: bit_eqI simp: bit_simps)

section \<open>Lists\<close>

lemma nth_list_update_cases:
  "i < length xs \<Longrightarrow> xs[j := v] ! i = (if i = j then v else xs ! i)"
  by (simp add: nth_list_update)

lemma set_update_SomeD:
  "Some x \<in> set (xs[i := None]) \<Longrightarrow> Some x \<in> set xs"
  by (metis in_set_conv_nth length_list_update nth_list_update_eq nth_list_update_neq option.discI)

end
