(* ===== verification/Memhndl.thy ===== *)
theory Memhndl
  imports Prelude
begin

text \<open>
  The registered-memory handle of \<open>gni_pub.h\<close> and the accessor macros and CRC routines of
  \<open>gni_priv.h\<close>. A handle is two 64-bit words; the fields are packed into bit ranges and the
  top byte of the second word holds a CRC over all other bits. The setters OR their value into
  the word, so a field reads back what was stored only if it was clear before.
\<close>

section \<open>The handle and its fields\<close>

record gni_mem_handle =
  qword1 :: u64
  qword2 :: u64

definition GNI_MEMHNDL_INIT :: gni_mem_handle where
  "GNI_MEMHNDL_INIT = \<lparr>qword1 = 0, qword2 = 0\<rparr>"

definition GNI_MEMHNDL_SET_VA :: "gni_mem_handle \<Rightarrow> u64 \<Rightarrow> gni_mem_handle" where
  [memhndl_defs]: "GNI_MEMHNDL_SET_VA h v =
     h\<lparr>qword1 := qword1 h OR (drop_bit 12 v AND 0x000FFFFFFFFFFFFF)\<rparr>"

definition GNI_MEMHNDL_GET_VA :: "gni_mem_handle \<Rightarrow> u64" where
  [memhndl_defs]: "GNI_MEMHNDL_GET_VA h = push_bit 12 (qword1 h AND 0x000FFFFFFFFFFFFF)"

definition GNI_MEMHNDL_SET_MDH :: "gni_mem_handle \<Rightarrow> u64 \<Rightarrow> gni_mem_handle" where
  [memhndl_defs]: "GNI_MEMHNDL_SET_MDH h v = h\<lparr>qword1 := qword1 h OR push_bit 52 (v AND 0xFFF)\<rparr>"

definition GNI_MEMHNDL_GET_MDH :: "gni_mem_handle \<Rightarrow> u64" where
  [memhndl_defs]: "GNI_MEMHNDL_GET_MDH h = drop_bit 52 (qword1 h) AND 0xFFF"

definition GNI_MEMHNDL_SET_NPAGES :: "gni_mem_handle \<Rightarrow> u64 \<Rightarrow> gni_mem_handle" where
  [memhndl_defs]: "GNI_MEMHNDL_SET_NPAGES h v = h\<lparr>qword2 := qword2 h OR (v AND 0xFFFFFFF)\<rparr>"

definition GNI_MEMHNDL_GET_NPAGES :: "gni_mem_handle \<Rightarrow> u64" where
  [memhndl_defs]: "GNI_MEMHNDL_GET_NPAGES h = qword2 h AND 0xFFFFFFF"

definition GNI_MEMHNDL_SET_PAGESIZE :: "gni_mem_handle \<Rightarrow> u64 \<Rightarrow> gni_mem_handle" where
  [memhndl_defs]: "GNI_MEMHNDL_SET_PAGESIZE h v = h\<lparr>qword2 := qword2 h OR push_bit 28 (v AND 0x3F)\<rparr>"

text \<open>The six bits of the page-size field hold a shift, the getter returns the size itself.\<close>

definition memhndl_pageshift :: "gni_mem_handle \<Rightarrow> u64" where
  [memhndl_defs]: "memhndl_pageshift h = drop_bit 28 (qword2 h) AND 0x3F"

definition GNI_MEMHNDL_GET_PAGESIZE :: "gni_mem_handle \<Rightarrow> u64" where
  "GNI_MEMHNDL_GET_PAGESIZE h = push_bit (unat (memhndl_pageshift h)) 1"

definition GNI_MEMHNDL_SET_FLAGS :: "gni_mem_handle \<Rightarrow> u64 \<Rightarrow> gni_mem_handle" where
  [memhndl_defs]: "GNI_MEMHNDL_SET_FLAGS h v = h\<lparr>qword2 := qword2 h OR push_bit 34 (v AND 0xFF)\<rparr>"

definition GNI_MEMHNDL_GET_FLAGS :: "gni_mem_handle \<Rightarrow> u64" where
  [memhndl_defs]: "GNI_MEMHNDL_GET_FLAGS h = drop_bit 34 (qword2 h) AND 0xFF"

section \<open>The CRC\<close>

definition gni_crc_bits :: "u8 \<Rightarrow> u8" where
  "gni_crc_bits data =
     (let lcrc = 0;
          lcrc = (if data AND 1 \<noteq> 0 then lcrc XOR 0x5e else lcrc);
          lcrc = (if data AND 2 \<noteq> 0 then lcrc XOR 0xbc else lcrc);
          lcrc = (if data AND 4 \<noteq> 0 then lcrc XOR 0x61 else lcrc);
          lcrc = (if data AND 8 \<noteq> 0 then lcrc XOR 0xc2 else lcrc);
          lcrc = (if data AND 0x10 \<noteq> 0 then lcrc XOR 0x9d else lcrc);
          lcrc = (if data AND 0x20 \<noteq> 0 then lcrc XOR 0x23 else lcrc);
          lcrc = (if data AND 0x40 \<noteq> 0 then lcrc XOR 0x46 else lcrc);
          lcrc = (if data AND 0x80 \<noteq> 0 then lcrc XOR 0x8c else lcrc)
      in lcrc)"

text \<open>One line of the unrolled loops: shift the word, add the running CRC, keep the low byte.\<close>

definition crc_step :: "u64 \<Rightarrow> nat \<Rightarrow> u8 \<Rightarrow> u8" where
  "crc_step qw k crc = gni_crc_bits (ucast ((drop_bit k qw XOR ucast crc) AND 0xff))"

definition gni_memhndl_calc_crc :: "gni_mem_handle \<Rightarrow> u8" where
  "gni_memhndl_calc_crc memhndl =
     (let qw1 = qword1 memhndl;
          qw2 = qword2 memhndl;
          crc = 0;
          crc = crc_step qw1 0 crc;
          crc = crc_step qw1 8 crc;
          crc = crc_step qw1 16 crc;
          crc = crc_step qw1 24 crc;
          crc = crc_step qw1 32 crc;
          crc = crc_step qw1 40 crc;
          crc = crc_step qw1 48 crc;
          crc = crc_step qw1 56 crc;
          crc = crc_step qw2 0 crc;
          crc = crc_step qw2 8 crc;
          crc = crc_step qw2 16 crc;
          crc = crc_step qw2 24 crc;
          crc = crc_step qw2 32 crc;
          crc = crc_step qw2 40 crc;
          crc = crc_step qw2 48 crc
      in crc)"

definition gni_memhndl_cookie_crc :: "u64 \<Rightarrow> u8" where
  "gni_memhndl_cookie_crc value =
     (let crc = 0;
          crc = crc_step value 0 crc;
          crc = crc_step value 8 crc;
          crc = crc_step value 16 crc;
          crc = crc_step value 24 crc;
          crc = crc_step value 32 crc;
          crc = crc_step value 40 crc;
          crc = crc_step value 48 crc;
          crc = crc_step value 56 crc
      in crc)"

definition GNI_MEMHNDL_SET_CRC :: "gni_mem_handle \<Rightarrow> gni_mem_handle" where
  "GNI_MEMHNDL_SET_CRC h = h\<lparr>qword2 := qword2 h OR push_bit 56 (ucast (gni_memhndl_calc_crc h))\<rparr>"

definition GNI_MEMHNDL_VERIFY :: "gni_mem_handle \<Rightarrow> bool" where
  "GNI_MEMHNDL_VERIFY h \<longleftrightarrow> drop_bit 56 (qword2 h) AND 0xFF = ucast (gni_memhndl_calc_crc h)"

section \<open>Field laws\<close>

lemma memhndl_masks:
  "(0x000FFFFFFFFFFFFF :: u64) = mask 52" "(0xFFF :: u64) = mask 12" "(0xFFFFFFF :: u64) = mask 28"
  "(0x3F :: u64) = mask 6" "(0xFF :: u64) = mask 8"
  by (simp_all add: mask_eq_exp_minus_1)

lemma and_memhndl_masks [simp]:
  fixes x :: u64
  shows "x AND 0x000FFFFFFFFFFFFF = take_bit 52 x" "x AND 0xFFF = take_bit 12 x"
    "x AND 0xFFFFFFF = take_bit 28 x" "x AND 0x3F = take_bit 6 x" "x AND 0xFF = take_bit 8 x"
  by (simp_all add: memhndl_masks take_bit_eq_mask)

text \<open>
  The contract of a setter that ORs into its field: what is read afterwards is the union of the
  old and the new bits of that field. Two fields are independent if neither setter is seen by
  the getter of the other.
\<close>

locale or_field =
  fixes get :: "'h \<Rightarrow> u64" and put :: "'h \<Rightarrow> u64 \<Rightarrow> 'h" and norm :: "u64 \<Rightarrow> u64"
  assumes get_put: "get (put h v) = get h OR norm v"
begin

lemma get_put_clear: "get h = 0 \<Longrightarrow> get (put h v) = norm v"
  by (simp add: get_put)

lemma get_put_twice: "get (put (put h v) v) = get (put h v)"
  by (simp add: get_put or.assoc)

lemma get_put_zero: "norm v = 0 \<Longrightarrow> get (put h v) = get h"
  by (simp add: get_put)

end

locale or_field_pair = a: or_field geta puta norma + b: or_field getb putb normb
  for geta :: "'h \<Rightarrow> u64" and puta norma and getb :: "'h \<Rightarrow> u64" and putb normb +
  assumes frame_a: "getb (puta h v) = getb h"
    and frame_b: "geta (putb h v) = geta h"
begin

lemma both_clear:
  assumes "geta h = 0" "getb h = 0"
  shows "geta (putb (puta h v) w) = norma v" "getb (putb (puta h v) w) = normb w"
  using assms by (simp_all add: frame_a frame_b a.get_put_clear b.get_put_clear)

lemma put_order:
  "geta (putb (puta h v) w) = geta (puta (putb h w) v)"
  "getb (putb (puta h v) w) = getb (puta (putb h w) v)"
  by (simp_all add: frame_a frame_b a.get_put b.get_put)

end

lemmas bit_field = bit_eqI bit_simps

interpretation va_mdh: or_field_pair GNI_MEMHNDL_GET_VA GNI_MEMHNDL_SET_VA
    "\<lambda>v. push_bit 12 (drop_bit 12 v)" GNI_MEMHNDL_GET_MDH GNI_MEMHNDL_SET_MDH "take_bit 12"
  by unfold_locales (auto simp: memhndl_defs bit_simps intro!: bit_eqI)

interpretation npages_psize: or_field_pair GNI_MEMHNDL_GET_NPAGES GNI_MEMHNDL_SET_NPAGES
    "take_bit 28" memhndl_pageshift GNI_MEMHNDL_SET_PAGESIZE "take_bit 6"
  by unfold_locales (auto simp: memhndl_defs bit_simps intro!: bit_eqI)

interpretation npages_flags: or_field_pair GNI_MEMHNDL_GET_NPAGES GNI_MEMHNDL_SET_NPAGES
    "take_bit 28" GNI_MEMHNDL_GET_FLAGS GNI_MEMHNDL_SET_FLAGS "take_bit 8"
  by unfold_locales (auto simp: memhndl_defs bit_simps intro!: bit_eqI)

interpretation psize_flags: or_field_pair memhndl_pageshift GNI_MEMHNDL_SET_PAGESIZE
    "take_bit 6" GNI_MEMHNDL_GET_FLAGS GNI_MEMHNDL_SET_FLAGS "take_bit 8"
  by unfold_locales (auto simp: memhndl_defs bit_simps intro!: bit_eqI)

section \<open>CRC laws\<close>

text \<open>The reference: a byte-wise CRC is a left fold of one byte step over the message.\<close>

definition crc8_step :: "u8 \<Rightarrow> u8 \<Rightarrow> u8" where
  "crc8_step crc b = gni_crc_bits (b XOR crc)"

definition crc8 :: "u8 list \<Rightarrow> u8" where
  "crc8 bs = foldl crc8_step 0 bs"

definition byte_of :: "u64 \<Rightarrow> nat \<Rightarrow> u8" where
  "byte_of qw k = ucast (drop_bit (8 * k) qw)"

definition memhndl_bytes :: "gni_mem_handle \<Rightarrow> u8 list" where
  "memhndl_bytes h = map (byte_of (qword1 h)) [0..<8] @ map (byte_of (qword2 h)) [0..<7]"

lemma crc_step_byte: "crc_step qw (8 * k) crc = crc8_step crc (byte_of qw k)"
proof -
  have "ucast ((drop_bit (8 * k) qw XOR ucast crc) AND 0xff) = (ucast (drop_bit (8 * k) qw) XOR crc :: u8)"
    by (auto intro!: bit_eqI simp: bit_simps)
  then show ?thesis by (simp add: crc_step_def crc8_step_def byte_of_def)
qed

lemmas crc_step_bytes =
  crc_step_byte [of _ 0, simplified] crc_step_byte [of _ 1, simplified] crc_step_byte [of _ 2, simplified]
  crc_step_byte [of _ 3, simplified] crc_step_byte [of _ 4, simplified] crc_step_byte [of _ 5, simplified]
  crc_step_byte [of _ 6, simplified] crc_step_byte [of _ 7, simplified]

lemma upt_8: "[0..<8] = [0, 1, 2, 3, 4, 5, 6, 7 :: nat]"
  and upt_7: "[0..<7] = [0, 1, 2, 3, 4, 5, 6 :: nat]"
  by (simp_all add: upt_rec)

lemma calc_crc_eq_crc8: "gni_memhndl_calc_crc h = crc8 (memhndl_bytes h)"
  by (simp add: gni_memhndl_calc_crc_def Let_def crc_step_bytes crc8_def memhndl_bytes_def upt_8 upt_7)

lemma cookie_crc_eq_crc8: "gni_memhndl_cookie_crc v = crc8 (map (byte_of v) [0..<8])"
  by (simp add: gni_memhndl_cookie_crc_def Let_def crc_step_bytes crc8_def upt_8)

text \<open>
  The byte step loses nothing: \<open>gni_crc_bits\<close> is linear over XOR and only zero is mapped to
  zero, so it is a permutation of the bytes.
\<close>

definition sel :: "bool \<Rightarrow> u8 \<Rightarrow> u8" where
  "sel b c = (if b then c else 0)"

lemma sel_xor: "sel (a \<noteq> b) c = sel a c XOR sel b c"
  by (simp add: sel_def)

lemma if_xor_sel: "(if b then c XOR d else c) = c XOR sel b d"
  by (simp add: sel_def)

lemma and_bit_u8:
  fixes x :: u8
  shows "x AND 1 \<noteq> 0 \<longleftrightarrow> bit x 0" "x AND 2 \<noteq> 0 \<longleftrightarrow> bit x 1" "x AND 4 \<noteq> 0 \<longleftrightarrow> bit x 2"
    "x AND 8 \<noteq> 0 \<longleftrightarrow> bit x 3" "x AND 0x10 \<noteq> 0 \<longleftrightarrow> bit x 4" "x AND 0x20 \<noteq> 0 \<longleftrightarrow> bit x 5"
    "x AND 0x40 \<noteq> 0 \<longleftrightarrow> bit x 6" "x AND 0x80 \<noteq> 0 \<longleftrightarrow> bit x 7"
  using and_exp_eq_0_iff_not_bit [of x 0] and_exp_eq_0_iff_not_bit [of x 1]
    and_exp_eq_0_iff_not_bit [of x 2] and_exp_eq_0_iff_not_bit [of x 3]
    and_exp_eq_0_iff_not_bit [of x 4] and_exp_eq_0_iff_not_bit [of x 5]
    and_exp_eq_0_iff_not_bit [of x 6] and_exp_eq_0_iff_not_bit [of x 7]
  by simp_all

lemma gni_crc_bits_sum:
  "gni_crc_bits x =
     sel (bit x 0) 0x5e XOR sel (bit x 1) 0xbc XOR sel (bit x 2) 0x61 XOR sel (bit x 3) 0xc2 XOR
     sel (bit x 4) 0x9d XOR sel (bit x 5) 0x23 XOR sel (bit x 6) 0x46 XOR sel (bit x 7) 0x8c"
  by (simp only: gni_crc_bits_def Let_def and_bit_u8 if_xor_sel xor.assoc xor.left_neutral)

lemma gni_crc_bits_xor: "gni_crc_bits (x XOR y) = gni_crc_bits x XOR gni_crc_bits y"
  by (simp only: gni_crc_bits_sum bit_xor_iff sel_xor xor.assoc xor.commute xor.left_commute)

lemma crc_columns_independent:
  assumes "sel b0 0x5e XOR sel b1 0xbc XOR sel b2 0x61 XOR sel b3 0xc2 XOR
     sel b4 0x9d XOR sel b5 0x23 XOR sel b6 0x46 XOR sel b7 0x8c = 0"
  shows "\<not> b0 \<and> \<not> b1 \<and> \<not> b2 \<and> \<not> b3 \<and> \<not> b4 \<and> \<not> b5 \<and> \<not> b6 \<and> \<not> b7"
  using assms
  by (cases b0; cases b1; cases b2; cases b3; cases b4; cases b5; cases b6; cases b7)
    (simp_all add: sel_def)

lemma less_8_cases: "(n :: nat) < 8 \<Longrightarrow> n \<in> {0, 1, 2, 3, 4, 5, 6, 7}"
  by auto

lemma gni_crc_bits_zero: "gni_crc_bits x = 0 \<longleftrightarrow> x = 0"
proof
  assume "gni_crc_bits x = 0"
  from crc_columns_independent [OF this [unfolded gni_crc_bits_sum]]
  have none: "\<not> bit x n" if "n < 8" for n
    using less_8_cases [OF that] by auto
  show "x = 0"
    by (rule bit_eqI) (use none in simp)
qed (simp add: gni_crc_bits_sum sel_def)

lemma inj_gni_crc_bits: "inj gni_crc_bits"
proof (rule injI)
  fix x y
  assume "gni_crc_bits x = gni_crc_bits y"
  then have "gni_crc_bits (x XOR y) = 0" by (simp add: gni_crc_bits_xor)
  then have "x XOR y = 0" by (simp add: gni_crc_bits_zero)
  then show "x = y" by (metis xor.assoc xor.right_neutral xor_self_eq xor.left_neutral)
qed

lemma crc8_step_inj1: "crc8_step c b = crc8_step c' b \<longleftrightarrow> c = c'"
  unfolding crc8_step_def
  by (metis inj_gni_crc_bits injD xor.assoc xor.commute xor_self_eq xor.left_neutral)

lemma crc8_step_inj2: "crc8_step c b = crc8_step c b' \<longleftrightarrow> b = b'"
  unfolding crc8_step_def
  by (metis inj_gni_crc_bits injD xor.assoc xor.commute xor_self_eq xor.left_neutral)

lemma foldl_crc8_inj: "foldl crc8_step c bs = foldl crc8_step c' bs \<longleftrightarrow> c = c'"
  by (induction bs arbitrary: c c') (simp_all add: crc8_step_inj1)

lemma crc8_one_byte:
  assumes "crc8 (xs @ b # ys) = crc8 (xs @ b' # ys)"
  shows "b = b'"
  using assms by (simp add: crc8_def foldl_crc8_inj crc8_step_inj2)

lemma crc8_list_update:
  assumes "k < length bs" and "b \<noteq> bs ! k"
  shows "crc8 (bs[k := b]) \<noteq> crc8 bs"
proof
  assume eq: "crc8 (bs[k := b]) = crc8 bs"
  have "bs = take k bs @ bs ! k # drop (Suc k) bs" using assms(1) by (rule id_take_nth_drop)
  with eq have "crc8 (take k bs @ b # drop (Suc k) bs) = crc8 (take k bs @ bs ! k # drop (Suc k) bs)"
    using assms(1) by (simp add: upd_conv_take_nth_drop)
  then show False using assms(2) by (blast dest: crc8_one_byte)
qed

lemma byte_of_xor: "byte_of (a XOR b) j = byte_of a j XOR byte_of b j"
  by (auto intro!: bit_eqI simp: byte_of_def bit_simps)

lemma byte_of_push:
  assumes "k < 8" and "j < 8"
  shows "byte_of (push_bit (8 * k) (ucast e)) j = (if j = k then e else 0)"
proof (rule bit_eqI)
  fix n
  assume "possible_bit TYPE(u8) n"
  then have n: "n < 8" by simp
  have sep: "j < k \<or> j = k \<or> k < j" by arith
  show "bit (byte_of (push_bit (8 * k) (ucast e)) j) n = bit (if j = k then e else 0) n"
    using n assms sep bit_imp_le_length [of e "8 * j + n - 8 * k"]
    by (auto simp: byte_of_def bit_simps)
qed

lemma byte_of_corrupt:
  "k < 8 \<Longrightarrow> j < 8 \<Longrightarrow>
    byte_of (qw XOR push_bit (8 * k) (ucast e)) j = (if j = k then byte_of qw j XOR e else byte_of qw j)"
  by (simp add: byte_of_xor byte_of_push)

lemma map_byte_of_corrupt:
  assumes "k < 8" and "n \<le> 8"
  shows "map (byte_of (qw XOR push_bit (8 * k) (ucast e))) [0..<n] =
    (map (byte_of qw) [0..<n])[k := byte_of qw k XOR e]"
  using assms by (intro nth_equalityI) (auto simp: byte_of_corrupt nth_list_update)

lemma VERIFY_iff: "GNI_MEMHNDL_VERIFY h \<longleftrightarrow> byte_of (qword2 h) 7 = crc8 (memhndl_bytes h)"
proof -
  have "byte_of (qword2 h) 7 = ucast (drop_bit 56 (qword2 h) AND 0xFF)"
    by (auto intro!: bit_eqI simp: byte_of_def bit_simps)
  moreover have "ucast (ucast (drop_bit 56 (qword2 h) AND 0xFF) :: u8) = drop_bit 56 (qword2 h) AND 0xFF"
    by (auto intro!: bit_eqI simp: bit_simps)
  moreover have "ucast (ucast c :: u64) = c" for c :: u8
    by (auto intro!: bit_eqI simp: bit_simps)
  ultimately show ?thesis
    unfolding GNI_MEMHNDL_VERIFY_def calc_crc_eq_crc8 by metis
qed

lemma xor_eq_self: "(b :: u8) XOR e = b \<longleftrightarrow> e = 0"
proof
  assume "b XOR e = b"
  then have "b XOR (b XOR e) = b XOR b" by simp
  then show "e = 0" by (simp flip: xor.assoc)
qed simp

lemma corrupt_qword1:
  assumes "GNI_MEMHNDL_VERIFY h" and "e \<noteq> (0 :: u8)" and "k < 8"
  shows "\<not> GNI_MEMHNDL_VERIFY (h\<lparr>qword1 := qword1 h XOR push_bit (8 * k) (ucast e)\<rparr>)"
proof -
  let ?h = "h\<lparr>qword1 := qword1 h XOR push_bit (8 * k) (ucast e)\<rparr>"
  have k: "k < length (memhndl_bytes h)" using assms(3) by (simp add: memhndl_bytes_def)
  have "memhndl_bytes ?h = (memhndl_bytes h)[k := byte_of (qword1 h) k XOR e]"
    using assms(3) by (simp add: memhndl_bytes_def map_byte_of_corrupt list_update_append)
  moreover have "memhndl_bytes h ! k = byte_of (qword1 h) k"
    using assms(3) by (simp add: memhndl_bytes_def nth_append)
  ultimately have "crc8 (memhndl_bytes ?h) \<noteq> crc8 (memhndl_bytes h)"
    using crc8_list_update [OF k] assms(2) by (simp add: xor_eq_self)
  with assms(1) show ?thesis by (simp add: VERIFY_iff)
qed

lemma corrupt_qword2:
  assumes "GNI_MEMHNDL_VERIFY h" and "e \<noteq> (0 :: u8)" and "k < 8"
  shows "\<not> GNI_MEMHNDL_VERIFY (h\<lparr>qword2 := qword2 h XOR push_bit (8 * k) (ucast e)\<rparr>)"
proof -
  let ?h = "h\<lparr>qword2 := qword2 h XOR push_bit (8 * k) (ucast e)\<rparr>"
  have bytes: "memhndl_bytes ?h =
      (if k = 7 then memhndl_bytes h else (memhndl_bytes h)[8 + k := byte_of (qword2 h) k XOR e])"
    using assms(3)
    by (simp add: memhndl_bytes_def map_byte_of_corrupt list_update_append list_update_beyond)
  show ?thesis
  proof (cases "k = 7")
    case True
    with assms bytes byte_of_corrupt [of 7 7 "qword2 h" e] show ?thesis
      by (simp add: VERIFY_iff xor_eq_self)
  next
    case False
    then have k: "8 + k < length (memhndl_bytes h)" using assms(3) by (simp add: memhndl_bytes_def)
    have "memhndl_bytes h ! (8 + k) = byte_of (qword2 h) k"
      using assms(3) False by (simp add: memhndl_bytes_def nth_append)
    with crc8_list_update [OF k] assms(2) False bytes
    have "crc8 (memhndl_bytes ?h) \<noteq> crc8 (memhndl_bytes h)" by (simp add: xor_eq_self)
    with assms False show ?thesis by (simp add: VERIFY_iff byte_of_corrupt)
  qed
qed

lemma crc_step_0: "crc_step 0 k 0 = 0"
  by (simp add: crc_step_def gni_crc_bits_sum sel_def)

lemma VERIFY_INIT: "GNI_MEMHNDL_VERIFY GNI_MEMHNDL_INIT"
  unfolding GNI_MEMHNDL_VERIFY_def GNI_MEMHNDL_INIT_def gni_memhndl_calc_crc_def Let_def
    gni_mem_handle.simps crc_step_0
  by simp

text \<open>
  C20. A verified memory handle in which one byte has been damaged in any way, in either word and
  the CRC byte included, does not verify any more.
\<close>

theorem memhndl_byte_error_detected:
  assumes "GNI_MEMHNDL_VERIFY h" and "e \<noteq> (0 :: u8)" and "k < 8"
  shows "\<not> GNI_MEMHNDL_VERIFY (h\<lparr>qword1 := qword1 h XOR push_bit (8 * k) (ucast e)\<rparr>) \<and>
    \<not> GNI_MEMHNDL_VERIFY (h\<lparr>qword2 := qword2 h XOR push_bit (8 * k) (ucast e)\<rparr>)"
  using corrupt_qword1 [OF assms] corrupt_qword2 [OF assms] by blast

theorem memhndl_byte_error_detected_witness:
  "\<not> GNI_MEMHNDL_VERIFY \<lparr>qword1 = 0x10, qword2 = 0\<rparr> \<and> \<not> GNI_MEMHNDL_VERIFY \<lparr>qword1 = 0, qword2 = 0x10\<rparr>"
proof -
  have "GNI_MEMHNDL_VERIFY GNI_MEMHNDL_INIT" by (rule VERIFY_INIT)
  from memhndl_byte_error_detected [OF this, where e = "0x10" and k = "0"] show ?thesis
    by (simp add: GNI_MEMHNDL_INIT_def)
qed

lemma GET_SET_CRC [simp]:
  "GNI_MEMHNDL_GET_VA (GNI_MEMHNDL_SET_CRC h) = GNI_MEMHNDL_GET_VA h"
  "GNI_MEMHNDL_GET_MDH (GNI_MEMHNDL_SET_CRC h) = GNI_MEMHNDL_GET_MDH h"
  "GNI_MEMHNDL_GET_NPAGES (GNI_MEMHNDL_SET_CRC h) = GNI_MEMHNDL_GET_NPAGES h"
  "memhndl_pageshift (GNI_MEMHNDL_SET_CRC h) = memhndl_pageshift h"
  "GNI_MEMHNDL_GET_FLAGS (GNI_MEMHNDL_SET_CRC h) = GNI_MEMHNDL_GET_FLAGS h"
  by (auto simp: GNI_MEMHNDL_SET_CRC_def memhndl_defs bit_simps intro!: bit_eqI)

lemma byte_of_or: "byte_of (a OR b) j = byte_of a j OR byte_of b j"
  by (auto intro!: bit_eqI simp: byte_of_def bit_simps)

lemma VERIFY_SET_CRC:
  assumes "byte_of (qword2 h) 7 = 0"
  shows "GNI_MEMHNDL_VERIFY (GNI_MEMHNDL_SET_CRC h)"
proof -
  let ?c = "gni_memhndl_calc_crc h"
  have b: "byte_of (push_bit 56 (ucast ?c)) j = (if j = 7 then ?c else 0)" if "j < 8" for j
    using byte_of_push [of 7 j ?c] that by simp
  have "memhndl_bytes (GNI_MEMHNDL_SET_CRC h) = memhndl_bytes h"
    by (simp add: memhndl_bytes_def GNI_MEMHNDL_SET_CRC_def byte_of_or b)
  moreover have "byte_of (qword2 (GNI_MEMHNDL_SET_CRC h)) 7 = ?c"
    using assms by (simp add: GNI_MEMHNDL_SET_CRC_def byte_of_or b)
  ultimately show ?thesis by (simp add: VERIFY_iff calc_crc_eq_crc8)
qed

lemma qword_frames [simp]:
  "qword2 (GNI_MEMHNDL_SET_VA h v) = qword2 h" "qword2 (GNI_MEMHNDL_SET_MDH h v) = qword2 h"
  "qword1 (GNI_MEMHNDL_SET_NPAGES h v) = qword1 h" "qword1 (GNI_MEMHNDL_SET_PAGESIZE h v) = qword1 h"
  "qword1 (GNI_MEMHNDL_SET_FLAGS h v) = qword1 h"
  by (simp_all add: memhndl_defs)

lemma get_cong:
  "qword1 h = qword1 h' \<Longrightarrow> GNI_MEMHNDL_GET_VA h = GNI_MEMHNDL_GET_VA h'"
  "qword1 h = qword1 h' \<Longrightarrow> GNI_MEMHNDL_GET_MDH h = GNI_MEMHNDL_GET_MDH h'"
  by (simp_all add: memhndl_defs)

lemma crc_byte_frames:
  "byte_of (qword2 (GNI_MEMHNDL_SET_NPAGES h v)) 7 = byte_of (qword2 h) 7"
  "byte_of (qword2 (GNI_MEMHNDL_SET_PAGESIZE h v)) 7 = byte_of (qword2 h) 7"
  "byte_of (qword2 (GNI_MEMHNDL_SET_FLAGS h v)) 7 = byte_of (qword2 h) 7"
  by (auto simp: memhndl_defs byte_of_def bit_simps intro!: bit_eqI)

lemma INIT_clear [simp]:
  "GNI_MEMHNDL_GET_VA GNI_MEMHNDL_INIT = 0" "GNI_MEMHNDL_GET_MDH GNI_MEMHNDL_INIT = 0"
  "GNI_MEMHNDL_GET_NPAGES GNI_MEMHNDL_INIT = 0" "memhndl_pageshift GNI_MEMHNDL_INIT = 0"
  "GNI_MEMHNDL_GET_FLAGS GNI_MEMHNDL_INIT = 0" "byte_of (qword2 GNI_MEMHNDL_INIT) 7 = 0"
  by (simp_all add: memhndl_defs GNI_MEMHNDL_INIT_def byte_of_def)

text \<open>
  C21. A memory handle built as the macros prescribe (initialise, set every field once, set the
  CRC last) verifies, and each getter returns the value its setter was given, cut to the width
  of its field: the page-aligned part of the address, 12 bits of the domain handle, 28 bits of
  the page count, the page size as a power of two, and 8 bits of flags.
\<close>

theorem memhndl_roundtrip:
  fixes va mdh npages pshift flags :: u64
  defines "h \<equiv> GNI_MEMHNDL_SET_CRC (GNI_MEMHNDL_SET_FLAGS (GNI_MEMHNDL_SET_PAGESIZE
      (GNI_MEMHNDL_SET_NPAGES (GNI_MEMHNDL_SET_MDH (GNI_MEMHNDL_SET_VA GNI_MEMHNDL_INIT va) mdh)
        npages) pshift) flags)"
  shows "GNI_MEMHNDL_VERIFY h \<and>
    GNI_MEMHNDL_GET_VA h = push_bit 12 (drop_bit 12 va) \<and>
    GNI_MEMHNDL_GET_MDH h = take_bit 12 mdh \<and>
    GNI_MEMHNDL_GET_NPAGES h = take_bit 28 npages \<and>
    GNI_MEMHNDL_GET_PAGESIZE h = 2 ^ (unat pshift mod 64) \<and>
    GNI_MEMHNDL_GET_FLAGS h = take_bit 8 flags"
proof -
  let ?a = "GNI_MEMHNDL_SET_MDH (GNI_MEMHNDL_SET_VA GNI_MEMHNDL_INIT va) mdh"
  have q2: "qword2 ?a = qword2 GNI_MEMHNDL_INIT" by simp
  then have clear: "GNI_MEMHNDL_GET_NPAGES ?a = 0" "memhndl_pageshift ?a = 0"
      "GNI_MEMHNDL_GET_FLAGS ?a = 0" "byte_of (qword2 ?a) 7 = 0"
    by (simp_all add: memhndl_defs GNI_MEMHNDL_INIT_def byte_of_def)
  have q1: "qword1 (GNI_MEMHNDL_SET_FLAGS (GNI_MEMHNDL_SET_PAGESIZE
      (GNI_MEMHNDL_SET_NPAGES ?a npages) pshift) flags) = qword1 ?a" by simp
  have "memhndl_pageshift h = take_bit 6 pshift"
    unfolding h_def using clear
    by (simp add: psize_flags.frame_b npages_psize.both_clear)
  moreover have "unat (take_bit 6 pshift) = unat pshift mod 64"
    by (simp only: unsigned_take_bit_eq) (simp add: take_bit_eq_mod)
  ultimately have ps: "GNI_MEMHNDL_GET_PAGESIZE h = 2 ^ (unat pshift mod 64)"
    by (simp add: GNI_MEMHNDL_GET_PAGESIZE_def push_bit_eq_mult)
  show ?thesis
    using ps clear unfolding h_def GET_SET_CRC get_cong [OF q1]
    by (simp add: VERIFY_SET_CRC crc_byte_frames va_mdh.both_clear npages_flags.frame_b
        npages_psize.both_clear npages_flags.frame_a psize_flags.frame_a
        npages_flags.b.get_put_clear)
qed

section \<open>The CRC against its shift register\<close>

text \<open>
  The reference of the CRC routines: the shift register of the polynomial $x^8 + x^5 + x^4 + 1$, which takes the bits of the
  message one at a time, the lowest bit of each byte first.
\<close>

definition lfsr_bit :: "u8 \<Rightarrow> bool \<Rightarrow> u8" where
  "lfsr_bit r b = (if bit r 0 \<noteq> b then drop_bit 1 r XOR 0x8C else drop_bit 1 r)"

definition lfsr :: "u8 \<Rightarrow> bool list \<Rightarrow> u8" where
  "lfsr r bs = foldl lfsr_bit r bs"

definition lfsr_shift :: "u8 \<Rightarrow> u8" where
  "lfsr_shift r = drop_bit 1 r XOR sel (bit r 0) 0x8C"

lemma lfsr_bit_shift: "lfsr_bit r b = lfsr_shift (r XOR of_bool b)"
  by (auto simp: lfsr_bit_def lfsr_shift_def sel_def bit_simps intro!: bit_eqI)

lemma shift_xor: "lfsr_shift (x XOR y) = lfsr_shift x XOR lfsr_shift y"
  by (simp only: lfsr_shift_def drop_bit_xor sel_xor bit_xor_iff xor.assoc xor.commute xor.left_commute)

lemma shift_pow_xor: "(lfsr_shift ^^ k) (x XOR y) = (lfsr_shift ^^ k) x XOR (lfsr_shift ^^ k) y"
  by (induction k) (simp_all add: shift_xor)

lemma shift_pow_push: "k < 8 \<Longrightarrow> (lfsr_shift ^^ k) (push_bit k (of_bool b)) = of_bool b"
proof (induction k)
  case (Suc k)
  have "lfsr_shift (push_bit (Suc k) (of_bool b)) = push_bit k (of_bool b)"
    using Suc.prems by (intro bit_eqI) (auto simp: lfsr_shift_def sel_def bit_simps)
  with Suc show ?case by (simp add: funpow_swap1)
qed simp

lemma lfsr_take:
  "k \<le> 8 \<Longrightarrow> lfsr r (map (bit b) [0..<k]) = (lfsr_shift ^^ k) (r XOR take_bit k b)"
proof (induction k)
  case (Suc k)
  have t: "r XOR take_bit (Suc k) b = (r XOR take_bit k b) XOR push_bit k (of_bool (bit b k))"
    using Suc.prems by (intro bit_eqI) (auto simp: bit_simps less_Suc_eq)
  have "lfsr r (map (bit b) [0..<Suc k]) = lfsr_shift ((lfsr_shift ^^ k) (r XOR take_bit k b) XOR of_bool (bit b k))"
    using Suc by (simp add: lfsr_def lfsr_bit_shift)
  also have "\<dots> = (lfsr_shift ^^ Suc k) (r XOR take_bit (Suc k) b)"
    using Suc.prems by (simp only: t shift_pow_xor shift_pow_push funpow.simps comp_def shift_xor Suc_le_lessD)
  finally show ?case .
qed (simp add: lfsr_def)

lemma shift_columns:
  "(lfsr_shift ^^ 8) (push_bit 0 1) = 0x5e" "(lfsr_shift ^^ 8) (push_bit 1 1) = 0xbc" "(lfsr_shift ^^ 8) (push_bit 2 1) = 0x61"
  "(lfsr_shift ^^ 8) (push_bit 3 1) = 0xc2" "(lfsr_shift ^^ 8) (push_bit 4 1) = 0x9d" "(lfsr_shift ^^ 8) (push_bit 5 1) = 0x23"
  "(lfsr_shift ^^ 8) (push_bit 6 1) = 0x46" "(lfsr_shift ^^ 8) (push_bit 7 1) = 0x8c" "(lfsr_shift ^^ 8) 0 = 0"
  by code_simp+

lemma bit_sel: "bit (sel b c) n \<longleftrightarrow> b \<and> bit c n"
  by (simp add: sel_def)

lemma byte_sum:
  fixes x :: u8
  shows "x = sel (bit x 0) (push_bit 0 1) XOR sel (bit x 1) (push_bit 1 1) XOR sel (bit x 2) (push_bit 2 1) XOR
    sel (bit x 3) (push_bit 3 1) XOR sel (bit x 4) (push_bit 4 1) XOR sel (bit x 5) (push_bit 5 1) XOR
    sel (bit x 6) (push_bit 6 1) XOR sel (bit x 7) (push_bit 7 1)"
proof (rule bit_eqI)
  fix n
  assume "possible_bit TYPE(u8) n"
  then have "n < 8" by simp
  from less_8_cases[OF this] show "bit x n \<longleftrightarrow> bit (sel (bit x 0) (push_bit 0 1) XOR sel (bit x 1) (push_bit 1 1) XOR
    sel (bit x 2) (push_bit 2 1) XOR sel (bit x 3) (push_bit 3 1) XOR sel (bit x 4) (push_bit 4 1) XOR
    sel (bit x 5) (push_bit 5 1) XOR sel (bit x 6) (push_bit 6 1) XOR sel (bit x 7) (push_bit 7 1)) n"
    unfolding bit_xor_iff bit_sel by (elim insertE emptyE; hypsubst) simp_all
qed

lemma shift_sel: "(lfsr_shift ^^ 8) (sel b x) = sel b ((lfsr_shift ^^ 8) x)"
  by (simp add: sel_def shift_columns)

lemma shift_byte: "(lfsr_shift ^^ 8) x = gni_crc_bits x"
  unfolding gni_crc_bits_sum by (subst byte_sum) (simp only: shift_pow_xor shift_sel shift_columns)

lemma lfsr_byte: "lfsr r (map (bit b) [0..<8]) = crc8_step r b"
proof -
  have "take_bit 8 b = b" by (rule bit_eqI) (auto simp: bit_simps)
  with lfsr_take[of 8 r b] show ?thesis by (simp add: shift_byte crc8_step_def xor.commute)
qed

lemma lfsr_append: "lfsr r (xs @ ys) = lfsr (lfsr r xs) ys"
  by (simp add: lfsr_def)

lemma lfsr_bytes: "lfsr r (map (bit qw) [0..<8 * k]) = foldl crc8_step r (map (byte_of qw) [0..<k])" if "k \<le> 8"
  using that
proof (induction k)
  case (Suc k)
  have "[0..<8 * Suc k] = [0..<8 * k] @ map (\<lambda>i. i + 8 * k) [0..<8]"
    using upt_add_eq_append[of 0 "8 * k" 8] by (simp add: map_add_upt add.commute)
  then have "map (bit qw) [0..<8 * Suc k] = map (bit qw) [0..<8 * k] @ map (bit (byte_of qw k)) [0..<8]"
    using Suc.prems by (auto simp: byte_of_def bit_simps add.commute)
  with Suc show ?case by (simp add: lfsr_append lfsr_byte)
qed (simp add: lfsr_def)

text \<open>
  C19. The unrolled CRC routines compute a genuine CRC-8: of a memory handle they give the content of the shift register of the
  polynomial $x^8 + x^5 + x^4 + 1$ (the reference \<open>lfsr\<close>, one message bit per step) after the 120 bits of the two words that
  precede the CRC byte, and of a cookie that after its 64 bits.
\<close>

theorem crc_is_shift_register:
  "gni_memhndl_calc_crc h = lfsr 0 (map (bit (qword1 h)) [0..<64] @ map (bit (qword2 h)) [0..<56]) \<and>
   gni_memhndl_cookie_crc v = lfsr 0 (map (bit v) [0..<64])"
  using lfsr_bytes[of 8] lfsr_bytes[of 7]
  by (simp add: calc_crc_eq_crc8 cookie_crc_eq_crc8 crc8_def memhndl_bytes_def lfsr_append)

end
