(* ===== verification/Driver.thy ===== *)
theory Driver
  imports Prelude
begin

text \<open>
  The data of the host driver: the structures of \<open>gni_priv.h\<close> that \<open>kgni_ops.c\<close> works on, the
  file-level variables of \<open>kgni_ops.c\<close>, and the state they form together. Objects are kept in
  maps from addresses, so that freeing an object and following a stale pointer are visible.
  Structures that are declared in headers outside the repository (the session descriptor, its
  packet and the channel, from the driver's private header) have the fields the code reads and
  writes; constants and functions of those headers are collected in the record \<open>kgni_env\<close>.
\<close>

section \<open>Handle types and wildcards\<close>

definition GNI_TYPE_INVALID :: u32 where "GNI_TYPE_INVALID = 0"
definition GNI_TYPE_CDM_HANDLE :: u32 where "GNI_TYPE_CDM_HANDLE = 0xABCD0000"
definition GNI_TYPE_NIC_HANDLE :: u32 where "GNI_TYPE_NIC_HANDLE = 0xABCD0001"
definition GNI_TYPE_EP_HANDLE :: u32 where "GNI_TYPE_EP_HANDLE = 0xABCD0002"
definition GNI_TYPE_CQ_HANDLE :: u32 where "GNI_TYPE_CQ_HANDLE = 0xABCD0004"

lemmas gni_type_defs = GNI_TYPE_INVALID_def GNI_TYPE_CDM_HANDLE_def GNI_TYPE_NIC_HANDLE_def
  GNI_TYPE_EP_HANDLE_def GNI_TYPE_CQ_HANDLE_def

abbreviation GNI_CDM_INVALID_ID :: u32 where "GNI_CDM_INVALID_ID \<equiv> - 1"
abbreviation GNI_NIC_INVALID_ID :: u32 where "GNI_NIC_INVALID_ID \<equiv> - 1"
abbreviation GNI_VMDH_INVALID_ID :: u32 where "GNI_VMDH_INVALID_ID \<equiv> - 1"
abbreviation GNI_MAX_NICS_ATTACHED :: nat where "GNI_MAX_NICS_ATTACHED \<equiv> 32"
abbreviation GNI_DATAGRAM_MAXSIZE :: nat where "GNI_DATAGRAM_MAXSIZE \<equiv> 128"
abbreviation GNII_REMOTE_PE_ANY :: u32 where "GNII_REMOTE_PE_ANY \<equiv> - 1"
abbreviation GNII_REMOTE_ID_ANY :: u32 where "GNII_REMOTE_ID_ANY \<equiv> - 1"

definition GNI_EP_BOUND :: "u32 \<Rightarrow> u32 \<Rightarrow> bool" where
  "GNI_EP_BOUND rem_pe rem_id \<longleftrightarrow> rem_pe \<noteq> GNII_REMOTE_PE_ANY \<and> rem_id \<noteq> GNII_REMOTE_ID_ANY"

definition GNI_COOKIE_PKEY :: "u32 \<Rightarrow> u16" where
  "GNI_COOKIE_PKEY cookie = ucast (drop_bit 16 cookie)"

datatype gni_cdm_type = GNI_CDM_TYPE_KERNEL | GNI_CDM_TYPE_USER

section \<open>Datagram sessions\<close>

datatype sm_state =
    KGNI_SM_STATE_LOCINFO_READY
  | KGNI_SM_STATE_REMINFO_READY
  | KGNI_SM_STATE_COMPLETED
  | KGNI_SM_STATE_TERMINATE_INIT
  | KGNI_SM_STATE_TERMINATED
  | KGNI_SM_STATE_TIMEOUT

text \<open>The flag word is a set of bits; each flag is one bit of it.\<close>

datatype sm_flag =
    KGNI_SM_FLAG_STATE_CHANGED
  | KGNI_SM_FLAG_SEND_FAILED
  | KGNI_SM_FLAG_USR_NOTIFIED

record kgni_sm_pkt =
  pkt_ptag :: u8
  pkt_cookie :: u32
  pkt_state :: sm_state
  local_pe :: u32
  local_inst_id :: u32
  remote_pe :: u32
  remote_inst_id :: u32
  local_gen :: u64
  remote_gen :: u64
  seq_num :: u32
  local_udata_size :: u16
  local_udata :: "u8 list"

record kgni_sm_info =
  sm_pkt :: kgni_sm_pkt
  sm_flags :: "sm_flag set"
  sm_post_id :: u64
  sm_pkts_out :: int
  sm_flrcnt :: u16
  sm_nrx_cnt :: u32
  sm_rx_delay :: u64
  sm_virt_remote_pe :: u32
  sm_snd_status :: gni_return
  sm_nic_hndl :: addr
  sm_snd_seq_num :: u32
  sm_rcvd_seq_num :: u32
  sm_rem_udata_size :: u16
  sm_rem_udata :: "u8 list"

section \<open>Channel, NIC and communication domain\<close>

text \<open>\<open>datagram_cnt_kern\<close> points to a counter shared with the application; NULL for kernel
  applications. The counter is kept in the channel.\<close>

record kgni_chnl =
  chnl_nic_hndl :: addr
  datagram_cnt_kern :: "u32 option"
  max_tx_pkts :: nat

record gni_nic =
  nic_type_id :: u32
  nic_cdm_hndl :: "addr option"
  nic_pe :: u32
  nic_inst_id :: u32
  nic_cookie :: u32
  nic_modes :: u32
  nic_ptag :: u8
  nic_pkey :: u16
  nic_cdm_type :: gni_cdm_type
  nic_cdm_id :: u32
  nic_my_id :: u32
  nic_ntt_grp_size :: u32
  nic_ntt_base :: u32
  nic_fma_res_id :: u32
  nic_sm_chnl_hndl :: "addr option"
  nic_sm_pkts :: "addr option list option"
  nic_sm_pkt_id :: nat
  nic_mm :: "addr option"
  nic_rw_page_desc :: "addr option"
  nic_cq_interrupt_mask_desc :: "addr option"
  nic_qsce_func :: "addr option"

record gni_cdm =
  cdm_type_id :: u32
  cdm_nic_hndls :: "addr option list"
  cdm_inst_id :: u32
  cdm_cookie :: u32
  cdm_modes :: u32
  cdm_ptag :: u8
  cdm_sessions :: "addr list"
  cdm_my_id :: u32

section \<open>Arguments of the datagram calls\<close>

text \<open>An input buffer is the memory that starts at the pointer, or NULL.\<close>

type_synonym buffer = "(nat \<Rightarrow> u8) option"

record gni_ep_postdata_args =
  pd_remote_pe :: u32
  pd_remote_id :: u32
  pd_in_data :: buffer
  pd_in_data_len :: u16
  pd_post_id :: u64
  pd_use_post_id :: u8

datatype gni_post_state =
    GNI_POST_PENDING
  | GNI_POST_COMPLETED
  | GNI_POST_ERROR
  | GNI_POST_TIMEOUT
  | GNI_POST_TERMINATED
  | GNI_POST_REMOTE_DATA

text \<open>Of the output buffer only whether it is NULL matters; what is written to it is returned
  separately.\<close>

record gni_ep_postdata_test_args =
  pt_timeout :: u32
  pt_remote_pe :: u32
  pt_remote_id :: u32
  pt_out_buff :: bool
  pt_buff_size :: u16
  pt_state :: gni_post_state
  pt_modes :: u8
  pt_post_id :: u64

definition GNI_EP_PDT_MODE_USE_POST_ID :: u8 where "GNI_EP_PDT_MODE_USE_POST_ID = 0x01"
definition GNI_EP_PDT_MODE_PROBE :: u8 where "GNI_EP_PDT_MODE_PROBE = 0x02"

record gni_ep_postdata_term_args =
  pc_remote_pe :: u32
  pc_remote_id :: u32
  pc_use_post_id :: u8
  pc_post_id :: u64

section \<open>State of the driver\<close>

text \<open>
  \<open>kgni_cdm_array\<close>, \<open>kgni_sm_list\<close> and \<open>sm_generation\<close> are the file-level variables.
  \<open>sm_work\<close> is set while the session task is queued on its work queue, \<open>sm_wakeups\<close> logs the
  NICs whose wait queue has been woken. \<open>kgni_sm_list\<close> and \<open>cdm_sessions\<close> are the kernel's
  intrusive lists, given by the addresses of the session descriptors linked into them: a
  descriptor's \<open>smtask_list\<close> node is empty iff its address is not in \<open>kgni_sm_list\<close>.
\<close>

record kgni =
  kgni_cdm_array :: "addr option list"
  kgni_sm_list :: "addr list"
  sm_generation :: u64
  sm_work :: bool
  sm_wakeups :: "addr list"
  cdms :: "addr \<rightharpoonup> gni_cdm"
  nics :: "addr \<rightharpoonup> gni_nic"
  chnls :: "addr \<rightharpoonup> kgni_chnl"
  sms :: "addr \<rightharpoonup> kgni_sm_info"

section \<open>What lies outside the repository\<close>

text \<open>
  Constants of the driver's private header, the hardware abstraction layer's NTT look-ups (their
  \<open>int\<close> results as the 32 bits the callers store), the channel layer's send (its first argument
  is the number of packets in flight on the channel, which it keeps account of), the tick
  conversion and the copies from and to user space.
\<close>

record kgni_env =
  KGNI_MAX_CDM_NUMBER :: nat
  KGNI_MAX_SM_PKTS :: nat
  KGNI_SM_MAX_RETRANSMITS :: u16
  ghal_ntt_to_pe :: "u32 \<Rightarrow> u32"
  kgni_ntt_physical_to_logical :: "gni_nic \<Rightarrow> u32 \<Rightarrow> u32"
  kgni_chnl_send :: "nat \<Rightarrow> kgni_chnl \<Rightarrow> u32 \<Rightarrow> u32 \<Rightarrow> nat \<Rightarrow> kgni_sm_pkt \<Rightarrow> int"
  msecs_to_jiffies :: "u32 \<Rightarrow> u64"
  copy_from_user_ok :: bool
  copy_to_user_ok :: bool

section \<open>Primitive updates\<close>

definition upd_sm :: "addr \<Rightarrow> (kgni_sm_info \<Rightarrow> kgni_sm_info) \<Rightarrow> kgni \<Rightarrow> kgni" where
  "upd_sm a f s = s\<lparr>sms := (sms s)(a := map_option f (sms s a))\<rparr>"

definition upd_nic :: "addr \<Rightarrow> (gni_nic \<Rightarrow> gni_nic) \<Rightarrow> kgni \<Rightarrow> kgni" where
  "upd_nic n f s = s\<lparr>nics := (nics s)(n := map_option f (nics s n))\<rparr>"

definition upd_chnl :: "addr \<Rightarrow> (kgni_chnl \<Rightarrow> kgni_chnl) \<Rightarrow> kgni \<Rightarrow> kgni" where
  "upd_chnl c f s = s\<lparr>chnls := (chnls s)(c := map_option f (chnls s c))\<rparr>"

definition upd_cdm :: "addr \<Rightarrow> (gni_cdm \<Rightarrow> gni_cdm) \<Rightarrow> kgni \<Rightarrow> kgni" where
  "upd_cdm d f s = s\<lparr>cdms := (cdms s)(d := map_option f (cdms s d))\<rparr>"

text \<open>\<open>list_empty(&sm_info->smtask_list)\<close>, \<open>list_add\<close>, \<open>list_del_init\<close> on the task list,
  \<open>queue_work\<close> and \<open>wake_up_interruptible\<close>.\<close>

definition on_smtask :: "addr \<Rightarrow> kgni \<Rightarrow> bool" where
  "on_smtask a s \<longleftrightarrow> a \<in> set (kgni_sm_list s)"

definition smtask_add :: "addr \<Rightarrow> kgni \<Rightarrow> kgni" where
  "smtask_add a s = s\<lparr>kgni_sm_list := a # kgni_sm_list s\<rparr>"

definition smtask_del :: "addr \<Rightarrow> kgni \<Rightarrow> kgni" where
  "smtask_del a s = s\<lparr>kgni_sm_list := remove1 a (kgni_sm_list s)\<rparr>"

definition queue_sm_work :: "kgni \<Rightarrow> kgni" where
  "queue_sm_work s = s\<lparr>sm_work := True\<rparr>"

definition wake_up_sm :: "addr \<Rightarrow> kgni \<Rightarrow> kgni" where
  "wake_up_sm n s = s\<lparr>sm_wakeups := sm_wakeups s @ [n]\<rparr>"

text \<open>\<open>list_del(&sm_info->cdm_list)\<close> followed by \<open>kmem_cache_free\<close>.\<close>

definition free_session :: "addr \<Rightarrow> addr \<Rightarrow> kgni \<Rightarrow> kgni" where
  "free_session d a s =
     (upd_cdm d (\<lambda>c. c\<lparr>cdm_sessions := remove1 a (cdm_sessions c)\<rparr>) s)\<lparr>sms := (sms s)(a := None)\<rparr>"

text \<open>\<open>list_add_tail(&sm_info->cdm_list, &cdm_handle->sessions)\<close> of a fresh descriptor.\<close>

definition add_session :: "addr \<Rightarrow> addr \<Rightarrow> kgni_sm_info \<Rightarrow> kgni \<Rightarrow> kgni" where
  "add_session d a m s =
     (upd_cdm d (\<lambda>c. c\<lparr>cdm_sessions := cdm_sessions c @ [a]\<rparr>) s)\<lparr>sms := (sms s)(a \<mapsto> m)\<rparr>"

definition upd_pkt :: "(kgni_sm_pkt \<Rightarrow> kgni_sm_pkt) \<Rightarrow> kgni_sm_info \<Rightarrow> kgni_sm_info" where
  "upd_pkt f m = m\<lparr>sm_pkt := f (sm_pkt m)\<rparr>"

definition set_state :: "sm_state \<Rightarrow> kgni_sm_info \<Rightarrow> kgni_sm_info" where
  "set_state st = upd_pkt (\<lambda>p. p\<lparr>pkt_state := st\<rparr>)"

abbreviation sm_state_of :: "kgni_sm_info \<Rightarrow> sm_state" where
  "sm_state_of m \<equiv> pkt_state (sm_pkt m)"

text \<open>The domain a NIC is attached to: \<open>kgni_cdm_array[nic_hndl->cdm_id]\<close> after the test for
  the invalid id. The outer option is the fault of an index out of range, the inner one NULL.\<close>

definition cdm_of_id :: "u32 \<Rightarrow> kgni \<Rightarrow> addr option run" where
  "cdm_of_id i s = array_get (kgni_cdm_array s) (unat i)"

end
