(* ===== verification/Umap.thy ===== *)
theory Umap
  imports Driver
begin

text \<open>
  Mapping of device memory and shared pages into user space, from \<open>kgni_ops.c\<close>. Each mapping has a
  descriptor on a list of the NIC, or of the child process of the NIC's owner that made it. The address
  spaces are given by the regions the driver has mapped into them; what the memory management of the
  kernel answers to a call is an argument.
\<close>

section \<open>Data\<close>

record gni_umap_desc =
  ud_address :: u64
  ud_size :: u64

text \<open>A region with its page frame, the flags of its area and the page protection it was mapped with.\<close>

record region =
  rg_addr :: u64
  rg_size :: u64
  rg_vm_flags :: u64
  rg_pfn :: "u64 option"
  rg_prot :: u64

record gni_child_desc =
  ch_mm :: addr
  ch_umap_list :: "addr list"

text \<open>\<open>mm_users\<close> and the regions of each address space, the descriptors, and the two lists of each NIC.\<close>

record mm_state =
  mm_users :: "addr \<Rightarrow> int"
  mm_maps :: "addr \<Rightarrow> region list"
  umap_descs :: "addr \<rightharpoonup> gni_umap_desc"
  umap_list :: "addr \<Rightarrow> addr list"
  child_list :: "addr \<Rightarrow> gni_child_desc list"

text \<open>What the kernel answers during one call: the address or error of \<open>do_mmap_pgoff\<close>, the bounds of the area that
  \<open>find_vma\<close> finds, the result of \<open>remap_pfn_range\<close> and of the allocation of a descriptor; and constants.\<close>

record umap_env =
  do_mmap_pgoff :: "int + u64"
  find_vma :: "(u64 \<times> u64) option"
  remap_pfn_range :: int
  desc_mem :: "addr option"
  PAGE_SHARED :: u64
  PAGE_READONLY :: u64
  PAGE_SHIFT :: nat

definition VM_READ :: u64 where "VM_READ = 0x01"
definition VM_WRITE :: u64 where "VM_WRITE = 0x02"
definition VM_SHARED :: u64 where "VM_SHARED = 0x08"
definition VM_MAYSHARE :: u64 where "VM_MAYSHARE = 0x80"
definition PAGE_PCD :: u64 where "PAGE_PCD = 0x10"

section \<open>Operations\<close>

definition kgni_page_uc :: "u64 \<Rightarrow> u64" where
  "kgni_page_uc prot = prot OR PAGE_PCD"

definition do_munmap :: "addr \<Rightarrow> u64 \<Rightarrow> u64 \<Rightarrow> mm_state \<Rightarrow> mm_state" where
  "do_munmap mm a sz s = s\<lparr>mm_maps := (mm_maps s)(mm := filter (\<lambda>r. \<not> (rg_addr r = a \<and> rg_size r = sz)) (mm_maps s mm))\<rparr>"

definition map_region :: "addr \<Rightarrow> region \<Rightarrow> mm_state \<Rightarrow> mm_state" where
  "map_region mm r s = s\<lparr>mm_maps := (mm_maps s)(mm := r # mm_maps s mm)\<rparr>"

text \<open>\<open>gni_list_del\<close>: the node leaves the list it is on.\<close>

definition umap_unlink :: "addr \<Rightarrow> mm_state \<Rightarrow> mm_state" where
  "umap_unlink u s = s\<lparr>umap_list := (\<lambda>n. remove1 u (umap_list s n)),
     child_list := (\<lambda>n. map (\<lambda>c. c\<lparr>ch_umap_list := remove1 u (ch_umap_list c)\<rparr>) (child_list s n))\<rparr>"

text \<open>The list copy; \<open>mems\<close> are the results of the allocations. The new descriptors are returned in order, with the count
  when it is written.\<close>

fun umap_copy_loop :: "addr list \<Rightarrow> addr option list \<Rightarrow> addr list \<Rightarrow> mm_state \<Rightarrow> (int \<times> addr list \<times> nat option \<times> mm_state) run" where
  "umap_copy_loop [] mems dest s = Some (0, dest, Some (length dest), s)"
| "umap_copy_loop (u # us) mems dest s =
     (case mems of
        Some a # mems \<Rightarrow> do {
          d \<leftarrow> umap_descs s u;
          umap_copy_loop us mems (dest @ [a]) (s\<lparr>umap_descs := (umap_descs s)(a \<mapsto> \<lparr>ud_address = ud_address d, ud_size = ud_size d\<rparr>)\<rparr>)
        }
      | _ \<Rightarrow> Some (- ENOMEM, dest, None, s))"

definition kgni_umap_list_copy :: "addr \<Rightarrow> addr option list \<Rightarrow> mm_state \<Rightarrow> (int \<times> addr list \<times> nat option \<times> mm_state) run" where
  "kgni_umap_list_copy n mems s = umap_copy_loop (umap_list s n) mems [] s"

definition kgni_unmap_area_locked :: "addr \<Rightarrow> addr \<Rightarrow> mm_state \<Rightarrow> mm_state run" where
  "kgni_unmap_area_locked mm u s = do {
     d \<leftarrow> umap_descs s u;
     let s = (if mm_users s mm > 0 then do_munmap mm (ud_address d) (ud_size d) s else s);
     let s = umap_unlink u s;
     Some (s\<lparr>umap_descs := (umap_descs s)(u := None)\<rparr>)
   }"

definition kgni_unmap_area :: "addr \<Rightarrow> addr \<Rightarrow> mm_state \<Rightarrow> mm_state run" where
  "kgni_unmap_area mm u s = kgni_unmap_area_locked mm u s"

text \<open>The new descriptor goes to the list of the process: \<open>None\<close> when the process is neither the owner nor a known child.\<close>

fun child_add :: "addr \<Rightarrow> addr \<Rightarrow> gni_child_desc list \<Rightarrow> gni_child_desc list option" where
  "child_add cur u [] = None"
| "child_add cur u (c # cs) =
     (if cur = ch_mm c then Some (c\<lparr>ch_umap_list := ch_umap_list c @ [u]\<rparr> # cs)
      else map_option (Cons c) (child_add cur u cs))"

definition umap_record :: "addr \<Rightarrow> addr \<Rightarrow> addr \<Rightarrow> addr \<Rightarrow> mm_state \<Rightarrow> mm_state option" where
  "umap_record cur mm n u s =
     (if cur = mm then Some (s\<lparr>umap_list := (umap_list s)(n := umap_list s n @ [u])\<rparr>)
      else map_option (\<lambda>cs. s\<lparr>child_list := (child_list s)(n := cs)\<rparr>) (child_add cur u (child_list s n)))"

text \<open>The attributes of the mapping.\<close>

definition vma_flags :: "u64 \<Rightarrow> u64 \<Rightarrow> u64" where
  "vma_flags vm_flags old = (if vm_flags AND VM_WRITE \<noteq> 0 then old OR VM_MAYSHARE OR VM_SHARED OR VM_WRITE else old OR VM_MAYSHARE OR VM_SHARED)"

definition map_prot :: "umap_env \<Rightarrow> u64 \<Rightarrow> bool \<Rightarrow> u64" where
  "map_prot env vm_flags is_ram =
     (let prot = (if vm_flags AND VM_WRITE \<noteq> 0 then PAGE_SHARED env else PAGE_READONLY env)
      in if is_ram then prot else kgni_page_uc prot)"

text \<open>\<open>cur\<close> is the address space of the caller. The new descriptor is returned when it is written.\<close>

definition kgni_umap_area :: "umap_env \<Rightarrow> addr \<Rightarrow> addr \<Rightarrow> gni_nic \<Rightarrow> u64 \<Rightarrow> u64 \<Rightarrow> u64 \<Rightarrow> bool \<Rightarrow> mm_state \<Rightarrow>
    int \<times> addr option \<times> mm_state" where
  "kgni_umap_area env cur n nic address sz vm_flags is_ram s =
     (case do_mmap_pgoff env of
        Inl e \<Rightarrow> (e, None, s)
      | Inr win \<Rightarrow>
          (let area = \<lparr>rg_addr = win, rg_size = sz, rg_vm_flags = VM_READ, rg_pfn = None, rg_prot = PAGE_READONLY env\<rparr>;
               found = (case find_vma env of None \<Rightarrow> False | Some (st, en) \<Rightarrow> win = st \<and> \<not> en - st < sz)
           in if \<not> found then (- EINVAL, None, do_munmap cur win sz (map_region cur area s))
           else (let area = area\<lparr>rg_vm_flags := vma_flags vm_flags (rg_vm_flags area)\<rparr> in
             if remap_pfn_range env \<noteq> 0 then (remap_pfn_range env, None, do_munmap cur win sz (map_region cur area s))
             else (let area = area\<lparr>rg_pfn := Some (drop_bit (PAGE_SHIFT env) address), rg_prot := map_prot env vm_flags is_ram\<rparr>;
                       s = map_region cur area s
                 in case nic_mm nic of
                      None \<Rightarrow> (- EEXIST, None, do_munmap cur win sz s)
                    | Some mm \<Rightarrow>
                        (case desc_mem env of
                           None \<Rightarrow> (- ENOMEM, None, do_munmap cur win sz s)
                         | Some u \<Rightarrow>
                             (case umap_record cur mm n u (s\<lparr>umap_descs := (umap_descs s)(u \<mapsto> \<lparr>ud_address = win, ud_size = sz\<rparr>)\<rparr>) of
                                None \<Rightarrow> (- EEXIST, None, do_munmap cur win sz s)
                              | Some s \<Rightarrow> (0, Some u, s)))))))"

section \<open>Properties\<close>

text \<open>What a call may assume: the kernel maps a new region where the driver has none, and a new descriptor is on no list.\<close>

definition fresh_map :: "umap_env \<Rightarrow> addr \<Rightarrow> u64 \<Rightarrow> mm_state \<Rightarrow> bool" where
  "fresh_map env cur sz s \<longleftrightarrow>
     (case do_mmap_pgoff env of Inl _ \<Rightarrow> True | Inr win \<Rightarrow> \<forall>r \<in> set (mm_maps s cur). \<not> (rg_addr r = win \<and> rg_size r = sz)) \<and>
     (case desc_mem env of None \<Rightarrow> True | Some u \<Rightarrow> umap_descs s u = None \<and> (\<forall>n. u \<notin> set (umap_list s n)) \<and>
        (\<forall>n. \<forall>c \<in> set (child_list s n). u \<notin> set (ch_umap_list c)))"

lemma map_region_sel [simp]:
  "mm_maps (map_region mm r s) = (mm_maps s)(mm := r # mm_maps s mm)" "umap_descs (map_region mm r s) = umap_descs s"
  "umap_list (map_region mm r s) = umap_list s" "child_list (map_region mm r s) = child_list s"
  "mm_users (map_region mm r s) = mm_users s"
  by (simp_all add: map_region_def)

lemma munmap_map_region:
  assumes "\<forall>r \<in> set (mm_maps s cur). \<not> (rg_addr r = win \<and> rg_size r = sz)" and "rg_addr area = win" and "rg_size area = sz"
  shows "do_munmap cur win sz (map_region cur area s) = s"
proof -
  have "filter (\<lambda>r. rg_addr r = win \<longrightarrow> rg_size r \<noteq> sz) (mm_maps s cur) = mm_maps s cur"
    using assms(1) by (auto intro!: filter_True)
  with assms(2,3) show ?thesis by (simp add: do_munmap_def map_region_def)
qed

lemma child_add_remove:
  assumes "child_add cur u cs = Some cs'" and "\<forall>c \<in> set cs. u \<notin> set (ch_umap_list c)"
  shows "map (\<lambda>c. c\<lparr>ch_umap_list := remove1 u (ch_umap_list c)\<rparr>) cs' = cs"
  using assms
proof (induction cs arbitrary: cs')
  case (Cons c cs)
  have "map (\<lambda>c. c\<lparr>ch_umap_list := remove1 u (ch_umap_list c)\<rparr>) cs = cs"
    using Cons.prems(2) by (auto intro!: map_idI simp: remove1_idem)
  with Cons show ?case by (auto simp: remove1_append remove1_idem split: if_split_asm)
qed simp

text \<open>The region a successful call maps.\<close>

definition new_region :: "umap_env \<Rightarrow> u64 \<Rightarrow> u64 \<Rightarrow> u64 \<Rightarrow> u64 \<Rightarrow> bool \<Rightarrow> region" where
  "new_region env win address sz vm_flags is_ram = \<lparr>rg_addr = win, rg_size = sz, rg_vm_flags = vma_flags vm_flags VM_READ,
     rg_pfn = Some (drop_bit (PAGE_SHIFT env) address), rg_prot = map_prot env vm_flags is_ram\<rparr>"

lemma umap_area_success:
  assumes "kgni_umap_area env cur n nic address sz vm_flags is_ram s = (0, out, s')" and "do_mmap_pgoff env = Inr win"
  shows "\<exists>u mm. out = Some u \<and> desc_mem env = Some u \<and> nic_mm nic = Some mm \<and>
    umap_record cur mm n u ((map_region cur (new_region env win address sz vm_flags is_ram) s)
       \<lparr>umap_descs := (umap_descs s)(u \<mapsto> \<lparr>ud_address = win, ud_size = sz\<rparr>)\<rparr>) = Some s'"
  using assms
  by (cases "desc_mem env"; cases "nic_mm nic")
    (auto simp: kgni_umap_area_def Let_def new_region_def split: if_split_asm option.split_asm prod.split_asm)

lemma umap_area_error:
  assumes "kgni_umap_area env cur n nic address sz vm_flags is_ram s = (e, out, s')" and "e \<noteq> 0" and "do_mmap_pgoff env = Inr win"
    and f: "\<forall>r \<in> set (mm_maps s cur). \<not> (rg_addr r = win \<and> rg_size r = sz)"
  shows "s' = s \<and> out = None"
  using assms(1-3)
  by (auto simp: kgni_umap_area_def Let_def munmap_map_region[OF f] split: if_split_asm option.split_asm prod.split_asm)

lemma umap_record_sel:
  assumes "umap_record cur mm n u s = Some s'"
  shows "mm_maps s' = mm_maps s" "umap_descs s' = umap_descs s" "mm_users s' = mm_users s"
  using assms by (auto simp: umap_record_def split: if_split_asm)

text \<open>
  C29. A mapping is made completely or not at all: a call that returns an error leaves the address space, the descriptors and
  the lists as they were. A call that succeeds adds one region of the asked size with the asked page frame, writable and
  uncached as asked, and one descriptor with its address and size.
\<close>

theorem umap_area_all_or_nothing:
  assumes "fresh_map env cur sz s" and "kgni_umap_area env cur n nic address sz vm_flags is_ram s = (e, out, s')"
    and "\<forall>x. do_mmap_pgoff env = Inl x \<longrightarrow> x \<noteq> 0"
  shows "if e \<noteq> 0 then s' = s \<and> out = None
    else \<exists>u win r. out = Some u \<and> mm_maps s' = (mm_maps s)(cur := r # mm_maps s cur) \<and>
      umap_descs s' = (umap_descs s)(u \<mapsto> \<lparr>ud_address = win, ud_size = sz\<rparr>) \<and> rg_addr r = win \<and> rg_size r = sz \<and>
      rg_pfn r = Some (drop_bit (PAGE_SHIFT env) address) \<and> rg_prot r = map_prot env vm_flags is_ram \<and>
      (rg_vm_flags r AND VM_WRITE \<noteq> 0 \<longleftrightarrow> vm_flags AND VM_WRITE \<noteq> 0)"
proof (cases "do_mmap_pgoff env")
  case (Inl x)
  with assms(2,3) show ?thesis by (simp add: kgni_umap_area_def)
next
  case (Inr win)
  with assms(1) have f: "\<forall>r \<in> set (mm_maps s cur). \<not> (rg_addr r = win \<and> rg_size r = sz)" by (simp add: fresh_map_def)
  show ?thesis
  proof (cases "e = 0")
    case False
    with umap_area_error[OF assms(2) _ Inr f] show ?thesis by simp
  next
    case True
    let ?r = "new_region env win address sz vm_flags is_ram"
    obtain u mm where u: "out = Some u" "umap_record cur mm n u ((map_region cur ?r s)
         \<lparr>umap_descs := (umap_descs s)(u \<mapsto> \<lparr>ud_address = win, ud_size = sz\<rparr>)\<rparr>) = Some s'"
      using umap_area_success[OF assms(2)[unfolded True] Inr] by blast
    have "vma_flags vm_flags VM_READ AND VM_WRITE \<noteq> 0 \<longleftrightarrow> vm_flags AND VM_WRITE \<noteq> 0"
      by (simp add: vma_flags_def VM_READ_def VM_WRITE_def VM_SHARED_def VM_MAYSHARE_def)
    with True u umap_record_sel[OF u(2)] show ?thesis
      by (auto intro!: exI[of _ ?r] simp: new_region_def)
  qed
qed

definition ex_umap_env :: umap_env where
  "ex_umap_env = \<lparr>do_mmap_pgoff = Inr 0x7000, find_vma = Some (0x7000, 0x9000), remap_pfn_range = 0, desc_mem = Some 3,
     PAGE_SHARED = 0x27, PAGE_READONLY = 0x25, PAGE_SHIFT = 12\<rparr>"

definition ex_mm :: mm_state where
  "ex_mm = \<lparr>mm_users = (\<lambda>_. 1), mm_maps = (\<lambda>_. []), umap_descs = Map.empty, umap_list = (\<lambda>_. []), child_list = (\<lambda>_. [])\<rparr>"

definition ex_mm_nic :: "addr option \<Rightarrow> gni_nic" where
  "ex_mm_nic mm = \<lparr>nic_type_id = GNI_TYPE_NIC_HANDLE, nic_cdm_hndl = None, nic_pe = 5, nic_inst_id = 6,
     nic_cookie = 9, nic_modes = 0, nic_ptag = 4, nic_pkey = 7, nic_cdm_type = GNI_CDM_TYPE_USER,
     nic_cdm_id = 6, nic_my_id = 1, nic_ntt_grp_size = 0, nic_ntt_base = 0, nic_fma_res_id = 0,
     nic_sm_chnl_hndl = None, nic_sm_pkts = None, nic_sm_pkt_id = 0, nic_mm = mm, nic_rw_page_desc = None,
     nic_cq_interrupt_mask_desc = None, nic_qsce_func = None\<rparr>"

lemma ex_fresh_map: "fresh_map ex_umap_env 2 0x1000 ex_mm"
  by (simp add: fresh_map_def ex_umap_env_def ex_mm_def)

lemma ex_umap:
  "\<exists>s'. kgni_umap_area ex_umap_env 2 10 (ex_mm_nic (Some 2)) 0xABC000 0x1000 VM_WRITE False ex_mm = (0, Some 3, s') \<and>
     mm_users s' 2 = 1"
  by (simp add: kgni_umap_area_def ex_umap_env_def ex_mm_nic_def umap_record_def Let_def ex_mm_def)

theorem umap_area_all_or_nothing_witness:
  "\<exists>u r s'. kgni_umap_area ex_umap_env 2 10 (ex_mm_nic (Some 2)) 0xABC000 0x1000 VM_WRITE False ex_mm = (0, Some u, s') \<and>
     mm_maps s' 2 = [r] \<and> rg_pfn r = Some 0xABC \<and> rg_prot r = 0x37"
proof -
  obtain s' where s': "kgni_umap_area ex_umap_env 2 10 (ex_mm_nic (Some 2)) 0xABC000 0x1000 VM_WRITE False ex_mm = (0, Some 3, s')"
    using ex_umap by blast
  have "\<forall>x. do_mmap_pgoff ex_umap_env = Inl x \<longrightarrow> x \<noteq> 0" by (simp add: ex_umap_env_def)
  from umap_area_all_or_nothing[OF ex_fresh_map s' this] obtain win r where
    r: "mm_maps s' = (mm_maps ex_mm)(2 := r # mm_maps ex_mm 2)"
      "rg_pfn r = Some (drop_bit (PAGE_SHIFT ex_umap_env) 0xABC000)" "rg_prot r = map_prot ex_umap_env VM_WRITE False" by auto
  have "drop_bit (PAGE_SHIFT ex_umap_env) (0xABC000 :: u64) = 0xABC" by (simp add: ex_umap_env_def drop_bit_eq_div)
  moreover have "map_prot ex_umap_env VM_WRITE False = 0x37"
    by (simp add: map_prot_def ex_umap_env_def VM_WRITE_def kgni_page_uc_def PAGE_PCD_def)
  ultimately show ?thesis using r s' by (auto simp: ex_mm_def)
qed

text \<open>
  C30. Unmapping undoes mapping: after a mapping by a live process, unmapping its descriptor from the same process restores the
  address space, the descriptors and all lists.
\<close>

theorem umap_unmap_roundtrip:
  assumes "fresh_map env cur sz s" and "kgni_umap_area env cur n nic address sz vm_flags is_ram s = (0, Some u, s')"
    and "mm_users s cur > 0"
  shows "kgni_unmap_area cur u s' = Some s"
proof -
  obtain win where win: "do_mmap_pgoff env = Inr win"
    using assms(2) by (cases "do_mmap_pgoff env") (auto simp: kgni_umap_area_def)
  let ?r = "new_region env win address sz vm_flags is_ram"
  obtain mm where c: "desc_mem env = Some u" "umap_record cur mm n u ((map_region cur ?r s)
      \<lparr>umap_descs := (umap_descs s)(u \<mapsto> \<lparr>ud_address = win, ud_size = sz\<rparr>)\<rparr>) = Some s'"
    using umap_area_success[OF assms(2) win] by auto
  have f: "\<forall>r \<in> set (mm_maps s cur). \<not> (rg_addr r = win \<and> rg_size r = sz)" "umap_descs s u = None" "\<forall>n. u \<notin> set (umap_list s n)"
      "\<forall>n. \<forall>c \<in> set (child_list s n). u \<notin> set (ch_umap_list c)"
    using assms(1) win c(1) by (auto simp: fresh_map_def)
  have maps: "filter (\<lambda>r. rg_addr r = win \<longrightarrow> rg_size r \<noteq> sz) (mm_maps s cur) = mm_maps s cur"
    using f(1) by (auto intro!: filter_True)
  have ch: "map (\<lambda>c. c\<lparr>ch_umap_list := remove1 u (ch_umap_list c)\<rparr>) (child_list s m) = child_list s m" for m
    using f(4) by (auto intro!: map_idI simp: remove1_idem)
  have ul: "remove1 u (umap_list s m) = umap_list s m" "remove1 u (umap_list s m @ [u]) = umap_list s m" for m
    using f(3) by (simp_all add: remove1_idem remove1_append)
  have car: "child_add cur u (child_list s n) = Some cs' \<Longrightarrow>
      map (\<lambda>c. c\<lparr>ch_umap_list := remove1 u (ch_umap_list c)\<rparr>) cs' = child_list s n" for cs'
    using child_add_remove f(4) by blast
  let ?lists = "\<lambda>s'. umap_list (umap_unlink u s') = umap_list s \<and> child_list (umap_unlink u s') = child_list s"
  have "?lists s'"
    using c(2) ch ul
    by (auto simp: umap_record_def umap_unlink_def fun_eq_iff car split: if_split_asm)
  moreover have "mm_maps s' = (mm_maps s)(cur := ?r # mm_maps s cur)" "mm_users s' = mm_users s"
    "umap_descs s' = (umap_descs s)(u \<mapsto> \<lparr>ud_address = win, ud_size = sz\<rparr>)"
    using umap_record_sel[OF c(2)] by simp_all
  ultimately show ?thesis
    using assms(3) f(2) maps
    by (auto simp: kgni_unmap_area_def kgni_unmap_area_locked_def do_munmap_def umap_unlink_def Let_def new_region_def
        fun_upd_idem intro!: mm_state.equality)
qed

theorem umap_unmap_roundtrip_witness:
  "\<exists>s'. kgni_umap_area ex_umap_env 2 10 (ex_mm_nic (Some 2)) 0xABC000 0x1000 VM_WRITE False ex_mm = (0, Some 3, s') \<and>
     kgni_unmap_area 2 3 s' = Some ex_mm"
proof -
  obtain s' where s': "kgni_umap_area ex_umap_env 2 10 (ex_mm_nic (Some 2)) 0xABC000 0x1000 VM_WRITE False ex_mm = (0, Some 3, s')"
    using ex_umap by blast
  have "mm_users ex_mm 2 > 0" by (simp add: ex_mm_def)
  from umap_unmap_roundtrip[OF ex_fresh_map s' this] s' show ?thesis by blast
qed

end
