(* ===== verification/Resource.thy ===== *)
theory Resource
  imports Driver
begin

text \<open>
  Job resources and NTT blocks of a device, from \<open>kgni_ops.c\<close>. A protection tag has one resource
  structure, shared by the NICs of the job and counted by reference; a job may hold a reference to one
  block of the network translation table, which is shared by jobs and counted as well.
\<close>

section \<open>Data\<close>

record kgni_ntt_block =
  nb_base :: u32
  nb_size :: u32
  nb_ref_cnt :: int
  nb_selfdestruct :: bool

datatype rsrc_kind = MDD | MRT | GART | IOMMU | PCI_IOMMU | CQ | FMA | RDMA | CE | DLA

record kgni_resource_info =
  ri_ref_cnt :: int
  ri_job_id :: u64
  ri_cookie :: u32
  ri_generation :: u64
  ri_vmdh_entry_id :: u32
  ri_ntt_block :: "addr option"
  ri_limit :: "rsrc_kind \<Rightarrow> int"
  ri_count :: "rsrc_kind \<Rightarrow> int"

text \<open>Calls to the hardware layer that change its state, in the order they are made.\<close>

datatype hw_call =
    Ghal_ntt_free u32 u32
  | Ghal_ntt_alloc u32 u32
  | Kgni_ntt_set_tbl u32 u32
  | Ghal_ntt_set_granularity u8
  | Ghal_ptt_set_entry nat u16
  | Ghal_ptt_clear_entry nat
  | Kgni_flbte_tx_reset

text \<open>\<open>resources\<close> is the array of \<open>GHAL_PTAG_MAX_NUMBER\<close> pointers; an entry that is \<open>None\<close> is NULL.
  NTT blocks are kept by address because a block is shared by several resource structures.\<close>

record kgni_device =
  resources :: "nat \<rightharpoonup> kgni_resource_info"
  active_ntts :: "addr list"
  ntts :: "addr \<rightharpoonup> kgni_ntt_block"
  job_generation :: u64
  hw_calls :: "hw_call list"

abbreviation GHAL_PTAG_MAX_NUMBER :: nat where "GHAL_PTAG_MAX_NUMBER \<equiv> 256"

record gni_job_limits =
  jl_ntt_ctrl :: u32
  jl_ntt_base :: u32
  jl_ntt_size :: u32
  jl_other :: "rsrc_kind \<Rightarrow> u32"

record gni_nic_jobconfig_args =
  jc_job_id :: u64
  jc_ptag :: u32
  jc_cookie :: u32
  jc_limits :: "gni_job_limits option"

record gni_nic_nttconfig_args =
  nc_granularity :: u8
  nc_flags :: u8
  nc_base :: u32
  nc_num_entries :: u32

definition GNI_NTT_FLAG_CLEAR :: u8 where "GNI_NTT_FLAG_CLEAR = 0x01"
definition GNI_NTT_FLAG_SET_GRANULARITY :: u8 where "GNI_NTT_FLAG_SET_GRANULARITY = 0x02"
definition GNI_JOB_CTRL_NTT_CLEANUP :: u32 where "GNI_JOB_CTRL_NTT_CLEANUP = 0x01"
abbreviation GNI_JOB_INVALID_LIMIT :: u32 where "GNI_JOB_INVALID_LIMIT \<equiv> - 1"
definition GNI_CDM_MODE_USE_PCI_IOMMU :: u32 where "GNI_CDM_MODE_USE_PCI_IOMMU = 0x00000080"

text \<open>Results of code outside the repository: the hardware layer, the FMA pool, the check of a protection
  tag against a key, the job id of the calling process and the limits a job asks for.\<close>

record rsrc_env =
  ghal_ntt_free :: "u32 \<Rightarrow> u32 \<Rightarrow> int"
  ghal_ntt_alloc :: "u32 \<Rightarrow> int + u32"
  kgni_ntt_set_tbl :: "u32 \<Rightarrow> u32 \<Rightarrow> int"
  ghal_ntt_set_granularity :: "u8 \<Rightarrow> int"
  ghal_ntt_get_granularity :: u32
  kgni_fma_pool_init :: "nat \<Rightarrow> int"
  kgni_user_ptag_pkey_check :: "u32 \<Rightarrow> u16 \<Rightarrow> int"
  job_getjid :: u64
  set_limits :: "gni_nic \<Rightarrow> (rsrc_kind \<Rightarrow> int) \<Rightarrow> gni_job_limits \<Rightarrow> rsrc_kind \<Rightarrow> int"
  GHAL_RSRC_NO_LIMIT :: int
  kgni_unprotected_ops :: bool
  ghal_pdev_from_pci_idx :: int
  ghal_pci_iommu_enabled :: bool

definition log_hw :: "hw_call \<Rightarrow> kgni_device \<Rightarrow> kgni_device" where
  "log_hw h dev = dev\<lparr>hw_calls := hw_calls dev @ [h]\<rparr>"

definition upd_ntt :: "addr \<Rightarrow> (kgni_ntt_block \<Rightarrow> kgni_ntt_block) \<Rightarrow> kgni_device \<Rightarrow> kgni_device" where
  "upd_ntt a f dev = dev\<lparr>ntts := (ntts dev)(a := map_option f (ntts dev a))\<rparr>"

definition upd_rsrc :: "nat \<Rightarrow> (kgni_resource_info \<Rightarrow> kgni_resource_info) \<Rightarrow> kgni_device \<Rightarrow> kgni_device" where
  "upd_rsrc p f dev = dev\<lparr>resources := (resources dev)(p := map_option f (resources dev p))\<rparr>"

text \<open>\<open>list_del\<close> and \<open>kfree\<close> of a block.\<close>

definition free_ntt :: "addr \<Rightarrow> kgni_device \<Rightarrow> kgni_device" where
  "free_ntt a dev = dev\<lparr>active_ntts := remove1 a (active_ntts dev), ntts := (ntts dev)(a := None)\<rparr>"

section \<open>NTT blocks\<close>

definition kgni_ntt_decref :: "addr option \<Rightarrow> kgni_device \<Rightarrow> kgni_device run" where
  "kgni_ntt_decref blk dev = (case blk of
      None \<Rightarrow> Some dev
    | Some a \<Rightarrow> do {
        let dev = upd_ntt a (\<lambda>b. b\<lparr>nb_ref_cnt := nb_ref_cnt b - 1\<rparr>) dev;
        b \<leftarrow> ntts dev a;
        GASSERT (nb_ref_cnt b \<ge> 0);
        Some (if nb_ref_cnt b = 0 \<and> nb_selfdestruct b
              then free_ntt a (log_hw (Ghal_ntt_free (nb_base b) (nb_size b)) dev) else dev)
      })"

fun ntt_find_loop :: "u32 \<Rightarrow> u32 \<Rightarrow> bool \<Rightarrow> addr list \<Rightarrow> kgni_device \<Rightarrow> (int \<times> addr option \<times> kgni_device) run" where
  "ntt_find_loop base sz sd [] dev = Some (- ENOENT, None, dev)"
| "ntt_find_loop base sz sd (a # as) dev = do {
     b \<leftarrow> ntts dev a;
     if nb_base b = base \<and> nb_size b = sz then do {
       GASSERT (nb_ref_cnt b + 1 \<le> int GHAL_PTAG_MAX_NUMBER);
       Some (0, Some a, upd_ntt a (\<lambda>b. b\<lparr>nb_ref_cnt := nb_ref_cnt b + 1, nb_selfdestruct := sd\<rparr>) dev)
     }
     else ntt_find_loop base sz sd as dev
   }"

definition kgni_ntt_find_incref :: "u32 \<Rightarrow> u32 \<Rightarrow> bool \<Rightarrow> kgni_device \<Rightarrow> (int \<times> addr option \<times> kgni_device) run" where
  "kgni_ntt_find_incref base sz sd dev = ntt_find_loop base sz sd (active_ntts dev) dev"

text \<open>\<open>list_for_each_safe\<close>: the blocks the list had on entry are visited.\<close>

fun ntt_cleanup_loop :: "rsrc_env \<Rightarrow> u32 \<Rightarrow> u32 \<Rightarrow> addr list \<Rightarrow> int \<Rightarrow> kgni_device \<Rightarrow> (int \<times> kgni_device) run" where
  "ntt_cleanup_loop env base sz [] retval dev = Some (retval, dev)"
| "ntt_cleanup_loop env base sz (a # as) retval dev = do {
     b \<leftarrow> ntts dev a;
     if base \<noteq> - 1 \<and> (nb_base b \<noteq> base \<or> nb_size b \<noteq> sz) then ntt_cleanup_loop env base sz as retval dev
     else if nb_ref_cnt b \<noteq> 0 then ntt_cleanup_loop env base sz as retval dev
     else ntt_cleanup_loop env base sz as (ghal_ntt_free env (nb_base b) (nb_size b))
            (free_ntt a (log_hw (Ghal_ntt_free (nb_base b) (nb_size b)) dev))
   }"

definition kgni_ntt_cleanup :: "rsrc_env \<Rightarrow> u32 \<Rightarrow> u32 \<Rightarrow> kgni_device \<Rightarrow> (int \<times> kgni_device) run" where
  "kgni_ntt_cleanup env base sz dev =
     (if base = - 1 \<and> active_ntts dev = [] then Some (0, dev)
      else ntt_cleanup_loop env base sz (active_ntts dev) (- EINVAL) dev)"

text \<open>\<open>mem\<close> is what \<open>kzalloc\<close> returns. The arguments are returned too, the base is an output.\<close>

definition kgni_ntt_config :: "rsrc_env \<Rightarrow> addr option \<Rightarrow> gni_nic_nttconfig_args \<Rightarrow> kgni_device \<Rightarrow>
    (int \<times> gni_nic_nttconfig_args \<times> kgni_device) run" where
  "kgni_ntt_config env mem attr dev =
     (let setg = (nc_flags attr AND GNI_NTT_FLAG_SET_GRANULARITY \<noteq> 0);
          dev = (if setg then log_hw (Ghal_ntt_set_granularity (nc_granularity attr)) dev else dev);
          retval = (if setg then ghal_ntt_set_granularity env (nc_granularity attr) else 0)
      in if retval \<noteq> 0 then Some (retval, attr, dev)
      else if nc_num_entries attr = 0 then Some (retval, attr, dev)
      else if nc_flags attr AND GNI_NTT_FLAG_CLEAR \<noteq> 0 then do {
        (r, dev) \<leftarrow> kgni_ntt_cleanup env (nc_base attr) (nc_num_entries attr) dev;
        Some (r, attr, dev)
      }
      else (case ghal_ntt_alloc env (nc_num_entries attr) of
          Inl e \<Rightarrow> Some (e, attr, dev)
        | Inr base \<Rightarrow>
            (let n = nc_num_entries attr;
                 attr = attr\<lparr>nc_base := base\<rparr>;
                 dev = log_hw (Kgni_ntt_set_tbl base n) (log_hw (Ghal_ntt_alloc base n) dev);
                 e = kgni_ntt_set_tbl env base n
             in if e \<noteq> 0 then Some (e, attr, log_hw (Ghal_ntt_free base n) dev)
                else (case mem of
                    None \<Rightarrow> Some (- ENOMEM, attr, log_hw (Ghal_ntt_free base n) dev)
                  | Some a \<Rightarrow> Some (0, attr, dev\<lparr>
                        ntts := (ntts dev)(a \<mapsto> \<lparr>nb_base = base, nb_size = n, nb_ref_cnt = 0, nb_selfdestruct = False\<rparr>),
                        active_ntts := a # active_ntts dev\<rparr>)))))"

section \<open>Resource structures\<close>

text \<open>The structure as \<open>kzalloc\<close> clears it.\<close>

definition kgni_alloc_rsrc_info :: "rsrc_env \<Rightarrow> bool \<Rightarrow> nat \<Rightarrow> kgni_resource_info option" where
  "kgni_alloc_rsrc_info env mem ptag =
     (if \<not> mem then None
      else if kgni_fma_pool_init env ptag \<noteq> 0 then None
      else Some \<lparr>ri_ref_cnt = 0, ri_job_id = 0, ri_cookie = 0, ri_generation = 0, ri_vmdh_entry_id = 0,
                 ri_ntt_block = None, ri_limit = (\<lambda>_. 0), ri_count = (\<lambda>_. 0)\<rparr>)"

definition kgni_job_resources_init :: "rsrc_env \<Rightarrow> kgni_resource_info \<Rightarrow> kgni_resource_info" where
  "kgni_job_resources_init env r = r\<lparr>ri_limit := (ri_limit r)(
     MDD := GHAL_RSRC_NO_LIMIT env, MRT := GHAL_RSRC_NO_LIMIT env, GART := GHAL_RSRC_NO_LIMIT env,
     IOMMU := GHAL_RSRC_NO_LIMIT env, PCI_IOMMU := GHAL_RSRC_NO_LIMIT env, CQ := GHAL_RSRC_NO_LIMIT env,
     FMA := GHAL_RSRC_NO_LIMIT env, RDMA := GHAL_RSRC_NO_LIMIT env, CE := GHAL_RSRC_NO_LIMIT env,
     DLA := GHAL_RSRC_NO_LIMIT env)\<rparr>"

text \<open>A process of another job may not join a configured one.\<close>

definition job_mismatch :: "rsrc_env \<Rightarrow> gni_nic \<Rightarrow> kgni_resource_info \<Rightarrow> bool" where
  "job_mismatch env nic r \<longleftrightarrow>
     nic_cdm_type nic \<noteq> GNI_CDM_TYPE_KERNEL \<and> ri_job_id r \<noteq> 0 \<and> job_getjid env \<noteq> ri_job_id r"

text \<open>\<open>nic_hndl->ptag = ptag; nic_hndl->fma_res_id = atomic_inc_return(...)\<close>.\<close>

definition take_ref :: "u8 \<Rightarrow> kgni_resource_info \<Rightarrow> gni_nic \<Rightarrow> gni_nic" where
  "take_ref ptag r nic = nic\<lparr>nic_ptag := ptag, nic_fma_res_id := of_int (ri_ref_cnt r + 1)\<rparr>"

definition new_rsrc :: "rsrc_env \<Rightarrow> u32 \<Rightarrow> u64 \<Rightarrow> u64 \<Rightarrow> kgni_resource_info \<Rightarrow> kgni_resource_info" where
  "new_rsrc env cookie job gen r = kgni_job_resources_init env
     (r\<lparr>ri_ref_cnt := 1, ri_cookie := cookie, ri_job_id := job, ri_generation := gen,
        ri_vmdh_entry_id := GNI_VMDH_INVALID_ID\<rparr>)"

text \<open>
  \<open>between\<close> is what other threads do to the device between the fast path under the read lock and the
  slow path under the write lock.
\<close>

definition kgni_resource_incref :: "rsrc_env \<Rightarrow> bool \<Rightarrow> (kgni_device \<Rightarrow> kgni_device) \<Rightarrow> u8 \<Rightarrow> gni_nic \<Rightarrow>
    kgni_device \<Rightarrow> (int \<times> gni_nic \<times> kgni_device) run" where
  "kgni_resource_incref env mem between ptag nic dev =
     (let p = unat ptag in
      case resources dev p of
        Some r \<Rightarrow> do {
          let (retval, nic, dev) =
            (if job_mismatch env nic r then (- EPERM, nic, dev)
             else (0, take_ref ptag r nic, upd_rsrc p (\<lambda>r. r\<lparr>ri_ref_cnt := ri_ref_cnt r + 1\<rparr>) dev));
          (case ri_ntt_block r of
             None \<Rightarrow> Some (retval, nic, dev)
           | Some a \<Rightarrow> do {
               b \<leftarrow> ntts dev a;
               Some (retval, nic\<lparr>nic_ntt_base := nb_base b,
                                 nic_ntt_grp_size := nb_size b * ghal_ntt_get_granularity env\<rparr>, dev)
             })
        }
      | None \<Rightarrow>
          if \<not> kgni_unprotected_ops env \<and> nic_cdm_type nic \<noteq> GNI_CDM_TYPE_KERNEL then Some (- EPERM, nic, dev)
          else (case kgni_alloc_rsrc_info env mem p of
              None \<Rightarrow> Some (- ENOMEM, nic, dev)
            | Some ri \<Rightarrow>
                (let dev = between dev in
                 case resources dev p of
                   Some r \<Rightarrow>
                     if job_mismatch env nic r then Some (- EPERM, nic, dev)
                     else Some (0, take_ref ptag r nic, upd_rsrc p (\<lambda>r. r\<lparr>ri_ref_cnt := ri_ref_cnt r + 1\<rparr>) dev)
                 | None \<Rightarrow>
                     Some (0, nic\<lparr>nic_ptag := ptag, nic_fma_res_id := 1\<rparr>,
                       (log_hw (Ghal_ptt_set_entry p (GNI_COOKIE_PKEY (nic_cookie nic))) dev)
                         \<lparr>resources := (resources dev)(p \<mapsto> new_rsrc env (nic_cookie nic) (ri_job_id ri) (job_generation dev) ri),
                          job_generation := job_generation dev + 1\<rparr>))))"

definition kgni_resource_decref :: "gni_nic \<Rightarrow> kgni_device \<Rightarrow> kgni_device run" where
  "kgni_resource_decref nic dev =
     (let p = unat (nic_ptag nic) in
      if nic_ptag nic = 0 then Some dev
      else do {
        r \<leftarrow> resources dev p;
        let dev = upd_rsrc p (\<lambda>r. r\<lparr>ri_ref_cnt := ri_ref_cnt r - 1\<rparr>) dev;
        if ri_ref_cnt r - 1 = 0 then do {
          dev \<leftarrow> kgni_ntt_decref (ri_ntt_block r) dev;
          GASSERT (ri_count r MDD = 0);
          GASSERT (ri_count r MRT = 0);
          GASSERT (ri_count r GART = 0);
          Some ((log_hw Kgni_flbte_tx_reset (log_hw (Ghal_ptt_clear_entry p) dev))
                  \<lparr>resources := (resources dev)(p := None)\<rparr>)
        }
        else Some dev
      })"

datatype pdev_choice = Pdev_unset | Pdev_device | Pdev_pci_iommu

definition kgni_pdev_init :: "rsrc_env \<Rightarrow> gni_nic \<Rightarrow> int \<times> pdev_choice" where
  "kgni_pdev_init env nic =
     (if nic_modes nic AND GNI_CDM_MODE_USE_PCI_IOMMU \<noteq> 0 then
        if ghal_pdev_from_pci_idx env \<noteq> 0 then (ghal_pdev_from_pci_idx env, Pdev_unset)
        else if \<not> ghal_pci_iommu_enabled env then (- ENXIO, Pdev_pci_iommu)
        else (0, Pdev_pci_iommu)
      else (0, Pdev_device))"

section \<open>Job configuration\<close>

text \<open>The limits a job asks for: the limits proper, then the NTT block.\<close>

definition job_limits :: "rsrc_env \<Rightarrow> nat \<Rightarrow> gni_nic \<Rightarrow> gni_job_limits \<Rightarrow> kgni_device \<Rightarrow> (int \<times> kgni_device) run" where
  "job_limits env p nic lim dev = do {
     let dev = upd_rsrc p (\<lambda>r. r\<lparr>ri_limit := set_limits env nic (ri_limit r) lim\<rparr>) dev;
     r \<leftarrow> resources dev p;
     if jl_ntt_base lim \<noteq> GNI_JOB_INVALID_LIMIT \<and> sint (jl_ntt_size lim) > 0 then
       (case ri_ntt_block r of
          Some a \<Rightarrow> do {
            b \<leftarrow> ntts dev a;
            Some (if nb_base b \<noteq> jl_ntt_base lim \<or> nb_size b \<noteq> jl_ntt_size lim then - EINVAL else 0, dev)
          }
        | None \<Rightarrow> do {
            (retval, blk, dev) \<leftarrow> kgni_ntt_find_incref (jl_ntt_base lim) (jl_ntt_size lim)
              (jl_ntt_ctrl lim AND GNI_JOB_CTRL_NTT_CLEANUP \<noteq> 0) dev;
            Some (retval, case blk of None \<Rightarrow> dev
                                    | Some a \<Rightarrow> upd_rsrc p (\<lambda>r. r\<lparr>ri_ntt_block := Some a\<rparr>) dev)
          })
     else Some (0, dev)
   }"

definition kgni_job_config :: "rsrc_env \<Rightarrow> bool \<Rightarrow> gni_nic \<Rightarrow> gni_nic_jobconfig_args \<Rightarrow> kgni_device \<Rightarrow>
    (int \<times> gni_nic \<times> kgni_device) run" where
  "kgni_job_config env mem nic attr dev =
     (let p = unat (jc_ptag attr);
          chk = kgni_user_ptag_pkey_check env (jc_ptag attr) (GNI_COOKIE_PKEY (jc_cookie attr))
      in if chk \<noteq> 0 then Some (chk, nic, dev)
      else (case kgni_alloc_rsrc_info env mem p of
          None \<Rightarrow> Some (- ENOMEM, nic, dev)
        | Some ri \<Rightarrow> do {
            in_bounds (p < GHAL_PTAG_MAX_NUMBER);
            let joined = (case resources dev p of
                Some r \<Rightarrow>
                  if ri_cookie r \<noteq> jc_cookie attr then None
                  else if ri_job_id r \<noteq> jc_job_id attr then None
                  else Some (upd_rsrc p (\<lambda>r. r\<lparr>ri_ref_cnt := ri_ref_cnt r + 1\<rparr>) dev)
              | None \<Rightarrow>
                  Some ((log_hw (Ghal_ptt_set_entry p (GNI_COOKIE_PKEY (jc_cookie attr))) dev)
                    \<lparr>resources := (resources dev)(p \<mapsto> new_rsrc env (jc_cookie attr) (jc_job_id attr) (job_generation dev) ri),
                     job_generation := job_generation dev + 1\<rparr>));
            (case joined of
               None \<Rightarrow> Some (- EPERM, nic, dev)
             | Some dev \<Rightarrow> do {
                 let nic = nic\<lparr>nic_ptag := ucast (jc_ptag attr), nic_cookie := jc_cookie attr\<rparr>;
                 (retval, dev) \<leftarrow> (case jc_limits attr of
                     None \<Rightarrow> Some (0, dev)
                   | Some lim \<Rightarrow> job_limits env p nic lim dev);
                 Some (retval, nic, dev)
               })
          }))"

end
