(* ===== verification/Machine.thy ===== *)
theory Machine
  imports Prelude
begin

text \<open>
  The interface between a component and the proofs about its runs: operations that may fault, their
  calling conventions and an invariant. What follows for all runs is proved here once.
\<close>

section \<open>Guarded machines\<close>

text \<open>
  A machine runs operations that may fault; an operation is admitted in the states its precondition
  allows. Reachability is by admitted operations that return.
\<close>

inductive reachable :: "('o \<Rightarrow> 's \<Rightarrow> bool) \<Rightarrow> ('o \<Rightarrow> 's \<Rightarrow> 's run) \<Rightarrow> 's \<Rightarrow> 's \<Rightarrow> bool"
  for pre exec s0 where
  start: "reachable pre exec s0 s0"
| step: "reachable pre exec s0 s \<Longrightarrow> pre op s \<Longrightarrow> exec op s = Some s' \<Longrightarrow> reachable pre exec s0 s'"

inductive_cases reachableE: "reachable pre exec s0 s"

text \<open>The interface of a component whose operations keep an invariant and never fault under it.\<close>

locale safe_machine =
  fixes pre :: "'o \<Rightarrow> 's \<Rightarrow> bool" and exec :: "'o \<Rightarrow> 's \<Rightarrow> 's run" and inv :: "'s \<Rightarrow> bool"
  assumes op_safe: "inv s \<Longrightarrow> pre op s \<Longrightarrow> ok (exec op s) inv"
begin

lemma reachable_inv:
  assumes "inv s0" and "reachable pre exec s0 s"
  shows "inv s"
  using assms(2)
proof (induction rule: reachable.induct)
  case start
  show ?case by (rule assms(1))
next
  case (step s op s')
  from op_safe[OF step.IH step.hyps(2)] step.hyps(3) show ?case by simp
qed

lemma no_fault:
  assumes "inv s0" and "reachable pre exec s0 s" and "pre op s"
  shows "\<exists>s'. exec op s = Some s' \<and> inv s'"
  using op_safe[OF reachable_inv[OF assms(1,2)] assms(3)] by (simp add: ok_def)

end

text \<open>A second property that every operation keeps on top of the invariant.\<close>

locale safe_machine_with = safe_machine pre exec inv
  for pre :: "'o \<Rightarrow> 's \<Rightarrow> bool" and exec :: "'o \<Rightarrow> 's \<Rightarrow> 's run" and inv :: "'s \<Rightarrow> bool" +
  fixes extra :: "'s \<Rightarrow> bool"
  assumes op_extra: "inv s \<Longrightarrow> extra s \<Longrightarrow> pre op s \<Longrightarrow> exec op s = Some s' \<Longrightarrow> extra s'"
begin

lemma reachable_extra:
  assumes "inv s0" and "extra s0" and "reachable pre exec s0 s"
  shows "extra s"
  using assms(3)
proof (induction rule: reachable.induct)
  case start
  show ?case by (rule assms(2))
next
  case (step s op s')
  with reachable_inv[OF assms(1)] show ?case by (blast intro: op_extra)
qed

end

text \<open>A machine whose operations are steps of an abstract machine: the abstraction of a state after an operation is a result that
  the specification allows for the event the operation stands for. What follows for runs is proved once.\<close>

locale refining_machine = safe_machine_with pre exec inv extra
  for pre :: "'o \<Rightarrow> 's \<Rightarrow> bool" and exec :: "'o \<Rightarrow> 's \<Rightarrow> 's run" and inv :: "'s \<Rightarrow> bool" and extra :: "'s \<Rightarrow> bool" +
  fixes abs :: "'s \<Rightarrow> 'a" and event :: "'o \<Rightarrow> 's \<Rightarrow> 'e" and spec :: "'e \<Rightarrow> 'a \<Rightarrow> 'a \<Rightarrow> bool"
  assumes sim: "inv s \<Longrightarrow> extra s \<Longrightarrow> pre op s \<Longrightarrow> exec op s = Some s' \<Longrightarrow> spec (event op s) (abs s) (abs s')"
begin

lemma reachable_sim:
  assumes "inv s0" and "extra s0" and "reachable pre exec s0 s" and "pre op s" and "exec op s = Some s'"
  shows "spec (event op s) (abs s) (abs s')"
  by (rule sim[OF reachable_inv[OF assms(1,3)] reachable_extra[OF assms(1,2,3)] assms(4,5)])

end

end
