(* ===== verification/Resource_Inv.thy ===== *)
theory Resource_Inv
  imports Resource Machine
begin

text \<open>
  The references of a device: which NICs hold a resource structure, which structures hold an NTT block, the
  invariant that the counts are exact, and that every operation keeps it and does not fault.
\<close>

section \<open>The references\<close>

record rs_state =
  rs_dev :: kgni_device
  rs_nics :: "addr \<rightharpoonup> gni_nic"

text \<open>The NICs that hold a reference to a resource structure, and the structures that hold one to a block.\<close>

definition holders :: "(addr \<rightharpoonup> gni_nic) \<Rightarrow> nat \<Rightarrow> addr set" where
  "holders ni p = {n. \<exists>nic. ni n = Some nic \<and> unat (nic_ptag nic) = p}"

definition users :: "(nat \<rightharpoonup> kgni_resource_info) \<Rightarrow> addr \<Rightarrow> nat set" where
  "users rs a = {p. \<exists>r. rs p = Some r \<and> ri_ntt_block r = Some a}"

definition rsrc_inv :: "(nat \<rightharpoonup> kgni_resource_info) \<Rightarrow> (addr \<rightharpoonup> gni_nic) \<Rightarrow> bool" where
  "rsrc_inv rs ni \<longleftrightarrow> finite (dom ni) \<and>
     (\<forall>p r. rs p = Some r \<longrightarrow> 0 < p \<and> p < GHAL_PTAG_MAX_NUMBER \<and> holders ni p \<noteq> {} \<and>
        ri_ref_cnt r = int (card (holders ni p))) \<and>
     (\<forall>n nic. ni n = Some nic \<longrightarrow> nic_ptag nic \<noteq> 0 \<longrightarrow> rs (unat (nic_ptag nic)) \<noteq> None)"

definition ntt_inv :: "addr list \<Rightarrow> (addr \<rightharpoonup> kgni_ntt_block) \<Rightarrow> (nat \<rightharpoonup> kgni_resource_info) \<Rightarrow> bool" where
  "ntt_inv act nt rs \<longleftrightarrow> distinct act \<and> set act = dom nt \<and>
     (\<forall>a b. nt a = Some b \<longrightarrow> nb_ref_cnt b = int (card (users rs a))) \<and>
     (\<forall>p r a. rs p = Some r \<longrightarrow> ri_ntt_block r = Some a \<longrightarrow> nt a \<noteq> None)"

definition rs_inv :: "rs_state \<Rightarrow> bool" where
  "rs_inv s \<longleftrightarrow> rsrc_inv (resources (rs_dev s)) (rs_nics s) \<and>
     ntt_inv (active_ntts (rs_dev s)) (ntts (rs_dev s)) (resources (rs_dev s))"

lemma dev_sel [simp]:
  "resources (log_hw h dev) = resources dev" "ntts (log_hw h dev) = ntts dev" "active_ntts (log_hw h dev) = active_ntts dev"
  "resources (upd_ntt a f dev) = resources dev" "active_ntts (upd_ntt a f dev) = active_ntts dev"
  "ntts (upd_rsrc p g dev) = ntts dev" "active_ntts (upd_rsrc p g dev) = active_ntts dev"
  "resources (free_ntt a dev) = resources dev" "job_generation (log_hw h dev) = job_generation dev"
  by (simp_all add: log_hw_def upd_ntt_def upd_rsrc_def free_ntt_def)

lemma dev_upd:
  "ntts (upd_ntt a f dev) = (ntts dev)(a := map_option f (ntts dev a))"
  "resources (upd_rsrc p g dev) = (resources dev)(p := map_option g (resources dev p))"
  "ntts (free_ntt a dev) = (ntts dev)(a := None)" "active_ntts (free_ntt a dev) = remove1 a (active_ntts dev)"
  by (simp_all add: upd_ntt_def upd_rsrc_def free_ntt_def)

lemma rsrc_inv_finite: "rsrc_inv rs ni \<Longrightarrow> finite (holders ni p)"
  unfolding rsrc_inv_def holders_def by (auto intro: finite_subset[of _ "dom ni"])

lemma users_finite: "rsrc_inv rs ni \<Longrightarrow> finite (users rs a)"
  unfolding rsrc_inv_def users_def by (rule finite_subset[of _ "{0..<GHAL_PTAG_MAX_NUMBER}"]) auto

lemma users_card: "rsrc_inv rs ni \<Longrightarrow> card (users rs a) < GHAL_PTAG_MAX_NUMBER"
proof -
  assume i: "rsrc_inv rs ni"
  have "users rs a \<subseteq> {1..<GHAL_PTAG_MAX_NUMBER}"
    using i unfolding rsrc_inv_def users_def by (auto simp: Suc_le_eq)
  then have "card (users rs a) \<le> card {1..<GHAL_PTAG_MAX_NUMBER}" by (rule card_mono[rotated]) simp
  then show ?thesis by simp
qed

section \<open>Taking and dropping references\<close>

text \<open>A NIC takes a tag: the structure exists and counts one more holder, or is new and counts one.\<close>

lemma rsrc_inv_join:
  assumes inv: "rsrc_inv rs ni" and nic: "ni n = Some nic" "nic_ptag nic = 0"
    and nic': "unat (nic_ptag nic') = p" "nic_ptag nic' \<noteq> 0"
    and r': "ri_ref_cnt r' = (case rs p of None \<Rightarrow> 1 | Some r \<Rightarrow> ri_ref_cnt r + 1)"
  shows "rsrc_inv (rs(p \<mapsto> r')) (ni(n \<mapsto> nic'))"
proof -
  have p0: "p \<noteq> 0" using nic' by (metis unat_eq_zero)
  have p: "p < GHAL_PTAG_MAX_NUMBER" using nic'(1) unsigned_less[of "nic_ptag nic'", where 'a = nat] by simp
  have h: "holders (ni(n \<mapsto> nic')) q = (if q = p then insert n (holders ni q) else holders ni q)" if "q \<noteq> 0" for q
    using nic nic' that by (auto simp: holders_def)
  have nh: "n \<notin> holders ni p" using nic p0 by (auto simp: holders_def)
  have fresh: "holders ni p = {}" if "rs p = None"
  proof (rule ccontr)
    assume "holders ni p \<noteq> {}"
    then obtain x k where k: "ni x = Some k" "unat (nic_ptag k) = p" by (auto simp: holders_def)
    with p0 have "nic_ptag k \<noteq> 0" by auto
    with inv k that show False unfolding rsrc_inv_def by metis
  qed
  have cnt: "ri_ref_cnt r' = int (card (insert n (holders ni p)))"
    using inv r' nh fresh rsrc_inv_finite[OF inv, of p]
    by (auto simp: rsrc_inv_def split: option.splits)
  show ?thesis
    unfolding rsrc_inv_def
  proof (intro conjI allI impI)
    show "finite (dom (ni(n \<mapsto> nic')))" using inv by (simp add: rsrc_inv_def)
  next
    fix q r assume q: "(rs(p \<mapsto> r')) q = Some r"
    have q0: "q \<noteq> 0" using q p0 inv by (cases "q = p") (auto simp: rsrc_inv_def)
    then show "0 < q" by simp
    show "q < GHAL_PTAG_MAX_NUMBER" using q p inv by (cases "q = p") (auto simp: rsrc_inv_def)
    show "holders (ni(n \<mapsto> nic')) q \<noteq> {}" using q inv h[OF q0] by (cases "q = p") (auto simp: rsrc_inv_def)
    show "ri_ref_cnt r = int (card (holders (ni(n \<mapsto> nic')) q))"
      using q inv h[OF q0] cnt by (cases "q = p") (auto simp: rsrc_inv_def)
  next
    fix x k assume "(ni(n \<mapsto> nic')) x = Some k" "nic_ptag k \<noteq> 0"
    with inv nic'(1) show "(rs(p \<mapsto> r')) (unat (nic_ptag k)) \<noteq> None"
      by (cases "x = n") (auto simp: rsrc_inv_def)
  qed
qed

text \<open>A NIC goes away: its structure counts one holder less, and is gone with its last holder.\<close>

lemma rsrc_inv_leave:
  assumes inv: "rsrc_inv rs ni" and nic: "ni n = Some nic" "nic_ptag nic \<noteq> 0" "unat (nic_ptag nic) = p" "rs p = Some r"
    and rs': "rs' = (if ri_ref_cnt r = 1 then rs(p := None) else rs(p \<mapsto> r\<lparr>ri_ref_cnt := ri_ref_cnt r - 1\<rparr>))"
  shows "rsrc_inv rs' (ni(n := None))"
proof -
  have h: "holders (ni(n := None)) q = holders ni q - {n}" for q by (auto simp: holders_def)
  have nh: "n \<in> holders ni q \<longleftrightarrow> q = p" for q using nic by (auto simp: holders_def)
  have cnt: "ri_ref_cnt r = int (card (holders ni p))" using inv nic(4) by (simp add: rsrc_inv_def)
  have fin: "finite (holders ni p)" by (rule rsrc_inv_finite[OF inv])
  have one: "ri_ref_cnt r = 1 \<Longrightarrow> holders ni p = {n}"
    using cnt nh[of p] card_1_singleton_iff[of "holders ni p"] by auto
  have more: "holders ni p - {n} \<noteq> {}" if "ri_ref_cnt r \<noteq> 1"
  proof
    assume "holders ni p - {n} = {}"
    with nh have "holders ni p = {n}" by auto
    with cnt that show False by simp
  qed
  have card: "card (holders ni p - {n}) = card (holders ni p) - 1" "card (holders ni p) \<ge> 1"
    using nh[of p] fin card_gt_0_iff[of "holders ni p"] by (auto simp: card_Diff_singleton_if)
  show ?thesis
    unfolding rsrc_inv_def
  proof (intro conjI allI impI)
    show "finite (dom (ni(n := None)))" using inv by (simp add: rsrc_inv_def)
  next
    fix q x assume q: "rs' q = Some x"
    have old: "\<exists>y. rs q = Some y" using q rs' nic(4) by (auto split: if_splits)
    then show "0 < q" "q < GHAL_PTAG_MAX_NUMBER" using inv by (auto simp: rsrc_inv_def)
    show "holders (ni(n := None)) q \<noteq> {}"
    proof (cases "q = p")
      case True
      with q rs' more h show ?thesis by (auto split: if_splits)
    next
      case False
      with old inv nh h show ?thesis by (auto simp: rsrc_inv_def)
    qed
    show "ri_ref_cnt x = int (card (holders (ni(n := None)) q))"
    proof (cases "q = p")
      case True
      with q rs' cnt card h show ?thesis by (auto split: if_splits)
    next
      case False
      with q rs' have "rs q = Some x" by (auto split: if_splits)
      with False inv nh h show ?thesis by (simp add: rsrc_inv_def)
    qed
  next
    fix x k assume x: "(ni(n := None)) x = Some k" "nic_ptag k \<noteq> 0"
    then have k: "ni x = Some k" "x \<noteq> n" by (auto split: if_splits)
    then have "rs (unat (nic_ptag k)) \<noteq> None" using inv x(2) by (simp add: rsrc_inv_def)
    moreover have "unat (nic_ptag k) \<noteq> p" if "ri_ref_cnt r = 1"
    proof
      assume "unat (nic_ptag k) = p"
      with k have "x \<in> holders ni p" by (auto simp: holders_def)
      with one[OF that] k(2) show False by simp
    qed
    ultimately show "rs' (unat (nic_ptag k)) \<noteq> None" using rs' by auto
  qed
qed

lemma rsrc_inv_nic:
  assumes "rsrc_inv rs ni" and "ni n = Some nic" and "nic_ptag nic' = nic_ptag nic"
  shows "rsrc_inv rs (ni(n \<mapsto> nic'))"
proof -
  have "holders (ni(n \<mapsto> nic')) = holders ni" using assms(2,3) by (auto simp: holders_def fun_eq_iff)
  with assms show ?thesis by (auto simp: rsrc_inv_def)
qed

lemma rsrc_inv_same_cnt:
  assumes "rsrc_inv rs ni" and "rs p = Some r" and "ri_ref_cnt r' = ri_ref_cnt r"
  shows "rsrc_inv (rs(p \<mapsto> r')) ni"
  using assms by (auto simp: rsrc_inv_def)

section \<open>NTT blocks\<close>

text \<open>The blocks do not see a change of a structure that keeps its block.\<close>

lemma users_upd: "users (rs(p \<mapsto> r')) a = (if ri_ntt_block r' = Some a then insert p (users rs a) else users rs a - {p})"
  by (auto simp: users_def)

lemma users_mem: "p \<in> users rs a \<longleftrightarrow> (\<exists>r. rs p = Some r \<and> ri_ntt_block r = Some a)"
  by (simp add: users_def)

lemma ntt_inv_same_block:
  assumes "ntt_inv act nt rs" and "ri_ntt_block r' = (case rs p of None \<Rightarrow> None | Some r \<Rightarrow> ri_ntt_block r)"
  shows "ntt_inv act nt (rs(p \<mapsto> r'))"
proof -
  have "users (rs(p \<mapsto> r')) = users rs"
    using assms(2) by (auto simp: users_upd users_mem fun_eq_iff split: option.splits)
  with assms show ?thesis by (auto simp: ntt_inv_def split: option.splits)
qed

text \<open>A structure without a block takes one.\<close>

lemma ntt_inv_take:
  assumes inv: "ntt_inv act nt rs" and fin: "\<And>a. finite (users rs a)" and r: "rs p = Some r" "ri_ntt_block r = None"
    and a: "nt a = Some b" and b': "nb_ref_cnt b' = nb_ref_cnt b + 1" and r': "ri_ntt_block r' = Some a"
  shows "ntt_inv act (nt(a \<mapsto> b')) (rs(p \<mapsto> r'))"
proof -
  have u: "users (rs(p \<mapsto> r')) x = (if x = a then insert p (users rs x) else users rs x)" for x
    using r r' by (auto simp: users_upd users_mem)
  have "p \<notin> users rs a" using r by (simp add: users_mem)
  then have "card (insert p (users rs a)) = card (users rs a) + 1" using fin by simp
  with inv u a b' r' show ?thesis by (auto simp: ntt_inv_def)
qed

lemma ntt_inv_new:
  assumes "ntt_inv act nt rs" and "nt a = None" and "nb_ref_cnt b = 0"
  shows "ntt_inv (a # act) (nt(a \<mapsto> b)) rs"
proof -
  have "users rs a = {}" using assms(1,2) unfolding ntt_inv_def users_def by blast
  with assms show ?thesis by (auto simp: ntt_inv_def)
qed

lemma ntt_inv_free:
  assumes "ntt_inv act nt rs" and "nt a = Some b" and "users rs a = {}"
  shows "ntt_inv (remove1 a act) (nt(a := None)) rs"
  using assms by (auto simp: ntt_inv_def users_def)

lemma ntt_inv_drop:
  assumes inv: "ntt_inv act nt rs" and fin: "\<And>a. finite (users rs a)" and r: "rs p = Some r"
  shows "ri_ntt_block r = None \<Longrightarrow> ntt_inv act nt (rs(p := None))"
    and "ri_ntt_block r = Some a \<Longrightarrow> \<exists>b. nt a = Some b \<and> nb_ref_cnt b \<ge> 1 \<and>
      ntt_inv act (nt(a \<mapsto> b\<lparr>nb_ref_cnt := nb_ref_cnt b - 1\<rparr>)) (rs(p := None)) \<and>
      (nb_ref_cnt b = 1 \<longrightarrow> users (rs(p := None)) a = {})"
proof -
  have u: "users (rs(p := None)) x = users rs x - {p}" for x by (auto simp: users_def)
  show "ntt_inv act nt (rs(p := None))" if "ri_ntt_block r = None"
  proof -
    have "p \<notin> users rs x" for x using r that by (simp add: users_mem)
    with u inv show ?thesis by (auto simp: ntt_inv_def)
  qed
  assume b: "ri_ntt_block r = Some a"
  then have mem: "p \<in> users rs x \<longleftrightarrow> x = a" for x using r by (auto simp: users_mem)
  obtain b where nt: "nt a = Some b" using inv r b unfolding ntt_inv_def by blast
  have cnt: "nb_ref_cnt b = int (card (users rs a))" using inv nt by (simp add: ntt_inv_def)
  have ge: "card (users rs a) \<ge> 1" using mem fin card_gt_0_iff[of "users rs a"] by fastforce
  have card: "card (users rs a - {p}) = card (users rs a) - 1" using mem by (simp add: card_Diff_singleton_if)
  have "ntt_inv act (nt(a \<mapsto> b\<lparr>nb_ref_cnt := nb_ref_cnt b - 1\<rparr>)) (rs(p := None))"
    using inv u mem nt cnt ge card by (auto simp: ntt_inv_def)
  moreover have "users (rs(p := None)) a = {}" if "nb_ref_cnt b = 1"
  proof -
    have "card (users (rs(p := None)) a) = 0" using that cnt card u by simp
    then show ?thesis using u fin[of a] by simp
  qed
  ultimately show "\<exists>b. nt a = Some b \<and> nb_ref_cnt b \<ge> 1 \<and>
      ntt_inv act (nt(a \<mapsto> b\<lparr>nb_ref_cnt := nb_ref_cnt b - 1\<rparr>)) (rs(p := None)) \<and>
      (nb_ref_cnt b = 1 \<longrightarrow> users (rs(p := None)) a = {})"
    using nt cnt ge by auto
qed

section \<open>The operations keep the reference counts\<close>

text \<open>What the check of a protection tag promises: a tag it accepts is not 0 and in range.\<close>

definition rsrc_env_ok :: "rsrc_env \<Rightarrow> bool" where
  "rsrc_env_ok env \<longleftrightarrow> (\<forall>ptag key. kgni_user_ptag_pkey_check env ptag key = 0 \<longrightarrow>
     0 < unat ptag \<and> unat ptag < GHAL_PTAG_MAX_NUMBER)"

definition put :: "addr \<Rightarrow> gni_nic \<Rightarrow> kgni_device \<Rightarrow> rs_state \<Rightarrow> rs_state" where
  "put n nic dev s = s\<lparr>rs_dev := dev, rs_nics := (rs_nics s)(n \<mapsto> nic)\<rparr>"

lemma put_sel [simp]: "rs_dev (put n nic dev s) = dev" "rs_nics (put n nic dev s) = (rs_nics s)(n \<mapsto> nic)"
  by (simp_all add: put_def)

lemma ptag_ucast:
  assumes "0 < unat (w :: u32)" "unat w < GHAL_PTAG_MAX_NUMBER"
  shows "unat (ucast w :: u8) = unat w \<and> (ucast w :: u8) \<noteq> 0"
proof -
  have u: "unat (ucast w :: u8) = unat w" using assms(2) by (simp add: unsigned_ucast_eq take_bit_nat_eq_self)
  with assms(1) show ?thesis by (metis less_numeral_extra(3) unsigned_0)
qed

lemma new_rsrc_sel [simp]:
  "ri_ref_cnt (new_rsrc env c j g r) = 1" "ri_ntt_block (new_rsrc env c j g r) = ri_ntt_block r"
  by (simp_all add: new_rsrc_def kgni_job_resources_init_def)

lemma kgni_alloc_rsrc_info_Some:
  "kgni_alloc_rsrc_info env mem p = Some ri \<Longrightarrow> ri_ntt_block ri = None \<and> ri_job_id ri = 0"
  by (auto simp: kgni_alloc_rsrc_info_def split: if_splits)

text \<open>A NIC that takes a reference to an existing or a new structure.\<close>

lemma rs_inv_join:
  assumes inv: "rs_inv s" and nic: "rs_nics s n = Some nic" "nic_ptag nic = 0"
    and nic': "unat (nic_ptag nic') = p" "nic_ptag nic' \<noteq> 0"
    and dev: "resources dev' = (resources (rs_dev s))(p \<mapsto> r')" "ntts dev' = ntts (rs_dev s)"
      "active_ntts dev' = active_ntts (rs_dev s)"
    and r': "ri_ref_cnt r' = (case resources (rs_dev s) p of None \<Rightarrow> 1 | Some r \<Rightarrow> ri_ref_cnt r + 1)"
      "ri_ntt_block r' = (case resources (rs_dev s) p of None \<Rightarrow> None | Some r \<Rightarrow> ri_ntt_block r)"
  shows "rs_inv (put n nic' dev' s)"
  using inv rsrc_inv_join[of "resources (rs_dev s)" "rs_nics s" n nic nic' p r'] nic nic' r'(1)
    ntt_inv_same_block[of "active_ntts (rs_dev s)" "ntts (rs_dev s)" "resources (rs_dev s)" r' p] r'(2)
  by (simp add: rs_inv_def dev)

lemma rs_inv_put_same:
  assumes "rs_inv s" and "rs_nics s n = Some nic" and "nic_ptag nic' = nic_ptag nic"
  shows "rs_inv (put n nic' (rs_dev s) s)"
  using assms rsrc_inv_nic by (simp add: rs_inv_def)

lemma kgni_resource_incref_safe:
  assumes inv: "rs_inv s" and nic: "rs_nics s n = Some nic" "nic_ptag nic = 0" and ptag: "ptag \<noteq> 0"
  shows "ok (kgni_resource_incref env mem (\<lambda>d. d) ptag nic (rs_dev s)) (\<lambda>(e, nic', dev'). rs_inv (put n nic' dev' s) \<and>
    (e = 0 \<longrightarrow> nic_ptag nic' = ptag) \<and> (e \<noteq> 0 \<longrightarrow> nic_ptag nic' = 0 \<and> dev' = rs_dev s))"
proof -
  let ?p = "unat ptag" and ?dev = "rs_dev s"
  show ?thesis
  proof (cases "resources ?dev ?p")
    case (Some r)
    let ?join = "upd_rsrc ?p (\<lambda>r. r\<lparr>ri_ref_cnt := ri_ref_cnt r + 1\<rparr>) ?dev"
    have join: "rs_inv (put n nic' ?join s)" if "nic_ptag nic' = ptag" for nic'
      by (rule rs_inv_join[OF inv nic, where p = ?p and r' = "r\<lparr>ri_ref_cnt := ri_ref_cnt r + 1\<rparr>"])
        (use that ptag Some in \<open>simp_all add: dev_upd\<close>)
    have same: "rs_inv (put n nic' ?dev s)" if "nic_ptag nic' = 0" for nic'
      using rs_inv_put_same[OF inv nic(1)] that nic(2) by simp
    have blk: "\<exists>b. ntts ?dev a = Some b" if "ri_ntt_block r = Some a" for a
      using inv Some that unfolding rs_inv_def ntt_inv_def by blast
    show ?thesis
    proof (cases "ri_ntt_block r")
      case None
      with Some join[of "take_ref ptag r nic"] same[of nic] nic show ?thesis
        by (simp add: kgni_resource_incref_def Let_def take_ref_def)
    next
      case (Some a)
      then obtain b where b: "ntts ?dev a = Some b" using blk by blast
      let ?f = "\<lambda>k. k\<lparr>nic_ntt_base := nb_base b, nic_ntt_grp_size := nb_size b * ghal_ntt_get_granularity env\<rparr>"
      show ?thesis
        using \<open>resources ?dev ?p = Some r\<close> Some b join[of "?f (take_ref ptag r nic)"] same[of "?f nic"] nic
        by (simp add: kgni_resource_incref_def Let_def take_ref_def)
    qed
  next
    case None
    have same: "rs_inv (put n nic ?dev s)" using rs_inv_put_same[OF inv nic(1) refl] .
    have new: "rs_inv (put n (nic\<lparr>nic_ptag := ptag, nic_fma_res_id := 1\<rparr>)
        ((log_hw h ?dev)\<lparr>resources := (resources ?dev)(?p \<mapsto> new_rsrc env c j g ri), job_generation := g'\<rparr>) s)"
      if "kgni_alloc_rsrc_info env mem ?p = Some ri" for h c j g ri g'
      by (rule rs_inv_join[OF inv nic, where p = ?p and r' = "new_rsrc env c j g ri"])
        (use ptag None kgni_alloc_rsrc_info_Some[OF that] in simp_all)
    show ?thesis
      using None same new nic ptag by (simp add: kgni_resource_incref_def Let_def split: option.splits)
  qed
qed

text \<open>The last holder may go when the memory registrations of the job are gone.\<close>

definition may_release :: "gni_nic \<Rightarrow> kgni_device \<Rightarrow> bool" where
  "may_release nic dev \<longleftrightarrow> (case resources dev (unat (nic_ptag nic)) of None \<Rightarrow> True
    | Some r \<Rightarrow> ri_ref_cnt r = 1 \<longrightarrow> ri_count r MDD = 0 \<and> ri_count r MRT = 0 \<and> ri_count r GART = 0)"

lemma kgni_ntt_decref_safe:
  assumes inv: "ntt_inv (active_ntts dev) (ntts dev) rs" and fin: "\<And>a. finite (users rs a)"
    and r: "rs p = Some r" and blk: "ri_ntt_block r = blk"
  shows "ok (kgni_ntt_decref blk dev) (\<lambda>dev'. ntt_inv (active_ntts dev') (ntts dev') (rs(p := None)) \<and>
    resources dev' = resources dev)"
proof (cases blk)
  case None
  with ntt_inv_drop(1)[OF inv fin r] blk show ?thesis by (simp add: kgni_ntt_decref_def)
next
  case (Some a)
  with ntt_inv_drop(2)[OF inv fin r] blk obtain b where b: "ntts dev a = Some b" "nb_ref_cnt b \<ge> 1"
      "ntt_inv (active_ntts dev) ((ntts dev)(a \<mapsto> b\<lparr>nb_ref_cnt := nb_ref_cnt b - 1\<rparr>)) (rs(p := None))"
      "nb_ref_cnt b = 1 \<longrightarrow> users (rs(p := None)) a = {}"
    by blast
  have free: "ntt_inv (remove1 a (active_ntts dev)) ((ntts dev)(a := None)) (rs(p := None))" if "nb_ref_cnt b = 1"
    using ntt_inv_free[OF b(3), of a] b(4) that by simp
  show ?thesis
    using Some b(1-3) free by (simp add: kgni_ntt_decref_def Let_def dev_upd)
qed

lemma kgni_resource_decref_safe:
  assumes inv: "rs_inv s" and nic: "rs_nics s n = Some nic" and rel: "may_release nic (rs_dev s)"
  shows "ok (kgni_resource_decref nic (rs_dev s)) (\<lambda>dev'. rs_inv (s\<lparr>rs_dev := dev', rs_nics := (rs_nics s)(n := None)\<rparr>))"
proof (cases "nic_ptag nic = 0")
  case True
  have h: "holders ((rs_nics s)(n := None)) p = holders (rs_nics s) p" if "p \<noteq> 0" for p
    using nic True that by (auto simp: holders_def)
  have "rsrc_inv (resources (rs_dev s)) ((rs_nics s)(n := None))"
    using inv h by (auto simp: rs_inv_def rsrc_inv_def)
  with inv True show ?thesis by (simp add: kgni_resource_decref_def rs_inv_def)
next
  case False
  let ?p = "unat (nic_ptag nic)" and ?dev = "rs_dev s"
  have ri: "rsrc_inv (resources ?dev) (rs_nics s)"
    and ni: "ntt_inv (active_ntts ?dev) (ntts ?dev) (resources ?dev)" using inv by (simp_all add: rs_inv_def)
  obtain r where r: "resources ?dev ?p = Some r" using ri nic False unfolding rsrc_inv_def by blast
  note leave = rsrc_inv_leave[OF ri nic False refl r refl]
  show ?thesis
  proof (cases "ri_ref_cnt r = 1")
    case True
    have cnt: "ri_count r MDD = 0" "ri_count r MRT = 0" "ri_count r GART = 0"
      using rel r True by (simp_all add: may_release_def)
    let ?dec = "upd_rsrc ?p (\<lambda>r. r\<lparr>ri_ref_cnt := ri_ref_cnt r - 1\<rparr>) ?dev"
    have "ok (kgni_ntt_decref (ri_ntt_block r) ?dec) (\<lambda>dev'. ntt_inv (active_ntts dev') (ntts dev') ((resources ?dev)(?p := None)) \<and>
        resources dev' = resources ?dec)"
      by (rule kgni_ntt_decref_safe[where r = r]) (use ni users_finite[OF ri] r in simp_all)
    with True leave r cnt False show ?thesis
      by (auto simp: kgni_resource_decref_def Let_def rs_inv_def dev_upd ok_bind dest!: okD)
  next
    case more: False
    have "ntt_inv (active_ntts ?dev) (ntts ?dev) ((resources ?dev)(?p \<mapsto> r\<lparr>ri_ref_cnt := ri_ref_cnt r - 1\<rparr>))"
      by (rule ntt_inv_same_block[OF ni]) (simp add: r)
    with more leave r False show ?thesis
      by (simp add: kgni_resource_decref_def Let_def rs_inv_def dev_upd)
  qed
qed

lemma ntt_find_loop_safe:
  assumes "\<And>a. a \<in> set as \<Longrightarrow> \<exists>b. ntts dev a = Some b \<and> nb_ref_cnt b < int GHAL_PTAG_MAX_NUMBER"
  shows "ok (ntt_find_loop base sz sd as dev) (\<lambda>(e, blk, dev'). case blk of
      None \<Rightarrow> dev' = dev \<and> e = - ENOENT
    | Some a \<Rightarrow> e = 0 \<and> (\<exists>b. ntts dev a = Some b \<and> nb_base b = base \<and> nb_size b = sz) \<and>
        dev' = upd_ntt a (\<lambda>b. b\<lparr>nb_ref_cnt := nb_ref_cnt b + 1, nb_selfdestruct := sd\<rparr>) dev)"
  using assms
proof (induction as)
  case (Cons a as)
  then obtain b where "ntts dev a = Some b" "nb_ref_cnt b < int GHAL_PTAG_MAX_NUMBER" by auto
  with Cons show ?case by auto
qed simp

lemma job_limits_safe:
  assumes ri: "rsrc_inv (resources dev) ni" and ni: "ntt_inv (active_ntts dev) (ntts dev) (resources dev)"
    and r: "resources dev p = Some r"
  shows "ok (job_limits env p nic lim dev) (\<lambda>(e, dev'). rsrc_inv (resources dev') ni \<and>
    ntt_inv (active_ntts dev') (ntts dev') (resources dev'))"
proof -
  let ?r = "r\<lparr>ri_limit := set_limits env nic (ri_limit r) lim\<rparr>"
  let ?dev = "upd_rsrc p (\<lambda>r. r\<lparr>ri_limit := set_limits env nic (ri_limit r) lim\<rparr>) dev"
  have dev: "resources ?dev = (resources dev)(p \<mapsto> ?r)" using r by (simp add: dev_upd)
  have ri1: "rsrc_inv (resources ?dev) ni" unfolding dev by (rule rsrc_inv_same_cnt[OF ri r]) simp
  have ni1: "ntt_inv (active_ntts ?dev) (ntts ?dev) (resources ?dev)"
    unfolding dev using ntt_inv_same_block[OF ni, of ?r p] r by simp
  have r1: "resources ?dev p = Some ?r" by (simp add: dev)
  show ?thesis
  proof (cases "ri_ntt_block r")
    case (Some a)
    then obtain b where "ntts dev a = Some b" using ni r unfolding ntt_inv_def by blast
    with Some ri1 ni1 r1 show ?thesis by (simp add: job_limits_def Let_def)
  next
    case None
    have act: "\<exists>b. ntts ?dev a = Some b \<and> nb_ref_cnt b < int GHAL_PTAG_MAX_NUMBER" if "a \<in> set (active_ntts ?dev)" for a
    proof -
      have "a \<in> dom (ntts ?dev)" using ni1 that by (simp add: ntt_inv_def)
      then obtain b where b: "ntts ?dev a = Some b" by blast
      moreover have "nb_ref_cnt b = int (card (users (resources ?dev) a))" using ni1 b by (simp add: ntt_inv_def)
      ultimately show ?thesis using users_card[OF ri1, of a] by simp
    qed
    obtain e blk dev' where f: "kgni_ntt_find_incref (jl_ntt_base lim) (jl_ntt_size lim)
          (jl_ntt_ctrl lim AND GNI_JOB_CTRL_NTT_CLEANUP \<noteq> 0) ?dev = Some (e, blk, dev')"
        "case blk of None \<Rightarrow> dev' = ?dev \<and> e = - ENOENT | Some a \<Rightarrow> e = 0 \<and> (\<exists>b. ntts ?dev a = Some b \<and>
            nb_base b = jl_ntt_base lim \<and> nb_size b = jl_ntt_size lim) \<and>
          dev' = upd_ntt a (\<lambda>b. b\<lparr>nb_ref_cnt := nb_ref_cnt b + 1,
            nb_selfdestruct := (jl_ntt_ctrl lim AND GNI_JOB_CTRL_NTT_CLEANUP \<noteq> 0)\<rparr>) ?dev"
      using okD[OF ntt_find_loop_safe[OF act]] unfolding kgni_ntt_find_incref_def by fastforce
    show ?thesis
    proof (cases blk)
      case None
      with f ri1 ni1 r1 \<open>ri_ntt_block r = None\<close> show ?thesis by (simp add: job_limits_def Let_def)
    next
      case (Some a)
      with f(2) obtain b where b: "ntts ?dev a = Some b" by auto
      let ?b = "b\<lparr>nb_ref_cnt := nb_ref_cnt b + 1, nb_selfdestruct := (jl_ntt_ctrl lim AND GNI_JOB_CTRL_NTT_CLEANUP \<noteq> 0)\<rparr>"
      let ?r2 = "?r\<lparr>ri_ntt_block := Some a\<rparr>"
      have "ntt_inv (active_ntts ?dev) ((ntts ?dev)(a \<mapsto> ?b)) ((resources ?dev)(p \<mapsto> ?r2))"
        by (rule ntt_inv_take[OF ni1 users_finite[OF ri1] r1 _ b]) (use None in simp_all)
      moreover have "rsrc_inv ((resources ?dev)(p \<mapsto> ?r2)) ni" by (rule rsrc_inv_same_cnt[OF ri1 r1]) simp
      moreover have "resources (upd_rsrc p (\<lambda>r. r\<lparr>ri_ntt_block := Some a\<rparr>) dev') = (resources ?dev)(p \<mapsto> ?r2)"
        "ntts dev' = (ntts ?dev)(a \<mapsto> ?b)" "active_ntts dev' = active_ntts ?dev"
        using f(2) Some b r by (simp_all add: dev_upd)
      ultimately have new: "rsrc_inv (resources (upd_rsrc p (\<lambda>r. r\<lparr>ri_ntt_block := Some a\<rparr>) dev')) ni"
        "ntt_inv (active_ntts dev') (ntts dev') (resources (upd_rsrc p (\<lambda>r. r\<lparr>ri_ntt_block := Some a\<rparr>) dev'))"
        by simp_all
      show ?thesis
        using f(1) new Some r1 \<open>ri_ntt_block r = None\<close> ri1 ni1 by (simp add: job_limits_def Let_def)
    qed
  qed
qed

lemma kgni_job_config_safe:
  assumes inv: "rs_inv s" and nic: "rs_nics s n = Some nic" "nic_ptag nic = 0" and env: "rsrc_env_ok env"
  shows "ok (kgni_job_config env mem nic attr (rs_dev s)) (\<lambda>(e, nic', dev'). rs_inv (put n nic' dev' s))"
proof -
  let ?p = "unat (jc_ptag attr)" and ?dev = "rs_dev s"
  let ?nic = "nic\<lparr>nic_ptag := ucast (jc_ptag attr), nic_cookie := jc_cookie attr\<rparr>"
  have same: "rs_inv (put n nic ?dev s)" using rs_inv_put_same[OF inv nic(1) refl] .
  show ?thesis
  proof (cases "kgni_user_ptag_pkey_check env (jc_ptag attr) (GNI_COOKIE_PKEY (jc_cookie attr)) = 0")
    case False
    with same show ?thesis by (simp add: kgni_job_config_def Let_def)
  next
    case chk: True
    then have p: "0 < ?p" "?p < GHAL_PTAG_MAX_NUMBER" using env by (auto simp: rsrc_env_ok_def)
    have tag: "unat (nic_ptag ?nic) = ?p" "nic_ptag ?nic \<noteq> 0" using p by (simp_all add: ptag_ucast)
    have step: "ok (case jc_limits attr of None \<Rightarrow> Some (0, dev') | Some lim \<Rightarrow> job_limits env ?p ?nic lim dev')
        (\<lambda>(e, dev''). rs_inv (put n ?nic dev'' s))" if "rs_inv (put n ?nic dev' s)" "resources dev' ?p = Some r" for dev' r
    proof (cases "jc_limits attr")
      case None
      with that(1) show ?thesis by simp
    next
      case (Some lim)
      with job_limits_safe[of dev' "(rs_nics s)(n \<mapsto> ?nic)" ?p r env ?nic lim] that show ?thesis
        by (simp add: rs_inv_def)
    qed
    show ?thesis
    proof (cases "kgni_alloc_rsrc_info env mem ?p")
      case None
      with chk same show ?thesis by (simp add: kgni_job_config_def Let_def)
    next
      case (Some ri)
      show ?thesis
      proof (cases "resources ?dev ?p")
        case None
        let ?new = "(log_hw (Ghal_ptt_set_entry ?p (GNI_COOKIE_PKEY (jc_cookie attr))) ?dev)
          \<lparr>resources := (resources ?dev)(?p \<mapsto> new_rsrc env (jc_cookie attr) (jc_job_id attr) (job_generation ?dev) ri),
           job_generation := job_generation ?dev + 1\<rparr>"
        have "rs_inv (put n ?nic ?new s)"
          by (rule rs_inv_join[OF inv nic tag, where r' = "new_rsrc env (jc_cookie attr) (jc_job_id attr) (job_generation ?dev) ri"])
            (use None kgni_alloc_rsrc_info_Some[OF Some] in simp_all)
        from step[OF this] chk Some None p show ?thesis
          by (simp add: kgni_job_config_def Let_def ok_bind case_prod_unfold)
      next
        case r: (Some r)
        let ?join = "upd_rsrc ?p (\<lambda>r. r\<lparr>ri_ref_cnt := ri_ref_cnt r + 1\<rparr>) ?dev"
        have "rs_inv (put n ?nic ?join s)"
          by (rule rs_inv_join[OF inv nic tag, where r' = "r\<lparr>ri_ref_cnt := ri_ref_cnt r + 1\<rparr>"])
            (use r in \<open>simp_all add: dev_upd\<close>)
        from step[OF this] chk Some r p same show ?thesis
          by (simp add: kgni_job_config_def Let_def ok_bind case_prod_unfold dev_upd)
      qed
    qed
  qed
qed

text \<open>The clean-up frees no block that a job uses.\<close>

lemma ntt_cleanup_loop_safe:
  assumes "ntt_inv (active_ntts dev) (ntts dev) rs" and "\<And>a. finite (users rs a)"
    and "distinct as" and "set as \<subseteq> dom (ntts dev)"
  shows "ok (ntt_cleanup_loop env base sz as e dev) (\<lambda>(e', dev'). ntt_inv (active_ntts dev') (ntts dev') rs \<and>
    resources dev' = resources dev \<and>
    (\<forall>a b. ntts dev a = Some b \<longrightarrow> nb_ref_cnt b \<noteq> 0 \<or> a \<notin> set as \<longrightarrow> ntts dev' a = Some b) \<and>
    ntts dev' \<subseteq>\<^sub>m ntts dev)"
  using assms
proof (induction as arbitrary: dev e)
  case (Cons a as)
  then obtain b where b: "ntts dev a = Some b" by auto
  show ?case
  proof (cases "nb_ref_cnt b = 0 \<and> \<not> (base \<noteq> - 1 \<and> (nb_base b \<noteq> base \<or> nb_size b \<noteq> sz))")
    case False
    then have "ntt_cleanup_loop env base sz (a # as) e dev = ntt_cleanup_loop env base sz as e dev"
      using b by auto
    moreover have "ok (ntt_cleanup_loop env base sz as e dev) (\<lambda>(e', dev'). ntt_inv (active_ntts dev') (ntts dev') rs \<and>
        resources dev' = resources dev \<and>
        (\<forall>a b. ntts dev a = Some b \<longrightarrow> nb_ref_cnt b \<noteq> 0 \<or> a \<notin> set as \<longrightarrow> ntts dev' a = Some b) \<and>
        ntts dev' \<subseteq>\<^sub>m ntts dev)"
      by (rule Cons.IH) (use Cons.prems in auto)
    ultimately show ?thesis by (auto elim!: ok_mono)
  next
    case True
    let ?dev = "free_ntt a (log_hw (Ghal_ntt_free (nb_base b) (nb_size b)) dev)"
    have "users rs a = {}" using Cons.prems(1,2) b True by (simp add: ntt_inv_def)
    then have "ntt_inv (active_ntts ?dev) (ntts ?dev) rs"
      using ntt_inv_free[OF Cons.prems(1) b] by (simp add: dev_upd)
    then have "ok (ntt_cleanup_loop env base sz as (ghal_ntt_free env (nb_base b) (nb_size b)) ?dev)
      (\<lambda>(e', dev'). ntt_inv (active_ntts dev') (ntts dev') rs \<and> resources dev' = resources ?dev \<and>
        (\<forall>a b. ntts ?dev a = Some b \<longrightarrow> nb_ref_cnt b \<noteq> 0 \<or> a \<notin> set as \<longrightarrow> ntts dev' a = Some b) \<and>
        ntts dev' \<subseteq>\<^sub>m ntts ?dev)"
      by (rule Cons.IH) (use Cons.prems in \<open>auto simp: dev_upd\<close>)
    then obtain e' dev' where run: "ntt_cleanup_loop env base sz as (ghal_ntt_free env (nb_base b) (nb_size b)) ?dev = Some (e', dev')"
        "ntt_inv (active_ntts dev') (ntts dev') rs" "resources dev' = resources ?dev" "ntts dev' \<subseteq>\<^sub>m ntts ?dev"
      and keep: "\<And>x c. ntts ?dev x = Some c \<Longrightarrow> nb_ref_cnt c \<noteq> 0 \<or> x \<notin> set as \<Longrightarrow> ntts dev' x = Some c"
      by (fastforce dest!: okD)
    have "ntts ?dev \<subseteq>\<^sub>m ntts dev" by (auto simp: dev_upd map_le_def)
    with run(4) have "ntts dev' \<subseteq>\<^sub>m ntts dev" by (rule map_le_trans)
    moreover have "ntts dev' x = Some c" if "ntts dev x = Some c" "nb_ref_cnt c \<noteq> 0 \<or> x \<notin> set (a # as)" for x c
      by (rule keep) (use that b True in \<open>auto simp: dev_upd\<close>)
    moreover have "ntt_cleanup_loop env base sz (a # as) e dev = Some (e', dev')" using run(1) b True by auto
    ultimately show ?thesis using run(2,3) by simp
  qed
qed (simp add: map_le_def)

lemma kgni_ntt_cleanup_safe:
  assumes inv: "ntt_inv (active_ntts dev) (ntts dev) rs" and fin: "\<And>a. finite (users rs a)"
  shows "ok (kgni_ntt_cleanup env base sz dev) (\<lambda>(e', dev'). ntt_inv (active_ntts dev') (ntts dev') rs \<and>
    resources dev' = resources dev \<and> (\<forall>a b. ntts dev a = Some b \<longrightarrow> nb_ref_cnt b \<noteq> 0 \<longrightarrow> ntts dev' a = Some b) \<and>
    ntts dev' \<subseteq>\<^sub>m ntts dev)"
proof -
  have "ok (ntt_cleanup_loop env base sz (active_ntts dev) (- EINVAL) dev) (\<lambda>(e', dev'). ntt_inv (active_ntts dev') (ntts dev') rs \<and>
    resources dev' = resources dev \<and>
    (\<forall>a b. ntts dev a = Some b \<longrightarrow> nb_ref_cnt b \<noteq> 0 \<or> a \<notin> set (active_ntts dev) \<longrightarrow> ntts dev' a = Some b) \<and>
    ntts dev' \<subseteq>\<^sub>m ntts dev)"
    by (rule ntt_cleanup_loop_safe[OF inv fin]) (use inv in \<open>auto simp: ntt_inv_def\<close>)
  then show ?thesis
    using inv by (auto simp: kgni_ntt_cleanup_def elim!: ok_mono)
qed

lemma kgni_ntt_config_safe:
  assumes inv: "rs_inv s" and mem: "\<And>a. mem = Some a \<Longrightarrow> ntts (rs_dev s) a = None"
  shows "ok (kgni_ntt_config env mem attr (rs_dev s)) (\<lambda>(e, attr', dev'). rs_inv (s\<lparr>rs_dev := dev'\<rparr>))"
proof -
  let ?dev = "rs_dev s"
  have ri: "rsrc_inv (resources ?dev) (rs_nics s)"
    and ni: "ntt_inv (active_ntts ?dev) (ntts ?dev) (resources ?dev)" using inv by (simp_all add: rs_inv_def)
  have clean: "ok (kgni_ntt_cleanup env base sz dev') (\<lambda>(e', dev''). rs_inv (s\<lparr>rs_dev := dev''\<rparr>))"
    if "resources dev' = resources ?dev" "ntts dev' = ntts ?dev" "active_ntts dev' = active_ntts ?dev" for base sz dev'
    using kgni_ntt_cleanup_safe[of dev' "resources ?dev" env base sz] ni ri users_finite[OF ri] that
    by (auto simp: rs_inv_def elim!: ok_mono)
  have new: "ntt_inv (a # active_ntts ?dev) ((ntts ?dev)(a \<mapsto> b)) (resources ?dev)"
    if "mem = Some a" "nb_ref_cnt b = 0" for a b
    using ntt_inv_new[OF ni mem[OF that(1)] that(2)] .
  show ?thesis
    using clean new ri ni
    by (auto simp: kgni_ntt_config_def Let_def ok_bind case_prod_unfold rs_inv_def split: sum.split option.split)
qed


lemma rsrc_inv_present:
  assumes "rsrc_inv rs ni" and "0 < p"
  shows "(rs p = None) = (holders ni p = {})"
proof
  assume n: "rs p = None"
  have "rs (unat (nic_ptag nic)) \<noteq> None" if "ni x = Some nic" "unat (nic_ptag nic) = p" for x nic
    using assms that unfolding rsrc_inv_def by (metis gr_implies_not_zero unsigned_0)
  with n show "holders ni p = {}" by (auto simp: holders_def)
next
  assume "holders ni p = {}"
  with assms(1) show "rs p = None" by (cases "rs p") (auto simp: rsrc_inv_def)
qed

lemma kgni_ntt_decref_resources: "kgni_ntt_decref blk dev = Some dev' \<Longrightarrow> resources dev' = resources dev"
  by (auto simp: kgni_ntt_decref_def Let_def bind_eq_Some_conv split: option.splits if_splits)

end
