(* ===== verification/Resource_Props.thy ===== *)
theory Resource_Props
  imports Resource_Inv
begin

text \<open>
  The operations on job resources as a machine, and the properties of the references on all its runs.
\<close>

section \<open>The device as a machine\<close>

text \<open>The operations on the references of a device: a NIC without a job is opened, attaches to a job or
  configures one, an NTT block is allocated or cleaned up, and a NIC goes away.\<close>

datatype rs_op =
    Rs_open addr gni_nic
  | Rs_attach addr rsrc_env bool u8
  | Rs_jobconfig addr rsrc_env bool gni_nic_jobconfig_args
  | Rs_nttconfig rsrc_env "addr option" gni_nic_nttconfig_args
  | Rs_release addr

fun rs_exec :: "rs_op \<Rightarrow> rs_state \<Rightarrow> rs_state run" where
  "rs_exec (Rs_open n nic) s = Some (s\<lparr>rs_nics := (rs_nics s)(n \<mapsto> nic\<lparr>nic_ptag := 0\<rparr>)\<rparr>)"
| "rs_exec (Rs_attach n env mem ptag) s = do {
     nic \<leftarrow> rs_nics s n;
     (e, nic', dev') \<leftarrow> kgni_resource_incref env mem (\<lambda>d. d) ptag nic (rs_dev s);
     Some (put n nic' dev' s)
   }"
| "rs_exec (Rs_jobconfig n env mem attr) s = do {
     nic \<leftarrow> rs_nics s n;
     (e, nic', dev') \<leftarrow> kgni_job_config env mem nic attr (rs_dev s);
     Some (put n nic' dev' s)
   }"
| "rs_exec (Rs_nttconfig env mem attr) s = do {
     (e, attr', dev') \<leftarrow> kgni_ntt_config env mem attr (rs_dev s);
     Some (s\<lparr>rs_dev := dev'\<rparr>)
   }"
| "rs_exec (Rs_release n) s = do {
     nic \<leftarrow> rs_nics s n;
     dev' \<leftarrow> kgni_resource_decref nic (rs_dev s);
     Some (s\<lparr>rs_dev := dev', rs_nics := (rs_nics s)(n := None)\<rparr>)
   }"

text \<open>The calling conventions: a NIC takes part in at most one job, an allocation is fresh, and the
  last NIC of a job goes when the memory of the job is deregistered.\<close>

definition no_job :: "addr \<Rightarrow> rs_state \<Rightarrow> bool" where
  "no_job n s \<longleftrightarrow> (case rs_nics s n of None \<Rightarrow> False | Some nic \<Rightarrow> nic_ptag nic = 0)"

fun rs_pre :: "rs_op \<Rightarrow> rs_state \<Rightarrow> bool" where
  "rs_pre (Rs_open n nic) s \<longleftrightarrow> rs_nics s n = None"
| "rs_pre (Rs_attach n env mem ptag) s \<longleftrightarrow> no_job n s \<and> ptag \<noteq> 0"
| "rs_pre (Rs_jobconfig n env mem attr) s \<longleftrightarrow> no_job n s \<and> rsrc_env_ok env"
| "rs_pre (Rs_nttconfig env mem attr) s \<longleftrightarrow> (case mem of None \<Rightarrow> True | Some a \<Rightarrow> ntts (rs_dev s) a = None)"
| "rs_pre (Rs_release n) s \<longleftrightarrow> (case rs_nics s n of None \<Rightarrow> False | Some nic \<Rightarrow> may_release nic (rs_dev s))"

lemma no_jobE: "no_job n s \<Longrightarrow> (\<And>nic. rs_nics s n = Some nic \<Longrightarrow> nic_ptag nic = 0 \<Longrightarrow> P) \<Longrightarrow> P"
  by (auto simp: no_job_def split: option.splits)

lemma rs_inv_open:
  assumes "rs_inv s" and "rs_nics s n = None" and "nic_ptag nic = 0"
  shows "rs_inv (s\<lparr>rs_nics := (rs_nics s)(n \<mapsto> nic)\<rparr>)"
proof -
  have "holders ((rs_nics s)(n \<mapsto> nic)) p = holders (rs_nics s) p" if "p \<noteq> 0" for p
    using assms(2,3) that by (auto simp: holders_def)
  with assms show ?thesis by (auto simp: rs_inv_def rsrc_inv_def)
qed

lemma rs_exec_safe: "rs_inv s \<Longrightarrow> rs_pre op s \<Longrightarrow> ok (rs_exec op s) rs_inv"
proof (cases op)
  case (Rs_open n nic)
  assume "rs_inv s" "rs_pre op s"
  with Rs_open rs_inv_open show ?thesis by simp
next
  case (Rs_attach n env mem ptag)
  assume i: "rs_inv s" "rs_pre op s"
  with Rs_attach obtain nic where nic: "rs_nics s n = Some nic" "nic_ptag nic = 0" "ptag \<noteq> 0" by (auto elim: no_jobE)
  from kgni_resource_incref_safe[OF i(1) this, of env mem] nic Rs_attach show ?thesis
    by (auto simp: ok_bind case_prod_unfold elim!: ok_mono)
next
  case (Rs_jobconfig n env mem attr)
  assume i: "rs_inv s" "rs_pre op s"
  with Rs_jobconfig obtain nic where nic: "rs_nics s n = Some nic" "nic_ptag nic = 0" and "rsrc_env_ok env"
    by (auto elim: no_jobE)
  from kgni_job_config_safe[OF i(1) this, of mem attr] nic Rs_jobconfig show ?thesis
    by (auto simp: ok_bind case_prod_unfold elim!: ok_mono)
next
  case (Rs_nttconfig env mem attr)
  assume i: "rs_inv s" "rs_pre op s"
  then have "ntts (rs_dev s) a = None" if "mem = Some a" for a using that Rs_nttconfig by simp
  from kgni_ntt_config_safe[OF i(1) this, where env = env and attr = attr] Rs_nttconfig show ?thesis
    by (auto simp: ok_bind case_prod_unfold elim!: ok_mono)
next
  case (Rs_release n)
  assume i: "rs_inv s" "rs_pre op s"
  with Rs_release obtain nic where nic: "rs_nics s n = Some nic" "may_release nic (rs_dev s)"
    by (auto split: option.splits)
  from kgni_resource_decref_safe[OF i(1) this] nic Rs_release show ?thesis
    by (auto simp: ok_bind elim!: ok_mono)
qed

interpretation rs: safe_machine rs_pre rs_exec rs_inv
  by unfold_locales (rule rs_exec_safe)

definition rs_start :: rs_state where
  "rs_start = \<lparr>rs_dev = \<lparr>resources = Map.empty, active_ntts = [], ntts = Map.empty, job_generation = 1, hw_calls = []\<rparr>,
     rs_nics = Map.empty\<rparr>"

lemma rs_start_inv: "rs_inv rs_start"
  by (simp add: rs_start_def rs_inv_def rsrc_inv_def ntt_inv_def)

section \<open>Properties\<close>

text \<open>A concrete device with one NIC, and an environment in which every call succeeds.\<close>

definition ex_rsrc_env :: rsrc_env where
  "ex_rsrc_env = \<lparr>ghal_ntt_free = (\<lambda>_ _. 0), ghal_ntt_alloc = (\<lambda>_. Inr 4), kgni_ntt_set_tbl = (\<lambda>_ _. 0),
     ghal_ntt_set_granularity = (\<lambda>_. 0), ghal_ntt_get_granularity = 2, kgni_fma_pool_init = (\<lambda>_. 0),
     kgni_user_ptag_pkey_check = (\<lambda>p k. if 0 < unat p \<and> unat p < 256 then 0 else - EINVAL), job_getjid = 9,
     set_limits = (\<lambda>nic l j. l), GHAL_RSRC_NO_LIMIT = - 1, kgni_unprotected_ops = True,
     ghal_pdev_from_pci_idx = 0, ghal_pci_iommu_enabled = True\<rparr>"

definition ex_rs_nic :: gni_nic where
  "ex_rs_nic = \<lparr>nic_type_id = GNI_TYPE_NIC_HANDLE, nic_cdm_hndl = Some 100, nic_pe = 5, nic_inst_id = 6,
     nic_cookie = 0x00070001, nic_modes = 0, nic_ptag = 0, nic_pkey = 7, nic_cdm_type = GNI_CDM_TYPE_USER,
     nic_cdm_id = 6, nic_my_id = 1, nic_ntt_grp_size = 0, nic_ntt_base = 0, nic_fma_res_id = 0,
     nic_sm_chnl_hndl = None, nic_sm_pkts = None, nic_sm_pkt_id = 0, nic_mm = None, nic_rw_page_desc = None,
     nic_cq_interrupt_mask_desc = None, nic_qsce_func = None\<rparr>"

definition ex_rs :: rs_state where
  "ex_rs = rs_start\<lparr>rs_nics := [10 \<mapsto> ex_rs_nic]\<rparr>"

text \<open>
  C6. On every run of a device that starts with exact references, under the calling conventions: no operation
  faults; a resource structure exists exactly while some NIC holds its tag and counts its
  holders; every NTT block that a job refers to exists and counts the jobs that refer to it.
\<close>

theorem resource_refs_exact:
  assumes "rs_inv s0" and "reachable rs_pre rs_exec s0 s"
  shows "(\<forall>op. rs_pre op s \<longrightarrow> rs_exec op s \<noteq> None) \<and>
    (\<forall>p>0. (resources (rs_dev s) p = None) = (holders (rs_nics s) p = {})) \<and>
    (\<forall>p r. resources (rs_dev s) p = Some r \<longrightarrow> ri_ref_cnt r = int (card (holders (rs_nics s) p)) \<and>
      (\<forall>a. ri_ntt_block r = Some a \<longrightarrow>
        (\<exists>b. ntts (rs_dev s) a = Some b \<and> nb_ref_cnt b = int (card (users (resources (rs_dev s)) a)))))"
proof -
  have i: "rs_inv s" by (rule rs.reachable_inv[OF assms])
  then have ri: "rsrc_inv (resources (rs_dev s)) (rs_nics s)"
    and ni: "ntt_inv (active_ntts (rs_dev s)) (ntts (rs_dev s)) (resources (rs_dev s))" by (simp_all add: rs_inv_def)
  show ?thesis
  proof (intro conjI allI impI)
    fix op assume "rs_pre op s"
    then show "rs_exec op s \<noteq> None" using rs.no_fault[OF assms] by auto
  next
    fix p :: nat assume "0 < p"
    with ri show "(resources (rs_dev s) p = None) = (holders (rs_nics s) p = {})" by (rule rsrc_inv_present)
  next
    fix p r assume "resources (rs_dev s) p = Some r"
    then show "ri_ref_cnt r = int (card (holders (rs_nics s) p))" using ri by (simp add: rsrc_inv_def)
  next
    fix p r a assume "resources (rs_dev s) p = Some r" "ri_ntt_block r = Some a"
    then obtain b where "ntts (rs_dev s) a = Some b" using ni unfolding ntt_inv_def by blast
    then show "\<exists>b. ntts (rs_dev s) a = Some b \<and> nb_ref_cnt b = int (card (users (resources (rs_dev s)) a))"
      using ni by (simp add: ntt_inv_def)
  qed
qed

theorem resource_refs_exact_witness:
  "\<exists>s r. reachable rs_pre rs_exec rs_start s \<and> resources (rs_dev s) 3 = Some r \<and>
     ri_ref_cnt r = int (card (holders (rs_nics s) 3))"
proof -
  let ?op1 = "Rs_open 10 ex_rs_nic" and ?op2 = "Rs_attach 10 ex_rsrc_env True 3"
  have s1: "rs_exec ?op1 rs_start = Some ex_rs" "rs_pre ?op1 rs_start" "rs_pre ?op2 ex_rs"
    by (simp_all add: ex_rs_def rs_start_def no_job_def ex_rs_nic_def)
  obtain s2 r where s2: "rs_exec ?op2 ex_rs = Some s2" "resources (rs_dev s2) 3 = Some r"
    by (simp add: ex_rs_def rs_start_def kgni_resource_incref_def ex_rsrc_env_def kgni_alloc_rsrc_info_def)
  have "reachable rs_pre rs_exec rs_start ex_rs"
    by (rule reachable.step[where op = ?op1, OF reachable.start]) (use s1 in simp_all)
  then have "reachable rs_pre rs_exec rs_start s2"
    by (rule reachable.step[where op = ?op2]) (use s1 s2 in simp_all)
  with resource_refs_exact[OF rs_start_inv this] s2(2) show ?thesis by blast
qed

text \<open>
  When a NIC gives up its reference, the resource structure of its tag is freed and the entry of the
  tag in the protection table cleared exactly when no other NIC holds the tag; otherwise the structure
  counts one holder less. The structures of other tags do not change.
\<close>

theorem release_frees_last:
  assumes "rs_inv s" and "rs_nics s n = Some nic" and "nic_ptag nic \<noteq> 0" and "may_release nic (rs_dev s)"
  shows "\<exists>dev' r. kgni_resource_decref nic (rs_dev s) = Some dev' \<and>
    resources (rs_dev s) (unat (nic_ptag nic)) = Some r \<and>
    (if holders (rs_nics s) (unat (nic_ptag nic)) = {n}
     then resources dev' = (resources (rs_dev s))(unat (nic_ptag nic) := None) \<and>
       Ghal_ptt_clear_entry (unat (nic_ptag nic)) \<in> set (hw_calls dev')
     else resources dev' = (resources (rs_dev s))(unat (nic_ptag nic) \<mapsto> r\<lparr>ri_ref_cnt := ri_ref_cnt r - 1\<rparr>) \<and>
       hw_calls dev' = hw_calls (rs_dev s))"
proof -
  let ?p = "unat (nic_ptag nic)" and ?dev = "rs_dev s"
  have ri: "rsrc_inv (resources ?dev) (rs_nics s)" using assms(1) by (simp add: rs_inv_def)
  obtain r where r: "resources ?dev ?p = Some r" using ri assms(2,3) unfolding rsrc_inv_def by blast
  have "n \<in> holders (rs_nics s) ?p" using assms(2) by (auto simp: holders_def)
  moreover have "ri_ref_cnt r = int (card (holders (rs_nics s) ?p))" using ri r by (simp add: rsrc_inv_def)
  ultimately have last: "holders (rs_nics s) ?p = {n} \<longleftrightarrow> ri_ref_cnt r = 1"
    using card_1_singleton_iff[of "holders (rs_nics s) ?p"] by auto
  obtain dev' where d: "kgni_resource_decref nic ?dev = Some dev'"
    using okD[OF kgni_resource_decref_safe[OF assms(1,2,4)]] by blast
  show ?thesis
    using d r last assms(3)
    by (auto simp: kgni_resource_decref_def Let_def bind_eq_Some_conv dev_upd log_hw_def upd_rsrc_def
        dest!: kgni_ntt_decref_resources split: if_splits)
qed


definition ex_job :: kgni_resource_info where
  "ex_job = \<lparr>ri_ref_cnt = 1, ri_job_id = 9, ri_cookie = 0x00070001, ri_generation = 1, ri_vmdh_entry_id = 0,
     ri_ntt_block = Some 60, ri_limit = (\<lambda>_. 0), ri_count = (\<lambda>_. 0)\<rparr>"

definition ex_ntt :: kgni_ntt_block where
  "ex_ntt = \<lparr>nb_base = 8, nb_size = 4, nb_ref_cnt = 1, nb_selfdestruct = True\<rparr>"

definition ex_rs_dev :: kgni_device where
  "ex_rs_dev = \<lparr>resources = [3 \<mapsto> ex_job], active_ntts = [60, 61],
      ntts = [60 \<mapsto> ex_ntt, 61 \<mapsto> ex_ntt\<lparr>nb_ref_cnt := 0\<rparr>], job_generation = 2, hw_calls = []\<rparr>"

definition ex_rs_used :: rs_state where
  "ex_rs_used = \<lparr>rs_dev = ex_rs_dev, rs_nics = [10 \<mapsto> ex_rs_nic\<lparr>nic_ptag := 3\<rparr>, 11 \<mapsto> ex_rs_nic]\<rparr>"

lemma ex_holders: "holders (rs_nics ex_rs_used) 3 = {10}"
  by (auto simp: holders_def ex_rs_used_def ex_rs_nic_def split: if_splits)

lemma ex_users: "users (resources ex_rs_dev) a = (if a = 60 then {3} else {})"
  by (auto simp: users_def ex_rs_dev_def ex_job_def split: if_splits)

lemma ex_rs_used_inv: "rs_inv ex_rs_used"
proof -
  have "rsrc_inv (resources ex_rs_dev) (rs_nics ex_rs_used)"
    unfolding rsrc_inv_def using ex_holders
    by (auto simp: ex_rs_used_def ex_rs_dev_def ex_job_def ex_rs_nic_def split: if_splits)
  moreover have "ntt_inv (active_ntts ex_rs_dev) (ntts ex_rs_dev) (resources ex_rs_dev)"
    unfolding ntt_inv_def ex_users
    by (auto simp: ex_rs_dev_def ex_job_def ex_ntt_def split: if_splits)
  ultimately show ?thesis by (simp add: rs_inv_def ex_rs_used_def)
qed

theorem release_frees_last_witness:
  "\<exists>dev'. kgni_resource_decref (ex_rs_nic\<lparr>nic_ptag := 3\<rparr>) ex_rs_dev = Some dev' \<and> resources dev' 3 = None"
proof -
  have "\<exists>dev' r. kgni_resource_decref (ex_rs_nic\<lparr>nic_ptag := 3\<rparr>) (rs_dev ex_rs_used) = Some dev' \<and>
    resources (rs_dev ex_rs_used) (unat (nic_ptag (ex_rs_nic\<lparr>nic_ptag := 3\<rparr>))) = Some r \<and>
    (if holders (rs_nics ex_rs_used) (unat (nic_ptag (ex_rs_nic\<lparr>nic_ptag := 3\<rparr>))) = {10}
     then resources dev' = (resources (rs_dev ex_rs_used))(unat (nic_ptag (ex_rs_nic\<lparr>nic_ptag := 3\<rparr>)) := None) \<and>
       Ghal_ptt_clear_entry (unat (nic_ptag (ex_rs_nic\<lparr>nic_ptag := 3\<rparr>))) \<in> set (hw_calls dev')
     else resources dev' = (resources (rs_dev ex_rs_used))(unat (nic_ptag (ex_rs_nic\<lparr>nic_ptag := 3\<rparr>)) \<mapsto> r\<lparr>ri_ref_cnt := ri_ref_cnt r - 1\<rparr>) \<and>
       hw_calls dev' = hw_calls (rs_dev ex_rs_used))"
    by (rule release_frees_last[OF ex_rs_used_inv])
      (simp_all add: ex_rs_used_def may_release_def ex_rs_dev_def ex_job_def)
  then show ?thesis by (auto simp: ex_holders) (auto simp: ex_rs_used_def)
qed

text \<open>
  C33. The clean-up of NTT blocks returns, frees no block that a job refers to, adds none and
  leaves every remaining block as it was.
\<close>

theorem ntt_cleanup_keeps_used:
  assumes "rs_inv s"
  shows "\<exists>e dev'. kgni_ntt_cleanup env base sz (rs_dev s) = Some (e, dev') \<and> resources dev' = resources (rs_dev s) \<and>
    ntts dev' \<subseteq>\<^sub>m ntts (rs_dev s) \<and>
    (\<forall>p r a. resources (rs_dev s) p = Some r \<longrightarrow> ri_ntt_block r = Some a \<longrightarrow>
      ntts dev' a = ntts (rs_dev s) a \<and> ntts dev' a \<noteq> None)"
proof -
  let ?dev = "rs_dev s"
  have ri: "rsrc_inv (resources ?dev) (rs_nics s)"
    and ni: "ntt_inv (active_ntts ?dev) (ntts ?dev) (resources ?dev)" using assms by (simp_all add: rs_inv_def)
  obtain e dev' where d: "kgni_ntt_cleanup env base sz ?dev = Some (e, dev')" "resources dev' = resources ?dev"
      "ntts dev' \<subseteq>\<^sub>m ntts ?dev"
    and keep: "\<And>a b. ntts ?dev a = Some b \<Longrightarrow> nb_ref_cnt b \<noteq> 0 \<Longrightarrow> ntts dev' a = Some b"
    using okD[OF kgni_ntt_cleanup_safe[OF ni users_finite[OF ri], of env base sz]] by auto
  have "ntts dev' a = ntts ?dev a \<and> ntts dev' a \<noteq> None"
    if u: "resources ?dev p = Some r" "ri_ntt_block r = Some a" for p r a
  proof -
    obtain b where b: "ntts ?dev a = Some b" using ni u unfolding ntt_inv_def by blast
    have "p \<in> users (resources ?dev) a" using u by (simp add: users_mem)
    then have "nb_ref_cnt b \<noteq> 0" using ni b users_finite[OF ri, of a] by (auto simp: ntt_inv_def)
    with b keep show ?thesis by simp
  qed
  with d show ?thesis by blast
qed

theorem ntt_cleanup_keeps_used_witness:
  "\<exists>e dev'. kgni_ntt_cleanup ex_rsrc_env (- 1) 0 ex_rs_dev = Some (e, dev') \<and> ntts dev' 60 = Some ex_ntt \<and>
     ntts dev' 61 = None"
proof -
  have "\<exists>e dev'. kgni_ntt_cleanup ex_rsrc_env (- 1) 0 ex_rs_dev = Some (e, dev') \<and> ntts dev' 60 = ntts ex_rs_dev 60"
  proof -
    have "resources (rs_dev ex_rs_used) 3 = Some ex_job" "ri_ntt_block ex_job = Some 60" "rs_dev ex_rs_used = ex_rs_dev"
      by (simp_all add: ex_rs_used_def ex_rs_dev_def ex_job_def)
    with ntt_cleanup_keeps_used[OF ex_rs_used_inv, of ex_rsrc_env "- 1" 0] show ?thesis by metis
  qed
  then show ?thesis
    by (auto simp: kgni_ntt_cleanup_def ex_rs_dev_def ex_ntt_def free_ntt_def log_hw_def)
qed

text \<open>
  C34. An attach that fails leaves the device as it was and the NIC without a job; one that succeeds gives the
  NIC the tag, and the references stay exact, whatever other threads did to the device between
  the two lock regions of the call.
\<close>

theorem resource_incref_race:
  assumes "rs_inv s" and "rs_inv s'" and "rs_nics s n = Some nic" and "rs_nics s' n = Some nic"
    and "nic_ptag nic = 0" and "ptag \<noteq> 0" and "resources (rs_dev s) (unat ptag) = None"
  shows "\<exists>e nic' dev'. kgni_resource_incref env mem (\<lambda>d. rs_dev s') ptag nic (rs_dev s) = Some (e, nic', dev') \<and>
    (e = 0 \<longrightarrow> nic_ptag nic' = ptag \<and> rs_inv (put n nic' dev' s')) \<and>
    (e \<noteq> 0 \<longrightarrow> nic' = nic \<and> (dev' = rs_dev s \<or> dev' = rs_dev s'))"
proof (cases "kgni_alloc_rsrc_info env mem (unat ptag)")
  case None
  with assms(7) show ?thesis by (simp add: kgni_resource_incref_def Let_def)
next
  case (Some ri)
  let ?p = "unat ptag"
  show ?thesis
  proof (cases "resources (rs_dev s') ?p")
    case None
    let ?dev = "(log_hw (Ghal_ptt_set_entry ?p (GNI_COOKIE_PKEY (nic_cookie nic))) (rs_dev s'))
      \<lparr>resources := (resources (rs_dev s'))(?p \<mapsto> new_rsrc env (nic_cookie nic) (ri_job_id ri) (job_generation (rs_dev s')) ri),
       job_generation := job_generation (rs_dev s') + 1\<rparr>"
    have "rs_inv (put n (nic\<lparr>nic_ptag := ptag, nic_fma_res_id := 1\<rparr>) ?dev s')"
      by (rule rs_inv_join[OF assms(2,4,5), where p = ?p
            and r' = "new_rsrc env (nic_cookie nic) (ri_job_id ri) (job_generation (rs_dev s')) ri"])
        (use assms(6) None kgni_alloc_rsrc_info_Some[OF Some] in simp_all)
    with None Some assms(7) show ?thesis by (simp add: kgni_resource_incref_def Let_def)
  next
    case r: (Some r)
    have "rs_inv (put n (take_ref ptag r nic) (upd_rsrc ?p (\<lambda>r. r\<lparr>ri_ref_cnt := ri_ref_cnt r + 1\<rparr>) (rs_dev s')) s')"
      by (rule rs_inv_join[OF assms(2,4,5), where p = ?p and r' = "r\<lparr>ri_ref_cnt := ri_ref_cnt r + 1\<rparr>"])
        (use assms(6) r in \<open>simp_all add: dev_upd take_ref_def\<close>)
    with Some r assms(7) show ?thesis by (simp add: kgni_resource_incref_def Let_def take_ref_def)
  qed
qed

definition ex_rs_before :: rs_state where
  "ex_rs_before = rs_start\<lparr>rs_nics := [11 \<mapsto> ex_rs_nic]\<rparr>"

lemma ex_rs_before_inv: "rs_inv ex_rs_before"
  using rs_inv_open[OF rs_start_inv, of 11 ex_rs_nic] by (simp add: ex_rs_before_def rs_start_def ex_rs_nic_def)

theorem resource_incref_race_witness:
  "\<exists>e nic' dev'. kgni_resource_incref ex_rsrc_env True (\<lambda>d. ex_rs_dev) 3 ex_rs_nic (rs_dev ex_rs_before) = Some (e, nic', dev') \<and>
    e = 0 \<and> rs_inv (put 11 nic' dev' ex_rs_used)"
proof -
  have dev: "rs_dev ex_rs_used = ex_rs_dev" by (simp add: ex_rs_used_def)
  have "\<exists>e nic' dev'. kgni_resource_incref ex_rsrc_env True (\<lambda>d. rs_dev ex_rs_used) 3 ex_rs_nic (rs_dev ex_rs_before) = Some (e, nic', dev') \<and>
    (e = 0 \<longrightarrow> nic_ptag nic' = 3 \<and> rs_inv (put 11 nic' dev' ex_rs_used)) \<and>
    (e \<noteq> 0 \<longrightarrow> nic' = ex_rs_nic \<and> (dev' = rs_dev ex_rs_before \<or> dev' = rs_dev ex_rs_used))"
    by (rule resource_incref_race[OF ex_rs_before_inv ex_rs_used_inv])
      (simp_all add: ex_rs_before_def ex_rs_used_def ex_rs_nic_def rs_start_def)
  moreover have "\<exists>nic' dev'. kgni_resource_incref ex_rsrc_env True (\<lambda>d. ex_rs_dev) 3 ex_rs_nic (rs_dev ex_rs_before) = Some (0, nic', dev')"
    by (simp add: kgni_resource_incref_def ex_rs_before_def rs_start_def ex_rsrc_env_def kgni_alloc_rsrc_info_def
        ex_rs_dev_def ex_job_def job_mismatch_def)
  ultimately show ?thesis unfolding dev by auto
qed

text \<open>
  A NIC that joins a job which owns an NTT block gets the base and the size of the block on the
  fast path, but when it loses the race for creating the job, it joins the same job without them.
\<close>

theorem lost_race_skips_ntt:
  "\<exists>nic1 dev1 nic2 dev2.
     kgni_resource_incref ex_rsrc_env True (\<lambda>d. d) 3 ex_rs_nic ex_rs_dev = Some (0, nic1, dev1) \<and>
     kgni_resource_incref ex_rsrc_env True (\<lambda>d. ex_rs_dev) 3 ex_rs_nic (rs_dev rs_start) = Some (0, nic2, dev2) \<and>
     dev1 = dev2 \<and> nic_ptag nic1 = nic_ptag nic2 \<and> nic_ntt_base nic1 = 8 \<and> nic_ntt_grp_size nic1 = 8 \<and>
     nic_ntt_base nic2 = 0 \<and> nic_ntt_grp_size nic2 = 0"
  by (simp add: kgni_resource_incref_def rs_start_def ex_rsrc_env_def kgni_alloc_rsrc_info_def
      ex_rs_dev_def ex_job_def ex_ntt_def job_mismatch_def upd_rsrc_def take_ref_def ex_rs_nic_def)

end
