(* ===== verification/Session.thy ===== *)
theory Session
  imports Driver
begin

text \<open>
  The datagram session manager of \<open>kgni_ops.c\<close>: two endpoints exchange one datagram each.
  A session descriptor is linked into the session list of its communication domain and, while
  there is something to send, into the task list of the worker \<open>kgni_sm_task\<close>. Every operation
  but the send event runs under \<open>kgni_sm_lock\<close> and is one function on the driver state here; the
  send event takes no lock and is taken as one step too. \<open>None\<close> is a kernel fault: a failed
  assertion, a NULL or freed pointer that is followed, an access outside an array. The debug prints
  are left out, they have no effect on the state.
\<close>

section \<open>Notification and retransmission delay\<close>

definition kgni_notify_user :: "addr \<Rightarrow> addr \<Rightarrow> kgni \<Rightarrow> kgni run" where
  "kgni_notify_user ch a s = do {
     c \<leftarrow> chnls s ch;
     m \<leftarrow> sms s a;
     (case datagram_cnt_kern c of
        None \<Rightarrow> Some s
      | Some cnt \<Rightarrow>
          if KGNI_SM_FLAG_USR_NOTIFIED \<in> sm_flags m then Some s
          else Some (upd_sm a (\<lambda>m. m\<lparr>sm_flags := insert KGNI_SM_FLAG_USR_NOTIFIED (sm_flags m)\<rparr>)
                 (upd_chnl ch (\<lambda>c. c\<lparr>datagram_cnt_kern := Some (cnt + 1)\<rparr>) s)))
   }"

definition kgni_sm_rx_set_delay :: "kgni_env \<Rightarrow> u64 \<Rightarrow> kgni_sm_info \<Rightarrow> kgni_sm_info" where
  "kgni_sm_rx_set_delay env jiffies m =
     (if sm_nrx_cnt m > 2 then
        let tmp = sm_nrx_cnt m - 1;
            ms = tmp * tmp;
            ms = (if ms > 1000 then 1000 else ms)
        in m\<lparr>sm_rx_delay := jiffies + msecs_to_jiffies env ms\<rparr>
      else m\<lparr>sm_rx_delay := 0\<rparr>)"

definition kgni_sm_rx_delay :: "u64 \<Rightarrow> kgni_sm_info \<Rightarrow> bool" where
  "kgni_sm_rx_delay jiffies m =
     (if sm_rx_delay m \<noteq> 0 then time_before jiffies (sm_rx_delay m) else False)"

definition kgni_sm_schedule_pending_work :: "kgni \<Rightarrow> kgni" where
  "kgni_sm_schedule_pending_work s = (if kgni_sm_list s \<noteq> [] then queue_sm_work s else s)"

section \<open>The worker\<close>

text \<open>
  The search for the next free packet slot. The C loop starts at \<open>id + 1\<close>, wraps when the index
  passes \<open>max_tx_pkts\<close>, and ends at a free slot or when the index equals \<open>id\<close> at the loop head.
  \<open>None\<close> is a read outside the array or a search that does not end.
\<close>

partial_function (option) next_pkt_slot :: "addr option list \<Rightarrow> nat \<Rightarrow> nat \<Rightarrow> nat \<Rightarrow> nat option" where
  "next_pkt_slot ps mx i0 i =
     (if i = i0 then Some i
      else let j = (if i > mx then 0 else i)
           in if j < length ps
              then (if ps ! j = None then Some j else next_pkt_slot ps mx i0 (j + 1))
              else None)"

definition unsent_flags :: "sm_flag set" where
  "unsent_flags = {KGNI_SM_FLAG_STATE_CHANGED, KGNI_SM_FLAG_SEND_FAILED}"

datatype loop_ctl = Continue | Break

text \<open>The packet is handed to the channel: the second half of the sending branch. The channel
  layer is told how many packets of the session manager it has in flight.\<close>

definition sm_task_send :: "kgni_env \<Rightarrow> addr \<Rightarrow> addr \<Rightarrow> u16 \<Rightarrow> addr \<Rightarrow> kgni \<Rightarrow>
    (loop_ctl \<times> int \<times> kgni) run" where
  "sm_task_send env n ch flrcnt a s = do {
     let s = upd_sm a (\<lambda>m. upd_pkt (\<lambda>p. p\<lparr>seq_num := sm_snd_seq_num m\<rparr>) m) s;
     m \<leftarrow> sms s a;
     nic \<leftarrow> nics s n;
     c \<leftarrow> chnls s ch;
     ps \<leftarrow> nic_sm_pkts nic;
     let i = nic_sm_pkt_id nic;
     GASSERT (i < length ps);
     let s1 = upd_nic n (\<lambda>k. k\<lparr>nic_sm_pkts := Some (ps[i := Some a])\<rparr>) s;
     let s2 = upd_sm a (\<lambda>m. m\<lparr>sm_flags := sm_flags m - unsent_flags,
                             sm_snd_status := GNI_RC_NOT_DONE,
                             sm_pkts_out := sm_pkts_out m + 1\<rparr>) s1;
     let used = length (filter (\<lambda>x. x \<noteq> None) ps);
     let err = kgni_chnl_send env used c (remote_pe (sm_pkt m)) (remote_inst_id (sm_pkt m)) i (sm_pkt m);
     if err \<noteq> 0 then do {
       GASSERT (err = - EAGAIN);
       Some (Break, err,
         upd_sm a (\<lambda>m'. m'\<lparr>sm_flags := sm_flags m, sm_flrcnt := flrcnt,
                           sm_pkts_out := sm_pkts_out m' - 1\<rparr>)
           (upd_nic n (\<lambda>k. k\<lparr>nic_sm_pkts := Some (ps[i := None])\<rparr>) s2))
     } else do {
       j \<leftarrow> next_pkt_slot (ps[i := Some a]) (max_tx_pkts c) i (i + 1);
       GASSERT (j \<noteq> i);
       Some (Continue, 0, upd_nic n (\<lambda>k. k\<lparr>nic_sm_pkt_id := j\<rparr>) s2)
     }
   }"

text \<open>One iteration of the loop for the session at \<open>a\<close>: the new \<open>err\<close>, whether a retransmission
  was delayed, and the state.\<close>

definition sm_task_step :: "kgni_env \<Rightarrow> u64 \<Rightarrow> int \<Rightarrow> addr \<Rightarrow> kgni \<Rightarrow>
    (loop_ctl \<times> int \<times> bool \<times> kgni) run" where
  "sm_task_step env jiffies err a s = do {
     m \<leftarrow> sms s a;
     let n = sm_nic_hndl m;
     nic \<leftarrow> nics s n;
     (case nic_sm_chnl_hndl nic of
        Some ch \<Rightarrow>
          if sm_pkts_out m = 0 \<and> sm_flags m \<inter> unsent_flags \<noteq> {} \<and>
             sm_state_of m \<noteq> KGNI_SM_STATE_TERMINATED
          then if KGNI_SM_FLAG_SEND_FAILED \<in> sm_flags m \<and> sm_flrcnt m > KGNI_SM_MAX_RETRANSMITS env
          then do {
            s \<leftarrow> kgni_notify_user ch a
                  (smtask_del a (upd_sm a (set_state KGNI_SM_STATE_TIMEOUT) s));
            Some (Continue, err, False, wake_up_sm n s)
          } else do {
            let flrcnt = sm_flrcnt m;
            let s = upd_sm a (\<lambda>m.
                  if KGNI_SM_FLAG_SEND_FAILED \<in> sm_flags m then
                    if sm_snd_status m \<noteq> GNI_RC_ERROR_RESOURCE
                    then m\<lparr>sm_flrcnt := sm_flrcnt m + 1\<rparr>
                    else kgni_sm_rx_set_delay env jiffies (m\<lparr>sm_nrx_cnt := sm_nrx_cnt m + 1\<rparr>)
                  else m) s;
            m \<leftarrow> sms s a;
            if kgni_sm_rx_delay jiffies m then Some (Continue, err, True, s)
            else do {
              (ctl, err, s) \<leftarrow> sm_task_send env n ch flrcnt a s;
              Some (ctl, err, False, s)
            }
          }
          else if sm_pkts_out m = 0 then do {
            let s = upd_sm a (\<lambda>m. if sm_state_of m = KGNI_SM_STATE_TERMINATE_INIT
                                  then set_state KGNI_SM_STATE_TERMINATED m else m) s;
            s \<leftarrow> kgni_notify_user ch a (smtask_del a s);
            Some (Continue, err, False, wake_up_sm n s)
          } else Some (Continue, err, False, s)
      | None \<Rightarrow>
          if sm_pkts_out m = 0 then do {
            let s = upd_sm a (\<lambda>m. if sm_state_of m = KGNI_SM_STATE_TERMINATE_INIT
                                  then set_state KGNI_SM_STATE_TERMINATED m else m) s;
            Some (Continue, err, False, wake_up_sm n (smtask_del a s))
          } else Some (Continue, err, False, s))
   }"

text \<open>
  \<open>list_for_each_safe\<close> over the task list. The body unlinks at most the current element and the
  lock is held throughout, so the loop visits the elements the list had on entry. \<open>ticks i\<close> is
  the tick counter in iteration \<open>i\<close>.
\<close>

fun sm_task_loop :: "kgni_env \<Rightarrow> (nat \<Rightarrow> u64) \<Rightarrow> u64 \<Rightarrow> nat \<Rightarrow> addr list \<Rightarrow> int \<Rightarrow> bool \<Rightarrow> kgni \<Rightarrow>
    (int \<times> bool \<times> kgni) run" where
  "sm_task_loop env ticks start i [] err delayed s = Some (err, delayed, s)"
| "sm_task_loop env ticks start i (a # as) err delayed s =
     (if ticks i - start > 1 then Some (1, delayed, s)
      else do {
        (ctl, err, dl, s) \<leftarrow> sm_task_step env (ticks i) err a s;
        (case ctl of
           Continue \<Rightarrow> sm_task_loop env ticks start (i + 1) as err (delayed \<or> dl) s
         | Break \<Rightarrow> Some (err, delayed \<or> dl, s))
      })"

text \<open>The work item is dequeued when the worker runs.\<close>

definition kgni_sm_task :: "kgni_env \<Rightarrow> (nat \<Rightarrow> u64) \<Rightarrow> u64 \<Rightarrow> kgni \<Rightarrow> kgni run" where
  "kgni_sm_task env ticks start s = do {
     (err, delayed, s) \<leftarrow> sm_task_loop env ticks start 0 (kgni_sm_list s) 0 False (s\<lparr>sm_work := False\<rparr>);
     Some (if err \<noteq> 0 \<or> delayed then queue_sm_work s else s)
   }"

section \<open>Channel callbacks\<close>

definition kgni_sm_chnl_event :: "kgni_env \<Rightarrow> addr \<Rightarrow> nat \<Rightarrow> nat \<Rightarrow> gni_return \<Rightarrow> kgni \<Rightarrow> kgni run" where
  "kgni_sm_chnl_event env ch usr_cookie pkt_id status s = do {
     GASSERT (usr_cookie < KGNI_MAX_CDM_NUMBER env);
     cdm \<leftarrow> array_get (kgni_cdm_array s) usr_cookie;
     GASSERT (cdm \<noteq> None);
     GASSERT (pkt_id \<le> KGNI_MAX_SM_PKTS env);
     c \<leftarrow> chnls s ch;
     nic \<leftarrow> nics s (chnl_nic_hndl c);
     ps \<leftarrow> nic_sm_pkts nic;
     slot \<leftarrow> array_get ps pkt_id;
     (case slot of
        None \<Rightarrow> Some s
      | Some a \<Rightarrow> do {
          let s = upd_nic (chnl_nic_hndl c) (\<lambda>k. k\<lparr>nic_sm_pkts := Some (ps[pkt_id := None])\<rparr>) s;
          m \<leftarrow> sms s a;
          let s = upd_sm a (\<lambda>m.
                let m = m\<lparr>sm_snd_status := status\<rparr>;
                    m = (if status \<noteq> GNI_RC_SUCCESS
                         then (let m = m\<lparr>sm_flags := insert KGNI_SM_FLAG_SEND_FAILED (sm_flags m)\<rparr>
                               in if sm_state_of m = KGNI_SM_STATE_TERMINATE_INIT
                                  then set_state KGNI_SM_STATE_TERMINATED m else m)
                         else m\<lparr>sm_snd_seq_num := sm_snd_seq_num m + 1\<rparr>)
                in m\<lparr>sm_pkts_out := sm_pkts_out m - 1\<rparr>) s;
          m \<leftarrow> sms s a;
          GASSERT (sm_pkts_out m \<ge> 0);
          Some (queue_sm_work s)
        })
   }"

datatype rcv_result = GNI_CHNL_RCV_HANDLED | GNI_CHNL_RCV_NOTMINE

text \<open>The test of a session against a received packet, and the test for an open-ended session.\<close>

definition rcv_match :: "kgni_sm_info \<Rightarrow> kgni_sm_pkt \<Rightarrow> bool" where
  "rcv_match m r \<longleftrightarrow>
     remote_pe (sm_pkt m) = local_pe r \<and> local_pe (sm_pkt m) = remote_pe r \<and>
     remote_inst_id (sm_pkt m) = local_inst_id r \<and> local_inst_id (sm_pkt m) = remote_inst_id r"

definition rcv_open :: "kgni_sm_info \<Rightarrow> kgni_sm_pkt \<Rightarrow> bool" where
  "rcv_open m r \<longleftrightarrow>
     \<not> GNI_EP_BOUND (remote_pe (sm_pkt m)) (remote_inst_id (sm_pkt m)) \<and>
     local_inst_id (sm_pkt m) = remote_inst_id r \<and> local_pe (sm_pkt m) = remote_pe r"

text \<open>\<open>rem_udata\<close> and its size are taken from the packet, which is not checked against the size of
  the arrays.\<close>

definition udata_fits :: "kgni_sm_pkt \<Rightarrow> kgni_sm_info \<Rightarrow> bool" where
  "udata_fits r m \<longleftrightarrow> unat (local_udata_size r) \<le> length (local_udata r) \<and>
     unat (local_udata_size r) \<le> length (sm_rem_udata m)"

definition take_rem_udata :: "kgni_sm_pkt \<Rightarrow> kgni_sm_info \<Rightarrow> kgni_sm_info" where
  "take_rem_udata r m =
     m\<lparr>sm_rem_udata_size := local_udata_size r,
       sm_rem_udata := memcpy (sm_rem_udata m) (local_udata r) (unat (local_udata_size r))\<rparr>"

text \<open>The generation and sequence number are taken over after a complete match.\<close>

definition rcv_commit :: "kgni_sm_pkt \<Rightarrow> kgni_sm_info \<Rightarrow> kgni_sm_info" where
  "rcv_commit r m =
     upd_pkt (\<lambda>p. p\<lparr>remote_gen := local_gen r\<rparr>) (m\<lparr>sm_rcvd_seq_num := seq_num r\<rparr>)"

text \<open>
  What the receive callback does with a session that matches the packet. \<open>None\<close> inside the
  result is the \<open>continue\<close> of the unexpected packet in state COMPLETED: the search goes on.
\<close>

definition rcv_matched :: "addr \<Rightarrow> addr \<Rightarrow> addr \<Rightarrow> addr \<Rightarrow> kgni_sm_info \<Rightarrow> kgni_sm_pkt \<Rightarrow> kgni \<Rightarrow>
    kgni option run" where
  "rcv_matched d ch n a m r s =
     (let finish = (\<lambda>f s. do {
            s \<leftarrow> kgni_notify_user ch a (upd_sm a (rcv_commit r \<circ> f) s);
            Some (Some (wake_up_sm n s)) })
      in
      if remote_gen r = 0 \<and> pkt_state r = KGNI_SM_STATE_COMPLETED then Some (Some s)
      else if remote_gen r \<noteq> 0 \<and> remote_gen r \<noteq> local_gen (sm_pkt m) then Some (Some s)
      else if pkt_state r = KGNI_SM_STATE_TERMINATE_INIT then
        if sm_state_of m = KGNI_SM_STATE_REMINFO_READY then do {
          GASSERT (\<not> on_smtask a s);
          Some (Some (free_session d a s))
        }
        else finish (\<lambda>m. (set_state KGNI_SM_STATE_TERMINATED m)\<lparr>sm_flags := sm_flags m - unsent_flags\<rparr>) s
      else if sm_state_of m = KGNI_SM_STATE_LOCINFO_READY then
        if pkt_state r = KGNI_SM_STATE_LOCINFO_READY then do {
          in_bounds (udata_fits r m);
          let s = upd_sm a (rcv_commit r \<circ> (\<lambda>m.
                 (set_state KGNI_SM_STATE_COMPLETED (take_rem_udata r m))
                   \<lparr>sm_flags := insert KGNI_SM_FLAG_STATE_CHANGED (sm_flags m)\<rparr>)) s;
          let s = (if on_smtask a s then s else smtask_add a s);
          Some (Some (queue_sm_work s))
        }
        else if pkt_state r = KGNI_SM_STATE_COMPLETED then do {
          in_bounds (udata_fits r m);
          finish (\<lambda>m. set_state KGNI_SM_STATE_COMPLETED (take_rem_udata r m)) s
        }
        else Some (Some s)
      else if sm_state_of m = KGNI_SM_STATE_COMPLETED then
        if pkt_state r = KGNI_SM_STATE_COMPLETED then Some (Some s) else Some None
      else Some (Some s))"

text \<open>The search: \<open>Inr s\<close> when a matching session has handled the packet, \<open>Inl open\<close> with the
  first open-ended session when the list is exhausted.\<close>

fun rcv_search :: "addr \<Rightarrow> addr \<Rightarrow> addr \<Rightarrow> kgni_sm_pkt \<Rightarrow> addr list \<Rightarrow> addr option \<Rightarrow> kgni \<Rightarrow>
    (addr option + kgni) run" where
  "rcv_search d ch n r [] opn s = Some (Inl opn)"
| "rcv_search d ch n r (a # as) opn s = do {
     m \<leftarrow> sms s a;
     if rcv_match m r then do {
       res \<leftarrow> rcv_matched d ch n a m r s;
       (case res of Some s' \<Rightarrow> Some (Inr s') | None \<Rightarrow> rcv_search d ch n r as opn s)
     }
     else if opn = None \<and> rcv_open m r then rcv_search d ch n r as (Some a) s
     else rcv_search d ch n r as opn s
   }"

text \<open>The fields of a session created for a packet nobody waits for yet. \<open>raw\<close> is the content of
  the descriptor as it came from the allocator.\<close>

definition rcv_new_session :: "gni_cdm \<Rightarrow> gni_nic \<Rightarrow> addr \<Rightarrow> u64 \<Rightarrow> kgni_sm_pkt \<Rightarrow> kgni_sm_info \<Rightarrow> kgni_sm_info" where
  "rcv_new_session cdm nic n gen r raw =
     take_rem_udata r (raw\<lparr>
       sm_pkt := (sm_pkt raw)\<lparr>
         pkt_ptag := cdm_ptag cdm, pkt_cookie := cdm_cookie cdm,
         pkt_state := KGNI_SM_STATE_REMINFO_READY,
         local_pe := nic_pe nic, local_inst_id := cdm_inst_id cdm,
         remote_pe := local_pe r, remote_inst_id := local_inst_id r,
         local_gen := gen, remote_gen := local_gen r, seq_num := 1\<rparr>,
       sm_flags := {}, sm_post_id := - 1, sm_pkts_out := 0, sm_flrcnt := 0, sm_nrx_cnt := 0,
       sm_rx_delay := 0, sm_virt_remote_pe := - 1, sm_snd_status := GNI_RC_NOT_DONE,
       sm_nic_hndl := n, sm_snd_seq_num := 1, sm_rcvd_seq_num := seq_num r\<rparr>)"

text \<open>An open-ended session is matched with the sender of the packet.\<close>

definition rcv_bind_open :: "kgni_sm_pkt \<Rightarrow> kgni_sm_info \<Rightarrow> kgni_sm_info" where
  "rcv_bind_open r m =
     (take_rem_udata r (upd_pkt (\<lambda>p. p\<lparr>remote_pe := local_pe r, remote_inst_id := local_inst_id r,
                                      remote_gen := local_gen r,
                                      pkt_state := KGNI_SM_STATE_COMPLETED\<rparr>) m))
       \<lparr>sm_rcvd_seq_num := seq_num r, sm_flags := {KGNI_SM_FLAG_STATE_CHANGED}\<rparr>"

text \<open>
  The receive callback. \<open>len_ok\<close> says that the packet has the size of a session packet, \<open>mem\<close> is
  the result of \<open>kmem_cache_alloc\<close>: an address with its initial content, or NULL.
\<close>

definition kgni_sm_chnl_rcv :: "kgni_env \<Rightarrow> (addr \<times> kgni_sm_info) option \<Rightarrow> addr \<Rightarrow> nat \<Rightarrow> kgni_sm_pkt \<Rightarrow>
    bool \<Rightarrow> kgni \<Rightarrow> (rcv_result \<times> kgni) run" where
  "kgni_sm_chnl_rcv env mem ch usr_cookie r len_ok s = do {
     GASSERT (usr_cookie < KGNI_MAX_CDM_NUMBER env);
     dp \<leftarrow> array_get (kgni_cdm_array s) usr_cookie;
     d \<leftarrow> dp;
     cdm \<leftarrow> cdms s d;
     if \<not> len_ok \<or> pkt_cookie r \<noteq> cdm_cookie cdm \<or> remote_inst_id r \<noteq> cdm_inst_id cdm
     then Some (GNI_CHNL_RCV_NOTMINE, s)
     else do {
       c \<leftarrow> chnls s ch;
       let n = chnl_nic_hndl c;
       nic \<leftarrow> nics s n;
       found \<leftarrow> rcv_search d ch n r (cdm_sessions cdm) None s;
       (case found of
          Inr s' \<Rightarrow> Some (GNI_CHNL_RCV_HANDLED, s')
        | Inl opn \<Rightarrow>
            if pkt_state r = KGNI_SM_STATE_COMPLETED \<or> pkt_state r = KGNI_SM_STATE_TERMINATE_INIT \<or>
               remote_gen r \<noteq> 0
            then Some (GNI_CHNL_RCV_HANDLED, s)
            else (case opn of
                Some a \<Rightarrow> do {
                  m \<leftarrow> sms s a;
                  in_bounds (udata_fits r m);
                  GASSERT (\<not> on_smtask a s);
                  Some (GNI_CHNL_RCV_HANDLED,
                        queue_sm_work (smtask_add a (upd_sm a (rcv_bind_open r) s)))
                }
              | None \<Rightarrow>
                  (case mem of
                     None \<Rightarrow> Some (GNI_CHNL_RCV_HANDLED, s)
                   | Some (a, raw) \<Rightarrow> do {
                       in_bounds (udata_fits r raw);
                       Some (GNI_CHNL_RCV_HANDLED,
                         add_session d a (rcv_new_session cdm nic n (sm_generation s) r raw)
                           (s\<lparr>sm_generation := sm_generation s + 1\<rparr>))
                     })))
     }
   }"

section \<open>Probing\<close>

definition sm_final :: "sm_state \<Rightarrow> bool" where
  "sm_final st \<longleftrightarrow> st = KGNI_SM_STATE_COMPLETED \<or> st = KGNI_SM_STATE_TERMINATED \<or> st = KGNI_SM_STATE_TIMEOUT"

text \<open>
  The loop of \<open>kgni_sm_probe_state\<close>: the result code and the arguments. The test \<open>remote_pe < 0\<close>
  of the code is on an unsigned variable.
\<close>

fun probe_loop :: "kgni_env \<Rightarrow> gni_nic \<Rightarrow> bool \<Rightarrow> addr list \<Rightarrow> gni_ep_postdata_test_args \<Rightarrow> kgni \<Rightarrow>
    (int \<times> gni_ep_postdata_test_args) run" where
  "probe_loop env nic by_id [] attr s = Some (- ESRCH, attr)"
| "probe_loop env nic by_id (a # as) attr s = do {
     m \<leftarrow> sms s a;
     if \<not> on_smtask a s \<and> sm_final (sm_state_of m) then
       if \<not> by_id then
         (let attr = attr\<lparr>pt_remote_id := remote_inst_id (sm_pkt m)\<rparr>
          in if nic_ntt_grp_size nic \<noteq> 0 then
               (let attr = attr\<lparr>pt_remote_pe := - 1\<rparr>;
                    pe = kgni_ntt_physical_to_logical env nic (remote_pe (sm_pkt m))
                in if pe < 0 then Some (- EFAULT, attr)
                   else (let attr = attr\<lparr>pt_remote_pe := pe\<rparr>
                         in if pt_remote_pe attr = - 1 then Some (- ENXIO, attr)
                            else Some (0, attr)))
             else Some (0, attr\<lparr>pt_remote_pe := remote_pe (sm_pkt m)\<rparr>))
       else if sm_post_id m \<noteq> - 1 then Some (0, attr\<lparr>pt_post_id := sm_post_id m\<rparr>)
       else probe_loop env nic by_id as attr s
     else probe_loop env nic by_id as attr s
   }"

definition kgni_sm_probe_state :: "kgni_env \<Rightarrow> addr \<Rightarrow> gni_ep_postdata_test_args \<Rightarrow> kgni \<Rightarrow>
    (int \<times> gni_ep_postdata_test_args) run" where
  "kgni_sm_probe_state env n attr s = do {
     nic \<leftarrow> nics s n;
     if nic_cdm_id nic = GNI_CDM_INVALID_ID then Some (- EINVAL, attr)
     else do {
       dp \<leftarrow> cdm_of_id (nic_cdm_id nic) s;
       (case dp of
          None \<Rightarrow> Some (- EINVAL, attr)
        | Some d \<Rightarrow> do {
            cdm \<leftarrow> cdms s d;
            probe_loop env nic (pt_modes attr AND GNI_EP_PDT_MODE_USE_POST_ID \<noteq> 0)
              (cdm_sessions cdm) attr s
          })
     }
   }"

section \<open>Termination\<close>

definition match_post :: "bool \<Rightarrow> u64 \<Rightarrow> u32 \<Rightarrow> u32 \<Rightarrow> kgni_sm_info \<Rightarrow> bool" where
  "match_post by_id post_id pe inst m =
     (if by_id then sm_post_id m \<noteq> - 1 \<and> post_id = sm_post_id m
      else remote_pe (sm_pkt m) = pe \<and> remote_inst_id (sm_pkt m) = inst)"

definition mark_terminate :: "kgni_sm_info \<Rightarrow> kgni_sm_info" where
  "mark_terminate m =
     (set_state KGNI_SM_STATE_TERMINATE_INIT m)\<lparr>sm_flags := {KGNI_SM_FLAG_STATE_CHANGED}\<rparr>"

fun terminate_loop :: "addr \<Rightarrow> addr option \<Rightarrow> bool \<Rightarrow> bool \<Rightarrow> gni_ep_postdata_term_args \<Rightarrow> addr list \<Rightarrow> kgni \<Rightarrow>
    (int \<times> kgni) run" where
  "terminate_loop d chp bound by_id attr [] s = Some (- ESRCH, s)"
| "terminate_loop d chp bound by_id attr (a # as) s = do {
     m \<leftarrow> sms s a;
     if match_post by_id (pc_post_id attr) (pc_remote_pe attr) (pc_remote_id attr) m then
       if \<not> bound \<and> remote_pe (sm_pkt m) = pc_remote_pe attr then do {
         ch \<leftarrow> chp;
         c \<leftarrow> chnls s ch;
         Some (0, free_session d a
           (upd_chnl ch (\<lambda>c. c\<lparr>datagram_cnt_kern := map_option (\<lambda>x. x + 1) (datagram_cnt_kern c)\<rparr>) s))
       }
       else
         (let s = upd_sm a mark_terminate s;
              s = (if on_smtask a s then s else smtask_add a s)
          in Some (0, queue_sm_work s))
     else terminate_loop d chp bound by_id attr as s
   }"

text \<open>
  The translation of a virtual PE, common to the datagram calls: an error code or the address to
  use and the virtual PE (\<open>-1\<close> if none). The result of the NTT look-up is stored in an unsigned
  field before it is compared with 0.
\<close>

definition ntt_translate :: "kgni_env \<Rightarrow> gni_nic \<Rightarrow> bool \<Rightarrow> u32 \<Rightarrow> int + u32 \<times> u32" where
  "ntt_translate env nic cond pe =
     (if nic_ntt_grp_size nic \<noteq> 0 \<and> cond then
        if pe \<ge> nic_ntt_grp_size nic then Inl (- ENXIO)
        else (let virt = pe;
                  phys = ghal_ntt_to_pe env (nic_ntt_base nic + virt)
              in if phys < 0 then Inl (sint virt) else Inr (phys, virt))
      else Inr (pe, - 1))"

definition kgni_sm_terminate :: "kgni_env \<Rightarrow> addr \<Rightarrow> gni_ep_postdata_term_args \<Rightarrow> kgni \<Rightarrow> (int \<times> kgni) run" where
  "kgni_sm_terminate env n attr s = do {
     nic \<leftarrow> nics s n;
     let bound = GNI_EP_BOUND (pc_remote_pe attr) (pc_remote_id attr);
     if nic_cdm_id nic = GNI_CDM_INVALID_ID then Some (- EINVAL, s)
     else do {
       dp \<leftarrow> cdm_of_id (nic_cdm_id nic) s;
       (case dp of
          None \<Rightarrow> Some (- EINVAL, s)
        | Some d \<Rightarrow> do {
            cdm \<leftarrow> cdms s d;
            if \<not> bound \<and> pc_use_post_id attr = 0 then Some (- EINVAL, s)
            else (case ntt_translate env nic (pc_remote_pe attr \<noteq> - 1) (pc_remote_pe attr) of
                Inl e \<Rightarrow> Some (e, s)
              | Inr (pe, _) \<Rightarrow>
                  terminate_loop d (nic_sm_chnl_hndl nic) bound (\<not> bound)
                    (attr\<lparr>pc_remote_pe := pe\<rparr>) (cdm_sessions cdm) s)
          })
     }
   }"

section \<open>Retrieving a datagram\<close>

text \<open>The local variables of \<open>kgni_sm_get_state\<close> that the loop changes, with the driver state.\<close>

record gs_vars =
  gs_retval :: int
  gs_attr :: gni_ep_postdata_test_args
  gs_out :: "u8 list"
  gs_free :: bool
  gs_k :: kgni

datatype gs_ctl = GsReturn int | GsBreak | GsContinue

definition post_state_of :: "sm_state \<Rightarrow> gni_post_state" where
  "post_state_of st = (case st of
      KGNI_SM_STATE_COMPLETED \<Rightarrow> GNI_POST_COMPLETED
    | KGNI_SM_STATE_TERMINATED \<Rightarrow> GNI_POST_TERMINATED
    | KGNI_SM_STATE_TIMEOUT \<Rightarrow> GNI_POST_TIMEOUT
    | KGNI_SM_STATE_REMINFO_READY \<Rightarrow> GNI_POST_REMOTE_DATA
    | _ \<Rightarrow> GNI_POST_PENDING)"

text \<open>The copy of the remote data, the counter and the decision to free the entry. For a user
  application (\<open>usr\<close>) the data goes through a buffer of the maximal datagram size on the stack.\<close>

definition gs_take :: "bool \<Rightarrow> addr option \<Rightarrow> addr \<Rightarrow> kgni_sm_info \<Rightarrow> gs_vars \<Rightarrow> gs_vars run" where
  "gs_take usr chp a m v = do {
     let attr = (gs_attr v)\<lparr>pt_remote_pe := remote_pe (sm_pkt m),
                            pt_remote_id := remote_inst_id (sm_pkt m),
                            pt_post_id := sm_post_id m\<rparr>;
     let v = v\<lparr>gs_attr := attr\<rparr>;
     let len = unat (sm_rem_udata_size m);
     let copies = (pt_out_buff attr \<and> \<not> pt_buff_size attr < sm_rem_udata_size m);
     in_bounds (copies \<longrightarrow> len \<le> length (sm_rem_udata m) \<and> (usr \<longrightarrow> len \<le> GNI_DATAGRAM_MAXSIZE));
     let v = (if copies then v\<lparr>gs_out := take len (sm_rem_udata m)\<rparr>
              else if pt_out_buff attr then v\<lparr>gs_retval := - E2BIG\<rparr> else v);
     (if sm_state_of m = KGNI_SM_STATE_REMINFO_READY then Some v
         else if \<not> on_smtask a (gs_k v) then do {
           ch \<leftarrow> chp;
           c \<leftarrow> chnls (gs_k v) ch;
           Some (v\<lparr>gs_free := True,
                   gs_k := upd_chnl ch (\<lambda>c. c\<lparr>datagram_cnt_kern :=
                               map_option (\<lambda>x. x - 1) (datagram_cnt_kern c)\<rparr>) (gs_k v)\<rparr>)
         }
         else Some (v\<lparr>gs_attr := attr\<lparr>pt_state := GNI_POST_PENDING\<rparr>\<rparr>))
   }"

text \<open>The translation of the physical PE of the session back to a virtual one.\<close>

definition gs_ntt :: "kgni_env \<Rightarrow> gni_nic \<Rightarrow> addr \<Rightarrow> kgni_sm_info \<Rightarrow> gs_vars \<Rightarrow> gs_ctl \<times> gs_vars" where
  "gs_ntt env nic a m v =
     (if nic_ntt_grp_size nic \<noteq> 0 then
        let virt = (if sm_virt_remote_pe m = - 1
                    then kgni_ntt_physical_to_logical env nic (remote_pe (sm_pkt m))
                    else sm_virt_remote_pe m);
            v = v\<lparr>gs_k := upd_sm a (\<lambda>m. m\<lparr>sm_virt_remote_pe := virt\<rparr>) (gs_k v)\<rparr>
        in if virt = - 1 then (GsReturn (- ENXIO), v)
           else (GsContinue, v\<lparr>gs_attr := (gs_attr v)\<lparr>pt_remote_pe := virt\<rparr>\<rparr>)
      else (GsContinue, v))"

definition gs_step :: "kgni_env \<Rightarrow> gni_nic \<Rightarrow> addr \<Rightarrow> addr \<Rightarrow> kgni_sm_info \<Rightarrow> gs_vars \<Rightarrow> (gs_ctl \<times> gs_vars) run" where
  "gs_step env nic d a m v = do {
     let v = v\<lparr>gs_attr := (gs_attr v)\<lparr>pt_state := post_state_of (sm_state_of m)\<rparr>, gs_retval := 0\<rparr>;
     (ctl, v) \<leftarrow>
       (if sm_final (sm_state_of m) \<or> sm_state_of m = KGNI_SM_STATE_REMINFO_READY then do {
          v \<leftarrow> gs_take (nic_cdm_type nic \<noteq> GNI_CDM_TYPE_KERNEL) (nic_sm_chnl_hndl nic) a m v;
          Some (gs_ntt env nic a m v)
        }
        else Some (GsContinue, v));
     (case ctl of
        GsReturn e \<Rightarrow> Some (GsReturn e, v)
      | _ \<Rightarrow>
          if pt_remote_pe (gs_attr v) \<noteq> - 1
          then Some (GsBreak, if gs_free v then v\<lparr>gs_k := free_session d a (gs_k v)\<rparr> else v)
          else Some (GsContinue, v))
   }"

fun gs_loop :: "kgni_env \<Rightarrow> gni_nic \<Rightarrow> addr \<Rightarrow> bool \<Rightarrow> addr list \<Rightarrow> gs_vars \<Rightarrow> (int option \<times> gs_vars) run" where
  "gs_loop env nic d by_id [] v = Some (None, v)"
| "gs_loop env nic d by_id (a # as) v = do {
     m \<leftarrow> sms (gs_k v) a;
     if match_post by_id (pt_post_id (gs_attr v)) (pt_remote_pe (gs_attr v)) (pt_remote_id (gs_attr v)) m
     then do {
       (ctl, v) \<leftarrow> gs_step env nic d a m v;
       (case ctl of
          GsReturn e \<Rightarrow> Some (Some e, v)
        | GsBreak \<Rightarrow> Some (None, v)
        | GsContinue \<Rightarrow> gs_loop env nic d by_id as v)
     }
     else gs_loop env nic d by_id as v
   }"

text \<open>\<open>kgni_sm_get_state\<close> returns the code, the arguments, the bytes written to the output buffer
  and the state. Reading the probe mode ends in \<open>kgni_sm_probe_state\<close>.\<close>

definition kgni_sm_get_state :: "kgni_env \<Rightarrow> addr \<Rightarrow> gni_ep_postdata_test_args \<Rightarrow> kgni \<Rightarrow>
    (int \<times> gni_ep_postdata_test_args \<times> u8 list \<times> kgni) run" where
  "kgni_sm_get_state env n attr s = do {
     nic \<leftarrow> nics s n;
     let bound = GNI_EP_BOUND (pt_remote_pe attr) (pt_remote_id attr);
     if nic_cdm_id nic = GNI_CDM_INVALID_ID then Some (- EINVAL, attr, [], s)
     else do {
       dp \<leftarrow> cdm_of_id (nic_cdm_id nic) s;
       (case dp of
          None \<Rightarrow> Some (- EINVAL, attr, [], s)
        | Some d \<Rightarrow>
            if pt_modes attr AND GNI_EP_PDT_MODE_PROBE \<noteq> 0 then do {
              (r, attr) \<leftarrow> kgni_sm_probe_state env n attr s;
              Some (r, attr, [], s)
            }
            else (case ntt_translate env nic bound (pt_remote_pe attr) of
                Inl e \<Rightarrow> Some (e, attr, [], s)
              | Inr (pe, virt) \<Rightarrow> do {
                  let attr = attr\<lparr>pt_remote_pe := pe\<rparr>;
                  let by_id = (pt_modes attr AND GNI_EP_PDT_MODE_USE_POST_ID \<noteq> 0);
                  if \<not> bound \<and> \<not> by_id then Some (- EINVAL, attr, [], s)
                  else do {
                    cdm \<leftarrow> cdms s d;
                    (early, v) \<leftarrow> gs_loop env nic d by_id (cdm_sessions cdm)
                       \<lparr>gs_retval = - ESRCH, gs_attr = attr, gs_out = [], gs_free = False, gs_k = s\<rparr>;
                    (case early of
                       Some e \<Rightarrow> Some (e, gs_attr v, if nic_cdm_type nic = GNI_CDM_TYPE_KERNEL then gs_out v else [], gs_k v)
                     | None \<Rightarrow>
                         (let attr = (if virt \<noteq> - 1 then (gs_attr v)\<lparr>pt_remote_pe := virt\<rparr> else gs_attr v)
                          in if gs_out v \<noteq> [] \<and> nic_cdm_type nic \<noteq> GNI_CDM_TYPE_KERNEL
                             then Some (if copy_to_user_ok env then (0, attr, gs_out v, gs_k v)
                                        else (- ENOMEM, attr, [], gs_k v))
                             else Some (gs_retval v, attr, gs_out v, gs_k v)))
                  }
                }))
     }
   }"

section \<open>Waiting\<close>

definition kgni_sm_wait_condition :: "kgni_env \<Rightarrow> addr \<Rightarrow> gni_ep_postdata_test_args \<Rightarrow> kgni \<Rightarrow>
    (bool \<times> int \<times> gni_ep_postdata_test_args \<times> u8 list \<times> kgni) run" where
  "kgni_sm_wait_condition env n attr s = do {
     (err, attr, out, s) \<leftarrow> kgni_sm_get_state env n attr s;
     Some (err \<noteq> 0 \<or> pt_state attr = GNI_POST_COMPLETED \<or> pt_state attr = GNI_POST_TERMINATED \<or>
           pt_state attr = GNI_POST_TIMEOUT, err, attr, out, s)
   }"

definition kgni_sm_probe_wait_condition :: "kgni_env \<Rightarrow> addr \<Rightarrow> gni_ep_postdata_test_args \<Rightarrow> kgni \<Rightarrow>
    (bool \<times> int \<times> gni_ep_postdata_test_args \<times> u8 list \<times> kgni) run" where
  "kgni_sm_probe_wait_condition env n attr s = do {
     (err, attr) \<leftarrow> kgni_sm_probe_state env n attr s;
     Some (err \<noteq> - ESRCH, err, attr, [], s)
   }"

datatype wait_end = Timed_out | Interrupted

text \<open>
  \<open>wait_event_interruptible_timeout\<close>: the condition is evaluated, and again after each wake-up,
  in the state the other activities of the driver have left (one element of \<open>steps\<close> per
  wake-up), until it holds or the wait ends by the time limit or a signal.
\<close>

fun wait_event :: "(gni_ep_postdata_test_args \<Rightarrow> kgni \<Rightarrow> (bool \<times> int \<times> gni_ep_postdata_test_args \<times> u8 list \<times> kgni) run) \<Rightarrow>
    (kgni \<Rightarrow> kgni) list \<Rightarrow> wait_end \<Rightarrow> gni_ep_postdata_test_args \<Rightarrow> kgni \<Rightarrow>
    (int \<times> gni_ep_postdata_test_args \<times> u8 list \<times> kgni) run" where
  "wait_event cond [] fin attr s = do {
     (b, err, attr, out, s) \<leftarrow> cond attr s;
     Some (if b then err else (case fin of Timed_out \<Rightarrow> - EAGAIN | Interrupted \<Rightarrow> - EINTR), attr, out, s)
   }"
| "wait_event cond (f # fs) fin attr s = do {
     (b, err, attr, out, s) \<leftarrow> cond attr s;
     if b then Some (err, attr, out, s) else wait_event cond fs fin attr (f s)
   }"

definition kgni_sm_wait_state :: "kgni_env \<Rightarrow> (kgni \<Rightarrow> kgni) list \<Rightarrow> wait_end \<Rightarrow> addr \<Rightarrow>
    gni_ep_postdata_test_args \<Rightarrow> kgni \<Rightarrow> (int \<times> gni_ep_postdata_test_args \<times> u8 list \<times> kgni) run" where
  "kgni_sm_wait_state env steps fin n attr s =
     (if pt_modes attr AND GNI_EP_PDT_MODE_PROBE \<noteq> 0
      then wait_event (kgni_sm_probe_wait_condition env n) steps fin attr s
      else wait_event (kgni_sm_wait_condition env n) steps fin attr s)"

section \<open>Posting a datagram\<close>

definition local_fits :: "u8 list option \<Rightarrow> u16 \<Rightarrow> kgni_sm_info \<Rightarrow> bool" where
  "local_fits buf len m \<longleftrightarrow> buf \<noteq> None \<longrightarrow> unat len \<le> length (local_udata (sm_pkt m))"

definition set_local_udata :: "u8 list option \<Rightarrow> u16 \<Rightarrow> kgni_sm_info \<Rightarrow> kgni_sm_info" where
  "set_local_udata buf len = upd_pkt (\<lambda>p. case buf of
       Some bs \<Rightarrow> p\<lparr>local_udata_size := len, local_udata := memcpy (local_udata p) bs (unat len)\<rparr>
     | None \<Rightarrow> p\<lparr>local_udata_size := 0\<rparr>)"

text \<open>The local user posts for a session the remote side has already opened.\<close>

definition complete_reminfo :: "u8 list option \<Rightarrow> u32 \<Rightarrow> gni_ep_postdata_args \<Rightarrow> kgni_sm_info \<Rightarrow> kgni_sm_info" where
  "complete_reminfo buf virt attr m =
     (let m = (set_state KGNI_SM_STATE_COMPLETED (set_local_udata buf (pd_in_data_len attr) m))
                \<lparr>sm_flags := {KGNI_SM_FLAG_STATE_CHANGED}, sm_virt_remote_pe := virt\<rparr>
      in if pd_use_post_id attr \<noteq> 0 then m\<lparr>sm_post_id := pd_post_id attr\<rparr> else m)"

definition new_session :: "gni_cdm \<Rightarrow> gni_nic \<Rightarrow> addr \<Rightarrow> u64 \<Rightarrow> u8 list option \<Rightarrow> u32 \<Rightarrow>
    gni_ep_postdata_args \<Rightarrow> kgni_sm_info \<Rightarrow> kgni_sm_info" where
  "new_session cdm nic n gen buf virt attr raw =
     set_local_udata buf (pd_in_data_len attr) (raw\<lparr>
       sm_pkt := (sm_pkt raw)\<lparr>
         pkt_ptag := cdm_ptag cdm, pkt_cookie := cdm_cookie cdm,
         pkt_state := KGNI_SM_STATE_LOCINFO_READY,
         local_pe := nic_pe nic, local_inst_id := nic_inst_id nic,
         remote_pe := pd_remote_pe attr, remote_inst_id := pd_remote_id attr,
         local_gen := gen, remote_gen := 0, seq_num := 1\<rparr>,
       sm_flags := (if pd_remote_pe attr \<noteq> - 1 then {KGNI_SM_FLAG_STATE_CHANGED} else {}),
       sm_post_id := (if pd_use_post_id attr \<noteq> 0 then pd_post_id attr else - 1),
       sm_pkts_out := 0, sm_flrcnt := 0, sm_nrx_cnt := 0, sm_rx_delay := 0,
       sm_virt_remote_pe := virt, sm_snd_status := GNI_RC_NOT_DONE, sm_nic_hndl := n,
       sm_snd_seq_num := 1, sm_rcvd_seq_num := 0, sm_rem_udata_size := 0\<rparr>)"

text \<open>The search for a session the remote side has opened: \<open>Inl\<close> the code to return with the state
  when the search decides the call, \<open>Inr ()\<close> when a new session is needed.\<close>

fun add_search :: "u8 list option \<Rightarrow> u32 \<Rightarrow> bool \<Rightarrow> gni_ep_postdata_args \<Rightarrow> addr list \<Rightarrow> kgni \<Rightarrow>
    ((int \<times> kgni) + unit) run" where
  "add_search buf virt bound attr [] s = Some (Inr ())"
| "add_search buf virt bound attr (a # as) s = do {
     m \<leftarrow> sms s a;
     let same = (pd_remote_pe attr = remote_pe (sm_pkt m) \<and> pd_remote_id attr = remote_inst_id (sm_pkt m));
     if sm_state_of m = KGNI_SM_STATE_REMINFO_READY \<and> (\<not> bound \<or> same) then do {
       in_bounds (local_fits buf (pd_in_data_len attr) m);
       GASSERT (\<not> on_smtask a s);
       Some (Inl (0, queue_sm_work (smtask_add a (upd_sm a (complete_reminfo buf virt attr) s))))
     }
     else if bound \<and> same then Some (Inl (- EEXIST, s))
     else add_search buf virt bound attr as s
   }"

text \<open>The part under the lock: an existing session is taken or a new one is created.\<close>

definition add_locked :: "(addr \<times> kgni_sm_info) option \<Rightarrow> addr \<Rightarrow> gni_nic \<Rightarrow> addr \<Rightarrow> u8 list option \<Rightarrow> u32 \<Rightarrow> bool \<Rightarrow>
    gni_ep_postdata_args \<Rightarrow> kgni \<Rightarrow> (int \<times> kgni) run" where
  "add_locked mem n nic d buf virt bound attr s = do {
     cdm \<leftarrow> cdms s d;
     found \<leftarrow> add_search buf virt bound attr (cdm_sessions cdm) s;
     (case found of
        Inl res \<Rightarrow> Some res
      | Inr _ \<Rightarrow>
          (case mem of
             None \<Rightarrow> Some (- ENOMEM, s)
           | Some (a, raw) \<Rightarrow> do {
               in_bounds (local_fits buf (pd_in_data_len attr) raw);
               let m = new_session cdm nic n (sm_generation s) buf virt attr raw;
               let s = add_session d a m (s\<lparr>sm_generation := sm_generation s + 1\<rparr>);
               let s = (if pd_remote_pe attr \<noteq> - 1 then smtask_add a s else s);
               Some (0, queue_sm_work s)
             }))
   }"

definition kgni_sm_add_session :: "kgni_env \<Rightarrow> (addr \<times> kgni_sm_info) option \<Rightarrow> addr \<Rightarrow>
    gni_ep_postdata_args \<Rightarrow> kgni \<Rightarrow> (int \<times> kgni) run" where
  "kgni_sm_add_session env mem n attr s = do {
     nic \<leftarrow> nics s n;
     let bound = GNI_EP_BOUND (pd_remote_pe attr) (pd_remote_id attr);
     if nic_cdm_id nic = GNI_CDM_INVALID_ID then Some (- EINVAL, s)
     else do {
       dp \<leftarrow> cdm_of_id (nic_cdm_id nic) s;
       (case dp of
          None \<Rightarrow> Some (- EINVAL, s)
        | Some d \<Rightarrow>
            if unat (pd_in_data_len attr) > GNI_DATAGRAM_MAXSIZE then Some (- E2BIG, s)
            else if \<not> bound \<and> pd_use_post_id attr = 0 then Some (- EINVAL, s)
            else (case ntt_translate env nic (pd_remote_pe attr \<noteq> - 1) (pd_remote_pe attr) of
                Inl e \<Rightarrow> Some (e, s)
              | Inr (pe, virt) \<Rightarrow> do {
                  let attr = attr\<lparr>pd_remote_pe := pe\<rparr>;
                  let buf = map_option (\<lambda>f. map f [0..<unat (pd_in_data_len attr)]) (pd_in_data attr);
                  if buf \<noteq> None \<and> nic_cdm_type nic \<noteq> GNI_CDM_TYPE_KERNEL \<and> \<not> copy_from_user_ok env
                  then Some (- ENOMEM, s)
                  else add_locked mem n nic d buf virt bound attr s
                }))
     }
   }"

section \<open>Cleaning up a NIC instance\<close>

fun cleanup_loop :: "addr \<Rightarrow> addr \<Rightarrow> addr list \<Rightarrow> kgni \<Rightarrow> kgni run" where
  "cleanup_loop n d [] s = Some s"
| "cleanup_loop n d (a # as) s = do {
     m \<leftarrow> sms s a;
     if sm_nic_hndl m = n then
       (let s = (if on_smtask a s then wake_up_sm n (smtask_del a s) else s)
        in cleanup_loop n d as (free_session d a s))
     else cleanup_loop n d as s
   }"

definition kgni_sm_cleanup :: "kgni_env \<Rightarrow> addr \<Rightarrow> addr option \<Rightarrow> kgni \<Rightarrow> kgni run" where
  "kgni_sm_cleanup env n dp s = do {
     nic \<leftarrow> nics s n;
     if nic_cdm_id nic = GNI_CDM_INVALID_ID then Some s
     else if unat (nic_cdm_id nic) \<ge> KGNI_MAX_CDM_NUMBER env then Some s
     else (case dp of
         None \<Rightarrow> Some s
       | Some d \<Rightarrow> do {
           cdm \<leftarrow> cdms s d;
           s \<leftarrow> cleanup_loop n d (cdm_sessions cdm) s;
           Some (upd_nic n (\<lambda>k. k\<lparr>nic_sm_pkts := None\<rparr>) s)
         })
   }"

end
