(* ===== verification/Endpoint.thy ===== *)
theory Endpoint
  imports Session
begin

text \<open>
  Logical endpoints and the kernel-level datagram calls of \<open>kgni_ops.c\<close>, with the request lists of the
  completion queues that endpoints post to. An endpoint call checks its handle, translates to the
  arguments of the session manager and keeps the flag of the pending datagram.
\<close>

section \<open>Data\<close>

datatype gni_smsg_type = GNI_SMSG_TYPE_INVALID | GNI_SMSG_TYPE_MBOX | GNI_SMSG_TYPE_MBOX_AUTO_RETRANSMIT

datatype gnii_req_type =
    GNII_REQ_TYPE_INACTIVE
  | GNII_REQ_TYPE_POST
  | GNII_REQ_TYPE_SMSG
  | GNII_REQ_TYPE_BACK_CREDIT
  | GNII_REQ_TYPE_IGNORE
  | GNII_REQ_TYPE_CANCEL
  | GNII_REQ_TYPE_MSGQ
  | GNII_REQ_TYPE_MSGQ_BACK_CREDIT

text \<open>Of the union the member of posted transfers is kept; the fields of the DLA have their value at
  \<open>GNII_REQ_CLEAR_DLA_STATE\<close> throughout.\<close>

record gnii_req =
  rq_post_desc :: "addr option"
  rq_user_post_id :: u64
  rq_local_event :: u32
  rq_cqes_pending :: u8
  rq_id :: u32
  rq_type :: gnii_req_type
  rq_ep_hndl :: "addr option"

text \<open>The free list holds pointers into the vector of requests, as indices.\<close>

record gnii_req_list =
  rl_nreqs_max :: u32
  rl_freehead :: u32
  rl_base :: "gnii_req list"
  rl_freelist :: "nat list"

record gni_ep =
  ep_type_id :: u32
  ep_nic_hndl :: addr
  ep_remote_pe :: u32
  ep_remote_id :: u32
  ep_remote_event :: u32
  ep_local_event :: u32
  ep_src_cq_hndl :: "addr option"
  ep_outstanding_tx_reqs :: u16
  ep_datagram_out_buf :: bool
  ep_datagram_buf_size :: u16
  ep_pending_datagram :: u8
  ep_smsg :: "addr option"
  ep_smsg_type :: gni_smsg_type

record gni_cq =
  cq_type_id :: u32
  cq_nic_hndl :: addr
  cq_req_list :: "gnii_req_list option"
  cq_entry_count :: u32
  cq_ep_ref_count :: u32
  cq_mdh_attached :: u8
  cq_reqfull_list :: "addr list"
  cq_hw_cq_hndl :: u32

text \<open>The objects the calls work on: the driver state with the sessions, the endpoints, the completion
  queues with the list each NIC keeps of its own, and the blocks of short message resources.\<close>

record api_state =
  api_k :: kgni
  eps :: "addr \<rightharpoonup> gni_ep"
  cqs :: "addr \<rightharpoonup> gni_cq"
  cq_list :: "addr \<Rightarrow> addr list"
  smsgs :: "addr set"

abbreviation GNII_REQ_ID_OFFSET :: u32 where "GNII_REQ_ID_OFFSET \<equiv> 1"
definition GNI_CDM_MODE_DUAL_EVENTS :: u32 where "GNI_CDM_MODE_DUAL_EVENTS = 0x00001000"
definition GNI_CQMODE_LOCAL_EVENT :: u16 where "GNI_CQMODE_LOCAL_EVENT = 0x0001"
definition GNI_CQMODE_GLOBAL_EVENT :: u16 where "GNI_CQMODE_GLOBAL_EVENT = 0x0002"

text \<open>From headers outside the repository: the return code for an error number, and what removing an
  endpoint from the list of the endpoints blocked on a queue makes of that list.\<close>

record ep_env =
  GNI_RETURN_CODE_FROM_KGNI_ERROR :: "int \<Rightarrow> gni_return"
  smsg_remove_blocked :: "addr \<Rightarrow> addr list \<Rightarrow> addr list"

definition upd_ep :: "addr \<Rightarrow> (gni_ep \<Rightarrow> gni_ep) \<Rightarrow> api_state \<Rightarrow> api_state" where
  "upd_ep e f s = s\<lparr>eps := (eps s)(e := map_option f (eps s e))\<rparr>"

definition upd_cq :: "addr \<Rightarrow> (gni_cq \<Rightarrow> gni_cq) \<Rightarrow> api_state \<Rightarrow> api_state" where
  "upd_cq c f s = s\<lparr>cqs := (cqs s)(c := map_option f (cqs s c))\<rparr>"

definition kfree_smsg :: "addr option \<Rightarrow> api_state \<Rightarrow> api_state" where
  "kfree_smsg p s = (case p of None \<Rightarrow> s | Some a \<Rightarrow> s\<lparr>smsgs := smsgs s - {a}\<rparr>)"

text \<open>\<open>GNII_SMSG_REMOVE_BLOCKED_EP\<close> on the source queue of the endpoint.\<close>

definition GNII_SMSG_REMOVE_BLOCKED_EP :: "ep_env \<Rightarrow> addr \<Rightarrow> gni_ep \<Rightarrow> api_state \<Rightarrow> api_state" where
  "GNII_SMSG_REMOVE_BLOCKED_EP xenv e ep s = (case ep_src_cq_hndl ep of
      None \<Rightarrow> s
    | Some c \<Rightarrow> upd_cq c (\<lambda>q. q\<lparr>cq_reqfull_list := smsg_remove_blocked xenv e (cq_reqfull_list q)\<rparr>) s)"

text \<open>The check of a handle: \<open>None\<close> when it is NULL or of another type. A pointer to a freed object faults.\<close>

definition check_ep :: "addr option \<Rightarrow> api_state \<Rightarrow> (addr \<times> gni_ep) option run" where
  "check_ep h s = (case h of
      None \<Rightarrow> Some None
    | Some e \<Rightarrow> do {
        ep \<leftarrow> eps s e;
        Some (if ep_type_id ep \<noteq> GNI_TYPE_EP_HANDLE then None else Some (e, ep))
      })"

definition check_nic :: "addr option \<Rightarrow> api_state \<Rightarrow> addr option run" where
  "check_nic h s = (case h of
      None \<Rightarrow> Some None
    | Some n \<Rightarrow> do {
        nic \<leftarrow> nics (api_k s) n;
        Some (if nic_type_id nic \<noteq> GNI_TYPE_NIC_HANDLE then None else Some n)
      })"

section \<open>Request lists\<close>

text \<open>The vector after the loop that sets up the free list; \<open>raw\<close> is the memory \<open>vmalloc\<close> returned.\<close>

definition reqlist_base :: "(nat \<Rightarrow> gnii_req) \<Rightarrow> nat \<Rightarrow> gnii_req list" where
  "reqlist_base raw n = map (\<lambda>i. (raw i)\<lparr>rq_id := of_nat i + GNII_REQ_ID_OFFSET, rq_type := GNII_REQ_TYPE_INACTIVE\<rparr>) [0..<n]"

text \<open>The three allocations: the structure, the array of pointers and the vector of requests.\<close>

record reqlist_mem =
  mem_list :: bool
  mem_freelist :: bool
  mem_base :: "(nat \<Rightarrow> gnii_req) option"

definition kgni_reqlist_alloc :: "reqlist_mem \<Rightarrow> addr option \<Rightarrow> api_state \<Rightarrow> (int \<times> api_state) run" where
  "kgni_reqlist_alloc mem h s = (case h of
      None \<Rightarrow> Some (- EINVAL, s)
    | Some c \<Rightarrow> do {
        cq \<leftarrow> cqs s c;
        if cq_type_id cq \<noteq> GNI_TYPE_CQ_HANDLE then Some (- EINVAL, s)
        else if cq_mdh_attached cq \<noteq> 0 then Some (- EINVAL, s)
        else if \<not> mem_list mem then Some (- ENOMEM, s)
        else do {
          nic \<leftarrow> nics (api_k s) (cq_nic_hndl cq);
          d \<leftarrow> nic_cdm_hndl nic;
          cdm \<leftarrow> cdms (api_k s) d;
          let nreqs_max = cq_entry_count cq - 2;
          let nreqs_max = (if cdm_modes cdm AND GNI_CDM_MODE_DUAL_EVENTS \<noteq> 0 then nreqs_max div 2 else nreqs_max);
          if \<not> mem_freelist mem then Some (- ENOMEM, s)
          else (case mem_base mem of
              None \<Rightarrow> Some (- ENOMEM, s)
            | Some raw \<Rightarrow> Some (0, upd_cq c (\<lambda>q. q\<lparr>cq_req_list := Some \<lparr>
                  rl_nreqs_max = nreqs_max, rl_freehead = 0, rl_base = reqlist_base raw (unat nreqs_max),
                  rl_freelist = [0..<unat nreqs_max]\<rparr>\<rparr>) s))
        }
      })"

definition kgni_reqlist_free :: "addr option \<Rightarrow> api_state \<Rightarrow> (int \<times> api_state) run" where
  "kgni_reqlist_free h s = (case h of
      None \<Rightarrow> Some (0, s)
    | Some c \<Rightarrow> do {
        cq \<leftarrow> cqs s c;
        if cq_req_list cq = None then Some (0, s)
        else if cq_type_id cq \<noteq> GNI_TYPE_CQ_HANDLE then Some (- EINVAL, s)
        else Some (0, upd_cq c (\<lambda>q. q\<lparr>cq_req_list := None\<rparr>) s)
      })"

text \<open>One event of a request that is no longer expected.\<close>

definition drop_event :: "u16 \<Rightarrow> gnii_req \<Rightarrow> u16 \<times> int \<Rightarrow> u16 \<times> int" where
  "drop_event ev req = (\<lambda>(outst, reqs). if ucast (rq_cqes_pending req) AND ev \<noteq> 0 then (outst - 1, reqs + 1) else (outst, reqs))"

text \<open>The loop over the requests of one list, \<open>n\<close> of them from the front of the vector.\<close>

fun cancel_reqs :: "addr \<Rightarrow> nat \<Rightarrow> gnii_req list \<Rightarrow> u16 \<times> int \<Rightarrow> (gnii_req list \<times> u16 \<times> int) run" where
  "cancel_reqs e 0 rs cnt = Some (rs, cnt)"
| "cancel_reqs e (Suc n) [] cnt = None"
| "cancel_reqs e (Suc n) (req # rs) cnt =
     (if rq_type req \<noteq> GNII_REQ_TYPE_INACTIVE \<and> rq_ep_hndl req = Some e then do {
        (rs, cnt) \<leftarrow> cancel_reqs e n rs (drop_event GNI_CQMODE_GLOBAL_EVENT req (drop_event GNI_CQMODE_LOCAL_EVENT req cnt));
        Some (req\<lparr>rq_type := GNII_REQ_TYPE_CANCEL, rq_ep_hndl := None\<rparr> # rs, cnt)
      }
      else do {
        (rs, cnt) \<leftarrow> cancel_reqs e n rs cnt;
        Some (req # rs, cnt)
      })"

fun cancel_cqs :: "addr \<Rightarrow> addr list \<Rightarrow> u16 \<times> int \<Rightarrow> api_state \<Rightarrow> ((u16 \<times> int) \<times> api_state) run" where
  "cancel_cqs e [] cnt s = Some (cnt, s)"
| "cancel_cqs e (c # cs) cnt s = do {
     cq \<leftarrow> cqs s c;
     (case cq_req_list cq of
        None \<Rightarrow> cancel_cqs e cs cnt s
      | Some rl \<Rightarrow>
          if rl_freehead rl = 0 then cancel_cqs e cs cnt s
          else do {
            (base, cnt) \<leftarrow> cancel_reqs e (unat (rl_nreqs_max rl)) (rl_base rl) cnt;
            cancel_cqs e cs cnt (upd_cq c (\<lambda>q. q\<lparr>cq_req_list := Some (rl\<lparr>rl_base := base\<rparr>)\<rparr>) s)
          })
   }"

definition kgni_ep_req_cancel :: "addr \<Rightarrow> api_state \<Rightarrow> (int \<times> api_state) run" where
  "kgni_ep_req_cancel e s = do {
     ep \<leftarrow> eps s e;
     ((outst, reqs), s) \<leftarrow> cancel_cqs e (cq_list s (ep_nic_hndl ep)) (ep_outstanding_tx_reqs ep, 0) s;
     GASSERT (outst = 0);
     Some (reqs, upd_ep e (\<lambda>p. p\<lparr>ep_outstanding_tx_reqs := outst\<rparr>) s)
   }"

section \<open>Endpoints\<close>

text \<open>\<open>mem\<close> is what \<open>kzalloc\<close> returns; the new handle is returned when there is one.\<close>

definition gni_ep_create :: "addr option \<Rightarrow> addr option \<Rightarrow> addr option \<Rightarrow> api_state \<Rightarrow> (gni_return \<times> addr option \<times> api_state) run" where
  "gni_ep_create mem nic_hndl src_cq s = do {
     nh \<leftarrow> check_nic nic_hndl s;
     (case nh of
        None \<Rightarrow> Some (GNI_RC_INVALID_PARAM, None, s)
      | Some n \<Rightarrow> do {
          cq_ok \<leftarrow> (case src_cq of
              None \<Rightarrow> Some True
            | Some c \<Rightarrow> do { q \<leftarrow> cqs s c; Some (cq_type_id q = GNI_TYPE_CQ_HANDLE) });
          if \<not> cq_ok then Some (GNI_RC_INVALID_PARAM, None, s)
          else (case mem of
              None \<Rightarrow> Some (GNI_RC_ERROR_NOMEM, None, s)
            | Some e \<Rightarrow>
                (let ep = \<lparr>ep_type_id = GNI_TYPE_EP_HANDLE, ep_nic_hndl = n, ep_remote_pe = GNII_REMOTE_PE_ANY,
                       ep_remote_id = GNII_REMOTE_ID_ANY, ep_remote_event = GNII_REMOTE_ID_ANY, ep_local_event = 0,
                       ep_src_cq_hndl = src_cq, ep_outstanding_tx_reqs = 0, ep_datagram_out_buf = False,
                       ep_datagram_buf_size = 0, ep_pending_datagram = 0, ep_smsg = None,
                       ep_smsg_type = GNI_SMSG_TYPE_INVALID\<rparr>;
                     s = s\<lparr>eps := (eps s)(e \<mapsto> ep)\<rparr>;
                     s = (case src_cq of None \<Rightarrow> s
                            | Some c \<Rightarrow> upd_cq c (\<lambda>q. q\<lparr>cq_ep_ref_count := cq_ep_ref_count q + 1\<rparr>) s)
                 in Some (GNI_RC_SUCCESS, Some e, s)))
        })
   }"

definition gni_ep_set_eventdata :: "addr option \<Rightarrow> u32 \<Rightarrow> u32 \<Rightarrow> api_state \<Rightarrow> (gni_return \<times> api_state) run" where
  "gni_ep_set_eventdata h local_event remote_event s = do {
     chk \<leftarrow> check_ep h s;
     (case chk of
        None \<Rightarrow> Some (GNI_RC_INVALID_PARAM, s)
      | Some (e, ep) \<Rightarrow> Some (GNI_RC_SUCCESS,
          upd_ep e (\<lambda>p. p\<lparr>ep_local_event := local_event, ep_remote_event := remote_event\<rparr>) s))
   }"

definition gni_ep_bind :: "ep_env \<Rightarrow> reqlist_mem \<Rightarrow> addr option \<Rightarrow> u32 \<Rightarrow> u32 \<Rightarrow> api_state \<Rightarrow> (gni_return \<times> api_state) run" where
  "gni_ep_bind xenv mem h remote_addr remote_id s = do {
     chk \<leftarrow> check_ep h s;
     (case chk of
        None \<Rightarrow> Some (GNI_RC_INVALID_PARAM, s)
      | Some (e, ep) \<Rightarrow>
          if GNI_EP_BOUND (ep_remote_pe ep) (ep_remote_id ep) then Some (GNI_RC_INVALID_PARAM, s)
          else do {
            nic \<leftarrow> nics (api_k s) (ep_nic_hndl ep);
            let s = upd_ep e (\<lambda>p. p\<lparr>ep_remote_pe := remote_addr, ep_remote_id := remote_id,
                      ep_local_event := remote_id, ep_remote_event := nic_inst_id nic\<rparr>) s;
            (case ep_src_cq_hndl ep of
               None \<Rightarrow> Some (GNI_RC_SUCCESS, s)
             | Some c \<Rightarrow> do {
                 cq \<leftarrow> cqs s c;
                 if cq_req_list cq = None then do {
                   (err, s) \<leftarrow> kgni_reqlist_alloc mem (Some c) s;
                   if err \<noteq> 0 then Some (GNI_RETURN_CODE_FROM_KGNI_ERROR xenv err, s)
                   else Some (GNI_RC_SUCCESS, s)
                 }
                 else Some (GNI_RC_SUCCESS, s)
               })
          })
   }"

definition gni_ep_unbind :: "ep_env \<Rightarrow> addr option \<Rightarrow> api_state \<Rightarrow> (gni_return \<times> api_state) run" where
  "gni_ep_unbind xenv h s = do {
     chk \<leftarrow> check_ep h s;
     (case chk of
        None \<Rightarrow> Some (GNI_RC_INVALID_PARAM, s)
      | Some (e, ep) \<Rightarrow>
          if ep_outstanding_tx_reqs ep > 0 \<or> ep_pending_datagram ep \<noteq> 0 then Some (GNI_RC_NOT_DONE, s)
          else Some (GNI_RC_SUCCESS, GNII_SMSG_REMOVE_BLOCKED_EP xenv e ep (kfree_smsg (ep_smsg ep)
            (upd_ep e (\<lambda>p. p\<lparr>ep_remote_pe := GNII_REMOTE_PE_ANY, ep_remote_id := GNII_REMOTE_ID_ANY, ep_smsg := None\<rparr>) s))))
   }"

definition gni_ep_destroy :: "ep_env \<Rightarrow> addr option \<Rightarrow> api_state \<Rightarrow> (gni_return \<times> api_state) run" where
  "gni_ep_destroy xenv h s = do {
     chk \<leftarrow> check_ep h s;
     (case chk of
        None \<Rightarrow> Some (GNI_RC_INVALID_PARAM, s)
      | Some (e, ep) \<Rightarrow> do {
          s \<leftarrow> (if ep_outstanding_tx_reqs ep > 0 then map_option snd (kgni_ep_req_cancel e s) else Some s);
          let s = kfree_smsg (ep_smsg ep) (upd_ep e (\<lambda>p. p\<lparr>ep_type_id := GNI_TYPE_INVALID\<rparr>) s);
          s \<leftarrow> (case ep_src_cq_hndl ep of
              None \<Rightarrow> Some s
            | Some c \<Rightarrow> do {
                q \<leftarrow> cqs s c;
                Some (upd_cq c (\<lambda>q. q\<lparr>cq_ep_ref_count := cq_ep_ref_count q - 1\<rparr>) (GNII_SMSG_REMOVE_BLOCKED_EP xenv e ep s))
              });
          Some (GNI_RC_SUCCESS, s\<lparr>eps := (eps s)(e := None)\<rparr>)
        })
   }"

section \<open>Datagrams\<close>

text \<open>
  The calls build their arguments on the stack. A field that a call does not assign keeps what was
  there before: \<open>junk\<close> is that memory.
\<close>

definition post_result :: "ep_env \<Rightarrow> addr \<Rightarrow> api_state \<Rightarrow> int \<times> kgni \<Rightarrow> gni_return \<times> api_state" where
  "post_result xenv e s = (\<lambda>(retval, k).
     if retval \<noteq> 0 then (GNI_RETURN_CODE_FROM_KGNI_ERROR xenv retval, s\<lparr>api_k := k\<rparr>)
     else (GNI_RC_SUCCESS, upd_ep e (\<lambda>p. p\<lparr>ep_pending_datagram := 1\<rparr>) (s\<lparr>api_k := k\<rparr>)))"

definition gni_ep_postdata :: "kgni_env \<Rightarrow> ep_env \<Rightarrow> (addr \<times> kgni_sm_info) option \<Rightarrow> gni_ep_postdata_args \<Rightarrow>
    addr option \<Rightarrow> buffer \<Rightarrow> u16 \<Rightarrow> bool \<Rightarrow> u16 \<Rightarrow> api_state \<Rightarrow> (gni_return \<times> api_state) run" where
  "gni_ep_postdata env xenv mem junk h in_data data_len out_buf buf_size s = do {
     chk \<leftarrow> check_ep h s;
     (case chk of
        None \<Rightarrow> Some (GNI_RC_INVALID_PARAM, s)
      | Some (e, ep) \<Rightarrow>
          if \<not> GNI_EP_BOUND (ep_remote_pe ep) (ep_remote_id ep) then Some (GNI_RC_INVALID_PARAM, s)
          else if ep_pending_datagram ep \<noteq> 0 then Some (GNI_RC_INVALID_PARAM, s)
          else do {
            let args = junk\<lparr>pd_remote_pe := ep_remote_pe ep, pd_remote_id := ep_remote_id ep,
                         pd_in_data := in_data, pd_in_data_len := data_len\<rparr>;
            let s = upd_ep e (\<lambda>p. p\<lparr>ep_datagram_out_buf := out_buf, ep_datagram_buf_size := buf_size\<rparr>) s;
            res \<leftarrow> kgni_sm_add_session env mem (ep_nic_hndl ep) args (api_k s);
            Some (post_result xenv e s res)
          })
   }"

definition gni_ep_postdata_w_id :: "kgni_env \<Rightarrow> ep_env \<Rightarrow> (addr \<times> kgni_sm_info) option \<Rightarrow> gni_ep_postdata_args \<Rightarrow>
    addr option \<Rightarrow> buffer \<Rightarrow> u16 \<Rightarrow> bool \<Rightarrow> u16 \<Rightarrow> u64 \<Rightarrow> api_state \<Rightarrow> (gni_return \<times> api_state) run" where
  "gni_ep_postdata_w_id env xenv mem junk h in_data data_len out_buf buf_size datagram_id s = do {
     chk \<leftarrow> check_ep h s;
     (case chk of
        None \<Rightarrow> Some (GNI_RC_INVALID_PARAM, s)
      | Some (e, ep) \<Rightarrow>
          if ep_pending_datagram ep \<noteq> 0 then Some (GNI_RC_INVALID_PARAM, s)
          else if datagram_id = - 1 then Some (GNI_RC_INVALID_PARAM, s)
          else do {
            let args = junk\<lparr>pd_remote_pe := ep_remote_pe ep, pd_remote_id := ep_remote_id ep,
                         pd_in_data := in_data, pd_in_data_len := data_len, pd_use_post_id := 1, pd_post_id := datagram_id\<rparr>;
            let s = upd_ep e (\<lambda>p. p\<lparr>ep_datagram_out_buf := out_buf, ep_datagram_buf_size := buf_size\<rparr>) s;
            res \<leftarrow> kgni_sm_add_session env mem (ep_nic_hndl ep) args (api_k s);
            Some (post_result xenv e s res)
          })
   }"

text \<open>What a test or wait gives back: the return code, the three outputs when they are written, and the bytes
  that reached the output buffer.\<close>

record test_result =
  tr_rc :: gni_return
  tr_out :: "(gni_post_state \<times> u32 \<times> u32) option"
  tr_data :: "u8 list"

definition final_post :: "gni_post_state \<Rightarrow> bool" where
  "final_post st \<longleftrightarrow> st = GNI_POST_COMPLETED \<or> st = GNI_POST_TERMINATED \<or> st = GNI_POST_TIMEOUT"

definition clear_pending :: "addr \<Rightarrow> bool \<Rightarrow> api_state \<Rightarrow> api_state" where
  "clear_pending e b s = (if b then upd_ep e (\<lambda>p. p\<lparr>ep_pending_datagram := 0\<rparr>) s else s)"

definition test_outputs :: "ep_env \<Rightarrow> addr \<Rightarrow> api_state \<Rightarrow>
    int \<times> gni_ep_postdata_test_args \<times> u8 list \<times> kgni \<Rightarrow> test_result \<times> api_state" where
  "test_outputs xenv e s = (\<lambda>(retval, args, out, k).
     let s = s\<lparr>api_k := k\<rparr> in
     if retval \<noteq> 0 then
       (let rc = GNI_RETURN_CODE_FROM_KGNI_ERROR xenv retval
        in (\<lparr>tr_rc = rc, tr_out = None, tr_data = out\<rparr>, clear_pending e (rc = GNI_RC_NO_MATCH) s))
     else (\<lparr>tr_rc = GNI_RC_SUCCESS, tr_out = Some (pt_state args, pt_remote_pe args, pt_remote_id args), tr_data = out\<rparr>,
           clear_pending e (final_post (pt_state args)) s))"

text \<open>\<open>outs\<close> tells whether the three output pointers are all given.\<close>

abbreviation bad_param :: test_result where
  "bad_param \<equiv> \<lparr>tr_rc = GNI_RC_INVALID_PARAM, tr_out = None, tr_data = []\<rparr>"

definition gni_ep_postdata_test :: "kgni_env \<Rightarrow> ep_env \<Rightarrow> gni_ep_postdata_test_args \<Rightarrow> addr option \<Rightarrow> bool \<Rightarrow>
    api_state \<Rightarrow> (test_result \<times> api_state) run" where
  "gni_ep_postdata_test env xenv junk h outs s = do {
     chk \<leftarrow> check_ep h s;
     (case chk of
        None \<Rightarrow> Some (bad_param, s)
      | Some (e, ep) \<Rightarrow>
          if \<not> ep_datagram_out_buf ep \<and> ep_datagram_buf_size ep > 0 then Some (bad_param, s)
          else if \<not> outs then Some (bad_param, s)
          else if \<not> GNI_EP_BOUND (ep_remote_pe ep) (ep_remote_id ep) then Some (bad_param, s)
          else do {
            let args = junk\<lparr>pt_timeout := 0, pt_remote_pe := ep_remote_pe ep, pt_remote_id := ep_remote_id ep,
                         pt_out_buff := ep_datagram_out_buf ep, pt_buff_size := ep_datagram_buf_size ep\<rparr>;
            res \<leftarrow> kgni_sm_get_state env (ep_nic_hndl ep) args (api_k s);
            Some (test_outputs xenv e s res)
          })
   }"

definition gni_ep_postdata_test_by_id :: "kgni_env \<Rightarrow> ep_env \<Rightarrow> gni_ep_postdata_test_args \<Rightarrow> addr option \<Rightarrow> u64 \<Rightarrow> bool \<Rightarrow>
    api_state \<Rightarrow> (test_result \<times> api_state) run" where
  "gni_ep_postdata_test_by_id env xenv junk h datagram_id outs s = do {
     chk \<leftarrow> check_ep h s;
     (case chk of
        None \<Rightarrow> Some (bad_param, s)
      | Some (e, ep) \<Rightarrow>
          if \<not> ep_datagram_out_buf ep \<and> ep_datagram_buf_size ep > 0 then Some (bad_param, s)
          else if \<not> outs then Some (bad_param, s)
          else do {
            let args = junk\<lparr>pt_timeout := 0, pt_remote_pe := ep_remote_pe ep, pt_remote_id := ep_remote_id ep,
                         pt_out_buff := ep_datagram_out_buf ep, pt_buff_size := ep_datagram_buf_size ep,
                         pt_post_id := datagram_id, pt_modes := GNI_EP_PDT_MODE_USE_POST_ID\<rparr>;
            res \<leftarrow> kgni_sm_get_state env (ep_nic_hndl ep) args (api_k s);
            Some (test_outputs xenv e s res)
          })
   }"

definition wait_outputs :: "ep_env \<Rightarrow> addr \<Rightarrow> api_state \<Rightarrow>
    int \<times> gni_ep_postdata_test_args \<times> u8 list \<times> kgni \<Rightarrow> test_result \<times> api_state" where
  "wait_outputs xenv e s = (\<lambda>(retval, args, out, k).
     let s = s\<lparr>api_k := k\<rparr> in
     if retval = 0 then
       (\<lparr>tr_rc = GNI_RC_SUCCESS, tr_out = Some (pt_state args, pt_remote_pe args, pt_remote_id args), tr_data = out\<rparr>,
        clear_pending e True s)
     else if retval = - EAGAIN \<or> retval = - EINTR then (\<lparr>tr_rc = GNI_RC_TIMEOUT, tr_out = None, tr_data = out\<rparr>, s)
     else
       (let rc = GNI_RETURN_CODE_FROM_KGNI_ERROR xenv retval
        in (\<lparr>tr_rc = rc, tr_out = None, tr_data = out\<rparr>, clear_pending e (rc = GNI_RC_NO_MATCH) s)))"

text \<open>\<open>steps\<close> and \<open>fin\<close> are what happens to the driver during the wait and how the wait ends.\<close>

definition gni_ep_postdata_wait :: "kgni_env \<Rightarrow> ep_env \<Rightarrow> (kgni \<Rightarrow> kgni) list \<Rightarrow> wait_end \<Rightarrow> gni_ep_postdata_test_args \<Rightarrow>
    addr option \<Rightarrow> u32 \<Rightarrow> bool \<Rightarrow> api_state \<Rightarrow> (test_result \<times> api_state) run" where
  "gni_ep_postdata_wait env xenv steps fin junk h timeout outs s = do {
     chk \<leftarrow> check_ep h s;
     (case chk of
        None \<Rightarrow> Some (bad_param, s)
      | Some (e, ep) \<Rightarrow>
          if \<not> ep_datagram_out_buf ep \<and> ep_datagram_buf_size ep > 0 then Some (bad_param, s)
          else if \<not> outs then Some (bad_param, s)
          else if \<not> GNI_EP_BOUND (ep_remote_pe ep) (ep_remote_id ep) then Some (bad_param, s)
          else do {
            let args = junk\<lparr>pt_timeout := timeout, pt_remote_pe := ep_remote_pe ep, pt_remote_id := ep_remote_id ep,
                         pt_out_buff := ep_datagram_out_buf ep, pt_buff_size := ep_datagram_buf_size ep\<rparr>;
            res \<leftarrow> kgni_sm_wait_state env steps fin (ep_nic_hndl ep) args (api_k s);
            Some (wait_outputs xenv e s res)
          })
   }"

text \<open>The probes return the outputs they write.\<close>

definition gni_postdata_probe :: "kgni_env \<Rightarrow> ep_env \<Rightarrow> gni_ep_postdata_test_args \<Rightarrow> addr option \<Rightarrow> bool \<Rightarrow>
    api_state \<Rightarrow> (gni_return \<times> (u32 \<times> u32) option \<times> api_state) run" where
  "gni_postdata_probe env xenv junk h outs s = do {
     nh \<leftarrow> check_nic h s;
     (case nh of
        None \<Rightarrow> Some (GNI_RC_INVALID_PARAM, None, s)
      | Some n \<Rightarrow>
          if \<not> outs then Some (GNI_RC_INVALID_PARAM, None, s)
          else do {
            (retval, args, out, k) \<leftarrow> kgni_sm_get_state env n (junk\<lparr>pt_modes := GNI_EP_PDT_MODE_PROBE\<rparr>) (api_k s);
            Some (if retval \<noteq> 0 then (GNI_RETURN_CODE_FROM_KGNI_ERROR xenv retval, None, s\<lparr>api_k := k\<rparr>)
                  else (GNI_RC_NO_MATCH, Some (pt_remote_pe args, pt_remote_id args), s\<lparr>api_k := k\<rparr>))
          })
   }"

definition gni_postdata_probe_by_id :: "kgni_env \<Rightarrow> ep_env \<Rightarrow> gni_ep_postdata_test_args \<Rightarrow> addr option \<Rightarrow> bool \<Rightarrow>
    api_state \<Rightarrow> (gni_return \<times> u64 option \<times> api_state) run" where
  "gni_postdata_probe_by_id env xenv junk h outs s = do {
     nh \<leftarrow> check_nic h s;
     (case nh of
        None \<Rightarrow> Some (GNI_RC_INVALID_PARAM, None, s)
      | Some n \<Rightarrow>
          if \<not> outs then Some (GNI_RC_INVALID_PARAM, None, s)
          else do {
            (retval, args, out, k) \<leftarrow> kgni_sm_get_state env n
              (junk\<lparr>pt_modes := GNI_EP_PDT_MODE_USE_POST_ID OR GNI_EP_PDT_MODE_PROBE\<rparr>) (api_k s);
            Some (if retval \<noteq> 0 then (GNI_RETURN_CODE_FROM_KGNI_ERROR xenv retval, None, s\<lparr>api_k := k\<rparr>)
                  else (GNI_RC_SUCCESS, Some (pt_post_id args), s\<lparr>api_k := k\<rparr>))
          })
   }"

definition gni_postdata_probe_wait_by_id :: "kgni_env \<Rightarrow> ep_env \<Rightarrow> (kgni \<Rightarrow> kgni) list \<Rightarrow> wait_end \<Rightarrow> gni_ep_postdata_test_args \<Rightarrow>
    addr option \<Rightarrow> u32 \<Rightarrow> bool \<Rightarrow> api_state \<Rightarrow> (gni_return \<times> u64 option \<times> api_state) run" where
  "gni_postdata_probe_wait_by_id env xenv steps fin junk h timeout outs s = do {
     nh \<leftarrow> check_nic h s;
     (case nh of
        None \<Rightarrow> Some (GNI_RC_INVALID_PARAM, None, s)
      | Some n \<Rightarrow>
          if \<not> outs then Some (GNI_RC_INVALID_PARAM, None, s)
          else do {
            (retval, args, out, k) \<leftarrow> kgni_sm_wait_state env steps fin n
              (junk\<lparr>pt_modes := GNI_EP_PDT_MODE_USE_POST_ID OR GNI_EP_PDT_MODE_PROBE, pt_timeout := timeout\<rparr>) (api_k s);
            Some (if retval = 0 then (GNI_RC_SUCCESS, Some (pt_post_id args), s\<lparr>api_k := k\<rparr>)
                  else if retval = - EAGAIN \<or> retval = - EINTR then (GNI_RC_TIMEOUT, None, s\<lparr>api_k := k\<rparr>)
                  else (GNI_RETURN_CODE_FROM_KGNI_ERROR xenv retval, None, s\<lparr>api_k := k\<rparr>))
          })
   }"

definition cancel_result :: "ep_env \<Rightarrow> api_state \<Rightarrow> int \<times> kgni \<Rightarrow> gni_return \<times> api_state" where
  "cancel_result xenv s = (\<lambda>(retval, k).
     (if retval \<noteq> 0 then GNI_RETURN_CODE_FROM_KGNI_ERROR xenv retval else GNI_RC_SUCCESS, s\<lparr>api_k := k\<rparr>))"

definition gni_ep_postdata_cancel :: "kgni_env \<Rightarrow> ep_env \<Rightarrow> gni_ep_postdata_term_args \<Rightarrow> addr option \<Rightarrow>
    api_state \<Rightarrow> (gni_return \<times> api_state) run" where
  "gni_ep_postdata_cancel env xenv junk h s = do {
     chk \<leftarrow> check_ep h s;
     (case chk of
        None \<Rightarrow> Some (GNI_RC_INVALID_PARAM, s)
      | Some (e, ep) \<Rightarrow>
          if \<not> GNI_EP_BOUND (ep_remote_pe ep) (ep_remote_id ep) then Some (GNI_RC_INVALID_PARAM, s)
          else map_option (cancel_result xenv s) (kgni_sm_terminate env (ep_nic_hndl ep)
            (junk\<lparr>pc_remote_pe := ep_remote_pe ep, pc_remote_id := ep_remote_id ep, pc_use_post_id := 0\<rparr>) (api_k s)))
   }"

definition gni_ep_postdata_cancel_by_id :: "kgni_env \<Rightarrow> ep_env \<Rightarrow> gni_ep_postdata_term_args \<Rightarrow> addr option \<Rightarrow> u64 \<Rightarrow>
    api_state \<Rightarrow> (gni_return \<times> api_state) run" where
  "gni_ep_postdata_cancel_by_id env xenv junk h datagram_id s = do {
     chk \<leftarrow> check_ep h s;
     (case chk of
        None \<Rightarrow> Some (GNI_RC_INVALID_PARAM, s)
      | Some (e, ep) \<Rightarrow>
          map_option (cancel_result xenv s) (kgni_sm_terminate env (ep_nic_hndl ep)
            (junk\<lparr>pc_remote_pe := ep_remote_pe ep, pc_remote_id := ep_remote_id ep, pc_post_id := datagram_id,
               pc_use_post_id := 1\<rparr>) (api_k s)))
   }"

end
