(* ===== verification/Session_Inv.thy ===== *)
theory Session_Inv
  imports Session
begin

text \<open>
  The invariant of the session manager's heap and lists, the lemmas that the primitive updates
  keep it, and the safety of every operation: no assertion of the code fails, no freed or NULL
  pointer is followed, no array is indexed out of range.
\<close>

section \<open>The invariant\<close>

text \<open>A session without a remote PE has been posted and not been matched; a session with a
  remote PE has a remote instance too. The datagram arrays have the maximal size and the size of
  the data received stays within it.\<close>

definition sm_ok :: "kgni_sm_info \<Rightarrow> bool" where
  "sm_ok m \<longleftrightarrow>
     (remote_pe (sm_pkt m) = - 1 \<longrightarrow> sm_state_of m = KGNI_SM_STATE_LOCINFO_READY) \<and>
     (remote_pe (sm_pkt m) \<noteq> - 1 \<longrightarrow> remote_inst_id (sm_pkt m) \<noteq> - 1) \<and>
     length (local_udata (sm_pkt m)) = GNI_DATAGRAM_MAXSIZE \<and>
     length (sm_rem_udata m) = GNI_DATAGRAM_MAXSIZE \<and>
     unat (sm_rem_udata_size m) \<le> GNI_DATAGRAM_MAXSIZE"

text \<open>What is true of a session on the task list.\<close>

definition sm_active :: "kgni_sm_info \<Rightarrow> bool" where
  "sm_active m \<longleftrightarrow> sm_state_of m \<noteq> KGNI_SM_STATE_REMINFO_READY \<and> remote_pe (sm_pkt m) \<noteq> - 1"

definition inv_task :: "addr list \<Rightarrow> (addr \<rightharpoonup> kgni_sm_info) \<Rightarrow> bool" where
  "inv_task sml sm \<longleftrightarrow> distinct sml \<and> (\<forall>a \<in> set sml. \<exists>m. sm a = Some m \<and> sm_active m) \<and>
     (\<forall>a m. sm a = Some m \<longrightarrow> sm_ok m)"

text \<open>Every descriptor is on the session list of exactly one domain: nothing freed is on a list, and
  nothing is lost.\<close>

definition inv_sessions :: "(addr \<rightharpoonup> gni_cdm) \<Rightarrow> (addr \<rightharpoonup> kgni_sm_info) \<Rightarrow> bool" where
  "inv_sessions cd sm \<longleftrightarrow>
     (\<forall>d c. cd d = Some c \<longrightarrow> distinct (cdm_sessions c) \<and> set (cdm_sessions c) \<subseteq> dom sm) \<and>
     (\<forall>d c d' c' a. cd d = Some c \<longrightarrow> cd d' = Some c' \<longrightarrow> a \<in> set (cdm_sessions c) \<longrightarrow>
        a \<in> set (cdm_sessions c') \<longrightarrow> d = d') \<and>
     (\<forall>a \<in> dom sm. \<exists>d c. cd d = Some c \<and> a \<in> set (cdm_sessions c))"

text \<open>The NIC a session belongs to is attached to the domain that lists the session.\<close>

definition inv_owner :: "addr option list \<Rightarrow> (addr \<rightharpoonup> gni_cdm) \<Rightarrow> (addr \<rightharpoonup> gni_nic) \<Rightarrow> (addr \<rightharpoonup> kgni_sm_info) \<Rightarrow> bool" where
  "inv_owner arr cd ni sm \<longleftrightarrow>
     (\<forall>d c a m. cd d = Some c \<longrightarrow> a \<in> set (cdm_sessions c) \<longrightarrow> sm a = Some m \<longrightarrow>
        (\<exists>nic. ni (sm_nic_hndl m) = Some nic \<and> nic_cdm_id nic \<noteq> GNI_CDM_INVALID_ID \<and>
           arr ! unat (nic_cdm_id nic) = Some d))"

text \<open>A packet slot points to a session of the same NIC that is on the task list and has one packet
  out; no two slots of a NIC point to the same session.\<close>

definition once :: "'a option list \<Rightarrow> 'a \<Rightarrow> nat \<Rightarrow> bool" where
  "once ps a k \<longleftrightarrow> (\<forall>k' < length ps. ps ! k' = Some a \<longrightarrow> k' = k)"

lemma onceI: "(\<And>k'. k' < length ps \<Longrightarrow> ps ! k' = Some a \<Longrightarrow> k' = k) \<Longrightarrow> once ps a k"
  and onceD: "once ps a k \<Longrightarrow> k' < length ps \<Longrightarrow> ps ! k' = Some a \<Longrightarrow> k' = k"
  unfolding once_def by blast+

lemma once_set_other: "once ps b k \<Longrightarrow> b \<noteq> a \<Longrightarrow> once (ps[i := Some a]) b k"
  by (rule onceI, erule onceD) (auto simp: nth_list_update_cases split: if_splits)

lemma once_clear: "once ps b k \<Longrightarrow> once (ps[i := None]) b k"
  by (rule onceI, erule onceD) (auto simp: nth_list_update_cases split: if_splits)

lemma once_set_new: "Some a \<notin> set ps \<Longrightarrow> once (ps[i := Some a]) a i"
proof (rule onceI)
  fix k' assume "Some a \<notin> set ps" "k' < length (ps[i := Some a])" "ps[i := Some a] ! k' = Some a"
  then show "k' = i" using nth_mem[of k' ps] by (cases "k' = i") auto
qed

definition inv_slots :: "addr list \<Rightarrow> (addr \<rightharpoonup> gni_nic) \<Rightarrow> (addr \<rightharpoonup> kgni_sm_info) \<Rightarrow> bool" where
  "inv_slots sml ni sm \<longleftrightarrow>
     (\<forall>a m. sm a = Some m \<longrightarrow> ni (sm_nic_hndl m) \<noteq> None) \<and>
     (\<forall>n nic ps k a. ni n = Some nic \<longrightarrow> nic_sm_pkts nic = Some ps \<longrightarrow> k < length ps \<longrightarrow>
        ps ! k = Some a \<longrightarrow>
        a \<in> set sml \<and> (\<exists>m. sm a = Some m \<and> sm_nic_hndl m = n \<and> sm_pkts_out m = 1) \<and>
        once ps a k)"

text \<open>Channels and NICs refer to each other; the slot array of a NIC with a channel has its size, and
  the slot for the next packet is free.\<close>

definition nic_ready :: "kgni_env \<Rightarrow> kgni_chnl \<Rightarrow> gni_nic \<Rightarrow> bool" where
  "nic_ready env c nic \<longleftrightarrow>
     (case nic_sm_pkts nic of
        None \<Rightarrow> False
      | Some ps \<Rightarrow> length ps = KGNI_MAX_SM_PKTS env + 1 \<and> max_tx_pkts c \<le> KGNI_MAX_SM_PKTS env \<and>
          nic_sm_pkt_id nic \<le> max_tx_pkts c \<and> ps ! nic_sm_pkt_id nic = None)"

definition inv_chnl :: "kgni_env \<Rightarrow> (addr \<rightharpoonup> gni_nic) \<Rightarrow> (addr \<rightharpoonup> kgni_chnl) \<Rightarrow> bool" where
  "inv_chnl env ni cs \<longleftrightarrow>
     (\<forall>ch c. cs ch = Some c \<longrightarrow> (\<exists>nic. ni (chnl_nic_hndl c) = Some nic \<and>
        nic_sm_chnl_hndl nic = Some ch \<and> nic_ready env c nic)) \<and>
     (\<forall>n nic ch. ni n = Some nic \<longrightarrow> nic_sm_chnl_hndl nic = Some ch \<longrightarrow>
        (\<exists>c. cs ch = Some c \<and> chnl_nic_hndl c = n))"

definition inv_cdm :: "kgni_env \<Rightarrow> addr option list \<Rightarrow> (addr \<rightharpoonup> gni_cdm) \<Rightarrow> (addr \<rightharpoonup> gni_nic) \<Rightarrow> bool" where
  "inv_cdm env arr cd ni \<longleftrightarrow>
     length arr = KGNI_MAX_CDM_NUMBER env \<and>
     (\<forall>i < length arr. \<forall>d. arr ! i = Some d \<longrightarrow> cd d \<noteq> None) \<and>
     (\<forall>n nic. ni n = Some nic \<longrightarrow> nic_cdm_id nic \<noteq> GNI_CDM_INVALID_ID \<longrightarrow>
        unat (nic_cdm_id nic) < length arr)"

definition sm_inv :: "kgni_env \<Rightarrow> kgni \<Rightarrow> bool" where
  "sm_inv env s \<longleftrightarrow>
     inv_task (kgni_sm_list s) (sms s) \<and>
     inv_sessions (cdms s) (sms s) \<and>
     inv_owner (kgni_cdm_array s) (cdms s) (nics s) (sms s) \<and>
     inv_slots (kgni_sm_list s) (nics s) (sms s) \<and>
     inv_chnl env (nics s) (chnls s) \<and>
     inv_cdm env (kgni_cdm_array s) (cdms s) (nics s)"

lemmas inv_defs = inv_task_def inv_sessions_def inv_owner_def inv_slots_def inv_chnl_def inv_cdm_def

section \<open>Primitive updates keep the invariant\<close>

lemma sm_inv_irrelevant [simp]:
  "sm_inv env (queue_sm_work s) = sm_inv env s"
  "sm_inv env (wake_up_sm n s) = sm_inv env s"
  "sm_inv env (s\<lparr>sm_work := b\<rparr>) = sm_inv env s"
  "sm_inv env (s\<lparr>sm_generation := g\<rparr>) = sm_inv env s"
  by (simp_all add: sm_inv_def queue_sm_work_def wake_up_sm_def)

lemma prim_sel [simp]:
  "sms (queue_sm_work s) = sms s" "sms (wake_up_sm n s) = sms s" "sms (smtask_add a s) = sms s"
  "sms (smtask_del a s) = sms s" "sms (upd_nic n g s) = sms s" "sms (upd_chnl ch h s) = sms s"
  "sms (upd_cdm d j s) = sms s"
  "nics (queue_sm_work s) = nics s" "nics (wake_up_sm n s) = nics s" "nics (smtask_add a s) = nics s"
  "nics (smtask_del a s) = nics s" "nics (upd_sm a f s) = nics s" "nics (upd_chnl ch h s) = nics s"
  "nics (upd_cdm d j s) = nics s" "nics (free_session d a s) = nics s" "nics (add_session d a m s) = nics s"
  "chnls (queue_sm_work s) = chnls s" "chnls (wake_up_sm n s) = chnls s" "chnls (smtask_add a s) = chnls s"
  "chnls (smtask_del a s) = chnls s" "chnls (upd_sm a f s) = chnls s" "chnls (upd_nic n g s) = chnls s"
  "chnls (upd_cdm d j s) = chnls s" "chnls (free_session d a s) = chnls s" "chnls (add_session d a m s) = chnls s"
  "cdms (queue_sm_work s) = cdms s" "cdms (wake_up_sm n s) = cdms s" "cdms (smtask_add a s) = cdms s"
  "cdms (smtask_del a s) = cdms s" "cdms (upd_sm a f s) = cdms s" "cdms (upd_nic n g s) = cdms s"
  "cdms (upd_chnl ch h s) = cdms s"
  "kgni_sm_list (queue_sm_work s) = kgni_sm_list s" "kgni_sm_list (wake_up_sm n s) = kgni_sm_list s"
  "kgni_sm_list (upd_sm a f s) = kgni_sm_list s" "kgni_sm_list (upd_nic n g s) = kgni_sm_list s"
  "kgni_sm_list (upd_chnl ch h s) = kgni_sm_list s" "kgni_sm_list (upd_cdm d j s) = kgni_sm_list s"
  "kgni_sm_list (free_session d a s) = kgni_sm_list s" "kgni_sm_list (add_session d a m s) = kgni_sm_list s"
  "kgni_sm_list (smtask_add a s) = a # kgni_sm_list s"
  "kgni_sm_list (smtask_del a s) = remove1 a (kgni_sm_list s)"
  "kgni_cdm_array (queue_sm_work s) = kgni_cdm_array s" "kgni_cdm_array (wake_up_sm n s) = kgni_cdm_array s"
  "kgni_cdm_array (smtask_add a s) = kgni_cdm_array s" "kgni_cdm_array (smtask_del a s) = kgni_cdm_array s"
  "kgni_cdm_array (upd_sm a f s) = kgni_cdm_array s" "kgni_cdm_array (upd_nic n g s) = kgni_cdm_array s"
  "kgni_cdm_array (upd_chnl ch h s) = kgni_cdm_array s" "kgni_cdm_array (upd_cdm d j s) = kgni_cdm_array s"
  "kgni_cdm_array (free_session d a s) = kgni_cdm_array s"
  "kgni_cdm_array (add_session d a m s) = kgni_cdm_array s"
  by (simp_all add: queue_sm_work_def wake_up_sm_def smtask_add_def smtask_del_def upd_sm_def upd_nic_def
      upd_chnl_def upd_cdm_def free_session_def add_session_def)

lemma prim_upd:
  "sms (upd_sm a f s) = (sms s)(a := map_option f (sms s a))"
  "nics (upd_nic n g s) = (nics s)(n := map_option g (nics s n))"
  "chnls (upd_chnl ch h s) = (chnls s)(ch := map_option h (chnls s ch))"
  "cdms (upd_cdm d j s) = (cdms s)(d := map_option j (cdms s d))"
  "sms (free_session d a s) = (sms s)(a := None)"
  "cdms (free_session d a s) =
     (cdms s)(d := map_option (\<lambda>c. c\<lparr>cdm_sessions := remove1 a (cdm_sessions c)\<rparr>) (cdms s d))"
  "sms (add_session d a m s) = (sms s)(a \<mapsto> m)"
  "cdms (add_session d a m s) =
     (cdms s)(d := map_option (\<lambda>c. c\<lparr>cdm_sessions := cdm_sessions c @ [a]\<rparr>) (cdms s d))"
  by (simp_all add: upd_sm_def upd_nic_def upd_chnl_def upd_cdm_def free_session_def add_session_def)

lemma on_smtask_sel [simp]:
  "on_smtask a (queue_sm_work s) = on_smtask a s" "on_smtask a (wake_up_sm n s) = on_smtask a s"
  "on_smtask a (upd_sm b f s) = on_smtask a s" "on_smtask a (upd_chnl ch h s) = on_smtask a s"
  by (simp_all add: on_smtask_def)

text \<open>A change of a session that keeps what the invariant says about it.\<close>

definition sm_keeps :: "(kgni_sm_info \<Rightarrow> kgni_sm_info) \<Rightarrow> kgni_sm_info \<Rightarrow> bool" where
  "sm_keeps f m \<longleftrightarrow> sm_nic_hndl (f m) = sm_nic_hndl m \<and> sm_pkts_out (f m) = sm_pkts_out m \<and>
     (sm_ok m \<longrightarrow> sm_ok (f m)) \<and> (sm_active m \<longrightarrow> sm_active (f m))"

lemma sm_inv_upd_sm:
  assumes "sm_inv env s" and "\<And>m. sms s a = Some m \<Longrightarrow> sm_keeps f m"
  shows "sm_inv env (upd_sm a f s)"
proof (cases "sms s a")
  case None
  then have "upd_sm a f s = s" by (simp add: upd_sm_def fun_upd_idem)
  with assms(1) show ?thesis by simp
next
  case (Some m)
  with assms(2) have k: "sm_keeps f m" by simp
  have t: "inv_task (kgni_sm_list s) ((sms s)(a \<mapsto> f m))"
    using assms(1) k Some by (auto simp: sm_inv_def inv_task_def sm_keeps_def)
  have "dom ((sms s)(a \<mapsto> f m)) = dom (sms s)" using Some by auto
  then have l: "inv_sessions (cdms s) ((sms s)(a \<mapsto> f m))"
    using assms(1) unfolding sm_inv_def inv_sessions_def by simp
  have o: "inv_owner (kgni_cdm_array s) (cdms s) (nics s) ((sms s)(a \<mapsto> f m))"
    using assms(1) k Some unfolding sm_inv_def inv_owner_def sm_keeps_def by (metis fun_upd_apply option.inject)
  have "inv_slots (kgni_sm_list s) (nics s) ((sms s)(a \<mapsto> f m))"
    using assms(1) k Some unfolding sm_inv_def inv_slots_def sm_keeps_def fun_upd_apply
    by (smt (verit) option.inject)
  with t l o assms(1) Some show ?thesis by (simp add: sm_inv_def prim_upd)
qed

lemma sm_inv_upd_chnl:
  assumes "sm_inv env s" and "\<And>c. chnl_nic_hndl (h c) = chnl_nic_hndl c \<and> max_tx_pkts (h c) = max_tx_pkts c"
  shows "sm_inv env (upd_chnl ch h s)"
proof -
  have r: "nic_ready env (h c) nic = nic_ready env c nic" for c nic
    using assms(2) by (simp add: nic_ready_def split: option.splits)
  have i: "inv_chnl env (nics s) (chnls s)" using assms(1) by (simp add: sm_inv_def)
  let ?cs = "(chnls s)(ch := map_option h (chnls s ch))"
  have sub: "\<exists>c. chnls s x = Some c \<and> (c' = c \<or> c' = h c)" if "?cs x = Some c'" for x c'
    using that by (auto split: if_splits)
  have sup: "\<exists>c'. ?cs x = Some c' \<and> chnl_nic_hndl c' = chnl_nic_hndl c" if "chnls s x = Some c" for x c
    using that assms(2) by (cases "x = ch") simp_all
  have "inv_chnl env (nics s) ?cs"
    unfolding inv_chnl_def
  proof (intro conjI allI impI)
    fix x c' assume "?cs x = Some c'"
    with sub obtain c where "chnls s x = Some c" "c' = c \<or> c' = h c" by blast
    with i assms(2) r show "\<exists>nic. nics s (chnl_nic_hndl c') = Some nic \<and>
        nic_sm_chnl_hndl nic = Some x \<and> nic_ready env c' nic"
      unfolding inv_chnl_def by metis
  next
    fix n nic x assume "nics s n = Some nic" "nic_sm_chnl_hndl nic = Some x"
    with i obtain c where "chnls s x = Some c" "chnl_nic_hndl c = n" unfolding inv_chnl_def by blast
    with sup show "\<exists>c'. ?cs x = Some c' \<and> chnl_nic_hndl c' = n" by blast
  qed
  with assms(1) show ?thesis by (simp add: sm_inv_def prim_upd)
qed

lemma sm_inv_smtask_add:
  assumes "sm_inv env s" and "\<not> on_smtask a s" and "sms s a = Some m" and "sm_active m"
  shows "sm_inv env (smtask_add a s)"
proof -
  note inv = assms(1)[unfolded sm_inv_def]
  have t: "inv_task (a # kgni_sm_list s) (sms s)"
    using inv assms(2-4) by (simp add: inv_task_def on_smtask_def)
  have "inv_slots (a # kgni_sm_list s) (nics s) (sms s)"
    using inv unfolding inv_slots_def set_simps by (meson insertI2)
  with t inv show ?thesis by (simp add: sm_inv_def)
qed

text \<open>No packet of the session is out.\<close>

definition slot_free :: "addr \<Rightarrow> kgni \<Rightarrow> bool" where
  "slot_free a s \<longleftrightarrow> (\<forall>n nic ps. nics s n = Some nic \<longrightarrow> nic_sm_pkts nic = Some ps \<longrightarrow> Some a \<notin> set ps)"

lemma slot_free_pkts_out:
  assumes "sm_inv env s" and "sms s a = Some m" and "sm_pkts_out m = 0"
  shows "slot_free a s"
  using assms unfolding slot_free_def sm_inv_def inv_slots_def in_set_conv_nth
  by (metis option.inject zero_neq_one)

lemma slot_free_sel [simp]:
  "slot_free a (smtask_del b s) = slot_free a s" "slot_free a (wake_up_sm n s) = slot_free a s"
  "slot_free a (free_session d b s) = slot_free a s"
  by (simp_all add: slot_free_def)

lemma sm_inv_smtask_del:
  assumes "sm_inv env s" and "slot_free a s"
  shows "sm_inv env (smtask_del a s)"
proof -
  have t: "inv_task (remove1 a (kgni_sm_list s)) (sms s)"
    using assms(1) by (auto simp: sm_inv_def inv_task_def)
  have "distinct (kgni_sm_list s)" using assms(1) by (simp add: sm_inv_def inv_task_def)
  then have "inv_slots (remove1 a (kgni_sm_list s)) (nics s) (sms s)"
    using assms unfolding sm_inv_def inv_slots_def slot_free_def
    by (metis in_set_remove1 nth_mem)
  with t assms(1) show ?thesis by (simp add: sm_inv_def)
qed

lemma sm_inv_free_session:
  assumes "sm_inv env s" and "\<not> on_smtask a s" and "cdms s d = Some c" and "a \<in> set (cdm_sessions c)"
  shows "sm_inv env (free_session d a s)"
proof -
  let ?cd = "(cdms s)(d \<mapsto> c\<lparr>cdm_sessions := remove1 a (cdm_sessions c)\<rparr>)"
  let ?sm = "(sms s)(a := None)"
  note inv = assms(1)[unfolded sm_inv_def]
  have na: "a \<notin> set (kgni_sm_list s)" using assms(2) by (simp add: on_smtask_def)
  have t: "inv_task (kgni_sm_list s) ?sm"
    using inv na by (auto simp: inv_task_def)
  have l: "inv_sessions ?cd ?sm"
    unfolding inv_sessions_def
  proof (intro conjI allI ballI impI)
    fix d' c' assume h: "?cd d' = Some c'"
    show "distinct (cdm_sessions c')"
      using h inv assms(3) by (auto simp: inv_sessions_def split: if_splits)
    show "set (cdm_sessions c') \<subseteq> dom ?sm"
    proof (cases "d' = d")
      case True
      have "distinct (cdm_sessions c)" "set (cdm_sessions c) \<subseteq> dom (sms s)"
        using inv assms(3) unfolding inv_sessions_def by blast+
      with h True show ?thesis by auto
    next
      case False
      with h inv assms(3,4) have "a \<notin> set (cdm_sessions c')" by (auto simp: inv_sessions_def)
      moreover have "set (cdm_sessions c') \<subseteq> dom (sms s)"
        using h False inv unfolding inv_sessions_def fun_upd_apply by metis
      ultimately show ?thesis by auto
    qed
  next
    fix d1 c1 d2 c2 b
    assume h: "?cd d1 = Some c1" "?cd d2 = Some c2" "b \<in> set (cdm_sessions c1)" "b \<in> set (cdm_sessions c2)"
    have "\<exists>c'. cdms s d1 = Some c' \<and> b \<in> set (cdm_sessions c')"
      "\<exists>c'. cdms s d2 = Some c' \<and> b \<in> set (cdm_sessions c')"
      using h assms(3) notin_set_remove1 by (fastforce split: if_splits)+
    with inv show "d1 = d2" unfolding inv_sessions_def by blast
  next
    fix b assume b: "b \<in> dom ?sm"
    then have "b \<in> dom (sms s)" "b \<noteq> a" by (auto split: if_splits)
    with inv obtain d' c' where c': "cdms s d' = Some c'" "b \<in> set (cdm_sessions c')"
      unfolding inv_sessions_def by blast
    with \<open>b \<noteq> a\<close> assms(3) show "\<exists>d c. ?cd d = Some c \<and> b \<in> set (cdm_sessions c)"
      by (cases "d' = d") (auto simp: in_set_remove1)
  qed
  have o: "inv_owner (kgni_cdm_array s) ?cd (nics s) ?sm"
    unfolding inv_owner_def
  proof (intro allI impI)
    fix d' c' b mb assume h: "?cd d' = Some c'" "b \<in> set (cdm_sessions c')" "?sm b = Some mb"
    then have "\<exists>c''. cdms s d' = Some c'' \<and> b \<in> set (cdm_sessions c'')" "sms s b = Some mb"
      using assms(3) notin_set_remove1 by (fastforce split: if_splits)+
    with inv show "\<exists>nic. nics s (sm_nic_hndl mb) = Some nic \<and> nic_cdm_id nic \<noteq> GNI_CDM_INVALID_ID \<and>
        kgni_cdm_array s ! unat (nic_cdm_id nic) = Some d'"
      unfolding inv_owner_def by blast
  qed
  have sl: "inv_slots (kgni_sm_list s) (nics s) ?sm"
    unfolding inv_slots_def
  proof (intro conjI)
    show "\<forall>b m. ?sm b = Some m \<longrightarrow> nics s (sm_nic_hndl m) \<noteq> None"
      using inv by (auto simp: inv_slots_def split: if_splits)
    show "\<forall>n nic ps k b. nics s n = Some nic \<longrightarrow> nic_sm_pkts nic = Some ps \<longrightarrow> k < length ps \<longrightarrow>
        ps ! k = Some b \<longrightarrow> b \<in> set (kgni_sm_list s) \<and>
        (\<exists>m. ?sm b = Some m \<and> sm_nic_hndl m = n \<and> sm_pkts_out m = 1) \<and>
        once ps b k"
      using inv na unfolding inv_slots_def by (metis fun_upd_other)
  qed
  have "inv_cdm env (kgni_cdm_array s) ?cd (nics s)"
    using inv by (auto simp: inv_cdm_def)
  with t l o sl inv assms(3) show ?thesis by (simp add: sm_inv_def prim_upd)
qed

lemma sm_inv_add_session:
  assumes "sm_inv env s" and "sms s a = None" and "cdms s d = Some c" and "sm_ok m"
    and "\<exists>nic. nics s (sm_nic_hndl m) = Some nic \<and> nic_cdm_id nic \<noteq> GNI_CDM_INVALID_ID \<and>
        kgni_cdm_array s ! unat (nic_cdm_id nic) = Some d"
  shows "sm_inv env (add_session d a m s)"
proof -
  let ?cd = "(cdms s)(d \<mapsto> c\<lparr>cdm_sessions := cdm_sessions c @ [a]\<rparr>)"
  let ?sm = "(sms s)(a \<mapsto> m)"
  note inv = assms(1)[unfolded sm_inv_def]
  have na: "a \<notin> set (kgni_sm_list s)" using inv assms(2) by (auto simp: inv_task_def)
  have ns: "a \<notin> set (cdm_sessions c')" if "cdms s d' = Some c'" for d' c'
    using inv assms(2) that by (auto simp: inv_sessions_def)
  have t: "inv_task (kgni_sm_list s) ?sm"
    using inv na assms(4) by (auto simp: inv_task_def)
  have l: "inv_sessions ?cd ?sm"
    unfolding inv_sessions_def
  proof (intro conjI allI ballI impI)
    fix d' c' assume h: "?cd d' = Some c'"
    show "distinct (cdm_sessions c')"
      using h inv assms(3) ns by (auto simp: inv_sessions_def split: if_splits)
    have "set (cdm_sessions c'') \<subseteq> dom (sms s)" if "cdms s d'' = Some c''" for d'' c''
      using inv that unfolding inv_sessions_def by blast
    with h assms(3) show "set (cdm_sessions c') \<subseteq> dom ?sm"
      by (fastforce split: if_splits)
  next
    fix d1 c1 d2 c2 b
    assume h: "?cd d1 = Some c1" "?cd d2 = Some c2" "b \<in> set (cdm_sessions c1)" "b \<in> set (cdm_sessions c2)"
    show "d1 = d2"
    proof (cases "b = a")
      case True
      with h ns show ?thesis by (metis fun_upd_other)
    next
      case False
      with h assms(3) have "\<exists>c'. cdms s d1 = Some c' \<and> b \<in> set (cdm_sessions c')"
        "\<exists>c'. cdms s d2 = Some c' \<and> b \<in> set (cdm_sessions c')" by (auto split: if_splits)
      with inv show ?thesis unfolding inv_sessions_def by blast
    qed
  next
    fix b assume b: "b \<in> dom ?sm"
    show "\<exists>d c. ?cd d = Some c \<and> b \<in> set (cdm_sessions c)"
    proof (cases "b = a")
      case False
      with b have "b \<in> dom (sms s)" by auto
      with inv obtain d' c' where "cdms s d' = Some c'" "b \<in> set (cdm_sessions c')"
        unfolding inv_sessions_def by blast
      with assms(3) show ?thesis by (cases "d' = d") auto
    qed (use assms(3) in auto)
  qed
  have o: "inv_owner (kgni_cdm_array s) ?cd (nics s) ?sm"
    unfolding inv_owner_def
  proof (intro allI impI)
    fix d' c' b mb assume h: "?cd d' = Some c'" "b \<in> set (cdm_sessions c')" "?sm b = Some mb"
    show "\<exists>nic. nics s (sm_nic_hndl mb) = Some nic \<and> nic_cdm_id nic \<noteq> GNI_CDM_INVALID_ID \<and>
        kgni_cdm_array s ! unat (nic_cdm_id nic) = Some d'"
    proof (cases "b = a")
      case True
      with h ns have "d' = d" by (metis fun_upd_other)
      with True h(3) assms(5) show ?thesis by simp
    next
      case False
      with h assms(3) have "\<exists>c''. cdms s d' = Some c'' \<and> b \<in> set (cdm_sessions c'')" "sms s b = Some mb"
        by (auto split: if_splits)
      with inv show ?thesis unfolding inv_owner_def by blast
    qed
  qed
  have sl: "inv_slots (kgni_sm_list s) (nics s) ?sm"
    unfolding inv_slots_def
  proof (intro conjI)
    show "\<forall>b m'. ?sm b = Some m' \<longrightarrow> nics s (sm_nic_hndl m') \<noteq> None"
      using inv assms(5) by (auto simp: inv_slots_def split: if_splits)
    show "\<forall>n nic ps k b. nics s n = Some nic \<longrightarrow> nic_sm_pkts nic = Some ps \<longrightarrow> k < length ps \<longrightarrow>
        ps ! k = Some b \<longrightarrow> b \<in> set (kgni_sm_list s) \<and>
        (\<exists>m'. ?sm b = Some m' \<and> sm_nic_hndl m' = n \<and> sm_pkts_out m' = 1) \<and>
        once ps b k"
      using inv na unfolding inv_slots_def by (metis fun_upd_other)
  qed
  have "inv_cdm env (kgni_cdm_array s) ?cd (nics s)"
    using inv by (auto simp: inv_cdm_def)
  with t l o sl inv assms(3) show ?thesis by (simp add: sm_inv_def prim_upd)
qed

end
