(* ===== verification/Session_Worker.thy ===== *)
theory Session_Worker
  imports Session_Inv
begin

text \<open>
  Safety of the session worker and of the send event: they return in every state that satisfies the
  invariant, and keep it. The search for the next packet slot ends, and finds a free slot.
\<close>

section \<open>Packet slots\<close>

text \<open>The upward scan finds a free slot that lies ahead of it.\<close>

lemma next_pkt_slot_up:
  assumes "i \<le> j" and "j \<le> mx" and "mx < length ps" and "ps ! j = None" and "i0 < i \<or> j < i0"
  shows "\<exists>k. next_pkt_slot ps mx i0 i = Some k \<and> k \<le> mx \<and> ps ! k = None"
  using assms
proof (induction i rule: inc_induct)
  case base
  then show ?case by (subst next_pkt_slot.simps) auto
next
  case (step i)
  then show ?case by (subst next_pkt_slot.simps) (auto simp: Let_def)
qed

text \<open>The scan wraps and finds a free slot below its start.\<close>

lemma next_pkt_slot_wrap:
  assumes "i \<le> mx + 1" and "i0 < i" and "j < i0" and "mx < length ps" and "ps ! j = None"
  shows "\<exists>k. next_pkt_slot ps mx i0 i = Some k \<and> k \<le> mx \<and> ps ! k = None"
  using assms
proof (induction i rule: inc_induct)
  case base
  show ?case
  proof (cases "ps ! 0 = None")
    case True
    with base show ?thesis by (subst next_pkt_slot.simps) (auto simp: Let_def)
  next
    case False
    with base have "\<exists>k. next_pkt_slot ps mx i0 1 = Some k \<and> k \<le> mx \<and> ps ! k = None"
      by (intro next_pkt_slot_up[where j = j]) (auto simp: Suc_le_eq intro!: gr0I)
    with base False show ?thesis by (subst next_pkt_slot.simps) (auto simp: Let_def)
  qed
next
  case (step i)
  then show ?case by (subst next_pkt_slot.simps) (auto simp: Let_def)
qed

lemma next_pkt_slot_finds:
  assumes "i0 \<le> mx" and "mx < length ps" and "j \<le> mx" and "j \<noteq> i0" and "ps ! j = None"
  shows "\<exists>k. next_pkt_slot ps mx i0 (i0 + 1) = Some k \<and> k \<le> mx \<and> ps ! k = None"
  using assms next_pkt_slot_up[of "i0 + 1" j mx ps i0] next_pkt_slot_wrap[of "i0 + 1" mx i0 j ps]
  by (cases "j < i0") auto

text \<open>As long as fewer than \<open>mx\<close> slots are taken, two of the slots \<open>0\<close> to \<open>mx\<close> are free.\<close>

lemma free_slot_exists:
  fixes ps :: "addr option list"
  assumes "length (filter (\<lambda>x. x \<noteq> None) ps) < mx" and "mx < length ps"
  shows "\<exists>j \<le> mx. j \<noteq> i \<and> ps ! j = None"
proof (rule ccontr)
  assume "\<not> ?thesis"
  then have "{j. j \<le> mx \<and> j \<noteq> i} \<subseteq> {j. j < length ps \<and> ps ! j \<noteq> None}"
    using assms(2) by auto
  then have "card {j. j \<le> mx \<and> j \<noteq> i} \<le> length (filter (\<lambda>x. x \<noteq> None) ps)"
    by (simp only: length_filter_conv_card) (rule card_mono, simp_all)
  moreover have "{j. j \<le> mx \<and> j \<noteq> i} = {..mx} - {i}" by auto
  then have "card {j. j \<le> mx \<and> j \<noteq> i} \<ge> mx"
    by (simp add: card_Diff_singleton_if)
  ultimately show False using assms(1) by simp
qed

section \<open>The channel layer and the NTT\<close>

text \<open>
  What the session manager relies on: a send succeeds or asks to be repeated, and it succeeds only
  while fewer packets are in flight than the channel was created for; the NTT translates no index
  to the address that stands for ``any''.
\<close>

definition env_ok :: "kgni_env \<Rightarrow> bool" where
  "env_ok env \<longleftrightarrow>
     (\<forall>used c pe inst i p.
        kgni_chnl_send env used c pe inst i p = 0 \<and> used < max_tx_pkts c \<or>
        kgni_chnl_send env used c pe inst i p = - EAGAIN) \<and>
     (\<forall>x. ghal_ntt_to_pe env x \<noteq> - 1)"

lemma env_okD:
  assumes "env_ok env"
  shows "kgni_chnl_send env used c pe inst i p = 0 \<Longrightarrow> used < max_tx_pkts c"
    and "kgni_chnl_send env used c pe inst i p \<noteq> 0 \<Longrightarrow> kgni_chnl_send env used c pe inst i p = - EAGAIN"
    and "ghal_ntt_to_pe env x \<noteq> - 1"
proof -
  have "kgni_chnl_send env used c pe inst i p = 0 \<and> used < max_tx_pkts c \<or>
        kgni_chnl_send env used c pe inst i p = - EAGAIN"
    using assms unfolding env_ok_def by blast
  then show "kgni_chnl_send env used c pe inst i p = 0 \<Longrightarrow> used < max_tx_pkts c"
    and "kgni_chnl_send env used c pe inst i p \<noteq> 0 \<Longrightarrow> kgni_chnl_send env used c pe inst i p = - EAGAIN"
    by auto
  show "ghal_ntt_to_pe env x \<noteq> - 1" using assms unfolding env_ok_def by blast
qed

section \<open>Changes of a session together with the slots of its NIC\<close>

lemma sm_inv_slot_upd:
  assumes inv: "sm_inv env s" and m: "sms s a = Some m" and n: "sm_nic_hndl m = n"
    and nic: "nics s n = Some nic"
    and m': "sm_nic_hndl m' = n" "sm_ok m'" "a \<in> set (kgni_sm_list s) \<longrightarrow> sm_active m'"
    and nic': "nic_sm_chnl_hndl nic' = nic_sm_chnl_hndl nic" "nic_cdm_id nic' = nic_cdm_id nic"
      "nic_sm_pkts nic' = Some ps'"
    and ready: "\<And>ch c. nic_sm_chnl_hndl nic = Some ch \<Longrightarrow> chnls s ch = Some c \<Longrightarrow> nic_ready env c nic'"
    and slots: "\<And>k b. k < length ps' \<Longrightarrow> ps' ! k = Some b \<Longrightarrow> b \<in> set (kgni_sm_list s) \<and>
        (if b = a then sm_pkts_out m' = 1
         else \<exists>mb. sms s b = Some mb \<and> sm_nic_hndl mb = n \<and> sm_pkts_out mb = 1) \<and>
        once ps' b k"
  shows "sm_inv env (s\<lparr>sms := (sms s)(a \<mapsto> m'), nics := (nics s)(n \<mapsto> nic')\<rparr>)"
proof -
  let ?sm = "(sms s)(a \<mapsto> m')" and ?ni = "(nics s)(n \<mapsto> nic')"
  note i = inv[unfolded sm_inv_def]
  have t: "inv_task (kgni_sm_list s) ?sm" using i m' by (auto simp: inv_task_def)
  have "dom ?sm = dom (sms s)" using m by auto
  then have l: "inv_sessions (cdms s) ?sm" using i unfolding inv_sessions_def by simp
  have o: "inv_owner (kgni_cdm_array s) (cdms s) ?ni ?sm"
    unfolding inv_owner_def
  proof (intro allI impI)
    fix d' c' b mb assume h: "cdms s d' = Some c'" "b \<in> set (cdm_sessions c')" "?sm b = Some mb"
    then obtain mo where mo: "sms s b = Some mo" "sm_nic_hndl mb = sm_nic_hndl mo"
      using m m' n by (cases "b = a") auto
    with i h obtain k where "nics s (sm_nic_hndl mo) = Some k" "nic_cdm_id k \<noteq> GNI_CDM_INVALID_ID"
        "kgni_cdm_array s ! unat (nic_cdm_id k) = Some d'"
      unfolding inv_owner_def by blast
    with mo(2) nic nic' show "\<exists>nic. ?ni (sm_nic_hndl mb) = Some nic \<and> nic_cdm_id nic \<noteq> GNI_CDM_INVALID_ID \<and>
        kgni_cdm_array s ! unat (nic_cdm_id nic) = Some d'"
      by auto
  qed
  have sl: "inv_slots (kgni_sm_list s) ?ni ?sm"
    unfolding inv_slots_def
  proof (intro conjI allI impI)
    fix b mb assume "?sm b = Some mb"
    with i m'(1) show "?ni (sm_nic_hndl mb) \<noteq> None"
      by (auto simp: inv_slots_def split: if_splits)
  next
    fix x nic'' ps k b
    assume h: "?ni x = Some nic''" "nic_sm_pkts nic'' = Some ps" "k < length ps" "ps ! k = Some b"
    have *: "b \<in> set (kgni_sm_list s) \<and>
      (\<exists>mb. ?sm b = Some mb \<and> sm_nic_hndl mb = x \<and> sm_pkts_out mb = 1) \<and>
      once ps b k"
    proof (cases "x = n")
      case True
      with h nic' have "ps = ps'" by auto
      with slots[of k b] h(3,4) True m' show ?thesis by (cases "b = a") auto
    next
      case False
      with h have x: "nics s x = Some nic''" by simp
      with i h(2-4) have old: "b \<in> set (kgni_sm_list s)"
        "\<exists>mb. sms s b = Some mb \<and> sm_nic_hndl mb = x \<and> sm_pkts_out mb = 1"
        "once ps b k"
        unfolding inv_slots_def by blast+
      with False m n have "b \<noteq> a" by auto
      with old show ?thesis by simp
    qed
    then show "b \<in> set (kgni_sm_list s)" "\<exists>mb. ?sm b = Some mb \<and> sm_nic_hndl mb = x \<and> sm_pkts_out mb = 1"
      "once ps b k"
      by blast+
  qed
  have c: "inv_chnl env ?ni (chnls s)"
    unfolding inv_chnl_def
  proof (intro conjI allI impI)
    fix ch c assume c: "chnls s ch = Some c"
    with i obtain k where k: "nics s (chnl_nic_hndl c) = Some k" "nic_sm_chnl_hndl k = Some ch" "nic_ready env c k"
      unfolding inv_chnl_def by blast
    show "\<exists>k. ?ni (chnl_nic_hndl c) = Some k \<and> nic_sm_chnl_hndl k = Some ch \<and> nic_ready env c k"
      using k nic nic' ready[of ch c] c by (cases "chnl_nic_hndl c = n") auto
  next
    fix x k ch assume "?ni x = Some k" "nic_sm_chnl_hndl k = Some ch"
    with nic nic' have "\<exists>k. nics s x = Some k \<and> nic_sm_chnl_hndl k = Some ch" by (auto split: if_splits)
    with i show "\<exists>c. chnls s ch = Some c \<and> chnl_nic_hndl c = x" unfolding inv_chnl_def by blast
  qed
  have "inv_cdm env (kgni_cdm_array s) (cdms s) ?ni"
    using i nic nic' by (auto simp: inv_cdm_def)
  with t l o sl c i show ?thesis by (simp add: sm_inv_def)
qed

section \<open>The worker\<close>

lemma sm_inv_attached:
  assumes "sm_inv env s" and "nics s n = Some nic" and "nic_sm_chnl_hndl nic = Some ch"
  shows "\<exists>c. chnls s ch = Some c \<and> chnl_nic_hndl c = n \<and> nic_ready env c nic"
proof -
  have i: "inv_chnl env (nics s) (chnls s)" using assms(1) by (simp add: sm_inv_def)
  with assms(2,3) obtain c where c: "chnls s ch = Some c" "chnl_nic_hndl c = n"
    unfolding inv_chnl_def by blast
  with i assms(2) have "nic_ready env c nic" unfolding inv_chnl_def by force
  with c show ?thesis by blast
qed

lemma sm_inv_session:
  assumes "sm_inv env s" and "sms s a = Some m"
  shows "sm_ok m" and "\<exists>nic. nics s (sm_nic_hndl m) = Some nic"
    and "a \<in> set (kgni_sm_list s) \<Longrightarrow> sm_active m"
  using assms unfolding sm_inv_def inv_task_def inv_slots_def by (blast | force)+

lemma sm_inv_slot:
  assumes "sm_inv env s" and "nics s n = Some nic" and "nic_sm_pkts nic = Some ps" and "k < length ps"
    and "ps ! k = Some a"
  shows "a \<in> set (kgni_sm_list s)" and "\<exists>m. sms s a = Some m \<and> sm_nic_hndl m = n \<and> sm_pkts_out m = 1"
    and "once ps a k"
  using assms unfolding sm_inv_def inv_slots_def by blast+

lemma kgni_notify_user_safe:
  assumes "sm_inv env s" and "chnls s ch = Some c" and "sms s a = Some m"
  shows "ok (kgni_notify_user ch a s) (\<lambda>s'. sm_inv env s' \<and> kgni_sm_list s' = kgni_sm_list s)"
proof -
  have "sm_inv env (upd_sm a (\<lambda>m. m\<lparr>sm_flags := insert KGNI_SM_FLAG_USR_NOTIFIED (sm_flags m)\<rparr>)
      (upd_chnl ch (\<lambda>c. c\<lparr>datagram_cnt_kern := x\<rparr>) s))" for x
    using assms(1) by (intro sm_inv_upd_sm sm_inv_upd_chnl) (simp_all add: sm_keeps_def sm_ok_def sm_active_def)
  with assms show ?thesis by (simp add: kgni_notify_user_def split: option.splits)
qed

lemma set_state_sel [simp]:
  "sm_pkt (set_state st m) = (sm_pkt m)\<lparr>pkt_state := st\<rparr>" "sm_nic_hndl (set_state st m) = sm_nic_hndl m"
  "sm_pkts_out (set_state st m) = sm_pkts_out m" "sm_flags (set_state st m) = sm_flags m"
  "sm_rem_udata (set_state st m) = sm_rem_udata m" "sm_rem_udata_size (set_state st m) = sm_rem_udata_size m"
  by (simp_all add: set_state_def upd_pkt_def)

text \<open>Handing a packet over: the slot is taken and a free one found for the next packet, or
  nothing has changed but the sequence number and the failure count.\<close>

lemma sm_task_send_safe:
  assumes inv: "sm_inv env s" and env: "env_ok env" and a: "a \<in> set (kgni_sm_list s)"
    and m: "sms s a = Some m" "sm_nic_hndl m = n" "sm_pkts_out m = 0"
    and nic: "nics s n = Some nic" "nic_sm_chnl_hndl nic = Some ch"
  shows "ok (sm_task_send env n ch fl a s) (\<lambda>(_, _, s'). sm_inv env s' \<and> kgni_sm_list s' = kgni_sm_list s)"
proof -
  obtain c where c: "chnls s ch = Some c" "nic_ready env c nic"
    using sm_inv_attached[OF inv nic] by blast
  then obtain ps where ps: "nic_sm_pkts nic = Some ps" "length ps = KGNI_MAX_SM_PKTS env + 1"
      "max_tx_pkts c < length ps" "nic_sm_pkt_id nic \<le> max_tx_pkts c" "ps ! nic_sm_pkt_id nic = None"
    by (auto simp: nic_ready_def split: option.splits)
  let ?i = "nic_sm_pkt_id nic"
  let ?m = "upd_pkt (\<lambda>p. p\<lparr>seq_num := sm_snd_seq_num m\<rparr>) m"
  let ?s = "upd_sm a (\<lambda>m. upd_pkt (\<lambda>p. p\<lparr>seq_num := sm_snd_seq_num m\<rparr>) m) s"
  let ?used = "length (filter (\<lambda>x. x \<noteq> None) ps)"
  let ?err = "kgni_chnl_send env ?used c (remote_pe (sm_pkt ?m)) (remote_inst_id (sm_pkt ?m)) ?i (sm_pkt ?m)"
  have ma: "sm_ok m" "sm_active m" using sm_inv_session[OF inv m(1)] a by auto
  have il: "?i < length ps" using ps by simp
  have notin: "Some a \<notin> set ps"
    using slot_free_pkts_out[OF inv m(1,3)] nic(1) ps(1) unfolding slot_free_def by blast
  have other: "b \<in> set (kgni_sm_list s) \<and> (\<exists>mb. sms s b = Some mb \<and> sm_nic_hndl mb = n \<and> sm_pkts_out mb = 1) \<and>
      once ps b k \<and> b \<noteq> a" if "k < length ps" "ps ! k = Some b" for k b
  proof (intro conjI allI impI)
    show "b \<noteq> a" using that notin nth_mem[OF that(1)] by metis
  qed (use sm_inv_slot[OF inv nic(1) ps(1) that] in blast)+
  show ?thesis
  proof (cases "?err = 0")
    case True
    then have used: "?used < max_tx_pkts c" by (rule env_okD(1)[OF env])
    obtain j where "j \<le> max_tx_pkts c" "j \<noteq> ?i" "ps ! j = None"
      using free_slot_exists[OF used ps(3)] by blast
    then obtain k where k: "next_pkt_slot (ps[?i := Some a]) (max_tx_pkts c) ?i (?i + 1) = Some k"
        "k \<le> max_tx_pkts c" "ps[?i := Some a] ! k = None"
      using next_pkt_slot_finds[of ?i "max_tx_pkts c" "ps[?i := Some a]" j] ps(3,4) by auto
    then have ki: "k \<noteq> ?i" using il by auto
    let ?m' = "?m\<lparr>sm_flags := sm_flags m - unsent_flags, sm_snd_status := GNI_RC_NOT_DONE, sm_pkts_out := 1\<rparr>"
    let ?nic' = "nic\<lparr>nic_sm_pkts := Some (ps[?i := Some a]), nic_sm_pkt_id := k\<rparr>"
    have "sm_inv env (s\<lparr>sms := (sms s)(a \<mapsto> ?m'), nics := (nics s)(n \<mapsto> ?nic')\<rparr>)"
    proof (rule sm_inv_slot_upd[OF inv m(1,2) nic(1), where ps' = "ps[?i := Some a]"])
      show "sm_ok ?m'" "a \<in> set (kgni_sm_list s) \<longrightarrow> sm_active ?m'"
        using ma by (simp_all add: sm_ok_def sm_active_def upd_pkt_def)
      show "nic_ready env c' ?nic'" if "nic_sm_chnl_hndl nic = Some ch'" "chnls s ch' = Some c'" for ch' c'
        using that c nic(2) ps k by (auto simp: nic_ready_def)
      fix k' b assume h: "k' < length (ps[?i := Some a])" "ps[?i := Some a] ! k' = Some b"
      show "b \<in> set (kgni_sm_list s) \<and>
         (if b = a then sm_pkts_out ?m' = 1
          else \<exists>mb. sms s b = Some mb \<and> sm_nic_hndl mb = n \<and> sm_pkts_out mb = 1) \<and>
         once (ps[?i := Some a]) b k'"
      proof (cases "k' = ?i")
        case True
        with h il have b: "b = a" by simp
        with True a once_set_new[OF notin, of ?i] show ?thesis by simp
      next
        case False
        with h have o: "b \<in> set (kgni_sm_list s)" "b \<noteq> a"
            "\<exists>mb. sms s b = Some mb \<and> sm_nic_hndl mb = n \<and> sm_pkts_out mb = 1"
            "once ps b k'"
          using other[of k' b] by simp_all
        with once_set_other[OF o(4,2)] show ?thesis by simp
      qed
    qed (use m nic(2) in \<open>simp_all add: upd_pkt_def\<close>)
    moreover have "upd_nic n (\<lambda>k'. k'\<lparr>nic_sm_pkt_id := k\<rparr>) (upd_sm a
        (\<lambda>m. m\<lparr>sm_flags := sm_flags m - unsent_flags, sm_snd_status := GNI_RC_NOT_DONE,
              sm_pkts_out := sm_pkts_out m + 1\<rparr>)
        (upd_nic n (\<lambda>k'. k'\<lparr>nic_sm_pkts := Some (ps[?i := Some a])\<rparr>) ?s))
      = s\<lparr>sms := (sms s)(a \<mapsto> ?m'), nics := (nics s)(n \<mapsto> ?nic')\<rparr>"
      using m nic by (simp add: upd_nic_def upd_sm_def upd_pkt_def)
    ultimately show ?thesis
      using True m nic c ps il k ki by (simp add: sm_task_send_def prim_upd Let_def)
  next
    case False
    then have err: "?err = - EAGAIN" by (rule env_okD(2)[OF env])
    let ?m' = "?m\<lparr>sm_flags := sm_flags m, sm_snd_status := GNI_RC_NOT_DONE, sm_flrcnt := fl, sm_pkts_out := 0\<rparr>"
    have "sm_inv env (upd_sm a (\<lambda>_. ?m') s)"
      using m ma by (intro sm_inv_upd_sm inv) (simp add: sm_keeps_def sm_ok_def sm_active_def upd_pkt_def)
    moreover have "upd_sm a (\<lambda>m'. m'\<lparr>sm_flags := sm_flags ?m, sm_flrcnt := fl, sm_pkts_out := sm_pkts_out m' - 1\<rparr>)
        (upd_nic n (\<lambda>k'. k'\<lparr>nic_sm_pkts := Some (ps[?i := None])\<rparr>) (upd_sm a
        (\<lambda>m. m\<lparr>sm_flags := sm_flags m - unsent_flags, sm_snd_status := GNI_RC_NOT_DONE,
              sm_pkts_out := sm_pkts_out m + 1\<rparr>)
        (upd_nic n (\<lambda>k'. k'\<lparr>nic_sm_pkts := Some (ps[?i := Some a])\<rparr>) ?s))) = upd_sm a (\<lambda>_. ?m') s"
      using m nic ps list_update_id[of ps ?i] by (simp add: upd_nic_def upd_sm_def upd_pkt_def fun_upd_idem)
    ultimately show ?thesis
      using err m nic c ps il by (simp add: sm_task_send_def prim_upd Let_def)
  qed
qed

lemma sm_rx_set_delay_sel [simp]:
  "sm_pkt (kgni_sm_rx_set_delay env j m) = sm_pkt m" "sm_nic_hndl (kgni_sm_rx_set_delay env j m) = sm_nic_hndl m"
  "sm_pkts_out (kgni_sm_rx_set_delay env j m) = sm_pkts_out m"
  "sm_rem_udata (kgni_sm_rx_set_delay env j m) = sm_rem_udata m"
  "sm_rem_udata_size (kgni_sm_rx_set_delay env j m) = sm_rem_udata_size m"
  by (simp_all add: kgni_sm_rx_set_delay_def Let_def)

lemma sm_inv_set_state:
  assumes "sm_inv env s" and "sms s a = Some m" and "sm_active m" and "st \<noteq> KGNI_SM_STATE_REMINFO_READY"
  shows "sm_inv env (upd_sm a (set_state st) s)"
  using assms(2-) by (intro sm_inv_upd_sm assms(1)) (auto simp: sm_keeps_def sm_ok_def sm_active_def)

lemma slot_free_upd_sm [simp]: "slot_free a (upd_sm b f s) = slot_free a s"
  by (simp add: slot_free_def)

text \<open>Taking a session with no packet out off the task list, with and without a notification.\<close>

lemma finish_task_safe:
  assumes inv: "sm_inv env s" and a: "sms s a = Some m" and out: "slot_free a s"
  shows "sm_inv env (wake_up_sm n (smtask_del a s))"
    and "chnls s ch = Some c \<Longrightarrow>
      ok (kgni_notify_user ch a (smtask_del a s))
        (\<lambda>s'. sm_inv env (wake_up_sm n s') \<and> kgni_sm_list s' = remove1 a (kgni_sm_list s))"
proof -
  have d: "sm_inv env (smtask_del a s)" by (rule sm_inv_smtask_del[OF inv out])
  then show "sm_inv env (wake_up_sm n (smtask_del a s))" by simp
  assume "chnls s ch = Some c"
  with d a show "ok (kgni_notify_user ch a (smtask_del a s))
      (\<lambda>s'. sm_inv env (wake_up_sm n s') \<and> kgni_sm_list s' = remove1 a (kgni_sm_list s))"
    using kgni_notify_user_safe[of env "smtask_del a s" ch c a m] by simp
qed

text \<open>What one iteration keeps: the invariant, and every other entry of the task list.\<close>

definition step_post :: "kgni_env \<Rightarrow> addr \<Rightarrow> kgni \<Rightarrow> kgni \<Rightarrow> bool" where
  "step_post env a s s' \<longleftrightarrow> sm_inv env s' \<and> set (kgni_sm_list s) - {a} \<subseteq> set (kgni_sm_list s')"

lemma step_postI:
  "sm_inv env s' \<Longrightarrow> kgni_sm_list s' = kgni_sm_list s \<or> kgni_sm_list s' = remove1 a (kgni_sm_list s) \<Longrightarrow>
    step_post env a s s'"
  unfolding step_post_def using in_set_remove1[of _ a "kgni_sm_list s"] by (metis Diff_iff insertI1 subsetI)

lemma sm_task_step_safe:
  assumes inv: "sm_inv env s" and env: "env_ok env" and a: "a \<in> set (kgni_sm_list s)"
  shows "ok (sm_task_step env j err a s) (\<lambda>(_, _, _, s'). step_post env a s s')"
proof -
  obtain m where m: "sms s a = Some m" "sm_active m"
    using inv a unfolding sm_inv_def inv_task_def by blast
  obtain nic where nic: "nics s (sm_nic_hndl m) = Some nic" using sm_inv_session(2)[OF inv m(1)] by blast
  let ?n = "sm_nic_hndl m"
  let ?fin = "upd_sm a (\<lambda>m. if sm_state_of m = KGNI_SM_STATE_TERMINATE_INIT
                            then set_state KGNI_SM_STATE_TERMINATED m else m) s"
  have fin: "sm_inv env ?fin"
    using m by (intro sm_inv_upd_sm inv) (auto simp: sm_keeps_def sm_ok_def sm_active_def)
  have finm: "\<exists>m'. sms ?fin a = Some m'" using m by (simp add: prim_upd)
  show ?thesis
  proof (cases "sm_pkts_out m = 0")
    case False
    with m nic inv show ?thesis
      by (simp add: sm_task_step_def Let_def step_postI split: option.splits)
  next
    case out: True
    have free: "slot_free a s" by (rule slot_free_pkts_out[OF inv m(1) out])
    show ?thesis
    proof (cases "nic_sm_chnl_hndl nic")
      case None
      have "step_post env a s (wake_up_sm ?n (smtask_del a ?fin))"
        using finish_task_safe(1)[OF fin] finm free by (intro step_postI) (auto simp: wake_up_sm_def)
      with None out m nic show ?thesis by (simp add: sm_task_step_def Let_def)
    next
      case (Some ch)
      obtain c where c: "chnls s ch = Some c" using sm_inv_attached[OF inv nic Some] by blast
      have closing: "ok (kgni_notify_user ch a (smtask_del a s'))
          (\<lambda>s''. step_post env a s (wake_up_sm ?n s''))"
        if "sm_inv env s'" "sms s' a = Some m'" "slot_free a s'" "chnls s' = chnls s"
          "kgni_sm_list s' = kgni_sm_list s" for s' m'
      proof -
        have "ok (kgni_notify_user ch a (smtask_del a s'))
            (\<lambda>s''. sm_inv env (wake_up_sm ?n s'') \<and> kgni_sm_list s'' = remove1 a (kgni_sm_list s'))"
          using finish_task_safe(2)[OF that(1-3)] that(4) c by simp
        then show ?thesis
          by (rule ok_mono) (intro step_postI, simp_all add: that(5))
      qed
      let ?tmo = "upd_sm a (set_state KGNI_SM_STATE_TIMEOUT) s"
      have tmo: "ok (kgni_notify_user ch a (smtask_del a ?tmo)) (\<lambda>s''. step_post env a s (wake_up_sm ?n s''))"
        using sm_inv_set_state[OF inv m] free m(1) by (intro closing) (simp_all add: prim_upd)
      have fini: "ok (kgni_notify_user ch a (smtask_del a ?fin)) (\<lambda>s''. step_post env a s (wake_up_sm ?n s''))"
        using fin finm free by (auto intro: closing)
      let ?cnt = "\<lambda>m. if KGNI_SM_FLAG_SEND_FAILED \<in> sm_flags m then
                    if sm_snd_status m \<noteq> GNI_RC_ERROR_RESOURCE
                    then m\<lparr>sm_flrcnt := sm_flrcnt m + 1\<rparr>
                    else kgni_sm_rx_set_delay env j (m\<lparr>sm_nrx_cnt := sm_nrx_cnt m + 1\<rparr>)
                  else m"
      have cnt: "sm_inv env (upd_sm a ?cnt s)"
        by (intro sm_inv_upd_sm inv) (auto simp: sm_keeps_def sm_ok_def sm_active_def)
      have send: "ok (sm_task_send env ?n ch (sm_flrcnt m) a (upd_sm a ?cnt s))
          (\<lambda>(_, _, s'). sm_inv env s' \<and> kgni_sm_list s' = kgni_sm_list s)"
        using sm_task_send_safe[OF cnt env, of a "?cnt m" ?n nic ch "sm_flrcnt m"] a m out nic Some
        by (simp add: prim_upd)
      have send': "ok (sm_task_send env ?n ch (sm_flrcnt m) a (upd_sm a ?cnt s))
          (\<lambda>(ctl, err, s'). step_post env a s s')"
        by (rule ok_mono[OF send]) (auto intro: step_postI)
      have delay: "step_post env a s (upd_sm a ?cnt s)"
        using cnt by (intro step_postI) simp_all
      have ma: "sms (upd_sm a ?cnt s) a = Some (?cnt m)" using m by (simp add: prim_upd)
      show ?thesis
        unfolding sm_task_step_def Let_def m(1) nic Some option.simps Option.bind.simps
        using tmo fini send' delay ma out
        by (auto simp: ok_bind case_prod_unfold)
    qed
  qed
qed

lemma sm_task_loop_safe:
  assumes "env_ok env" and "sm_inv env s" and "set as \<subseteq> set (kgni_sm_list s)" and "distinct as"
  shows "ok (sm_task_loop env ticks start i as err dl s) (\<lambda>(_, _, s'). sm_inv env s')"
  using assms(2-)
proof (induction as arbitrary: i err dl s)
  case Nil
  then show ?case by simp
next
  case (Cons a as)
  show ?case
  proof (cases "ticks i - start > 1")
    case True
    with Cons.prems show ?thesis by simp
  next
    case False
    have "ok (sm_task_step env (ticks i) err a s) (\<lambda>(_, _, _, s'). step_post env a s s')"
      using Cons.prems assms(1) by (intro sm_task_step_safe) auto
    then obtain ctl err' dl' s' where st: "sm_task_step env (ticks i) err a s = Some (ctl, err', dl', s')"
        "step_post env a s s'"
      by (auto dest!: okD)
    moreover have "set as \<subseteq> set (kgni_sm_list s')"
      using st(2) Cons.prems(2,3) by (auto simp: step_post_def)
    ultimately show ?thesis
      using False Cons.prems(3) Cons.IH[of s' "i + 1" err' "dl \<or> dl'"]
      by (simp add: step_post_def split: loop_ctl.splits)
  qed
qed

lemma kgni_sm_task_safe:
  assumes "sm_inv env s" and "env_ok env"
  shows "ok (kgni_sm_task env ticks start s) (sm_inv env)"
proof -
  have d: "distinct (kgni_sm_list s)" using assms(1) by (simp add: sm_inv_def inv_task_def)
  have "ok (sm_task_loop env ticks start 0 (kgni_sm_list s) 0 False (s\<lparr>sm_work := False\<rparr>)) (\<lambda>(_, _, s'). sm_inv env s')"
    by (rule sm_task_loop_safe) (use assms d in simp_all)
  then show ?thesis by (auto simp: kgni_sm_task_def ok_bind case_prod_unfold dest!: okD)
qed

section \<open>Channel callbacks\<close>

lemma kgni_sm_chnl_event_safe:
  assumes inv: "sm_inv env s" and cookie: "cookie < KGNI_MAX_CDM_NUMBER env" "kgni_cdm_array s ! cookie \<noteq> None"
    and pkt: "pkt_id \<le> KGNI_MAX_SM_PKTS env" and c: "chnls s ch = Some c"
  shows "ok (kgni_sm_chnl_event env ch cookie pkt_id status s) (sm_inv env)"
proof -
  let ?n = "chnl_nic_hndl c"
  obtain nic where nic: "nics s ?n = Some nic" "nic_sm_chnl_hndl nic = Some ch" "nic_ready env c nic"
    using inv c unfolding sm_inv_def inv_chnl_def by blast
  then obtain ps where ps: "nic_sm_pkts nic = Some ps" "length ps = KGNI_MAX_SM_PKTS env + 1"
    by (auto simp: nic_ready_def split: option.splits)
  have arr: "length (kgni_cdm_array s) = KGNI_MAX_CDM_NUMBER env"
    using inv by (simp add: sm_inv_def inv_cdm_def)
  have pl: "pkt_id < length ps" using pkt ps by simp
  show ?thesis
  proof (cases "ps ! pkt_id")
    case None
    with inv cookie pkt c nic ps arr pl show ?thesis by (simp add: kgni_sm_chnl_event_def)
  next
    case (Some a)
    note sl = sm_inv_slot[OF inv nic(1) ps(1) pl Some]
    then obtain m where m: "sms s a = Some m" "sm_nic_hndl m = ?n" "sm_pkts_out m = 1" by blast
    have ma: "sm_ok m" "sm_active m" using sm_inv_session[OF inv m(1)] sl(1) by auto
    let ?upd = "\<lambda>m. let m = m\<lparr>sm_snd_status := status\<rparr>;
                    m = (if status \<noteq> GNI_RC_SUCCESS
                         then (let m = m\<lparr>sm_flags := insert KGNI_SM_FLAG_SEND_FAILED (sm_flags m)\<rparr>
                               in if sm_state_of m = KGNI_SM_STATE_TERMINATE_INIT
                                  then set_state KGNI_SM_STATE_TERMINATED m else m)
                         else m\<lparr>sm_snd_seq_num := sm_snd_seq_num m + 1\<rparr>)
                in m\<lparr>sm_pkts_out := sm_pkts_out m - 1\<rparr>"
    let ?ps = "ps[pkt_id := None]"
    have upd: "sm_nic_hndl (?upd m) = ?n" "sm_pkts_out (?upd m) = 0" "sm_ok (?upd m)" "sm_active (?upd m)"
      using m ma by (auto simp: Let_def sm_ok_def sm_active_def)
    have "sm_inv env (s\<lparr>sms := (sms s)(a \<mapsto> ?upd m), nics := (nics s)(?n \<mapsto> nic\<lparr>nic_sm_pkts := Some ?ps\<rparr>)\<rparr>)"
    proof (rule sm_inv_slot_upd[OF inv m(1,2) nic(1), where ps' = ?ps])
      show "nic_ready env c' (nic\<lparr>nic_sm_pkts := Some ?ps\<rparr>)"
        if "nic_sm_chnl_hndl nic = Some ch'" "chnls s ch' = Some c'" for ch' c'
        using that nic(2,3) c ps pl by (auto simp: nic_ready_def nth_list_update)
      fix k b assume h: "k < length ?ps" "?ps ! k = Some b"
      then have k: "k < length ps" "ps ! k = Some b" "k \<noteq> pkt_id"
        by (auto simp: nth_list_update_cases split: if_splits)
      note sb = sm_inv_slot[OF inv nic(1) ps(1) k(1,2)]
      have "b \<noteq> a" using onceD[OF sl(3) k(1)] k(2,3) by blast
      with sb once_clear[OF sb(3)] show "b \<in> set (kgni_sm_list s) \<and>
          (if b = a then sm_pkts_out (?upd m) = 1
           else \<exists>mb. sms s b = Some mb \<and> sm_nic_hndl mb = ?n \<and> sm_pkts_out mb = 1) \<and> once ?ps b k"
        by simp
    qed (use upd in simp_all)
    moreover have "upd_sm a ?upd (upd_nic ?n (\<lambda>k. k\<lparr>nic_sm_pkts := Some ?ps\<rparr>) s) =
        s\<lparr>sms := (sms s)(a \<mapsto> ?upd m), nics := (nics s)(?n \<mapsto> nic\<lparr>nic_sm_pkts := Some ?ps\<rparr>)\<rparr>"
      using m(1) nic(1) by (simp add: upd_sm_def upd_nic_def)
    ultimately show ?thesis
      using cookie pkt c nic ps arr pl Some m upd(2) by (simp add: kgni_sm_chnl_event_def ok_bind)
  qed
qed

end
