(* ===== verification/Session_Calls.thy ===== *)
theory Session_Calls
  imports Session_Worker
begin

text \<open>
  Safety of the receive callback and of the calls of the endpoint layer: terminating, probing,
  retrieving and posting a datagram, and the clean-up of a NIC.
\<close>

section \<open>Receiving\<close>

text \<open>A packet of a bound sender whose data fits, and what the allocator returns: NULL or a
  descriptor that is not in use.\<close>

definition pkt_ok :: "kgni_sm_pkt \<Rightarrow> bool" where
  "pkt_ok r \<longleftrightarrow> GNI_EP_BOUND (local_pe r) (local_inst_id r) \<and>
     length (local_udata r) = GNI_DATAGRAM_MAXSIZE \<and> unat (local_udata_size r) \<le> GNI_DATAGRAM_MAXSIZE"

definition mem_ok :: "(addr \<times> kgni_sm_info) option \<Rightarrow> kgni \<Rightarrow> bool" where
  "mem_ok mem s \<longleftrightarrow> (case mem of None \<Rightarrow> True | Some (a, raw) \<Rightarrow> sms s a = None \<and>
     length (local_udata (sm_pkt raw)) = GNI_DATAGRAM_MAXSIZE \<and> length (sm_rem_udata raw) = GNI_DATAGRAM_MAXSIZE)"

lemma sm_inv_cdm:
  assumes "sm_inv env s" and "i < KGNI_MAX_CDM_NUMBER env" and "kgni_cdm_array s ! i = Some d"
  shows "\<exists>cdm. cdms s d = Some cdm"
  using assms unfolding sm_inv_def inv_cdm_def not_None_eq by metis

lemma sm_inv_member:
  assumes "sm_inv env s" and "cdms s d = Some cdm" and "a \<in> set (cdm_sessions cdm)"
  shows "\<exists>m. sms s a = Some m"
  using assms unfolding sm_inv_def inv_sessions_def by blast

lemma take_rem_udata_sel [simp]:
  "sm_pkt (take_rem_udata r m) = sm_pkt m" "sm_nic_hndl (take_rem_udata r m) = sm_nic_hndl m"
  "sm_pkts_out (take_rem_udata r m) = sm_pkts_out m" "sm_flags (take_rem_udata r m) = sm_flags m"
  "sm_rem_udata_size (take_rem_udata r m) = local_udata_size r"
  "sm_rem_udata (take_rem_udata r m) = memcpy (sm_rem_udata m) (local_udata r) (unat (local_udata_size r))"
  by (simp_all add: take_rem_udata_def)

lemma rcv_commit_sel [simp]:
  "sm_pkt (rcv_commit r m) = (sm_pkt m)\<lparr>remote_gen := local_gen r\<rparr>"
  "sm_nic_hndl (rcv_commit r m) = sm_nic_hndl m" "sm_pkts_out (rcv_commit r m) = sm_pkts_out m"
  "sm_flags (rcv_commit r m) = sm_flags m"
  "sm_rem_udata (rcv_commit r m) = sm_rem_udata m" "sm_rem_udata_size (rcv_commit r m) = sm_rem_udata_size m"
  by (simp_all add: rcv_commit_def upd_pkt_def)

lemmas sm_keeps_defs = sm_keeps_def sm_ok_def sm_active_def

lemma rcv_matched_safe:
  assumes inv: "sm_inv env s" and d: "cdms s d = Some cdm" "a \<in> set (cdm_sessions cdm)"
    and c: "chnls s ch = Some c" and m: "sms s a = Some m" and r: "rcv_match m r" "pkt_ok r"
  shows "ok (rcv_matched d ch n a m r s) (\<lambda>res. \<forall>s'. res = Some s' \<longrightarrow> sm_inv env s')"
proof -
  have pe: "remote_pe (sm_pkt m) \<noteq> - 1"
    using r by (auto simp: rcv_match_def pkt_ok_def GNI_EP_BOUND_def)
  have okm: "sm_ok m" by (rule sm_inv_session(1)[OF inv m])
  have fits: "udata_fits r m" using okm r(2) by (simp add: udata_fits_def pkt_ok_def sm_ok_def)
  have len: "unat (local_udata_size r) \<le> GNI_DATAGRAM_MAXSIZE" "length (local_udata r) = GNI_DATAGRAM_MAXSIZE"
    using r(2) by (simp_all add: pkt_ok_def)
  have finish: "ok (kgni_notify_user ch a (upd_sm a (rcv_commit r \<circ> f) s))
      (\<lambda>s'. sm_inv env (wake_up_sm n s'))" if "sm_keeps (rcv_commit r \<circ> f) m" for f
  proof -
    have "sm_inv env (upd_sm a (rcv_commit r \<circ> f) s)"
      using that m by (intro sm_inv_upd_sm inv) simp
    from kgni_notify_user_safe[OF this, of ch c a] c m show ?thesis
      by (auto simp: prim_upd intro: ok_mono)
  qed
  let ?trm = "\<lambda>m. (set_state KGNI_SM_STATE_TERMINATED m)\<lparr>sm_flags := sm_flags m - unsent_flags\<rparr>"
  let ?comp = "\<lambda>m. set_state KGNI_SM_STATE_COMPLETED (take_rem_udata r m)"
  let ?both = "\<lambda>m. (?comp m)\<lparr>sm_flags := insert KGNI_SM_FLAG_STATE_CHANGED (sm_flags m)\<rparr>"
  have k: "sm_keeps (rcv_commit r \<circ> ?trm) m" "sm_keeps (rcv_commit r \<circ> ?comp) m"
    "sm_keeps (rcv_commit r \<circ> ?both) m"
    using pe len okm by (auto simp: sm_keeps_defs)
  have free: "\<not> on_smtask a s \<and> sm_inv env (free_session d a s)" if "sm_state_of m = KGNI_SM_STATE_REMINFO_READY"
  proof -
    have "\<not> on_smtask a s"
      using sm_inv_session(3)[OF inv m] that by (auto simp: on_smtask_def sm_active_def)
    with sm_inv_free_session[OF inv _ d] show ?thesis by blast
  qed
  let ?s = "upd_sm a (rcv_commit r \<circ> ?both) s"
  have "sm_inv env ?s" using k(3) m by (intro sm_inv_upd_sm inv) simp
  then have queued: "sm_inv env (if on_smtask a ?s then ?s else smtask_add a ?s)"
    using sm_inv_smtask_add[of env ?s a "(rcv_commit r \<circ> ?both) m"] m pe
    by (auto simp: prim_upd sm_active_def)
  show ?thesis
    unfolding rcv_matched_def Let_def
    using inv free queued finish[OF k(1)] finish[OF k(2)] fits
    by (auto simp: ok_bind if_distrib[of "sm_inv env"])
qed

lemma rcv_search_safe:
  assumes inv: "sm_inv env s" and d: "cdms s d = Some cdm" and c: "chnls s ch = Some c" and r: "pkt_ok r"
    and "set as \<subseteq> set (cdm_sessions cdm)"
    and "\<forall>a. opn = Some a \<longrightarrow> a \<in> set (cdm_sessions cdm) \<and> (\<exists>m. sms s a = Some m \<and> rcv_open m r)"
  shows "ok (rcv_search d ch n r as opn s) (\<lambda>res. case res of
      Inr s' \<Rightarrow> sm_inv env s'
    | Inl opn \<Rightarrow> \<forall>a. opn = Some a \<longrightarrow> a \<in> set (cdm_sessions cdm) \<and> (\<exists>m. sms s a = Some m \<and> rcv_open m r))"
  using assms(5,6)
proof (induction as arbitrary: opn)
  case Nil
  then show ?case by simp
next
  case (Cons a as)
  then have a: "a \<in> set (cdm_sessions cdm)" by simp
  then obtain m where m: "sms s a = Some m" using sm_inv_member[OF inv d] by blast
  show ?case
  proof (cases "rcv_match m r")
    case True
    obtain res where "rcv_matched d ch n a m r s = Some res" "\<forall>s'. res = Some s' \<longrightarrow> sm_inv env s'"
      using okD[OF rcv_matched_safe[OF inv d a c m True r]] by blast
    with True m Cons show ?thesis by (cases res) simp_all
  next
    case False
    with m Cons a show ?thesis by simp
  qed
qed

lemma rcv_open_idle:
  assumes "sm_inv env s" and "sms s a = Some m" and "rcv_open m r"
  shows "\<not> on_smtask a s"
  using sm_inv_session[OF assms(1,2)] assms(3)
  by (auto simp: rcv_open_def GNI_EP_BOUND_def sm_ok_def sm_active_def on_smtask_def)

lemma kgni_sm_chnl_rcv_safe:
  assumes inv: "sm_inv env s" and cookie: "cookie < KGNI_MAX_CDM_NUMBER env" "kgni_cdm_array s ! cookie = Some d"
    and c: "chnls s ch = Some c" and nic: "nics s (chnl_nic_hndl c) = Some nic"
      "nic_cdm_id nic \<noteq> GNI_CDM_INVALID_ID" "cookie = unat (nic_cdm_id nic)"
    and r: "pkt_ok r" and mem: "mem_ok mem s"
  shows "ok (kgni_sm_chnl_rcv env mem ch cookie r len_ok s) (\<lambda>(_, s'). sm_inv env s')"
proof -
  obtain cdm where cdm: "cdms s d = Some cdm" using sm_inv_cdm[OF inv cookie] by blast
  let ?n = "chnl_nic_hndl c"
  have arr: "length (kgni_cdm_array s) = KGNI_MAX_CDM_NUMBER env"
    using inv by (simp add: sm_inv_def inv_cdm_def)
  obtain res where res: "rcv_search d ch ?n r (cdm_sessions cdm) None s = Some res"
    "case res of Inr s' \<Rightarrow> sm_inv env s'
     | Inl opn \<Rightarrow> \<forall>a. opn = Some a \<longrightarrow> a \<in> set (cdm_sessions cdm) \<and> (\<exists>m. sms s a = Some m \<and> rcv_open m r)"
    using okD[OF rcv_search_safe[OF inv cdm c r, of "cdm_sessions cdm" None ?n]] by auto
  have len: "unat (local_udata_size r) \<le> GNI_DATAGRAM_MAXSIZE" "length (local_udata r) = GNI_DATAGRAM_MAXSIZE"
    "local_pe r \<noteq> - 1" "local_inst_id r \<noteq> - 1"
    using r by (simp_all add: pkt_ok_def GNI_EP_BOUND_def)
  have opened: "udata_fits r m \<and> \<not> on_smtask a s \<and> sm_inv env (smtask_add a (upd_sm a (rcv_bind_open r) s))"
    if a: "a \<in> set (cdm_sessions cdm)" and m: "sms s a = Some m" "rcv_open m r" for a m
  proof -
    have okm: "sm_ok m" by (rule sm_inv_session(1)[OF inv m(1)])
    have off: "\<not> on_smtask a s" by (rule rcv_open_idle[OF inv m])
    have "sm_inv env (upd_sm a (rcv_bind_open r) s)"
      using m okm len by (intro sm_inv_upd_sm inv) (auto simp: sm_keeps_defs rcv_bind_open_def upd_pkt_def)
    then have "sm_inv env (smtask_add a (upd_sm a (rcv_bind_open r) s))"
      by (rule sm_inv_smtask_add[where m = "rcv_bind_open r m"])
        (use off m len in \<open>simp_all add: prim_upd sm_active_def rcv_bind_open_def upd_pkt_def\<close>)
    with off okm len show ?thesis by (simp add: udata_fits_def sm_ok_def)
  qed
  have fresh: "udata_fits r raw \<and> sm_inv env (add_session d a (rcv_new_session cdm nic ?n g r raw)
      (s\<lparr>sm_generation := g'\<rparr>))" if "mem = Some (a, raw)" for a raw g g'
  proof -
    have raw: "sms s a = None" "length (local_udata (sm_pkt raw)) = GNI_DATAGRAM_MAXSIZE"
        "length (sm_rem_udata raw) = GNI_DATAGRAM_MAXSIZE"
      using mem that by (simp_all add: mem_ok_def)
    have "sm_inv env (add_session d a (rcv_new_session cdm nic ?n g r raw) (s\<lparr>sm_generation := g'\<rparr>))"
      by (rule sm_inv_add_session[where c = cdm])
        (use raw len nic cdm inv cookie in \<open>simp_all add: sm_ok_def rcv_new_session_def\<close>)
    with raw len show ?thesis by (simp add: udata_fits_def)
  qed
  show ?thesis
  proof (cases res)
    case (Inr s')
    with res inv cookie c cdm nic(1) arr show ?thesis by (simp add: kgni_sm_chnl_rcv_def)
  next
    case (Inl opn)
    show ?thesis
    proof (cases opn)
      case None
      with Inl res inv cookie c cdm nic(1) arr fresh show ?thesis
        by (auto simp: kgni_sm_chnl_rcv_def split: option.splits)
    next
      case (Some a)
      with Inl res(2) obtain m where "a \<in> set (cdm_sessions cdm)" "sms s a = Some m" "rcv_open m r" by auto
      with opened Some Inl res(1) inv cookie c cdm nic(1) arr show ?thesis
        by (simp add: kgni_sm_chnl_rcv_def)
    qed
  qed
qed

section \<open>Calls of the endpoint layer\<close>

text \<open>An endpoint address is complete, or names no remote PE.\<close>

definition ep_addr_ok :: "u32 \<Rightarrow> u32 \<Rightarrow> bool" where
  "ep_addr_ok pe inst \<longleftrightarrow> pe = - 1 \<or> inst \<noteq> - 1"

lemma ep_addr_unbound: "ep_addr_ok pe inst \<Longrightarrow> \<not> GNI_EP_BOUND pe inst \<Longrightarrow> pe = - 1"
  by (auto simp: ep_addr_ok_def GNI_EP_BOUND_def)

text \<open>The translation keeps ``any'' and never makes it up; it fails only for a virtual PE outside the group.\<close>

lemma ntt_translate_cases:
  assumes "env_ok env"
  shows "ntt_translate env nic cond pe = Inl (- ENXIO) \<or>
    (\<exists>pe' v. ntt_translate env nic cond pe = Inr (pe', v) \<and> (pe \<noteq> - 1 \<longrightarrow> pe' \<noteq> - 1) \<and>
       (\<not> cond \<longrightarrow> pe' = pe))"
  using env_okD(3)[OF assms] by (auto simp: ntt_translate_def Let_def)

lemma sm_inv_cdm_of_id:
  assumes "sm_inv env s" and "nics s n = Some nic" and "nic_cdm_id nic \<noteq> GNI_CDM_INVALID_ID"
  shows "ok (cdm_of_id (nic_cdm_id nic) s) (\<lambda>dp. \<forall>d. dp = Some d \<longrightarrow> (\<exists>cdm. cdms s d = Some cdm))"
proof -
  have "unat (nic_cdm_id nic) < length (kgni_cdm_array s)"
    using assms unfolding sm_inv_def inv_cdm_def by metis
  moreover have "length (kgni_cdm_array s) = KGNI_MAX_CDM_NUMBER env"
    using assms(1) by (simp add: sm_inv_def inv_cdm_def)
  ultimately show ?thesis
    using sm_inv_cdm[OF assms(1)] by (simp add: cdm_of_id_def)
qed

lemma terminate_loop_safe:
  assumes inv: "sm_inv env s" and d: "cdms s d = Some cdm" and ch: "chp = Some ch" "chnls s ch = Some c"
    and attr: "if bound then pc_remote_pe attr \<noteq> - 1 else pc_remote_pe attr = - 1"
    and "set as \<subseteq> set (cdm_sessions cdm)"
  shows "ok (terminate_loop d chp bound (\<not> bound) attr as s) (\<lambda>(_, s'). sm_inv env s')"
  using assms(6)
proof (induction as)
  case Nil
  with inv show ?case by simp
next
  case (Cons a as)
  then have a: "a \<in> set (cdm_sessions cdm)" by simp
  then obtain m where m: "sms s a = Some m" using sm_inv_member[OF inv d] by blast
  let ?cnt = "\<lambda>c. c\<lparr>datagram_cnt_kern := map_option (\<lambda>x. x + 1) (datagram_cnt_kern c)\<rparr>"
  have opn: "sm_inv env (free_session d a (upd_chnl ch ?cnt s))" if "remote_pe (sm_pkt m) = - 1"
  proof -
    have "\<not> on_smtask a s" using sm_inv_session(3)[OF inv m] that by (auto simp: on_smtask_def sm_active_def)
    moreover have "sm_inv env (upd_chnl ch ?cnt s)" by (rule sm_inv_upd_chnl[OF inv]) simp
    ultimately show ?thesis using d a by (intro sm_inv_free_session) simp_all
  qed
  let ?s = "upd_sm a mark_terminate s"
  have mark: "sm_inv env (if on_smtask a ?s then ?s else smtask_add a ?s)" if "remote_pe (sm_pkt m) \<noteq> - 1"
  proof -
    have i: "sm_inv env ?s"
      using m that by (intro sm_inv_upd_sm inv) (auto simp: sm_keeps_defs mark_terminate_def)
    with sm_inv_smtask_add[OF i, of a "mark_terminate m"] m that show ?thesis
      by (simp add: prim_upd sm_active_def mark_terminate_def)
  qed
  show ?case
  proof (cases bound)
    case True
    with Cons m mark attr show ?thesis by (auto simp: match_post_def Let_def)
  next
    case False
    with Cons m mark opn attr ch show ?thesis by (auto simp: match_post_def Let_def)
  qed
qed

lemma kgni_sm_terminate_safe:
  assumes inv: "sm_inv env s" and env: "env_ok env"
    and nic: "nics s n = Some nic" "nic_sm_chnl_hndl nic \<noteq> None"
    and attr: "ep_addr_ok (pc_remote_pe attr) (pc_remote_id attr)"
  shows "ok (kgni_sm_terminate env n attr s) (\<lambda>(_, s'). sm_inv env s')"
proof (cases "nic_cdm_id nic = GNI_CDM_INVALID_ID")
  case True
  with nic inv show ?thesis by (simp add: kgni_sm_terminate_def)
next
  case False
  obtain dp where dp: "cdm_of_id (nic_cdm_id nic) s = Some dp" "\<forall>d. dp = Some d \<longrightarrow> (\<exists>cdm. cdms s d = Some cdm)"
    using okD[OF sm_inv_cdm_of_id[OF inv nic(1) False]] by blast
  obtain ch where ch: "nic_sm_chnl_hndl nic = Some ch" using nic(2) by blast
  obtain c where c: "chnls s ch = Some c" using sm_inv_attached[OF inv nic(1) ch] by blast
  let ?bound = "GNI_EP_BOUND (pc_remote_pe attr) (pc_remote_id attr)"
  have loop: "ok (terminate_loop d (Some ch) ?bound (\<not> ?bound) (attr\<lparr>pc_remote_pe := pe'\<rparr>) (cdm_sessions cdm) s)
      (\<lambda>(_, s'). sm_inv env s')"
    if "cdms s d = Some cdm" and "pc_remote_pe attr \<noteq> - 1 \<longrightarrow> pe' \<noteq> - 1"
      and "pc_remote_pe attr = - 1 \<longrightarrow> pe' = - 1" for d cdm pe'
  proof (rule terminate_loop_safe[OF inv that(1) refl c _ order_refl])
    show "if ?bound then pc_remote_pe (attr\<lparr>pc_remote_pe := pe'\<rparr>) \<noteq> - 1 else pc_remote_pe (attr\<lparr>pc_remote_pe := pe'\<rparr>) = - 1"
    proof (cases ?bound)
      case True
      then have "pc_remote_pe attr \<noteq> - 1" by (simp add: GNI_EP_BOUND_def)
      with True that(2) show ?thesis by simp
    next
      case False
      then have "pc_remote_pe attr = - 1" by (rule ep_addr_unbound[OF attr])
      with False that(3) show ?thesis by simp
    qed
  qed
  show ?thesis
  proof (cases dp)
    case None
    with dp(1) nic(1) False inv show ?thesis by (simp add: kgni_sm_terminate_def)
  next
    case (Some d)
    with dp(2) obtain cdm where cdm: "cdms s d = Some cdm" by blast
    let ?tr = "ntt_translate env nic (pc_remote_pe attr \<noteq> - 1) (pc_remote_pe attr)"
    consider "?tr = Inl (- ENXIO)" | pe' v where "?tr = Inr (pe', v)" "pc_remote_pe attr \<noteq> - 1 \<longrightarrow> pe' \<noteq> - 1"
        "pc_remote_pe attr = - 1 \<longrightarrow> pe' = - 1"
      using ntt_translate_cases[OF env, of nic "pc_remote_pe attr \<noteq> - 1" "pc_remote_pe attr"] by force
    then show ?thesis
      by cases (use loop[OF cdm] dp(1) Some cdm nic(1) False ch inv in \<open>simp_all add: kgni_sm_terminate_def Let_def\<close>)
  qed
qed

lemma probe_loop_safe:
  assumes "sm_inv env s" and "cdms s d = Some cdm" and "set as \<subseteq> set (cdm_sessions cdm)"
  shows "ok (probe_loop env nic by_id as attr s) (\<lambda>_. True)"
  using assms(3)
proof (induction as)
  case (Cons a as)
  then obtain m where "sms s a = Some m" using sm_inv_member[OF assms(1,2)] by auto
  with Cons show ?case by (cases by_id) (simp_all add: Let_def)
qed simp

lemma kgni_sm_probe_state_safe:
  assumes "sm_inv env s" and "nics s n = Some nic"
  shows "ok (kgni_sm_probe_state env n attr s) (\<lambda>_. True)"
proof (cases "nic_cdm_id nic = GNI_CDM_INVALID_ID")
  case False
  show ?thesis
    using sm_inv_cdm_of_id[OF assms False] assms probe_loop_safe[OF assms(1)] False
    by (auto simp: kgni_sm_probe_state_def dest!: okD split: option.splits)
qed (simp add: kgni_sm_probe_state_def assms)

lemma gs_take_safe:
  assumes inv: "sm_inv env (gs_k v)" and m: "sms (gs_k v) a = Some m"
    and ch: "chp = Some ch" "chnls (gs_k v) ch = Some c"
  shows "ok (gs_take usr chp a m v) (\<lambda>v'. sm_inv env (gs_k v') \<and> sms (gs_k v') = sms (gs_k v) \<and>
    cdms (gs_k v') = cdms (gs_k v) \<and> kgni_sm_list (gs_k v') = kgni_sm_list (gs_k v) \<and>
    pt_remote_pe (gs_attr v') = remote_pe (sm_pkt m) \<and>
    (gs_free v' \<longrightarrow> gs_free v \<or> \<not> on_smtask a (gs_k v)))"
proof -
  have len: "unat (sm_rem_udata_size m) \<le> length (sm_rem_udata m)" "unat (sm_rem_udata_size m) \<le> GNI_DATAGRAM_MAXSIZE"
    using sm_inv_session(1)[OF inv m] by (simp_all add: sm_ok_def)
  have cnt: "sm_inv env (upd_chnl ch (\<lambda>c. c\<lparr>datagram_cnt_kern := map_option (\<lambda>x. x - 1) (datagram_cnt_kern c)\<rparr>) (gs_k v))"
    by (rule sm_inv_upd_chnl[OF inv]) simp
  show ?thesis
    using inv ch cnt len by (simp add: gs_take_def Let_def)
qed

lemma gs_ntt_safe:
  assumes inv: "sm_inv env (gs_k v)" and m: "sms (gs_k v) a = Some m"
    and pe: "pt_remote_pe (gs_attr v) \<noteq> - 1" and res: "gs_ntt env nic a m v = (ctl, v')"
  shows "sm_inv env (gs_k v') \<and> cdms (gs_k v') = cdms (gs_k v) \<and> kgni_sm_list (gs_k v') = kgni_sm_list (gs_k v) \<and>
    gs_free v' = gs_free v \<and> (ctl = GsContinue \<longrightarrow> pt_remote_pe (gs_attr v') \<noteq> - 1) \<and> ctl \<noteq> GsBreak"
proof -
  have "sm_inv env (upd_sm a (\<lambda>m. m\<lparr>sm_virt_remote_pe := x\<rparr>) (gs_k v))" for x
    by (rule sm_inv_upd_sm[OF inv]) (simp add: sm_keeps_defs)
  with inv pe res show ?thesis by (auto simp: gs_ntt_def Let_def split: if_splits)
qed

text \<open>A matching session ends the search or is left as it is.\<close>

lemma gs_step_safe:
  assumes inv: "sm_inv env (gs_k v)" and d: "cdms (gs_k v) d = Some cdm" "a \<in> set (cdm_sessions cdm)"
    and m: "sms (gs_k v) a = Some m"
    and ch: "nic_sm_chnl_hndl nic = Some ch" "chnls (gs_k v) ch = Some c" and nf: "\<not> gs_free v"
  shows "ok (gs_step env nic d a m v) (\<lambda>(ctl, v'). sm_inv env (gs_k v') \<and>
    (ctl = GsContinue \<longrightarrow> gs_k v' = gs_k v \<and> \<not> gs_free v'))"
proof -
  let ?v = "v\<lparr>gs_attr := (gs_attr v)\<lparr>pt_state := post_state_of (sm_state_of m)\<rparr>, gs_retval := 0\<rparr>"
  show ?thesis
  proof (cases "sm_final (sm_state_of m) \<or> sm_state_of m = KGNI_SM_STATE_REMINFO_READY")
    case False
    with inv nf show ?thesis by (simp add: gs_step_def Let_def)
  next
    case True
    then have pe: "remote_pe (sm_pkt m) \<noteq> - 1"
      using sm_inv_session(1)[OF inv m] by (auto simp: sm_ok_def sm_final_def)
    obtain v1 where v1: "gs_take (nic_cdm_type nic \<noteq> GNI_CDM_TYPE_KERNEL) (nic_sm_chnl_hndl nic) a m ?v = Some v1"
        "sm_inv env (gs_k v1)" "sms (gs_k v1) = sms (gs_k v)" "cdms (gs_k v1) = cdms (gs_k v)"
        "kgni_sm_list (gs_k v1) = kgni_sm_list (gs_k v)" "pt_remote_pe (gs_attr v1) = remote_pe (sm_pkt m)"
        "gs_free v1 \<longrightarrow> \<not> on_smtask a (gs_k v)"
      using okD[OF gs_take_safe[of env ?v a m "nic_sm_chnl_hndl nic" ch c "nic_cdm_type nic \<noteq> GNI_CDM_TYPE_KERNEL"]]
        inv m ch nf by auto
    obtain ctl v2 where v2: "gs_ntt env nic a m v1 = (ctl, v2)" by fastforce
    have n: "sm_inv env (gs_k v2)" "cdms (gs_k v2) = cdms (gs_k v)"
        "kgni_sm_list (gs_k v2) = kgni_sm_list (gs_k v)" "gs_free v2 = gs_free v1"
        "ctl = GsContinue \<longrightarrow> pt_remote_pe (gs_attr v2) \<noteq> - 1" "ctl \<noteq> GsBreak"
      using gs_ntt_safe[OF v1(2) _ _ v2] v1(3-6) m pe by auto
    have "sm_inv env (free_session d a (gs_k v2))" if "gs_free v2"
      using that v1(7) n d by (intro sm_inv_free_session) (auto simp: on_smtask_def)
    with True v1(1) v2 n show ?thesis
      by (cases ctl) (auto simp: gs_step_def Let_def)
  qed
qed

lemma gs_loop_safe:
  assumes "sm_inv env (gs_k v)" and "cdms (gs_k v) d = Some cdm" and "set as \<subseteq> set (cdm_sessions cdm)"
    and "nic_sm_chnl_hndl nic = Some ch" and "chnls (gs_k v) ch = Some c" and "\<not> gs_free v"
  shows "ok (gs_loop env nic d by_id as v) (\<lambda>(_, v'). sm_inv env (gs_k v'))"
  using assms
proof (induction as arbitrary: v)
  case Nil
  then show ?case by simp
next
  case (Cons a as)
  then have a: "a \<in> set (cdm_sessions cdm)" by simp
  then obtain m where m: "sms (gs_k v) a = Some m" using sm_inv_member Cons.prems(1,2) by blast
  obtain ctl v' where st: "gs_step env nic d a m v = Some (ctl, v')" "sm_inv env (gs_k v')"
      "ctl = GsContinue \<longrightarrow> gs_k v' = gs_k v \<and> \<not> gs_free v'"
    using okD[OF gs_step_safe[OF Cons.prems(1,2) a m Cons.prems(4-6)]] by auto
  show ?case
    using Cons.prems m st Cons.IH[of v] Cons.IH[of v'] by (cases ctl) simp_all
qed

lemma kgni_sm_get_state_safe:
  assumes inv: "sm_inv env s" and env: "env_ok env" and nic: "nics s n = Some nic" "nic_sm_chnl_hndl nic \<noteq> None"
  shows "ok (kgni_sm_get_state env n attr s) (\<lambda>(_, _, _, s'). sm_inv env s')"
proof (cases "nic_cdm_id nic = GNI_CDM_INVALID_ID")
  case True
  with nic inv show ?thesis by (simp add: kgni_sm_get_state_def Let_def)
next
  case False
  obtain dp where dp: "cdm_of_id (nic_cdm_id nic) s = Some dp" "\<forall>d. dp = Some d \<longrightarrow> (\<exists>cdm. cdms s d = Some cdm)"
    using okD[OF sm_inv_cdm_of_id[OF inv nic(1) False]] by blast
  obtain ch where ch: "nic_sm_chnl_hndl nic = Some ch" using nic(2) by blast
  obtain c where c: "chnls s ch = Some c" using sm_inv_attached[OF inv nic(1) ch] by blast
  obtain pr where pr: "kgni_sm_probe_state env n attr s = Some pr"
    using okD[OF kgni_sm_probe_state_safe[OF inv nic(1)]] by blast
  show ?thesis
  proof (cases dp)
    case None
    with dp(1) nic(1) False inv show ?thesis by (simp add: kgni_sm_get_state_def Let_def)
  next
    case (Some d)
    with dp(2) obtain cdm where cdm: "cdms s d = Some cdm" by blast
    have loop: "\<exists>early v. gs_loop env nic d by_id (cdm_sessions cdm)
         \<lparr>gs_retval = r, gs_attr = at, gs_out = [], gs_free = False, gs_k = s\<rparr> = Some (early, v) \<and> sm_inv env (gs_k v)"
      for by_id r at
      using okD[OF gs_loop_safe[of env "\<lparr>gs_retval = r, gs_attr = at, gs_out = [], gs_free = False, gs_k = s\<rparr>" d cdm
        "cdm_sessions cdm" nic ch c by_id]] inv cdm ch c by auto
    show ?thesis
    proof (cases "pt_modes attr AND GNI_EP_PDT_MODE_PROBE \<noteq> 0")
      case True
      with pr dp(1) Some nic(1) False inv show ?thesis
        by (simp add: kgni_sm_get_state_def Let_def case_prod_unfold)
    next
      case np: False
      let ?bound = "GNI_EP_BOUND (pt_remote_pe attr) (pt_remote_id attr)"
      show ?thesis
      proof (cases "ntt_translate env nic ?bound (pt_remote_pe attr)")
        case (Inl e)
        with np dp(1) Some nic(1) False inv show ?thesis
          by (simp add: kgni_sm_get_state_def Let_def)
      next
        case (Inr pv)
        obtain early v where "gs_loop env nic d (pt_modes attr AND GNI_EP_PDT_MODE_USE_POST_ID \<noteq> 0) (cdm_sessions cdm)
           \<lparr>gs_retval = - ESRCH, gs_attr = attr\<lparr>pt_remote_pe := fst pv\<rparr>, gs_out = [], gs_free = False, gs_k = s\<rparr>
             = Some (early, v)" "sm_inv env (gs_k v)"
          using loop by blast
        with Inr np dp(1) Some cdm nic(1) False inv show ?thesis
          by (cases early) (simp_all add: kgni_sm_get_state_def Let_def case_prod_unfold)
      qed
    qed
  qed
qed

lemma set_local_udata_sel [simp]:
  "sm_nic_hndl (set_local_udata buf len m) = sm_nic_hndl m" "sm_pkts_out (set_local_udata buf len m) = sm_pkts_out m"
  "sm_rem_udata (set_local_udata buf len m) = sm_rem_udata m"
  "sm_rem_udata_size (set_local_udata buf len m) = sm_rem_udata_size m"
  "sm_state_of (set_local_udata buf len m) = sm_state_of m"
  "remote_pe (sm_pkt (set_local_udata buf len m)) = remote_pe (sm_pkt m)"
  "remote_inst_id (sm_pkt (set_local_udata buf len m)) = remote_inst_id (sm_pkt m)"
  by (simp_all add: set_local_udata_def upd_pkt_def split: option.splits)

lemma set_local_udata_length:
  assumes "\<And>bs. buf = Some bs \<Longrightarrow> length bs = unat len" and "local_fits buf len m"
  shows "length (local_udata (sm_pkt (set_local_udata buf len m))) = length (local_udata (sm_pkt m))"
  using assms by (auto simp: set_local_udata_def upd_pkt_def local_fits_def split: option.splits)

text \<open>The data the caller hands over has been copied to a buffer of its length.\<close>

definition buf_ok :: "u8 list option \<Rightarrow> u16 \<Rightarrow> bool" where
  "buf_ok buf len \<longleftrightarrow> unat len \<le> GNI_DATAGRAM_MAXSIZE \<and> (\<forall>bs. buf = Some bs \<longrightarrow> length bs = unat len)"

lemma complete_reminfo_sel [simp]:
  "sm_nic_hndl (complete_reminfo buf virt attr m) = sm_nic_hndl m"
  "sm_pkts_out (complete_reminfo buf virt attr m) = sm_pkts_out m"
  "sm_rem_udata (complete_reminfo buf virt attr m) = sm_rem_udata m"
  "sm_rem_udata_size (complete_reminfo buf virt attr m) = sm_rem_udata_size m"
  "sm_pkt (complete_reminfo buf virt attr m) =
     (sm_pkt (set_local_udata buf (pd_in_data_len attr) m))\<lparr>pkt_state := KGNI_SM_STATE_COMPLETED\<rparr>"
  by (simp_all add: complete_reminfo_def Let_def)

lemma add_search_safe:
  assumes inv: "sm_inv env s" and d: "cdms s d = Some cdm" and buf: "buf_ok buf (pd_in_data_len attr)"
    and "set as \<subseteq> set (cdm_sessions cdm)"
  shows "ok (add_search buf virt bound attr as s) (\<lambda>res. \<forall>e s'. res = Inl (e, s') \<longrightarrow> sm_inv env s')"
  using assms(4)
proof (induction as)
  case Nil
  then show ?case by simp
next
  case (Cons a as)
  then have a: "a \<in> set (cdm_sessions cdm)" by simp
  then obtain m where m: "sms s a = Some m" using sm_inv_member[OF inv d] by blast
  have okm: "sm_ok m" by (rule sm_inv_session(1)[OF inv m])
  let ?f = "complete_reminfo buf virt attr"
  have take: "local_fits buf (pd_in_data_len attr) m \<and> \<not> on_smtask a s \<and> sm_inv env (smtask_add a (upd_sm a ?f s))"
    if r: "sm_state_of m = KGNI_SM_STATE_REMINFO_READY"
  proof -
    have fits: "local_fits buf (pd_in_data_len attr) m"
      using buf okm by (simp add: local_fits_def buf_ok_def sm_ok_def)
    have pe: "remote_pe (sm_pkt m) \<noteq> - 1" using okm r by (auto simp: sm_ok_def)
    have off: "\<not> on_smtask a s"
      using sm_inv_session(3)[OF inv m] r by (auto simp: on_smtask_def sm_active_def)
    have l: "length (local_udata (sm_pkt (set_local_udata buf (pd_in_data_len attr) m))) = GNI_DATAGRAM_MAXSIZE"
      using set_local_udata_length[OF _ fits] buf okm by (auto simp: buf_ok_def sm_ok_def)
    have "sm_inv env (upd_sm a ?f s)"
      using m okm pe l by (intro sm_inv_upd_sm inv) (auto simp: sm_keeps_defs)
    then have "sm_inv env (smtask_add a (upd_sm a ?f s))"
      by (rule sm_inv_smtask_add[where m = "?f m"])
        (use off m pe in \<open>simp_all add: prim_upd sm_active_def\<close>)
    with fits off show ?thesis by blast
  qed
  show ?case
  proof (cases "sm_state_of m = KGNI_SM_STATE_REMINFO_READY \<and> (\<not> bound \<or>
      pd_remote_pe attr = remote_pe (sm_pkt m) \<and> pd_remote_id attr = remote_inst_id (sm_pkt m))")
    case True
    with take m show ?thesis by (simp add: Let_def)
  next
    case False
    with Cons m inv show ?thesis by (auto simp: Let_def)
  qed
qed

lemma new_session_ok:
  assumes "buf_ok buf (pd_in_data_len attr)" and "length (local_udata (sm_pkt raw)) = GNI_DATAGRAM_MAXSIZE"
    and "length (sm_rem_udata raw) = GNI_DATAGRAM_MAXSIZE" and "ep_addr_ok (pd_remote_pe attr) (pd_remote_id attr)"
  shows "local_fits buf (pd_in_data_len attr) raw" and "sm_ok (new_session cdm nic n gen buf virt attr raw)"
    and "pd_remote_pe attr \<noteq> - 1 \<Longrightarrow> sm_active (new_session cdm nic n gen buf virt attr raw)"
    and "sm_nic_hndl (new_session cdm nic n gen buf virt attr raw) = n"
proof -
  show fits: "local_fits buf (pd_in_data_len attr) raw" using assms by (simp add: local_fits_def buf_ok_def)
  show "sm_ok (new_session cdm nic n gen buf virt attr raw)"
    using assms fits by (auto simp: sm_ok_def new_session_def set_local_udata_length buf_ok_def local_fits_def ep_addr_ok_def)
  show "sm_active (new_session cdm nic n gen buf virt attr raw)" if "pd_remote_pe attr \<noteq> - 1"
    using that by (simp add: sm_active_def new_session_def)
  show "sm_nic_hndl (new_session cdm nic n gen buf virt attr raw) = n" by (simp add: new_session_def)
qed

lemma add_locked_safe:
  assumes inv: "sm_inv env s" and cdm: "cdms s d = Some cdm" and nic: "nics s n = Some nic"
    and nic': "nic_cdm_id nic \<noteq> GNI_CDM_INVALID_ID" "kgni_cdm_array s ! unat (nic_cdm_id nic) = Some d"
    and buf: "buf_ok buf (pd_in_data_len attr)" and attr: "ep_addr_ok (pd_remote_pe attr) (pd_remote_id attr)"
    and mem: "mem_ok mem s"
  shows "ok (add_locked mem n nic d buf virt bound attr s) (\<lambda>(_, s'). sm_inv env s')"
proof -
  obtain res where res: "add_search buf virt bound attr (cdm_sessions cdm) s = Some res"
      "\<forall>e s'. res = Inl (e, s') \<longrightarrow> sm_inv env s'"
    using okD[OF add_search_safe[OF inv cdm buf order_refl]] by blast
  have new: "local_fits buf (pd_in_data_len attr) raw \<and> sm_inv env (if pd_remote_pe attr \<noteq> - 1
      then smtask_add a (add_session d a (new_session cdm nic n g buf virt attr raw) (s\<lparr>sm_generation := g'\<rparr>))
      else add_session d a (new_session cdm nic n g buf virt attr raw) (s\<lparr>sm_generation := g'\<rparr>))"
    if "mem = Some (a, raw)" for a raw g g'
  proof -
    let ?m = "new_session cdm nic n g buf virt attr raw" and ?s = "s\<lparr>sm_generation := g'\<rparr>"
    have fr: "sms s a = None" and raw: "length (local_udata (sm_pkt raw)) = GNI_DATAGRAM_MAXSIZE"
        "length (sm_rem_udata raw) = GNI_DATAGRAM_MAXSIZE"
      using mem that by (simp_all add: mem_ok_def)
    note nm = new_session_ok[OF buf raw attr]
    have i: "sm_inv env (add_session d a ?m ?s)"
      by (rule sm_inv_add_session[where c = cdm]) (use inv fr cdm nic nic' nm(2,4) in simp_all)
    have off: "\<not> on_smtask a s" using inv fr by (auto simp: on_smtask_def sm_inv_def inv_task_def)
    have "sm_inv env (smtask_add a (add_session d a ?m ?s))" if "pd_remote_pe attr \<noteq> - 1"
      by (rule sm_inv_smtask_add[OF i, where m = ?m])
        (use off nm(3)[OF that] in \<open>simp_all add: on_smtask_def prim_upd\<close>)
    with i nm(1) show ?thesis by simp
  qed
  show ?thesis
    using res cdm new inv by (auto simp: add_locked_def Let_def split: option.splits sum.splits)
qed

lemma kgni_sm_add_session_safe:
  assumes inv: "sm_inv env s" and env: "env_ok env" and nic: "nics s n = Some nic"
    and attr: "ep_addr_ok (pd_remote_pe attr) (pd_remote_id attr)" and mem: "mem_ok mem s"
  shows "ok (kgni_sm_add_session env mem n attr s) (\<lambda>(_, s'). sm_inv env s')"
proof (cases "nic_cdm_id nic = GNI_CDM_INVALID_ID")
  case True
  with nic inv show ?thesis by (simp add: kgni_sm_add_session_def Let_def)
next
  case False
  obtain dp where dp: "cdm_of_id (nic_cdm_id nic) s = Some dp" "\<forall>d. dp = Some d \<longrightarrow> (\<exists>cdm. cdms s d = Some cdm)"
    using okD[OF sm_inv_cdm_of_id[OF inv nic(1) False]] by blast
  let ?tr = "ntt_translate env nic (pd_remote_pe attr \<noteq> - 1) (pd_remote_pe attr)"
  show ?thesis
  proof (cases "dp = None \<or> unat (pd_in_data_len attr) > GNI_DATAGRAM_MAXSIZE \<or> (\<exists>e. ?tr = Inl e)")
    case True
    with dp(1) nic False inv show ?thesis
      by (auto simp: kgni_sm_add_session_def Let_def split: option.splits)
  next
    case ok: False
    then obtain d pe' v where d: "dp = Some d" and tr: "?tr = Inr (pe', v)" by (cases ?tr) auto
    with dp(2) obtain cdm where cdm: "cdms s d = Some cdm" by blast
    have arr: "kgni_cdm_array s ! unat (nic_cdm_id nic) = Some d"
      using dp(1) d by (simp add: cdm_of_id_def array_get_Some_iff)
    have pe: "ep_addr_ok pe' (pd_remote_id attr)"
      using ntt_translate_cases[OF env, of nic "pd_remote_pe attr \<noteq> - 1" "pd_remote_pe attr"] tr attr
      by (auto simp: ep_addr_ok_def)
    let ?buf = "map_option (\<lambda>f. map f [0..<unat (pd_in_data_len attr)]) (pd_in_data attr)"
    have "buf_ok ?buf (pd_in_data_len attr)" using ok by (auto simp: buf_ok_def)
    with pe have "ok (add_locked mem n nic d ?buf v b (attr\<lparr>pd_remote_pe := pe'\<rparr>) s) (\<lambda>(_, s'). sm_inv env s')" for b
      by (intro add_locked_safe[OF inv cdm nic False arr _ _ mem]) simp_all
    with dp(1) d nic False inv tr ok show ?thesis by (simp add: kgni_sm_add_session_def Let_def)
  qed
qed

section \<open>Cleaning up\<close>

text \<open>What is left of the sessions when those of a NIC on a list are freed.\<close>

definition without :: "addr \<Rightarrow> addr set \<Rightarrow> (addr \<rightharpoonup> kgni_sm_info) \<Rightarrow> (addr \<rightharpoonup> kgni_sm_info)" where
  "without n A sm = (\<lambda>a. if a \<in> A \<and> (\<exists>m. sm a = Some m \<and> sm_nic_hndl m = n) then None else sm a)"

lemma cleanup_loop_upd_nic:
  "cleanup_loop n d as (upd_nic k g s) = map_option (upd_nic k g) (cleanup_loop n d as s)"
proof (induction as arbitrary: s)
  case (Cons a as)
  have "on_smtask a (upd_nic k g s) = on_smtask a s"
    "free_session d a (upd_nic k g s) = upd_nic k g (free_session d a s)"
    "free_session d a (wake_up_sm n (smtask_del a (upd_nic k g s))) =
       upd_nic k g (free_session d a (wake_up_sm n (smtask_del a s)))" for s
    by (simp_all add: on_smtask_def free_session_def upd_cdm_def upd_nic_def wake_up_sm_def smtask_del_def)
  with Cons show ?case by (auto simp: Let_def split: Option.bind_splits)
qed simp

lemma sm_inv_clear_slots:
  assumes inv: "sm_inv env s" and nic: "nics s n = Some nic" "nic_sm_chnl_hndl nic = None"
  shows "sm_inv env (upd_nic n (\<lambda>k. k\<lparr>nic_sm_pkts := None\<rparr>) s)"
proof -
  let ?ni = "(nics s)(n \<mapsto> nic\<lparr>nic_sm_pkts := None\<rparr>)"
  note i = inv[unfolded sm_inv_def]
  have sl: "inv_slots (kgni_sm_list s) ?ni (sms s)"
    using i unfolding inv_slots_def fun_upd_apply by (auto split: if_splits)
  have o: "inv_owner (kgni_cdm_array s) (cdms s) ?ni (sms s)"
    using i nic unfolding inv_owner_def fun_upd_apply by fastforce
  have "chnl_nic_hndl c \<noteq> n" if "chnls s ch = Some c" for ch c
    using i nic that unfolding inv_chnl_def by fastforce
  then have c: "inv_chnl env ?ni (chnls s)"
    using i nic unfolding inv_chnl_def by (auto split: if_splits)
  have "inv_cdm env (kgni_cdm_array s) (cdms s) ?ni"
    using i nic by (auto simp: inv_cdm_def)
  with sl o c i nic(1) show ?thesis by (simp add: sm_inv_def prim_upd)
qed

text \<open>The first half of a detach: the NIC loses its channel, which is destroyed.\<close>

lemma sm_inv_chnl_destroy:
  assumes inv: "sm_inv env s" and nic: "nics s n = Some nic" "nic_sm_chnl_hndl nic = Some ch"
  shows "sm_inv env ((upd_nic n (\<lambda>k. k\<lparr>nic_sm_chnl_hndl := None\<rparr>) s)\<lparr>chnls := (chnls s)(ch := None)\<rparr>)"
proof -
  let ?ni = "(nics s)(n \<mapsto> nic\<lparr>nic_sm_chnl_hndl := None\<rparr>)"
  note i = inv[unfolded sm_inv_def]
  have sl: "inv_slots (kgni_sm_list s) ?ni (sms s)"
    unfolding inv_slots_def
  proof (intro conjI)
    show "\<forall>b m. sms s b = Some m \<longrightarrow> ?ni (sm_nic_hndl m) \<noteq> None"
      using i by (auto simp: inv_slots_def)
    show "\<forall>x k ps j b. ?ni x = Some k \<longrightarrow> nic_sm_pkts k = Some ps \<longrightarrow> j < length ps \<longrightarrow> ps ! j = Some b \<longrightarrow>
        b \<in> set (kgni_sm_list s) \<and> (\<exists>m. sms s b = Some m \<and> sm_nic_hndl m = x \<and> sm_pkts_out m = 1) \<and> once ps b j"
      using i nic unfolding inv_slots_def fun_upd_apply by (auto split: if_splits)
  qed
  have o: "inv_owner (kgni_cdm_array s) (cdms s) ?ni (sms s)"
    using i nic unfolding inv_owner_def fun_upd_apply by fastforce
  have only: "x = ch" if "chnls s x = Some c" "chnl_nic_hndl c = n" for x c
    using i nic that unfolding inv_chnl_def by fastforce
  have c: "inv_chnl env ?ni ((chnls s)(ch := None))"
    unfolding inv_chnl_def
  proof (intro conjI allI impI)
    fix x c assume x: "((chnls s)(ch := None)) x = Some c"
    with only have "chnl_nic_hndl c \<noteq> n" by (auto split: if_splits)
    with x i show "\<exists>k. ?ni (chnl_nic_hndl c) = Some k \<and> nic_sm_chnl_hndl k = Some x \<and> nic_ready env c k"
      by (auto simp: inv_chnl_def split: if_splits)
  next
    fix x k ch' assume h: "?ni x = Some k" "nic_sm_chnl_hndl k = Some ch'"
    then have x: "x \<noteq> n" "nics s x = Some k" by (auto split: if_splits)
    with i h(2) obtain c where c: "chnls s ch' = Some c" "chnl_nic_hndl c = x" unfolding inv_chnl_def by blast
    have "ch' \<noteq> ch"
      using i nic x(1) c unfolding inv_chnl_def by fastforce
    with c show "\<exists>c. ((chnls s)(ch := None)) ch' = Some c \<and> chnl_nic_hndl c = x" by simp
  qed
  have "inv_cdm env (kgni_cdm_array s) (cdms s) ?ni"
    using i nic by (auto simp: inv_cdm_def)
  with sl o c i nic(1) show ?thesis by (simp add: sm_inv_def prim_upd)
qed

lemma cleanup_loop_safe:
  assumes "sm_inv env s" and "nics s n = Some nic" and "nic_sm_pkts nic = None"
    and "cdms s d = Some cdm" and "set as \<subseteq> set (cdm_sessions cdm)" and "distinct as"
  shows "ok (cleanup_loop n d as s) (\<lambda>s'. sm_inv env s' \<and> nics s' = nics s \<and> sms s' = without n (set as) (sms s))"
  using assms
proof (induction as arbitrary: s cdm)
  case Nil
  then show ?case by (simp add: without_def)
next
  case (Cons a as)
  then have a: "a \<in> set (cdm_sessions cdm)" by simp
  then obtain m where m: "sms s a = Some m" using sm_inv_member Cons.prems(1,4) by blast
  show ?case
  proof (cases "sm_nic_hndl m = n")
    case False
    with m have "without n (set as) (sms s) = without n (insert a (set as)) (sms s)"
      by (auto simp: without_def fun_eq_iff)
    with False m Cons.prems Cons.IH[of s cdm] show ?thesis by simp
  next
    case True
    have free: "slot_free a s"
      unfolding slot_free_def in_set_conv_nth using sm_inv_slot(2)[OF Cons.prems(1)] m True Cons.prems(2,3)
      by (metis option.inject option.distinct(1))
    let ?s = "if on_smtask a s then wake_up_sm n (smtask_del a s) else s"
    have s1: "sm_inv env ?s" using sm_inv_smtask_del[OF Cons.prems(1) free] Cons.prems(1) by simp
    have sel: "cdms ?s = cdms s" "sms ?s = sms s" "nics ?s = nics s" by simp_all
    have dis: "distinct (kgni_sm_list s)" using Cons.prems(1) by (simp add: sm_inv_def inv_task_def)
    then have off: "\<not> on_smtask a ?s" by (simp add: on_smtask_def)
    let ?c = "cdm\<lparr>cdm_sessions := remove1 a (cdm_sessions cdm)\<rparr>"
    let ?f = "free_session d a ?s"
    have f: "sm_inv env ?f"
      by (rule sm_inv_free_session[OF s1 off _ a]) (simp only: sel Cons.prems(4))
    have sub: "set as \<subseteq> set (cdm_sessions ?c)"
      using Cons.prems(5,6) in_set_remove1[of _ a "cdm_sessions cdm"] by fastforce
    have cf: "cdms ?f d = Some ?c" and nf: "nics ?f = nics s" and mf: "sms ?f = (sms s)(a := None)"
      using Cons.prems(4) by (simp_all add: prim_upd sel)
    have "ok (cleanup_loop n d as ?f) (\<lambda>s'. sm_inv env s' \<and> nics s' = nics s \<and>
        sms s' = without n (set as) (sms ?f))"
      using Cons.IH[OF f _ Cons.prems(3) cf sub] Cons.prems(2,6) nf by simp
    moreover have "without n (set as) (sms ?f) = without n (set (a # as)) (sms s)"
      unfolding mf using m True Cons.prems(6) by (auto simp: without_def fun_eq_iff)
    ultimately show ?thesis using m True by (simp add: Let_def)
  qed
qed

lemma kgni_sm_cleanup_safe:
  assumes inv: "sm_inv env s" and nic: "nics s n = Some nic" "nic_sm_chnl_hndl nic = None"
    "nic_cdm_id nic \<noteq> GNI_CDM_INVALID_ID" "kgni_cdm_array s ! unat (nic_cdm_id nic) = Some d"
  shows "ok (kgni_sm_cleanup env n (Some d) s)
    (\<lambda>s'. sm_inv env s' \<and> sms s' = (\<lambda>a. if \<exists>m. sms s a = Some m \<and> sm_nic_hndl m = n then None else sms s a))"
proof -
  let ?g = "\<lambda>k. k\<lparr>nic_sm_pkts := None\<rparr>"
  have id: "unat (nic_cdm_id nic) < KGNI_MAX_CDM_NUMBER env"
    using inv nic unfolding sm_inv_def inv_cdm_def by metis
  then obtain cdm where cdm: "cdms s d = Some cdm" using sm_inv_cdm[OF inv _ nic(4)] by blast
  have mem: "a \<in> set (cdm_sessions cdm)" if am: "sms s a = Some m" "sm_nic_hndl m = n" for a m
  proof -
    obtain d' c' where d': "cdms s d' = Some c'" "a \<in> set (cdm_sessions c')"
      using inv am(1) unfolding sm_inv_def inv_sessions_def by blast
    with inv am nic have "d' = d" unfolding sm_inv_def inv_owner_def by force
    with d' cdm show ?thesis by simp
  qed
  have "ok (cleanup_loop n d (cdm_sessions cdm) (upd_nic n ?g s)) (\<lambda>s'. sm_inv env s' \<and>
      nics s' = nics (upd_nic n ?g s) \<and> sms s' = without n (set (cdm_sessions cdm)) (sms (upd_nic n ?g s)))"
  proof (rule cleanup_loop_safe[OF sm_inv_clear_slots[OF inv nic(1,2)],
        where nic = "nic\<lparr>nic_sm_pkts := None\<rparr>" and cdm = cdm])
    show "distinct (cdm_sessions cdm)" using inv cdm unfolding sm_inv_def inv_sessions_def by blast
  qed (use nic cdm in \<open>simp_all add: prim_upd\<close>)
  then obtain s1 where s1: "cleanup_loop n d (cdm_sessions cdm) s = Some s1" "sm_inv env (upd_nic n ?g s1)"
      "sms s1 = without n (set (cdm_sessions cdm)) (sms s)"
    by (auto dest!: okD simp: cleanup_loop_upd_nic)
  have "sms s1 = (\<lambda>a. if \<exists>m. sms s a = Some m \<and> sm_nic_hndl m = n then None else sms s a)"
    unfolding s1(3) without_def using mem by (auto simp: fun_eq_iff)
  with s1 id nic cdm show ?thesis by (simp add: kgni_sm_cleanup_def)
qed

end
