(* ===== verification/Session_Machine.thy ===== *)
theory Session_Machine
  imports Machine Session_Calls
begin

text \<open>
  The operations of the session manager as the transitions of one machine: what an operation needs
  from its caller, the instance of the interface of a safe machine, and the second invariant that
  no work is forgotten.
\<close>

section \<open>The session manager as a machine\<close>

datatype sm_op =
    Op_post "(addr \<times> kgni_sm_info) option" addr gni_ep_postdata_args
  | Op_rcv "(addr \<times> kgni_sm_info) option" addr nat kgni_sm_pkt bool
  | Op_event addr nat nat gni_return
  | Op_task "nat \<Rightarrow> u64" u64
  | Op_terminate addr gni_ep_postdata_term_args
  | Op_test addr gni_ep_postdata_test_args
  | Op_cleanup addr addr

fun sm_exec :: "kgni_env \<Rightarrow> sm_op \<Rightarrow> kgni \<Rightarrow> kgni run" where
  "sm_exec env (Op_post mem n attr) s = map_option snd (kgni_sm_add_session env mem n attr s)"
| "sm_exec env (Op_rcv mem ch cookie r len_ok) s = map_option snd (kgni_sm_chnl_rcv env mem ch cookie r len_ok s)"
| "sm_exec env (Op_event ch cookie pkt_id status) s = kgni_sm_chnl_event env ch cookie pkt_id status s"
| "sm_exec env (Op_task ticks start) s = kgni_sm_task env ticks start s"
| "sm_exec env (Op_terminate n attr) s = map_option snd (kgni_sm_terminate env n attr s)"
| "sm_exec env (Op_test n attr) s = map_option (snd \<circ> snd \<circ> snd) (kgni_sm_get_state env n attr s)"
| "sm_exec env (Op_cleanup n d) s = kgni_sm_cleanup env n (Some d) s"

text \<open>When an operation is called: by an attached NIC whose channel is up, with an endpoint address
  that is complete or names no PE, by a live channel with the cookie it was created with, and the
  clean-up after the channel has been destroyed.\<close>

definition nic_up :: "addr \<Rightarrow> kgni \<Rightarrow> bool" where
  "nic_up n s \<longleftrightarrow> (case nics s n of None \<Rightarrow> False | Some nic \<Rightarrow> nic_sm_chnl_hndl nic \<noteq> None)"

definition chnl_cookie :: "addr \<Rightarrow> nat \<Rightarrow> kgni \<Rightarrow> bool" where
  "chnl_cookie ch cookie s \<longleftrightarrow> (case chnls s ch of None \<Rightarrow> False | Some c \<Rightarrow>
     (case nics s (chnl_nic_hndl c) of None \<Rightarrow> False | Some nic \<Rightarrow>
        nic_cdm_id nic \<noteq> GNI_CDM_INVALID_ID \<and> cookie = unat (nic_cdm_id nic) \<and> kgni_cdm_array s ! cookie \<noteq> None))"

fun sm_pre :: "kgni_env \<Rightarrow> sm_op \<Rightarrow> kgni \<Rightarrow> bool" where
  "sm_pre env (Op_post mem n attr) s \<longleftrightarrow> nics s n \<noteq> None \<and>
     ep_addr_ok (pd_remote_pe attr) (pd_remote_id attr) \<and> mem_ok mem s"
| "sm_pre env (Op_rcv mem ch cookie r len_ok) s \<longleftrightarrow> chnl_cookie ch cookie s \<and> pkt_ok r \<and> mem_ok mem s"
| "sm_pre env (Op_event ch cookie pkt_id status) s \<longleftrightarrow> chnl_cookie ch cookie s \<and> pkt_id \<le> KGNI_MAX_SM_PKTS env"
| "sm_pre env (Op_task ticks start) s \<longleftrightarrow> True"
| "sm_pre env (Op_terminate n attr) s \<longleftrightarrow> nic_up n s \<and> ep_addr_ok (pc_remote_pe attr) (pc_remote_id attr)"
| "sm_pre env (Op_test n attr) s \<longleftrightarrow> nic_up n s"
| "sm_pre env (Op_cleanup n d) s \<longleftrightarrow> (case nics s n of None \<Rightarrow> False | Some nic \<Rightarrow>
     nic_sm_chnl_hndl nic = None \<and> nic_cdm_id nic \<noteq> GNI_CDM_INVALID_ID \<and>
     kgni_cdm_array s ! unat (nic_cdm_id nic) = Some d)"

lemma chnl_cookieE:
  assumes "sm_inv env s" and "chnl_cookie ch cookie s"
  obtains c nic d where "chnls s ch = Some c" "nics s (chnl_nic_hndl c) = Some nic"
    "nic_cdm_id nic \<noteq> GNI_CDM_INVALID_ID" "cookie = unat (nic_cdm_id nic)" "kgni_cdm_array s ! cookie = Some d"
    "cookie < KGNI_MAX_CDM_NUMBER env"
proof -
  obtain c nic d where c: "chnls s ch = Some c" "nics s (chnl_nic_hndl c) = Some nic"
      "nic_cdm_id nic \<noteq> GNI_CDM_INVALID_ID" "cookie = unat (nic_cdm_id nic)" "kgni_cdm_array s ! cookie = Some d"
    using assms(2) by (auto simp: chnl_cookie_def split: option.splits)
  moreover have "cookie < KGNI_MAX_CDM_NUMBER env"
    using assms(1) c unfolding sm_inv_def inv_cdm_def by metis
  ultimately show thesis by (rule that)
qed

lemma sm_exec_safe:
  assumes inv: "sm_inv env s" and env: "env_ok env" and pre: "sm_pre env op s"
  shows "ok (sm_exec env op s) (sm_inv env)"
proof (cases op)
  case (Op_post mem n attr)
  with kgni_sm_add_session_safe[OF inv env] pre show ?thesis
    by (auto simp: ok_map_option comp_def case_prod_unfold)
next
  case (Op_rcv mem ch cookie r len_ok)
  from pre Op_rcv have p: "chnl_cookie ch cookie s" "pkt_ok r" "mem_ok mem s" by simp_all
  obtain c nic d where "chnls s ch = Some c" "nics s (chnl_nic_hndl c) = Some nic"
      "nic_cdm_id nic \<noteq> GNI_CDM_INVALID_ID" "cookie = unat (nic_cdm_id nic)" "kgni_cdm_array s ! cookie = Some d"
      "cookie < KGNI_MAX_CDM_NUMBER env"
    using chnl_cookieE[OF inv p(1)] .
  from kgni_sm_chnl_rcv_safe[OF inv this(6,5,1,2,3,4) p(2,3)] Op_rcv show ?thesis
    by (simp add: ok_map_option comp_def case_prod_unfold)
next
  case (Op_event ch cookie pkt_id status)
  from pre Op_event have p: "chnl_cookie ch cookie s" "pkt_id \<le> KGNI_MAX_SM_PKTS env" by simp_all
  obtain c nic d where "chnls s ch = Some c" "nics s (chnl_nic_hndl c) = Some nic"
      "nic_cdm_id nic \<noteq> GNI_CDM_INVALID_ID" "cookie = unat (nic_cdm_id nic)" "kgni_cdm_array s ! cookie = Some d"
      "cookie < KGNI_MAX_CDM_NUMBER env"
    using chnl_cookieE[OF inv p(1)] .
  with kgni_sm_chnl_event_safe[OF inv _ _ p(2)] Op_event show ?thesis by simp
next
  case (Op_task ticks start)
  with kgni_sm_task_safe[OF inv env] show ?thesis by simp
next
  case (Op_terminate n attr)
  with kgni_sm_terminate_safe[OF inv env] pre show ?thesis
    by (auto simp: nic_up_def ok_map_option comp_def case_prod_unfold split: option.splits)
next
  case (Op_test n attr)
  with kgni_sm_get_state_safe[OF inv env] pre show ?thesis
    by (auto simp: nic_up_def ok_map_option comp_def case_prod_unfold split: option.splits)
next
  case (Op_cleanup n d)
  with pre obtain nic where "nics s n = Some nic" "nic_sm_chnl_hndl nic = None"
      "nic_cdm_id nic \<noteq> GNI_CDM_INVALID_ID" "kgni_cdm_array s ! unat (nic_cdm_id nic) = Some d"
    by (auto split: option.splits)
  from kgni_sm_cleanup_safe[OF inv this] Op_cleanup show ?thesis by (simp add: ok_conj)
qed

interpretation sm: safe_machine "sm_pre env" "sm_exec env" "\<lambda>s. env_ok env \<and> sm_inv env s" for env
  by unfold_locales (auto simp: ok_conj dest!: okD intro: sm_exec_safe[THEN ok_mono])

section \<open>No lost work\<close>

text \<open>Whenever the worker is not queued, every session on its list waits for the event of a packet
  that is out; the event queues the worker.\<close>

definition no_stall :: "kgni \<Rightarrow> bool" where
  "no_stall s \<longleftrightarrow> sm_work s \<or> (\<forall>a \<in> set (kgni_sm_list s). \<forall>m. sms s a = Some m \<longrightarrow> sm_pkts_out m \<noteq> 0)"

text \<open>A change that adds nothing to the task list and leaves the packets of its sessions alone.\<close>

definition quiet :: "kgni \<Rightarrow> kgni \<Rightarrow> bool" where
  "quiet s s' \<longleftrightarrow> sm_work s' = sm_work s \<and> set (kgni_sm_list s') \<subseteq> set (kgni_sm_list s) \<and>
     (\<forall>a \<in> set (kgni_sm_list s'). \<forall>m'. sms s' a = Some m' \<longrightarrow> (\<exists>m. sms s a = Some m \<and> sm_pkts_out m' = sm_pkts_out m))"

lemma quiet_refl [simp]: "quiet s s"
  by (simp add: quiet_def)

lemma quiet_trans [trans]: "quiet s t \<Longrightarrow> quiet t u \<Longrightarrow> quiet s u"
  unfolding quiet_def by (metis (no_types, lifting) subset_iff)

lemma no_stall_quiet: "no_stall s \<Longrightarrow> quiet s s' \<Longrightarrow> no_stall s'"
  unfolding no_stall_def quiet_def by fastforce

lemma no_stall_queued [simp]: "sm_work s \<Longrightarrow> no_stall s"
  by (simp add: no_stall_def)

lemma sm_work_prim [simp]:
  "sm_work (queue_sm_work s)" "sm_work (upd_sm a f s) = sm_work s" "sm_work (upd_chnl ch h s) = sm_work s"
  "sm_work (upd_nic n g s) = sm_work s" "sm_work (smtask_add a s) = sm_work s" "sm_work (smtask_del a s) = sm_work s"
  "sm_work (wake_up_sm n s) = sm_work s" "sm_work (free_session d a s) = sm_work s"
  "sm_work (add_session d a m s) = sm_work s"
  by (simp_all add: queue_sm_work_def upd_sm_def upd_chnl_def upd_nic_def smtask_add_def smtask_del_def
      wake_up_sm_def free_session_def add_session_def upd_cdm_def)

lemma quiet_prim:
  "(\<And>m. sm_pkts_out (f m) = sm_pkts_out m) \<Longrightarrow> quiet s (upd_sm a f s)"
  "quiet s (upd_chnl ch h s)" "quiet s (upd_nic n g s)" "quiet s (smtask_del a s)" "quiet s (wake_up_sm n s)"
  "quiet s (free_session d a s)"
  using set_remove1_subset[of a "kgni_sm_list s"]
  by (auto simp: quiet_def prim_upd split: if_splits)

lemma quiet_add_session:
  "a \<notin> set (kgni_sm_list s) \<Longrightarrow> quiet s (add_session d a m s)"
  by (auto simp: quiet_def prim_upd)

lemma quiet_generation [simp]: "quiet (s\<lparr>sm_generation := g\<rparr>) t = quiet s t" "quiet t (s\<lparr>sm_generation := g\<rparr>) = quiet t s"
  by (simp_all add: quiet_def)

lemma kgni_notify_user_quiet: "kgni_notify_user ch a s = Some s' \<Longrightarrow> quiet s s'"
  by (auto simp: kgni_notify_user_def bind_eq_Some_conv split: option.splits if_splits
      intro!: quiet_trans[OF quiet_prim(2) quiet_prim(1)])

subsection \<open>Calls\<close>

text \<open>A post that fails changes nothing, a post that succeeds queues the worker.\<close>

lemma add_search_effect:
  "add_search buf virt bound attr as s = Some (Inl (e, s')) \<Longrightarrow> if e = 0 then sm_work s' else s' = s"
  by (induction as) (auto simp: bind_eq_Some_conv Let_def split: if_split_asm)

lemma add_locked_effect:
  "add_locked mem n nic d buf virt bound attr s = Some (e, s') \<Longrightarrow> if e = 0 then sm_work s' else s' = s"
  by (auto simp: add_locked_def Let_def
      split: Option.bind_split_asm sum.split_asm option.split_asm if_split_asm dest: add_search_effect)

lemma kgni_sm_add_session_effect:
  assumes "kgni_sm_add_session env mem n attr s = Some (e, s')"
  shows "s' = s \<or> e = 0 \<and> sm_work s'"
  using assms
  by (auto simp: kgni_sm_add_session_def Let_def
      split: Option.bind_split_asm option.split_asm if_split_asm sum.split_asm prod.split_asm dest!: add_locked_effect)

lemma rcv_matched_effect:
  assumes "rcv_matched d ch n a m r s = Some (Some s')"
  shows "sm_work s' \<or> quiet s s'"
proof -
  have n: "quiet s (wake_up_sm n s'')"
    if "kgni_notify_user ch a (upd_sm a (rcv_commit r \<circ> f) s) = Some s''" "\<And>m. sm_pkts_out (f m) = sm_pkts_out m" for s'' f
    by (rule quiet_trans[OF quiet_trans[OF quiet_prim(1) kgni_notify_user_quiet[OF that(1)]] quiet_prim(5)])
      (simp add: that(2))
  show ?thesis
    using assms unfolding rcv_matched_def Let_def
    by (auto simp: bind_eq_Some_conv quiet_prim split: if_split_asm dest!: n)
qed

lemma rcv_search_effect:
  "rcv_search d ch n r as opn s = Some (Inr s') \<Longrightarrow> sm_work s' \<or> quiet s s'"
  by (induction as arbitrary: opn)
    (auto simp: bind_eq_Some_conv split: if_split_asm option.split_asm dest: rcv_matched_effect)

lemma kgni_sm_chnl_rcv_effect:
  assumes "kgni_sm_chnl_rcv env mem ch cookie r len_ok s = Some (x, s')" and "sm_inv env s" and "mem_ok mem s"
  shows "sm_work s' \<or> quiet s s'"
proof -
  have "a \<notin> set (kgni_sm_list s)" if "mem = Some (a, raw)" for a raw
    using assms(2,3) that by (auto simp: mem_ok_def sm_inv_def inv_task_def)
  then have new: "quiet s (add_session d a m (s\<lparr>sm_generation := g\<rparr>))" if "mem = Some (a, raw)" for a raw d m g
    using quiet_add_session[of a "s\<lparr>sm_generation := g\<rparr>" d m] that by simp
  show ?thesis
    using assms(1)
    by (auto simp: kgni_sm_chnl_rcv_def Let_def intro: new
        split: Option.bind_split_asm option.split_asm if_split_asm sum.split_asm dest!: rcv_search_effect)
qed

lemma terminate_loop_effect:
  "terminate_loop d chp bound by_id attr as s = Some (e, s') \<Longrightarrow> sm_work s' \<or> quiet s s'"
  by (induction as)
    (auto simp: bind_eq_Some_conv Let_def split: if_split_asm intro: quiet_trans[OF quiet_prim(2) quiet_prim(6)])

lemma kgni_sm_terminate_effect:
  "kgni_sm_terminate env n attr s = Some (e, s') \<Longrightarrow> sm_work s' \<or> quiet s s'"
  by (auto simp: kgni_sm_terminate_def Let_def
      split: Option.bind_split_asm option.split_asm if_split_asm sum.split_asm dest!: terminate_loop_effect)

lemma kgni_sm_chnl_event_effect:
  "kgni_sm_chnl_event env ch cookie pkt_id status s = Some s' \<Longrightarrow> sm_work s' \<or> s' = s"
  by (auto simp: kgni_sm_chnl_event_def bind_eq_Some_conv Let_def split: option.split_asm if_split_asm)

lemma gs_step_effect:
  assumes "gs_step env nic d a m v = Some (ctl, v')"
  shows "quiet (gs_k v) (gs_k v')"
proof -
  have t: "quiet (gs_k u) (gs_k w)" if "gs_take usr chp a m u = Some w" for usr chp u w
    using that by (auto simp: gs_take_def bind_eq_Some_conv Let_def quiet_prim split: if_split_asm)
  have n: "quiet (gs_k u) (gs_k w)" if "gs_ntt env nic a m u = (c, w)" for u c w
    using that by (auto simp: gs_ntt_def Let_def split: if_split_asm intro!: quiet_prim(1))
  have f: "quiet s (free_session d a (gs_k w))" if "quiet s (gs_k u)" "quiet (gs_k u) (gs_k w)" for s u w
    using quiet_trans[OF quiet_trans[OF that] quiet_prim(6)] .
  show ?thesis
    using assms
    by (auto simp: gs_step_def bind_eq_Some_conv Let_def quiet_prim split: if_split_asm gs_ctl.split_asm prod.split_asm
        dest!: t n intro: f quiet_trans)
qed

lemma gs_loop_effect:
  "gs_loop env nic d by_id as v = Some (x, v') \<Longrightarrow> quiet (gs_k v) (gs_k v')"
  by (induction as arbitrary: v)
    (auto split: Option.bind_split_asm if_split_asm gs_ctl.split_asm dest!: gs_step_effect intro: quiet_trans)

lemma kgni_sm_get_state_effect:
  "kgni_sm_get_state env n attr s = Some (e, at, out, s') \<Longrightarrow> quiet s s'"
  by (auto simp: kgni_sm_get_state_def Let_def
      split: Option.bind_split_asm option.split_asm if_split_asm sum.split_asm prod.split_asm dest!: gs_loop_effect)

lemma cleanup_loop_effect: "cleanup_loop n d as s = Some s' \<Longrightarrow> quiet s s'"
proof (induction as arbitrary: s)
  case (Cons a as)
  have "quiet s (free_session d a s)" "quiet s (free_session d a (wake_up_sm n (smtask_del a s)))"
    by (blast intro: quiet_trans quiet_prim)+
  with Cons show ?case
    by (auto simp: bind_eq_Some_conv Let_def split: if_split_asm intro: quiet_trans)
qed simp

lemma kgni_sm_cleanup_effect: "kgni_sm_cleanup env n dp s = Some s' \<Longrightarrow> quiet s s'"
  by (auto simp: kgni_sm_cleanup_def bind_eq_Some_conv split: option.split_asm if_split_asm
      dest!: cleanup_loop_effect intro: quiet_trans quiet_prim)

subsection \<open>The worker\<close>

text \<open>What one iteration does to the sessions: those of the others stay as they are; the current one is
  off the list, or has a packet out, or its retransmission is delayed, or the loop ends with an error.\<close>

definition others_kept :: "addr \<Rightarrow> kgni \<Rightarrow> kgni \<Rightarrow> bool" where
  "others_kept a s s' \<longleftrightarrow> (\<forall>b. b \<noteq> a \<longrightarrow> sms s' b = sms s b \<and> (b \<in> set (kgni_sm_list s') \<longleftrightarrow> b \<in> set (kgni_sm_list s)))"

definition served :: "addr \<Rightarrow> kgni \<Rightarrow> bool" where
  "served a s \<longleftrightarrow> a \<in> set (kgni_sm_list s) \<longrightarrow> (\<forall>m. sms s a = Some m \<longrightarrow> sm_pkts_out m \<noteq> 0)"

lemma others_kept_refl [simp]: "others_kept a s s"
  by (simp add: others_kept_def)

lemma others_kept_trans: "others_kept a s t \<Longrightarrow> others_kept a t u \<Longrightarrow> others_kept a s u"
  by (simp add: others_kept_def)

lemma others_kept_prim:
  "others_kept a s (upd_sm a f s)" "others_kept a s (upd_nic n g s)" "others_kept a s (upd_chnl ch h s)"
  "others_kept a s (wake_up_sm n s)" "others_kept a s (smtask_del a s)"
  by (simp_all add: others_kept_def prim_upd in_set_remove1)

lemmas others_kept_intros = others_kept_prim others_kept_trans[OF _ others_kept_prim(1)]
  others_kept_trans[OF _ others_kept_prim(2)] others_kept_trans[OF _ others_kept_prim(3)]
  others_kept_trans[OF _ others_kept_prim(4)] others_kept_trans[OF _ others_kept_prim(5)]

lemma kgni_notify_user_kept:
  "kgni_notify_user ch a s = Some s' \<Longrightarrow> others_kept a s s' \<and> kgni_sm_list s' = kgni_sm_list s"
  by (auto simp: kgni_notify_user_def intro!: others_kept_intros
      split: Option.bind_split_asm option.split_asm if_split_asm)

lemma sm_task_send_effect:
  assumes "sm_task_send env n ch fl a s = Some (ctl, err, s')" and "sms s a = Some m" and "sm_pkts_out m = 0"
  shows "others_kept a s s' \<and> (ctl = Continue \<longrightarrow> err = 0 \<and> served a s') \<and> (ctl = Break \<longrightarrow> err \<noteq> 0)"
  using assms
  by (auto simp: sm_task_send_def Let_def prim_upd served_def upd_pkt_def intro!: others_kept_intros
      split: Option.bind_split_asm if_split_asm)

lemma sm_task_step_effect:
  assumes "sm_task_step env j err a s = Some (ctl, err', dl, s')" and "distinct (kgni_sm_list s)" and "err = 0"
  shows "others_kept a s s' \<and> (ctl = Continue \<longrightarrow> err' = 0 \<and> (dl \<or> served a s')) \<and> (ctl = Break \<longrightarrow> err' \<noteq> 0)"
proof -
  have off: "served a (wake_up_sm n s'') \<and> others_kept a s (wake_up_sm n s'')"
    if "kgni_notify_user ch a (smtask_del a (upd_sm a f s)) = Some s''" for ch f s'' n
    using kgni_notify_user_kept[OF that] assms(2)
    by (auto simp: served_def intro!: others_kept_intros intro: others_kept_trans)
  have off': "served a (wake_up_sm n (smtask_del a (upd_sm a f s)))" for n f
    using assms(2) by (simp add: served_def)
  have snd: "others_kept a s s'' \<and> (c = Continue \<longrightarrow> e = 0 \<and> served a s'') \<and> (c = Break \<longrightarrow> e \<noteq> 0)"
    if "sm_task_send env n ch fl a (upd_sm a f s) = Some (c, e, s'')" "sms s a = Some m" "sm_pkts_out (f m) = 0"
    for n ch fl f c e s'' m
    using sm_task_send_effect[OF that(1), of "f m"] that(2,3) others_kept_trans[OF others_kept_prim(1)]
    by (auto simp: prim_upd)
  show ?thesis
    using assms(1,3)
    by (auto simp: sm_task_step_def Let_def prim_upd off' intro: others_kept_intros
        split: Option.bind_split_asm option.split_asm if_split_asm dest!: off snd)
      (auto simp: served_def)
qed

lemma sm_task_loop_delayed:
  "sm_task_loop env ticks start i as err dl s = Some (err', dl', s') \<Longrightarrow> dl \<Longrightarrow> dl'"
  by (induction as arbitrary: i err dl s)
    (auto split: if_split_asm Option.bind_split_asm loop_ctl.split_asm)

lemma sm_task_loop_effect:
  assumes "sm_task_loop env ticks start i as 0 dl s = Some (err, dl', s')" and "env_ok env" and "sm_inv env s"
    and "set as \<subseteq> set (kgni_sm_list s)" and "distinct as" and "err = 0" and "\<not> dl'"
  shows "(\<forall>a \<in> set as. served a s') \<and>
    (\<forall>b. b \<notin> set as \<longrightarrow> sms s' b = sms s b \<and> (b \<in> set (kgni_sm_list s') \<longleftrightarrow> b \<in> set (kgni_sm_list s)))"
  using assms
proof (induction as arbitrary: i dl s)
  case Nil
  then show ?case by simp
next
  case (Cons a as)
  have "ok (sm_task_step env (ticks i) 0 a s) (\<lambda>(_, _, _, s'). step_post env a s s')"
    using Cons.prems by (intro sm_task_step_safe) auto
  then obtain ctl err1 dl1 s1 where st: "sm_task_step env (ticks i) 0 a s = Some (ctl, err1, dl1, s1)"
      "step_post env a s s1"
    by (auto dest!: okD)
  have d: "distinct (kgni_sm_list s)" using Cons.prems(3) by (simp add: sm_inv_def inv_task_def)
  note eff = sm_task_step_effect[OF st(1) d refl]
  have lim: "\<not> ticks i - start > 1" using Cons.prems(1,6) by auto
  have ctl: "ctl = Continue"
    using Cons.prems(1,6) st(1) lim eff by (cases ctl) auto
  with eff have e1: "err1 = 0" by simp
  have rest: "sm_task_loop env ticks start (i + 1) as 0 (dl \<or> dl1) s1 = Some (err, dl', s')"
    using Cons.prems(1) st(1) lim ctl e1 by simp
  have sub: "set as \<subseteq> set (kgni_sm_list s1)"
    using st(2) Cons.prems(4,5) by (auto simp: step_post_def)
  have ih: "(\<forall>a \<in> set as. served a s') \<and>
    (\<forall>b. b \<notin> set as \<longrightarrow> sms s' b = sms s1 b \<and> (b \<in> set (kgni_sm_list s') \<longleftrightarrow> b \<in> set (kgni_sm_list s1)))"
    using Cons.IH[OF rest Cons.prems(2) _ sub] st(2) Cons.prems(5-7) by (simp add: step_post_def)
  have "\<not> dl1" using sm_task_loop_delayed[OF rest] Cons.prems(7) by blast
  with eff ctl have "served a s1" by simp
  with ih Cons.prems(5) have "served a s'" by (simp add: served_def)
  with ih eff show ?case by (auto simp: others_kept_def)
qed

lemma kgni_sm_task_no_stall:
  assumes "kgni_sm_task env ticks start s = Some s'" and "env_ok env" and "sm_inv env s"
  shows "no_stall s'"
proof -
  let ?s = "s\<lparr>sm_work := False\<rparr>"
  obtain err dl s1 where l: "sm_task_loop env ticks start 0 (kgni_sm_list s) 0 False ?s = Some (err, dl, s1)"
      "s' = (if err \<noteq> 0 \<or> dl then queue_sm_work s1 else s1)"
    using assms(1) by (auto simp: kgni_sm_task_def split: Option.bind_split_asm)
  show ?thesis
  proof (cases "err \<noteq> 0 \<or> dl")
    case False
    have d: "distinct (kgni_sm_list s)" using assms(3) by (simp add: sm_inv_def inv_task_def)
    have "(\<forall>a \<in> set (kgni_sm_list s). served a s1) \<and>
      (\<forall>b. b \<notin> set (kgni_sm_list s) \<longrightarrow> (b \<in> set (kgni_sm_list s1) \<longleftrightarrow> b \<in> set (kgni_sm_list s)))"
      using sm_task_loop_effect[OF l(1) assms(2)] assms(3) d False by simp
    with l(2) False show ?thesis by (auto simp: no_stall_def served_def)
  qed (use l in simp)
qed

lemma sm_exec_no_stall:
  assumes "env_ok env" and "sm_inv env s" and "no_stall s" and "sm_pre env op s" and "sm_exec env op s = Some s'"
  shows "no_stall s'"
proof (cases op)
  case (Op_post mem n attr)
  with assms(3,5) show ?thesis by (auto dest: kgni_sm_add_session_effect)
next
  case (Op_rcv mem ch cookie r len_ok)
  with assms show ?thesis by (auto dest!: kgni_sm_chnl_rcv_effect intro: no_stall_quiet)
next
  case (Op_event ch cookie pkt_id status)
  with assms(3,5) show ?thesis by (auto dest: kgni_sm_chnl_event_effect)
next
  case (Op_task ticks start)
  with assms show ?thesis by (auto dest: kgni_sm_task_no_stall)
next
  case (Op_terminate n attr)
  with assms(3,5) show ?thesis by (auto dest!: kgni_sm_terminate_effect intro: no_stall_quiet)
next
  case (Op_test n attr)
  with assms(3,5) show ?thesis by (auto dest!: kgni_sm_get_state_effect intro: no_stall_quiet)
next
  case (Op_cleanup n d)
  with assms(3,5) show ?thesis by (auto dest!: kgni_sm_cleanup_effect intro: no_stall_quiet)
qed

interpretation sm: safe_machine_with "sm_pre env" "sm_exec env" "\<lambda>s. env_ok env \<and> sm_inv env s" no_stall for env
  by unfold_locales (blast intro: sm_exec_no_stall)

end
