(* ===== verification/Session_Frame.thy ===== *)
theory Session_Frame
  imports Session_Machine
begin

text \<open>
  What the operations of the session manager leave alone: the NICs up to their packet slots, the domains up to their session
  lists, the channels and the table of domains. The clients of the session manager rely on it.
\<close>

section \<open>What the session manager leaves alone\<close>

text \<open>The session manager creates and frees sessions and keeps the packet slots of the NICs: what else a NIC holds stays,
  and no NIC, domain or channel comes or goes.\<close>

definition nic_view :: "gni_nic \<Rightarrow> gni_nic" where
  "nic_view nic = nic\<lparr>nic_sm_pkts := map_option (\<lambda>_. []) (nic_sm_pkts nic),
     nic_sm_pkt_id := if nic_sm_pkts nic = None then nic_sm_pkt_id nic else 0\<rparr>"

definition cdm_view :: "gni_cdm \<Rightarrow> gni_cdm" where
  "cdm_view c = c\<lparr>cdm_sessions := []\<rparr>"

definition same_objs :: "kgni \<Rightarrow> kgni \<Rightarrow> bool" where
  "same_objs s s' \<longleftrightarrow> map_option nic_view \<circ> nics s' = map_option nic_view \<circ> nics s \<and> dom (cdms s') = dom (cdms s) \<and>
     dom (chnls s') = dom (chnls s) \<and> kgni_cdm_array s' = kgni_cdm_array s \<and>
     map_option cdm_view \<circ> cdms s' = map_option cdm_view \<circ> cdms s"

lemma same_objs_nic:
  assumes "same_objs s s'" and "nics s n = Some nic"
  obtains nic' where "nics s' n = Some nic'" "nic_view nic' = nic_view nic" "nic_sm_chnl_hndl nic' = nic_sm_chnl_hndl nic"
    "nic_cdm_hndl nic' = nic_cdm_hndl nic" "nic_type_id nic' = nic_type_id nic"
proof -
  have "map_option nic_view (nics s' n) = map_option nic_view (nics s n)" using assms(1) by (simp add: same_objs_def fun_eq_iff)
  with assms(2) obtain nic' where n: "nics s' n = Some nic'" "nic_view nic' = nic_view nic" by auto
  have "nic_sm_chnl_hndl (nic_view nic') = nic_sm_chnl_hndl (nic_view nic)" "nic_cdm_hndl (nic_view nic') = nic_cdm_hndl (nic_view nic)"
    "nic_type_id (nic_view nic') = nic_type_id (nic_view nic)"
    using n(2) by simp_all
  then have "nic_sm_chnl_hndl nic' = nic_sm_chnl_hndl nic" "nic_cdm_hndl nic' = nic_cdm_hndl nic" "nic_type_id nic' = nic_type_id nic"
    by (simp_all add: nic_view_def)
  with n show thesis by (rule that)
qed

lemma cdm_view_sessions: "map_option cdm_view (map_option (\<lambda>c. c\<lparr>cdm_sessions := f c\<rparr>) x) = map_option cdm_view x"
  by (cases x) (simp_all add: cdm_view_def)

lemma same_objs_refl [simp]: "same_objs s s"
  by (simp add: same_objs_def)

lemma same_objs_trans [trans]: "same_objs s t \<Longrightarrow> same_objs t u \<Longrightarrow> same_objs s u"
  by (simp add: same_objs_def)

lemma same_objs_prim [simp]:
  "same_objs s (upd_sm a f t) = same_objs s t" "same_objs s (upd_chnl ch h t) = same_objs s t"
  "same_objs s (smtask_add a t) = same_objs s t" "same_objs s (smtask_del a t) = same_objs s t"
  "same_objs s (wake_up_sm n t) = same_objs s t" "same_objs s (queue_sm_work t) = same_objs s t"
  "same_objs s (free_session d a t) = same_objs s t" "same_objs s (add_session d a m t) = same_objs s t"
  "same_objs s (t\<lparr>sm_generation := g\<rparr>) = same_objs s t"
  "same_objs s (t\<lparr>sm_work := b\<rparr>) = same_objs s t"
  by (auto simp: same_objs_def upd_sm_def upd_chnl_def smtask_add_def smtask_del_def wake_up_sm_def queue_sm_work_def
      free_session_def add_session_def upd_cdm_def dom_def fun_eq_iff cdm_view_sessions
      simp del: option.map_comp split: if_splits)

lemma nics_upd_nic: "nics (upd_nic n f t) n = map_option f (nics t n)"
  by (simp add: upd_nic_def)

text \<open>The packet slots of a NIC change only when it has them.\<close>

lemma same_objs_upd_nic:
  assumes "nics t n = Some k" "nic_view (f k) = nic_view k"
  shows "same_objs s (upd_nic n f t) = same_objs s t"
proof -
  have "map_option nic_view \<circ> nics (upd_nic n f t) = map_option nic_view \<circ> nics t"
    using assms by (simp add: upd_nic_def fun_eq_iff)
  then show ?thesis by (simp add: same_objs_def upd_nic_def)
qed

lemma same_objs_upd_pkts [simp]:
  assumes "\<exists>k. nics t n = Some k \<and> nic_sm_pkts k \<noteq> None"
  shows "same_objs s (upd_nic n (\<lambda>k. k\<lparr>nic_sm_pkts := Some ps\<rparr>) t) = same_objs s t"
    "same_objs s (upd_nic n (\<lambda>k. k\<lparr>nic_sm_pkt_id := i\<rparr>) t) = same_objs s t"
  using assms by (auto intro!: same_objs_upd_nic simp: nic_view_def)

lemma add_search_objs: "add_search buf virt bound attr as s = Some (Inl (e, s')) \<Longrightarrow> same_objs s s'"
  by (induction as) (auto simp: bind_eq_Some_conv Let_def split: if_split_asm)

lemma kgni_sm_add_session_objs: "kgni_sm_add_session env mem n attr s = Some (e, s') \<Longrightarrow> same_objs s s'"
  by (auto simp: kgni_sm_add_session_def add_locked_def Let_def
      split: Option.bind_split_asm option.split_asm if_split_asm sum.split_asm prod.split_asm dest!: add_search_objs)

lemma terminate_loop_objs: "terminate_loop d chp bound by_id attr as s = Some (e, s') \<Longrightarrow> same_objs s s'"
  by (induction as) (auto simp: bind_eq_Some_conv Let_def split: if_split_asm)

lemma kgni_sm_terminate_objs: "kgni_sm_terminate env n attr s = Some (e, s') \<Longrightarrow> same_objs s s'"
  by (auto simp: kgni_sm_terminate_def Let_def
      split: Option.bind_split_asm option.split_asm if_split_asm sum.split_asm dest!: terminate_loop_objs)

lemma gs_step_objs:
  assumes "gs_step env nic d a m v = Some (ctl, v')"
  shows "same_objs (gs_k v) (gs_k v')"
proof -
  have t: "same_objs (gs_k u) (gs_k w)" if "gs_take usr chp a m u = Some w" for usr chp u w
    using that by (auto simp: gs_take_def bind_eq_Some_conv Let_def split: if_split_asm)
  have n: "same_objs (gs_k u) (gs_k w)" if "gs_ntt env nic a m u = (c, w)" for u c w
    using that by (auto simp: gs_ntt_def Let_def split: if_split_asm)
  show ?thesis
    using assms
    by (auto simp: gs_step_def bind_eq_Some_conv Let_def split: if_split_asm gs_ctl.split_asm prod.split_asm
        dest!: t n intro: same_objs_trans)
qed

lemma gs_loop_objs: "gs_loop env nic d by_id as v = Some (x, v') \<Longrightarrow> same_objs (gs_k v) (gs_k v')"
  by (induction as arbitrary: v)
    (auto split: Option.bind_split_asm if_split_asm gs_ctl.split_asm dest!: gs_step_objs intro: same_objs_trans)

lemma kgni_sm_get_state_objs: "kgni_sm_get_state env n attr s = Some (e, at, out, s') \<Longrightarrow> same_objs s s'"
  by (auto simp: kgni_sm_get_state_def Let_def
      split: Option.bind_split_asm option.split_asm if_split_asm sum.split_asm prod.split_asm dest!: gs_loop_objs)

lemma kgni_notify_user_objs: "kgni_notify_user ch a s = Some s' \<Longrightarrow> same_objs t s \<Longrightarrow> same_objs t s'"
  by (auto simp: kgni_notify_user_def split: Option.bind_split_asm option.split_asm if_split_asm)

lemma sm_task_send_objs: "sm_task_send env n ch fl a s = Some (ctl, err, s') \<Longrightarrow> same_objs t s \<Longrightarrow> same_objs t s'"
  by (auto simp: sm_task_send_def Let_def nics_upd_nic split: Option.bind_split_asm if_split_asm)

lemma sm_task_step_objs:
  "sm_task_step env j err a s = Some (ctl, err', dl, s') \<Longrightarrow> same_objs t s \<Longrightarrow> same_objs t s'"
  by (auto simp: sm_task_step_def Let_def split: Option.bind_split_asm option.split_asm if_split_asm
      dest: sm_task_send_objs[where t = t] kgni_notify_user_objs[where t = t])

lemma sm_task_loop_objs:
  "sm_task_loop env ticks start i as err dl s = Some (err', dl', s') \<Longrightarrow> same_objs t s \<Longrightarrow> same_objs t s'"
  by (induction as arbitrary: i err dl s)
    (auto split: if_split_asm Option.bind_split_asm loop_ctl.split_asm dest: sm_task_step_objs[where t = t])

lemma kgni_sm_task_objs: "kgni_sm_task env ticks start s = Some s' \<Longrightarrow> same_objs s s'"
  by (auto simp: kgni_sm_task_def bind_eq_Some_conv dest!: sm_task_loop_objs[where t = s] split: if_split_asm)

lemma kgni_sm_chnl_event_objs: "kgni_sm_chnl_event env ch cookie pkt_id status s = Some s' \<Longrightarrow> same_objs s s'"
  by (auto simp: kgni_sm_chnl_event_def bind_eq_Some_conv Let_def split: option.split_asm if_split_asm)

lemma rcv_matched_objs: "rcv_matched d ch n a m r s = Some (Some s') \<Longrightarrow> same_objs s s'"
  by (auto simp: rcv_matched_def Let_def bind_eq_Some_conv split: if_split_asm dest!: kgni_notify_user_objs[where t = s])

lemma rcv_search_objs: "rcv_search d ch n r as opn s = Some (Inr s') \<Longrightarrow> same_objs s s'"
  by (induction as arbitrary: opn)
    (auto simp: bind_eq_Some_conv split: if_split_asm option.split_asm dest: rcv_matched_objs)

lemma kgni_sm_chnl_rcv_objs: "kgni_sm_chnl_rcv env mem ch cookie r len_ok s = Some (x, s') \<Longrightarrow> same_objs s s'"
  by (auto simp: kgni_sm_chnl_rcv_def Let_def
      split: Option.bind_split_asm option.split_asm if_split_asm sum.split_asm dest!: rcv_search_objs)

text \<open>The activities of the driver beside the calls: the worker and the two callbacks of the channel.\<close>

fun driver_op :: "sm_op \<Rightarrow> bool" where
  "driver_op (Op_rcv _ _ _ _ _) = True"
| "driver_op (Op_event _ _ _ _) = True"
| "driver_op (Op_task _ _) = True"
| "driver_op _ = False"

lemma driver_op_objs: "driver_op op \<Longrightarrow> sm_exec env op s = Some s' \<Longrightarrow> same_objs s s'"
  by (cases op) (auto dest: kgni_sm_task_objs kgni_sm_chnl_event_objs kgni_sm_chnl_rcv_objs)

lemma cleanup_loop_objs:
  "cleanup_loop n d as s = Some s' \<Longrightarrow> same_objs s s' \<and> nics s' = nics s \<and> chnls s' = chnls s"
proof (induction as arbitrary: s)
  case (Cons a as)
  from Cons.prems obtain m where m: "sms s a = Some m" by (auto simp: bind_eq_Some_conv)
  let ?s = "free_session d a (if on_smtask a s then wake_up_sm n (smtask_del a s) else s)"
  have f: "same_objs s ?s" "nics ?s = nics s" "chnls ?s = chnls s" by (simp, simp_all add: free_session_def upd_cdm_def)
  show ?case
  proof (cases "sm_nic_hndl m = n")
    case True
    with Cons.prems m have "cleanup_loop n d as ?s = Some s'" by (simp add: Let_def)
    from Cons.IH[OF this] f show ?thesis using same_objs_trans by metis
  qed (use Cons m in simp)
qed simp

lemma kgni_sm_cleanup_objs:
  assumes "kgni_sm_cleanup env n (Some d) s = Some s'" and "nics s n = Some nic"
    and "nic_cdm_id nic \<noteq> GNI_CDM_INVALID_ID" and "unat (nic_cdm_id nic) < KGNI_MAX_CDM_NUMBER env"
  shows "nics s' = (nics s)(n \<mapsto> nic\<lparr>nic_sm_pkts := None\<rparr>)" "chnls s' = chnls s" "kgni_cdm_array s' = kgni_cdm_array s"
    "map_option cdm_view \<circ> cdms s' = map_option cdm_view \<circ> cdms s"
proof -
  from assms obtain c s1 where "cdms s d = Some c" "cleanup_loop n d (cdm_sessions c) s = Some s1"
    "s' = upd_nic n (\<lambda>k. k\<lparr>nic_sm_pkts := None\<rparr>) s1" by (auto simp: kgni_sm_cleanup_def bind_eq_Some_conv)
  with cleanup_loop_objs[OF this(2)] assms(2) show "nics s' = (nics s)(n \<mapsto> nic\<lparr>nic_sm_pkts := None\<rparr>)" "chnls s' = chnls s"
    "kgni_cdm_array s' = kgni_cdm_array s" "map_option cdm_view \<circ> cdms s' = map_option cdm_view \<circ> cdms s"
    by (simp_all add: upd_nic_def same_objs_def)
qed

end
