(* ===== verification/Endpoint_Inv.thy ===== *)
theory Endpoint_Inv
  imports Endpoint Session_Frame
begin

text \<open>
  What the endpoint calls rely on and keep: the session manager leaves the objects of the driver alone, every handle points to a
  live object, the reference counts of the completion queues and the event counts of the endpoints are
  exact. Each call is shown to return and to keep this invariant.
\<close>

section \<open>Waiting\<close>

text \<open>During a wait other activities change the driver; the calls ask of them that the invariant and the objects stay.\<close>

definition calm :: "kgni_env \<Rightarrow> (kgni \<Rightarrow> kgni) \<Rightarrow> bool" where
  "calm env f \<longleftrightarrow> (\<forall>k. sm_inv env k \<longrightarrow> sm_inv env (f k) \<and> same_objs k (f k))"

lemma wait_event_safe:
  assumes "\<And>attr k. sm_inv env k \<Longrightarrow> same_objs s0 k \<Longrightarrow>
      ok (cond attr k) (\<lambda>(b, err, attr', out, k'). sm_inv env k' \<and> same_objs k k')"
    and "\<forall>f \<in> set steps. calm env f" and "sm_inv env s" and "same_objs s0 s"
  shows "ok (wait_event cond steps fin attr s) (\<lambda>(err, attr', out, s'). sm_inv env s' \<and> same_objs s0 s')"
  using assms(2-4)
proof (induction steps arbitrary: attr s)
  case Nil
  from assms(1)[OF Nil.prems(2,3), of attr] Nil.prems(3) show ?case
    by (auto simp: ok_bind case_prod_unfold elim!: ok_mono intro: same_objs_trans)
next
  case (Cons f fs)
  have "ok (wait_event cond fs fin attr' (f k')) (\<lambda>(err, attr', out, s'). sm_inv env s' \<and> same_objs s0 s')"
    if "sm_inv env k'" "same_objs s k'" for attr' k'
    by (rule Cons.IH) (use Cons.prems that in \<open>auto simp: calm_def intro: same_objs_trans\<close>)
  with assms(1)[OF Cons.prems(2,3), of attr] Cons.prems(3) show ?case
    by (auto simp: ok_bind case_prod_unfold elim!: ok_mono intro: same_objs_trans)
qed

lemma kgni_sm_wait_state_safe:
  assumes "sm_inv env s" and "env_ok env" and "nics s n = Some nic" and "nic_sm_chnl_hndl nic \<noteq> None"
    and "\<forall>f \<in> set steps. calm env f"
  shows "ok (kgni_sm_wait_state env steps fin n attr s) (\<lambda>(err, attr', out, s'). sm_inv env s' \<and> same_objs s s')"
proof -
  have n: "\<exists>nic. nics k n = Some nic \<and> nic_sm_chnl_hndl nic \<noteq> None" if "same_objs s k" for k
    using same_objs_nic[OF that assms(3)] assms(4) by metis
  have "ok (kgni_sm_wait_condition env n attr k) (\<lambda>(b, err, attr', out, k'). sm_inv env k' \<and> same_objs k k')"
    if k: "sm_inv env k" "same_objs s k" for attr k
  proof -
    obtain nic' where "nics k n = Some nic'" "nic_sm_chnl_hndl nic' \<noteq> None" using n[OF k(2)] by blast
    from okD[OF kgni_sm_get_state_safe[OF k(1) assms(2) this, of attr]] show ?thesis
      by (auto simp: kgni_sm_wait_condition_def dest: kgni_sm_get_state_objs)
  qed
  moreover have "ok (kgni_sm_probe_wait_condition env n attr k) (\<lambda>(b, err, attr', out, k'). sm_inv env k' \<and> same_objs k k')"
    if k: "sm_inv env k" "same_objs s k" for attr k
  proof -
    obtain nic' where "nics k n = Some nic'" using n[OF k(2)] by blast
    from okD[OF kgni_sm_probe_state_safe[OF k(1) this, of attr]] k show ?thesis
      by (auto simp: kgni_sm_probe_wait_condition_def)
  qed
  ultimately show ?thesis
    using assms(1,5) by (auto simp: kgni_sm_wait_state_def intro!: wait_event_safe)
qed

section \<open>The invariant of the endpoint calls\<close>

text \<open>The events a request still waits for, and those of an endpoint in a request, a queue and all queues of its NIC.\<close>

definition pend_events :: "u8 \<Rightarrow> nat" where
  "pend_events c = of_bool (ucast c AND GNI_CQMODE_LOCAL_EVENT \<noteq> 0) + of_bool (ucast c AND GNI_CQMODE_GLOBAL_EVENT \<noteq> 0)"

definition req_pending :: "addr \<Rightarrow> gnii_req \<Rightarrow> nat" where
  "req_pending e r = (if rq_type r \<noteq> GNII_REQ_TYPE_INACTIVE \<and> rq_ep_hndl r = Some e then pend_events (rq_cqes_pending r) else 0)"

definition cq_pending :: "addr \<Rightarrow> gni_cq \<Rightarrow> nat" where
  "cq_pending e q = (case cq_req_list q of None \<Rightarrow> 0 | Some rl \<Rightarrow> sum_list (map (req_pending e) (rl_base rl)))"

definition cqs_pending :: "addr \<Rightarrow> (addr \<rightharpoonup> gni_cq) \<Rightarrow> addr list \<Rightarrow> nat" where
  "cqs_pending e qs cs = sum_list (map (\<lambda>c. case qs c of None \<Rightarrow> 0 | Some q \<Rightarrow> cq_pending e q) cs)"

text \<open>The vector of a list has the announced length, and a list with nothing taken from the free list is idle.\<close>

definition rl_ok :: "gnii_req_list \<Rightarrow> bool" where
  "rl_ok rl \<longleftrightarrow> length (rl_base rl) = unat (rl_nreqs_max rl) \<and>
     (rl_freehead rl = 0 \<longrightarrow> (\<forall>r \<in> set (rl_base rl). rq_type r = GNII_REQ_TYPE_INACTIVE))"

definition ep_users :: "(addr \<rightharpoonup> gni_ep) \<Rightarrow> addr \<Rightarrow> addr set" where
  "ep_users es c = {e. \<exists>ep. es e = Some ep \<and> ep_src_cq_hndl ep = Some c}"

definition cq_nic_ok :: "kgni \<Rightarrow> gni_cq \<Rightarrow> bool" where
  "cq_nic_ok k q \<longleftrightarrow> (\<exists>nic d. nics k (cq_nic_hndl q) = Some nic \<and> nic_cdm_hndl nic = Some d \<and> d \<in> dom (cdms k))"

definition cq_ok :: "kgni \<Rightarrow> gni_cq \<Rightarrow> bool" where
  "cq_ok k q \<longleftrightarrow> cq_type_id q = GNI_TYPE_CQ_HANDLE \<and> cq_nic_ok k q \<and> (\<forall>rl. cq_req_list q = Some rl \<longrightarrow> rl_ok rl)"

definition ep_ok :: "kgni \<Rightarrow> (addr \<rightharpoonup> gni_cq) \<Rightarrow> gni_ep \<Rightarrow> bool" where
  "ep_ok k qs ep \<longleftrightarrow> ep_type_id ep = GNI_TYPE_EP_HANDLE \<and> nic_up (ep_nic_hndl ep) k \<and>
     ep_addr_ok (ep_remote_pe ep) (ep_remote_id ep) \<and> (\<forall>c. ep_src_cq_hndl ep = Some c \<longrightarrow> c \<in> dom qs)"

definition inv_objs :: "api_state \<Rightarrow> bool" where
  "inv_objs s \<longleftrightarrow> finite (dom (eps s)) \<and> (\<forall>n. distinct (cq_list s n) \<and> set (cq_list s n) \<subseteq> dom (cqs s)) \<and>
     (\<forall>c q. cqs s c = Some q \<longrightarrow> cq_ok (api_k s) q) \<and> (\<forall>e ep. eps s e = Some ep \<longrightarrow> ep_ok (api_k s) (cqs s) ep)"

text \<open>The counts are exact: the endpoints of a queue, and the events an endpoint waits for. A request that waits for an
  event of an endpoint is in a queue of the NIC of that endpoint.\<close>

definition inv_refs :: "api_state \<Rightarrow> bool" where
  "inv_refs s \<longleftrightarrow> (\<forall>c q. cqs s c = Some q \<longrightarrow> cq_ep_ref_count q = of_nat (card (ep_users (eps s) c)))"

definition inv_events :: "api_state \<Rightarrow> bool" where
  "inv_events s \<longleftrightarrow>
     (\<forall>e ep. eps s e = Some ep \<longrightarrow> unat (ep_outstanding_tx_reqs ep) = cqs_pending e (cqs s) (cq_list s (ep_nic_hndl ep))) \<and>
     (\<forall>c q e. cqs s c = Some q \<longrightarrow> cq_pending e q \<noteq> 0 \<longrightarrow>
        (\<exists>ep. eps s e = Some ep \<and> c \<in> set (cq_list s (ep_nic_hndl ep))))"

definition api_inv :: "kgni_env \<Rightarrow> api_state \<Rightarrow> bool" where
  "api_inv env s \<longleftrightarrow> sm_inv env (api_k s) \<and> inv_objs s \<and> inv_refs s \<and> inv_events s"

lemma api_invD:
  assumes "api_inv env s"
  shows "sm_inv env (api_k s)" "inv_objs s" "inv_refs s" "inv_events s"
  using assms by (simp_all add: api_inv_def)

lemma api_sel [simp]:
  "api_k (upd_ep e f s) = api_k s" "cqs (upd_ep e f s) = cqs s" "cq_list (upd_ep e f s) = cq_list s"
  "api_k (upd_cq c g s) = api_k s" "eps (upd_cq c g s) = eps s" "cq_list (upd_cq c g s) = cq_list s"
  "api_k (kfree_smsg p s) = api_k s" "eps (kfree_smsg p s) = eps s" "cqs (kfree_smsg p s) = cqs s"
  "cq_list (kfree_smsg p s) = cq_list s"
  by (simp_all add: upd_ep_def upd_cq_def kfree_smsg_def split: option.split)

lemma api_upd:
  "eps (upd_ep e f s) = (eps s)(e := map_option f (eps s e))"
  "cqs (upd_cq c g s) = (cqs s)(c := map_option g (cqs s c))"
  by (simp_all add: upd_ep_def upd_cq_def)

lemma api_inv_smsg [simp]: "api_inv env (kfree_smsg p s) = api_inv env s"
  by (simp add: api_inv_def inv_objs_def inv_refs_def inv_events_def)

lemma api_inv_k:
  assumes "api_inv env s" and "sm_inv env k" and "same_objs (api_k s) k"
  shows "api_inv env (s\<lparr>api_k := k\<rparr>)"
proof -
  have "cq_ok k q" if ok: "cq_ok (api_k s) q" for q
  proof -
    obtain nic d where n: "nics (api_k s) (cq_nic_hndl q) = Some nic" "nic_cdm_hndl nic = Some d" "d \<in> dom (cdms (api_k s))"
      using ok by (auto simp: cq_ok_def cq_nic_ok_def)
    obtain nic' where "nics k (cq_nic_hndl q) = Some nic'" "nic_cdm_hndl nic' = nic_cdm_hndl nic"
      using same_objs_nic[OF assms(3) n(1)] by blast
    with n assms(3) ok show ?thesis by (simp add: cq_ok_def cq_nic_ok_def same_objs_def)
  qed
  moreover have "ep_ok k (cqs s) ep" if ok: "ep_ok (api_k s) (cqs s) ep" for ep
  proof -
    obtain nic where n: "nics (api_k s) (ep_nic_hndl ep) = Some nic" "nic_sm_chnl_hndl nic \<noteq> None"
      using ok by (auto simp: ep_ok_def nic_up_def split: option.splits)
    obtain nic' where "nics k (ep_nic_hndl ep) = Some nic'" "nic_sm_chnl_hndl nic' = nic_sm_chnl_hndl nic"
      using same_objs_nic[OF assms(3) n(1)] by blast
    with n ok show ?thesis by (simp add: ep_ok_def nic_up_def)
  qed
  ultimately show ?thesis
    using assms(1,2) by (auto simp: api_inv_def inv_objs_def inv_refs_def inv_events_def)
qed

text \<open>A change of an endpoint that keeps its place.\<close>

lemma api_inv_upd_ep:
  assumes inv: "api_inv env s" and e: "eps s e = Some ep"
    and f: "ep_type_id (f ep) = ep_type_id ep" "ep_nic_hndl (f ep) = ep_nic_hndl ep" "ep_src_cq_hndl (f ep) = ep_src_cq_hndl ep"
      "ep_outstanding_tx_reqs (f ep) = ep_outstanding_tx_reqs ep" "ep_addr_ok (ep_remote_pe (f ep)) (ep_remote_id (f ep))"
  shows "api_inv env (upd_ep e f s)"
proof -
  have "ep_users ((eps s)(e \<mapsto> f ep)) = ep_users (eps s)" using e f(3) by (auto simp: ep_users_def fun_eq_iff)
  then have "inv_refs (upd_ep e f s)" using api_invD(3)[OF inv] e by (simp add: inv_refs_def api_upd)
  moreover have "inv_objs (upd_ep e f s)" using api_invD(2)[OF inv] e f by (auto simp: inv_objs_def api_upd ep_ok_def)
  moreover have "inv_events (upd_ep e f s)"
  proof -
    have "\<exists>ep'. (eps (upd_ep e f s)) x = Some ep' \<and> c \<in> set (cq_list s (ep_nic_hndl ep'))"
      if q: "cqs s c = Some q" "cq_pending x q \<noteq> 0" for c q x
    proof -
      obtain ep' where "eps s x = Some ep'" "c \<in> set (cq_list s (ep_nic_hndl ep'))"
        using api_invD(4)[OF inv] q unfolding inv_events_def by blast
      with e f(2) show ?thesis by (auto simp: api_upd)
    qed
    with api_invD(4)[OF inv] e f(2,4) show ?thesis by (auto simp: inv_events_def api_upd)
  qed
  ultimately show ?thesis using api_invD(1)[OF inv] by (simp add: api_inv_def)
qed

text \<open>A change of a queue that keeps its requests.\<close>

lemma api_inv_upd_cq:
  assumes inv: "api_inv env s"
    and g: "\<And>q. cq_type_id (g q) = cq_type_id q" "\<And>q. cq_nic_hndl (g q) = cq_nic_hndl q" "\<And>q. cq_req_list (g q) = cq_req_list q"
      "\<And>q. cq_ep_ref_count (g q) = cq_ep_ref_count q"
  shows "api_inv env (upd_cq c g s)"
proof -
  have p: "cq_pending e (g q) = cq_pending e q" for e q using g(3) by (simp add: cq_pending_def)
  have q: "cqs_pending e (cqs (upd_cq c g s)) = cqs_pending e (cqs s)" for e
    by (auto simp: cqs_pending_def api_upd p fun_eq_iff intro!: arg_cong[where f = sum_list] split: option.split)
  have k: "cq_ok k (g q) = cq_ok k q" for k q using g by (simp add: cq_ok_def cq_nic_ok_def)
  have d: "dom (cqs (upd_cq c g s)) = dom (cqs s)" by (auto simp: api_upd dom_def split: if_splits)
  have e: "ep_ok k (cqs (upd_cq c g s)) ep = ep_ok k (cqs s) ep" for k ep using d by (simp add: ep_ok_def)
  show ?thesis
    using inv unfolding api_inv_def inv_objs_def inv_refs_def inv_events_def d q e api_sel
    by (auto simp: api_upd k p g split: if_splits)
qed

section \<open>Cancelling the requests of an endpoint\<close>

definition cancel_req :: "addr \<Rightarrow> gnii_req \<Rightarrow> gnii_req" where
  "cancel_req e r = (if rq_type r \<noteq> GNII_REQ_TYPE_INACTIVE \<and> rq_ep_hndl r = Some e
     then r\<lparr>rq_type := GNII_REQ_TYPE_CANCEL, rq_ep_hndl := None\<rparr> else r)"

definition cancel_cq :: "addr \<Rightarrow> gni_cq \<Rightarrow> gni_cq" where
  "cancel_cq e q = q\<lparr>cq_req_list := map_option (\<lambda>rl. rl\<lparr>rl_base := map (cancel_req e) (rl_base rl)\<rparr>) (cq_req_list q)\<rparr>"

lemma drop_events:
  "drop_event GNI_CQMODE_GLOBAL_EVENT r (drop_event GNI_CQMODE_LOCAL_EVENT r (x, y)) =
     (x - of_nat (pend_events (rq_cqes_pending r)), y + int (pend_events (rq_cqes_pending r)))"
  by (simp add: drop_event_def pend_events_def)

lemma cancel_reqs_eq:
  "length rs = n \<Longrightarrow> cancel_reqs e n rs (x, y) =
     Some (map (cancel_req e) rs, x - of_nat (sum_list (map (req_pending e) rs)), y + int (sum_list (map (req_pending e) rs)))"
proof (induction rs arbitrary: n x y)
  case (Cons r rs)
  then obtain m where m: "n = Suc m" "length rs = m" by auto
  show ?case
    using Cons.IH[OF m(2)] m(1) by (auto simp: drop_events req_pending_def cancel_req_def)
qed simp

lemma req_pending_cancel [simp]: "req_pending x (cancel_req e r) = (if x = e then 0 else req_pending x r)"
  by (simp add: req_pending_def cancel_req_def)

lemma cq_pending_cancel [simp]: "cq_pending x (cancel_cq e q) = (if x = e then 0 else cq_pending x q)"
  by (simp add: cq_pending_def cancel_cq_def comp_def split: option.split)

text \<open>The code skips a list with nothing taken from it; cancelling would change nothing there.\<close>

lemma idle_list:
  assumes "rl_ok rl" and "rl_freehead rl = 0"
  shows "map (cancel_req e) (rl_base rl) = rl_base rl" "sum_list (map (req_pending e) (rl_base rl)) = 0"
  using assms by (auto simp: rl_ok_def cancel_req_def req_pending_def intro: map_idI)

lemma cancel_cqs_eq:
  assumes "distinct cs" and "set cs \<subseteq> dom (cqs s)" and "\<And>c q. cqs s c = Some q \<Longrightarrow> cq_ok k q"
  shows "cancel_cqs e cs (x, y) s = Some ((x - of_nat (cqs_pending e (cqs s) cs), y + int (cqs_pending e (cqs s) cs)),
     s\<lparr>cqs := \<lambda>c. if c \<in> set cs then map_option (cancel_cq e) (cqs s c) else cqs s c\<rparr>)"
  using assms
proof (induction cs arbitrary: x y s)
  case (Cons c cs)
  then obtain q where q: "cqs s c = Some q" by auto
  let ?n = "cq_pending e q" and ?s = "s\<lparr>cqs := (cqs s)(c \<mapsto> cancel_cq e q)\<rparr>"
  have rest: "cqs_pending e (cqs ?s) cs = cqs_pending e (cqs s) cs"
    using Cons.prems(1) by (auto simp: cqs_pending_def intro!: arg_cong[where f = sum_list] map_cong)
  have "cq_ok k (cancel_cq e q)" using Cons.prems(3)[OF q]
    by (auto simp: cq_ok_def cancel_cq_def cq_nic_ok_def rl_ok_def cancel_req_def)
  then have "cancel_cqs e cs (x', y') ?s = Some ((x' - of_nat (cqs_pending e (cqs ?s) cs), y' + int (cqs_pending e (cqs ?s) cs)),
     ?s\<lparr>cqs := \<lambda>b. if b \<in> set cs then map_option (cancel_cq e) (cqs ?s b) else cqs ?s b\<rparr>)" for x' y'
    by (intro Cons.IH) (use Cons.prems in \<open>auto split: if_splits\<close>)
  moreover have "?s\<lparr>cqs := \<lambda>b. if b \<in> set cs then map_option (cancel_cq e) (cqs ?s b) else cqs ?s b\<rparr> =
     s\<lparr>cqs := \<lambda>b. if b \<in> set (c # cs) then map_option (cancel_cq e) (cqs s b) else cqs s b\<rparr>"
    using Cons.prems(1) q by (auto simp: fun_eq_iff)
  moreover have "cancel_cqs e (c # cs) (x, y) s = cancel_cqs e cs (x - of_nat ?n, y + int ?n) ?s"
  proof (cases "cq_req_list q")
    case None
    then have "cancel_cq e q = q" "?n = 0" by (simp_all add: cancel_cq_def cq_pending_def)
    with None q show ?thesis by (simp add: fun_upd_idem)
  next
    case (Some rl)
    then have ok: "rl_ok rl" using Cons.prems(3)[OF q] by (simp add: cq_ok_def)
    show ?thesis
    proof (cases "rl_freehead rl = 0")
      case True
      then have "cancel_cq e q = q" "?n = 0" using Some idle_list[OF ok True] by (simp_all add: cancel_cq_def cq_pending_def)
      with True Some q show ?thesis by (simp add: fun_upd_idem)
    next
      case False
      have "cancel_reqs e (unat (rl_nreqs_max rl)) (rl_base rl) (x, y) =
          Some (map (cancel_req e) (rl_base rl), x - of_nat ?n, y + int ?n)"
        using ok Some by (simp add: cancel_reqs_eq rl_ok_def cq_pending_def)
      with False Some q show ?thesis by (simp add: upd_cq_def cancel_cq_def)
    qed
  qed
  ultimately show ?case
    using q rest by (simp add: cqs_pending_def algebra_simps)
qed (simp add: cqs_pending_def)

text \<open>After the cancellation no queue has a request that waits for an event of the endpoint, and nothing else changes.\<close>

lemma kgni_ep_req_cancel_safe:
  assumes inv: "api_inv env s" and e: "eps s e = Some ep"
  shows "\<exists>cq'. kgni_ep_req_cancel e s = Some (int (unat (ep_outstanding_tx_reqs ep)),
      s\<lparr>eps := (eps s)(e \<mapsto> ep\<lparr>ep_outstanding_tx_reqs := 0\<rparr>), cqs := cq'\<rparr>) \<and>
    (\<forall>c. cq' c = cqs s c \<or> (\<exists>q. cqs s c = Some q \<and> cq' c = Some (cancel_cq e q))) \<and>
    (\<forall>c q. cq' c = Some q \<longrightarrow> cq_pending e q = 0)"
proof -
  let ?cs = "cq_list s (ep_nic_hndl ep)"
  let ?cq = "\<lambda>c. if c \<in> set ?cs then map_option (cancel_cq e) (cqs s c) else cqs s c"
  have n: "unat (ep_outstanding_tx_reqs ep) = cqs_pending e (cqs s) ?cs"
    using api_invD(4)[OF inv] e by (simp add: inv_events_def)
  then have "of_nat (cqs_pending e (cqs s) ?cs) = ep_outstanding_tx_reqs ep" by (metis of_nat_unat ucast_id)
  moreover have "cancel_cqs e ?cs (x, y) s = Some ((x - of_nat (cqs_pending e (cqs s) ?cs), y + int (cqs_pending e (cqs s) ?cs)),
     s\<lparr>cqs := ?cq\<rparr>)" for x y
    by (rule cancel_cqs_eq) (use api_invD(2)[OF inv] in \<open>auto simp: inv_objs_def\<close>)
  ultimately have run: "kgni_ep_req_cancel e s = Some (int (unat (ep_outstanding_tx_reqs ep)),
      s\<lparr>eps := (eps s)(e \<mapsto> ep\<lparr>ep_outstanding_tx_reqs := 0\<rparr>), cqs := ?cq\<rparr>)"
    using e n by (simp add: kgni_ep_req_cancel_def upd_ep_def)
  have "cq_pending e q = 0" if q: "?cq c = Some q" for c q
  proof (cases "c \<in> set ?cs")
    case True
    with q show ?thesis by auto
  next
    case False
    with q have "cqs s c = Some q" by simp
    with False api_invD(4)[OF inv] e show ?thesis unfolding inv_events_def by (metis option.inject)
  qed
  moreover have "\<forall>c. ?cq c = cqs s c \<or> (\<exists>q. cqs s c = Some q \<and> ?cq c = Some (cancel_cq e q))" by auto
  ultimately show ?thesis using run by blast
qed

section \<open>Every call keeps the invariant\<close>

lemma check_ep_safe:
  assumes "api_inv env s" and "h = None \<or> (\<exists>e ep. h = Some e \<and> eps s e = Some ep)"
  shows "check_ep h s = Some None \<or> (\<exists>e ep. check_ep h s = Some (Some (e, ep)) \<and> h = Some e \<and> eps s e = Some ep \<and> ep_ok (api_k s) (cqs s) ep)"
  using assms by (auto simp: check_ep_def api_inv_def inv_objs_def ep_ok_def split: option.split)

text \<open>The handle of an endpoint call: NULL, or an endpoint that exists.\<close>

definition live_ep :: "addr option \<Rightarrow> api_state \<Rightarrow> bool" where
  "live_ep h s \<longleftrightarrow> (case h of None \<Rightarrow> True | Some e \<Rightarrow> eps s e \<noteq> None)"

lemma ep_call_cases:
  assumes "api_inv env s" and "live_ep h s"
  obtains "check_ep h s = Some None"
  | e ep nic where "check_ep h s = Some (Some (e, ep))" "eps s e = Some ep" "ep_ok (api_k s) (cqs s) ep"
      "nics (api_k s) (ep_nic_hndl ep) = Some nic" "nic_sm_chnl_hndl nic \<noteq> None"
proof (cases h)
  case None
  with that(1) show thesis by (simp add: check_ep_def)
next
  case (Some e)
  with assms(2) obtain ep where ep: "eps s e = Some ep" by (auto simp: live_ep_def)
  then have ok: "ep_ok (api_k s) (cqs s) ep" using api_invD(2)[OF assms(1)] by (simp add: inv_objs_def)
  then obtain nic where "nics (api_k s) (ep_nic_hndl ep) = Some nic" "nic_sm_chnl_hndl nic \<noteq> None"
    by (auto simp: ep_ok_def nic_up_def split: option.splits)
  with ep ok Some that(2) show thesis by (simp add: check_ep_def ep_ok_def)
qed

lemma ep_ok_addr: "ep_ok k qs ep \<Longrightarrow> ep_addr_ok (ep_remote_pe ep) (ep_remote_id ep)"
  by (simp add: ep_ok_def)

text \<open>The bookkeeping around a call of the session manager.\<close>

lemma api_inv_pending:
  assumes "api_inv env s" and "eps s e = Some ep"
  shows "api_inv env (upd_ep e (\<lambda>p. p\<lparr>ep_pending_datagram := b\<rparr>) s)"
    and "api_inv env (upd_ep e (\<lambda>p. p\<lparr>ep_datagram_out_buf := x, ep_datagram_buf_size := y\<rparr>) s)"
  using api_invD(2)[OF assms(1)] assms by (auto intro!: api_inv_upd_ep simp: inv_objs_def ep_ok_def)

lemma clear_pending_inv:
  "api_inv env s \<Longrightarrow> eps s e = Some ep \<Longrightarrow> api_inv env (clear_pending e b s)"
  by (simp add: clear_pending_def api_inv_pending)

lemma post_result_inv:
  "api_inv env (s\<lparr>api_k := k\<rparr>) \<Longrightarrow> eps s e = Some ep \<Longrightarrow> api_inv env (snd (post_result xenv e s (r, k)))"
  by (simp add: post_result_def api_inv_pending)

lemma test_outputs_inv:
  "api_inv env (s\<lparr>api_k := k\<rparr>) \<Longrightarrow> eps s e = Some ep \<Longrightarrow> api_inv env (snd (test_outputs xenv e s (r, args, out, k)))"
  by (auto simp: test_outputs_def Let_def intro: clear_pending_inv)

lemma wait_outputs_inv:
  "api_inv env (s\<lparr>api_k := k\<rparr>) \<Longrightarrow> eps s e = Some ep \<Longrightarrow> api_inv env (snd (wait_outputs xenv e s (r, args, out, k)))"
  by (auto simp: wait_outputs_def Let_def intro: clear_pending_inv)

lemma cancel_result_inv: "api_inv env (s\<lparr>api_k := k\<rparr>) \<Longrightarrow> api_inv env (snd (cancel_result xenv s (r, k)))"
  by (simp add: cancel_result_def)

lemma sm_post:
  assumes "api_inv env s" and "env_ok env" and "eps s e = Some ep" and "mem_ok mem (api_k s)"
    and "pd_remote_pe args = ep_remote_pe ep" and "pd_remote_id args = ep_remote_id ep"
  shows "ok (kgni_sm_add_session env mem (ep_nic_hndl ep) args (api_k s)) (\<lambda>res. api_inv env (snd (post_result xenv e s res)))"
proof -
  have ep: "ep_ok (api_k s) (cqs s) ep" using api_invD(2)[OF assms(1)] assms(3) by (simp add: inv_objs_def)
  then obtain nic where "nics (api_k s) (ep_nic_hndl ep) = Some nic" by (auto simp: ep_ok_def nic_up_def split: option.splits)
  from okD[OF kgni_sm_add_session_safe[OF api_invD(1)[OF assms(1)] assms(2) this _ assms(4), of args]] ep_ok_addr[OF ep]
  obtain r k where "kgni_sm_add_session env mem (ep_nic_hndl ep) args (api_k s) = Some (r, k)" "sm_inv env k"
    using assms(5,6) by auto
  with kgni_sm_add_session_objs[OF this(1)] show ?thesis
    using post_result_inv[OF api_inv_k[OF assms(1)] assms(3)] by simp
qed

lemma sm_test:
  assumes "api_inv env s" and "env_ok env" and "eps s e = Some ep"
    and "nics (api_k s) (ep_nic_hndl ep) = Some nic" and "nic_sm_chnl_hndl nic \<noteq> None"
  shows "ok (kgni_sm_get_state env (ep_nic_hndl ep) args (api_k s)) (\<lambda>res. api_inv env (snd (test_outputs xenv e s res)))"
proof -
  from okD[OF kgni_sm_get_state_safe[OF api_invD(1)[OF assms(1)] assms(2,4,5), of args]]
  obtain r a out k where "kgni_sm_get_state env (ep_nic_hndl ep) args (api_k s) = Some (r, a, out, k)" "sm_inv env k" by auto
  with kgni_sm_get_state_objs[OF this(1)] show ?thesis
    using test_outputs_inv[OF api_inv_k[OF assms(1)] assms(3)] by simp
qed

lemma sm_cancel:
  assumes "api_inv env s" and "env_ok env" and "ep_ok (api_k s) (cqs s) ep"
    and "nics (api_k s) (ep_nic_hndl ep) = Some nic" and "nic_sm_chnl_hndl nic \<noteq> None"
    and "pc_remote_pe args = ep_remote_pe ep" and "pc_remote_id args = ep_remote_id ep"
  shows "ok (kgni_sm_terminate env (ep_nic_hndl ep) args (api_k s)) (\<lambda>res. api_inv env (snd (cancel_result xenv s res)))"
proof -
  from okD[OF kgni_sm_terminate_safe[OF api_invD(1)[OF assms(1)] assms(2,4,5), of args]] ep_ok_addr[OF assms(3)]
  obtain r k where "kgni_sm_terminate env (ep_nic_hndl ep) args (api_k s) = Some (r, k)" "sm_inv env k"
    using assms(6,7) by auto
  with kgni_sm_terminate_objs[OF this(1)] show ?thesis using cancel_result_inv[OF api_inv_k[OF assms(1)]] by simp
qed

lemma gni_ep_postdata_safe:
  assumes "api_inv env s" and "env_ok env" and "live_ep h s" and "mem_ok mem (api_k s)"
  shows "ok (gni_ep_postdata env xenv mem junk h in_data data_len out_buf buf_size s) (api_inv env \<circ> snd)"
  using assms(1,3)
proof (cases rule: ep_call_cases)
  case (2 e ep nic)
  let ?s = "upd_ep e (\<lambda>p. p\<lparr>ep_datagram_out_buf := out_buf, ep_datagram_buf_size := buf_size\<rparr>) s"
  let ?ep = "ep\<lparr>ep_datagram_out_buf := out_buf, ep_datagram_buf_size := buf_size\<rparr>"
  have "api_inv env ?s" using api_inv_pending(2)[OF assms(1) 2(2)] .
  from sm_post[OF this assms(2), of e ?ep mem] 2 assms show ?thesis
    by (auto simp: gni_ep_postdata_def Let_def ok_bind api_upd elim!: ok_mono)
qed (use assms(1) in \<open>simp add: gni_ep_postdata_def\<close>)

lemma gni_ep_postdata_w_id_safe:
  assumes "api_inv env s" and "env_ok env" and "live_ep h s" and "mem_ok mem (api_k s)"
  shows "ok (gni_ep_postdata_w_id env xenv mem junk h in_data data_len out_buf buf_size i s) (api_inv env \<circ> snd)"
  using assms(1,3)
proof (cases rule: ep_call_cases)
  case (2 e ep nic)
  let ?s = "upd_ep e (\<lambda>p. p\<lparr>ep_datagram_out_buf := out_buf, ep_datagram_buf_size := buf_size\<rparr>) s"
  let ?ep = "ep\<lparr>ep_datagram_out_buf := out_buf, ep_datagram_buf_size := buf_size\<rparr>"
  have "api_inv env ?s" using api_inv_pending(2)[OF assms(1) 2(2)] .
  from sm_post[OF this assms(2), of e ?ep mem] 2 assms show ?thesis
    by (auto simp: gni_ep_postdata_w_id_def Let_def ok_bind api_upd elim!: ok_mono)
qed (use assms(1) in \<open>simp add: gni_ep_postdata_w_id_def\<close>)

lemma gni_ep_postdata_test_safe:
  assumes "api_inv env s" and "env_ok env" and "live_ep h s"
  shows "ok (gni_ep_postdata_test env xenv junk h outs s) (api_inv env \<circ> snd) \<and>
    ok (gni_ep_postdata_test_by_id env xenv junk h i outs s) (api_inv env \<circ> snd)"
  using assms(1,3)
proof (cases rule: ep_call_cases)
  case (2 e ep nic)
  from 2 sm_test[OF assms(1,2) 2(2,4,5)] assms(1)
  show ?thesis
    by (auto simp: gni_ep_postdata_test_def gni_ep_postdata_test_by_id_def Let_def ok_bind elim!: ok_mono)
qed (use assms(1) in \<open>simp_all add: gni_ep_postdata_test_def gni_ep_postdata_test_by_id_def\<close>)

lemma gni_ep_postdata_wait_safe:
  assumes "api_inv env s" and "env_ok env" and "live_ep h s" and "\<forall>f \<in> set steps. calm env f"
  shows "ok (gni_ep_postdata_wait env xenv steps fin junk h timeout outs s) (api_inv env \<circ> snd)"
  using assms(1,3)
proof (cases rule: ep_call_cases)
  case (2 e ep nic)
  have "ok (kgni_sm_wait_state env steps fin (ep_nic_hndl ep) args (api_k s)) (\<lambda>res. api_inv env (snd (wait_outputs xenv e s res)))" for args
  proof -
    from okD[OF kgni_sm_wait_state_safe[OF api_invD(1)[OF assms(1)] assms(2) 2(4,5) assms(4), of fin args]]
    obtain r a out k where "kgni_sm_wait_state env steps fin (ep_nic_hndl ep) args (api_k s) = Some (r, a, out, k)"
      "sm_inv env k" "same_objs (api_k s) k" by auto
    then show ?thesis using wait_outputs_inv[OF api_inv_k[OF assms(1)] 2(2)] by simp
  qed
  with 2 assms(1) show ?thesis by (auto simp: gni_ep_postdata_wait_def Let_def ok_bind elim!: ok_mono)
qed (use assms(1) in \<open>simp add: gni_ep_postdata_wait_def\<close>)

lemma gni_ep_postdata_cancel_safe:
  assumes "api_inv env s" and "env_ok env" and "live_ep h s"
  shows "ok (gni_ep_postdata_cancel env xenv junk h s) (api_inv env \<circ> snd) \<and>
    ok (gni_ep_postdata_cancel_by_id env xenv junk h i s) (api_inv env \<circ> snd)"
  using assms(1,3)
proof (cases rule: ep_call_cases)
  case (2 e ep nic)
  from 2 sm_cancel[OF assms(1,2) 2(3,4,5)] assms(1)
  show ?thesis
    by (auto simp: gni_ep_postdata_cancel_def gni_ep_postdata_cancel_by_id_def ok_map_option comp_def)
qed (use assms(1) in \<open>simp_all add: gni_ep_postdata_cancel_def gni_ep_postdata_cancel_by_id_def\<close>)

lemma ep_users_finite: "api_inv env s \<Longrightarrow> finite (ep_users (eps s) c)"
  by (rule finite_subset[of _ "dom (eps s)"]) (auto simp: ep_users_def api_inv_def inv_objs_def)

lemma no_ep_no_events:
  assumes "api_inv env s" and "eps s e = None" and "cqs s c = Some q"
  shows "cq_pending e q = 0"
  using api_invD(4)[OF assms(1)] assms(2,3) unfolding inv_events_def by (metis option.distinct(1))

lemma cqs_pending_0: "(\<And>c q. qs c = Some q \<Longrightarrow> cq_pending e q = 0) \<Longrightarrow> cqs_pending e qs cs = 0"
  by (auto simp: cqs_pending_def split: option.split)

lemma cqs_pending_cong:
  "(\<And>c. map_option (cq_pending e) (qs c) = map_option (cq_pending e) (qs' c)) \<Longrightarrow> cqs_pending e qs cs = cqs_pending e qs' cs"
  unfolding cqs_pending_def by (intro arg_cong[where f = sum_list] map_cong refl) (metis option.map_disc_iff option.case_eq_if option.exhaust_sel option.map_sel)

text \<open>The reference count of a queue follows its endpoints.\<close>

definition ref_upd :: "addr option \<Rightarrow> u32 \<Rightarrow> api_state \<Rightarrow> api_state" where
  "ref_upd src x s = (case src of None \<Rightarrow> s | Some c \<Rightarrow> upd_cq c (\<lambda>q. q\<lparr>cq_ep_ref_count := cq_ep_ref_count q + x\<rparr>) s)"

lemma ref_upd_sel [simp]:
  "api_k (ref_upd src x s) = api_k s" "eps (ref_upd src x s) = eps s" "cq_list (ref_upd src x s) = cq_list s"
  by (simp_all add: ref_upd_def split: option.split)

lemma ref_upd_cqs:
  "cqs (ref_upd src x s) = (\<lambda>c. if src = Some c then map_option (\<lambda>q. q\<lparr>cq_ep_ref_count := cq_ep_ref_count q + x\<rparr>) (cqs s c) else cqs s c)"
  by (auto simp: ref_upd_def api_upd fun_eq_iff split: option.split)

lemma ref_upd_dom [simp]: "dom (cqs (ref_upd src x s)) = dom (cqs s)"
  by (auto simp: ref_upd_cqs dom_def)

lemma cq_ok_ref [simp]: "cq_ok k (q\<lparr>cq_ep_ref_count := n\<rparr>) = cq_ok k q"
  "cq_pending e (q\<lparr>cq_ep_ref_count := n\<rparr>) = cq_pending e q"
  by (simp_all add: cq_ok_def cq_nic_ok_def cq_pending_def)

lemma inv_events_cong:
  assumes "inv_events s" and "eps s' = eps s" and "cq_list s' = cq_list s"
    and "\<And>c e. map_option (cq_pending e) (cqs s' c) = map_option (cq_pending e) (cqs s c)"
  shows "inv_events s'"
proof -
  have "cqs_pending e (cqs s') cs = cqs_pending e (cqs s) cs" for e cs by (rule cqs_pending_cong) (rule assms(4))
  moreover have "\<exists>q'. cqs s c = Some q' \<and> cq_pending e q' = cq_pending e q" if "cqs s' c = Some q" for c q e
    using assms(4)[of e c] that by (cases "cqs s c") auto
  ultimately show ?thesis
    using assms(1) unfolding inv_events_def assms(2,3) by (metis (no_types, lifting))
qed

lemma api_inv_new_ep:
  assumes inv: "api_inv env s" and e: "eps s e = None" and ep: "ep_ok (api_k s) (cqs s) ep" "ep_outstanding_tx_reqs ep = 0"
  shows "api_inv env (ref_upd (ep_src_cq_hndl ep) 1 (s\<lparr>eps := (eps s)(e \<mapsto> ep)\<rparr>))" (is "api_inv env ?s")
proof -
  have "ep_users (eps ?s) c = (if ep_src_cq_hndl ep = Some c then insert e (ep_users (eps s) c) else ep_users (eps s) c)" for c
    using e by (auto simp: ep_users_def)
  moreover have "e \<notin> ep_users (eps s) c" for c using e by (simp add: ep_users_def)
  ultimately have "card (ep_users (eps ?s) c) = card (ep_users (eps s) c) + of_bool (ep_src_cq_hndl ep = Some c)" for c
    using ep_users_finite[OF inv, of c] by simp
  then have "inv_refs ?s"
    using api_invD(3)[OF inv] by (auto simp: inv_refs_def ref_upd_cqs split: if_splits)
  moreover have "inv_objs ?s"
  proof -
    have "cq_ok (api_k s) q" if "cqs ?s c = Some q" for c q
      using api_invD(2)[OF inv] that by (auto simp: inv_objs_def ref_upd_cqs split: if_splits)
    with api_invD(2)[OF inv] ep(1) show ?thesis by (simp add: inv_objs_def ep_ok_def)
  qed
  moreover have "inv_events ?s"
  proof (rule inv_events_cong)
    have none: "cqs_pending e (cqs s) cs = 0" for cs by (rule cqs_pending_0) (rule no_ep_no_events[OF inv e])
    have "\<exists>ep'. ((eps s)(e \<mapsto> ep)) x = Some ep' \<and> c \<in> set (cq_list s (ep_nic_hndl ep'))"
      if q: "cqs s c = Some q" "cq_pending x q \<noteq> 0" for c q x
    proof -
      have "x \<noteq> e" using no_ep_no_events[OF inv e q(1)] q(2) by auto
      with api_invD(4)[OF inv] q show ?thesis unfolding inv_events_def by auto
    qed
    with api_invD(4)[OF inv] ep(2) none show "inv_events (s\<lparr>eps := (eps s)(e \<mapsto> ep)\<rparr>)"
      by (auto simp: inv_events_def)
  qed (auto simp: ref_upd_cqs option.map_comp comp_def)
  ultimately show ?thesis using api_invD(1)[OF inv] by (simp add: api_inv_def)
qed

text \<open>The handles of a create call.\<close>

definition create_pre :: "addr option \<Rightarrow> addr option \<Rightarrow> addr option \<Rightarrow> api_state \<Rightarrow> bool" where
  "create_pre mem nh cq s \<longleftrightarrow> (case mem of None \<Rightarrow> True | Some e \<Rightarrow> eps s e = None) \<and>
     (case nh of None \<Rightarrow> True | Some n \<Rightarrow> nic_up n (api_k s)) \<and> (case cq of None \<Rightarrow> True | Some c \<Rightarrow> cqs s c \<noteq> None)"

lemma gni_ep_create_safe:
  assumes inv: "api_inv env s" and pre: "create_pre mem nh cq s"
  shows "ok (gni_ep_create mem nh cq s) (api_inv env \<circ> snd \<circ> snd)"
proof (cases nh)
  case None
  with inv show ?thesis by (simp add: gni_ep_create_def check_nic_def)
next
  case (Some n)
  with pre obtain nic where n: "nics (api_k s) n = Some nic" "nic_up n (api_k s)"
    by (auto simp: create_pre_def nic_up_def split: option.splits)
  have cq: "(case cq of None \<Rightarrow> Some True | Some c \<Rightarrow> do { q \<leftarrow> cqs s c; Some (cq_type_id q = GNI_TYPE_CQ_HANDLE) }) = Some True"
    using pre api_invD(2)[OF inv] by (auto simp: create_pre_def inv_objs_def cq_ok_def split: option.splits)
  let ?ep = "\<lparr>ep_type_id = GNI_TYPE_EP_HANDLE, ep_nic_hndl = n, ep_remote_pe = GNII_REMOTE_PE_ANY,
     ep_remote_id = GNII_REMOTE_ID_ANY, ep_remote_event = GNII_REMOTE_ID_ANY, ep_local_event = 0,
     ep_src_cq_hndl = cq, ep_outstanding_tx_reqs = 0, ep_datagram_out_buf = False, ep_datagram_buf_size = 0,
     ep_pending_datagram = 0, ep_smsg = None, ep_smsg_type = GNI_SMSG_TYPE_INVALID\<rparr>"
  have ok: "ep_ok (api_k s) (cqs s) ?ep" using n pre by (auto simp: ep_ok_def ep_addr_ok_def create_pre_def)
  have "api_inv env (ref_upd cq 1 (s\<lparr>eps := (eps s)(e \<mapsto> ?ep)\<rparr>))" if "mem = Some e" for e
    using api_inv_new_ep[OF inv _ ok] that pre by (simp add: create_pre_def)
  with n cq Some inv show ?thesis
    by (auto simp: gni_ep_create_def check_nic_def Let_def ref_upd_def split: option.split)
qed

lemma gni_ep_set_eventdata_safe:
  assumes "api_inv env s" and "live_ep h s"
  shows "ok (gni_ep_set_eventdata h x y s) (api_inv env \<circ> snd)"
  using assms
proof (cases rule: ep_call_cases)
  case (2 e ep nic)
  with assms(1) show ?thesis
    by (auto simp: gni_ep_set_eventdata_def intro!: api_inv_upd_ep dest: ep_ok_addr)
qed (use assms(1) in \<open>simp add: gni_ep_set_eventdata_def\<close>)

text \<open>A fresh request list is idle.\<close>

lemma reqlist_base_idle: "length (reqlist_base raw n) = n" "r \<in> set (reqlist_base raw n) \<Longrightarrow> rq_type r = GNII_REQ_TYPE_INACTIVE"
  by (auto simp: reqlist_base_def)

lemma api_inv_new_list:
  assumes inv: "api_inv env s" and q: "cqs s c = Some q" "cq_req_list q = None"
    and rl: "rl_ok rl" "rl_freehead rl = 0"
  shows "api_inv env (upd_cq c (\<lambda>q. q\<lparr>cq_req_list := Some rl\<rparr>) s)"
proof -
  let ?s = "upd_cq c (\<lambda>q. q\<lparr>cq_req_list := Some rl\<rparr>) s"
  have p: "cq_pending e (q\<lparr>cq_req_list := Some rl\<rparr>) = cq_pending e q" for e
    using idle_list(2)[OF rl] q(2) by (simp add: cq_pending_def)
  have "inv_events ?s" by (rule inv_events_cong[OF api_invD(4)[OF inv]]) (use q p in \<open>auto simp: api_upd\<close>)
  moreover have "inv_refs ?s" using api_invD(3)[OF inv] q by (auto simp: inv_refs_def api_upd)
  moreover have "inv_objs ?s"
  proof -
    have "cq_ok (api_k s) q" using api_invD(2)[OF inv] q(1) by (simp add: inv_objs_def)
    then have "cq_ok (api_k s) (q\<lparr>cq_req_list := Some rl\<rparr>)" using rl(1) by (simp add: cq_ok_def cq_nic_ok_def)
    with api_invD(2)[OF inv] q(1) show ?thesis by (auto simp: inv_objs_def api_upd ep_ok_def)
  qed
  ultimately show ?thesis using api_invD(1)[OF inv] by (simp add: api_inv_def)
qed

lemma kgni_reqlist_alloc_safe:
  assumes inv: "api_inv env s" and q: "cqs s c = Some q" "cq_req_list q = None"
  shows "ok (kgni_reqlist_alloc mem (Some c) s) (\<lambda>(e, s'). api_inv env s')"
proof -
  have "cq_ok (api_k s) q" using api_invD(2)[OF inv] q(1) by (simp add: inv_objs_def)
  then obtain nic d cdm where n: "nics (api_k s) (cq_nic_hndl q) = Some nic" "nic_cdm_hndl nic = Some d" "cdms (api_k s) d = Some cdm"
    by (auto simp: cq_ok_def cq_nic_ok_def)
  have "api_inv env (upd_cq c (\<lambda>q. q\<lparr>cq_req_list := Some \<lparr>rl_nreqs_max = k, rl_freehead = 0,
      rl_base = reqlist_base raw (unat k), rl_freelist = fl\<rparr>\<rparr>) s)" for k raw fl
    by (rule api_inv_new_list[OF inv q]) (simp_all add: rl_ok_def reqlist_base_idle)
  with n q inv show ?thesis
    by (simp add: kgni_reqlist_alloc_def Let_def split: option.split)
qed

lemma gni_ep_bind_safe:
  assumes inv: "api_inv env s" and live: "live_ep h s" and addr: "ep_addr_ok pe i"
  shows "ok (gni_ep_bind xenv mem h pe i s) (api_inv env \<circ> snd)"
  using inv live
proof (cases rule: ep_call_cases)
  case (2 e ep nic)
  let ?s = "upd_ep e (\<lambda>p. p\<lparr>ep_remote_pe := pe, ep_remote_id := i, ep_local_event := i, ep_remote_event := nic_inst_id nic\<rparr>) s"
  have i: "api_inv env ?s" by (rule api_inv_upd_ep[OF inv 2(2)]) (use addr in simp_all)
  show ?thesis
  proof (cases "ep_src_cq_hndl ep")
    case None
    with 2 i inv show ?thesis by (simp add: gni_ep_bind_def Let_def)
  next
    case (Some c)
    then obtain q where q: "cqs ?s c = Some q" using 2(3) by (auto simp: ep_ok_def)
    from 2 Some q i inv kgni_reqlist_alloc_safe[OF i q, of mem] show ?thesis
      by (auto simp: gni_ep_bind_def Let_def ok_bind case_prod_unfold elim!: ok_mono)
  qed
qed (use inv in \<open>simp add: gni_ep_bind_def\<close>)

lemma remove_blocked_inv: "api_inv env s \<Longrightarrow> api_inv env (GNII_SMSG_REMOVE_BLOCKED_EP xenv e ep s)"
  by (auto simp: GNII_SMSG_REMOVE_BLOCKED_EP_def intro!: api_inv_upd_cq split: option.split)

lemma gni_ep_unbind_safe:
  assumes inv: "api_inv env s" and live: "live_ep h s"
  shows "ok (gni_ep_unbind xenv h s) (api_inv env \<circ> snd)"
  using inv live
proof (cases rule: ep_call_cases)
  case (2 e ep nic)
  have "api_inv env (upd_ep e (\<lambda>p. p\<lparr>ep_remote_pe := GNII_REMOTE_PE_ANY, ep_remote_id := GNII_REMOTE_ID_ANY, ep_smsg := None\<rparr>) s)"
    by (rule api_inv_upd_ep[OF inv 2(2)]) (simp_all add: ep_addr_ok_def)
  with 2 inv show ?thesis by (simp add: gni_ep_unbind_def remove_blocked_inv)
qed (use inv in \<open>simp add: gni_ep_unbind_def\<close>)

lemma cq_ref_cancel [simp]: "cq_ep_ref_count (cancel_cq e q) = cq_ep_ref_count q"
  by (simp add: cancel_cq_def)

lemma cq_ok_cancel: "cq_ok k q \<Longrightarrow> cq_ok k (cancel_cq e q)"
  by (auto simp: cq_ok_def cancel_cq_def cq_nic_ok_def rl_ok_def cancel_req_def)

lemma cqs_pending_remove:
  assumes "x \<noteq> e" and "\<forall>c. qs' c = qs c \<or> (\<exists>q. qs c = Some q \<and> qs' c = Some (cancel_cq e q))"
  shows "cqs_pending x qs' cs = cqs_pending x qs cs"
proof (rule cqs_pending_cong)
  fix c show "map_option (cq_pending x) (qs' c) = map_option (cq_pending x) (qs c)"
    using assms by (cases "qs' c = qs c") auto
qed

lemma api_inv_remove_ep:
  assumes inv: "api_inv env s" and e: "eps s e = Some ep"
    and qs: "\<forall>c. qs' c = cqs s c \<or> (\<exists>q. cqs s c = Some q \<and> qs' c = Some (cancel_cq e q))"
    and none: "\<And>c q. qs' c = Some q \<Longrightarrow> cq_pending e q = 0"
  shows "api_inv env (ref_upd (ep_src_cq_hndl ep) (- 1) (s\<lparr>eps := (eps s)(e := None), cqs := qs'\<rparr>))" (is "api_inv env ?s")
proof -
  let ?t = "s\<lparr>eps := (eps s)(e := None), cqs := qs'\<rparr>"
  have old: "\<exists>q0. cqs s c = Some q0 \<and> cq_ep_ref_count q = cq_ep_ref_count q0 \<and> cq_ok (api_k s) q \<and>
      (\<forall>x. x \<noteq> e \<longrightarrow> cq_pending x q = cq_pending x q0)" if "qs' c = Some q" for c q
  proof -
    have k: "cq_ok (api_k s) q0" if "cqs s c = Some q0" for q0 using api_invD(2)[OF inv] that by (simp add: inv_objs_def)
    show ?thesis
    proof (cases "qs' c = cqs s c")
      case True
      with that have "cqs s c = Some q" by simp
      with k show ?thesis by auto
    next
      case False
      with qs[rule_format, of c] that obtain q0 where "cqs s c = Some q0" "q = cancel_cq e q0" by auto
      with k show ?thesis by (auto intro: cq_ok_cancel)
    qed
  qed
  have dom: "dom qs' = dom (cqs s)" using qs by (auto simp: dom_def) (metis option.distinct(1))+
  have u: "ep_users ((eps s)(e := None)) c = ep_users (eps s) c - {e}" for c by (auto simp: ep_users_def)
  have mem: "e \<in> ep_users (eps s) c \<longleftrightarrow> ep_src_cq_hndl ep = Some c" for c using e by (simp add: ep_users_def)
  have "card (ep_users (eps s) c) = card (ep_users ((eps s)(e := None)) c) + of_bool (ep_src_cq_hndl ep = Some c)" for c
    using mem[of c] ep_users_finite[OF inv, of c] card.remove[of "ep_users (eps s) c" e] by (simp add: u)
  then have "inv_refs ?s"
    using api_invD(3)[OF inv] old by (fastforce simp: inv_refs_def ref_upd_cqs split: if_splits)
  moreover have "inv_objs ?s"
  proof -
    have "cq_ok (api_k s) q" if "cqs ?s c = Some q" for c q
      using that old by (fastforce simp: ref_upd_cqs split: if_splits)
    with api_invD(2)[OF inv] dom show ?thesis by (auto simp: inv_objs_def ep_ok_def)
  qed
  moreover have "inv_events ?s"
  proof (rule inv_events_cong)
    have "cqs_pending x qs' cs = cqs_pending x (cqs s) cs" if "x \<noteq> e" for x cs
      using cqs_pending_remove[OF that qs] .
    moreover have "\<exists>ep'. eps ?t x = Some ep' \<and> c \<in> set (cq_list s (ep_nic_hndl ep'))"
      if q: "qs' c = Some q" "cq_pending x q \<noteq> 0" for c q x
    proof -
      have "x \<noteq> e" using none q by auto
      with old[OF q(1)] q(2) obtain q0 where "cqs s c = Some q0" "cq_pending x q0 \<noteq> 0" by auto
      with api_invD(4)[OF inv] \<open>x \<noteq> e\<close> show ?thesis unfolding inv_events_def by auto
    qed
    ultimately show "inv_events ?t" using api_invD(4)[OF inv] by (auto simp: inv_events_def)
  qed (auto simp: ref_upd_cqs option.map_comp comp_def)
  ultimately show ?thesis using api_invD(1)[OF inv] by (simp add: api_inv_def)
qed

text \<open>The end of a destroy call, with its updates in one order.\<close>

lemma cq_upd_commute: "q\<lparr>cq_reqfull_list := x, cq_ep_ref_count := y\<rparr> = q\<lparr>cq_ep_ref_count := y, cq_reqfull_list := x\<rparr>"
  by (rule gni_cq.equality) simp_all

lemma destroy_tail:
  "ep_src_cq_hndl ep = Some c \<Longrightarrow> (upd_cq c (\<lambda>q. q\<lparr>cq_ep_ref_count := cq_ep_ref_count q - 1\<rparr>) (GNII_SMSG_REMOVE_BLOCKED_EP xenv e ep
       (kfree_smsg p (upd_ep e f s))))\<lparr>eps := E\<rparr> =
   kfree_smsg p (GNII_SMSG_REMOVE_BLOCKED_EP xenv e ep (upd_cq c (\<lambda>q. q\<lparr>cq_ep_ref_count := cq_ep_ref_count q - 1\<rparr>) (s\<lparr>eps := E\<rparr>)))"
  by (cases "cqs s c"; cases p)
    (simp_all add: upd_cq_def upd_ep_def kfree_smsg_def GNII_SMSG_REMOVE_BLOCKED_EP_def cq_upd_commute api_state.equality)

lemma api_upd_commute: "s\<lparr>cqs := x, eps := y\<rparr> = s\<lparr>eps := y, cqs := x\<rparr>"
  by (rule api_state.equality) simp_all

lemma remove_blocked_eps [simp]: "eps (GNII_SMSG_REMOVE_BLOCKED_EP xenv e ep s) = eps s"
  by (simp add: GNII_SMSG_REMOVE_BLOCKED_EP_def split: option.split)

lemma gni_ep_destroy_safe:
  assumes inv: "api_inv env s" and live: "live_ep h s"
  shows "ok (gni_ep_destroy xenv h s) (\<lambda>(rc, s'). api_inv env s' \<and>
    (\<forall>e. h = Some e \<longrightarrow> eps s' = (eps s)(e := None) \<and> (\<forall>c q. cqs s' c = Some q \<longrightarrow> cq_pending e q = 0)))"
  using inv live
proof (cases rule: ep_call_cases)
  case 1
  then have "h = None" using live api_invD(2)[OF inv]
    by (auto simp: check_ep_def live_ep_def inv_objs_def ep_ok_def split: option.splits)
  with 1 inv show ?thesis by (simp add: gni_ep_destroy_def)
next
  case (2 e ep nic)
  have h: "h = Some e" using 2(1) by (auto simp: check_ep_def bind_eq_Some_conv split: option.splits if_splits)
  obtain E qs' where cancelled: "(if ep_outstanding_tx_reqs ep > 0 then map_option snd (kgni_ep_req_cancel e s) else Some s) =
        Some (s\<lparr>eps := E, cqs := qs'\<rparr>)" and E: "E(e := None) = (eps s)(e := None)" "E e \<noteq> None"
      and qs: "\<forall>c. qs' c = cqs s c \<or> (\<exists>q. cqs s c = Some q \<and> qs' c = Some (cancel_cq e q))"
      and none: "\<And>c q. qs' c = Some q \<Longrightarrow> cq_pending e q = 0"
  proof (cases "ep_outstanding_tx_reqs ep > 0")
    case True
    with kgni_ep_req_cancel_safe[OF inv 2(2)] that show thesis by auto
  next
    case False
    then have z: "cqs_pending e (cqs s) (cq_list s (ep_nic_hndl ep)) = 0"
      using api_invD(4)[OF inv, unfolded inv_events_def, THEN conjunct1, rule_format, OF 2(2)] by (simp add: word_gt_0)
    have "cq_pending e q = 0" if q: "cqs s c = Some q" for c q
    proof (cases "c \<in> set (cq_list s (ep_nic_hndl ep))")
      case True
      with z q show ?thesis by (auto simp: cqs_pending_def)
    next
      case False
      with q 2(2) api_invD(4)[OF inv] show ?thesis unfolding inv_events_def by (metis option.inject)
    qed
    with False that[where E = "eps s" and qs' = "cqs s"] 2(2) show thesis by auto
  qed
  let ?t = "s\<lparr>eps := (eps s)(e := None), cqs := qs'\<rparr>"
  have i: "api_inv env (ref_upd (ep_src_cq_hndl ep) (- 1) ?t)" by (rule api_inv_remove_ep[OF inv 2(2) qs none])
  show ?thesis
  proof (cases "ep_src_cq_hndl ep")
    case None
    have eq: "(kfree_smsg (ep_smsg ep) (upd_ep e f (s\<lparr>eps := E, cqs := qs'\<rparr>)))\<lparr>eps := (eps s)(e := None)\<rparr> = kfree_smsg (ep_smsg ep) ?t" for f
      by (simp add: kfree_smsg_def upd_ep_def split: option.split)
    from None i have "api_inv env ?t" by (simp add: ref_upd_def)
    with 2 None cancelled h none eq E show ?thesis by (simp add: gni_ep_destroy_def Let_def api_upd)
  next
    case (Some c)
    then obtain q where "cqs s c = Some q" using 2(3) by (auto simp: ep_ok_def)
    with qs obtain q' where q': "qs' c = Some q'" by (metis option.exhaust option.distinct(1))
    let ?u = "upd_cq c (\<lambda>q. q\<lparr>cq_ep_ref_count := cq_ep_ref_count q - 1\<rparr>) ?t"
    from Some i have "api_inv env ?u" by (simp add: ref_upd_def)
    then have "api_inv env (kfree_smsg (ep_smsg ep) (GNII_SMSG_REMOVE_BLOCKED_EP xenv e ep ?u))" by (simp add: remove_blocked_inv)
    moreover have "cq_pending e b = 0" if "cqs (GNII_SMSG_REMOVE_BLOCKED_EP xenv e ep ?u) a = Some b" for a b
      using that none Some q' by (auto simp: GNII_SMSG_REMOVE_BLOCKED_EP_def api_upd cq_pending_def split: if_splits)
    ultimately show ?thesis
      using 2 Some cancelled h E q' by (simp add: gni_ep_destroy_def Let_def api_upd destroy_tail api_upd_commute)
  qed
qed

end
