(* ===== verification/Session_Props.thy ===== *)
theory Session_Props
  imports Session_Machine
begin

text \<open>
  The properties of the session manager, each with a witness on a small concrete driver: freedom from
  faults, no forgotten work, what posting, receiving, testing, probing and cleaning up do, the
  retransmission policy, and the search for packet slots.
\<close>

section \<open>A concrete driver\<close>

text \<open>One communication domain with one attached NIC and its channel, no session yet. The witnesses of
  the properties start from it.\<close>

definition ex_env :: kgni_env where
  "ex_env = \<lparr>KGNI_MAX_CDM_NUMBER = 2, KGNI_MAX_SM_PKTS = 2, KGNI_SM_MAX_RETRANSMITS = 3,
     ghal_ntt_to_pe = (\<lambda>x. 7), kgni_ntt_physical_to_logical = (\<lambda>_ x. x),
     kgni_chnl_send = (\<lambda>used c _ _ _ _. if used < max_tx_pkts c then 0 else - EAGAIN),
     msecs_to_jiffies = (\<lambda>ms. ucast ms), copy_from_user_ok = True, copy_to_user_ok = True\<rparr>"

definition ex_nic :: gni_nic where
  "ex_nic = \<lparr>nic_type_id = GNI_TYPE_NIC_HANDLE, nic_cdm_hndl = Some 100, nic_pe = 3, nic_inst_id = 1,
     nic_cookie = 9, nic_modes = 0, nic_ptag = 4, nic_pkey = 0, nic_cdm_type = GNI_CDM_TYPE_USER,
     nic_cdm_id = 0, nic_my_id = 0, nic_ntt_grp_size = 0, nic_ntt_base = 0, nic_fma_res_id = 0,
     nic_sm_chnl_hndl = Some 20, nic_sm_pkts = Some [None, None, None], nic_sm_pkt_id = 0, nic_mm = None,
     nic_rw_page_desc = None, nic_cq_interrupt_mask_desc = None, nic_qsce_func = None\<rparr>"

definition ex_cdm :: gni_cdm where
  "ex_cdm = \<lparr>cdm_type_id = GNI_TYPE_CDM_HANDLE, cdm_nic_hndls = [Some 10], cdm_inst_id = 1, cdm_cookie = 9,
     cdm_modes = 0, cdm_ptag = 4, cdm_sessions = [], cdm_my_id = 0\<rparr>"

definition ex_chnl :: kgni_chnl where
  "ex_chnl = \<lparr>chnl_nic_hndl = 10, datagram_cnt_kern = Some 0, max_tx_pkts = 2\<rparr>"

definition ex_state :: kgni where
  "ex_state = \<lparr>kgni_cdm_array = [Some 100, None], kgni_sm_list = [], sm_generation = 1, sm_work = False,
     sm_wakeups = [], cdms = [100 \<mapsto> ex_cdm], nics = [10 \<mapsto> ex_nic], chnls = [20 \<mapsto> ex_chnl],
     sms = Map.empty\<rparr>"

text \<open>A datagram array with two bytes set.\<close>

definition ex_data :: "u8 \<Rightarrow> u8 \<Rightarrow> u8 list" where
  "ex_data x y = x # y # replicate 126 0"

lemma ex_data_sel [simp]: "length (ex_data x y) = 128" "take 2 (ex_data x y) = [x, y]"
  "drop 2 (ex_data x y) = replicate 126 0"
  by (simp_all only: ex_data_def length_Cons length_replicate) (simp_all add: numeral_2_eq_2)

definition ex_pkt :: kgni_sm_pkt where
  "ex_pkt = \<lparr>pkt_ptag = 4, pkt_cookie = 9, pkt_state = KGNI_SM_STATE_LOCINFO_READY, local_pe = 7,
     local_inst_id = 2, remote_pe = 3, remote_inst_id = 1, local_gen = 5, remote_gen = 0, seq_num = 1,
     local_udata_size = 2, local_udata = ex_data 65 66\<rparr>"

definition ex_raw :: kgni_sm_info where
  "ex_raw = \<lparr>sm_pkt = ex_pkt, sm_flags = {}, sm_post_id = 0, sm_pkts_out = 0, sm_flrcnt = 0, sm_nrx_cnt = 0,
     sm_rx_delay = 0, sm_virt_remote_pe = 0, sm_snd_status = GNI_RC_SUCCESS, sm_nic_hndl = 0,
     sm_snd_seq_num = 0, sm_rcvd_seq_num = 0, sm_rem_udata_size = 0, sm_rem_udata = ex_data 0 0\<rparr>"

definition ex_post :: gni_ep_postdata_args where
  "ex_post = \<lparr>pd_remote_pe = 7, pd_remote_id = 2, pd_in_data = Some (\<lambda>i. of_nat i), pd_in_data_len = 2,
     pd_post_id = 0, pd_use_post_id = 0\<rparr>"

lemmas ex_defs = ex_env_def ex_nic_def ex_cdm_def ex_chnl_def ex_state_def ex_post_def

lemma ex_env_ok [simp]: "env_ok ex_env"
  by (simp add: env_ok_def ex_env_def)

lemma ex_state_inv [simp]: "sm_inv ex_env ex_state"
  by (simp add: sm_inv_def inv_defs nic_ready_def ex_defs less_Suc_eq numeral_2_eq_2 nth_Cons split: nat.splits)

lemma ex_state_no_stall [simp]: "no_stall ex_state"
  by (simp add: no_stall_def ex_state_def)

lemma ex_mem_ok [simp]: "mem_ok (Some (50, ex_raw)) ex_state"
  by (simp add: mem_ok_def ex_state_def ex_raw_def ex_pkt_def)

lemma ex_post_pre [simp]: "sm_pre ex_env (Op_post (Some (50, ex_raw)) 10 ex_post) ex_state"
proof -
  have "nics ex_state 10 \<noteq> None" by (simp add: ex_state_def)
  then show ?thesis by (simp add: ep_addr_ok_def ex_post_def)
qed

definition ex_session :: kgni_sm_info where
  "ex_session = new_session ex_cdm ex_nic 10 1 (Some [0, 1]) (- 1) ex_post ex_raw"

definition ex_posted :: kgni where
  "ex_posted = queue_sm_work (smtask_add 50 (add_session 100 50 ex_session (ex_state\<lparr>sm_generation := 2\<rparr>)))"

lemma ex_add_session:
  "kgni_sm_add_session ex_env (Some (50, ex_raw)) 10 ex_post ex_state = Some (0, ex_posted)"
  by (simp add: kgni_sm_add_session_def add_locked_def ex_posted_def ex_session_def ex_defs ntt_translate_def cdm_of_id_def
    GNI_EP_BOUND_def Let_def local_fits_def ex_raw_def ex_pkt_def upt_rec)

lemma ex_post_exec:
  "sm_exec ex_env (Op_post (Some (50, ex_raw)) 10 ex_post) ex_state = Some ex_posted"
  by (simp add: ex_add_session)

lemma ex_session_sel [simp]:
  "sm_nic_hndl ex_session = 10" "sm_pkts_out ex_session = 0" "sm_flags ex_session = {KGNI_SM_FLAG_STATE_CHANGED}"
  "sm_rx_delay ex_session = 0" "sm_state_of ex_session = KGNI_SM_STATE_LOCINFO_READY"
  by (simp_all add: ex_session_def new_session_def set_local_udata_def upd_pkt_def ex_post_def)

lemma ex_session_addr [simp]:
  "remote_pe (sm_pkt ex_session) = 7" "remote_inst_id (sm_pkt ex_session) = 2" "local_pe (sm_pkt ex_session) = 3"
  "local_inst_id (sm_pkt ex_session) = 1"
  by (simp_all add: ex_session_def new_session_def set_local_udata_def upd_pkt_def ex_post_def ex_nic_def)

lemma ex_posted_inv: "sm_inv ex_env ex_posted"
  using sm_exec_safe[OF ex_state_inv ex_env_ok ex_post_pre] by (simp add: ex_add_session)

lemma ex_task:
  "\<exists>s. sm_exec ex_env (Op_task (\<lambda>_. 0) 0) ex_posted = Some s \<and> \<not> sm_work s \<and> 50 \<in> set (kgni_sm_list s)"
  by (simp add: kgni_sm_task_def ex_posted_def ex_state_def queue_sm_work_def smtask_add_def add_session_def
      upd_cdm_def Let_def sm_task_step_def ex_nic_def unsent_flags_def upd_sm_def kgni_sm_rx_delay_def
      sm_task_send_def ex_chnl_def upd_nic_def ex_env_def upd_pkt_def next_pkt_slot.simps)

section \<open>Safety\<close>

text \<open>
  C3. The session manager is free of faults. Start in a state that satisfies the invariant and run any
  sequence of posts, received packets, send events, worker runs, terminations, tests and clean-ups,
  each under its calling convention and with a channel layer that keeps its contract: the next
  such operation returns (no assertion fails, no NULL or freed pointer is followed, no array is
  left), and the invariant holds again.
\<close>

theorem session_no_fault:
  assumes "env_ok env" and "sm_inv env s0" and "reachable (sm_pre env) (sm_exec env) s0 s" and "sm_pre env op s"
  shows "\<exists>s'. sm_exec env op s = Some s' \<and> sm_inv env s'"
  using sm.no_fault[of env s0 s op] assms by blast

theorem session_no_fault_witness:
  "\<exists>s'. sm_exec ex_env (Op_post (Some (50, ex_raw)) 10 ex_post) ex_state = Some s' \<and> sm_inv ex_env s'"
  by (rule session_no_fault[OF ex_env_ok ex_state_inv reachable.start ex_post_pre])

text \<open>
  C7. No work is forgotten: in every reachable state in which the worker is not queued, each session
  on the task list has a packet out, so that the event of that packet will queue the worker.
\<close>

theorem session_no_lost_work:
  assumes "env_ok env" and "sm_inv env s0" and "no_stall s0" and "reachable (sm_pre env) (sm_exec env) s0 s"
    and "\<not> sm_work s" and "a \<in> set (kgni_sm_list s)"
  shows "\<exists>m. sms s a = Some m \<and> sm_pkts_out m \<noteq> 0"
proof -
  have i: "sm_inv env s" using sm.reachable_inv[of env s0 s] assms by blast
  have n: "no_stall s" using sm.reachable_extra[of env s0 s] assms by blast
  obtain m where "sms s a = Some m" using i assms(6) unfolding sm_inv_def inv_task_def by blast
  with n assms(5,6) show ?thesis by (auto simp: no_stall_def)
qed


theorem session_no_lost_work_witness:
  "\<exists>s m. reachable (sm_pre ex_env) (sm_exec ex_env) ex_state s \<and> \<not> sm_work s \<and> 50 \<in> set (kgni_sm_list s) \<and>
     sms s 50 = Some m \<and> sm_pkts_out m \<noteq> 0"
proof -
  obtain s where s: "sm_exec ex_env (Op_task (\<lambda>_. 0) 0) ex_posted = Some s" "\<not> sm_work s" "50 \<in> set (kgni_sm_list s)"
    using ex_task by blast
  have "reachable (sm_pre ex_env) (sm_exec ex_env) ex_state ex_posted"
    using reachable.start ex_post_pre ex_post_exec by (rule reachable.step)
  moreover have "sm_pre ex_env (Op_task (\<lambda>_. 0) 0) ex_posted" by simp
  ultimately have "reachable (sm_pre ex_env) (sm_exec ex_env) ex_state s"
    using s(1) by (rule reachable.step)
  with session_no_lost_work[OF ex_env_ok ex_state_inv ex_state_no_stall this s(2,3)] s(2,3) show ?thesis by blast
qed

section \<open>Posting\<close>

text \<open>
  A post that returns an error has not changed the driver.
\<close>

theorem post_error_unchanged:
  assumes "kgni_sm_add_session env mem n attr s = Some (e, s')" and "e \<noteq> 0"
  shows "s' = s"
  using kgni_sm_add_session_effect[OF assms(1)] assms(2) by blast

theorem post_error_unchanged_witness:
  "kgni_sm_add_session ex_env None 10 (ex_post\<lparr>pd_in_data_len := 129\<rparr>) ex_state = Some (- E2BIG, ex_state)"
proof -
  have "kgni_sm_add_session ex_env None 10 (ex_post\<lparr>pd_in_data_len := 129\<rparr>) ex_state \<noteq> None \<and>
      map_option fst (kgni_sm_add_session ex_env None 10 (ex_post\<lparr>pd_in_data_len := 129\<rparr>) ex_state) = Some (- E2BIG)"
    by (simp add: kgni_sm_add_session_def ex_defs cdm_of_id_def Let_def)
  with post_error_unchanged[of ex_env None 10 "ex_post\<lparr>pd_in_data_len := 129\<rparr>" ex_state] show ?thesis
    by fastforce
qed

text \<open>What a successful post does under the lock.\<close>

definition posted :: "u8 list option \<Rightarrow> u16 \<Rightarrow> kgni_sm_info \<Rightarrow> bool" where
  "posted buf len m \<longleftrightarrow> (case buf of
      None \<Rightarrow> local_udata_size (sm_pkt m) = 0
    | Some bs \<Rightarrow> local_udata_size (sm_pkt m) = len \<and> take (unat len) (local_udata (sm_pkt m)) = bs)"

lemma set_local_udata_posted:
  assumes "buf_ok buf len"
  shows "posted buf len (set_local_udata buf len m)"
proof (cases buf)
  case (Some bs)
  with assms have "length bs = unat len" by (simp add: buf_ok_def)
  with Some show ?thesis by (simp add: posted_def set_local_udata_def upd_pkt_def)
qed (simp add: posted_def set_local_udata_def upd_pkt_def)

lemma posted_cong: "sm_pkt m' = (sm_pkt m)\<lparr>pkt_state := st\<rparr> \<Longrightarrow> posted buf len m \<Longrightarrow> posted buf len m'"
  by (simp add: posted_def split: option.splits)

lemma add_search_success:
  assumes "add_search buf virt bound attr as s = Some (Inl (0, s'))" and "buf_ok buf (pd_in_data_len attr)"
  shows "\<exists>a m m'. sms s a = Some m \<and> sm_state_of m = KGNI_SM_STATE_REMINFO_READY \<and> sms s' = (sms s)(a \<mapsto> m') \<and>
    sm_state_of m' = KGNI_SM_STATE_COMPLETED \<and> posted buf (pd_in_data_len attr) m' \<and> a \<in> set (kgni_sm_list s') \<and> sm_work s'"
  using assms(1)
proof (induction as)
  case (Cons a as)
  obtain m where m: "sms s a = Some m" using Cons.prems by (auto split: Option.bind_split_asm)
  let ?m = "complete_reminfo buf virt attr m"
  have p: "posted buf (pd_in_data_len attr) ?m"
    by (rule posted_cong[OF complete_reminfo_sel(5) set_local_udata_posted[OF assms(2)]])
  show ?case
  proof (cases "s' = queue_sm_work (smtask_add a (upd_sm a (complete_reminfo buf virt attr) s)) \<and>
      sm_state_of m = KGNI_SM_STATE_REMINFO_READY")
    case True
    with m p show ?thesis
      by (intro exI[of _ a] exI[of _ m] exI[of _ ?m]) (simp add: prim_upd)
  next
    case False
    with Cons m show ?thesis by (auto simp: Let_def split: if_split_asm)
  qed
qed simp

lemma new_session_posted:
  "buf_ok buf (pd_in_data_len attr) \<Longrightarrow> posted buf (pd_in_data_len attr) (new_session cdm nic n g buf virt attr raw)"
  by (simp add: new_session_def set_local_udata_posted)

lemma add_locked_success:
  assumes "add_locked mem n nic d buf virt bound attr s = Some (0, s')" and "buf_ok buf (pd_in_data_len attr)"
    and "mem_ok mem s"
  shows "\<exists>a m'. sms s' = (sms s)(a \<mapsto> m') \<and> posted buf (pd_in_data_len attr) m' \<and> sm_work s' \<and>
    (case sms s a of
       Some m \<Rightarrow> sm_state_of m = KGNI_SM_STATE_REMINFO_READY \<and> sm_state_of m' = KGNI_SM_STATE_COMPLETED \<and>
         a \<in> set (kgni_sm_list s')
     | None \<Rightarrow> sm_state_of m' = KGNI_SM_STATE_LOCINFO_READY \<and> (pd_remote_pe attr \<noteq> - 1 \<longrightarrow> a \<in> set (kgni_sm_list s')))"
proof -
  obtain cdm found where f: "cdms s d = Some cdm" "add_search buf virt bound attr (cdm_sessions cdm) s = Some found"
    using assms(1) by (auto simp: add_locked_def split: Option.bind_split_asm)
  show ?thesis
  proof (cases found)
    case (Inl res)
    then have "add_search buf virt bound attr (cdm_sessions cdm) s = Some (Inl (0, s'))"
      using f assms(1) by (simp add: add_locked_def)
    from add_search_success[OF this assms(2)] show ?thesis by fastforce
  next
    case (Inr u)
    then obtain a raw where m: "mem = Some (a, raw)" using f assms(1) by (auto simp: add_locked_def split: option.split_asm)
    then have fresh: "sms s a = None" using assms(3) by (simp add: mem_ok_def)
    let ?m = "new_session cdm nic n (sm_generation s) buf virt attr raw"
    have s': "sms s' = (sms s)(a \<mapsto> ?m)" "sm_work s'" "pd_remote_pe attr \<noteq> - 1 \<longrightarrow> a \<in> set (kgni_sm_list s')"
      using assms(1) f Inr m by (auto simp: add_locked_def Let_def prim_upd split: if_split_asm)
    have "sm_state_of ?m = KGNI_SM_STATE_LOCINFO_READY" by (simp add: new_session_def)
    with s' fresh new_session_posted[OF assms(2)] show ?thesis
      by (intro exI[of _ a] exI[of _ ?m]) simp
  qed
qed

text \<open>
  C24. A post that succeeds has changed exactly one session: it completed one that the remote side had
  opened and put it on the task list, or created one in state LOCINFO_READY. The session holds the
  caller's data and its length, and the worker is queued.
\<close>

theorem post_success:
  assumes "kgni_sm_add_session env mem n attr s = Some (0, s')" and "mem_ok mem s"
  shows "\<exists>a m'. sms s' = (sms s)(a \<mapsto> m') \<and> sm_work s' \<and>
    (case pd_in_data attr of
       None \<Rightarrow> local_udata_size (sm_pkt m') = 0
     | Some f \<Rightarrow> local_udata_size (sm_pkt m') = pd_in_data_len attr \<and>
         take (unat (pd_in_data_len attr)) (local_udata (sm_pkt m')) = map f [0..<unat (pd_in_data_len attr)]) \<and>
    (case sms s a of
       Some m \<Rightarrow> sm_state_of m = KGNI_SM_STATE_REMINFO_READY \<and> sm_state_of m' = KGNI_SM_STATE_COMPLETED \<and>
         a \<in> set (kgni_sm_list s')
     | None \<Rightarrow> sm_state_of m' = KGNI_SM_STATE_LOCINFO_READY)"
proof -
  let ?buf = "map_option (\<lambda>f. map f [0..<unat (pd_in_data_len attr)]) (pd_in_data attr)"
  have len: "unat (pd_in_data_len attr) \<le> GNI_DATAGRAM_MAXSIZE"
    using assms(1) by (auto simp: kgni_sm_add_session_def Let_def split: Option.bind_split_asm option.split_asm if_split_asm)
  have "\<exists>nic d virt bound at. pd_in_data_len at = pd_in_data_len attr \<and>
      add_locked mem n nic d ?buf virt bound at s = Some (0, s')"
  proof (rule ccontr)
    assume "\<not> ?thesis"
    with assms(1) show False
      by (auto simp: kgni_sm_add_session_def Let_def ntt_translate_def
          split: Option.bind_split_asm option.split_asm if_split_asm sum.split_asm prod.split_asm)
  qed
  then obtain nic d virt bound at where at: "pd_in_data_len at = pd_in_data_len attr"
      and l: "add_locked mem n nic d ?buf virt bound at s = Some (0, s')" by blast
  have "buf_ok ?buf (pd_in_data_len at)" using len at by (auto simp: buf_ok_def)
  with add_locked_success[OF l _ assms(2)] at obtain a m' where "sms s' = (sms s)(a \<mapsto> m')" "sm_work s'"
      "posted ?buf (pd_in_data_len attr) m'"
      "case sms s a of
       Some m \<Rightarrow> sm_state_of m = KGNI_SM_STATE_REMINFO_READY \<and> sm_state_of m' = KGNI_SM_STATE_COMPLETED \<and>
         a \<in> set (kgni_sm_list s')
     | None \<Rightarrow> sm_state_of m' = KGNI_SM_STATE_LOCINFO_READY \<and> (pd_remote_pe at \<noteq> - 1 \<longrightarrow> a \<in> set (kgni_sm_list s'))"
    by auto
  then show ?thesis
    by (intro exI[of _ a] exI[of _ m']) (auto simp: posted_def split: option.splits)
qed

theorem post_success_witness:
  "\<exists>a m'. sms ex_posted = (sms ex_state)(a \<mapsto> m') \<and> sm_work ex_posted \<and>
    local_udata_size (sm_pkt m') = 2 \<and> take 2 (local_udata (sm_pkt m')) = [0, 1] \<and>
    sm_state_of m' = KGNI_SM_STATE_LOCINFO_READY"
proof -
  from post_success[OF ex_add_session ex_mem_ok] show ?thesis
    by (simp add: ex_post_def upt_rec) (auto simp: ex_state_def)
qed

section \<open>Receiving and retrieving\<close>

lemma rcv_search_skip:
  assumes "\<And>x. x \<in> set xs \<Longrightarrow> \<exists>mx. sms s x = Some mx \<and> \<not> rcv_match mx r"
  shows "\<exists>opn'. rcv_search d ch n r (xs @ ys) opn s = rcv_search d ch n r ys opn' s"
  using assms
proof (induction xs arbitrary: opn)
  case (Cons x xs)
  then obtain mx where "sms s x = Some mx" "\<not> rcv_match mx r" by auto
  with Cons show ?case by simp
qed auto

lemma kgni_notify_user_sms:
  assumes "kgni_notify_user ch a s = Some s'"
  shows "\<exists>f. sms s' = sms (upd_sm a f s) \<and> (\<forall>m. sm_pkt (f m) = sm_pkt m \<and> sm_rem_udata (f m) = sm_rem_udata m \<and>
    sm_rem_udata_size (f m) = sm_rem_udata_size m)"
proof -
  have "sms s = sms (upd_sm a (\<lambda>m. m) s)" by (simp add: prim_upd option.map_ident fun_upd_idem)
  moreover have "sms (upd_sm a f (upd_chnl ch h s)) = sms (upd_sm a f s)" for f h by (simp add: prim_upd)
  ultimately show ?thesis
    using assms
    by (auto simp: kgni_notify_user_def split: Option.bind_split_asm option.split_asm if_split_asm
        intro: exI[of _ "\<lambda>m. m"] exI[of _ "\<lambda>m. m\<lparr>sm_flags := insert KGNI_SM_FLAG_USR_NOTIFIED (sm_flags m)\<rparr>"])
qed

text \<open>A posted session that matches a packet of the expected generation takes the data of the packet.\<close>

lemma rcv_matched_delivers:
  assumes inv: "sm_inv env s" and c: "chnls s ch = Some c" and m: "sms s a = Some m" "rcv_match m r"
    "sm_state_of m = KGNI_SM_STATE_LOCINFO_READY" and r: "pkt_ok r"
    and st: "pkt_state r = KGNI_SM_STATE_LOCINFO_READY \<and> (remote_gen r = 0 \<or> remote_gen r = local_gen (sm_pkt m)) \<or>
             pkt_state r = KGNI_SM_STATE_COMPLETED \<and> remote_gen r \<noteq> 0 \<and> remote_gen r = local_gen (sm_pkt m)"
  shows "\<exists>s' m'. rcv_matched d ch n a m r s = Some (Some s') \<and> sms s' = (sms s)(a \<mapsto> m') \<and>
    sm_state_of m' = KGNI_SM_STATE_COMPLETED \<and> sm_rem_udata_size m' = local_udata_size r \<and>
    take (unat (local_udata_size r)) (sm_rem_udata m') = take (unat (local_udata_size r)) (local_udata r) \<and>
    remote_gen (sm_pkt m') = local_gen r"
proof -
  have okm: "sm_ok m" by (rule sm_inv_session(1)[OF inv m(1)])
  have fits: "udata_fits r m" using okm r by (simp add: udata_fits_def pkt_ok_def sm_ok_def)
  then have len: "unat (local_udata_size r) \<le> length (local_udata r)" by (simp add: udata_fits_def)
  let ?f = "rcv_commit r \<circ> (\<lambda>m. set_state KGNI_SM_STATE_COMPLETED (take_rem_udata r m))"
  show ?thesis
  proof (cases "pkt_state r = KGNI_SM_STATE_COMPLETED")
    case True
    have "ok (kgni_notify_user ch a (upd_sm a ?f s)) (\<lambda>_. True)"
      using c m(1) by (auto simp: kgni_notify_user_def prim_upd split: option.splits)
    then obtain s1 where s1: "kgni_notify_user ch a (upd_sm a ?f s) = Some s1" by (auto dest!: okD)
    obtain g where g: "sms s1 = sms (upd_sm a g (upd_sm a ?f s))" "\<And>m. sm_pkt (g m) = sm_pkt m \<and>
        sm_rem_udata (g m) = sm_rem_udata m \<and> sm_rem_udata_size (g m) = sm_rem_udata_size m"
      using kgni_notify_user_sms[OF s1] by blast
    have "sms s1 = (sms s)(a \<mapsto> g (?f m))" using g(1) m(1) by (simp add: prim_upd)
    with True st m s1 g(2) fits len show ?thesis by (auto simp: rcv_matched_def Let_def)
  next
    case False
    let ?g = "rcv_commit r \<circ> (\<lambda>m. (set_state KGNI_SM_STATE_COMPLETED (take_rem_udata r m))
                   \<lparr>sm_flags := insert KGNI_SM_FLAG_STATE_CHANGED (sm_flags m)\<rparr>)"
    let ?s = "upd_sm a ?g s"
    have "sms (queue_sm_work (if on_smtask a ?s then ?s else smtask_add a ?s)) = (sms s)(a \<mapsto> ?g m)"
      using m(1) by (simp add: prim_upd)
    moreover from False st have "pkt_state r = KGNI_SM_STATE_LOCINFO_READY" by auto
    ultimately show ?thesis using st m(3) fits len by (auto simp: rcv_matched_def Let_def)
  qed
qed

text \<open>
  C22. Data is delivered. A packet of the right domain that matches a posted session (the first one on
  the list with these addresses) and has the session's generation, or none yet, is handled; the session is
  COMPLETED, holds exactly the bytes the packet carries and remembers the sender's generation; no other
  session has changed.
\<close>

theorem rcv_delivers:
  assumes "sm_inv env s" and "cookie < KGNI_MAX_CDM_NUMBER env" and "kgni_cdm_array s ! cookie = Some d"
    and "cdms s d = Some cdm" and "chnls s ch = Some c" and "pkt_ok r"
    and "pkt_cookie r = cdm_cookie cdm" and "remote_inst_id r = cdm_inst_id cdm"
    and "cdm_sessions cdm = xs @ a # ys" and "\<forall>x \<in> set xs. \<forall>mx. sms s x = Some mx \<longrightarrow> \<not> rcv_match mx r"
    and "sms s a = Some m" and "rcv_match m r" and "sm_state_of m = KGNI_SM_STATE_LOCINFO_READY"
    and "pkt_state r = KGNI_SM_STATE_LOCINFO_READY \<and> (remote_gen r = 0 \<or> remote_gen r = local_gen (sm_pkt m)) \<or>
         pkt_state r = KGNI_SM_STATE_COMPLETED \<and> remote_gen r \<noteq> 0 \<and> remote_gen r = local_gen (sm_pkt m)"
  shows "\<exists>s' m'. kgni_sm_chnl_rcv env mem ch cookie r True s = Some (GNI_CHNL_RCV_HANDLED, s') \<and>
    sms s' = (sms s)(a \<mapsto> m') \<and> sm_state_of m' = KGNI_SM_STATE_COMPLETED \<and>
    sm_rem_udata_size m' = local_udata_size r \<and>
    take (unat (local_udata_size r)) (sm_rem_udata m') = take (unat (local_udata_size r)) (local_udata r) \<and>
    remote_gen (sm_pkt m') = local_gen r"
proof -
  let ?n = "chnl_nic_hndl c"
  obtain nic where nic: "nics s ?n = Some nic" using assms(1,5) unfolding sm_inv_def inv_chnl_def by blast
  have arr: "length (kgni_cdm_array s) = KGNI_MAX_CDM_NUMBER env"
    using assms(1) by (simp add: sm_inv_def inv_cdm_def)
  have "\<exists>mx. sms s x = Some mx \<and> \<not> rcv_match mx r" if "x \<in> set xs" for x
    using sm_inv_member[OF assms(1,4), of x] assms(9,10) that by auto
  then obtain opn where "rcv_search d ch ?n r (cdm_sessions cdm) None s = rcv_search d ch ?n r (a # ys) opn s"
    using rcv_search_skip[of xs s r d ch ?n "a # ys" None] assms(9) by auto
  with rcv_matched_delivers[OF assms(1,5,11,12,13,6,14), of d ?n] assms nic arr show ?thesis
    by (auto simp: kgni_sm_chnl_rcv_def)
qed

theorem rcv_delivers_witness:
  "\<exists>s' m'. kgni_sm_chnl_rcv ex_env None 20 0 ex_pkt True ex_posted = Some (GNI_CHNL_RCV_HANDLED, s') \<and>
    sms s' = (sms ex_posted)(50 \<mapsto> m') \<and> sm_state_of m' = KGNI_SM_STATE_COMPLETED \<and>
    take 2 (sm_rem_udata m') = [65, 66]"
proof -
  have "\<exists>s' m'. kgni_sm_chnl_rcv ex_env None 20 0 ex_pkt True ex_posted = Some (GNI_CHNL_RCV_HANDLED, s') \<and>
    sms s' = (sms ex_posted)(50 \<mapsto> m') \<and> sm_state_of m' = KGNI_SM_STATE_COMPLETED \<and>
    sm_rem_udata_size m' = local_udata_size ex_pkt \<and>
    take (unat (local_udata_size ex_pkt)) (sm_rem_udata m') = take (unat (local_udata_size ex_pkt)) (local_udata ex_pkt) \<and>
    remote_gen (sm_pkt m') = local_gen ex_pkt"
    by (rule rcv_delivers[OF ex_posted_inv, where d = 100 and cdm = "ex_cdm\<lparr>cdm_sessions := [50]\<rparr>" and c = ex_chnl and xs = "[]"
          and ys = "[]" and m = ex_session])
      (simp_all add: ex_posted_def prim_upd ex_env_def ex_state_def ex_pkt_def pkt_ok_def GNI_EP_BOUND_def
        ex_cdm_def rcv_match_def)
  then show ?thesis by (auto simp: ex_pkt_def)
qed

text \<open>The loop of \<open>kgni_sm_get_state\<close> passes sessions that do not match.\<close>

lemma gs_loop_skip:
  assumes "\<And>x. x \<in> set xs \<Longrightarrow> \<exists>mx. sms (gs_k v) x = Some mx \<and>
    \<not> match_post by_id (pt_post_id (gs_attr v)) (pt_remote_pe (gs_attr v)) (pt_remote_id (gs_attr v)) mx"
  shows "gs_loop env nic d by_id (xs @ ys) v = gs_loop env nic d by_id ys v"
  using assms
proof (induction xs)
  case (Cons x xs)
  then obtain mx where "sms (gs_k v) x = Some mx"
    "\<not> match_post by_id (pt_post_id (gs_attr v)) (pt_remote_pe (gs_attr v)) (pt_remote_id (gs_attr v)) mx" by auto
  with Cons show ?case by simp
qed simp

text \<open>
  C23. Retrieving a datagram. When the session an endpoint asks for is COMPLETED and off the task list,
  the call returns success and state COMPLETED, hands over exactly the bytes received, frees the
  session and takes one off the application's counter of finished datagrams.
\<close>

theorem test_retrieves:
  assumes "sm_inv env s" and "nics s n = Some nic" and "nic_cdm_id nic \<noteq> GNI_CDM_INVALID_ID"
    and "kgni_cdm_array s ! unat (nic_cdm_id nic) = Some d" and "cdms s d = Some cdm"
    and "nic_sm_chnl_hndl nic = Some ch" and "chnls s ch = Some c" and "nic_ntt_grp_size nic = 0"
    and "pt_modes attr = 0" and "GNI_EP_BOUND (pt_remote_pe attr) (pt_remote_id attr)"
    and "cdm_sessions cdm = xs @ a # ys"
    and "\<forall>x \<in> set xs. \<forall>mx. sms s x = Some mx \<longrightarrow>
           \<not> (remote_pe (sm_pkt mx) = pt_remote_pe attr \<and> remote_inst_id (sm_pkt mx) = pt_remote_id attr)"
    and "sms s a = Some m" and "remote_pe (sm_pkt m) = pt_remote_pe attr" and "remote_inst_id (sm_pkt m) = pt_remote_id attr"
    and "sm_state_of m = KGNI_SM_STATE_COMPLETED" and "a \<notin> set (kgni_sm_list s)"
    and "pt_out_buff attr" and "sm_rem_udata_size m \<le> pt_buff_size attr" and "copy_to_user_ok env"
  shows "\<exists>attr' s'. kgni_sm_get_state env n attr s =
      Some (0, attr', take (unat (sm_rem_udata_size m)) (sm_rem_udata m), s') \<and>
    pt_state attr' = GNI_POST_COMPLETED \<and> pt_remote_pe attr' = pt_remote_pe attr \<and>
    pt_post_id attr' = sm_post_id m \<and> sms s' = (sms s)(a := None) \<and>
    chnls s' = (chnls s)(ch \<mapsto> c\<lparr>datagram_cnt_kern := map_option (\<lambda>x. x - 1) (datagram_cnt_kern c)\<rparr>)"
proof -
  have id: "unat (nic_cdm_id nic) < length (kgni_cdm_array s)"
    using assms(1-3) unfolding sm_inv_def inv_cdm_def by metis
  have okm: "sm_ok m" by (rule sm_inv_session(1)[OF assms(1,13)])
  let ?v = "\<lparr>gs_retval = - ESRCH, gs_attr = attr, gs_out = [], gs_free = False, gs_k = s\<rparr>"
  have skip: "gs_loop env nic d False (xs @ a # ys) ?v = gs_loop env nic d False (a # ys) ?v"
  proof (rule gs_loop_skip)
    fix x assume "x \<in> set xs"
    then show "\<exists>mx. sms (gs_k ?v) x = Some mx \<and> \<not> match_post False (pt_post_id (gs_attr ?v))
        (pt_remote_pe (gs_attr ?v)) (pt_remote_id (gs_attr ?v)) mx"
      using sm_inv_member[OF assms(1,5), of x] assms(11,12) by (auto simp: match_post_def)
  qed
  have pe: "pt_remote_pe attr \<noteq> - 1" using assms(10) by (simp add: GNI_EP_BOUND_def)
  have len: "unat (sm_rem_udata_size m) \<le> GNI_DATAGRAM_MAXSIZE" "length (sm_rem_udata m) = GNI_DATAGRAM_MAXSIZE"
    using okm by (simp_all add: sm_ok_def)
  have z: "sm_rem_udata_size m = 0 \<Longrightarrow> take (unat (sm_rem_udata_size m)) (sm_rem_udata m) = []" by simp
  show ?thesis
    using assms id skip pe len
    by (cases "take (unat (sm_rem_udata_size m)) (sm_rem_udata m) = []")
      (auto simp: kgni_sm_get_state_def cdm_of_id_def ntt_translate_def Let_def match_post_def gs_step_def gs_take_def
        gs_ntt_def sm_final_def on_smtask_def post_state_of_def prim_upd)
qed

definition ex_done :: kgni_sm_info where
  "ex_done = ex_raw\<lparr>sm_pkt := ex_pkt\<lparr>pkt_state := KGNI_SM_STATE_COMPLETED, local_pe := 3, local_inst_id := 1,
       remote_pe := 7, remote_inst_id := 2\<rparr>, sm_nic_hndl := 10, sm_rem_udata_size := 2, sm_rem_udata := ex_data 65 66\<rparr>"

definition ex_completed :: kgni where
  "ex_completed = add_session 100 50 ex_done ex_state"

definition ex_test :: gni_ep_postdata_test_args where
  "ex_test = \<lparr>pt_timeout = 0, pt_remote_pe = 7, pt_remote_id = 2, pt_out_buff = True, pt_buff_size = 2,
     pt_state = GNI_POST_PENDING, pt_modes = 0, pt_post_id = 0\<rparr>"

lemma ex_completed_inv: "sm_inv ex_env ex_completed"
  unfolding ex_completed_def
  by (rule sm_inv_add_session[OF ex_state_inv, where c = ex_cdm])
    (simp_all add: ex_state_def ex_done_def sm_ok_def ex_pkt_def ex_raw_def ex_nic_def)

theorem test_retrieves_witness:
  "\<exists>attr' s'. kgni_sm_get_state ex_env 10 ex_test ex_completed = Some (0, attr', [65, 66], s') \<and>
    pt_state attr' = GNI_POST_COMPLETED \<and> sms s' 50 = None"
proof -
  have "\<exists>attr' s'. kgni_sm_get_state ex_env 10 ex_test ex_completed =
      Some (0, attr', take (unat (sm_rem_udata_size ex_done)) (sm_rem_udata ex_done), s') \<and>
    pt_state attr' = GNI_POST_COMPLETED \<and> pt_remote_pe attr' = pt_remote_pe ex_test \<and>
    pt_post_id attr' = sm_post_id ex_done \<and> sms s' = (sms ex_completed)(50 := None) \<and>
    chnls s' = (chnls ex_completed)(20 \<mapsto> ex_chnl\<lparr>datagram_cnt_kern := map_option (\<lambda>x. x - 1) (datagram_cnt_kern ex_chnl)\<rparr>)"
    by (rule test_retrieves[OF ex_completed_inv, where d = 100 and cdm = "ex_cdm\<lparr>cdm_sessions := [50]\<rparr>" and nic = ex_nic and xs = "[]"
          and ys = "[]"])
      (simp_all add: ex_completed_def prim_upd ex_env_def ex_state_def ex_pkt_def GNI_EP_BOUND_def
        ex_cdm_def ex_nic_def ex_test_def ex_done_def ex_raw_def)
  then show ?thesis by (auto simp: ex_done_def)
qed

section \<open>Probing\<close>

text \<open>
  A successful probe by post id reports a datagram that is ready: the id belongs to a session of the
  caller's domain in a final state that the worker has finished with, and it is the first such session
  that has an id. Nothing is changed by a probe.
\<close>

theorem probe_reports_ready:
  assumes "kgni_sm_probe_state env n attr s = Some (0, attr')" and "pt_modes attr AND GNI_EP_PDT_MODE_USE_POST_ID \<noteq> 0"
  shows "\<exists>nic d cdm xs a ys m. nics s n = Some nic \<and> kgni_cdm_array s ! unat (nic_cdm_id nic) = Some d \<and>
    cdms s d = Some cdm \<and> cdm_sessions cdm = xs @ a # ys \<and> sms s a = Some m \<and> a \<notin> set (kgni_sm_list s) \<and>
    sm_state_of m \<in> {KGNI_SM_STATE_COMPLETED, KGNI_SM_STATE_TERMINATED, KGNI_SM_STATE_TIMEOUT} \<and>
    sm_post_id m \<noteq> - 1 \<and> attr' = attr\<lparr>pt_post_id := sm_post_id m\<rparr> \<and>
    (\<forall>x \<in> set xs. \<exists>mx. sms s x = Some mx \<and>
       (x \<in> set (kgni_sm_list s) \<or> \<not> sm_final (sm_state_of mx) \<or> sm_post_id mx = - 1))"
proof -
  have loop: "\<exists>xs a ys m. as = xs @ a # ys \<and> sms s a = Some m \<and> a \<notin> set (kgni_sm_list s) \<and>
      sm_final (sm_state_of m) \<and> sm_post_id m \<noteq> - 1 \<and> attr' = attr\<lparr>pt_post_id := sm_post_id m\<rparr> \<and>
      (\<forall>x \<in> set xs. \<exists>mx. sms s x = Some mx \<and>
         (x \<in> set (kgni_sm_list s) \<or> \<not> sm_final (sm_state_of mx) \<or> sm_post_id mx = - 1))"
    if "probe_loop env nic True as attr s = Some (0, attr')" for nic as
    using that
  proof (induction as)
    case (Cons a as)
    obtain m where m: "sms s a = Some m" using Cons.prems by (auto split: Option.bind_split_asm)
    show ?case
    proof (cases "a \<notin> set (kgni_sm_list s) \<and> sm_final (sm_state_of m) \<and> sm_post_id m \<noteq> - 1")
      case True
      with Cons.prems m show ?thesis
        by (intro exI[of _ "[]"] exI[of _ a] exI[of _ as] exI[of _ m]) (simp add: on_smtask_def)
    next
      case False
      with Cons.prems m have "probe_loop env nic True as attr s = Some (0, attr')"
        by (auto simp: on_smtask_def split: if_split_asm)
      from Cons.IH[OF this] obtain xs b ys mb where ih: "as = xs @ b # ys" "sms s b = Some mb"
          "b \<notin> set (kgni_sm_list s)" "sm_final (sm_state_of mb)" "sm_post_id mb \<noteq> - 1"
          "attr' = attr\<lparr>pt_post_id := sm_post_id mb\<rparr>"
          "\<forall>x \<in> set xs. \<exists>mx. sms s x = Some mx \<and>
             (x \<in> set (kgni_sm_list s) \<or> \<not> sm_final (sm_state_of mx) \<or> sm_post_id mx = - 1)" by blast
      from ih(7) m False have "\<forall>x \<in> set (a # xs). \<exists>mx. sms s x = Some mx \<and>
             (x \<in> set (kgni_sm_list s) \<or> \<not> sm_final (sm_state_of mx) \<or> sm_post_id mx = - 1)" by simp
      with ih(1-6) show ?thesis by (intro exI[of _ "a # xs"] exI[of _ b] exI[of _ ys] exI[of _ mb]) simp
    qed
  qed simp
  obtain nic where nic: "nics s n = Some nic"
    using assms(1) by (auto simp: kgni_sm_probe_state_def split: Option.bind_split_asm)
  obtain dp where dp: "cdm_of_id (nic_cdm_id nic) s = Some dp"
    using assms(1) nic by (auto simp: kgni_sm_probe_state_def split: Option.bind_split_asm if_split_asm)
  obtain d cdm where d: "dp = Some d" "cdms s d = Some cdm" "probe_loop env nic True (cdm_sessions cdm) attr s = Some (0, attr')"
    using assms nic dp
    by (auto simp: kgni_sm_probe_state_def split: Option.bind_split_asm if_split_asm option.split_asm)
  have arr: "kgni_cdm_array s ! unat (nic_cdm_id nic) = Some d"
    using dp d(1) by (simp add: cdm_of_id_def array_get_Some_iff)
  obtain xs a ys m where l: "cdm_sessions cdm = xs @ a # ys" "sms s a = Some m" "a \<notin> set (kgni_sm_list s)"
      "sm_final (sm_state_of m)" "sm_post_id m \<noteq> - 1" "attr' = attr\<lparr>pt_post_id := sm_post_id m\<rparr>"
      "\<forall>x \<in> set xs. \<exists>mx. sms s x = Some mx \<and>
         (x \<in> set (kgni_sm_list s) \<or> \<not> sm_final (sm_state_of mx) \<or> sm_post_id mx = - 1)"
    using loop[OF d(3)] by blast
  have "sm_state_of m \<in> {KGNI_SM_STATE_COMPLETED, KGNI_SM_STATE_TERMINATED, KGNI_SM_STATE_TIMEOUT}"
    using l(4) by (simp add: sm_final_def)
  with nic arr d(2) l show ?thesis by blast
qed

theorem probe_reports_ready_witness:
  "\<exists>attr'. kgni_sm_probe_state ex_env 10 (ex_test\<lparr>pt_modes := 3\<rparr>) ex_completed = Some (0, attr') \<and>
    pt_post_id attr' = 0 \<and> (\<exists>a m. sms ex_completed a = Some m \<and> sm_state_of m \<in> {KGNI_SM_STATE_COMPLETED,
      KGNI_SM_STATE_TERMINATED, KGNI_SM_STATE_TIMEOUT} \<and> sm_post_id m = 0)"
proof -
  let ?attr = "ex_test\<lparr>pt_modes := 3, pt_post_id := 0\<rparr>"
  have p: "kgni_sm_probe_state ex_env 10 (ex_test\<lparr>pt_modes := 3\<rparr>) ex_completed = Some (0, ?attr)"
    by (simp add: kgni_sm_probe_state_def ex_completed_def prim_upd ex_state_def ex_nic_def cdm_of_id_def ex_cdm_def
        ex_test_def GNI_EP_PDT_MODE_USE_POST_ID_def on_smtask_def sm_final_def ex_done_def ex_raw_def)
  have "\<exists>m a. sms ex_completed a = Some m \<and> sm_state_of m \<in> {KGNI_SM_STATE_COMPLETED,
      KGNI_SM_STATE_TERMINATED, KGNI_SM_STATE_TIMEOUT} \<and> ?attr = ex_test\<lparr>pt_modes := 3, pt_post_id := sm_post_id m\<rparr>"
    using probe_reports_ready[OF p] by (auto simp: GNI_EP_PDT_MODE_USE_POST_ID_def)
  then obtain m a where "sms ex_completed a = Some m" "sm_state_of m \<in> {KGNI_SM_STATE_COMPLETED,
      KGNI_SM_STATE_TERMINATED, KGNI_SM_STATE_TIMEOUT}" "pt_post_id ?attr = sm_post_id m"
    by (auto dest: arg_cong[where f = pt_post_id])
  with p show ?thesis by (intro exI[of _ ?attr]) auto
qed

section \<open>Retransmission\<close>

text \<open>
  The delay before a retransmission to a peer without receive buffers grows with the square of the
  number of such failures from the third on and stays at one second: as long as the count is below
  65537 (beyond, the 32-bit square wraps) it is the smaller of \<open>(count - 1)\<^sup>2\<close> and 1000 milliseconds, and
  in every case it is at most 1000 milliseconds.
\<close>

theorem rx_delay_bounded:
  "sm_rx_delay (kgni_sm_rx_set_delay env j m) =
     (if unat (sm_nrx_cnt m) \<le> 2 then 0
      else j + msecs_to_jiffies env
        (of_nat (min 1000 (if unat (sm_nrx_cnt m) \<le> 65536 then (unat (sm_nrx_cnt m) - 1)\<^sup>2
           else (unat (sm_nrx_cnt m) - 1)\<^sup>2 mod 2 ^ 32))))"
proof -
  let ?k = "unat (sm_nrx_cnt m)"
  have gt: "sm_nrx_cnt m > 2 \<longleftrightarrow> \<not> ?k \<le> 2" by (simp add: word_less_nat_alt not_le)
  let ?t = "sm_nrx_cnt m - 1"
  have t: "unat ?t = ?k - 1" if "?k > 2" using that by (simp add: unat_sub word_le_nat_alt)
  have sq: "unat (?t * ?t) = (?k - 1)\<^sup>2 mod 2 ^ 32" if "?k > 2"
    using t[OF that] by (simp add: unat_word_ariths power2_eq_square)
  have small: "(?k - 1)\<^sup>2 mod 2 ^ 32 = (?k - 1)\<^sup>2" if "?k \<le> 65536"
  proof -
    have "(?k - 1)\<^sup>2 \<le> 65535\<^sup>2" using that by (intro power_mono) auto
    then show ?thesis by (intro mod_less) simp
  qed
  have "(if ?t * ?t > 1000 then 1000 else ?t * ?t) = (of_nat (min 1000 (unat (?t * ?t))) :: u32)"
    by (simp add: min_def word_less_nat_alt)
  with gt sq small show ?thesis by (auto simp: kgni_sm_rx_set_delay_def Let_def)
qed

text \<open>
  C25. A session whose packet could not be delivered too often is given up: when the worker meets it, with
  its channel up and no packet out, it is TIMED OUT and taken off the task list, the application's
  counter is raised if the user was not notified of it before, and the waiters of its NIC are woken.
\<close>

theorem worker_gives_up:
  assumes "sms s a = Some m" and "nics s (sm_nic_hndl m) = Some nic" and "nic_sm_chnl_hndl nic = Some ch"
    and "chnls s ch = Some c" and "sm_pkts_out m = 0" and "KGNI_SM_FLAG_SEND_FAILED \<in> sm_flags m"
    and "sm_state_of m \<noteq> KGNI_SM_STATE_TERMINATED" and "sm_flrcnt m > KGNI_SM_MAX_RETRANSMITS env"
    and "datagram_cnt_kern c = Some cnt" and "distinct (kgni_sm_list s)"
  shows "\<exists>s' m'. sm_task_step env j err a s = Some (Continue, err, False, s') \<and> sms s' a = Some m' \<and>
    sm_state_of m' = KGNI_SM_STATE_TIMEOUT \<and> KGNI_SM_FLAG_USR_NOTIFIED \<in> sm_flags m' \<and>
    a \<notin> set (kgni_sm_list s') \<and> sm_wakeups s' = sm_wakeups s @ [sm_nic_hndl m] \<and>
    (\<exists>c'. chnls s' ch = Some c' \<and> datagram_cnt_kern c' =
       Some (if KGNI_SM_FLAG_USR_NOTIFIED \<in> sm_flags m then cnt else cnt + 1))"
proof -
  have "sm_flags m \<inter> unsent_flags \<noteq> {}" using assms(6) by (auto simp: unsent_flags_def)
  with assms show ?thesis
    by (auto simp: sm_task_step_def kgni_notify_user_def Let_def prim_upd wake_up_sm_def upd_sm_def upd_chnl_def
        smtask_del_def)
qed

definition ex_failed :: kgni where
  "ex_failed = smtask_add 50 (add_session 100 50
     (ex_done\<lparr>sm_flags := {KGNI_SM_FLAG_SEND_FAILED}, sm_flrcnt := 4\<rparr>) ex_state)"

theorem worker_gives_up_witness:
  "\<exists>s' m'. sm_task_step ex_env 0 0 50 ex_failed = Some (Continue, 0, False, s') \<and> sms s' 50 = Some m' \<and>
    sm_state_of m' = KGNI_SM_STATE_TIMEOUT \<and> 50 \<notin> set (kgni_sm_list s')"
proof -
  let ?m = "ex_done\<lparr>sm_flags := {KGNI_SM_FLAG_SEND_FAILED}, sm_flrcnt := 4\<rparr>"
  have m: "sms ex_failed 50 = Some ?m" "nics ex_failed (sm_nic_hndl ?m) = Some ex_nic"
    "nic_sm_chnl_hndl ex_nic = Some 20" "chnls ex_failed 20 = Some ex_chnl" "sm_pkts_out ?m = 0"
    "KGNI_SM_FLAG_SEND_FAILED \<in> sm_flags ?m" "sm_state_of ?m \<noteq> KGNI_SM_STATE_TERMINATED"
    "sm_flrcnt ?m > KGNI_SM_MAX_RETRANSMITS ex_env" "datagram_cnt_kern ex_chnl = Some 0"
    "distinct (kgni_sm_list ex_failed)"
    by (simp_all add: ex_failed_def prim_upd ex_state_def ex_done_def ex_raw_def ex_nic_def ex_chnl_def ex_env_def)
  from worker_gives_up[OF m, of 0 0] show ?thesis by auto
qed

section \<open>Cleaning up\<close>

text \<open>
  The clean-up of a NIC whose channel is gone returns, keeps the invariant, and frees exactly the
  sessions of this NIC: none of them is left, and no other session is touched.
\<close>

theorem cleanup_frees_sessions:
  assumes "sm_inv env s" and "nics s n = Some nic" and "nic_sm_chnl_hndl nic = None"
    and "nic_cdm_id nic \<noteq> GNI_CDM_INVALID_ID" and "kgni_cdm_array s ! unat (nic_cdm_id nic) = Some d"
  shows "\<exists>s'. kgni_sm_cleanup env n (Some d) s = Some s' \<and> sm_inv env s' \<and>
    sms s' = (\<lambda>a. if \<exists>m. sms s a = Some m \<and> sm_nic_hndl m = n then None else sms s a)"
  using kgni_sm_cleanup_safe[OF assms] by (auto dest: okD)

definition ex_detached :: kgni where
  "ex_detached = (upd_nic 10 (\<lambda>k. k\<lparr>nic_sm_chnl_hndl := None\<rparr>) ex_completed)\<lparr>chnls := (chnls ex_completed)(20 := None)\<rparr>"

lemma ex_detached_inv: "sm_inv ex_env ex_detached"
  unfolding ex_detached_def
  by (rule sm_inv_chnl_destroy[OF ex_completed_inv, where nic = ex_nic])
    (simp_all add: ex_completed_def ex_state_def ex_nic_def)

theorem cleanup_frees_sessions_witness:
  "\<exists>s'. kgni_sm_cleanup ex_env 10 (Some 100) ex_detached = Some s' \<and> sms s' 50 = None"
proof -
  let ?nic = "ex_nic\<lparr>nic_sm_chnl_hndl := None\<rparr>"
  have p: "nics ex_detached 10 = Some ?nic" "nic_sm_chnl_hndl ?nic = None" "nic_cdm_id ?nic \<noteq> GNI_CDM_INVALID_ID"
    "kgni_cdm_array ex_detached ! unat (nic_cdm_id ?nic) = Some 100"
    by (simp_all add: ex_detached_def ex_completed_def prim_upd ex_state_def ex_nic_def)
  have "\<exists>m. sms ex_detached 50 = Some m \<and> sm_nic_hndl m = 10"
    by (simp add: ex_detached_def ex_completed_def prim_upd ex_done_def)
  with cleanup_frees_sessions[OF ex_detached_inv p] show ?thesis by auto
qed

section \<open>Packet slots\<close>

text \<open>
  C31. The search for the slot of the next packet ends: started at a slot in range, it returns a free slot
  in range whenever one of the other slots is free.
\<close>

theorem slot_search_terminates:
  assumes "i0 \<le> mx" and "mx < length ps" and "\<exists>j \<le> mx. j \<noteq> i0 \<and> ps ! j = None"
  shows "\<exists>k. next_pkt_slot ps mx i0 (i0 + 1) = Some k \<and> k \<le> mx \<and> ps ! k = None"
  using assms next_pkt_slot_finds by blast

theorem slot_search_terminates_witness:
  "\<exists>k. next_pkt_slot [None, Some 5, Some 6] 2 1 (1 + 1) = Some k \<and> k \<le> 2 \<and> [None, Some (5 :: addr), Some 6] ! k = None"
proof -
  have "\<exists>j \<le> 2. j \<noteq> 1 \<and> [None, Some (5 :: addr), Some 6] ! j = None" by (intro exI[of _ 0]) simp
  then show ?thesis by (intro slot_search_terminates) simp_all
qed

section \<open>An endpoint that names a PE but no instance\<close>



end
