(* ===== verification/Endpoint_Props.thy ===== *)
theory Endpoint_Props
  imports Endpoint_Inv Session_Props
begin

text \<open>
  The endpoint calls and the activities of the driver as one machine, and the properties of the calls.
\<close>

text \<open>The handle of a probe: NULL, or a NIC whose channel is up.\<close>

definition live_nic :: "addr option \<Rightarrow> api_state \<Rightarrow> bool" where
  "live_nic h s \<longleftrightarrow> (case h of None \<Rightarrow> True | Some n \<Rightarrow> nic_up n (api_k s))"

lemma nic_call_cases:
  assumes "live_nic h s"
  obtains "check_nic h s = Some None"
  | n nic where "check_nic h s = Some (Some n)" "nics (api_k s) n = Some nic" "nic_sm_chnl_hndl nic \<noteq> None"
  using assms
  by (cases "\<exists>n nic. h = Some n \<and> nics (api_k s) n = Some nic \<and> nic_type_id nic = GNI_TYPE_NIC_HANDLE")
    (auto simp: live_nic_def check_nic_def nic_up_def split: option.splits)

lemma get_state_inv:
  assumes "api_inv env s" and "env_ok env" and "nics (api_k s) n = Some nic" and "nic_sm_chnl_hndl nic \<noteq> None"
  shows "ok (kgni_sm_get_state env n args (api_k s)) (\<lambda>(r, a, out, k). api_inv env (s\<lparr>api_k := k\<rparr>))"
proof -
  from okD[OF kgni_sm_get_state_safe[OF api_invD(1)[OF assms(1)] assms(2,3,4), of args]]
  obtain r a out k where "kgni_sm_get_state env n args (api_k s) = Some (r, a, out, k)" "sm_inv env k" by auto
  with kgni_sm_get_state_objs[OF this(1)] api_inv_k[OF assms(1)] show ?thesis by simp
qed

lemma gni_postdata_probe_safe:
  assumes "api_inv env s" and "env_ok env" and "live_nic h s"
  shows "ok (gni_postdata_probe env xenv junk h outs s) (api_inv env \<circ> snd \<circ> snd) \<and>
    ok (gni_postdata_probe_by_id env xenv junk h outs s) (api_inv env \<circ> snd \<circ> snd)"
  using assms(3)
proof (cases rule: nic_call_cases)
  case (2 n nic)
  with assms(1) show ?thesis
    by (auto simp: gni_postdata_probe_def gni_postdata_probe_by_id_def ok_bind
        intro!: ok_mono[OF get_state_inv[OF assms(1,2) 2(2,3)]])
qed (use assms(1) in \<open>simp add: gni_postdata_probe_def gni_postdata_probe_by_id_def\<close>)

lemma gni_postdata_probe_wait_safe:
  assumes "api_inv env s" and "env_ok env" and "live_nic h s" and "\<forall>f \<in> set steps. calm env f"
  shows "ok (gni_postdata_probe_wait_by_id env xenv steps fin junk h timeout outs s) (api_inv env \<circ> snd \<circ> snd)"
  using assms(3)
proof (cases rule: nic_call_cases)
  case (2 n nic)
  have w: "ok (kgni_sm_wait_state env steps fin n args (api_k s)) (\<lambda>(r, a, out, k). api_inv env (s\<lparr>api_k := k\<rparr>))" for args
    using kgni_sm_wait_state_safe[OF api_invD(1)[OF assms(1)] assms(2) 2(2,3) assms(4), of fin args] api_inv_k[OF assms(1)]
    by (auto elim!: ok_mono)
  with 2 assms(1) show ?thesis
    by (auto simp: gni_postdata_probe_wait_by_id_def ok_bind intro!: ok_mono[OF w])
qed (use assms(1) in \<open>simp add: gni_postdata_probe_wait_by_id_def\<close>)

section \<open>The calls and the driver as a machine\<close>

datatype api_op =
    Api_create "addr option" "addr option" "addr option"
  | Api_eventdata "addr option" u32 u32
  | Api_bind reqlist_mem "addr option" u32 u32
  | Api_unbind "addr option"
  | Api_destroy "addr option"
  | Api_post "(addr \<times> kgni_sm_info) option" gni_ep_postdata_args "addr option" buffer u16 bool u16
  | Api_post_id "(addr \<times> kgni_sm_info) option" gni_ep_postdata_args "addr option" buffer u16 bool u16 u64
  | Api_test gni_ep_postdata_test_args "addr option" bool
  | Api_test_id gni_ep_postdata_test_args "addr option" u64 bool
  | Api_wait "(kgni \<Rightarrow> kgni) list" wait_end gni_ep_postdata_test_args "addr option" u32 bool
  | Api_probe gni_ep_postdata_test_args "addr option" bool
  | Api_probe_id gni_ep_postdata_test_args "addr option" bool
  | Api_probe_wait "(kgni \<Rightarrow> kgni) list" wait_end gni_ep_postdata_test_args "addr option" u32 bool
  | Api_cancel gni_ep_postdata_term_args "addr option"
  | Api_cancel_id gni_ep_postdata_term_args "addr option" u64
  | Api_driver sm_op

fun api_exec :: "kgni_env \<Rightarrow> ep_env \<Rightarrow> api_op \<Rightarrow> api_state \<Rightarrow> api_state run" where
  "api_exec env xenv (Api_create mem nh cq) s = map_option (snd \<circ> snd) (gni_ep_create mem nh cq s)"
| "api_exec env xenv (Api_eventdata h x y) s = map_option snd (gni_ep_set_eventdata h x y s)"
| "api_exec env xenv (Api_bind mem h pe i) s = map_option snd (gni_ep_bind xenv mem h pe i s)"
| "api_exec env xenv (Api_unbind h) s = map_option snd (gni_ep_unbind xenv h s)"
| "api_exec env xenv (Api_destroy h) s = map_option snd (gni_ep_destroy xenv h s)"
| "api_exec env xenv (Api_post mem junk h buf len out sz) s =
     map_option snd (gni_ep_postdata env xenv mem junk h buf len out sz s)"
| "api_exec env xenv (Api_post_id mem junk h buf len out sz i) s =
     map_option snd (gni_ep_postdata_w_id env xenv mem junk h buf len out sz i s)"
| "api_exec env xenv (Api_test junk h outs) s = map_option snd (gni_ep_postdata_test env xenv junk h outs s)"
| "api_exec env xenv (Api_test_id junk h i outs) s = map_option snd (gni_ep_postdata_test_by_id env xenv junk h i outs s)"
| "api_exec env xenv (Api_wait steps fin junk h t outs) s = map_option snd (gni_ep_postdata_wait env xenv steps fin junk h t outs s)"
| "api_exec env xenv (Api_probe junk h outs) s = map_option (snd \<circ> snd) (gni_postdata_probe env xenv junk h outs s)"
| "api_exec env xenv (Api_probe_id junk h outs) s = map_option (snd \<circ> snd) (gni_postdata_probe_by_id env xenv junk h outs s)"
| "api_exec env xenv (Api_probe_wait steps fin junk h t outs) s =
     map_option (snd \<circ> snd) (gni_postdata_probe_wait_by_id env xenv steps fin junk h t outs s)"
| "api_exec env xenv (Api_cancel junk h) s = map_option snd (gni_ep_postdata_cancel env xenv junk h s)"
| "api_exec env xenv (Api_cancel_id junk h i) s = map_option snd (gni_ep_postdata_cancel_by_id env xenv junk h i s)"
| "api_exec env xenv (Api_driver op) s = map_option (\<lambda>k. s\<lparr>api_k := k\<rparr>) (sm_exec env op (api_k s))"

text \<open>The calling conventions: handles are NULL or point to live objects, an allocation is fresh, an endpoint is bound to a
  complete address or to none, and what happens during a wait keeps the invariant of the session manager.\<close>

fun api_pre :: "kgni_env \<Rightarrow> api_op \<Rightarrow> api_state \<Rightarrow> bool" where
  "api_pre env (Api_create mem nh cq) s \<longleftrightarrow> create_pre mem nh cq s"
| "api_pre env (Api_eventdata h x y) s \<longleftrightarrow> live_ep h s"
| "api_pre env (Api_bind mem h pe i) s \<longleftrightarrow> live_ep h s \<and> ep_addr_ok pe i"
| "api_pre env (Api_unbind h) s \<longleftrightarrow> live_ep h s"
| "api_pre env (Api_destroy h) s \<longleftrightarrow> live_ep h s"
| "api_pre env (Api_post mem junk h buf len out sz) s \<longleftrightarrow> live_ep h s \<and> mem_ok mem (api_k s)"
| "api_pre env (Api_post_id mem junk h buf len out sz i) s \<longleftrightarrow> live_ep h s \<and> mem_ok mem (api_k s)"
| "api_pre env (Api_test junk h outs) s \<longleftrightarrow> live_ep h s"
| "api_pre env (Api_test_id junk h i outs) s \<longleftrightarrow> live_ep h s"
| "api_pre env (Api_wait steps fin junk h t outs) s \<longleftrightarrow> live_ep h s \<and> (\<forall>f \<in> set steps. calm env f)"
| "api_pre env (Api_probe junk h outs) s \<longleftrightarrow> live_nic h s"
| "api_pre env (Api_probe_id junk h outs) s \<longleftrightarrow> live_nic h s"
| "api_pre env (Api_probe_wait steps fin junk h t outs) s \<longleftrightarrow> live_nic h s \<and> (\<forall>f \<in> set steps. calm env f)"
| "api_pre env (Api_cancel junk h) s \<longleftrightarrow> live_ep h s"
| "api_pre env (Api_cancel_id junk h i) s \<longleftrightarrow> live_ep h s"
| "api_pre env (Api_driver op) s \<longleftrightarrow> driver_op op \<and> sm_pre env op (api_k s)"

lemmas api_call_safe = gni_ep_create_safe gni_ep_set_eventdata_safe gni_ep_bind_safe gni_ep_unbind_safe
  gni_ep_postdata_safe gni_ep_postdata_w_id_safe gni_ep_postdata_test_safe[THEN conjunct1] gni_ep_postdata_test_safe[THEN conjunct2]
  gni_ep_postdata_wait_safe gni_postdata_probe_safe[THEN conjunct1] gni_postdata_probe_safe[THEN conjunct2]
  gni_postdata_probe_wait_safe gni_ep_postdata_cancel_safe[THEN conjunct1] gni_ep_postdata_cancel_safe[THEN conjunct2]

lemma api_exec_safe:
  assumes inv: "api_inv env s" and env: "env_ok env" and pre: "api_pre env op s"
  shows "ok (api_exec env xenv op s) (api_inv env)"
proof (cases "\<exists>h. op = Api_destroy h \<or> (\<exists>o'. op = Api_driver o')")
  case True
  then consider h where "op = Api_destroy h" | o' where "op = Api_driver o'" by blast
  then show ?thesis
  proof cases
    case (1 h)
    with pre show ?thesis
      by (auto simp: ok_map_option intro!: ok_mono[OF gni_ep_destroy_safe[OF inv, of h xenv]])
  next
    case (2 o')
    with pre have o': "driver_op o'" "sm_pre env o' (api_k s)" by simp_all
    from okD[OF sm_exec_safe[OF api_invD(1)[OF inv] env o'(2)]] obtain k where
      "sm_exec env o' (api_k s) = Some k" "sm_inv env k" by blast
    with driver_op_objs[OF o'(1) this(1)] api_inv_k[OF inv] 2 show ?thesis by simp
  qed
next
  case False
  with api_call_safe[OF inv] env pre show ?thesis
    by (cases op) (simp_all add: ok_map_option comp_assoc)
qed

interpretation api: safe_machine "api_pre env" "api_exec env xenv" "\<lambda>s. env_ok env \<and> api_inv env s" for env xenv
  by unfold_locales (auto simp: ok_conj dest!: okD intro: api_exec_safe[THEN ok_mono])

section \<open>A concrete client\<close>

definition ex_xenv :: ep_env where
  "ex_xenv = \<lparr>GNI_RETURN_CODE_FROM_KGNI_ERROR = (\<lambda>e. if e = - ESRCH then GNI_RC_NO_MATCH else
       if e = - ENOMEM then GNI_RC_ERROR_NOMEM else GNI_RC_INVALID_PARAM),
     smsg_remove_blocked = remove1\<rparr>"

definition ex_req :: gnii_req where
  "ex_req = \<lparr>rq_post_desc = Some 80, rq_user_post_id = 0, rq_local_event = 0, rq_cqes_pending = 3, rq_id = 1,
     rq_type = GNII_REQ_TYPE_POST, rq_ep_hndl = Some 30\<rparr>"

definition ex_cq :: gni_cq where
  "ex_cq = \<lparr>cq_type_id = GNI_TYPE_CQ_HANDLE, cq_nic_hndl = 10, cq_req_list = Some \<lparr>rl_nreqs_max = 1, rl_freehead = 1,
       rl_base = [ex_req], rl_freelist = [0]\<rparr>, cq_entry_count = 3, cq_ep_ref_count = 1, cq_mdh_attached = 0,
     cq_reqfull_list = [], cq_hw_cq_hndl = 5\<rparr>"

definition ex_ep :: gni_ep where
  "ex_ep = \<lparr>ep_type_id = GNI_TYPE_EP_HANDLE, ep_nic_hndl = 10, ep_remote_pe = 7, ep_remote_id = 2, ep_remote_event = 1,
     ep_local_event = 2, ep_src_cq_hndl = Some 40, ep_outstanding_tx_reqs = 2, ep_datagram_out_buf = False,
     ep_datagram_buf_size = 0, ep_pending_datagram = 0, ep_smsg = None, ep_smsg_type = GNI_SMSG_TYPE_INVALID\<rparr>"

text \<open>One endpoint with a posted transfer that waits for two events.\<close>

definition ex_api :: api_state where
  "ex_api = \<lparr>api_k = ex_state, eps = [30 \<mapsto> ex_ep], cqs = [40 \<mapsto> ex_cq], cq_list = (\<lambda>n. if n = 10 then [40] else []), smsgs = {}\<rparr>"

lemma ex_api_pending: "cq_pending e ex_cq = (if e = 30 then 2 else 0)"
  by (simp add: cq_pending_def ex_cq_def req_pending_def ex_req_def pend_events_def GNI_CQMODE_LOCAL_EVENT_def GNI_CQMODE_GLOBAL_EVENT_def)

lemma ex_api_inv: "api_inv ex_env ex_api"
proof -
  have up: "nic_up 10 ex_state" by (simp add: nic_up_def ex_state_def ex_nic_def)
  have "cq_ok ex_state ex_cq"
    by (simp add: cq_ok_def cq_nic_ok_def ex_cq_def ex_state_def ex_nic_def rl_ok_def)
  moreover have "ep_ok ex_state (cqs ex_api) ex_ep"
    using up by (simp add: ep_ok_def ex_ep_def ep_addr_ok_def ex_api_def)
  ultimately have "inv_objs ex_api" by (auto simp: inv_objs_def ex_api_def split: if_splits)
  moreover have "ep_users (eps ex_api) 40 = {30}" by (auto simp: ep_users_def ex_api_def ex_ep_def split: if_splits)
  then have "inv_refs ex_api" by (auto simp: inv_refs_def ex_api_def ex_cq_def split: if_splits)
  moreover have "inv_events ex_api"
    by (auto simp: inv_events_def ex_api_def ex_ep_def cqs_pending_def ex_api_pending split: if_splits)
  ultimately show ?thesis by (simp add: api_inv_def ex_api_def)
qed

section \<open>Properties\<close>

text \<open>
  C5. Endpoint calls are safe in every interleaving with the worker and the channel callbacks of the driver. From a state that
  satisfies the invariant, after any sequence of calls and driver activities under their conventions, the
  next one returns; each completion queue counts exactly the endpoints that use it, and each endpoint exactly the
  events its posted requests wait for.
\<close>

theorem endpoint_calls_safe:
  assumes "env_ok env" and "api_inv env s0" and "reachable (api_pre env) (api_exec env xenv) s0 s"
  shows "(\<forall>op. api_pre env op s \<longrightarrow> api_exec env xenv op s \<noteq> None) \<and>
    (\<forall>c q. cqs s c = Some q \<longrightarrow> cq_ep_ref_count q = of_nat (card {e. \<exists>ep. eps s e = Some ep \<and> ep_src_cq_hndl ep = Some c})) \<and>
    (\<forall>e ep. eps s e = Some ep \<longrightarrow> unat (ep_outstanding_tx_reqs ep) = cqs_pending e (cqs s) (cq_list s (ep_nic_hndl ep)))"
proof -
  have i: "api_inv env s" using api.reachable_inv[of env s0 xenv s] assms by simp
  moreover have "api_exec env xenv op s \<noteq> None" if "api_pre env op s" for op
    using api_exec_safe[OF i assms(1) that] by (auto simp: ok_def)
  ultimately show ?thesis by (simp add: api_inv_def inv_refs_def inv_events_def ep_users_def)
qed

theorem endpoint_calls_safe_witness:
  "\<exists>s. reachable (api_pre ex_env) (api_exec ex_env ex_xenv) ex_api s \<and> eps s 31 \<noteq> None \<and>
     (\<exists>q. cqs s 40 = Some q \<and> cq_ep_ref_count q = of_nat (card {e. \<exists>ep. eps s e = Some ep \<and> ep_src_cq_hndl ep = Some 40}))"
proof -
  let ?op = "Api_create (Some 31) (Some 10) (Some 40)"
  have pre: "api_pre ex_env ?op ex_api"
    by (simp add: create_pre_def ex_api_def nic_up_def ex_state_def ex_nic_def)
  obtain s q where s: "api_exec ex_env ex_xenv ?op ex_api = Some s" "eps s 31 \<noteq> None" "cqs s 40 = Some q"
    by (simp add: gni_ep_create_def check_nic_def ex_api_def ex_state_def ex_nic_def ex_cq_def upd_cq_def)
  have r: "reachable (api_pre ex_env) (api_exec ex_env ex_xenv) ex_api s"
    by (rule reachable.step[where op = ?op, OF reachable.start]) (use pre s(1) in simp_all)
  from endpoint_calls_safe[OF ex_env_ok ex_api_inv r] s r show ?thesis by blast
qed

text \<open>
  C26. Destroying an endpoint returns, frees exactly that endpoint and cancels its requests: afterwards no completion queue
  has a request that waits for an event of it.
\<close>

theorem destroy_cancels_requests:
  assumes "api_inv env s" and "eps s e \<noteq> None"
  shows "\<exists>rc s'. gni_ep_destroy xenv (Some e) s = Some (rc, s') \<and> api_inv env s' \<and> eps s' = (eps s)(e := None) \<and>
    (\<forall>c q rl r. cqs s' c = Some q \<longrightarrow> cq_req_list q = Some rl \<longrightarrow> r \<in> set (rl_base rl) \<longrightarrow>
      rq_type r \<noteq> GNII_REQ_TYPE_INACTIVE \<longrightarrow> rq_ep_hndl r = Some e \<longrightarrow> pend_events (rq_cqes_pending r) = 0)"
proof -
  have "live_ep (Some e) s" using assms(2) by (simp add: live_ep_def)
  from okD[OF gni_ep_destroy_safe[OF assms(1) this, of xenv]] obtain rc s' where
    d: "gni_ep_destroy xenv (Some e) s = Some (rc, s')" "api_inv env s'" "eps s' = (eps s)(e := None)"
      "\<And>c q. cqs s' c = Some q \<Longrightarrow> cq_pending e q = 0" by auto
  have "pend_events (rq_cqes_pending r) = 0" if r: "cqs s' c = Some q" "cq_req_list q = Some rl" "r \<in> set (rl_base rl)"
    "rq_type r \<noteq> GNII_REQ_TYPE_INACTIVE" "rq_ep_hndl r = Some e" for c q rl r
  proof -
    have "req_pending e r = 0" using d(4)[OF r(1)] r(2,3) by (auto simp: cq_pending_def)
    with r(4,5) show ?thesis by (simp add: req_pending_def)
  qed
  with d(1-3) show ?thesis by blast
qed

theorem destroy_cancels_requests_witness:
  "\<exists>rc s'. gni_ep_destroy ex_xenv (Some 30) ex_api = Some (rc, s') \<and> eps s' 30 = None"
proof -
  have "eps ex_api 30 \<noteq> None" by (simp add: ex_api_def)
  from destroy_cancels_requests[OF ex_api_inv this, of ex_xenv] show ?thesis by auto
qed

lemma post_result_success:
  assumes "post_result xenv e s (r, k) = (GNI_RC_SUCCESS, s')" and "\<forall>r. r \<noteq> 0 \<longrightarrow> GNI_RETURN_CODE_FROM_KGNI_ERROR xenv r \<noteq> GNI_RC_SUCCESS"
  shows "r = 0 \<and> s' = upd_ep e (\<lambda>p. p\<lparr>ep_pending_datagram := 1\<rparr>) (s\<lparr>api_k := k\<rparr>)"
  using assms by (cases "r = 0") (auto simp: post_result_def)

text \<open>
  An endpoint has at most one pending datagram. A post that reports success was accepted by the session manager and sets the
  flag; while the flag is set another post is refused and changes nothing; a test that reports a final state clears it.
\<close>

theorem one_pending_datagram:
  assumes "eps s e = Some ep" and "ep_type_id ep = GNI_TYPE_EP_HANDLE" and "\<forall>r. r \<noteq> 0 \<longrightarrow> GNI_RETURN_CODE_FROM_KGNI_ERROR xenv r \<noteq> GNI_RC_SUCCESS"
  shows "(ep_pending_datagram ep \<noteq> 0 \<longrightarrow>
        gni_ep_postdata env xenv mem junk (Some e) buf len out sz s = Some (GNI_RC_INVALID_PARAM, s) \<and>
        gni_ep_postdata_w_id env xenv mem junk (Some e) buf len out sz i s = Some (GNI_RC_INVALID_PARAM, s)) \<and>
    (\<forall>s'. gni_ep_postdata env xenv mem junk (Some e) buf len out sz s = Some (GNI_RC_SUCCESS, s') \<longrightarrow>
        (\<exists>ep' args. eps s' e = Some ep' \<and> ep_pending_datagram ep' = 1 \<and> GNI_EP_BOUND (ep_remote_pe ep) (ep_remote_id ep) \<and>
          ep_pending_datagram ep = 0 \<and> kgni_sm_add_session env mem (ep_nic_hndl ep) args (api_k s) = Some (0, api_k s'))) \<and>
    (\<forall>tr s'. gni_ep_postdata_test env xenv tjunk (Some e) True s = Some (tr, s') \<longrightarrow> tr_rc tr = GNI_RC_SUCCESS \<longrightarrow>
        (\<exists>st a b ep'. tr_out tr = Some (st, a, b) \<and> eps s' e = Some ep' \<and>
          ep_pending_datagram ep' = (if final_post st then 0 else ep_pending_datagram ep)))"
proof (intro conjI allI impI)
  assume "ep_pending_datagram ep \<noteq> 0"
  with assms(1,2) show "gni_ep_postdata env xenv mem junk (Some e) buf len out sz s = Some (GNI_RC_INVALID_PARAM, s)"
    "gni_ep_postdata_w_id env xenv mem junk (Some e) buf len out sz i s = Some (GNI_RC_INVALID_PARAM, s)"
    by (simp_all add: gni_ep_postdata_def gni_ep_postdata_w_id_def check_ep_def)
next
  fix s' assume "gni_ep_postdata env xenv mem junk (Some e) buf len out sz s = Some (GNI_RC_SUCCESS, s')"
  with assms show "\<exists>ep' args. eps s' e = Some ep' \<and> ep_pending_datagram ep' = 1 \<and> GNI_EP_BOUND (ep_remote_pe ep) (ep_remote_id ep) \<and>
      ep_pending_datagram ep = 0 \<and> kgni_sm_add_session env mem (ep_nic_hndl ep) args (api_k s) = Some (0, api_k s')"
    by (auto simp: gni_ep_postdata_def check_ep_def Let_def bind_eq_Some_conv upd_ep_def split: if_split_asm
        dest!: post_result_success)
next
  fix tr s' assume "gni_ep_postdata_test env xenv tjunk (Some e) True s = Some (tr, s')" "tr_rc tr = GNI_RC_SUCCESS"
  with assms show "\<exists>st a b ep'. tr_out tr = Some (st, a, b) \<and> eps s' e = Some ep' \<and>
      ep_pending_datagram ep' = (if final_post st then 0 else ep_pending_datagram ep)"
    by (auto simp: gni_ep_postdata_test_def check_ep_def Let_def bind_eq_Some_conv test_outputs_def clear_pending_def upd_ep_def
        split: if_split_asm)
qed

theorem one_pending_datagram_witness:
  "\<exists>ep' s'. gni_ep_postdata ex_env ex_xenv (Some (50, ex_raw)) ex_post (Some 30) (Some of_nat) 2 False 0 ex_api = Some (GNI_RC_SUCCESS, s') \<and>
     eps s' 30 = Some ep' \<and> ep_pending_datagram ep' = 1"
proof -
  let ?s = "upd_ep 30 (\<lambda>p. p\<lparr>ep_pending_datagram := 1\<rparr>) (ex_api\<lparr>eps := [30 \<mapsto> ex_ep], api_k := ex_posted\<rparr>)"
  have args: "ex_post\<lparr>pd_remote_pe := 7, pd_remote_id := 2, pd_in_data := Some of_nat, pd_in_data_len := 2\<rparr> = ex_post"
    by (simp add: ex_post_def)
  obtain s' where "gni_ep_postdata ex_env ex_xenv (Some (50, ex_raw)) ex_post (Some 30) (Some of_nat) 2 False 0 ex_api = Some (GNI_RC_SUCCESS, s')"
    using ex_add_session
    by (simp add: gni_ep_postdata_def check_ep_def ex_api_def ex_ep_def GNI_EP_BOUND_def args post_result_def upd_ep_def)
  moreover have "eps ex_api 30 = Some ex_ep" "ep_type_id ex_ep = GNI_TYPE_EP_HANDLE" by (simp_all add: ex_api_def ex_ep_def)
  moreover have "\<forall>r. r \<noteq> 0 \<longrightarrow> GNI_RETURN_CODE_FROM_KGNI_ERROR ex_xenv r \<noteq> GNI_RC_SUCCESS" by (simp add: ex_xenv_def)
  ultimately show ?thesis
    using one_pending_datagram[of ex_api 30 ex_ep ex_xenv ex_env "Some (50, ex_raw)" ex_post "Some of_nat" 2 False 0] by blast
qed

text \<open>
  The request list a queue gets when its first endpoint is bound: as many requests as the queue has entries without the two
  for errors, half of it when every transfer reports two events; all idle, with distinct ids that start at 1, and all on
  the free list.
\<close>

theorem reqlist_fresh:
  assumes "kgni_reqlist_alloc mem (Some c) s = Some (0, s')" and "cqs s c = Some q" and "2 \<le> cq_entry_count q"
    and "nics (api_k s) (cq_nic_hndl q) = Some nic" and "nic_cdm_hndl nic = Some d" and "cdms (api_k s) d = Some cdm"
  shows "\<exists>rl. cqs s' c = Some (q\<lparr>cq_req_list := Some rl\<rparr>) \<and>
    unat (rl_nreqs_max rl) = (unat (cq_entry_count q) - 2) div (if cdm_modes cdm AND GNI_CDM_MODE_DUAL_EVENTS \<noteq> 0 then 2 else 1) \<and>
    length (rl_base rl) = unat (rl_nreqs_max rl) \<and> distinct (map rq_id (rl_base rl)) \<and> distinct (rl_freelist rl) \<and>
    set (rl_freelist rl) = {..<length (rl_base rl)} \<and>
    (\<forall>i < length (rl_base rl). unat (rq_id (rl_base rl ! i)) = i + 1 \<and> rq_type (rl_base rl ! i) = GNII_REQ_TYPE_INACTIVE)"
proof -
  obtain raw where n: "mem_base mem = Some raw"
    using assms(1,2) by (auto simp: kgni_reqlist_alloc_def bind_eq_Some_conv Let_def split: if_split_asm option.split_asm)
  let ?dual = "cdm_modes cdm AND GNI_CDM_MODE_DUAL_EVENTS \<noteq> 0"
  let ?n = "if ?dual then (cq_entry_count q - 2) div 2 else cq_entry_count q - 2"
  let ?rl = "\<lparr>rl_nreqs_max = ?n, rl_freehead = 0, rl_base = reqlist_base raw (unat ?n), rl_freelist = [0..<unat ?n]\<rparr>"
  have s': "cqs s' c = Some (q\<lparr>cq_req_list := Some ?rl\<rparr>)"
    using assms(1,2,4-6) n by (auto simp: kgni_reqlist_alloc_def Let_def upd_cq_def split: if_split_asm)
  have max: "unat ?n = (unat (cq_entry_count q) - 2) div (if ?dual then 2 else 1)"
    using assms(3) by (simp add: unat_div unat_sub word_le_nat_alt)
  have "unat (cq_entry_count q) < 2 ^ 32" using unsigned_less[of "cq_entry_count q", where 'a = nat] by simp
  with max have lt: "unat ?n < 2 ^ 32 - 1" by (simp split: if_splits)
  have len: "length (reqlist_base raw (unat ?n)) = unat ?n" by (simp add: reqlist_base_idle)
  have ids: "unat (rq_id (reqlist_base raw (unat ?n) ! i)) = i + 1" if "i < unat ?n" for i
  proof -
    have "i + 1 < 2 ^ 32" using lt that by linarith
    then have "unat (of_nat (i + 1) :: u32) = i + 1" by (simp add: unsigned_of_nat take_bit_nat_eq_self del: of_nat_add of_nat_Suc)
    with that show ?thesis by (simp add: reqlist_base_def add.commute)
  qed
  have "inj_on (\<lambda>i. rq_id (reqlist_base raw (unat ?n) ! i)) {..<unat ?n}"
    by (rule inj_onI) (metis ids add_right_cancel lessThan_iff)
  then have "distinct (map rq_id (reqlist_base raw (unat ?n)))"
    by (auto simp: distinct_conv_nth len inj_on_def)
  moreover have "rq_type (reqlist_base raw (unat ?n) ! i) = GNII_REQ_TYPE_INACTIVE" if "i < unat ?n" for i
    using reqlist_base_idle(2)[OF nth_mem] that len by simp
  ultimately show ?thesis
    using s' max ids len by (intro exI[of _ ?rl]) auto
qed

definition ex_cq_bare :: gni_cq where
  "ex_cq_bare = ex_cq\<lparr>cq_req_list := None, cq_entry_count := 4\<rparr>"

theorem reqlist_fresh_witness:
  "\<exists>s' rl. kgni_reqlist_alloc \<lparr>mem_list = True, mem_freelist = True, mem_base = Some (\<lambda>_. ex_req)\<rparr> (Some 40)
      (ex_api\<lparr>cqs := [40 \<mapsto> ex_cq_bare]\<rparr>) = Some (0, s') \<and>
    cqs s' 40 = Some (ex_cq_bare\<lparr>cq_req_list := Some rl\<rparr>) \<and> distinct (map rq_id (rl_base rl))"
proof -
  let ?mem = "\<lparr>mem_list = True, mem_freelist = True, mem_base = Some (\<lambda>_. ex_req)\<rparr>" and ?s = "ex_api\<lparr>cqs := [40 \<mapsto> ex_cq_bare]\<rparr>"
  obtain s' where s': "kgni_reqlist_alloc ?mem (Some 40) ?s = Some (0, s')"
    by (simp add: kgni_reqlist_alloc_def ex_cq_bare_def ex_cq_def ex_api_def ex_state_def ex_nic_def Let_def)
  have "cqs ?s 40 = Some ex_cq_bare" "2 \<le> cq_entry_count ex_cq_bare" "nics (api_k ?s) (cq_nic_hndl ex_cq_bare) = Some ex_nic"
    "nic_cdm_hndl ex_nic = Some 100" "cdms (api_k ?s) 100 = Some ex_cdm"
    by (simp_all add: ex_cq_bare_def ex_cq_def ex_api_def ex_state_def ex_nic_def)
  from reqlist_fresh[OF s' this] s' show ?thesis by blast
qed

text \<open>
  A failed bind leaves the endpoint bound: when the request list of the source queue cannot be allocated, the call
  returns an error, and the next bind of the same endpoint is refused because it is bound already.
\<close>

theorem failed_bind_stays_bound:
  "\<exists>s1 ep. gni_ep_bind ex_xenv \<lparr>mem_list = False, mem_freelist = True, mem_base = None\<rparr> (Some 30) 7 2
       (ex_api\<lparr>cqs := [40 \<mapsto> ex_cq_bare], eps := [30 \<mapsto> ex_ep\<lparr>ep_remote_pe := - 1, ep_remote_id := - 1, ep_outstanding_tx_reqs := 0\<rparr>]\<rparr>) =
         Some (GNI_RC_ERROR_NOMEM, s1) \<and> eps s1 30 = Some ep \<and> GNI_EP_BOUND (ep_remote_pe ep) (ep_remote_id ep) \<and>
     gni_ep_bind ex_xenv \<lparr>mem_list = True, mem_freelist = True, mem_base = Some (\<lambda>_. ex_req)\<rparr> (Some 30) 7 2 s1 =
       Some (GNI_RC_INVALID_PARAM, s1)"
  by (simp add: gni_ep_bind_def check_ep_def ex_ep_def GNI_EP_BOUND_def ex_api_def ex_state_def upd_ep_def ex_cq_bare_def ex_cq_def
      kgni_reqlist_alloc_def ex_xenv_def Let_def)

text \<open>
  A probe for a datagram never reports success: when it has found a session and written the address of the remote side, it returns
  GNI_RC_NO_MATCH, the code for not having found one.
\<close>

theorem probe_success_is_no_match:
  assumes "gni_postdata_probe env xenv junk h outs s = Some (rc, Some addr, s')"
  shows "rc = GNI_RC_NO_MATCH"
  using assms by (auto simp: gni_postdata_probe_def bind_eq_Some_conv split: option.split_asm if_split_asm)

theorem probe_success_is_no_match_witness:
  "\<exists>rc addr s'. gni_postdata_probe ex_env ex_xenv ex_test (Some 10) True (ex_api\<lparr>api_k := ex_completed\<rparr>) = Some (rc, Some addr, s') \<and>
     rc = GNI_RC_NO_MATCH"
proof -
  obtain rc addr s' where "gni_postdata_probe ex_env ex_xenv ex_test (Some 10) True (ex_api\<lparr>api_k := ex_completed\<rparr>) = Some (rc, Some addr, s')"
    by (simp add: gni_postdata_probe_def check_nic_def kgni_sm_get_state_def kgni_sm_probe_state_def ex_completed_def prim_upd ex_state_def
        ex_nic_def cdm_of_id_def ex_cdm_def ex_test_def GNI_EP_PDT_MODE_PROBE_def GNI_EP_PDT_MODE_USE_POST_ID_def on_smtask_def sm_final_def
        ex_done_def ex_raw_def Let_def)
  with probe_success_is_no_match[OF this] show ?thesis by blast
qed

text \<open>
  A test reads a mode that it does not set. On the same endpoint and the same completed session it returns the data or, when the
  stack happens to hold the probe bit, success with no data and the session left in place.
\<close>

theorem test_depends_on_stack:
  "\<exists>tr1 s1 tr2 s2.
     gni_ep_postdata_test ex_env ex_xenv (ex_test\<lparr>pt_modes := 0\<rparr>) (Some 30) True
       (ex_api\<lparr>api_k := ex_completed, eps := [30 \<mapsto> ex_ep\<lparr>ep_datagram_out_buf := True, ep_datagram_buf_size := 128\<rparr>]\<rparr>) = Some (tr1, s1) \<and>
     gni_ep_postdata_test ex_env ex_xenv (ex_test\<lparr>pt_modes := GNI_EP_PDT_MODE_PROBE\<rparr>) (Some 30) True
       (ex_api\<lparr>api_k := ex_completed, eps := [30 \<mapsto> ex_ep\<lparr>ep_datagram_out_buf := True, ep_datagram_buf_size := 128\<rparr>]\<rparr>) = Some (tr2, s2) \<and>
     tr_rc tr1 = GNI_RC_SUCCESS \<and> tr_data tr1 = [65, 66] \<and> sms (api_k s1) 50 = None \<and>
     tr_rc tr2 = GNI_RC_SUCCESS \<and> tr_data tr2 = [] \<and> sms (api_k s2) 50 \<noteq> None"
proof -
  let ?s = "ex_api\<lparr>api_k := ex_completed, eps := [30 \<mapsto> ex_ep\<lparr>ep_datagram_out_buf := True, ep_datagram_buf_size := 128\<rparr>]\<rparr>"
  let ?args = "\<lambda>m. ex_test\<lparr>pt_modes := m, pt_timeout := 0, pt_remote_pe := 7, pt_remote_id := 2, pt_out_buff := True, pt_buff_size := 128\<rparr>"
  obtain a1 k1 where t1: "kgni_sm_get_state ex_env 10 (?args 0) ex_completed = Some (0, a1, [65, 66], k1)" "sms k1 50 = None"
    by (simp add: kgni_sm_get_state_def ex_completed_def prim_upd ex_env_def ex_state_def ex_pkt_def GNI_EP_BOUND_def
        ex_cdm_def ex_nic_def ex_test_def ex_done_def ex_raw_def ex_chnl_def cdm_of_id_def ntt_translate_def Let_def match_post_def
        gs_step_def gs_take_def gs_ntt_def sm_final_def on_smtask_def post_state_of_def)
  have t2: "kgni_sm_get_state ex_env 10 (?args GNI_EP_PDT_MODE_PROBE) ex_completed = Some (0, ?args GNI_EP_PDT_MODE_PROBE, [], ex_completed)"
    by (simp add: kgni_sm_get_state_def kgni_sm_probe_state_def ex_completed_def prim_upd ex_state_def
        ex_nic_def cdm_of_id_def ex_cdm_def ex_test_def GNI_EP_PDT_MODE_PROBE_def GNI_EP_PDT_MODE_USE_POST_ID_def on_smtask_def sm_final_def
        ex_done_def ex_raw_def ex_pkt_def Let_def)
  have "sms ex_completed 50 \<noteq> None" by (simp add: ex_completed_def prim_upd)
  with t1 t2 show ?thesis
    by (simp add: gni_ep_postdata_test_def check_ep_def ex_ep_def GNI_EP_BOUND_def test_outputs_def Let_def clear_pending_def)
qed

end
