(* ===== verification/Cdm.thy ===== *)
theory Cdm
  imports Session Resource Umap
begin

text \<open>
  Communication domains and the NIC instances attached to them, from \<open>kgni_ops.c\<close> and \<open>kgni_main.c\<close>:
  the table of domains, the creation and destruction of NIC instances, and the attach and detach of a NIC by a
  user process and by a kernel application. An attach takes resources in stages and gives them up in the reverse
  order when a stage fails.
\<close>

section \<open>State\<close>

text \<open>Calls to parts of the driver outside the repository that take or give up resources, in the order they are made.\<close>

datatype ext_call =
    Kgni_subscribe_errors addr
  | Kgni_error_cleanup addr
  | Kgni_ce_cleanup addr
  | Kgni_dla_cleanup addr
  | Kgni_dla_free addr
  | Kgni_dla_init addr
  | Kgni_fma_init addr
  | Kgni_fma_fini addr
  | Kgni_mm_init addr
  | Kgni_mm_fini addr
  | Gni_subscribe_errors addr
  | Gni_release_errors addr
  | Kgni_cq_destroy addr addr
  | Kgni_fma_put_all addr
  | Kgni_mem_cleanup addr
  | Kgni_vmdh_release addr
  | App_cleanup addr

text \<open>An open device file.\<close>

record kgni_file =
  fl_nic_hndl :: "addr option"
  fl_app_cleanup :: bool

text \<open>The driver, the device, the address spaces, the flush page of each NIC, the list of NICs with a quiesce
  call-back, the open files, and the calls that have been made.\<close>

record sys =
  sy_k :: kgni
  sy_dev :: kgni_device
  sy_mm :: mm_state
  sy_flsh :: "addr \<rightharpoonup> addr"
  qsce_list :: "addr list"
  files :: "addr \<rightharpoonup> kgni_file"
  sy_ext :: "ext_call list"

definition ext :: "ext_call \<Rightarrow> sys \<Rightarrow> sys" where
  "ext c s = s\<lparr>sy_ext := sy_ext s @ [c]\<rparr>"

definition sys_nic :: "addr \<Rightarrow> (gni_nic \<Rightarrow> gni_nic) \<Rightarrow> sys \<Rightarrow> sys" where
  "sys_nic n f s = s\<lparr>sy_k := upd_nic n f (sy_k s)\<rparr>"

record gni_nic_setattr_args =
  sa_ptag :: u32
  sa_cookie :: u32
  sa_rank :: u32
  sa_modes :: u32

text \<open>What the code outside the repository and the allocators answer during one call.\<close>

record att_env =
  ae_rsrc :: rsrc_env
  ae_cur :: addr
  ae_umap_rw :: umap_env
  ae_umap_cq :: umap_env
  rw_page_phys :: u64
  cq_mask_phys :: u64
  PAGE_SIZE :: u64
  KGNI_CQ_INTERRUPT_MASK_SIZE :: u64
  dev_nic_pe :: u32
  file_mem :: "addr option"
  nic_mem :: "addr option"
  page_mem :: "addr option"
  cdm_mem :: "addr option"
  rsrc_mem :: bool
  pkts_mem :: bool
  kgni_subscribe_errors :: int
  kgni_kern_ptag_pkey_check :: "u8 \<Rightarrow> u16 \<Rightarrow> gni_return"
  kgni_mm_init :: "gni_nic \<Rightarrow> int \<times> gni_nic"
  kgni_mm_fini :: "addr \<Rightarrow> gni_nic \<times> mm_state \<Rightarrow> gni_nic \<times> mm_state"
  kgni_chnl_create :: "addr \<Rightarrow> u32 \<Rightarrow> nat \<Rightarrow> int + (addr \<times> kgni_chnl)"
  kgni_fma_init :: int
  kgni_dla_init :: gni_return
  gni_subscribe_errors :: gni_return
  KGNI_ERROR_FROM_GNI_RETURN_CODE :: "gni_return \<Rightarrow> int"
  GNI_RETURN_CODE_OF_ERROR :: "int \<Rightarrow> gni_return"

definition GNI_CDM_MODE_ERR_NO_KILL :: u32 where "GNI_CDM_MODE_ERR_NO_KILL = 0x00000008"

section \<open>The table of domains\<close>

text \<open>The loops run over the indices of the table; an entry is followed only when it is not NULL.\<close>

definition cdm_match :: "u8 \<Rightarrow> u32 \<Rightarrow> u32 \<Rightarrow> gni_cdm \<Rightarrow> bool" where
  "cdm_match ptag cookie inst c \<longleftrightarrow> cdm_ptag c = ptag \<and> cdm_cookie c = cookie \<and> cdm_inst_id c = inst"

fun lookup_loop :: "u8 \<Rightarrow> u32 \<Rightarrow> u32 \<Rightarrow> nat list \<Rightarrow> kgni \<Rightarrow> (addr \<times> nat) option run" where
  "lookup_loop ptag cookie inst [] k = Some None"
| "lookup_loop ptag cookie inst (i # is) k = do {
     e \<leftarrow> array_get (kgni_cdm_array k) i;
     (case e of
        None \<Rightarrow> lookup_loop ptag cookie inst is k
      | Some d \<Rightarrow> do {
          c \<leftarrow> cdms k d;
          if cdm_type_id c = GNI_TYPE_CDM_HANDLE \<and> cdm_match ptag cookie inst c then Some (Some (d, i))
          else lookup_loop ptag cookie inst is k
        })
   }"

text \<open>The domain and, when it is found, the index.\<close>

definition kgni_cdm_lookup :: "kgni_env \<Rightarrow> u8 \<Rightarrow> u32 \<Rightarrow> u32 \<Rightarrow> kgni \<Rightarrow> (addr \<times> nat) option run" where
  "kgni_cdm_lookup env ptag cookie inst k = lookup_loop ptag cookie inst [0..<KGNI_MAX_CDM_NUMBER env] k"

fun next_loop :: "u8 \<Rightarrow> nat list \<Rightarrow> kgni \<Rightarrow> (addr \<times> nat) option run" where
  "next_loop ptag [] k = Some None"
| "next_loop ptag (i # is) k = do {
     e \<leftarrow> array_get (kgni_cdm_array k) i;
     (case e of
        None \<Rightarrow> next_loop ptag is k
      | Some d \<Rightarrow> do {
          c \<leftarrow> cdms k d;
          if cdm_ptag c = ptag then Some (Some (d, i)) else next_loop ptag is k
        })
   }"

text \<open>The index is left one past the domain found, or where the loop ends; it stays far below the range of its 32-bit type.\<close>

definition kgni_cdm_lookup_next :: "kgni_env \<Rightarrow> u8 \<Rightarrow> nat \<Rightarrow> kgni \<Rightarrow> (addr option \<times> nat) run" where
  "kgni_cdm_lookup_next env ptag index k = do {
     r \<leftarrow> next_loop ptag [index..<KGNI_MAX_CDM_NUMBER env] k;
     Some (case r of
         None \<Rightarrow> (None, max index (KGNI_MAX_CDM_NUMBER env))
       | Some (d, i) \<Rightarrow> (Some d, Suc i))
   }"

fun create_loop :: "addr \<Rightarrow> u8 \<Rightarrow> u32 \<Rightarrow> u32 \<Rightarrow> nat list \<Rightarrow> kgni \<Rightarrow> (gni_return \<times> kgni) run" where
  "create_loop a ptag cookie inst [] k = Some (GNI_RC_SUCCESS, k)"
| "create_loop a ptag cookie inst (i # is) k = do {
     e \<leftarrow> array_get (kgni_cdm_array k) i;
     new \<leftarrow> cdms k a;
     if e = None \<and> cdm_my_id new = GNI_CDM_INVALID_ID then
       create_loop a ptag cookie inst is
         (upd_cdm a (\<lambda>c. c\<lparr>cdm_my_id := of_nat i\<rparr>) (k\<lparr>kgni_cdm_array := (kgni_cdm_array k)[i := Some a]\<rparr>))
     else (case e of
         None \<Rightarrow> create_loop a ptag cookie inst is k
       | Some d \<Rightarrow> do {
           c \<leftarrow> cdms k d;
           if cdm_match ptag cookie inst c then Some (GNI_RC_INVALID_STATE, k)
           else create_loop a ptag cookie inst is k
         })
   }"

definition new_cdm :: "u32 \<Rightarrow> u8 \<Rightarrow> u32 \<Rightarrow> u32 \<Rightarrow> gni_cdm" where
  "new_cdm inst ptag cookie modes = \<lparr>cdm_type_id = GNI_TYPE_CDM_HANDLE,
     cdm_nic_hndls = replicate GNI_MAX_NICS_ATTACHED None, cdm_inst_id = inst, cdm_cookie = cookie,
     cdm_modes = modes, cdm_ptag = ptag, cdm_sessions = [], cdm_my_id = GNI_CDM_INVALID_ID\<rparr>"

text \<open>\<open>out\<close>: the output pointer is not NULL. The handle is returned as it is written.\<close>

definition gni_cdm_create :: "kgni_env \<Rightarrow> addr option \<Rightarrow> u32 \<Rightarrow> u8 \<Rightarrow> u32 \<Rightarrow> u32 \<Rightarrow> bool \<Rightarrow> kgni \<Rightarrow>
    (gni_return \<times> addr option \<times> kgni) run" where
  "gni_cdm_create env mem inst ptag cookie modes out k =
     (if \<not> out then Some (GNI_RC_INVALID_PARAM, None, k)
      else (case mem of
          None \<Rightarrow> Some (GNI_RC_ERROR_NOMEM, None, k)
        | Some a \<Rightarrow> do {
            (rc, k) \<leftarrow> create_loop a ptag cookie inst [0..<KGNI_MAX_CDM_NUMBER env]
              (k\<lparr>cdms := (cdms k)(a \<mapsto> new_cdm inst ptag cookie modes)\<rparr>);
            if rc = GNI_RC_INVALID_PARAM then do {
              new \<leftarrow> cdms k a;
              let k = (if cdm_my_id new \<noteq> GNI_CDM_INVALID_ID
                       then k\<lparr>kgni_cdm_array := (kgni_cdm_array k)[unat (cdm_my_id new) := None]\<rparr> else k);
              Some (rc, None, k\<lparr>cdms := (cdms k)(a := None)\<rparr>)
            }
            else Some (rc, Some a, k)
          }))"

section \<open>NIC instances\<close>

text \<open>The instance as \<open>kzalloc\<close> clears it and \<open>kgni_nic_create\<close> sets it up.\<close>

definition new_nic :: "u32 \<Rightarrow> gni_nic" where
  "new_nic pe = \<lparr>nic_type_id = GNI_TYPE_NIC_HANDLE, nic_cdm_hndl = None, nic_pe = pe, nic_inst_id = 0, nic_cookie = 0,
     nic_modes = GNI_CDM_MODE_ERR_NO_KILL, nic_ptag = 0, nic_pkey = 0, nic_cdm_type = GNI_CDM_TYPE_KERNEL,
     nic_cdm_id = GNI_CDM_INVALID_ID, nic_my_id = GNI_NIC_INVALID_ID, nic_ntt_grp_size = 0, nic_ntt_base = 0,
     nic_fma_res_id = 0, nic_sm_chnl_hndl = None, nic_sm_pkts = None, nic_sm_pkt_id = 0, nic_mm = None,
     nic_rw_page_desc = None, nic_cq_interrupt_mask_desc = None, nic_qsce_func = None\<rparr>"

definition kgni_nic_create :: "att_env \<Rightarrow> sys \<Rightarrow> int \<times> addr option \<times> sys" where
  "kgni_nic_create ae s =
     (case nic_mem ae of
        None \<Rightarrow> (- ENOMEM, None, s)
      | Some n \<Rightarrow>
          (case page_mem ae of
             None \<Rightarrow> (- ENOMEM, None, s)
           | Some pg \<Rightarrow>
               (let err = kgni_subscribe_errors ae;
                    s = ext (Kgni_subscribe_errors n) s
                in if err \<noteq> 0 then (err, None, s)
                   else (0, Some n, s\<lparr>sy_k := (sy_k s)\<lparr>nics := (nics (sy_k s))(n \<mapsto> new_nic (dev_nic_pe ae))\<rparr>,
                                       sy_mm := (sy_mm s)\<lparr>umap_list := (umap_list (sy_mm s))(n := []),
                                                          child_list := (child_list (sy_mm s))(n := [])\<rparr>,
                                       sy_flsh := (sy_flsh s)(n \<mapsto> pg)\<rparr>))))"

text \<open>\<open>kgni_mm_fini\<close> works on the NIC and the address spaces.\<close>

definition mm_fini :: "att_env \<Rightarrow> addr \<Rightarrow> sys \<Rightarrow> sys run" where
  "mm_fini ae n s = do {
     nic \<leftarrow> nics (sy_k s) n;
     let (nic', m) = kgni_mm_fini ae n (nic, sy_mm s);
     Some (ext (Kgni_mm_fini n) (sys_nic n (\<lambda>_. nic') (s\<lparr>sy_mm := m\<rparr>)))
   }"

definition resource_decref :: "addr \<Rightarrow> sys \<Rightarrow> sys run" where
  "resource_decref n s = do {
     nic \<leftarrow> nics (sy_k s) n;
     dev \<leftarrow> kgni_resource_decref nic (sy_dev s);
     Some (s\<lparr>sy_dev := dev\<rparr>)
   }"

definition kgni_nic_destroy :: "att_env \<Rightarrow> addr \<Rightarrow> sys \<Rightarrow> (int \<times> sys) run" where
  "kgni_nic_destroy ae n s = do {
     nic \<leftarrow> nics (sy_k s) n;
     if nic_cdm_id nic \<noteq> GNI_CDM_INVALID_ID then Some (- EBUSY, s)
     else do {
       let s = ext (Kgni_fma_fini n) (ext (Kgni_dla_cleanup n) (ext (Kgni_ce_cleanup n) (ext (Kgni_error_cleanup n) s)));
       s \<leftarrow> mm_fini ae n s;
       s \<leftarrow> resource_decref n s;
       Some (0, s\<lparr>sy_flsh := (sy_flsh s)(n := None), sy_k := (sy_k s)\<lparr>nics := (nics (sy_k s))(n := None)\<rparr>\<rparr>)
     }
   }"

definition kgni_qsce_destroy :: "addr \<Rightarrow> sys \<Rightarrow> sys run" where
  "kgni_qsce_destroy n s = do {
     nic \<leftarrow> nics (sy_k s) n;
     (case nic_qsce_func nic of
        None \<Rightarrow> Some s
      | Some _ \<Rightarrow> Some (sys_nic n (\<lambda>k. k\<lparr>nic_qsce_func := None\<rparr>) (s\<lparr>qsce_list := remove1 n (qsce_list s)\<rparr>)))
   }"

section \<open>Shared steps\<close>

text \<open>\<open>kgni_chnl_destroy\<close> frees the channel.\<close>

definition chnl_destroy :: "addr \<Rightarrow> kgni \<Rightarrow> kgni" where
  "chnl_destroy ch k = k\<lparr>chnls := (chnls k)(ch := None)\<rparr>"

text \<open>The NIC loses its channel, if it has one, and the channel is destroyed.\<close>

definition drop_chnl :: "addr \<Rightarrow> kgni \<Rightarrow> kgni run" where
  "drop_chnl n k = do {
     nic \<leftarrow> nics k n;
     Some (case nic_sm_chnl_hndl nic of
         None \<Rightarrow> k
       | Some ch \<Rightarrow> chnl_destroy ch (upd_nic n (\<lambda>x. x\<lparr>nic_sm_chnl_hndl := None\<rparr>) k))
   }"

definition upd_slot :: "addr \<Rightarrow> nat \<Rightarrow> addr option \<Rightarrow> kgni \<Rightarrow> kgni" where
  "upd_slot d i e = upd_cdm d (\<lambda>c. c\<lparr>cdm_nic_hndls := (cdm_nic_hndls c)[i := e]\<rparr>)"

text \<open>A domain without NICs is marked invalid, taken from the table and freed.\<close>

definition free_if_last :: "addr \<Rightarrow> kgni \<Rightarrow> kgni run" where
  "free_if_last d k = do {
     c \<leftarrow> cdms k d;
     if \<forall>e \<in> set (cdm_nic_hndls c). e = None then do {
       in_bounds (unat (cdm_my_id c) < length (kgni_cdm_array k));
       Some (k\<lparr>kgni_cdm_array := (kgni_cdm_array k)[unat (cdm_my_id c) := None], cdms := (cdms k)(d := None)\<rparr>)
     }
     else Some k
   }"

text \<open>The NIC and the domain lose each other.\<close>

definition dissociate :: "addr \<Rightarrow> addr \<Rightarrow> kgni \<Rightarrow> kgni run" where
  "dissociate n d k = do {
     nic \<leftarrow> nics k n;
     c \<leftarrow> cdms k d;
     in_bounds (unat (nic_my_id nic) < length (cdm_nic_hndls c));
     Some (upd_nic n (\<lambda>x. x\<lparr>nic_cdm_id := GNI_CDM_INVALID_ID\<rparr>) (upd_slot d (unat (nic_my_id nic)) None k))
   }"

section \<open>Attach by a user process\<close>

text \<open>
  Look-up or creation of the domain, the lock, and the test that it is still valid. \<open>between\<close> is what other threads do to
  the driver before the lock is taken; the first element for the first try, the second for the retry.
\<close>

fun attach_find :: "kgni_env \<Rightarrow> att_env \<Rightarrow> (kgni \<Rightarrow> kgni) list \<Rightarrow> gni_nic_setattr_args \<Rightarrow> kgni \<Rightarrow> ((int + addr) \<times> kgni) run" where
  "attach_find env ae [] at k = Some (Inl (- EINVAL), k)"
| "attach_find env ae (between # again) at k = do {
     r \<leftarrow> kgni_cdm_lookup env (ucast (sa_ptag at)) (sa_cookie at) (sa_rank at) k;
     (r, k) \<leftarrow> (case r of
         Some (d, _) \<Rightarrow> Some (Inr d, k)
       | None \<Rightarrow> do {
           (rc, dp, k) \<leftarrow> gni_cdm_create env (cdm_mem ae) (sa_rank at) (ucast (sa_ptag at)) (sa_cookie at) (sa_modes at) True k;
           if rc \<noteq> GNI_RC_SUCCESS then Some (Inl (KGNI_ERROR_FROM_GNI_RETURN_CODE ae rc), k)
           else do { d \<leftarrow> dp; Some (Inr d, k) }
         });
     (case r of
        Inl e \<Rightarrow> Some (Inl e, k)
      | Inr d \<Rightarrow> do {
          let k = between k;
          c \<leftarrow> cdms k d;
          if cdm_type_id c \<noteq> GNI_TYPE_CDM_HANDLE then attach_find env ae again at k
          else Some (Inr d, k)
        })
   }"

text \<open>The search for an empty entry of the domain, which goes on after the entry is taken to see if the device is attached
  already.\<close>

fun slot_loop :: "addr \<Rightarrow> addr \<Rightarrow> nat list \<Rightarrow> kgni \<Rightarrow> (bool \<times> kgni) run" where
  "slot_loop n d [] k = Some (True, k)"
| "slot_loop n d (i # is) k = do {
     c \<leftarrow> cdms k d;
     nic \<leftarrow> nics k n;
     e \<leftarrow> array_get (cdm_nic_hndls c) i;
     (case e of
        None \<Rightarrow>
          if nic_cdm_id nic = GNI_CDM_INVALID_ID then
            slot_loop n d is (upd_nic n (\<lambda>x. x\<lparr>nic_cdm_id := cdm_my_id c, nic_my_id := of_nat i\<rparr>) (upd_slot d i (Some n) k))
          else slot_loop n d is k
      | Some n' \<Rightarrow> do {
          other \<leftarrow> nics k n';
          if nic_pe other = nic_pe nic then
            if nic_cdm_id nic \<noteq> GNI_CDM_INVALID_ID then do {
              in_bounds (unat (nic_my_id nic) < length (cdm_nic_hndls c));
              Some (False, upd_nic n (\<lambda>x. x\<lparr>nic_cdm_id := GNI_CDM_INVALID_ID\<rparr>) (upd_slot d (unat (nic_my_id nic)) None k))
            }
            else Some (False, k)
          else slot_loop n d is k
        })
   }"

text \<open>The labels of the error path, in the order of their code: the code of a label runs on into the next.\<close>

datatype attach_label =
    subscribe_error
  | fma_init_err
  | chnl_error
  | pdev_init_error
  | cq_interrupt_mask_page_error
  | rw_page_error
  | mm_error
  | incref_error

primrec label_rank :: "attach_label \<Rightarrow> nat" where
  "label_rank incref_error = 0" | "label_rank mm_error = 1" | "label_rank rw_page_error = 2"
| "label_rank cq_interrupt_mask_page_error = 3" | "label_rank pdev_init_error = 4" | "label_rank chnl_error = 5"
| "label_rank fma_init_err = 6" | "label_rank subscribe_error = 7"

function attach_unwind :: "att_env \<Rightarrow> addr \<Rightarrow> addr \<Rightarrow> attach_label \<Rightarrow> sys \<Rightarrow> sys run" where
  "attach_unwind ae n d incref_error s = do {
     k \<leftarrow> dissociate n d (sy_k s);
     k \<leftarrow> free_if_last d k;
     Some (s\<lparr>sy_k := k\<rparr>)
   }"
| "attach_unwind ae n d mm_error s = do {
     s \<leftarrow> resource_decref n s;
     attach_unwind ae n d incref_error s
   }"
| "attach_unwind ae n d rw_page_error s = do {
     s \<leftarrow> mm_fini ae n s;
     attach_unwind ae n d mm_error s
   }"
| "attach_unwind ae n d cq_interrupt_mask_page_error s = do {
     nic \<leftarrow> nics (sy_k s) n;
     s \<leftarrow> (if nic_cdm_type nic \<noteq> GNI_CDM_TYPE_KERNEL then do {
              u \<leftarrow> nic_rw_page_desc nic;
              m \<leftarrow> kgni_unmap_area (ae_cur ae) u (sy_mm s);
              Some (sys_nic n (\<lambda>x. x\<lparr>nic_rw_page_desc := None\<rparr>) (s\<lparr>sy_mm := m\<rparr>))
            } else Some s);
     attach_unwind ae n d rw_page_error s
   }"
| "attach_unwind ae n d pdev_init_error s = do {
     nic \<leftarrow> nics (sy_k s) n;
     s \<leftarrow> (if nic_cdm_type nic \<noteq> GNI_CDM_TYPE_KERNEL then do {
              u \<leftarrow> nic_cq_interrupt_mask_desc nic;
              m \<leftarrow> kgni_unmap_area (ae_cur ae) u (sy_mm s);
              Some (sys_nic n (\<lambda>x. x\<lparr>nic_cq_interrupt_mask_desc := None\<rparr>) (s\<lparr>sy_mm := m\<rparr>))
            } else Some s);
     attach_unwind ae n d cq_interrupt_mask_page_error s
   }"
| "attach_unwind ae n d chnl_error s =
     attach_unwind ae n d pdev_init_error (sys_nic n (\<lambda>x. x\<lparr>nic_sm_pkts := None\<rparr>) s)"
| "attach_unwind ae n d fma_init_err s = do {
     nic \<leftarrow> nics (sy_k s) n;
     ch \<leftarrow> nic_sm_chnl_hndl nic;
     attach_unwind ae n d chnl_error
       (sys_nic n (\<lambda>x. x\<lparr>nic_sm_chnl_hndl := None\<rparr>) (s\<lparr>sy_k := chnl_destroy ch (sy_k s)\<rparr>))
   }"
| "attach_unwind ae n d subscribe_error s = attach_unwind ae n d fma_init_err (ext (Kgni_fma_fini n) s)"

  by pat_completeness auto
termination by (relation "measure (\<lambda>(ae, n, d, l, s). label_rank l)") auto

text \<open>A stage returns the error and the label it jumps to, or nothing when the next stage follows.\<close>

type_synonym stage = "((int \<times> attach_label) option \<times> sys) run"

definition and_then :: "stage \<Rightarrow> (sys \<Rightarrow> stage) \<Rightarrow> stage" where
  "and_then r f = do {
     (x, s) \<leftarrow> r;
     (case x of Some e \<Rightarrow> Some (Some e, s) | None \<Rightarrow> f s)
   }"

definition attach_job :: "att_env \<Rightarrow> gni_nic_setattr_args \<Rightarrow> addr \<Rightarrow> sys \<Rightarrow> stage" where
  "attach_job ae at n s = do {
     nic \<leftarrow> nics (sy_k s) n;
     let nic = nic\<lparr>nic_inst_id := sa_rank at, nic_cookie := sa_cookie at, nic_pkey := GNI_COOKIE_PKEY (sa_cookie at),
                   nic_modes := sa_modes at\<rparr>;
     (e, nic, dev) \<leftarrow> kgni_resource_incref (ae_rsrc ae) (rsrc_mem ae) (\<lambda>d. d) (ucast (sa_ptag at)) nic (sy_dev s);
     let s = sys_nic n (\<lambda>_. nic) (s\<lparr>sy_dev := dev\<rparr>);
     if e \<noteq> 0 then Some (Some (e, incref_error), s)
     else do {
       let (e, nic) = kgni_mm_init ae nic;
       let s = ext (Kgni_mm_init n) (sys_nic n (\<lambda>_. nic) s);
       Some (if e \<noteq> 0 then Some (e, mm_error) else None, s)
     }
   }"

text \<open>The two pages that the process shares with the driver.\<close>

definition attach_map :: "att_env \<Rightarrow> addr \<Rightarrow> sys \<Rightarrow> stage" where
  "attach_map ae n s = do {
     nic \<leftarrow> nics (sy_k s) n;
     if nic_cdm_type nic = GNI_CDM_TYPE_KERNEL then Some (None, s)
     else do {
       let (e, u, m) = kgni_umap_area (ae_umap_rw ae) (ae_cur ae) n nic (rw_page_phys ae) (PAGE_SIZE ae) VM_WRITE True (sy_mm s);
       let s = s\<lparr>sy_mm := m\<rparr>;
       if e \<noteq> 0 then Some (Some (e, rw_page_error), s)
       else do {
         let s = sys_nic n (\<lambda>x. x\<lparr>nic_rw_page_desc := u\<rparr>) s;
         nic \<leftarrow> nics (sy_k s) n;
         let (e, u, m) = kgni_umap_area (ae_umap_cq ae) (ae_cur ae) n nic (cq_mask_phys ae) (KGNI_CQ_INTERRUPT_MASK_SIZE ae)
               VM_WRITE True (sy_mm s);
         let s = s\<lparr>sy_mm := m\<rparr>;
         if e \<noteq> 0 then Some (Some (e, cq_interrupt_mask_page_error), s)
         else Some (None, sys_nic n (\<lambda>x. x\<lparr>nic_cq_interrupt_mask_desc := u\<rparr>) s)
       }
     }
   }"

text \<open>The packet slots and the channel.\<close>

definition new_pkts :: "kgni_env \<Rightarrow> addr option list" where
  "new_pkts env = replicate (KGNI_MAX_SM_PKTS env + 1) None"

definition add_chnl :: "addr \<Rightarrow> addr \<Rightarrow> kgni_chnl \<Rightarrow> kgni \<Rightarrow> kgni" where
  "add_chnl n ch c k = upd_nic n (\<lambda>x. x\<lparr>nic_sm_chnl_hndl := Some ch\<rparr>) (k\<lparr>chnls := (chnls k)(ch \<mapsto> c)\<rparr>)"

definition attach_chnl :: "kgni_env \<Rightarrow> att_env \<Rightarrow> addr \<Rightarrow> addr \<Rightarrow> sys \<Rightarrow> stage" where
  "attach_chnl env ae n d s = do {
     nic \<leftarrow> nics (sy_k s) n;
     let e = fst (kgni_pdev_init (ae_rsrc ae) nic);
     if e \<noteq> 0 then Some (Some (e, pdev_init_error), s)
     else if \<not> pkts_mem ae then Some (Some (- ENOMEM, pdev_init_error), s)
     else do {
       let s = sys_nic n (\<lambda>x. x\<lparr>nic_sm_pkts := Some (new_pkts env)\<rparr>) s;
       c \<leftarrow> cdms (sy_k s) d;
       (case kgni_chnl_create ae n (cdm_my_id c) (KGNI_MAX_SM_PKTS env) of
          Inl e \<Rightarrow> Some (Some (e, chnl_error), s)
        | Inr (ch, cn) \<Rightarrow>
            (let s = ext (Kgni_fma_init n) (s\<lparr>sy_k := add_chnl n ch cn (sy_k s)\<rparr>)
             in if kgni_fma_init ae \<noteq> 0 then Some (Some (kgni_fma_init ae, fma_init_err), s)
                else (let s = ext (Gni_subscribe_errors n) s
                      in if gni_subscribe_errors ae \<noteq> GNI_RC_SUCCESS
                         then Some (Some (KGNI_ERROR_FROM_GNI_RETURN_CODE ae (gni_subscribe_errors ae), subscribe_error), s)
                         else Some (None, s))))
     }
   }"

definition attach_setup :: "kgni_env \<Rightarrow> att_env \<Rightarrow> gni_nic_setattr_args \<Rightarrow> addr \<Rightarrow> addr \<Rightarrow> sys \<Rightarrow> stage" where
  "attach_setup env ae at n d s = and_then (and_then (attach_job ae at n s) (attach_map ae n)) (attach_chnl env ae n d)"

definition kgni_nic_attach :: "kgni_env \<Rightarrow> att_env \<Rightarrow> (kgni \<Rightarrow> kgni) \<Rightarrow> (kgni \<Rightarrow> kgni) \<Rightarrow> addr \<Rightarrow> gni_nic_setattr_args \<Rightarrow>
    sys \<Rightarrow> (int \<times> sys) run" where
  "kgni_nic_attach env ae between1 between2 n at s = do {
     nic \<leftarrow> nics (sy_k s) n;
     let chk = kgni_user_ptag_pkey_check (ae_rsrc ae) (sa_ptag at) (GNI_COOKIE_PKEY (sa_cookie at));
     if nic_cdm_id nic \<noteq> GNI_CDM_INVALID_ID then Some (- EEXIST, s)
     else if chk \<noteq> 0 then Some (chk, s)
     else do {
       (r, k) \<leftarrow> attach_find env ae [between1, between2] at (sy_k s);
       (case r of
          Inl e \<Rightarrow> Some (e, s\<lparr>sy_k := k\<rparr>)
        | Inr d \<Rightarrow> do {
            (fine, k) \<leftarrow> slot_loop n d [0..<GNI_MAX_NICS_ATTACHED] k;
            let s = s\<lparr>sy_k := k\<rparr>;
            nic \<leftarrow> nics k n;
            if \<not> fine then Some (- EEXIST, s)
            else if nic_cdm_id nic = GNI_CDM_INVALID_ID then Some (- EMFILE, sys_nic n (\<lambda>x. x\<lparr>nic_ptag := 0\<rparr>) s)
            else do {
              (r, s) \<leftarrow> attach_setup env ae at n d s;
              (case r of
                 None \<Rightarrow> Some (0, s)
               | Some (e, l) \<Rightarrow> do {
                   s \<leftarrow> attach_unwind ae n d l s;
                   Some (e, sys_nic n (\<lambda>x. x\<lparr>nic_ptag := 0\<rparr>) s)
                 })
            }
          })
     }
   }"

section \<open>Detach\<close>

definition unmap_rw_page :: "addr \<Rightarrow> sys \<Rightarrow> sys run" where
  "unmap_rw_page n s = do {
     nic \<leftarrow> nics (sy_k s) n;
     (case nic_rw_page_desc nic of
        Some u \<Rightarrow>
          if nic_cdm_type nic \<noteq> GNI_CDM_TYPE_KERNEL then do {
            mm \<leftarrow> nic_mm nic;
            m \<leftarrow> kgni_unmap_area mm u (sy_mm s);
            Some (sys_nic n (\<lambda>x. x\<lparr>nic_rw_page_desc := None\<rparr>) (s\<lparr>sy_mm := m\<rparr>))
          }
          else Some s
      | None \<Rightarrow> Some s)
   }"

definition kgni_nic_detach :: "kgni_env \<Rightarrow> addr \<Rightarrow> sys \<Rightarrow> (int \<times> sys) run" where
  "kgni_nic_detach env n s = do {
     nic \<leftarrow> nics (sy_k s) n;
     if nic_cdm_id nic = GNI_CDM_INVALID_ID then Some (- ENXIO, s)
     else do {
       GASSERT (nic_my_id nic \<noteq> GNI_NIC_INVALID_ID);
       let s = ext (Gni_release_errors n) s;
       dp \<leftarrow> cdm_of_id (nic_cdm_id nic) (sy_k s);
       d \<leftarrow> dp;
       k \<leftarrow> drop_chnl n (sy_k s);
       k \<leftarrow> kgni_sm_cleanup env n (Some d) k;
       c \<leftarrow> cdms k d;
       if cdm_type_id c \<noteq> GNI_TYPE_CDM_HANDLE then Some (0, s\<lparr>sy_k := k\<rparr>)
       else do {
         k \<leftarrow> dissociate n d k;
         s \<leftarrow> unmap_rw_page n (s\<lparr>sy_k := k\<rparr>);
         k \<leftarrow> free_if_last d (sy_k s);
         Some (0, s\<lparr>sy_k := k\<rparr>)
       }
     }
   }"

section \<open>The device file\<close>

definition kgni_open :: "att_env \<Rightarrow> sys \<Rightarrow> int \<times> sys" where
  "kgni_open ae s =
     (case file_mem ae of
        None \<Rightarrow> (- ENOMEM, s)
      | Some f \<Rightarrow>
          (case kgni_nic_create ae s of
             (err, None, s) \<Rightarrow> (err, s)
           | (err, Some n, s) \<Rightarrow>
               (0, sys_nic n (\<lambda>x. x\<lparr>nic_cdm_type := GNI_CDM_TYPE_USER\<rparr>)
                     (s\<lparr>files := (files s)(f \<mapsto> \<lparr>fl_nic_hndl = Some n, fl_app_cleanup = False\<rparr>)\<rparr>))))"

text \<open>The page of interrupt masks is given up after the completion queues of the NIC, which are among the handles \<open>cq_hdnls\<close> of
  the device.\<close>

definition unmap_cq_mask :: "addr \<Rightarrow> sys \<Rightarrow> sys run" where
  "unmap_cq_mask n s = do {
     nic \<leftarrow> nics (sy_k s) n;
     (case (nic_mm nic, nic_cq_interrupt_mask_desc nic) of
        (Some mm, Some u) \<Rightarrow>
          if nic_cdm_type nic \<noteq> GNI_CDM_TYPE_KERNEL then do {
            m \<leftarrow> kgni_unmap_area mm u (sy_mm s);
            Some (sys_nic n (\<lambda>x. x\<lparr>nic_cq_interrupt_mask_desc := None\<rparr>) (s\<lparr>sy_mm := m\<rparr>))
          }
          else Some s
      | _ \<Rightarrow> Some s)
   }"

definition kgni_close :: "kgni_env \<Rightarrow> att_env \<Rightarrow> (addr \<times> addr) option list \<Rightarrow> addr \<Rightarrow> sys \<Rightarrow> sys run" where
  "kgni_close env ae cq_hdnls f s = do {
     file \<leftarrow> files s f;
     n \<leftarrow> fl_nic_hndl file;
     (_, s) \<leftarrow> kgni_nic_detach env n s;
     let s = fold (\<lambda>e s. case e of None \<Rightarrow> s | Some (m, q) \<Rightarrow> if m = n then ext (Kgni_cq_destroy n q) s else s) cq_hdnls s;
     s \<leftarrow> unmap_cq_mask n s;
     (_, s) \<leftarrow> kgni_nic_destroy ae n (ext (Kgni_vmdh_release n) (ext (Kgni_mem_cleanup n) (ext (Kgni_fma_put_all n) s)));
     let s = (if fl_app_cleanup file then ext (App_cleanup f) s else s);
     Some (s\<lparr>files := (files s)(f := None)\<rparr>)
   }"

section \<open>Attach and destruction by a kernel application\<close>

text \<open>The channels and sessions of the NICs of a domain, then the NICs themselves.\<close>

fun destroy_chnls :: "kgni_env \<Rightarrow> addr \<Rightarrow> nat list \<Rightarrow> kgni \<Rightarrow> kgni run" where
  "destroy_chnls env d [] k = Some k"
| "destroy_chnls env d (i # is) k = do {
     c \<leftarrow> cdms k d;
     e \<leftarrow> array_get (cdm_nic_hndls c) i;
     (case e of
        None \<Rightarrow> destroy_chnls env d is k
      | Some n \<Rightarrow> do {
          k \<leftarrow> drop_chnl n k;
          k \<leftarrow> kgni_sm_cleanup env n (Some d) k;
          destroy_chnls env d is k
        })
   }"

fun destroy_nics :: "att_env \<Rightarrow> addr \<Rightarrow> nat list \<Rightarrow> sys \<Rightarrow> sys run" where
  "destroy_nics ae d [] s = Some s"
| "destroy_nics ae d (i # is) s = do {
     c \<leftarrow> cdms (sy_k s) d;
     e \<leftarrow> array_get (cdm_nic_hndls c) i;
     (case e of
        None \<Rightarrow> destroy_nics ae d is s
      | Some n \<Rightarrow> do {
          _ \<leftarrow> nics (sy_k s) n;
          let s = s\<lparr>sy_k := upd_slot d i None (upd_nic n (\<lambda>x. x\<lparr>nic_cdm_id := GNI_CDM_INVALID_ID\<rparr>) (sy_k s))\<rparr>;
          s \<leftarrow> kgni_qsce_destroy n s;
          (_, s) \<leftarrow> kgni_nic_destroy ae n (ext (Kgni_dla_free n) s);
          destroy_nics ae d is s
        })
   }"

definition gni_cdm_destroy :: "kgni_env \<Rightarrow> att_env \<Rightarrow> addr option \<Rightarrow> sys \<Rightarrow> (gni_return \<times> sys) run" where
  "gni_cdm_destroy env ae h s =
     (case h of
        None \<Rightarrow> Some (GNI_RC_INVALID_PARAM, s)
      | Some d \<Rightarrow> do {
          c \<leftarrow> cdms (sy_k s) d;
          if cdm_type_id c \<noteq> GNI_TYPE_CDM_HANDLE then Some (GNI_RC_INVALID_PARAM, s)
          else do {
            in_bounds (unat (cdm_my_id c) < length (kgni_cdm_array (sy_k s)));
            let k = (sy_k s)\<lparr>kgni_cdm_array := (kgni_cdm_array (sy_k s))[unat (cdm_my_id c) := None]\<rparr>;
            k \<leftarrow> destroy_chnls env d [0..<GNI_MAX_NICS_ATTACHED] k;
            s \<leftarrow> destroy_nics ae d [0..<GNI_MAX_NICS_ATTACHED] (s\<lparr>sy_k := k\<rparr>);
            Some (GNI_RC_SUCCESS, s\<lparr>sy_k := (sy_k s)\<lparr>cdms := (cdms (sy_k s))(d := None)\<rparr>\<rparr>)
          }
        })"

text \<open>The first empty entry of a domain.\<close>

fun first_slot :: "nat list \<Rightarrow> addr option list \<Rightarrow> nat option" where
  "first_slot [] hs = None"
| "first_slot (i # is) hs = (if hs ! i = None then Some i else first_slot is hs)"

text \<open>The labels of the error path, from the last to the first. At \<open>err_chnl_create\<close> the packet slots are freed; the pointer
  to them goes away with the NIC.\<close>

definition err_no_nic :: "att_env \<Rightarrow> addr \<Rightarrow> sys \<Rightarrow> sys run" where
  "err_no_nic ae n s = map_option snd (kgni_nic_destroy ae n (sys_nic n (\<lambda>x. x\<lparr>nic_cdm_id := GNI_CDM_INVALID_ID\<rparr>) s))"

definition err_pdev_init :: "att_env \<Rightarrow> addr \<Rightarrow> addr \<Rightarrow> nat \<Rightarrow> sys \<Rightarrow> sys run" where
  "err_pdev_init ae n d i s = err_no_nic ae n (s\<lparr>sy_k := upd_slot d i None (sy_k s)\<rparr>)"

definition err_chnl_create :: "att_env \<Rightarrow> addr \<Rightarrow> addr \<Rightarrow> nat \<Rightarrow> sys \<Rightarrow> sys run" where
  "err_chnl_create ae n d i s = err_pdev_init ae n d i s"

definition err_fma_init :: "att_env \<Rightarrow> addr \<Rightarrow> addr \<Rightarrow> nat \<Rightarrow> sys \<Rightarrow> sys run" where
  "err_fma_init ae n d i s = do {
     nic \<leftarrow> nics (sy_k s) n;
     ch \<leftarrow> nic_sm_chnl_hndl nic;
     err_chnl_create ae n d i (sys_nic n (\<lambda>x. x\<lparr>nic_sm_chnl_hndl := None\<rparr>) (s\<lparr>sy_k := chnl_destroy ch (sy_k s)\<rparr>))
   }"

text \<open>
  The stages after the NIC has its entry \<open>i\<close> in the domain. The result of \<open>kgni_fma_init\<close>, an error number, is
  returned as if it were a return code: it is the left side of the sum.
\<close>

definition cdm_attach_chnl :: "kgni_env \<Rightarrow> att_env \<Rightarrow> addr \<Rightarrow> gni_cdm \<Rightarrow> addr \<Rightarrow> nat \<Rightarrow> sys \<Rightarrow> ((int + gni_return) \<times> sys) run" where
  "cdm_attach_chnl env ae d c n i s = do {
     nic \<leftarrow> nics (sy_k s) n;
     if fst (kgni_pdev_init (ae_rsrc ae) nic) \<noteq> 0 then map_option (Pair (Inr GNI_RC_ERROR_RESOURCE)) (err_pdev_init ae n d i s)
     else if \<not> pkts_mem ae then map_option (Pair (Inr GNI_RC_ERROR_NOMEM)) (err_pdev_init ae n d i s)
     else (let s = sys_nic n (\<lambda>x. x\<lparr>nic_sm_pkts := Some (new_pkts env)\<rparr>) s in
       case kgni_chnl_create ae n (cdm_my_id c) (KGNI_MAX_SM_PKTS env) of
         Inl e \<Rightarrow> map_option (Pair (Inr (GNI_RETURN_CODE_OF_ERROR ae e))) (err_chnl_create ae n d i s)
       | Inr (ch, cn) \<Rightarrow>
           (let s = ext (Kgni_fma_init n) (s\<lparr>sy_k := add_chnl n ch cn (sy_k s)\<rparr>)
            in if kgni_fma_init ae \<noteq> 0 then map_option (Pair (Inl (kgni_fma_init ae))) (err_fma_init ae n d i s)
               else (let s = ext (Kgni_dla_init n) s
                     in if kgni_dla_init ae \<noteq> GNI_RC_SUCCESS
                        then map_option (Pair (Inr (kgni_dla_init ae))) (err_fma_init ae n d i (ext (Kgni_fma_fini n) s))
                        else Some (Inr GNI_RC_SUCCESS, s))))
   }"

text \<open>\<open>dev\<close> is what \<open>kgni_get_device_by_num\<close> finds; \<open>outs\<close>: the output pointers are not NULL. The NIC and its address are returned
  on success.\<close>

definition gni_cdm_attach :: "kgni_env \<Rightarrow> att_env \<Rightarrow> addr option \<Rightarrow> bool \<Rightarrow> bool \<Rightarrow> sys \<Rightarrow>
    ((int + gni_return) \<times> (addr \<times> u32) option \<times> sys) run" where
  "gni_cdm_attach env ae h dev outs s =
     (case h of
        None \<Rightarrow> Some (Inr GNI_RC_INVALID_PARAM, None, s)
      | Some d \<Rightarrow> do {
          c \<leftarrow> cdms (sy_k s) d;
          let chk = kgni_kern_ptag_pkey_check ae (cdm_ptag c) (GNI_COOKIE_PKEY (cdm_cookie c));
          if cdm_type_id c \<noteq> GNI_TYPE_CDM_HANDLE \<or> \<not> outs then Some (Inr GNI_RC_INVALID_PARAM, None, s)
          else if chk \<noteq> GNI_RC_SUCCESS then Some (Inr chk, None, s)
          else if \<not> dev then Some (Inr GNI_RC_NO_MATCH, None, s)
          else (case kgni_nic_create ae s of
              (e, None, s) \<Rightarrow> Some (Inr (GNI_RETURN_CODE_OF_ERROR ae e), None, s)
            | (e, Some n, s) \<Rightarrow> do {
                nic \<leftarrow> nics (sy_k s) n;
                let nic = nic\<lparr>nic_inst_id := cdm_inst_id c, nic_cookie := cdm_cookie c,
                              nic_pkey := GNI_COOKIE_PKEY (cdm_cookie c), nic_modes := cdm_modes c, nic_cdm_hndl := Some d\<rparr>;
                (e, nic, dev) \<leftarrow> kgni_resource_incref (ae_rsrc ae) (rsrc_mem ae) (\<lambda>d. d) (cdm_ptag c) nic (sy_dev s);
                let s = sys_nic n (\<lambda>_. nic) (s\<lparr>sy_dev := dev\<rparr>);
                if e \<noteq> 0 then Some (Inr (GNI_RETURN_CODE_OF_ERROR ae e), None, s)
                else (case first_slot [0..<GNI_MAX_NICS_ATTACHED] (cdm_nic_hndls c) of
                    None \<Rightarrow> map_option (\<lambda>s. (Inr GNI_RC_ERROR_RESOURCE, None, s)) (err_no_nic ae n s)
                  | Some i \<Rightarrow> do {
                      let s = sys_nic n (\<lambda>x. x\<lparr>nic_cdm_id := cdm_my_id c, nic_my_id := of_nat i\<rparr>)
                                (s\<lparr>sy_k := upd_slot d i (Some n) (sy_k s)\<rparr>);
                      (r, s) \<leftarrow> cdm_attach_chnl env ae d c n i s;
                      Some (r, if r = Inr GNI_RC_SUCCESS then Some (n, nic_pe nic) else None, s)
                    })
              })
        })"

section \<open>Stopping applications\<close>

text \<open>What is done to the application of a NIC: the error call-back of a kernel application, a message to the process of a user
  application that the job worker delivers, or its signal at once when there is no memory for the message.\<close>

datatype kill =
    App_crit_err addr addr
  | Job_info addr
  | Send_sigkill addr

record kill_env =
  eeqs :: "addr \<Rightarrow> (bool \<times> addr) list"
  task_of :: "addr \<Rightarrow> bool option"
  job_mem :: bool

text \<open>\<open>eeqs\<close> are the error queues of a NIC with whether they have a call-back; \<open>task_of\<close> is the task of the process of the NIC
  with whether it is a kernel thread.\<close>

definition kgni_bte_notify_kern :: "kill_env \<Rightarrow> addr \<Rightarrow> kill list" where
  "kgni_bte_notify_kern ke n = map (\<lambda>(_, h). App_crit_err n h) (filter fst (eeqs ke n))"

definition kgni_kill_app :: "kill_env \<Rightarrow> addr \<Rightarrow> kill list" where
  "kgni_kill_app ke n =
     (case task_of ke n of
        None \<Rightarrow> []
      | Some kthread \<Rightarrow> if kthread then [] else if job_mem ke then [Job_info n] else [Send_sigkill n])"

fun kill_loop :: "kill_env \<Rightarrow> addr option list \<Rightarrow> bool \<Rightarrow> kill list \<Rightarrow> kgni \<Rightarrow> (bool \<times> kill list) run" where
  "kill_loop ke [] flag ks k = Some (flag, ks)"
| "kill_loop ke (None # es) flag ks k = kill_loop ke es flag ks k"
| "kill_loop ke (Some n # es) flag ks k = do {
     nic \<leftarrow> nics k n;
     if nic_cdm_type nic = GNI_CDM_TYPE_KERNEL then kill_loop ke es True (ks @ kgni_bte_notify_kern ke n) k
     else if nic_modes nic AND GNI_CDM_MODE_ERR_NO_KILL \<noteq> 0 then kill_loop ke es flag ks k
     else kill_loop ke es True (ks @ kgni_kill_app ke n) k
   }"

definition kgni_cdm_kill_apps :: "kill_env \<Rightarrow> addr \<Rightarrow> kgni \<Rightarrow> (bool \<times> kill list) run" where
  "kgni_cdm_kill_apps ke d k = do {
     c \<leftarrow> cdms k d;
     kill_loop ke (cdm_nic_hndls c) False [] k
   }"

fun kill_all_loop :: "kill_env \<Rightarrow> addr option list \<Rightarrow> kgni \<Rightarrow> kill list run" where
  "kill_all_loop ke [] k = Some []"
| "kill_all_loop ke (None # es) k = kill_all_loop ke es k"
| "kill_all_loop ke (Some d # es) k = do {
     (_, ks) \<leftarrow> kgni_cdm_kill_apps ke d k;
     ks' \<leftarrow> kill_all_loop ke es k;
     Some (ks @ ks')
   }"

definition kgni_cdm_kill_all :: "kill_env \<Rightarrow> kgni \<Rightarrow> kill list run" where
  "kgni_cdm_kill_all ke k = kill_all_loop ke (kgni_cdm_array k) k"

end
