(* ===== verification/Cdm_Inv.thy ===== *)
theory Cdm_Inv
  imports Cdm Session_Frame Resource_Props
begin

text \<open>
  The invariant of the communication domains and the NICs that are attached to them, and what keeps it: the table of the
  domains (\<open>tab_ok\<close>), the entries of a domain and the NICs (\<open>att_ok\<close>), the descriptors of the shared pages (\<open>page_ok\<close>),
  beside the invariants of the session manager and of the job resources.  \<open>cdm_abs\<close> is what the table stands for: a partial
  map from protection tag, cookie and instance to the domain.
\<close>

section \<open>The invariant\<close>

text \<open>The table and the domains: an entry points to a live domain that knows its index; every domain is in the table, is
  valid and has its array of NICs; no two domains have the same tag, cookie and instance.\<close>

definition tab_ok :: "addr option list \<Rightarrow> (addr \<rightharpoonup> gni_cdm) \<Rightarrow> bool" where
  "tab_ok arr cd \<longleftrightarrow>
     (\<forall>i < length arr. \<forall>d. arr ! i = Some d \<longrightarrow> (\<exists>c. cd d = Some c \<and> unat (cdm_my_id c) = i)) \<and>
     (\<forall>d c. cd d = Some c \<longrightarrow> cdm_type_id c = GNI_TYPE_CDM_HANDLE \<and> length (cdm_nic_hndls c) = GNI_MAX_NICS_ATTACHED \<and>
        unat (cdm_my_id c) < length arr \<and> arr ! unat (cdm_my_id c) = Some d) \<and>
     (\<forall>d c d' c'. cd d = Some c \<longrightarrow> cd d' = Some c' \<longrightarrow>
        cdm_match (cdm_ptag c) (cdm_cookie c) (cdm_inst_id c) c' \<longrightarrow> d = d')"

text \<open>The NICs and the domains: an entry of a domain and the NIC attached there point to each other, and a NIC that is not
  attached has no channel and no packet slots.\<close>

definition att_ok :: "(addr \<rightharpoonup> gni_cdm) \<Rightarrow> (addr \<rightharpoonup> gni_nic) \<Rightarrow> bool" where
  "att_ok cd ni \<longleftrightarrow>
     (\<forall>d c i n. cd d = Some c \<longrightarrow> i < length (cdm_nic_hndls c) \<longrightarrow> cdm_nic_hndls c ! i = Some n \<longrightarrow>
        (\<exists>nic. ni n = Some nic \<and> nic_cdm_id nic = cdm_my_id c \<and> unat (nic_my_id nic) = i)) \<and>
     (\<forall>n nic. ni n = Some nic \<longrightarrow> nic_cdm_id nic \<noteq> GNI_CDM_INVALID_ID \<longrightarrow>
        (\<exists>d c. cd d = Some c \<and> cdm_my_id c = nic_cdm_id nic \<and> unat (nic_my_id nic) < length (cdm_nic_hndls c) \<and>
           cdm_nic_hndls c ! unat (nic_my_id nic) = Some n)) \<and>
     (\<forall>n nic. ni n = Some nic \<longrightarrow> nic_cdm_id nic = GNI_CDM_INVALID_ID \<longrightarrow>
        nic_sm_chnl_hndl nic = None \<and> nic_sm_pkts nic = None)"

text \<open>The descriptors of the shared pages: they are live, each belongs to one NIC, and is on no list of another.\<close>

definition own :: "addr \<Rightarrow> mm_state \<Rightarrow> addr set" where
  "own n m = set (umap_list m n) \<union> (\<Union>c \<in> set (child_list m n). set (ch_umap_list c))"

definition pages :: "gni_nic \<Rightarrow> addr set" where
  "pages nic = set_option (nic_rw_page_desc nic) \<union> set_option (nic_cq_interrupt_mask_desc nic)"

definition page_ok :: "(addr \<rightharpoonup> gni_nic) \<Rightarrow> mm_state \<Rightarrow> bool" where
  "page_ok ni m \<longleftrightarrow>
     (\<forall>n nic u. ni n = Some nic \<longrightarrow> u \<in> pages nic \<longrightarrow> nic_mm nic \<noteq> None \<and> umap_descs m u \<noteq> None \<and>
        (\<forall>n'. n' \<noteq> n \<longrightarrow> u \<notin> own n' m \<and> (\<forall>nic'. ni n' = Some nic' \<longrightarrow> u \<notin> pages nic'))) \<and>
     (\<forall>n nic u. ni n = Some nic \<longrightarrow> nic_rw_page_desc nic = Some u \<longrightarrow> nic_cq_interrupt_mask_desc nic \<noteq> Some u)"

definition rs_of :: "sys \<Rightarrow> rs_state" where
  "rs_of s = \<lparr>rs_dev = sy_dev s, rs_nics = nics (sy_k s)\<rparr>"

definition att_inv :: "kgni_env \<Rightarrow> sys \<Rightarrow> bool" where
  "att_inv env s \<longleftrightarrow> KGNI_MAX_CDM_NUMBER env < 2 ^ 32 - 1 \<and> sm_inv env (sy_k s) \<and>
     tab_ok (kgni_cdm_array (sy_k s)) (cdms (sy_k s)) \<and> att_ok (cdms (sy_k s)) (nics (sy_k s)) \<and>
     rs_inv (rs_of s) \<and> page_ok (nics (sy_k s)) (sy_mm s) \<and> dom (sy_flsh s) = dom (nics (sy_k s))"

lemma att_invD:
  assumes "att_inv env s"
  shows "sm_inv env (sy_k s)" "tab_ok (kgni_cdm_array (sy_k s)) (cdms (sy_k s))" "att_ok (cdms (sy_k s)) (nics (sy_k s))"
    "rs_inv (rs_of s)" "page_ok (nics (sy_k s)) (sy_mm s)" "KGNI_MAX_CDM_NUMBER env < 2 ^ 32 - 1"
    "length (kgni_cdm_array (sy_k s)) = KGNI_MAX_CDM_NUMBER env" "dom (sy_flsh s) = dom (nics (sy_k s))"
  using assms unfolding att_inv_def by (blast, blast, blast, blast, blast, blast, (simp add: sm_inv_def inv_cdm_def), blast)

lemma ext_sel [simp]:
  "sy_k (ext c s) = sy_k s" "sy_dev (ext c s) = sy_dev s" "sy_mm (ext c s) = sy_mm s" "sy_flsh (ext c s) = sy_flsh s"
  "qsce_list (ext c s) = qsce_list s" "files (ext c s) = files s"
  by (simp_all add: ext_def)

lemma sys_nic_sel [simp]:
  "sy_k (sys_nic n f s) = upd_nic n f (sy_k s)" "sy_dev (sys_nic n f s) = sy_dev s" "sy_mm (sys_nic n f s) = sy_mm s"
  "sy_flsh (sys_nic n f s) = sy_flsh s" "qsce_list (sys_nic n f s) = qsce_list s" "files (sys_nic n f s) = files s"
  by (simp_all add: sys_nic_def)

lemma att_inv_ext [simp]: "att_inv env (ext c s) = att_inv env s"
  by (simp add: att_inv_def rs_of_def)

lemma upd_slot_sel [simp]:
  "nics (upd_slot d i e k) = nics k" "chnls (upd_slot d i e k) = chnls k" "sms (upd_slot d i e k) = sms k"
  "kgni_sm_list (upd_slot d i e k) = kgni_sm_list k" "kgni_cdm_array (upd_slot d i e k) = kgni_cdm_array k"
  by (simp_all add: upd_slot_def)

lemma upd_slot_cdms:
  "cdms (upd_slot d i e k) = (cdms k)(d := map_option (\<lambda>c. c\<lparr>cdm_nic_hndls := (cdm_nic_hndls c)[i := e]\<rparr>) (cdms k d))"
  by (simp add: upd_slot_def upd_cdm_def)

lemma valid_id:
  assumes "att_inv env s" and "cdms (sy_k s) d = Some c"
  shows "cdm_my_id c \<noteq> GNI_CDM_INVALID_ID"
proof
  assume "cdm_my_id c = GNI_CDM_INVALID_ID"
  moreover have "unat (cdm_my_id c) < KGNI_MAX_CDM_NUMBER env"
    using att_invD(2,7)[OF assms(1)] assms(2) unfolding tab_ok_def by metis
  ultimately show False using att_invD(6)[OF assms(1)] by (simp add: unsigned_minus_1_eq_mask mask_eq_exp_minus_1)
qed

text \<open>The domain of an attached NIC.\<close>

lemma attachedE:
  assumes "att_inv env s" and "nics (sy_k s) n = Some nic" and "nic_cdm_id nic \<noteq> GNI_CDM_INVALID_ID"
  obtains d c where "cdms (sy_k s) d = Some c" "cdm_my_id c = nic_cdm_id nic" "unat (nic_my_id nic) < GNI_MAX_NICS_ATTACHED"
    "cdm_nic_hndls c ! unat (nic_my_id nic) = Some n" "cdm_type_id c = GNI_TYPE_CDM_HANDLE"
    "length (cdm_nic_hndls c) = GNI_MAX_NICS_ATTACHED" "unat (nic_cdm_id nic) < KGNI_MAX_CDM_NUMBER env"
    "kgni_cdm_array (sy_k s) ! unat (nic_cdm_id nic) = Some d"
proof -
  obtain d c where d: "cdms (sy_k s) d = Some c" "cdm_my_id c = nic_cdm_id nic" "unat (nic_my_id nic) < length (cdm_nic_hndls c)"
      "cdm_nic_hndls c ! unat (nic_my_id nic) = Some n"
    using att_invD(3)[OF assms(1)] assms(2,3) unfolding att_ok_def by blast
  have c: "cdm_type_id c = GNI_TYPE_CDM_HANDLE" "length (cdm_nic_hndls c) = GNI_MAX_NICS_ATTACHED"
      "unat (cdm_my_id c) < length (kgni_cdm_array (sy_k s))" "kgni_cdm_array (sy_k s) ! unat (cdm_my_id c) = Some d"
    using att_invD(2)[OF assms(1)] d(1) unfolding tab_ok_def by blast+
  show thesis
    by (rule that[OF d(1,2) _ d(4) c(1,2)]) (use d c att_invD(7)[OF assms(1)] in simp_all)
qed

section \<open>The session manager and the objects of the driver\<close>

text \<open>The session manager keeps its invariant when domains and NICs without sessions change, come or go.\<close>

definition same_sm :: "gni_nic \<Rightarrow> gni_nic \<Rightarrow> bool" where
  "same_sm nic nic' \<longleftrightarrow> nic_sm_chnl_hndl nic' = nic_sm_chnl_hndl nic \<and> nic_sm_pkts nic' = nic_sm_pkts nic \<and>
     nic_sm_pkt_id nic' = nic_sm_pkt_id nic"

lemma same_sm_ready: "same_sm nic nic' \<Longrightarrow> nic_ready env c nic' = nic_ready env c nic"
  unfolding same_sm_def nic_ready_def by metis

lemma sm_inv_frame:
  assumes inv: "sm_inv env k"
    and same: "kgni_sm_list k' = kgni_sm_list k" "sms k' = sms k" "chnls k' = chnls k"
    and cd: "\<And>d c'. cdms k' d = Some c' \<Longrightarrow> cdm_sessions c' = [] \<or> (\<exists>c. cdms k d = Some c \<and> cdm_sessions c = cdm_sessions c')"
    and cd': "\<And>d c. cdms k d = Some c \<Longrightarrow> cdm_sessions c \<noteq> [] \<Longrightarrow> \<exists>c'. cdms k' d = Some c' \<and> cdm_sessions c' = cdm_sessions c"
    and ow: "\<And>a m nic d. sms k a = Some m \<Longrightarrow> nics k (sm_nic_hndl m) = Some nic \<Longrightarrow> nic_cdm_id nic \<noteq> GNI_CDM_INVALID_ID \<Longrightarrow>
        kgni_cdm_array k ! unat (nic_cdm_id nic) = Some d \<Longrightarrow>
        \<exists>nic'. nics k' (sm_nic_hndl m) = Some nic' \<and> nic_cdm_id nic' = nic_cdm_id nic \<and>
          kgni_cdm_array k' ! unat (nic_cdm_id nic) = Some d"
    and ni: "\<And>n nic'. nics k' n = Some nic' \<Longrightarrow>
        nic_sm_chnl_hndl nic' = None \<and> nic_sm_pkts nic' = None \<or> (\<exists>nic. nics k n = Some nic \<and> same_sm nic nic')"
    and ni': "\<And>n nic. nics k n = Some nic \<Longrightarrow> nic_sm_chnl_hndl nic \<noteq> None \<Longrightarrow> \<exists>nic'. nics k' n = Some nic' \<and> same_sm nic nic'"
    and tab: "inv_cdm env (kgni_cdm_array k') (cdms k') (nics k')"
  shows "sm_inv env k'"
proof -
  note i = inv[unfolded sm_inv_def]
  have s: "inv_sessions (cdms k') (sms k)"
    using i cd cd' unfolding inv_sessions_def by (smt (verit, ccfv_threshold) distinct.simps(1) empty_iff empty_set empty_subsetI)
  have own: "\<exists>nic. nics k (sm_nic_hndl m) = Some nic \<and> nic_cdm_id nic \<noteq> GNI_CDM_INVALID_ID \<and>
      kgni_cdm_array k ! unat (nic_cdm_id nic) = Some d"
    if "cdms k d = Some c" "a \<in> set (cdm_sessions c)" "sms k a = Some m" for a m d c
    using i that unfolding inv_owner_def by blast
  have o: "inv_owner (kgni_cdm_array k') (cdms k') (nics k') (sms k)"
    unfolding inv_owner_def
  proof (intro allI impI)
    fix d c' a m assume h: "cdms k' d = Some c'" "a \<in> set (cdm_sessions c')" "sms k a = Some m"
    with cd obtain c where "cdms k d = Some c" "a \<in> set (cdm_sessions c)" by fastforce
    with own h(3) obtain nic where "nics k (sm_nic_hndl m) = Some nic" "nic_cdm_id nic \<noteq> GNI_CDM_INVALID_ID"
      "kgni_cdm_array k ! unat (nic_cdm_id nic) = Some d" by blast
    from ow[OF h(3) this] this(2) show "\<exists>nic. nics k' (sm_nic_hndl m) = Some nic \<and> nic_cdm_id nic \<noteq> GNI_CDM_INVALID_ID \<and>
      kgni_cdm_array k' ! unat (nic_cdm_id nic) = Some d" by metis
  qed
  have live: "nics k' (sm_nic_hndl m) \<noteq> None" if am: "sms k a = Some m" for a m
  proof -
    obtain d c where "cdms k d = Some c" "a \<in> set (cdm_sessions c)" using i am unfolding inv_sessions_def by blast
    with own am ow show ?thesis by (metis option.distinct(1))
  qed
  have "inv_slots (kgni_sm_list k) (nics k') (sms k)"
    unfolding inv_slots_def
  proof (intro conjI allI impI)
    fix n nic' ps j a assume h: "nics k' n = Some nic'" "nic_sm_pkts nic' = Some ps" "j < length ps" "ps ! j = Some a"
    with ni obtain nic where "nics k n = Some nic" "nic_sm_pkts nic = Some ps" unfolding same_sm_def by fastforce
    with i h(3,4) show "a \<in> set (kgni_sm_list k)" "\<exists>m. sms k a = Some m \<and> sm_nic_hndl m = n \<and> sm_pkts_out m = 1" "once ps a j"
      unfolding inv_slots_def by blast+
  qed (use live in blast)
  moreover have "inv_chnl env (nics k') (chnls k)"
    unfolding inv_chnl_def
  proof (intro conjI allI impI)
    fix ch c assume "chnls k ch = Some c"
    with i obtain nic where nic: "nics k (chnl_nic_hndl c) = Some nic" "nic_sm_chnl_hndl nic = Some ch" "nic_ready env c nic"
      unfolding inv_chnl_def by blast
    with ni' obtain nic' where "nics k' (chnl_nic_hndl c) = Some nic'" "same_sm nic nic'" by blast
    with nic show "\<exists>nic. nics k' (chnl_nic_hndl c) = Some nic \<and> nic_sm_chnl_hndl nic = Some ch \<and> nic_ready env c nic"
      by (auto simp: same_sm_ready) (simp add: same_sm_def)
  next
    fix n nic' ch assume h: "nics k' n = Some nic'" "nic_sm_chnl_hndl nic' = Some ch"
    with ni obtain nic where "nics k n = Some nic" "nic_sm_chnl_hndl nic = Some ch" unfolding same_sm_def by fastforce
    with i show "\<exists>c. chnls k ch = Some c \<and> chnl_nic_hndl c = n" unfolding inv_chnl_def by blast
  qed
  ultimately show ?thesis using i s o tab same by (simp add: sm_inv_def)
qed

definition no_sessions :: "addr \<Rightarrow> kgni \<Rightarrow> bool" where
  "no_sessions n k \<longleftrightarrow> (\<forall>a m. sms k a = Some m \<longrightarrow> sm_nic_hndl m \<noteq> n)"

lemma session_attached:
  assumes "sm_inv env k" and "sms k a = Some m"
  obtains nic d c where "nics k (sm_nic_hndl m) = Some nic" "nic_cdm_id nic \<noteq> GNI_CDM_INVALID_ID"
    "kgni_cdm_array k ! unat (nic_cdm_id nic) = Some d" "cdms k d = Some c" "a \<in> set (cdm_sessions c)"
  using assms unfolding sm_inv_def inv_sessions_def inv_owner_def by (metis domI)

lemma unattached_no_sessions:
  "sm_inv env k \<Longrightarrow> nics k n = Some nic \<Longrightarrow> nic_cdm_id nic = GNI_CDM_INVALID_ID \<Longrightarrow> no_sessions n k"
  unfolding no_sessions_def by (metis session_attached option.inject)

section \<open>Changes of a NIC\<close>

lemma sm_inv_nic:
  assumes "sm_inv env k" and "nics k n = Some nic" and "same_sm nic (f nic)" and "nic_cdm_id (f nic) = nic_cdm_id nic"
  shows "sm_inv env (upd_nic n f k)"
proof (rule sm_inv_frame[OF assms(1)])
  show "inv_cdm env (kgni_cdm_array (upd_nic n f k)) (cdms (upd_nic n f k)) (nics (upd_nic n f k))"
    using assms by (auto simp: sm_inv_def inv_cdm_def upd_nic_def)
qed (use assms(2-4) in \<open>auto simp: upd_nic_def same_sm_def split: if_splits\<close>)

text \<open>A NIC changes fields that the session manager and the domains do not rely on.\<close>

definition same_att :: "gni_nic \<Rightarrow> gni_nic \<Rightarrow> bool" where
  "same_att nic nic' \<longleftrightarrow> nic_cdm_id nic' = nic_cdm_id nic \<and> nic_my_id nic' = nic_my_id nic \<and>
     nic_sm_chnl_hndl nic' = nic_sm_chnl_hndl nic \<and> nic_sm_pkts nic' = nic_sm_pkts nic \<and> nic_sm_pkt_id nic' = nic_sm_pkt_id nic"

lemma att_ok_nic:
  assumes "att_ok cd ni" and "ni n = Some nic" and "nic_cdm_id nic' = nic_cdm_id nic" "nic_my_id nic' = nic_my_id nic"
    and "nic_cdm_id nic = GNI_CDM_INVALID_ID \<Longrightarrow> nic_sm_chnl_hndl nic' = None \<and> nic_sm_pkts nic' = None"
  shows "att_ok cd (ni(n \<mapsto> nic'))"
  using assms unfolding att_ok_def fun_upd_apply by (smt (verit, best) option.inject)

lemma page_ok_nic:
  assumes "page_ok ni m" and "ni n = Some nic" and "pages nic' \<subseteq> pages nic" and "pages nic' \<noteq> {} \<Longrightarrow> nic_mm nic' \<noteq> None"
    and "nic_rw_page_desc nic' = None \<or> nic_cq_interrupt_mask_desc nic' = None \<or>
      nic_rw_page_desc nic' = nic_rw_page_desc nic \<and> nic_cq_interrupt_mask_desc nic' = nic_cq_interrupt_mask_desc nic"
  shows "page_ok (ni(n \<mapsto> nic')) m"
  using assms unfolding page_ok_def fun_upd_apply by (smt (verit) empty_iff option.inject subsetD option.distinct(1))

lemma page_okD:
  assumes "page_ok ni m" and "ni n = Some nic" and "u \<in> pages nic"
  shows "nic_mm nic \<noteq> None" "umap_descs m u \<noteq> None" "n' \<noteq> n \<Longrightarrow> u \<notin> own n' m"
    "n' \<noteq> n \<Longrightarrow> ni n' = Some nic' \<Longrightarrow> u \<notin> pages nic'"
  using assms unfolding page_ok_def by blast+

lemma page_ok_same:
  assumes "page_ok ni m" and "ni n = Some nic" and "nic_rw_page_desc nic' = nic_rw_page_desc nic"
    and "nic_cq_interrupt_mask_desc nic' = nic_cq_interrupt_mask_desc nic" and "nic_mm nic' = nic_mm nic \<or> pages nic = {}"
  shows "page_ok (ni(n \<mapsto> nic')) m"
proof -
  have "pages nic' = pages nic" using assms(3,4) by (simp add: pages_def)
  then show ?thesis
    using page_okD(1)[OF assms(1,2)] assms(3-5) by (intro page_ok_nic[OF assms(1,2)]) auto
qed

lemma att_inv_upd:
  assumes "att_inv env s" and "nics (sy_k s) n = Some nic" and "same_att nic (f nic)"
    and "rs_inv \<lparr>rs_dev = dev, rs_nics = (nics (sy_k s))(n \<mapsto> f nic)\<rparr>"
    and "page_ok ((nics (sy_k s))(n \<mapsto> f nic)) m"
  shows "att_inv env (sys_nic n f (s\<lparr>sy_dev := dev, sy_mm := m\<rparr>))"
proof -
  note a = assms(3)[unfolded same_att_def]
  have ni: "nics (upd_nic n f (sy_k s)) = (nics (sy_k s))(n \<mapsto> f nic)" using assms(2) by (simp add: upd_nic_def)
  have "sm_inv env (upd_nic n f (sy_k s))"
    by (rule sm_inv_nic[OF att_invD(1)[OF assms(1)] assms(2)]) (use a in \<open>simp_all add: same_sm_def\<close>)
  moreover have "att_ok (cdms (sy_k s)) ((nics (sy_k s))(n \<mapsto> f nic))"
    by (rule att_ok_nic[OF att_invD(3)[OF assms(1)] assms(2)])
      (use a att_invD(3)[OF assms(1)] assms(2) in \<open>auto simp: att_ok_def\<close>)
  moreover have "dom ((nics (sy_k s))(n \<mapsto> f nic)) = dom (nics (sy_k s))" using assms(2) by auto
  ultimately show ?thesis
    using assms(1,4,5) ni unfolding att_inv_def by (simp add: rs_of_def)
qed

lemma rs_inv_nic:
  assumes "att_inv env s" and "nics (sy_k s) n = Some nic" and "nic_ptag nic' = nic_ptag nic"
  shows "rs_inv \<lparr>rs_dev = sy_dev s, rs_nics = (nics (sy_k s))(n \<mapsto> nic')\<rparr>"
  using rs_inv_put_same[OF att_invD(4)[OF assms(1)], of n nic nic'] assms(2,3) by (simp add: rs_of_def put_def)

text \<open>Only fields change that no invariant mentions, or the address space while there are no pages.\<close>

lemma att_inv_nic:
  assumes "att_inv env s" and "nics (sy_k s) n = Some nic" and "same_att nic (f nic)" and "nic_ptag (f nic) = nic_ptag nic"
    and "nic_rw_page_desc (f nic) = nic_rw_page_desc nic" "nic_cq_interrupt_mask_desc (f nic) = nic_cq_interrupt_mask_desc nic"
    and "nic_mm (f nic) = nic_mm nic \<or> pages nic = {}"
  shows "att_inv env (sys_nic n f s)"
  using att_inv_upd[where f = f, OF assms(1-3) rs_inv_nic[OF assms(1,2,4)] page_ok_same[OF att_invD(5)[OF assms(1)] assms(2,5-7)]] by simp

section \<open>Domains and NICs come and go\<close>

text \<open>An unattached NIC takes an empty entry of a domain.\<close>

lemma upd_nic_apply: "nics k n = Some nic \<Longrightarrow> nics (upd_nic n f k) = (nics k)(n \<mapsto> f nic)"
  by (simp add: upd_nic_def)

lemma sm_inv_link:
  assumes inv: "sm_inv env k" and nic: "nics k n = Some nic" "no_sessions n k"
    and cid: "j \<noteq> GNI_CDM_INVALID_ID \<Longrightarrow> unat j < KGNI_MAX_CDM_NUMBER env"
  shows "sm_inv env (upd_nic n (\<lambda>x. x\<lparr>nic_cdm_id := j, nic_my_id := i\<rparr>) (upd_slot d l e k))"
    (is "sm_inv env ?k")
proof -
  have ni: "nics ?k = (nics k)(n \<mapsto> nic\<lparr>nic_cdm_id := j, nic_my_id := i\<rparr>)" using nic by (simp add: upd_nic_def)
  have cd: "cdms ?k = (cdms k)(d := map_option (\<lambda>c. c\<lparr>cdm_nic_hndls := (cdm_nic_hndls c)[l := e]\<rparr>) (cdms k d))"
    by (simp add: upd_slot_cdms)
  show ?thesis
  proof (rule sm_inv_frame[OF inv])
    have "inv_cdm env (kgni_cdm_array k) (cdms k) (nics k)" using inv by (simp add: sm_inv_def)
    with cid show "inv_cdm env (kgni_cdm_array ?k) (cdms ?k) (nics ?k)"
      unfolding ni cd by (auto simp: inv_cdm_def split: if_splits)
  next
    fix x nic' assume "nics ?k x = Some nic'"
    with nic(1) show "nic_sm_chnl_hndl nic' = None \<and> nic_sm_pkts nic' = None \<or> (\<exists>nic. nics k x = Some nic \<and> same_sm nic nic')"
      unfolding ni by (cases "x = n") (auto simp: same_sm_def)
  next
    fix x k' assume "nics k x = Some k'"
    with nic(1) show "\<exists>nic'. nics ?k x = Some nic' \<and> same_sm k' nic'"
      unfolding ni by (cases "x = n") (auto simp: same_sm_def)
  next
    fix a m nic' d' assume "sms k a = Some m" "nics k (sm_nic_hndl m) = Some nic'" "kgni_cdm_array k ! unat (nic_cdm_id nic') = Some d'"
    moreover from this(1) nic(2) have "sm_nic_hndl m \<noteq> n" by (simp add: no_sessions_def)
    ultimately show "\<exists>nic. nics ?k (sm_nic_hndl m) = Some nic \<and> nic_cdm_id nic = nic_cdm_id nic' \<and>
        kgni_cdm_array ?k ! unat (nic_cdm_id nic') = Some d'" unfolding ni by simp
  next
    fix x c' assume "cdms ?k x = Some c'"
    then show "cdm_sessions c' = [] \<or> (\<exists>c. cdms k x = Some c \<and> cdm_sessions c = cdm_sessions c')"
      unfolding cd by (cases "x = d") auto
  next
    fix x c assume "cdms k x = Some c"
    then show "\<exists>c'. cdms ?k x = Some c' \<and> cdm_sessions c' = cdm_sessions c" unfolding cd by (cases "x = d") auto
  qed simp_all
qed

text \<open>What the table knows of a domain.\<close>

definition same_key :: "gni_cdm \<Rightarrow> gni_cdm \<Rightarrow> bool" where
  "same_key c c' \<longleftrightarrow> cdm_type_id c' = cdm_type_id c \<and> cdm_my_id c' = cdm_my_id c \<and>
     length (cdm_nic_hndls c') = length (cdm_nic_hndls c) \<and> cdm_ptag c' = cdm_ptag c \<and> cdm_cookie c' = cdm_cookie c \<and>
     cdm_inst_id c' = cdm_inst_id c"

lemma tab_ok_same:
  assumes t: "tab_ok arr cd" and a: "\<And>d c'. cd' d = Some c' \<Longrightarrow> \<exists>c. cd d = Some c \<and> same_key c c'"
    and b: "\<And>d c. cd d = Some c \<Longrightarrow> \<exists>c'. cd' d = Some c' \<and> same_key c c'"
  shows "tab_ok arr cd'"
  unfolding tab_ok_def
proof (intro conjI allI impI)
  fix i d assume "i < length arr" "arr ! i = Some d"
  with t obtain c where "cd d = Some c" "unat (cdm_my_id c) = i" unfolding tab_ok_def by blast
  with b[of d c] show "\<exists>c. cd' d = Some c \<and> unat (cdm_my_id c) = i" by (auto simp: same_key_def)
next
  fix d c' assume d: "cd' d = Some c'"
  with a obtain c where c: "cd d = Some c" "same_key c c'" by blast
  with t show "cdm_type_id c' = GNI_TYPE_CDM_HANDLE" "length (cdm_nic_hndls c') = GNI_MAX_NICS_ATTACHED"
    "unat (cdm_my_id c') < length arr" "arr ! unat (cdm_my_id c') = Some d"
    unfolding tab_ok_def same_key_def by metis+
next
  fix d c d' c' assume h: "cd' d = Some c" "cd' d' = Some c'" "cdm_match (cdm_ptag c) (cdm_cookie c) (cdm_inst_id c) c'"
  from a[OF h(1)] a[OF h(2)] obtain e e' where e: "cd d = Some e" "same_key e c" "cd d' = Some e'" "same_key e' c'" by blast
  with h(3) have "cdm_match (cdm_ptag e) (cdm_cookie e) (cdm_inst_id e) e'" by (simp add: cdm_match_def same_key_def)
  with t e show "d = d'" unfolding tab_ok_def by blast
qed

lemma tab_ok_slot: "tab_ok arr (cdms k) \<Longrightarrow> tab_ok arr (cdms (upd_slot d i e k))"
  by (erule tab_ok_same) (auto simp: upd_slot_cdms same_key_def split: if_splits)

lemma att_okI:
  assumes "\<And>d c i n. cd d = Some c \<Longrightarrow> i < length (cdm_nic_hndls c) \<Longrightarrow> cdm_nic_hndls c ! i = Some n \<Longrightarrow>
      \<exists>nic. ni n = Some nic \<and> nic_cdm_id nic = cdm_my_id c \<and> unat (nic_my_id nic) = i"
    and "\<And>n nic. ni n = Some nic \<Longrightarrow> nic_cdm_id nic \<noteq> GNI_CDM_INVALID_ID \<Longrightarrow>
      \<exists>d c. cd d = Some c \<and> cdm_my_id c = nic_cdm_id nic \<and> unat (nic_my_id nic) < length (cdm_nic_hndls c) \<and>
        cdm_nic_hndls c ! unat (nic_my_id nic) = Some n"
    and "\<And>n nic. ni n = Some nic \<Longrightarrow> nic_cdm_id nic = GNI_CDM_INVALID_ID \<Longrightarrow> nic_sm_chnl_hndl nic = None \<and> nic_sm_pkts nic = None"
  shows "att_ok cd ni"
  using assms unfolding att_ok_def by blast

lemma att_okD:
  assumes "att_ok cd ni"
  shows "cd d = Some c \<Longrightarrow> i < length (cdm_nic_hndls c) \<Longrightarrow> cdm_nic_hndls c ! i = Some n \<Longrightarrow>
      \<exists>nic. ni n = Some nic \<and> nic_cdm_id nic = cdm_my_id c \<and> unat (nic_my_id nic) = i"
    and "ni n = Some nic \<Longrightarrow> nic_cdm_id nic \<noteq> GNI_CDM_INVALID_ID \<Longrightarrow>
      \<exists>d c. cd d = Some c \<and> cdm_my_id c = nic_cdm_id nic \<and> unat (nic_my_id nic) < length (cdm_nic_hndls c) \<and>
        cdm_nic_hndls c ! unat (nic_my_id nic) = Some n"
    and "ni n = Some nic \<Longrightarrow> nic_cdm_id nic = GNI_CDM_INVALID_ID \<Longrightarrow> nic_sm_chnl_hndl nic = None \<and> nic_sm_pkts nic = None"
  using assms unfolding att_ok_def by blast+

text \<open>The entry \<open>i\<close> of domain \<open>d\<close> is free and the NIC takes it.\<close>

lemma att_ok_link:
  assumes ok: "att_ok cd ni" and ids: "\<And>d c. cd d = Some c \<Longrightarrow> cdm_my_id c \<noteq> GNI_CDM_INVALID_ID"
    and nic: "ni n = Some nic" "nic_cdm_id nic = GNI_CDM_INVALID_ID"
    and d: "cd d = Some c" "i < length (cdm_nic_hndls c)" "cdm_nic_hndls c ! i = None" "i < 2 ^ 32"
  shows "att_ok (cd(d \<mapsto> c\<lparr>cdm_nic_hndls := (cdm_nic_hndls c)[i := Some n]\<rparr>))
    (ni(n \<mapsto> nic\<lparr>nic_cdm_id := cdm_my_id c, nic_my_id := of_nat i\<rparr>))" (is "att_ok ?cd ?ni")
proof (rule att_okI)
  have i: "unat (of_nat i :: u32) = i" using d(4) by (simp add: unsigned_of_nat take_bit_nat_eq_self)
  fix d' c' j x assume h: "?cd d' = Some c'" "j < length (cdm_nic_hndls c')" "cdm_nic_hndls c' ! j = Some x"
  show "\<exists>nic. ?ni x = Some nic \<and> nic_cdm_id nic = cdm_my_id c' \<and> unat (nic_my_id nic) = j"
  proof (cases "d' = d \<and> j = i")
    case True
    with h d i show ?thesis by auto
  next
    case False
    with h d(1) obtain c0 where c0: "cd d' = Some c0" "j < length (cdm_nic_hndls c0)" "cdm_nic_hndls c0 ! j = Some x" "cdm_my_id c' = cdm_my_id c0"
      by (auto split: if_splits)
    from att_okD(1)[OF ok this(1-3)] obtain k where k: "ni x = Some k" "nic_cdm_id k = cdm_my_id c0" "unat (nic_my_id k) = j" by blast
    with nic ids[OF c0(1)] have "x \<noteq> n" by auto
    with k c0(4) show ?thesis by simp
  qed
next
  have i: "unat (of_nat i :: u32) = i" using d(4) by (simp add: unsigned_of_nat take_bit_nat_eq_self)
  fix x k assume h: "?ni x = Some k" "nic_cdm_id k \<noteq> GNI_CDM_INVALID_ID"
  show "\<exists>d c. ?cd d = Some c \<and> cdm_my_id c = nic_cdm_id k \<and> unat (nic_my_id k) < length (cdm_nic_hndls c) \<and>
      cdm_nic_hndls c ! unat (nic_my_id k) = Some x"
  proof (cases "x = n")
    case True
    with h d i show ?thesis by (intro exI[of _ d] exI[of _ "c\<lparr>cdm_nic_hndls := (cdm_nic_hndls c)[i := Some n]\<rparr>"]) auto
  next
    case False
    with h have "ni x = Some k" by simp
    from att_okD(2)[OF ok this h(2)] obtain d' c' where c': "cd d' = Some c'" "cdm_my_id c' = nic_cdm_id k"
      "unat (nic_my_id k) < length (cdm_nic_hndls c')" "cdm_nic_hndls c' ! unat (nic_my_id k) = Some x" by blast
    let ?c = "c\<lparr>cdm_nic_hndls := (cdm_nic_hndls c)[i := Some n]\<rparr>"
    have "d' = d \<Longrightarrow> unat (nic_my_id k) \<noteq> i" using c' d(1,3) by auto
    with c' d(1) show ?thesis by (cases "d' = d") (auto intro!: exI[of _ d'])
  qed
next
  fix x k assume "?ni x = Some k" "nic_cdm_id k = GNI_CDM_INVALID_ID"
  with att_okD(3)[OF ok] ids[OF d(1)] show "nic_sm_chnl_hndl k = None \<and> nic_sm_pkts k = None" by (cases "x = n") auto
qed

text \<open>The NIC gives up its entry.\<close>

lemma att_ok_unlink:
  assumes ok: "att_ok cd ni" and ids: "\<And>d c. cd d = Some c \<Longrightarrow> cdm_my_id c \<noteq> GNI_CDM_INVALID_ID"
    and nic: "ni n = Some nic" "nic_cdm_id nic = cdm_my_id c" "nic_sm_chnl_hndl nic' = None" "nic_sm_pkts nic' = None"
      "nic_cdm_id nic' = GNI_CDM_INVALID_ID"
    and d: "cd d = Some c" "unat (nic_my_id nic) = i" "\<And>d' c'. cd d' = Some c' \<Longrightarrow> cdm_my_id c' = cdm_my_id c \<Longrightarrow> d' = d"
  shows "att_ok (cd(d \<mapsto> c\<lparr>cdm_nic_hndls := (cdm_nic_hndls c)[i := None]\<rparr>)) (ni(n \<mapsto> nic'))" (is "att_ok ?cd ?ni")
proof (rule att_okI)
  fix d' c' j x assume h: "?cd d' = Some c'" "j < length (cdm_nic_hndls c')" "cdm_nic_hndls c' ! j = Some x"
  then obtain c0 where c0: "cd d' = Some c0" "j < length (cdm_nic_hndls c0)" "cdm_nic_hndls c0 ! j = Some x" "cdm_my_id c' = cdm_my_id c0"
    and ne: "\<not> (d' = d \<and> j = i)"
    using d(1) by (cases "d' = d \<and> j = i") (auto split: if_splits)
  from att_okD(1)[OF ok c0(1-3)] obtain k where k: "ni x = Some k" "nic_cdm_id k = cdm_my_id c0" "unat (nic_my_id k) = j" by blast
  with nic(1,2) c0(1) d(2,3) ne have "x \<noteq> n" by auto
  with k c0(4) show "\<exists>nic. ?ni x = Some nic \<and> nic_cdm_id nic = cdm_my_id c' \<and> unat (nic_my_id nic) = j" by simp
next
  fix x k assume h: "?ni x = Some k" "nic_cdm_id k \<noteq> GNI_CDM_INVALID_ID"
  with nic(5) have x: "x \<noteq> n" "ni x = Some k" by (auto split: if_splits)
  from att_okD(2)[OF ok this(2) h(2)] obtain d' c' where c': "cd d' = Some c'" "cdm_my_id c' = nic_cdm_id k"
    "unat (nic_my_id k) < length (cdm_nic_hndls c')" "cdm_nic_hndls c' ! unat (nic_my_id k) = Some x" by blast
  have "unat (nic_my_id k) \<noteq> i" if e: "d' = d"
  proof
    assume "unat (nic_my_id k) = i"
    moreover obtain d1 c1 where "cd d1 = Some c1" "cdm_my_id c1 = nic_cdm_id nic" "cdm_nic_hndls c1 ! unat (nic_my_id nic) = Some n"
      using att_okD(2)[OF ok nic(1)] ids[OF d(1)] nic(2) by auto
    moreover from this(1,2) d(3) nic(2) have "d1 = d" by simp
    ultimately show False using c' e d(1,2) x(1) by simp
  qed
  with c' d(1) show "\<exists>d c. ?cd d = Some c \<and> cdm_my_id c = nic_cdm_id k \<and> unat (nic_my_id k) < length (cdm_nic_hndls c) \<and>
      cdm_nic_hndls c ! unat (nic_my_id k) = Some x"
    by (cases "d' = d") (auto intro!: exI[of _ d'])
next
  fix x k assume "?ni x = Some k" "nic_cdm_id k = GNI_CDM_INVALID_ID"
  with att_okD(3)[OF ok] nic show "nic_sm_chnl_hndl k = None \<and> nic_sm_pkts k = None" by (cases "x = n") auto
qed

lemma tab_okD:
  assumes "tab_ok arr cd"
  shows "i < length arr \<Longrightarrow> arr ! i = Some d \<Longrightarrow> \<exists>c. cd d = Some c \<and> unat (cdm_my_id c) = i"
    and "cd d = Some c \<Longrightarrow> cdm_type_id c = GNI_TYPE_CDM_HANDLE" "cd d = Some c \<Longrightarrow> length (cdm_nic_hndls c) = GNI_MAX_NICS_ATTACHED"
    "cd d = Some c \<Longrightarrow> unat (cdm_my_id c) < length arr" "cd d = Some c \<Longrightarrow> arr ! unat (cdm_my_id c) = Some d"
    and "cd d = Some c \<Longrightarrow> cd d' = Some c' \<Longrightarrow> cdm_match (cdm_ptag c) (cdm_cookie c) (cdm_inst_id c) c' \<Longrightarrow> d = d'"
  using assms unfolding tab_ok_def by blast+

lemma my_id_inj:
  assumes "tab_ok arr cd" and "cd d = Some c" and "cd d' = Some c'" and "cdm_my_id c' = cdm_my_id c"
  shows "d' = d"
  using tab_okD(5)[OF assms(1,2)] tab_okD(5)[OF assms(1,3)] assms(4) by simp

text \<open>Attaching and detaching keep the invariant of the whole.\<close>

lemma att_inv_link:
  assumes inv: "att_inv env s" and nic: "nics (sy_k s) n = Some nic" "nic_cdm_id nic = GNI_CDM_INVALID_ID"
    and d: "cdms (sy_k s) d = Some c" "i < GNI_MAX_NICS_ATTACHED" "cdm_nic_hndls c ! i = None"
  shows "att_inv env (s\<lparr>sy_k := upd_nic n (\<lambda>x. x\<lparr>nic_cdm_id := cdm_my_id c, nic_my_id := of_nat i\<rparr>) (upd_slot d i (Some n) (sy_k s))\<rparr>)"
    (is "att_inv env (s\<lparr>sy_k := ?k\<rparr>)")
proof -
  let ?nic = "nic\<lparr>nic_cdm_id := cdm_my_id c, nic_my_id := of_nat i\<rparr>"
  have ni: "nics ?k = (nics (sy_k s))(n \<mapsto> ?nic)" using nic by (simp add: upd_nic_def)
  have cd: "cdms ?k = (cdms (sy_k s))(d \<mapsto> c\<lparr>cdm_nic_hndls := (cdm_nic_hndls c)[i := Some n]\<rparr>)"
    using d by (simp add: upd_slot_cdms)
  have "sm_inv env ?k"
    by (rule sm_inv_link[OF att_invD(1)[OF inv] nic(1) unattached_no_sessions[OF att_invD(1)[OF inv] nic]])
      (use tab_okD(4)[OF att_invD(2)[OF inv] d(1)] att_invD(7)[OF inv] in simp)
  moreover have "att_ok (cdms ?k) (nics ?k)"
    unfolding ni cd by (rule att_ok_link[OF att_invD(3)[OF inv] valid_id[OF inv] nic d(1)])
      (use d tab_okD(3)[OF att_invD(2)[OF inv] d(1)] in auto)
  moreover have "tab_ok (kgni_cdm_array ?k) (cdms ?k)" using tab_ok_slot[OF att_invD(2)[OF inv]] by simp
  moreover have "rs_inv (rs_of (s\<lparr>sy_k := ?k\<rparr>))"
    using rs_inv_put_same[OF att_invD(4)[OF inv], of n nic ?nic] nic(1) unfolding rs_of_def by (simp add: ni put_def)
  moreover have "page_ok (nics ?k) (sy_mm s)"
    unfolding ni by (rule page_ok_same[OF att_invD(5)[OF inv] nic(1)]) simp_all
  ultimately show ?thesis
    using inv nic(1) unfolding att_inv_def by (auto simp: ni)
qed

lemma att_inv_unlink:
  assumes inv: "att_inv env s" and nic: "nics (sy_k s) n = Some nic" "nic_cdm_id nic = cdm_my_id c"
      "nic_sm_chnl_hndl nic = None" "nic_sm_pkts nic = None" "no_sessions n (sy_k s)"
    and d: "cdms (sy_k s) d = Some c" "unat (nic_my_id nic) = i"
  shows "att_inv env (s\<lparr>sy_k := upd_nic n (\<lambda>x. x\<lparr>nic_cdm_id := GNI_CDM_INVALID_ID\<rparr>) (upd_slot d i None (sy_k s))\<rparr>)"
    (is "att_inv env (s\<lparr>sy_k := ?k\<rparr>)")
proof -
  let ?nic = "nic\<lparr>nic_cdm_id := GNI_CDM_INVALID_ID\<rparr>"
  have ni: "nics ?k = (nics (sy_k s))(n \<mapsto> ?nic)" using nic by (simp add: upd_nic_def)
  have cd: "cdms ?k = (cdms (sy_k s))(d \<mapsto> c\<lparr>cdm_nic_hndls := (cdm_nic_hndls c)[i := None]\<rparr>)"
    using d by (simp add: upd_slot_cdms)
  have k: "?k = upd_nic n (\<lambda>x. x\<lparr>nic_cdm_id := GNI_CDM_INVALID_ID, nic_my_id := nic_my_id nic\<rparr>) (upd_slot d i None (sy_k s))"
    using nic(1) by (auto simp: upd_nic_def intro!: arg_cong[where f = "\<lambda>x. nics_update x _"])
  have "sm_inv env ?k" unfolding k by (rule sm_inv_link[OF att_invD(1)[OF inv] nic(1,5)]) simp
  moreover have "att_ok (cdms ?k) (nics ?k)"
    unfolding ni cd by (rule att_ok_unlink[OF att_invD(3)[OF inv] valid_id[OF inv] nic(1,2) _ _ _ d(1)])
      (use nic d my_id_inj[OF att_invD(2)[OF inv] d(1)] in auto)
  moreover have "tab_ok (kgni_cdm_array ?k) (cdms ?k)" using tab_ok_slot[OF att_invD(2)[OF inv]] by simp
  moreover have "rs_inv (rs_of (s\<lparr>sy_k := ?k\<rparr>))"
    using rs_inv_put_same[OF att_invD(4)[OF inv], of n nic ?nic] nic(1) unfolding rs_of_def by (simp add: ni put_def)
  moreover have "page_ok (nics ?k) (sy_mm s)"
    unfolding ni by (rule page_ok_same[OF att_invD(5)[OF inv] nic(1)]) simp_all
  ultimately show ?thesis
    using inv nic(1) unfolding att_inv_def by (auto simp: ni)
qed

text \<open>A domain without NICs has no sessions, and can be freed.\<close>

lemma empty_no_sessions:
  assumes inv: "att_inv env s" and d: "cdms (sy_k s) d = Some c" "\<forall>e \<in> set (cdm_nic_hndls c). e = None"
  shows "cdm_sessions c = []"
proof (rule ccontr)
  assume "cdm_sessions c \<noteq> []"
  then obtain a where a: "a \<in> set (cdm_sessions c)" by (cases "cdm_sessions c") auto
  note i = att_invD(1)[OF inv, unfolded sm_inv_def]
  from i d(1) a obtain m where m: "sms (sy_k s) a = Some m" unfolding inv_sessions_def by blast
  with i d(1) a obtain nic where nic: "nics (sy_k s) (sm_nic_hndl m) = Some nic" "nic_cdm_id nic \<noteq> GNI_CDM_INVALID_ID"
    "kgni_cdm_array (sy_k s) ! unat (nic_cdm_id nic) = Some d" unfolding inv_owner_def by blast
  from attachedE[OF inv nic(1,2)] nic(3) d(1) have "Some (sm_nic_hndl m) \<in> set (cdm_nic_hndls c)"
    by (metis nth_mem option.inject)
  with d(2) show False by blast
qed

lemma att_inv_free_cdm:
  assumes inv: "att_inv env s" and d: "cdms (sy_k s) d = Some c" "\<forall>e \<in> set (cdm_nic_hndls c). e = None"
  shows "att_inv env (s\<lparr>sy_k := (sy_k s)\<lparr>kgni_cdm_array := (kgni_cdm_array (sy_k s))[unat (cdm_my_id c) := None],
      cdms := (cdms (sy_k s))(d := None)\<rparr>\<rparr>)" (is "att_inv env (s\<lparr>sy_k := ?k\<rparr>)")
proof -
  let ?arr = "(kgni_cdm_array (sy_k s))[unat (cdm_my_id c) := None]" and ?cd = "(cdms (sy_k s))(d := None)"
  note t = att_invD(2)[OF inv]
  have at: "?arr ! i = kgni_cdm_array (sy_k s) ! i" if "i < length ?arr" "kgni_cdm_array (sy_k s) ! i = Some d'" "d' \<noteq> d" for i d'
    using that tab_okD(5)[OF t d(1)] by (cases "i = unat (cdm_my_id c)") auto
  have other: "kgni_cdm_array (sy_k s) ! i = Some x \<and> x \<noteq> d" if "i < length ?arr" "?arr ! i = Some x" for i x
  proof (cases "i = unat (cdm_my_id c)")
    case False
    with that have "kgni_cdm_array (sy_k s) ! i = Some x" by simp
    moreover from tab_okD(1)[OF t _ this] that False d(1) have "x \<noteq> d" by auto
    ultimately show ?thesis by simp
  qed (use that in auto)
  have own: "x \<noteq> d" if "sms (sy_k s) a = Some m" "nics (sy_k s) (sm_nic_hndl m) = Some nic" "nic_cdm_id nic \<noteq> GNI_CDM_INVALID_ID"
      "kgni_cdm_array (sy_k s) ! unat (nic_cdm_id nic) = Some x" for a m nic x
    using attachedE[OF inv that(2,3)] that(4) d by (metis nth_mem option.distinct(1) option.inject)
  have "sm_inv env ?k"
  proof (rule sm_inv_frame[OF att_invD(1)[OF inv]])
    show "inv_cdm env (kgni_cdm_array ?k) (cdms ?k) (nics ?k)"
      using att_invD(1)[OF inv] other by (auto simp: sm_inv_def inv_cdm_def)
  next
    fix a m nic x assume h: "sms (sy_k s) a = Some m" "nics (sy_k s) (sm_nic_hndl m) = Some nic" "nic_cdm_id nic \<noteq> GNI_CDM_INVALID_ID"
      "kgni_cdm_array (sy_k s) ! unat (nic_cdm_id nic) = Some x"
    have "unat (nic_cdm_id nic) < length ?arr"
      using att_invD(1)[OF inv] h(2,3) unfolding sm_inv_def inv_cdm_def by (metis length_list_update)
    from at[OF this h(4) own[OF h]] h show "\<exists>nic'. nics ?k (sm_nic_hndl m) = Some nic' \<and> nic_cdm_id nic' = nic_cdm_id nic \<and>
        kgni_cdm_array ?k ! unat (nic_cdm_id nic) = Some x" by simp
  qed (use d empty_no_sessions[OF inv d] in \<open>auto simp: same_sm_def split: if_splits\<close>)
  moreover have "tab_ok ?arr ?cd"
    unfolding tab_ok_def
  proof (intro conjI allI impI)
    fix i x assume "i < length ?arr" "?arr ! i = Some x"
    with other tab_okD(1)[OF t] show "\<exists>c. ?cd x = Some c \<and> unat (cdm_my_id c) = i" by simp
  next
    fix x k assume x: "?cd x = Some k"
    then have x': "cdms (sy_k s) x = Some k" "x \<noteq> d" by (auto split: if_splits)
    with tab_okD(2-4)[OF t] show "cdm_type_id k = GNI_TYPE_CDM_HANDLE" "length (cdm_nic_hndls k) = GNI_MAX_NICS_ATTACHED"
      "unat (cdm_my_id k) < length ?arr" by simp_all
    with at tab_okD(5)[OF t x'(1)] x'(2) show "?arr ! unat (cdm_my_id k) = Some x" by simp
  next
    fix x k y l assume "?cd x = Some k" "?cd y = Some l" "cdm_match (cdm_ptag k) (cdm_cookie k) (cdm_inst_id k) l"
    with tab_okD(6)[OF t] show "x = y" by (auto split: if_splits)
  qed
  moreover have "att_ok ?cd (nics (sy_k s))"
  proof (rule att_okI)
    fix n nic assume h: "nics (sy_k s) n = Some nic" "nic_cdm_id nic \<noteq> GNI_CDM_INVALID_ID"
    from att_okD(2)[OF att_invD(3)[OF inv] this] obtain x k where "cdms (sy_k s) x = Some k" "cdm_my_id k = nic_cdm_id nic"
      "unat (nic_my_id nic) < length (cdm_nic_hndls k)" "cdm_nic_hndls k ! unat (nic_my_id nic) = Some n" by blast
    moreover from this d have "x \<noteq> d" by (metis nth_mem option.distinct(1) option.inject)
    ultimately show "\<exists>d c. ?cd d = Some c \<and> cdm_my_id c = nic_cdm_id nic \<and> unat (nic_my_id nic) < length (cdm_nic_hndls c) \<and>
        cdm_nic_hndls c ! unat (nic_my_id nic) = Some n" by auto
  qed (use att_okD[OF att_invD(3)[OF inv]] in \<open>auto split: if_splits\<close>)
  ultimately show ?thesis using inv by (simp add: att_inv_def rs_of_def)
qed

section \<open>The table as a map\<close>

text \<open>The abstract table: tag, cookie and instance to the domain.\<close>

definition cdm_abs :: "kgni \<Rightarrow> u8 \<times> u32 \<times> u32 \<rightharpoonup> addr" where
  "cdm_abs k = map_of (List.map_filter (\<lambda>e. case e of None \<Rightarrow> None
     | Some d \<Rightarrow> map_option (\<lambda>c. ((cdm_ptag c, cdm_cookie c, cdm_inst_id c), d)) (cdms k d)) (kgni_cdm_array k))"

lemma cdm_abs_iff:
  assumes t: "tab_ok (kgni_cdm_array k) (cdms k)"
  shows "cdm_abs k (p, ck, i) = Some d \<longleftrightarrow> (\<exists>c. cdms k d = Some c \<and> cdm_match p ck i c)" (is "?l \<longleftrightarrow> ?r")
proof
  assume ?l
  then show ?r
    unfolding cdm_abs_def by (auto dest!: map_of_SomeD simp: List.map_filter_def cdm_match_def split: option.splits)
next
  assume ?r
  then obtain c where c: "cdms k d = Some c" "cdm_match p ck i c" by blast
  let ?f = "\<lambda>e. case e of None \<Rightarrow> None | Some d \<Rightarrow> map_option (\<lambda>c. ((cdm_ptag c, cdm_cookie c, cdm_inst_id c), d)) (cdms k d)"
  let ?xs = "List.map_filter ?f (kgni_cdm_array k)"
  have "Some d \<in> set (kgni_cdm_array k)" using tab_okD(4,5)[OF t c(1)] by (metis nth_mem)
  with c have "((p, ck, i), d) \<in> set ?xs" by (force simp: List.map_filter_def cdm_match_def)
  moreover have "d' = d" if m: "((p, ck, i), d') \<in> set ?xs" for d'
  proof -
    from m obtain c' where "cdms k d' = Some c'" "cdm_match p ck i c'"
      by (auto simp: List.map_filter_def cdm_match_def split: option.splits)
    with tab_okD(6)[OF t c(1) this(1)] c(2) show ?thesis by (simp add: cdm_match_def)
  qed
  moreover from calculation(1) obtain d' where "map_of ?xs (p, ck, i) = Some d'" using weak_map_of_SomeI by fastforce
  ultimately show ?l using map_of_SomeD[of ?xs "(p, ck, i)" d'] by (simp add: cdm_abs_def)
qed

lemma lookup_loop_ok:
  assumes t: "tab_ok (kgni_cdm_array k) (cdms k)" and "set is \<subseteq> {..<length (kgni_cdm_array k)}"
  shows "\<exists>r. lookup_loop p ck i is k = Some r \<and>
    (case r of None \<Rightarrow> \<forall>j \<in> set is. \<forall>d c. kgni_cdm_array k ! j = Some d \<longrightarrow> cdms k d = Some c \<longrightarrow> \<not> cdm_match p ck i c
     | Some (d, j) \<Rightarrow> j \<in> set is \<and> kgni_cdm_array k ! j = Some d \<and> (\<exists>c. cdms k d = Some c \<and> cdm_match p ck i c))"
  using assms(2)
proof (induction "is")
  case (Cons j js)
  then have j: "j < length (kgni_cdm_array k)" by simp
  from Cons obtain r where r: "lookup_loop p ck i js k = Some r"
    "case r of None \<Rightarrow> \<forall>j \<in> set js. \<forall>d c. kgni_cdm_array k ! j = Some d \<longrightarrow> cdms k d = Some c \<longrightarrow> \<not> cdm_match p ck i c
     | Some (d, j) \<Rightarrow> j \<in> set js \<and> kgni_cdm_array k ! j = Some d \<and> (\<exists>c. cdms k d = Some c \<and> cdm_match p ck i c)" by auto
  show ?case
  proof (cases "kgni_cdm_array k ! j")
    case None
    with r j show ?thesis by (auto split: option.splits)
  next
    case (Some d)
    with tab_okD(1)[OF t j] obtain c where c: "cdms k d = Some c" by blast
    with tab_okD(2)[OF t] have "cdm_type_id c = GNI_TYPE_CDM_HANDLE" by simp
    with r j Some c show ?thesis by (auto split: option.splits)
  qed
qed simp

lemma kgni_cdm_lookup_abs:
  assumes t: "tab_ok (kgni_cdm_array k) (cdms k)" and len: "length (kgni_cdm_array k) = KGNI_MAX_CDM_NUMBER env"
  shows "\<exists>r. kgni_cdm_lookup env p ck i k = Some r \<and> map_option fst r = cdm_abs k (p, ck, i) \<and>
    (\<forall>d j. r = Some (d, j) \<longrightarrow> kgni_cdm_array k ! j = Some d)"
proof -
  have "set [0..<KGNI_MAX_CDM_NUMBER env] \<subseteq> {..<length (kgni_cdm_array k)}" using len by auto
  from lookup_loop_ok[OF t this, of p ck i] obtain r where
    r: "lookup_loop p ck i [0..<KGNI_MAX_CDM_NUMBER env] k = Some r"
    "case r of None \<Rightarrow> \<forall>j \<in> set [0..<KGNI_MAX_CDM_NUMBER env]. \<forall>d c. kgni_cdm_array k ! j = Some d \<longrightarrow> cdms k d = Some c \<longrightarrow> \<not> cdm_match p ck i c
     | Some (d, j) \<Rightarrow> j \<in> set [0..<KGNI_MAX_CDM_NUMBER env] \<and> kgni_cdm_array k ! j = Some d \<and> (\<exists>c. cdms k d = Some c \<and> cdm_match p ck i c)"
    by blast
  have none: "cdm_abs k (p, ck, i) = None" if "r = None"
  proof (rule ccontr)
    assume "cdm_abs k (p, ck, i) \<noteq> None"
    then obtain d c where d: "cdms k d = Some c" "cdm_match p ck i c" using cdm_abs_iff[OF t] by blast
    with tab_okD(4,5)[OF t d(1)] len r(2) that show False by (auto dest!: bspec[of _ _ "unat (cdm_my_id c)"])
  qed
  show ?thesis
  proof (cases r)
    case None
    with r(1) none show ?thesis by (simp add: kgni_cdm_lookup_def)
  next
    case (Some x)
    obtain d j where x: "x = (d, j)" by (cases x)
    with r(2) Some have "kgni_cdm_array k ! j = Some d" "\<exists>c. cdms k d = Some c \<and> cdm_match p ck i c" by simp_all
    with cdm_abs_iff[OF t, of p ck i d] r(1) Some x show ?thesis by (simp add: kgni_cdm_lookup_def)
  qed
qed

text \<open>The creation of a domain whose tag, cookie and instance are new puts it at the first free index.\<close>

definition add_cdm :: "addr \<Rightarrow> nat \<Rightarrow> gni_cdm \<Rightarrow> kgni \<Rightarrow> kgni" where
  "add_cdm a j c k = k\<lparr>kgni_cdm_array := (kgni_cdm_array k)[j := Some a], cdms := (cdms k)(a \<mapsto> c\<lparr>cdm_my_id := of_nat j\<rparr>)\<rparr>"

definition other_key :: "u8 \<Rightarrow> u32 \<Rightarrow> u32 \<Rightarrow> kgni \<Rightarrow> nat \<Rightarrow> bool" where
  "other_key p ck i k j \<longleftrightarrow> j < length (kgni_cdm_array k) \<and>
     (\<forall>d. kgni_cdm_array k ! j = Some d \<longrightarrow> (\<exists>c. cdms k d = Some c \<and> \<not> cdm_match p ck i c))"

lemma create_loop_rest:
  assumes "cdms k a = Some new" and "cdm_my_id new \<noteq> GNI_CDM_INVALID_ID" and "\<forall>j \<in> set is. other_key p ck i k j"
  shows "create_loop a p ck i is k = Some (GNI_RC_SUCCESS, k)"
  using assms(3)
proof (induction "is")
  case (Cons j js)
  then show ?case using assms(1,2) by (cases "kgni_cdm_array k ! j") (auto simp: other_key_def)
qed simp

lemma create_loop_new:
  assumes new: "cdms k a = Some new" "cdm_my_id new = GNI_CDM_INVALID_ID" and "\<forall>j \<in> set is. other_key p ck i k j"
    and "distinct is" and "\<forall>j \<in> set is. kgni_cdm_array k ! j \<noteq> Some a" and "\<forall>j \<in> set is. j < 2 ^ 32 - 1"
  shows "create_loop a p ck i is k = Some (GNI_RC_SUCCESS,
    case List.find (\<lambda>j. kgni_cdm_array k ! j = None) is of None \<Rightarrow> k | Some j \<Rightarrow> add_cdm a j new k)"
  using assms(3-6)
proof (induction "is")
  case (Cons j js)
  then have j: "j < length (kgni_cdm_array k)" "j < 2 ^ 32 - 1" by (simp_all add: other_key_def)
  show ?case
  proof (cases "kgni_cdm_array k ! j")
    case (Some d)
    with Cons new show ?thesis by (auto simp: other_key_def)
  next
    case None
    let ?k = "add_cdm a j new k"
    have id: "(of_nat j :: u32) \<noteq> GNI_CDM_INVALID_ID"
    proof
      assume "(of_nat j :: u32) = - 1"
      then have "unat (of_nat j :: u32) = unat (- 1 :: u32)" by simp
      with j(2) show False by (simp add: unsigned_of_nat take_bit_nat_eq_self unsigned_minus_1_eq_mask mask_eq_exp_minus_1)
    qed
    have upd: "upd_cdm a (\<lambda>c. c\<lparr>cdm_my_id := of_nat j\<rparr>) (k\<lparr>kgni_cdm_array := (kgni_cdm_array k)[j := Some a]\<rparr>) = ?k"
      using new by (simp add: upd_cdm_def add_cdm_def)
    have "other_key p ck i ?k x" if x: "x \<in> set js" for x
    proof -
      from Cons.prems(2) x have "x \<noteq> j" by auto
      moreover from Cons.prems x have "other_key p ck i k x" "kgni_cdm_array k ! x \<noteq> Some a" by auto
      ultimately show ?thesis by (auto simp: other_key_def add_cdm_def)
    qed
    with id have "create_loop a p ck i js ?k = Some (GNI_RC_SUCCESS, ?k)"
      by (intro create_loop_rest[where new = "new\<lparr>cdm_my_id := of_nat j\<rparr>"]) (simp_all add: add_cdm_def)
    with None j new upd show ?thesis by simp
  qed
qed simp

text \<open>There is room for another domain.\<close>

definition tab_room :: "kgni \<Rightarrow> bool" where
  "tab_room k \<longleftrightarrow> None \<in> set (kgni_cdm_array k)"

lemma gni_cdm_create_new:
  assumes t: "tab_ok (kgni_cdm_array k) (cdms k)" and len: "length (kgni_cdm_array k) = KGNI_MAX_CDM_NUMBER env" "KGNI_MAX_CDM_NUMBER env < 2 ^ 32 - 1"
    and a: "cdms k a = None" and new: "cdm_abs k (p, ck, i) = None" and room: "tab_room k"
  obtains j where "j < length (kgni_cdm_array k)" "kgni_cdm_array k ! j = None"
    "gni_cdm_create env (Some a) i p ck modes True k = Some (GNI_RC_SUCCESS, Some a, add_cdm a j (new_cdm i p ck modes) k)"
proof -
  let ?new = "new_cdm i p ck modes" and ?is = "[0..<KGNI_MAX_CDM_NUMBER env]"
  let ?k = "k\<lparr>cdms := (cdms k)(a \<mapsto> ?new)\<rparr>"
  have na: "kgni_cdm_array k ! j \<noteq> Some a" if "j < length (kgni_cdm_array k)" for j
    using tab_okD(1)[OF t that] a by auto
  have ok: "other_key p ck i ?k j" if j: "j < length (kgni_cdm_array k)" for j
    unfolding other_key_def
  proof (intro conjI allI impI)
    fix d assume d: "kgni_cdm_array ?k ! j = Some d"
    with tab_okD(1)[OF t j] obtain c where c: "cdms k d = Some c" by auto
    moreover have "\<not> cdm_match p ck i c" using new cdm_abs_iff[OF t, of p ck i d] c by auto
    ultimately show "\<exists>c. cdms ?k d = Some c \<and> \<not> cdm_match p ck i c" using a by auto
  qed (use j in simp)
  obtain j where j: "List.find (\<lambda>j. kgni_cdm_array k ! j = None) ?is = Some j"
    using room len(1) by (cases "List.find (\<lambda>j. kgni_cdm_array k ! j = None) ?is") (auto simp: tab_room_def in_set_conv_nth List.find_None_iff)
  then have jl: "j < length (kgni_cdm_array k)" "kgni_cdm_array k ! j = None"
    using len(1) by (auto simp: List.find_Some_iff)
  have "create_loop a p ck i ?is ?k = Some (GNI_RC_SUCCESS, add_cdm a j ?new ?k)"
    using create_loop_new[of ?k a ?new ?is p ck i] ok na len j by (simp add: new_cdm_def)
  then have "gni_cdm_create env (Some a) i p ck modes True k = Some (GNI_RC_SUCCESS, Some a, add_cdm a j ?new k)"
    by (simp add: gni_cdm_create_def add_cdm_def)
  with jl show thesis by (rule that)
qed

lemma new_cdm_sel [simp]:
  "cdm_type_id (new_cdm i p ck m) = GNI_TYPE_CDM_HANDLE" "cdm_nic_hndls (new_cdm i p ck m) = replicate GNI_MAX_NICS_ATTACHED None"
  "cdm_inst_id (new_cdm i p ck m) = i" "cdm_cookie (new_cdm i p ck m) = ck" "cdm_ptag (new_cdm i p ck m) = p"
  "cdm_sessions (new_cdm i p ck m) = []"
  by (simp_all add: new_cdm_def)

lemma tab_ok_add:
  assumes t: "tab_ok (kgni_cdm_array k) (cdms k)" and a: "cdms k a = None" and new: "cdm_abs k (p, ck, i) = None"
    and j: "j < length (kgni_cdm_array k)" "kgni_cdm_array k ! j = None" "j < 2 ^ 32"
  shows "tab_ok (kgni_cdm_array (add_cdm a j (new_cdm i p ck modes) k)) (cdms (add_cdm a j (new_cdm i p ck modes) k))"
proof -
  let ?new = "(new_cdm i p ck modes)\<lparr>cdm_my_id := of_nat j\<rparr>"
  let ?arr = "(kgni_cdm_array k)[j := Some a]" and ?cd = "(cdms k)(a \<mapsto> ?new)"
  have uj: "unat (of_nat j :: u32) = j" using j(3) by (simp add: unsigned_of_nat take_bit_nat_eq_self)
  have nomatch: "\<not> cdm_match p ck i c" if "cdms k d = Some c" for d c
    using new cdm_abs_iff[OF t, of p ck i d] that by auto
  have "tab_ok ?arr ?cd"
    unfolding tab_ok_def
  proof (intro conjI allI impI)
    fix l d assume h: "l < length ?arr" "?arr ! l = Some d"
    show "\<exists>c. ?cd d = Some c \<and> unat (cdm_my_id c) = l"
    proof (cases "l = j")
      case True
      with h uj j(1) show ?thesis by auto
    next
      case False
      with h tab_okD(1)[OF t, of l d] a show ?thesis by auto
    qed
  next
    fix d c assume h: "?cd d = Some c"
    show "cdm_type_id c = GNI_TYPE_CDM_HANDLE" "length (cdm_nic_hndls c) = GNI_MAX_NICS_ATTACHED"
      using h tab_okD(2,3)[OF t] by (auto split: if_splits)
    show "unat (cdm_my_id c) < length ?arr" using h tab_okD(4)[OF t] uj j(1) by (auto split: if_splits)
    have "unat (cdm_my_id c) \<noteq> j" if "cdms k d = Some c" using tab_okD(5)[OF t that] j(2) by auto
    then show "?arr ! unat (cdm_my_id c) = Some d" using h tab_okD(5)[OF t] uj j(1) by (cases "d = a") auto
  next
    fix d c d' c' assume h: "?cd d = Some c" "?cd d' = Some c'" "cdm_match (cdm_ptag c) (cdm_cookie c) (cdm_inst_id c) c'"
    have "cdm_match p ck i c'" if "d = a" using h(1,3) that by auto
    moreover have "cdm_match p ck i c" if "d' = a" using h(2,3) that by (auto simp: cdm_match_def)
    ultimately show "d = d'" using h nomatch tab_okD(6)[OF t] by (metis fun_upd_apply)
  qed
  then show ?thesis by (simp add: add_cdm_def)
qed

lemma att_inv_add_cdm:
  assumes inv: "att_inv env s" and a: "cdms (sy_k s) a = None" and new: "cdm_abs (sy_k s) (p, ck, i) = None"
    and j: "j < length (kgni_cdm_array (sy_k s))" "kgni_cdm_array (sy_k s) ! j = None"
  shows "att_inv env (s\<lparr>sy_k := add_cdm a j (new_cdm i p ck modes) (sy_k s)\<rparr>)" (is "att_inv env (s\<lparr>sy_k := ?k\<rparr>)")
proof -
  have j32: "j < 2 ^ 32" using j(1) att_invD(6,7)[OF inv] by simp
  have sel: "kgni_cdm_array ?k = (kgni_cdm_array (sy_k s))[j := Some a]"
    "cdms ?k = (cdms (sy_k s))(a \<mapsto> (new_cdm i p ck modes)\<lparr>cdm_my_id := of_nat j\<rparr>)" "nics ?k = nics (sy_k s)" "sms ?k = sms (sy_k s)"
    "chnls ?k = chnls (sy_k s)" "kgni_sm_list ?k = kgni_sm_list (sy_k s)" by (simp_all add: add_cdm_def)
  have "sm_inv env ?k"
  proof (rule sm_inv_frame[OF att_invD(1)[OF inv]])
    have "inv_cdm env (kgni_cdm_array (sy_k s)) (cdms (sy_k s)) (nics (sy_k s))" using att_invD(1)[OF inv] by (simp add: sm_inv_def)
    with j(1) show "inv_cdm env (kgni_cdm_array ?k) (cdms ?k) (nics ?k)"
      by (auto simp: inv_cdm_def sel nth_list_update)
  next
    fix b m nic d assume h: "sms (sy_k s) b = Some m" "nics (sy_k s) (sm_nic_hndl m) = Some nic"
      "kgni_cdm_array (sy_k s) ! unat (nic_cdm_id nic) = Some d"
    then have "unat (nic_cdm_id nic) \<noteq> j" using j(2) by auto
    with h show "\<exists>nic'. nics ?k (sm_nic_hndl m) = Some nic' \<and> nic_cdm_id nic' = nic_cdm_id nic \<and>
        kgni_cdm_array ?k ! unat (nic_cdm_id nic) = Some d" by (simp add: sel)
  next
    fix d c' assume "cdms ?k d = Some c'"
    then show "cdm_sessions c' = [] \<or> (\<exists>c. cdms (sy_k s) d = Some c \<and> cdm_sessions c = cdm_sessions c')"
      by (cases "d = a") (auto simp: sel)
  qed (use a in \<open>auto simp: sel same_sm_def\<close>)
  moreover have "att_ok (cdms ?k) (nics ?k)"
  proof (rule att_okI)
    fix d c l n assume h: "cdms ?k d = Some c" "l < length (cdm_nic_hndls c)" "cdm_nic_hndls c ! l = Some n"
    then have "d \<noteq> a" by (auto simp: sel)
    with h att_okD(1)[OF att_invD(3)[OF inv]] show "\<exists>nic. nics ?k n = Some nic \<and> nic_cdm_id nic = cdm_my_id c \<and> unat (nic_my_id nic) = l"
      by (simp add: sel)
  next
    fix n nic assume h: "nics ?k n = Some nic" "nic_cdm_id nic \<noteq> GNI_CDM_INVALID_ID"
    from att_okD(2)[OF att_invD(3)[OF inv] h(1)[unfolded sel] h(2)] obtain d c where "cdms (sy_k s) d = Some c" "cdm_my_id c = nic_cdm_id nic"
      "unat (nic_my_id nic) < length (cdm_nic_hndls c)" "cdm_nic_hndls c ! unat (nic_my_id nic) = Some n" by blast
    moreover from this(1) a have "d \<noteq> a" by auto
    ultimately show "\<exists>d c. cdms ?k d = Some c \<and> cdm_my_id c = nic_cdm_id nic \<and> unat (nic_my_id nic) < length (cdm_nic_hndls c) \<and>
        cdm_nic_hndls c ! unat (nic_my_id nic) = Some n" by (auto simp: sel intro!: exI[of _ d])
  qed (use att_okD(3)[OF att_invD(3)[OF inv]] in \<open>simp add: sel\<close>)
  ultimately show ?thesis
    using inv tab_ok_add[OF att_invD(2)[OF inv] a new j j32, of modes] unfolding att_inv_def rs_of_def by (simp add: sel)
qed

text \<open>What the operations on the table do to the abstract table.\<close>

lemma cdm_abs_eqI:
  assumes "tab_ok (kgni_cdm_array k) (cdms k)"
    and "\<And>p ck i d. m (p, ck, i) = Some d \<longleftrightarrow> (\<exists>c. cdms k d = Some c \<and> cdm_match p ck i c)"
  shows "cdm_abs k = m"
proof (rule ext)
  fix x :: "u8 \<times> u32 \<times> u32"
  obtain p ck i where x: "x = (p, ck, i)" by (cases x)
  have "cdm_abs k x = Some d \<longleftrightarrow> m x = Some d" for d using cdm_abs_iff[OF assms(1)] assms(2) x by simp
  then show "cdm_abs k x = m x" by (metis not_None_eq)
qed

lemma cdm_abs_add:
  assumes "tab_ok (kgni_cdm_array k) (cdms k)" and "cdms k a = None" and "cdm_abs k (p, ck, i) = None"
    and "j < length (kgni_cdm_array k)" "kgni_cdm_array k ! j = None" "j < 2 ^ 32"
  shows "cdm_abs (add_cdm a j (new_cdm i p ck modes) k) = (cdm_abs k)((p, ck, i) \<mapsto> a)"
proof (rule cdm_abs_eqI[OF tab_ok_add[OF assms]])
  fix p' ck' i' d
  show "((cdm_abs k)((p, ck, i) \<mapsto> a)) (p', ck', i') = Some d \<longleftrightarrow>
    (\<exists>c. cdms (add_cdm a j (new_cdm i p ck modes) k) d = Some c \<and> cdm_match p' ck' i' c)"
    using assms(2,3) cdm_abs_iff[OF assms(1), of p' ck' i' d] by (auto simp: add_cdm_def cdm_match_def)
qed

end
