(* ===== verification/Cdm_Stages.thy ===== *)
theory Cdm_Stages
  imports Cdm_Inv Umap
begin

text \<open>
  The stages of a user attach (the job, the shared pages, the channel) and the labels of its error path, each shown not to
  fault, to keep the invariant, and to change only the NIC, its channel and its job.
\<close>

section \<open>Pages and address spaces\<close>

lemma page_ok_mm:
  assumes ok: "page_ok ni m" and own: "\<And>x. own x m' \<subseteq> own x m"
    and live: "\<And>n nic u. ni' n = Some nic \<Longrightarrow> u \<in> pages nic \<Longrightarrow> umap_descs m u \<noteq> None \<Longrightarrow> umap_descs m' u \<noteq> None"
    and ni: "\<And>n nic'. ni' n = Some nic' \<Longrightarrow> \<exists>nic. ni n = Some nic \<and> (nic' = nic \<or> pages nic' = {} \<or>
      pages nic' \<subseteq> pages nic \<and> nic_mm nic' = nic_mm nic \<and> (nic_rw_page_desc nic' = None \<or> nic_cq_interrupt_mask_desc nic' = None))"
  shows "page_ok ni' m'"
  unfolding page_ok_def
proof (intro conjI allI impI)
  fix n nic' u assume h: "ni' n = Some nic'" "u \<in> pages nic'"
  with ni obtain nic where nic: "ni n = Some nic" "u \<in> pages nic" "nic_mm nic' = nic_mm nic" by fastforce
  note d = page_okD[OF ok nic(1,2)]
  show "nic_mm nic' \<noteq> None" using d(1) nic(3) by simp
  show "umap_descs m' u \<noteq> None" using live[OF h d(2)] .
  fix n' assume n': "n' \<noteq> n"
  with d(3) own show "u \<notin> own n' m'" by blast
  fix nic2 assume "ni' n' = Some nic2"
  with ni[of n' nic2] d(4)[OF n'] show "u \<notin> pages nic2" by blast
next
  fix n nic' u assume h: "ni' n = Some nic'" "nic_rw_page_desc nic' = Some u"
  then have "pages nic' \<noteq> {}" by (simp add: pages_def)
  with h ni ok show "nic_cq_interrupt_mask_desc nic' \<noteq> Some u" unfolding page_ok_def by (metis option.distinct(1))
qed

lemma unmap_area_ok:
  assumes "umap_descs m u \<noteq> None"
  shows "\<exists>m'. kgni_unmap_area mm u m = Some m' \<and> umap_descs m' = (umap_descs m)(u := None) \<and> (\<forall>x. own x m' \<subseteq> own x m)"
proof -
  from assms obtain r where r: "umap_descs m u = Some r" by blast
  let ?m = "if mm_users m mm > 0 then do_munmap mm (ud_address r) (ud_size r) m else m"
  have "own x (umap_unlink u m1) \<subseteq> own x m1" for x m1
    by (auto simp: own_def umap_unlink_def dest: notin_set_remove1 set_remove1_subset[THEN subsetD])
  moreover have "own x ?m = own x m" "own x (m1\<lparr>umap_descs := f\<rparr>) = own x m1" for x f and m1 :: mm_state
    by (simp_all add: own_def do_munmap_def)
  ultimately have "own x ((umap_unlink u ?m)\<lparr>umap_descs := f\<rparr>) \<subseteq> own x m" for x f by metis
  moreover have "kgni_unmap_area mm u m = Some ((umap_unlink u ?m)\<lparr>umap_descs := (umap_descs m)(u := None)\<rparr>)"
    using r by (simp add: kgni_unmap_area_def kgni_unmap_area_locked_def Let_def umap_unlink_def do_munmap_def)
  ultimately show ?thesis by simp
qed

lemma child_add_own:
  "child_add cur u cs = Some cs' \<Longrightarrow> c \<in> set cs' \<Longrightarrow> x \<in> set (ch_umap_list c) \<Longrightarrow> x = u \<or> (\<exists>c \<in> set cs. x \<in> set (ch_umap_list c))"
proof (induction cs arbitrary: cs')
  case (Cons c' cs)
  show ?case
  proof (cases "cur = ch_mm c'")
    case False
    with Cons.prems obtain cs2 where "child_add cur u cs = Some cs2" "cs' = c' # cs2" by auto
    with Cons.IH[OF this(1)] Cons.prems show ?thesis by auto
  qed (use Cons.prems in auto)
qed simp

lemma umap_area_effect:
  assumes "kgni_umap_area ue cur n nic adr sz fl ram m = (e, out, m')"
  shows "(out = None \<and> umap_descs m' = umap_descs m \<and> (\<forall>x. own x m' = own x m)) \<or>
    (\<exists>u r. e = 0 \<and> out = Some u \<and> desc_mem ue = Some u \<and> nic_mm nic \<noteq> None \<and> umap_descs m' = (umap_descs m)(u \<mapsto> r) \<and>
       own n m' \<subseteq> insert u (own n m) \<and> (\<forall>x. x \<noteq> n \<longrightarrow> own x m' = own x m))"
proof -
  have own: "own x (do_munmap a b c m1) = own x m1" "own x (map_region a r m1) = own x m1" "own x (m1\<lparr>umap_descs := f\<rparr>) = own x m1"
    for x a b c r f and m1 :: mm_state by (simp_all add: own_def do_munmap_def map_region_def)
  have desc: "umap_descs (do_munmap a b c m1) = umap_descs m1" for a b c m1 by (simp add: do_munmap_def)
  have rec: "own n m2 \<subseteq> insert u (own n m1)" "x \<noteq> n \<Longrightarrow> own x m2 = own x m1" if "umap_record cur mm n u m1 = Some m2" for x mm u m1 m2
    using that by (auto simp: umap_record_def own_def split: if_splits dest: child_add_own)
  consider (err) "e \<noteq> 0 \<or> (\<exists>x. do_mmap_pgoff ue = Inl x)" | (fine) win where "e = 0" "do_mmap_pgoff ue = Inr win"
    by (cases "do_mmap_pgoff ue") auto
  then show ?thesis
  proof cases
    case err
    with assms show ?thesis
      by (auto simp: kgni_umap_area_def Let_def own desc split: sum.split_asm option.split_asm if_split_asm prod.split_asm)
  next
    case fine
    from umap_area_success[OF assms[unfolded fine(1)] fine(2)] obtain u mm where u: "out = Some u" "desc_mem ue = Some u" "nic_mm nic = Some mm"
      "umap_record cur mm n u ((map_region cur (new_region ue win adr sz fl ram) m)
         \<lparr>umap_descs := (umap_descs m)(u \<mapsto> \<lparr>ud_address = win, ud_size = sz\<rparr>)\<rparr>) = Some m'" by blast
    from rec[OF u(4)] umap_record_sel(2)[OF u(4)] u(1-3) fine(1) show ?thesis by (auto simp: own)
  qed
qed

section \<open>Steps of an attach\<close>

text \<open>What the code outside the repository is assumed to do to the address spaces: \<open>kgni_mm_init\<close> and \<open>kgni_mm_fini\<close> set
  the address space of the NIC, and the latter removes mappings on the lists of this NIC only.\<close>

definition mm_env_ok :: "att_env \<Rightarrow> bool" where
  "mm_env_ok ae \<longleftrightarrow> (\<forall>nic. \<exists>e mm. kgni_mm_init ae nic = (e, nic\<lparr>nic_mm := mm\<rparr>)) \<and>
     (\<forall>n nic m. \<exists>mm m'. kgni_mm_fini ae n (nic, m) = (nic\<lparr>nic_mm := mm\<rparr>, m') \<and> (\<forall>x. own x m' \<subseteq> own x m) \<and>
        (\<forall>u. umap_descs m u \<noteq> None \<longrightarrow> u \<notin> own n m \<longrightarrow> umap_descs m' u \<noteq> None))"

lemma mm_finiE:
  assumes "mm_env_ok ae"
  obtains mm m' where "kgni_mm_fini ae n (nic, m) = (nic\<lparr>nic_mm := mm\<rparr>, m')" "\<And>x. own x m' \<subseteq> own x m"
    "\<And>u. umap_descs m u \<noteq> None \<Longrightarrow> u \<notin> own n m \<Longrightarrow> umap_descs m' u \<noteq> None"
  using assms unfolding mm_env_ok_def by metis

lemma mm_fini_safe:
  assumes inv: "att_inv env s" and nic: "nics (sy_k s) n = Some nic" "pages nic = {}" and env: "mm_env_ok ae"
  shows "\<exists>mm s'. mm_fini ae n s = Some s' \<and> att_inv env s' \<and> sy_k s' = upd_nic n (\<lambda>x. x\<lparr>nic_mm := mm\<rparr>) (sy_k s) \<and>
    sy_dev s' = sy_dev s"
proof -
  obtain mm m' where m: "kgni_mm_fini ae n (nic, sy_mm s) = (nic\<lparr>nic_mm := mm\<rparr>, m')" "\<And>x. own x m' \<subseteq> own x (sy_mm s)"
    "\<And>u. umap_descs (sy_mm s) u \<noteq> None \<Longrightarrow> u \<notin> own n (sy_mm s) \<Longrightarrow> umap_descs m' u \<noteq> None"
    using mm_finiE[OF env] by metis
  let ?f = "\<lambda>x. x\<lparr>nic_mm := mm\<rparr>" and ?ni = "(nics (sy_k s))(n \<mapsto> nic\<lparr>nic_mm := mm\<rparr>)"
  have np: "pages (nic\<lparr>nic_mm := mm\<rparr>) = {}" using nic(2) by (simp add: pages_def)
  have pg: "page_ok ?ni m'"
  proof (rule page_ok_mm[OF att_invD(5)[OF inv] m(2)])
    fix x k u assume h: "?ni x = Some k" "u \<in> pages k" "umap_descs (sy_mm s) u \<noteq> None"
    with np have x: "x \<noteq> n" "nics (sy_k s) x = Some k" by (auto split: if_splits)
    from m(3)[OF h(3)] page_okD(3)[OF att_invD(5)[OF inv] x(2) h(2), of n] x(1) show "umap_descs m' u \<noteq> None" by blast
  next
    fix x k assume "?ni x = Some k"
    with nic np show "\<exists>nic. nics (sy_k s) x = Some nic \<and> (k = nic \<or> pages k = {} \<or>
      pages k \<subseteq> pages nic \<and> nic_mm k = nic_mm nic \<and> (nic_rw_page_desc k = None \<or> nic_cq_interrupt_mask_desc k = None))"
      by (cases "x = n") auto
  qed
  have "att_inv env (sys_nic n ?f (s\<lparr>sy_dev := sy_dev s, sy_mm := m'\<rparr>))"
    by (rule att_inv_upd[where f = ?f, OF inv nic(1) _ rs_inv_nic[OF inv nic(1)] pg]) (simp_all add: same_att_def)
  moreover have "upd_nic n (\<lambda>_. nic\<lparr>nic_mm := mm\<rparr>) (sy_k s) = upd_nic n ?f (sy_k s)" using nic(1) by (simp add: upd_nic_def)
  ultimately show ?thesis
    using m(1) nic(1) by (intro exI[of _ mm]) (simp add: mm_fini_def sys_nic_def)
qed

text \<open>Unmapping one of the two pages.\<close>

lemma unmap_page_safe:
  assumes inv: "att_inv env s" and nic: "nics (sy_k s) n = Some nic" "u \<in> pages nic"
    and f: "same_att nic (f nic)" "nic_ptag (f nic) = nic_ptag nic" "nic_mm (f nic) = nic_mm nic" "pages (f nic) \<subseteq> pages nic - {u}"
      "nic_rw_page_desc (f nic) = None \<or> nic_cq_interrupt_mask_desc (f nic) = None"
  shows "\<exists>m'. kgni_unmap_area mm u (sy_mm s) = Some m' \<and> att_inv env (sys_nic n f (s\<lparr>sy_mm := m'\<rparr>))"
proof -
  from unmap_area_ok[OF page_okD(2)[OF att_invD(5)[OF inv] nic], of mm] obtain m' where
    m: "kgni_unmap_area mm u (sy_mm s) = Some m'" "umap_descs m' = (umap_descs (sy_mm s))(u := None)" "\<And>x. own x m' \<subseteq> own x (sy_mm s)" by blast
  let ?ni = "(nics (sy_k s))(n \<mapsto> f nic)"
  have "page_ok ?ni m'"
  proof (rule page_ok_mm[OF att_invD(5)[OF inv] m(3)])
    fix x k v assume h: "?ni x = Some k" "v \<in> pages k" "umap_descs (sy_mm s) v \<noteq> None"
    have "v \<noteq> u"
    proof (cases "x = n")
      case True
      with h f(4) show ?thesis by auto
    next
      case False
      with h page_okD(4)[OF att_invD(5)[OF inv] nic False, of k] show ?thesis by auto
    qed
    with h m(2) show "umap_descs m' v \<noteq> None" by simp
  next
    fix x k assume "?ni x = Some k"
    with nic(1) f(3-5) show "\<exists>nic. nics (sy_k s) x = Some nic \<and> (k = nic \<or> pages k = {} \<or>
      pages k \<subseteq> pages nic \<and> nic_mm k = nic_mm nic \<and> (nic_rw_page_desc k = None \<or> nic_cq_interrupt_mask_desc k = None))"
      by (cases "x = n") auto
  qed
  from att_inv_upd[where f = f, OF inv nic(1) f(1) rs_inv_nic[OF inv nic(1) f(2)] this] m(1) show ?thesis by auto
qed

text \<open>Mapping a page: a new descriptor is on no list, and becomes a page of the NIC.\<close>

definition desc_fresh :: "umap_env \<Rightarrow> mm_state \<Rightarrow> bool" where
  "desc_fresh ue m \<longleftrightarrow> (\<forall>u. desc_mem ue = Some u \<longrightarrow> umap_descs m u = None \<and> (\<forall>x. u \<notin> own x m))"

lemma page_ok_map:
  assumes ok: "page_ok ni m" and nic: "ni n = Some nic" and um: "kgni_umap_area ue cur n nic adr sz fl ram m = (e, out, m')"
    and fr: "desc_fresh ue m"
    and nic': "nic_mm nic' = nic_mm nic" "pages nic' \<subseteq> pages nic \<union> set_option out"
      "\<And>u. nic_rw_page_desc nic' = Some u \<Longrightarrow> nic_cq_interrupt_mask_desc nic' \<noteq> Some u"
  shows "page_ok (ni(n \<mapsto> nic')) m'"
proof -
  note eff = umap_area_effect[OF um]
  have live: "umap_descs m' u \<noteq> None" if "umap_descs m u \<noteq> None" for u using eff that by auto
  have old: "u \<notin> own x m'" if x: "umap_descs m u \<noteq> None" "u \<notin> own x m" for u x
    using eff fr x by (cases "x = n") (auto simp: desc_fresh_def)
  have out: "nic_mm nic \<noteq> None \<and> umap_descs m' u \<noteq> None \<and> umap_descs m u = None \<and> (\<forall>x. x \<noteq> n \<longrightarrow> u \<notin> own x m')" if "out = Some u" for u
    using eff fr that by (auto simp: desc_fresh_def)
  have pg: "u \<in> pages nic \<or> out = Some u" if "u \<in> pages nic'" for u using nic'(2) that by (cases out) auto
  show ?thesis
    unfolding page_ok_def
  proof (intro conjI allI impI)
    fix x k u assume h: "(ni(n \<mapsto> nic')) x = Some k" "u \<in> pages k"
    show "nic_mm k \<noteq> None" "umap_descs m' u \<noteq> None"
      using h pg[of u] nic'(1) page_okD(1,2)[OF ok nic, of u] page_okD(1,2)[OF ok, of x k u] live out[of u]
      by (cases "x = n"; auto)+
    fix y assume y: "y \<noteq> x"
    show "u \<notin> own y m'"
      using h y pg[of u] page_okD(2,3)[OF ok nic, of u] page_okD(2)[OF ok, of x k u] page_okD(3)[OF ok, of x k u y] old out[of u]
      by (cases "x = n"; auto)
    fix l assume l: "(ni(n \<mapsto> nic')) y = Some l"
    show "u \<notin> pages l"
    proof
      assume ul: "u \<in> pages l"
      have no: "\<not> (v \<in> pages nic' \<and> v \<in> pages k')" if "z \<noteq> n" "ni z = Some k'" for v z k'
        using that pg[of v] page_okD(4)[OF ok nic, of v z k'] page_okD(2)[OF ok that(2), of v] out[of v] by auto
      show False
        using h y l ul no[of x k u] no[of y l u] page_okD(4)[OF ok, of x k u y l] by (cases "x = n"; cases "y = n"; auto)
    qed
  next
    fix x k u assume "(ni(n \<mapsto> nic')) x = Some k" "nic_rw_page_desc k = Some u"
    with nic'(3) ok show "nic_cq_interrupt_mask_desc k \<noteq> Some u" unfolding page_ok_def by (cases "x = n") auto
  qed
qed

text \<open>What a NIC keeps in the stages of an attach.\<close>

definition keeps :: "gni_nic \<Rightarrow> gni_nic \<Rightarrow> bool" where
  "keeps nic nic' \<longleftrightarrow> same_att nic nic' \<and> nic_cdm_type nic' = nic_cdm_type nic \<and> nic_pe nic' = nic_pe nic \<and>
     nic_qsce_func nic' = nic_qsce_func nic \<and>
     nic_rw_page_desc nic' = nic_rw_page_desc nic \<and> nic_cq_interrupt_mask_desc nic' = nic_cq_interrupt_mask_desc nic"

lemma keeps_trans: "keeps a b \<Longrightarrow> keeps b c \<Longrightarrow> keeps a c"
  by (simp add: keeps_def same_att_def)

lemma keeps_pages: "keeps nic nic' \<Longrightarrow> pages nic' = pages nic"
  by (simp add: keeps_def pages_def)

lemma incref_nic:
  assumes "kgni_resource_incref env mem b ptag nic dev = Some (e, nic', dev')"
  shows "keeps nic nic' \<and> nic_mm nic' = nic_mm nic \<and> nic_cdm_hndl nic' = nic_cdm_hndl nic"
  using assms
  by (auto simp: kgni_resource_incref_def Let_def take_ref_def keeps_def same_att_def split: option.split_asm if_split_asm Option.bind_split_asm)

lemma incref_release:
  assumes inv: "rs_inv s" and "kgni_resource_incref env mem (\<lambda>d. d) ptag nic (rs_dev s) = Some (0, nic', dev')"
  shows "may_release nic' dev'"
proof (cases "resources (rs_dev s) (unat ptag)")
  case None
  with assms(2) show ?thesis
    by (auto simp: kgni_resource_incref_def Let_def may_release_def new_rsrc_def kgni_job_resources_init_def kgni_alloc_rsrc_info_def
        split: option.split_asm if_split_asm)
next
  case (Some r)
  have "ri_ref_cnt r \<ge> 1"
  proof -
    have h: "ri_ref_cnt r = int (card (holders (rs_nics s) (unat ptag)))" "holders (rs_nics s) (unat ptag) \<noteq> {}"
      and f: "finite (holders (rs_nics s) (unat ptag))"
      using inv Some rsrc_inv_finite unfolding rs_inv_def rsrc_inv_def by blast+
    from h(2) f have "card (holders (rs_nics s) (unat ptag)) \<noteq> 0" by simp
    with h(1) show ?thesis by simp
  qed
  with Some assms(2) show ?thesis
    by (auto simp: kgni_resource_incref_def Let_def may_release_def take_ref_def dev_upd
        split: option.split_asm if_split_asm Option.bind_split_asm)
qed

text \<open>The parts of the driver that an attach of NIC \<open>n\<close> does not touch.\<close>

definition frame :: "addr \<Rightarrow> sys \<Rightarrow> sys \<Rightarrow> bool" where
  "frame n s s' \<longleftrightarrow> (\<exists>x ch. sy_k s' = (sy_k s)\<lparr>nics := (nics (sy_k s))(n := x), chnls := ch\<rparr>) \<and>
     sy_flsh s' = sy_flsh s \<and> qsce_list s' = qsce_list s \<and> files s' = files s"

lemma frame_refl: "frame n s s"
  unfolding frame_def by (intro conjI exI[of _ "nics (sy_k s) n"] exI[of _ "chnls (sy_k s)"]) simp_all

lemma frame_trans:
  assumes "frame n s s'" and "frame n s' s''"
  shows "frame n s s''"
proof -
  from assms obtain x ch y ch' where "sy_k s' = (sy_k s)\<lparr>nics := (nics (sy_k s))(n := x), chnls := ch\<rparr>"
    "sy_k s'' = (sy_k s')\<lparr>nics := (nics (sy_k s'))(n := y), chnls := ch'\<rparr>" unfolding frame_def by blast
  then have "sy_k s'' = (sy_k s)\<lparr>nics := (nics (sy_k s))(n := y), chnls := ch'\<rparr>" by simp
  with assms show ?thesis unfolding frame_def by metis
qed

lemma frame_k:
  assumes "frame n s s'"
  shows "cdms (sy_k s') = cdms (sy_k s)" "sms (sy_k s') = sms (sy_k s)" "kgni_cdm_array (sy_k s') = kgni_cdm_array (sy_k s)"
    "kgni_sm_list (sy_k s') = kgni_sm_list (sy_k s)" "x \<noteq> n \<Longrightarrow> nics (sy_k s') x = nics (sy_k s) x"
  using assms unfolding frame_def by auto

lemma frame_sys_nic: "frame n s (sys_nic n f (s\<lparr>sy_dev := dev, sy_mm := m\<rparr>))"
  unfolding frame_def by (intro conjI exI[of _ "map_option f (nics (sy_k s) n)"] exI[of _ "chnls (sy_k s)"]) (simp_all add: upd_nic_def)

lemma frame_sys_nic_only: "frame n s (sys_nic n f s)"
  using frame_sys_nic[where s = s and dev = "sy_dev s" and m = "sy_mm s"] by simp

lemma frame_ext [simp]: "frame n s (ext c s') = frame n s s'" "frame n (ext c s) s' = frame n s s'"
  by (simp_all add: frame_def)

text \<open>The first stage: the job and the address space.\<close>

lemma attach_job_ok:
  assumes inv: "att_inv env s" and nic: "nics (sy_k s) n = Some nic" "nic_ptag nic = 0" "pages nic = {}"
    and ptag: "(ucast (sa_ptag at) :: u8) \<noteq> 0" and env: "mm_env_ok ae"
  shows "\<exists>x s' nic'. attach_job ae at n s = Some (x, s') \<and> att_inv env s' \<and> frame n s s' \<and> chnls (sy_k s') = chnls (sy_k s) \<and>
    sy_mm s' = sy_mm s \<and> nics (sy_k s') n = Some nic' \<and> keeps nic nic' \<and>
    (case x of None \<Rightarrow> may_release nic' (sy_dev s')
     | Some (e, l) \<Rightarrow> e \<noteq> 0 \<and> (l = incref_error \<and> nic_ptag nic' = 0 \<or> l = mm_error \<and> may_release nic' (sy_dev s')))"
proof -
  let ?nic = "nic\<lparr>nic_inst_id := sa_rank at, nic_cookie := sa_cookie at, nic_pkey := GNI_COOKIE_PKEY (sa_cookie at), nic_modes := sa_modes at\<rparr>"
  let ?rs = "\<lparr>rs_dev = sy_dev s, rs_nics = (nics (sy_k s))(n \<mapsto> ?nic)\<rparr>"
  have rs: "rs_inv ?rs" by (rule rs_inv_nic[OF inv nic(1)]) simp
  from kgni_resource_incref_safe[OF rs, of n ?nic "ucast (sa_ptag at)" "ae_rsrc ae" "rsrc_mem ae"] nic(2) ptag obtain e nic1 dev where
    i: "kgni_resource_incref (ae_rsrc ae) (rsrc_mem ae) (\<lambda>d. d) (ucast (sa_ptag at)) ?nic (sy_dev s) = Some (e, nic1, dev)"
    "rs_inv \<lparr>rs_dev = dev, rs_nics = (nics (sy_k s))(n \<mapsto> nic1)\<rparr>" "e \<noteq> 0 \<Longrightarrow> nic_ptag nic1 = 0"
    by (auto simp: ok_def put_def)
  have k1: "keeps nic nic1" "nic_mm nic1 = nic_mm nic" using incref_nic[OF i(1)] by (auto simp: keeps_def same_att_def)
  let ?s1 = "sys_nic n (\<lambda>_. nic1) (s\<lparr>sy_dev := dev, sy_mm := sy_mm s\<rparr>)"
  have inv1: "att_inv env ?s1"
    by (rule att_inv_upd[where f = "\<lambda>_. nic1", OF inv nic(1) _ i(2)])
      (use k1 nic page_ok_same[OF att_invD(5)[OF inv] nic(1)] in \<open>simp_all add: keeps_def\<close>)
  have n1: "nics (sy_k ?s1) n = Some nic1" using nic(1) by (simp add: upd_nic_def)
  have fr1: "frame n s ?s1" by (rule frame_sys_nic)
  show ?thesis
  proof (cases "e = 0")
    case False
    with inv1 fr1 n1 nic(1) i(1,3) k1 show ?thesis by (auto simp: attach_job_def Let_def)
  next
    case True
    have rel: "may_release nic1 dev" using incref_release[OF rs] i(1) True by simp
    obtain e2 mm where m: "kgni_mm_init ae nic1 = (e2, nic1\<lparr>nic_mm := mm\<rparr>)" using env unfolding mm_env_ok_def by blast
    let ?s2 = "sys_nic n (\<lambda>_. nic1\<lparr>nic_mm := mm\<rparr>) ?s1"
    have "att_inv env ?s2"
      by (rule att_inv_nic[OF inv1 n1]) (use k1 nic(3) keeps_pages[OF k1(1)] in \<open>simp_all add: same_att_def\<close>)
    moreover have "frame n s ?s2" using frame_trans[OF fr1 frame_sys_nic_only] .
    moreover have "nics (sy_k ?s2) n = Some (nic1\<lparr>nic_mm := mm\<rparr>)" using n1 by (simp add: upd_nic_def)
    moreover have "keeps nic (nic1\<lparr>nic_mm := mm\<rparr>)" "may_release (nic1\<lparr>nic_mm := mm\<rparr>) dev"
      using k1 rel by (simp_all add: keeps_def same_att_def may_release_def)
    ultimately show ?thesis using True i(1) m nic(1) by (auto simp: attach_job_def Let_def)
  qed
qed

text \<open>The second stage: the two shared pages. The error number of a failed mapping is not zero.\<close>

definition map_env_ok :: "att_env \<Rightarrow> mm_state \<Rightarrow> bool" where
  "map_env_ok ae m \<longleftrightarrow> do_mmap_pgoff (ae_umap_rw ae) \<noteq> Inl 0 \<and> do_mmap_pgoff (ae_umap_cq ae) \<noteq> Inl 0 \<and>
     desc_fresh (ae_umap_rw ae) m \<and> desc_fresh (ae_umap_cq ae) m \<and>
     (\<forall>u. desc_mem (ae_umap_rw ae) = Some u \<longrightarrow> desc_mem (ae_umap_cq ae) \<noteq> Some u)"

definition mapped :: "gni_nic \<Rightarrow> bool" where
  "mapped nic \<longleftrightarrow> (if nic_cdm_type nic = GNI_CDM_TYPE_KERNEL then pages nic = {}
     else nic_rw_page_desc nic \<noteq> None \<and> nic_cq_interrupt_mask_desc nic \<noteq> None)"

lemma umap_area_zero:
  assumes "kgni_umap_area ue cur n nic adr sz fl ram m = (0, out, m')" and "do_mmap_pgoff ue \<noteq> Inl 0"
  obtains u where "out = Some u"
proof (cases "do_mmap_pgoff ue")
  case (Inl x)
  with assms show thesis by (simp add: kgni_umap_area_def)
next
  case (Inr win)
  from umap_area_success[OF assms(1) this] show thesis using that by blast
qed

lemma attach_map_ok:
  assumes inv: "att_inv env s" and nic: "nics (sy_k s) n = Some nic" "nic_rw_page_desc nic = None" "nic_cq_interrupt_mask_desc nic = None"
    and env: "map_env_ok ae (sy_mm s)"
  shows "\<exists>x s' nic'. attach_map ae n s = Some (x, s') \<and> att_inv env s' \<and> frame n s s' \<and> chnls (sy_k s') = chnls (sy_k s) \<and>
    sy_dev s' = sy_dev s \<and> nics (sy_k s') n = Some nic' \<and> same_att nic nic' \<and> nic_ptag nic' = nic_ptag nic \<and>
    nic_cdm_type nic' = nic_cdm_type nic \<and> nic_pe nic' = nic_pe nic \<and> nic_qsce_func nic' = nic_qsce_func nic \<and>
    (case x of None \<Rightarrow> mapped nic'
     | Some (e, l) \<Rightarrow> e \<noteq> 0 \<and> nic_cq_interrupt_mask_desc nic' = None \<and> nic_cdm_type nic \<noteq> GNI_CDM_TYPE_KERNEL \<and>
         (l = rw_page_error \<and> nic_rw_page_desc nic' = None \<or> l = cq_interrupt_mask_page_error \<and> nic_rw_page_desc nic' \<noteq> None))"
proof (cases "nic_cdm_type nic = GNI_CDM_TYPE_KERNEL")
  case True
  with inv nic frame_refl[of n s] show ?thesis by (auto simp: attach_map_def mapped_def pages_def same_att_def)
next
  case user: False
  obtain e u m where um: "kgni_umap_area (ae_umap_rw ae) (ae_cur ae) n nic (rw_page_phys ae) (PAGE_SIZE ae) VM_WRITE True (sy_mm s) = (e, u, m)"
    by (cases "kgni_umap_area (ae_umap_rw ae) (ae_cur ae) n nic (rw_page_phys ae) (PAGE_SIZE ae) VM_WRITE True (sy_mm s)")
  have fresh: "desc_fresh (ae_umap_rw ae) (sy_mm s)" using env by (simp add: map_env_ok_def)
  have pg: "pages nic = {}" using nic by (simp add: pages_def)
  have page: "page_ok ((nics (sy_k s))(n \<mapsto> nic\<lparr>nic_rw_page_desc := w\<rparr>)) m" if "w = u \<or> w = None" for w
    by (rule page_ok_map[OF att_invD(5)[OF inv] nic(1) um fresh]) (use that nic in \<open>auto simp: pages_def\<close>)
  show ?thesis
  proof (cases "e = 0")
    case False
    let ?s1 = "sys_nic n (\<lambda>x. x\<lparr>nic_rw_page_desc := None\<rparr>) (s\<lparr>sy_dev := sy_dev s, sy_mm := m\<rparr>)"
    have i: "att_inv env ?s1"
      by (rule att_inv_upd[where f = "\<lambda>x. x\<lparr>nic_rw_page_desc := None\<rparr>", OF inv nic(1) _ rs_inv_nic[OF inv nic(1)] page])
        (simp_all add: same_att_def)
    have same: "upd_nic n (\<lambda>x. x\<lparr>nic_rw_page_desc := None\<rparr>) (sy_k s) = sy_k s" using nic by (simp add: upd_nic_def fun_upd_idem)
    have "?s1 = s\<lparr>sy_mm := m\<rparr>" unfolding sys_nic_def by (simp add: same)
    with i frame_sys_nic[of n s "\<lambda>x. x\<lparr>nic_rw_page_desc := None\<rparr>" "m" "sy_dev s"] user um False nic show ?thesis
      by (auto simp: attach_map_def Let_def same_att_def)
  next
    case True
    from umap_area_zero[OF um[unfolded True]] env obtain r where r: "u = Some r" unfolding map_env_ok_def by metis
    let ?f1 = "\<lambda>x. x\<lparr>nic_rw_page_desc := u\<rparr>"
    let ?s1 = "sys_nic n ?f1 (s\<lparr>sy_dev := sy_dev s, sy_mm := m\<rparr>)" and ?n1 = "nic\<lparr>nic_rw_page_desc := u\<rparr>"
    have i1: "att_inv env ?s1"
      by (rule att_inv_upd[where f = ?f1, OF inv nic(1) _ rs_inv_nic[OF inv nic(1)] page]) (simp_all add: same_att_def)
    have n1: "nics (sy_k ?s1) n = Some ?n1" using nic(1) by (simp add: upd_nic_def)
    have fr2: "desc_fresh (ae_umap_cq ae) m"
      using umap_area_effect[OF um] env unfolding map_env_ok_def desc_fresh_def by (metis fun_upd_other insertE subsetD)
    obtain e2 u2 m2 where um2: "kgni_umap_area (ae_umap_cq ae) (ae_cur ae) n ?n1 (cq_mask_phys ae) (KGNI_CQ_INTERRUPT_MASK_SIZE ae)
        VM_WRITE True m = (e2, u2, m2)"
      by (cases "kgni_umap_area (ae_umap_cq ae) (ae_cur ae) n ?n1 (cq_mask_phys ae) (KGNI_CQ_INTERRUPT_MASK_SIZE ae) VM_WRITE True m")
    have live: "umap_descs m r \<noteq> None" using umap_area_effect[OF um] r by auto
    have ne: "u2 \<noteq> Some r"
      using umap_area_effect[OF um2] fr2 live unfolding desc_fresh_def by auto
    let ?f2 = "\<lambda>w x. x\<lparr>nic_cq_interrupt_mask_desc := w\<rparr>"
    have page2: "page_ok ((nics (sy_k ?s1))(n \<mapsto> ?f2 w ?n1)) m2" if "w = u2 \<or> w = None" for w
      by (rule page_ok_map[OF att_invD(5)[OF i1] n1]) (use um2 fr2 that nic(3) ne r in \<open>auto simp: pages_def\<close>)
    have i2: "att_inv env (sys_nic n (?f2 w) (?s1\<lparr>sy_dev := sy_dev ?s1, sy_mm := m2\<rparr>))" if "w = u2 \<or> w = None" for w
      by (rule att_inv_upd[where f = "?f2 w", OF i1 n1 _ rs_inv_nic[OF i1 n1] page2[OF that]]) (simp_all add: same_att_def)
    have f2: "frame n s (sys_nic n (?f2 w) (?s1\<lparr>sy_dev := sy_dev ?s1, sy_mm := m2\<rparr>))" for w
      by (rule frame_trans[OF frame_sys_nic frame_sys_nic])
    show ?thesis
    proof (cases "e2 = 0")
      case False
      have "nic\<lparr>nic_rw_page_desc := u, nic_cq_interrupt_mask_desc := None\<rparr> = nic\<lparr>nic_rw_page_desc := u\<rparr>"
        using nic(3) by (intro gni_nic.equality) simp_all
      then have same: "upd_nic n (?f2 None) (upd_nic n ?f1 (sy_k s)) = upd_nic n ?f1 (sy_k s)"
        using nic(1) by (simp add: upd_nic_def)
      have "sys_nic n (?f2 None) (?s1\<lparr>sy_dev := sy_dev ?s1, sy_mm := m2\<rparr>) = (sys_nic n ?f1 (s\<lparr>sy_mm := m\<rparr>))\<lparr>sy_mm := m2\<rparr>"
        unfolding sys_nic_def by (simp add: same)
      with i2[of None] f2[of None] user um um2 True False nic n1 r show ?thesis
        by (auto simp: attach_map_def Let_def same_att_def)
    next
      case e2: True
      from umap_area_zero[OF um2[unfolded e2]] env obtain r2 where r2: "u2 = Some r2" unfolding map_env_ok_def by metis
      have "nics (upd_nic n (?f2 u2) (upd_nic n ?f1 (sy_k s))) n = Some (?f2 u2 ?n1)" using nic(1) by (simp add: upd_nic_def)
      with i2[of u2] f2[of u2] user um um2 True e2 nic n1 r r2 show ?thesis
        by (auto simp: attach_map_def Let_def same_att_def mapped_def sys_nic_def)
    qed
  qed
qed

text \<open>The third stage: the packet slots and the channel.\<close>

lemma sm_inv_new_slots:
  assumes inv: "sm_inv env k" and nic: "nics k n = Some nic" "nic_sm_chnl_hndl nic = None"
  shows "sm_inv env (upd_nic n (\<lambda>x. x\<lparr>nic_sm_pkts := Some (new_pkts env)\<rparr>) k)"
proof -
  let ?ni = "(nics k)(n \<mapsto> nic\<lparr>nic_sm_pkts := Some (new_pkts env)\<rparr>)"
  note i = inv[unfolded sm_inv_def]
  have sl: "inv_slots (kgni_sm_list k) ?ni (sms k)"
    unfolding inv_slots_def
  proof (intro conjI)
    show "\<forall>b m. sms k b = Some m \<longrightarrow> ?ni (sm_nic_hndl m) \<noteq> None" using i by (auto simp: inv_slots_def)
    show "\<forall>x l ps j b. ?ni x = Some l \<longrightarrow> nic_sm_pkts l = Some ps \<longrightarrow> j < length ps \<longrightarrow> ps ! j = Some b \<longrightarrow>
        b \<in> set (kgni_sm_list k) \<and> (\<exists>m. sms k b = Some m \<and> sm_nic_hndl m = x \<and> sm_pkts_out m = 1) \<and> once ps b j"
      using i unfolding inv_slots_def fun_upd_apply new_pkts_def
      by (metis gni_nic.select_convs(16) gni_nic.surjective gni_nic.update_convs(16) length_replicate nth_replicate option.distinct(1) option.inject)
  qed
  have o: "inv_owner (kgni_cdm_array k) (cdms k) ?ni (sms k)"
    using i nic unfolding inv_owner_def fun_upd_apply by fastforce
  have "chnl_nic_hndl c \<noteq> n" if "chnls k ch = Some c" for ch c
    using i nic that unfolding inv_chnl_def by fastforce
  then have c: "inv_chnl env ?ni (chnls k)"
    using i nic unfolding inv_chnl_def by (auto split: if_splits)
  have "inv_cdm env (kgni_cdm_array k) (cdms k) ?ni"
    using i nic by (auto simp: inv_cdm_def)
  with sl o c i nic(1) show ?thesis by (simp add: sm_inv_def prim_upd)
qed

lemma sm_inv_add_chnl:
  assumes inv: "sm_inv env k" and nic: "nics k n = Some nic" "nic_sm_chnl_hndl nic = None" "nic_ready env c nic"
    and c: "chnls k ch = None" "chnl_nic_hndl c = n"
  shows "sm_inv env (add_chnl n ch c k)"
proof -
  let ?nic = "nic\<lparr>nic_sm_chnl_hndl := Some ch\<rparr>"
  let ?ni = "(nics k)(n \<mapsto> ?nic)"
  note i = inv[unfolded sm_inv_def]
  have other: "chnl_nic_hndl c' \<noteq> n" if "chnls k x = Some c'" for x c'
    using i nic that unfolding inv_chnl_def by fastforce
  have rd: "nic_ready env c ?nic" using nic(3) by (cases "nic_sm_pkts nic") (simp_all add: nic_ready_def)
  have "inv_chnl env ?ni ((chnls k)(ch \<mapsto> c))"
    unfolding inv_chnl_def
  proof (intro conjI allI impI)
    fix x c' assume "((chnls k)(ch \<mapsto> c)) x = Some c'"
    then show "\<exists>nic. ?ni (chnl_nic_hndl c') = Some nic \<and> nic_sm_chnl_hndl nic = Some x \<and> nic_ready env c' nic"
      using i c rd other unfolding inv_chnl_def by (cases "x = ch") auto
  next
    fix x l y assume h: "?ni x = Some l" "nic_sm_chnl_hndl l = Some y"
    show "\<exists>c'. ((chnls k)(ch \<mapsto> c)) y = Some c' \<and> chnl_nic_hndl c' = x"
    proof (cases "x = n")
      case True
      with h c show ?thesis by auto
    next
      case False
      with h i obtain c' where "chnls k y = Some c'" "chnl_nic_hndl c' = x" unfolding inv_chnl_def by fastforce
      with c(1) show ?thesis by auto
    qed
  qed
  moreover have "inv_slots (kgni_sm_list k) ?ni (sms k)"
    using i nic(1) unfolding inv_slots_def by (auto split: if_splits)
  moreover have "inv_owner (kgni_cdm_array k) (cdms k) ?ni (sms k)"
    using i nic unfolding inv_owner_def fun_upd_apply by fastforce
  moreover have "inv_cdm env (kgni_cdm_array k) (cdms k) ?ni" using i nic by (auto simp: inv_cdm_def)
  ultimately show ?thesis using i nic(1) by (simp add: sm_inv_def add_chnl_def upd_nic_def)
qed

text \<open>The invariant of the whole when only what the session manager knows of an attached NIC changes.\<close>

lemma att_inv_sm:
  assumes inv: "att_inv env s" and nic: "nics (sy_k s) n = Some nic" "nic_cdm_id nic \<noteq> GNI_CDM_INVALID_ID"
    and k: "sm_inv env k" "nics k = (nics (sy_k s))(n \<mapsto> nic')" "kgni_cdm_array k = kgni_cdm_array (sy_k s)" "cdms k = cdms (sy_k s)"
    and nic': "nic_cdm_id nic' = nic_cdm_id nic" "nic_my_id nic' = nic_my_id nic" "nic_ptag nic' = nic_ptag nic" "nic_mm nic' = nic_mm nic"
      "nic_rw_page_desc nic' = nic_rw_page_desc nic" "nic_cq_interrupt_mask_desc nic' = nic_cq_interrupt_mask_desc nic"
  shows "att_inv env (s\<lparr>sy_k := k\<rparr>)"
proof -
  have "att_ok (cdms (sy_k s)) ((nics (sy_k s))(n \<mapsto> nic'))"
    by (rule att_ok_nic[OF att_invD(3)[OF inv] nic(1)]) (use nic(2) nic' in simp_all)
  moreover have "page_ok ((nics (sy_k s))(n \<mapsto> nic')) (sy_mm s)"
    by (rule page_ok_same[OF att_invD(5)[OF inv] nic(1)]) (use nic' in simp_all)
  moreover have "rs_inv \<lparr>rs_dev = sy_dev s, rs_nics = (nics (sy_k s))(n \<mapsto> nic')\<rparr>"
    by (rule rs_inv_nic[OF inv nic(1)]) (use nic' in simp)
  moreover have "dom ((nics (sy_k s))(n \<mapsto> nic')) = dom (nics (sy_k s))" using nic(1) by auto
  ultimately show ?thesis using inv k unfolding att_inv_def rs_of_def by simp
qed

definition chnl_env_ok :: "kgni_env \<Rightarrow> att_env \<Rightarrow> addr \<Rightarrow> kgni \<Rightarrow> bool" where
  "chnl_env_ok env ae n k \<longleftrightarrow> (\<forall>i ch c. kgni_chnl_create ae n i (KGNI_MAX_SM_PKTS env) = Inr (ch, c) \<longrightarrow>
     chnls k ch = None \<and> chnl_nic_hndl c = n \<and> max_tx_pkts c \<le> KGNI_MAX_SM_PKTS env)"

lemma attach_chnl_ok:
  assumes inv: "att_inv env s" and nic: "nics (sy_k s) n = Some nic" "nic_cdm_id nic \<noteq> GNI_CDM_INVALID_ID"
      "nic_sm_chnl_hndl nic = None" "nic_sm_pkts nic = None" "nic_sm_pkt_id nic = 0"
    and d: "cdms (sy_k s) d = Some c" and env: "chnl_env_ok env ae n (sy_k s)"
  shows "\<exists>x s' ch ps. attach_chnl env ae n d s = Some (x, s') \<and> att_inv env s' \<and> frame n s s' \<and>
    sy_dev s' = sy_dev s \<and> nics (sy_k s') n = Some (nic\<lparr>nic_sm_chnl_hndl := ch, nic_sm_pkts := ps\<rparr>) \<and>
    (case ch of None \<Rightarrow> chnls (sy_k s') = chnls (sy_k s) | Some c \<Rightarrow> chnls (sy_k s) c = None \<and> (\<exists>cn. chnls (sy_k s') = (chnls (sy_k s))(c \<mapsto> cn))) \<and>
    (case x of None \<Rightarrow> ch \<noteq> None
     | Some (e, l) \<Rightarrow> l = pdev_init_error \<and> ch = None \<and> ps = None \<or> l = chnl_error \<and> ch = None \<or> l \<in> {fma_init_err, subscribe_error} \<and> ch \<noteq> None)"
proof -
  have id: "nic\<lparr>nic_sm_chnl_hndl := None, nic_sm_pkts := None\<rparr> = nic" using nic by (intro gni_nic.equality) simp_all
  let ?s1 = "sys_nic n (\<lambda>x. x\<lparr>nic_sm_pkts := Some (new_pkts env)\<rparr>) s"
  let ?n1 = "nic\<lparr>nic_sm_chnl_hndl := None, nic_sm_pkts := Some (new_pkts env)\<rparr>"
  have n1': "?n1 = nic\<lparr>nic_sm_pkts := Some (new_pkts env)\<rparr>" using nic(3) by (intro gni_nic.equality) simp_all
  have n1: "nics (sy_k ?s1) = (nics (sy_k s))(n \<mapsto> ?n1)" unfolding n1' using nic(1) by (simp add: upd_nic_def)
  have sm1: "sm_inv env (sy_k ?s1)" using sm_inv_new_slots[OF att_invD(1)[OF inv] nic(1,3)] by simp
  have i1: "att_inv env ?s1"
    using att_inv_sm[OF inv nic(1,2) sm1 n1] by (simp add: sys_nic_def upd_nic_def)
  have f1: "frame n s ?s1" by (rule frame_sys_nic_only)
  have ready: "nic_ready env cn ?n1" if "max_tx_pkts cn \<le> KGNI_MAX_SM_PKTS env" for cn
    using that nic(5) by (simp add: nic_ready_def new_pkts_def)
  have chn: "att_inv env (?s1\<lparr>sy_k := add_chnl n ch cn (sy_k ?s1)\<rparr>) \<and> frame n s (?s1\<lparr>sy_k := add_chnl n ch cn (sy_k ?s1)\<rparr>) \<and>
      nics (add_chnl n ch cn (sy_k ?s1)) n = Some (nic\<lparr>nic_sm_chnl_hndl := Some ch, nic_sm_pkts := Some (new_pkts env)\<rparr>) \<and>
      chnls (sy_k s) ch = None \<and> chnls (add_chnl n ch cn (sy_k ?s1)) = (chnls (sy_k s))(ch \<mapsto> cn)"
    if cc: "kgni_chnl_create ae n i (KGNI_MAX_SM_PKTS env) = Inr (ch, cn)" for i ch cn
  proof -
    have c: "chnls (sy_k s) ch = None" "chnl_nic_hndl cn = n" "max_tx_pkts cn \<le> KGNI_MAX_SM_PKTS env"
      using env cc unfolding chnl_env_ok_def by blast+
    let ?k = "add_chnl n ch cn (sy_k ?s1)"
    have ni: "nics ?k = (nics (sy_k s))(n \<mapsto> nic\<lparr>nic_sm_chnl_hndl := Some ch, nic_sm_pkts := Some (new_pkts env)\<rparr>)"
    proof -
      have e: "nic\<lparr>nic_sm_pkts := Some (new_pkts env), nic_sm_chnl_hndl := Some ch\<rparr> =
          nic\<lparr>nic_sm_chnl_hndl := Some ch, nic_sm_pkts := Some (new_pkts env)\<rparr>" by (intro gni_nic.equality) simp_all
      show ?thesis unfolding e[symmetric] using nic(1) by (simp add: add_chnl_def upd_nic_def)
    qed
    have sm: "sm_inv env ?k"
      by (rule sm_inv_add_chnl[OF sm1, where nic = ?n1]) (use n1 c ready in \<open>simp_all add: upd_nic_def\<close>)
    have "att_inv env (s\<lparr>sy_k := ?k\<rparr>)"
      by (rule att_inv_sm[OF inv nic(1,2) sm ni]) (simp_all add: add_chnl_def upd_nic_def)
    moreover have "?s1\<lparr>sy_k := ?k\<rparr> = s\<lparr>sy_k := ?k\<rparr>" by (simp add: sys_nic_def)
    moreover have "frame n s (s\<lparr>sy_k := ?k\<rparr>)"
      unfolding frame_def by (intro conjI exI[of _ "nics ?k n"] exI[of _ "chnls ?k"]) (simp_all add: add_chnl_def upd_nic_def)
    ultimately show ?thesis using ni c by (simp add: add_chnl_def)
  qed
  have fail: "\<exists>s' ch ps. Some (Some (e, pdev_init_error), s) = Some (x, s') \<and> att_inv env s' \<and> frame n s s' \<and>
      sy_dev s' = sy_dev s \<and> nics (sy_k s') n = Some (nic\<lparr>nic_sm_chnl_hndl := ch, nic_sm_pkts := ps\<rparr>) \<and>
      chnls (sy_k s') = chnls (sy_k s) \<and> ch = None \<and> ps = None" if "x = Some (e, pdev_init_error)" for e x
    using that inv nic(1) frame_refl[of n s] id by auto
  consider (early) e where "attach_chnl env ae n d s = Some (Some (e, pdev_init_error), s)"
    | (late) "fst (kgni_pdev_init (ae_rsrc ae) nic) = 0" "pkts_mem ae"
    using nic(1) by (cases "fst (kgni_pdev_init (ae_rsrc ae) nic) = 0"; cases "pkts_mem ae") (auto simp: attach_chnl_def Let_def)
  then show ?thesis
  proof cases
    case early
    with fail show ?thesis by fastforce
  next
    case late
    show ?thesis
    proof (cases "kgni_chnl_create ae n (cdm_my_id c) (KGNI_MAX_SM_PKTS env)")
      case (Inl e)
      have "attach_chnl env ae n d s = Some (Some (e, chnl_error), ?s1)" using late Inl nic(1) d by (simp add: attach_chnl_def)
      moreover have "nics (sy_k ?s1) n = Some ?n1" using n1 by simp
      ultimately show ?thesis using i1 f1
        by (intro exI[of _ "Some (e, chnl_error)"] exI[of _ ?s1] exI[of _ None] exI[of _ "Some (new_pkts env)"]) simp
    next
      case (Inr y)
      then obtain ch cn where y: "kgni_chnl_create ae n (cdm_my_id c) (KGNI_MAX_SM_PKTS env) = Inr (ch, cn)" by (cases y) auto
      let ?s2 = "?s1\<lparr>sy_k := add_chnl n ch cn (sy_k ?s1)\<rparr>"
      have "\<exists>x s'. attach_chnl env ae n d s = Some (x, s') \<and> (\<exists>c. s' = ext c ?s2 \<or> (\<exists>c'. s' = ext c (ext c' ?s2))) \<and>
          (case x of None \<Rightarrow> True | Some (e, l) \<Rightarrow> l \<in> {fma_init_err, subscribe_error})"
        using late y nic(1) d by (auto simp: attach_chnl_def Let_def)
      then obtain x s' where x: "attach_chnl env ae n d s = Some (x, s')" "\<exists>c. s' = ext c ?s2 \<or> (\<exists>c'. s' = ext c (ext c' ?s2))"
          "case x of None \<Rightarrow> True | Some (e, l) \<Rightarrow> l \<in> {fma_init_err, subscribe_error}" by blast
      have s': "att_inv env s' \<and> frame n s s' \<and> sy_dev s' = sy_dev s \<and> sy_k s' = sy_k ?s2" using x(2) chn[OF y] by auto
      show ?thesis
        by (intro exI[of _ x] exI[of _ s'] exI[of _ "Some ch"] exI[of _ "Some (new_pkts env)"])
          (use x(1,3) s' chn[OF y] in \<open>auto split: option.splits\<close>)
    qed
  qed
qed

section \<open>Giving up\<close>

lemma dissociate_safe:
  assumes inv: "att_inv env s" and nic: "nics (sy_k s) n = Some nic" "nic_cdm_id nic = cdm_my_id c"
      "nic_sm_chnl_hndl nic = None" "nic_sm_pkts nic = None" "no_sessions n (sy_k s)"
    and d: "cdms (sy_k s) d = Some c"
  shows "dissociate n d (sy_k s) = Some (upd_nic n (\<lambda>x. x\<lparr>nic_cdm_id := GNI_CDM_INVALID_ID\<rparr>) (upd_slot d (unat (nic_my_id nic)) None (sy_k s)))"
    and "att_inv env (s\<lparr>sy_k := upd_nic n (\<lambda>x. x\<lparr>nic_cdm_id := GNI_CDM_INVALID_ID\<rparr>) (upd_slot d (unat (nic_my_id nic)) None (sy_k s))\<rparr>)"
proof -
  have "nic_cdm_id nic \<noteq> GNI_CDM_INVALID_ID" using valid_id[OF inv d] nic(2) by simp
  from attachedE[OF inv nic(1) this] my_id_inj[OF att_invD(2)[OF inv] d] nic(2) d have "unat (nic_my_id nic) < length (cdm_nic_hndls c)"
    by (metis option.inject)
  with nic(1) d show "dissociate n d (sy_k s) = Some (upd_nic n (\<lambda>x. x\<lparr>nic_cdm_id := GNI_CDM_INVALID_ID\<rparr>) (upd_slot d (unat (nic_my_id nic)) None (sy_k s)))"
    by (simp add: dissociate_def)
qed (rule att_inv_unlink[OF inv nic d refl])

lemma free_if_last_safe:
  assumes inv: "att_inv env s" and d: "cdms (sy_k s) d = Some c"
  shows "free_if_last d (sy_k s) = Some (if \<forall>e \<in> set (cdm_nic_hndls c). e = None
      then (sy_k s)\<lparr>kgni_cdm_array := (kgni_cdm_array (sy_k s))[unat (cdm_my_id c) := None], cdms := (cdms (sy_k s))(d := None)\<rparr> else sy_k s)"
    and "ok (free_if_last d (sy_k s)) (\<lambda>k. att_inv env (s\<lparr>sy_k := k\<rparr>))"
proof -
  show *: "free_if_last d (sy_k s) = Some (if \<forall>e \<in> set (cdm_nic_hndls c). e = None
      then (sy_k s)\<lparr>kgni_cdm_array := (kgni_cdm_array (sy_k s))[unat (cdm_my_id c) := None], cdms := (cdms (sy_k s))(d := None)\<rparr> else sy_k s)"
    using d tab_okD(4)[OF att_invD(2)[OF inv] d] by (cases "\<forall>e \<in> set (cdm_nic_hndls c). e = None") (auto simp: free_if_last_def)
  show "ok (free_if_last d (sy_k s)) (\<lambda>k. att_inv env (s\<lparr>sy_k := k\<rparr>))"
  proof (cases "\<forall>e \<in> set (cdm_nic_hndls c). e = None")
    case True
    show ?thesis unfolding * if_P[OF True] ok_Some by (rule att_inv_free_cdm[OF inv d True])
  next
    case False
    show ?thesis unfolding * if_not_P[OF False] ok_Some using inv by simp
  qed
qed

text \<open>The tag of a NIC whose reference is given up is cleared at the end of the error path.\<close>

definition clr :: "addr \<Rightarrow> sys \<Rightarrow> sys" where
  "clr n = sys_nic n (\<lambda>x. x\<lparr>nic_ptag := 0\<rparr>)"

text \<open>What an error path that starts in \<open>k\<close> leaves behind.\<close>

definition undone :: "addr \<Rightarrow> addr \<Rightarrow> kgni \<Rightarrow> kgni \<Rightarrow> bool" where
  "undone n d k k' \<longleftrightarrow> (\<exists>c nic nic'. cdms k d = Some c \<and> nics k n = Some nic \<and>
     nics k' = (nics k)(n \<mapsto> nic') \<and> nic_cdm_id nic' = GNI_CDM_INVALID_ID \<and> nic_sm_chnl_hndl nic' = None \<and>
     nic_sm_pkts nic' = None \<and> pages nic' = {} \<and> nic_sm_pkt_id nic' = nic_sm_pkt_id nic \<and>
     chnls k' = (case nic_sm_chnl_hndl nic of None \<Rightarrow> chnls k | Some ch \<Rightarrow> (chnls k)(ch := None)) \<and>
     sms k' = sms k \<and> kgni_sm_list k' = kgni_sm_list k \<and>
     (let hs = (cdm_nic_hndls c)[unat (nic_my_id nic) := None] in
      if \<forall>e \<in> set hs. e = None
      then cdms k' = (cdms k)(d := None) \<and>
        kgni_cdm_array k' = (kgni_cdm_array k)[unat (cdm_my_id c) := None]
      else cdms k' = (cdms k)(d \<mapsto> c\<lparr>cdm_nic_hndls := hs\<rparr>) \<and> kgni_cdm_array k' = kgni_cdm_array k))"

lemma undone_step:
  assumes "frame n s s1" and "nics (sy_k s) n = Some nic" and "nics (sy_k s1) n = Some nic1"
    and "nic_my_id nic1 = nic_my_id nic" "nic_sm_pkt_id nic1 = nic_sm_pkt_id nic" "nic_sm_chnl_hndl nic1 = None"
    and "chnls (sy_k s1) = (case nic_sm_chnl_hndl nic of None \<Rightarrow> chnls (sy_k s) | Some ch \<Rightarrow> (chnls (sy_k s))(ch := None))"
    and "undone n d (sy_k s1) k'"
  shows "undone n d (sy_k s) k'"
proof -
  have k: "cdms (sy_k s1) = cdms (sy_k s)" "sms (sy_k s1) = sms (sy_k s)" "kgni_sm_list (sy_k s1) = kgni_sm_list (sy_k s)"
    "kgni_cdm_array (sy_k s1) = kgni_cdm_array (sy_k s)" "(nics (sy_k s1))(n \<mapsto> x) = (nics (sy_k s))(n \<mapsto> x)" for x
    using frame_k[OF assms(1)] by (auto simp: fun_eq_iff)
  from assms(8)[unfolded undone_def k] obtain c nic' where u: "cdms (sy_k s) d = Some c" "nics k' = (nics (sy_k s))(n \<mapsto> nic')"
    and r: "nic_cdm_id nic' = GNI_CDM_INVALID_ID \<and> nic_sm_chnl_hndl nic' = None \<and>
     nic_sm_pkts nic' = None \<and> pages nic' = {} \<and> nic_sm_pkt_id nic' = nic_sm_pkt_id nic1 \<and>
     chnls k' = (case nic_sm_chnl_hndl nic1 of None \<Rightarrow> chnls (sy_k s1) | Some ch \<Rightarrow> (chnls (sy_k s1))(ch := None)) \<and>
     sms k' = sms (sy_k s) \<and> kgni_sm_list k' = kgni_sm_list (sy_k s) \<and>
     (let hs = (cdm_nic_hndls c)[unat (nic_my_id nic1) := None] in
      if \<forall>e \<in> set hs. e = None
      then cdms k' = (cdms (sy_k s))(d := None) \<and>
        kgni_cdm_array k' = (kgni_cdm_array (sy_k s))[unat (cdm_my_id c) := None]
      else cdms k' = (cdms (sy_k s))(d \<mapsto> c\<lparr>cdm_nic_hndls := hs\<rparr>) \<and> kgni_cdm_array k' = kgni_cdm_array (sy_k s))"
    using assms(3) by auto
  show ?thesis
    unfolding undone_def
    by (rule exI[of _ c], rule exI[of _ nic], rule exI[of _ nic']) (use u r assms(2,4-7) in simp)
qed

lemma unwind_incref:
  assumes inv: "att_inv env (clr n s)" and nic: "nics (sy_k s) n = Some nic" "nic_cdm_id nic = cdm_my_id c"
      "nic_sm_chnl_hndl nic = None" "nic_sm_pkts nic = None" "no_sessions n (sy_k s)" "pages nic = {}"
    and d: "cdms (sy_k s) d = Some c"
  shows "\<exists>s'. attach_unwind ae n d incref_error s = Some s' \<and> att_inv env (clr n s') \<and> undone n d (sy_k s) (sy_k s')"
proof -
  let ?f = "\<lambda>x. x\<lparr>nic_ptag := 0 :: u8\<rparr>" and ?g = "\<lambda>x. x\<lparr>nic_cdm_id := GNI_CDM_INVALID_ID\<rparr>" and ?i = "unat (nic_my_id nic)"
  let ?k1 = "upd_nic n ?g (upd_slot d ?i None (sy_k s))" and ?c1 = "c\<lparr>cdm_nic_hndls := (cdm_nic_hndls c)[?i := None]\<rparr>"
  have cl: "sy_k (clr n s) = upd_nic n ?f (sy_k s)" by (simp add: clr_def)
  have n': "nics (sy_k (clr n s)) n = Some (?f nic)" using nic(1) by (simp add: cl upd_nic_def)
  note dis = dissociate_safe[OF inv n', of c d]
  have com: "upd_nic n ?g (upd_slot d ?i None (sy_k (clr n s))) = upd_nic n ?f ?k1"
  proof -
    have e: "?g (?f nic) = ?f (?g nic)" by (intro gni_nic.equality) simp_all
    have "nics (upd_nic n ?g (upd_slot d ?i None (sy_k (clr n s)))) = (nics (sy_k s))(n \<mapsto> ?g (?f nic))"
      "nics (upd_nic n ?f ?k1) = (nics (sy_k s))(n \<mapsto> ?f (?g nic))" using nic(1) by (simp_all add: cl upd_nic_def)
    then show ?thesis
      by (intro kgni.equality) (simp_all add: e cl upd_slot_cdms, simp_all add: cl upd_nic_def upd_slot_def upd_cdm_def)
  qed
  have i1: "att_inv env ((clr n s)\<lparr>sy_k := upd_nic n ?f ?k1\<rparr>)"
    using dis(2) nic d com by (simp add: cl no_sessions_def)
  have d1: "dissociate n d (sy_k s) = Some ?k1"
    using dis(1) nic d by (auto simp: cl no_sessions_def dissociate_def upd_nic_def split: if_splits)
  have c1: "cdms ?k1 d = Some ?c1" using d by (simp add: upd_slot_cdms)
  let ?s1 = "(clr n s)\<lparr>sy_k := upd_nic n ?f ?k1\<rparr>"
  have c1': "cdms (sy_k ?s1) d = Some ?c1" using c1 by simp
  note fr = free_if_last_safe[OF i1 c1']
  have com2: "free_if_last d (upd_nic n ?f k) = map_option (upd_nic n ?f) (free_if_last d k)" for k
    by (auto simp: free_if_last_def upd_nic_def split: Option.bind_split)
  from fr(2) obtain k2 where k2: "free_if_last d ?k1 = Some k2" "att_inv env ((clr n s)\<lparr>sy_k := upd_nic n ?f k2\<rparr>)"
    by (auto simp: com2 ok_def)
  have "clr n (s\<lparr>sy_k := k2\<rparr>) = (clr n s)\<lparr>sy_k := upd_nic n ?f k2\<rparr>" by (simp add: clr_def sys_nic_def)
  moreover have "undone n d (sy_k s) k2"
  proof -
    have kk: "k2 = (if \<forall>e \<in> set (cdm_nic_hndls ?c1). e = None
        then ?k1\<lparr>kgni_cdm_array := (kgni_cdm_array ?k1)[unat (cdm_my_id ?c1) := None], cdms := (cdms ?k1)(d := None)\<rparr> else ?k1)"
      using k2(1) c1 by (auto simp: free_if_last_def split: if_splits)
    show ?thesis
      unfolding undone_def Let_def
      by (intro exI[of _ c] exI[of _ nic] exI[of _ "?g nic"]) (use nic d in \<open>auto simp: kk upd_slot_cdms upd_nic_def pages_def\<close>)
  qed
  ultimately show ?thesis using d1 k2 by auto
qed


text \<open>The next label up: the reference to the job is given up too.\<close>

lemma resource_decref_clr:
  assumes inv: "att_inv env s" and nic: "nics (sy_k s) n = Some nic" "may_release nic (sy_dev s)"
  shows "\<exists>dev. resource_decref n s = Some (s\<lparr>sy_dev := dev\<rparr>) \<and> att_inv env (clr n (s\<lparr>sy_dev := dev\<rparr>)) \<and>
    kgni_resource_decref nic (sy_dev s) = Some dev \<and> rs_inv \<lparr>rs_dev = dev, rs_nics = (nics (sy_k s))(n := None)\<rparr>"
proof -
  from kgni_resource_decref_safe[OF att_invD(4)[OF inv], of n nic] nic obtain dev where
    dev: "kgni_resource_decref nic (sy_dev s) = Some dev" "rs_inv \<lparr>rs_dev = dev, rs_nics = (nics (sy_k s))(n := None)\<rparr>"
    by (auto simp: ok_def rs_of_def)
  let ?f = "\<lambda>x. x\<lparr>nic_ptag := 0 :: u8\<rparr>"
  from rs_inv_open[OF dev(2), of n "?f nic"] have rs: "rs_inv \<lparr>rs_dev = dev, rs_nics = (nics (sy_k s))(n \<mapsto> ?f nic)\<rparr>" by simp
  have "att_inv env (sys_nic n ?f (s\<lparr>sy_dev := dev, sy_mm := sy_mm s\<rparr>))"
    by (rule att_inv_upd[where f = ?f, OF inv nic(1) _ rs page_ok_same[OF att_invD(5)[OF inv] nic(1)]]) (simp_all add: same_att_def)
  with dev nic(1) show ?thesis by (simp add: resource_decref_def clr_def)
qed

lemma unwind_mm:
  assumes inv: "att_inv env s" and nic: "nics (sy_k s) n = Some nic" "nic_cdm_id nic = cdm_my_id c"
      "nic_sm_chnl_hndl nic = None" "nic_sm_pkts nic = None" "no_sessions n (sy_k s)" "pages nic = {}" "may_release nic (sy_dev s)"
    and d: "cdms (sy_k s) d = Some c"
  shows "\<exists>s'. attach_unwind ae n d mm_error s = Some s' \<and> att_inv env (clr n s') \<and> undone n d (sy_k s) (sy_k s')"
proof -
  from resource_decref_clr[OF inv nic(1,7)] obtain dev where dev: "resource_decref n s = Some (s\<lparr>sy_dev := dev\<rparr>)"
    "att_inv env (clr n (s\<lparr>sy_dev := dev\<rparr>))" by blast
  from unwind_incref[OF dev(2), of nic c d ae] nic d obtain s' where s': "attach_unwind ae n d incref_error (s\<lparr>sy_dev := dev\<rparr>) = Some s'"
    "att_inv env (clr n s')" "undone n d (sy_k s) (sy_k s')" by auto
  with dev show ?thesis by simp
qed

text \<open>The state of an attach that is given up, and what holds at each label.\<close>

definition attaching :: "kgni_env \<Rightarrow> addr \<Rightarrow> addr \<Rightarrow> gni_nic \<Rightarrow> sys \<Rightarrow> bool" where
  "attaching env n d nic s \<longleftrightarrow> att_inv env s \<and> nics (sy_k s) n = Some nic \<and> no_sessions n (sy_k s) \<and> may_release nic (sy_dev s) \<and>
     (\<exists>c. cdms (sy_k s) d = Some c \<and> nic_cdm_id nic = cdm_my_id c)"

fun at_label :: "attach_label \<Rightarrow> gni_nic \<Rightarrow> bool" where
  "at_label incref_error nic \<longleftrightarrow> False"
| "at_label mm_error nic \<longleftrightarrow> nic_sm_chnl_hndl nic = None \<and> nic_sm_pkts nic = None \<and> pages nic = {}"
| "at_label rw_page_error nic \<longleftrightarrow> nic_sm_chnl_hndl nic = None \<and> nic_sm_pkts nic = None \<and> pages nic = {}"
| "at_label cq_interrupt_mask_page_error nic \<longleftrightarrow> nic_sm_chnl_hndl nic = None \<and> nic_sm_pkts nic = None \<and>
     nic_cq_interrupt_mask_desc nic = None \<and> (nic_cdm_type nic = GNI_CDM_TYPE_KERNEL \<longleftrightarrow> nic_rw_page_desc nic = None)"
| "at_label pdev_init_error nic \<longleftrightarrow> nic_sm_chnl_hndl nic = None \<and> nic_sm_pkts nic = None \<and> mapped nic"
| "at_label chnl_error nic \<longleftrightarrow> nic_sm_chnl_hndl nic = None \<and> mapped nic"
| "at_label fma_init_err nic \<longleftrightarrow> nic_sm_chnl_hndl nic \<noteq> None \<and> mapped nic"
| "at_label subscribe_error nic \<longleftrightarrow> nic_sm_chnl_hndl nic \<noteq> None \<and> mapped nic"

lemma mapped_upd [simp]:
  "mapped (nic\<lparr>nic_sm_pkts := ps\<rparr>) = mapped nic" "mapped (nic\<lparr>nic_sm_chnl_hndl := ch\<rparr>) = mapped nic"
  by (simp_all add: mapped_def pages_def)

definition unwinds :: "kgni_env \<Rightarrow> att_env \<Rightarrow> addr \<Rightarrow> addr \<Rightarrow> attach_label \<Rightarrow> sys \<Rightarrow> bool" where
  "unwinds env ae n d l s \<longleftrightarrow> (\<exists>s'. attach_unwind ae n d l s = Some s' \<and> att_inv env (clr n s') \<and> undone n d (sy_k s) (sy_k s'))"

lemma attachingD:
  assumes "attaching env n d nic s"
  shows "att_inv env s" "nics (sy_k s) n = Some nic" "no_sessions n (sy_k s)" "may_release nic (sy_dev s)" "nic_cdm_id nic \<noteq> GNI_CDM_INVALID_ID"
  using assms valid_id unfolding attaching_def by (blast, blast, blast, blast, metis)

text \<open>One step of the error path leads to the next label.\<close>

lemma unwinds_step:
  assumes at: "attaching env n d nic s" and step: "attach_unwind ae n d l s = attach_unwind ae n d l1 s1"
    and inv: "att_inv env s1" and nic1: "nics (sy_k s1) n = Some nic1" "nic_my_id nic1 = nic_my_id nic" "nic_cdm_id nic1 = nic_cdm_id nic"
      "nic_sm_pkt_id nic1 = nic_sm_pkt_id nic" "nic_ptag nic1 = nic_ptag nic" "nic_sm_chnl_hndl nic1 = None"
    and fr: "frame n s s1" "sy_dev s1 = sy_dev s"
      "chnls (sy_k s1) = (case nic_sm_chnl_hndl nic of None \<Rightarrow> chnls (sy_k s) | Some ch \<Rightarrow> (chnls (sy_k s))(ch := None))"
    and nxt: "attaching env n d nic1 s1 \<Longrightarrow> unwinds env ae n d l1 s1"
  shows "unwinds env ae n d l s"
proof -
  note k = frame_k[OF fr(1)]
  have "attaching env n d nic1 s1"
    using at inv nic1 fr(2) unfolding attaching_def k no_sessions_def may_release_def by auto
  from nxt[OF this] step obtain s' where s': "attach_unwind ae n d l s = Some s'" "att_inv env (clr n s')" "undone n d (sy_k s1) (sy_k s')"
    unfolding unwinds_def by auto
  from undone_step[OF fr(1) attachingD(2)[OF at] nic1(1,2,4,6) fr(3) s'(3)] s'(1,2) show ?thesis unfolding unwinds_def by blast
qed

lemma unwinds_mm:
  assumes "attaching env n d nic s" and "at_label mm_error nic"
  shows "unwinds env ae n d mm_error s"
  using assms unwind_mm[of env s n nic] unfolding attaching_def unwinds_def by fastforce

lemma unwinds_rw:
  assumes at: "attaching env n d nic s" and l: "at_label rw_page_error nic" and env: "mm_env_ok ae"
  shows "unwinds env ae n d rw_page_error s"
proof -
  from mm_fini_safe[OF attachingD(1,2)[OF at] _ env] l obtain mm s1 where s1: "mm_fini ae n s = Some s1" "att_inv env s1"
    "sy_k s1 = upd_nic n (\<lambda>x. x\<lparr>nic_mm := mm\<rparr>) (sy_k s)" "sy_dev s1 = sy_dev s" by auto
  have "sy_flsh s1 = sy_flsh s" "qsce_list s1 = qsce_list s" "files s1 = files s"
    using s1(1) attachingD(2)[OF at] by (auto simp: mm_fini_def split: prod.split_asm)
  then have fr: "frame n s s1"
    unfolding frame_def by (intro conjI exI[of _ "nics (sy_k s1) n"] exI[of _ "chnls (sy_k s)"]) (simp_all add: s1(3) upd_nic_def)
  show ?thesis
    by (rule unwinds_step[OF at, where ?s1.0 = s1 and ?nic1.0 = "nic\<lparr>nic_mm := mm\<rparr>" and ?l1.0 = mm_error])
      (use s1 l fr attachingD(2)[OF at] in \<open>auto simp: upd_nic_def pages_def intro!: unwinds_mm\<close>)
qed

text \<open>The two pages.\<close>

lemma unwinds_cq:
  assumes at: "attaching env n d nic s" and l: "at_label cq_interrupt_mask_page_error nic" and env: "mm_env_ok ae"
  shows "unwinds env ae n d cq_interrupt_mask_page_error s"
proof (cases "nic_cdm_type nic = GNI_CDM_TYPE_KERNEL")
  case True
  with at l attachingD(2)[OF at] unwinds_rw[OF at _ env] show ?thesis by (auto simp: unwinds_def pages_def)
next
  case False
  with l obtain u where u: "nic_rw_page_desc nic = Some u" by auto
  let ?f = "\<lambda>x. x\<lparr>nic_rw_page_desc := None\<rparr>"
  have "\<exists>m'. kgni_unmap_area (ae_cur ae) u (sy_mm s) = Some m' \<and> att_inv env (sys_nic n ?f (s\<lparr>sy_mm := m'\<rparr>))"
    by (rule unmap_page_safe[where f = ?f, OF attachingD(1,2)[OF at]]) (use u l in \<open>auto simp: pages_def same_att_def\<close>)
  then obtain m where m: "kgni_unmap_area (ae_cur ae) u (sy_mm s) = Some m" "att_inv env (sys_nic n ?f (s\<lparr>sy_mm := m\<rparr>))" by blast
  have fr: "frame n s (sys_nic n ?f (s\<lparr>sy_mm := m\<rparr>))" using frame_sys_nic[where s = s and dev = "sy_dev s" and m = m] by simp
  show ?thesis
    by (rule unwinds_step[OF at, where ?s1.0 = "sys_nic n ?f (s\<lparr>sy_mm := m\<rparr>)" and ?nic1.0 = "?f nic" and ?l1.0 = rw_page_error])
      (use m l u fr False attachingD(2)[OF at] unwinds_rw[OF _ _ env] in \<open>auto simp: upd_nic_def pages_def\<close>)
qed

lemma unwinds_pdev:
  assumes at: "attaching env n d nic s" and l: "at_label pdev_init_error nic" and env: "mm_env_ok ae"
  shows "unwinds env ae n d pdev_init_error s"
proof (cases "nic_cdm_type nic = GNI_CDM_TYPE_KERNEL")
  case True
  with at l attachingD(2)[OF at] unwinds_cq[OF at _ env] show ?thesis by (auto simp: unwinds_def pages_def mapped_def)
next
  case False
  with l obtain u w where u: "nic_cq_interrupt_mask_desc nic = Some u" "nic_rw_page_desc nic = Some w" by (auto simp: mapped_def)
  with att_invD(5)[OF attachingD(1)[OF at]] attachingD(2)[OF at] have "w \<noteq> u" unfolding page_ok_def by blast
  let ?f = "\<lambda>x. x\<lparr>nic_cq_interrupt_mask_desc := None\<rparr>"
  have "\<exists>m'. kgni_unmap_area (ae_cur ae) u (sy_mm s) = Some m' \<and> att_inv env (sys_nic n ?f (s\<lparr>sy_mm := m'\<rparr>))"
    by (rule unmap_page_safe[where f = ?f, OF attachingD(1,2)[OF at]]) (use u \<open>w \<noteq> u\<close> in \<open>auto simp: pages_def same_att_def\<close>)
  then obtain m where m: "kgni_unmap_area (ae_cur ae) u (sy_mm s) = Some m" "att_inv env (sys_nic n ?f (s\<lparr>sy_mm := m\<rparr>))" by blast
  have fr: "frame n s (sys_nic n ?f (s\<lparr>sy_mm := m\<rparr>))" using frame_sys_nic[where s = s and dev = "sy_dev s" and m = m] by simp
  show ?thesis
    by (rule unwinds_step[OF at, where ?s1.0 = "sys_nic n ?f (s\<lparr>sy_mm := m\<rparr>)" and ?nic1.0 = "?f nic" and ?l1.0 = cq_interrupt_mask_page_error])
      (use m l u fr False attachingD(2)[OF at] unwinds_cq[OF _ _ env] in \<open>auto simp: upd_nic_def pages_def\<close>)
qed

text \<open>The packet slots and the channel.\<close>

lemma unwinds_chnl:
  assumes at: "attaching env n d nic s" and l: "at_label chnl_error nic" and env: "mm_env_ok ae"
  shows "unwinds env ae n d chnl_error s"
proof -
  let ?f = "\<lambda>x. x\<lparr>nic_sm_pkts := None\<rparr>"
  have ni: "nics (sy_k (sys_nic n ?f s)) = (nics (sy_k s))(n \<mapsto> ?f nic)" using attachingD(2)[OF at] by (simp add: upd_nic_def)
  have "att_inv env (s\<lparr>sy_k := sy_k (sys_nic n ?f s)\<rparr>)"
    by (rule att_inv_sm[OF attachingD(1,2,5)[OF at] _ ni])
      (use sm_inv_clear_slots[OF att_invD(1)[OF attachingD(1)[OF at]] attachingD(2)[OF at]] l in \<open>simp_all add: upd_nic_def\<close>)
  then have i: "att_inv env (sys_nic n ?f s)" by (simp add: sys_nic_def)
  show ?thesis
    by (rule unwinds_step[OF at, where ?s1.0 = "sys_nic n ?f s" and ?nic1.0 = "?f nic" and ?l1.0 = pdev_init_error])
      (use i l ni frame_sys_nic_only[of n s ?f] unwinds_pdev[OF _ _ env, where nic = "?f nic" and s = "sys_nic n ?f s"] in auto)
qed

lemma unwinds_fma:
  assumes at: "attaching env n d nic s" and l: "at_label fma_init_err nic" and env: "mm_env_ok ae"
  shows "unwinds env ae n d fma_init_err s"
proof -
  from l obtain ch where ch: "nic_sm_chnl_hndl nic = Some ch" by auto
  let ?f = "\<lambda>x. x\<lparr>nic_sm_chnl_hndl := None\<rparr>"
  let ?s1 = "sys_nic n ?f (s\<lparr>sy_k := chnl_destroy ch (sy_k s)\<rparr>)"
  have k: "sy_k ?s1 = (upd_nic n ?f (sy_k s))\<lparr>chnls := (chnls (sy_k s))(ch := None)\<rparr>" by (simp add: chnl_destroy_def upd_nic_def)
  have ni: "nics (sy_k ?s1) = (nics (sy_k s))(n \<mapsto> ?f nic)" using attachingD(2)[OF at] by (simp add: chnl_destroy_def upd_nic_def)
  have "att_inv env (s\<lparr>sy_k := sy_k ?s1\<rparr>)"
    by (rule att_inv_sm[OF attachingD(1,2,5)[OF at] _ ni])
      (use sm_inv_chnl_destroy[OF att_invD(1)[OF attachingD(1)[OF at]] attachingD(2)[OF at] ch] k in \<open>simp_all add: chnl_destroy_def\<close>)
  then have i: "att_inv env ?s1" by (simp add: sys_nic_def)
  have fr: "frame n s ?s1"
    unfolding frame_def by (intro conjI exI[of _ "Some (?f nic)"] exI[of _ "(chnls (sy_k s))(ch := None)"])
      (use attachingD(2)[OF at] in \<open>simp_all add: upd_nic_def chnl_destroy_def\<close>)
  show ?thesis
    by (rule unwinds_step[OF at, where ?s1.0 = ?s1 and ?nic1.0 = "?f nic" and ?l1.0 = chnl_error])
      (use i l ni ch fr k attachingD(2)[OF at] unwinds_chnl[OF _ _ env, where nic = "?f nic" and s = ?s1] in auto)
qed

lemma attach_unwind_safe:
  assumes at: "attaching env n d nic s" and l: "at_label l nic" and env: "mm_env_ok ae"
  shows "unwinds env ae n d l s"
proof (cases l)
  case subscribe_error
  have "attaching env n d nic (ext (Kgni_fma_fini n) s)" using at by (simp add: attaching_def)
  from unwinds_fma[OF this _ env] l subscribe_error show ?thesis by (simp add: unwinds_def)
qed (use at l env unwinds_mm unwinds_rw unwinds_cq unwinds_pdev unwinds_chnl unwinds_fma in auto)

section \<open>Attach\<close>

text \<open>A NIC that can be attached: as it was created, or after an attach that failed.\<close>

definition fresh_nic :: "gni_nic \<Rightarrow> bool" where
  "fresh_nic nic \<longleftrightarrow> nic_ptag nic = 0 \<and> nic_rw_page_desc nic = None \<and> nic_cq_interrupt_mask_desc nic = None \<and>
     nic_sm_chnl_hndl nic = None \<and> nic_sm_pkts nic = None \<and> nic_sm_pkt_id nic = 0"

text \<open>What a failed attach leaves: the driver as it was, up to fields of the NIC, which is not attached and can be attached
  again.\<close>

definition unattached :: "addr \<Rightarrow> kgni \<Rightarrow> kgni \<Rightarrow> bool" where
  "unattached n k k' \<longleftrightarrow> (\<exists>nic'. nics k' = (nics k)(n \<mapsto> nic') \<and> nic_cdm_id nic' = GNI_CDM_INVALID_ID \<and> fresh_nic nic') \<and>
     cdms k' = cdms k \<and> kgni_cdm_array k' = kgni_cdm_array k \<and> chnls k' = chnls k \<and> sms k' = sms k \<and> kgni_sm_list k' = kgni_sm_list k"

definition setup_env_ok :: "kgni_env \<Rightarrow> att_env \<Rightarrow> addr \<Rightarrow> sys \<Rightarrow> bool" where
  "setup_env_ok env ae n s \<longleftrightarrow> mm_env_ok ae \<and> map_env_ok ae (sy_mm s) \<and> chnl_env_ok env ae n (sy_k s)"

lemma attach_setup_ok:
  assumes inv: "att_inv env s" and nic: "nics (sy_k s) n = Some nic" "nic_cdm_id nic = cdm_my_id c" "fresh_nic nic" "no_sessions n (sy_k s)"
    and d: "cdms (sy_k s) d = Some c" and ptag: "(ucast (sa_ptag at) :: u8) \<noteq> 0" and env: "setup_env_ok env ae n s"
  shows "\<exists>x s' nic'. attach_setup env ae at n d s = Some (x, s') \<and> frame n s s' \<and> att_inv env s' \<and> nics (sy_k s') n = Some nic' \<and>
    nic_my_id nic' = nic_my_id nic \<and> nic_cdm_id nic' = nic_cdm_id nic \<and> nic_sm_pkt_id nic' = nic_sm_pkt_id nic \<and>
    (case nic_sm_chnl_hndl nic' of None \<Rightarrow> chnls (sy_k s') = chnls (sy_k s)
     | Some ch \<Rightarrow> chnls (sy_k s) ch = None \<and> (\<exists>cn. chnls (sy_k s') = (chnls (sy_k s))(ch \<mapsto> cn))) \<and>
    (case x of None \<Rightarrow> nic_sm_chnl_hndl nic' \<noteq> None
     | Some (e, l) \<Rightarrow> l = incref_error \<and> at_label mm_error nic' \<and> nic_ptag nic' = 0 \<or> at_label l nic' \<and> may_release nic' (sy_dev s'))"
proof -
  note f = nic(3)[unfolded fresh_nic_def]
  have e: "mm_env_ok ae" "map_env_ok ae (sy_mm s)" "chnl_env_ok env ae n (sy_k s)" using env by (simp_all add: setup_env_ok_def)
  have pg: "pages nic = {}" using f by (simp add: pages_def)
  have id: "nic_cdm_id nic \<noteq> GNI_CDM_INVALID_ID" using valid_id[OF inv d] nic(2) by simp
  from attach_job_ok[OF inv nic(1) _ pg ptag e(1)] f obtain x1 s1 nic1 where j: "attach_job ae at n s = Some (x1, s1)" "att_inv env s1" "frame n s s1"
    "chnls (sy_k s1) = chnls (sy_k s)" "sy_mm s1 = sy_mm s" "nics (sy_k s1) n = Some nic1" "keeps nic nic1"
    "case x1 of None \<Rightarrow> may_release nic1 (sy_dev s1)
     | Some (e, l) \<Rightarrow> e \<noteq> 0 \<and> (l = incref_error \<and> nic_ptag nic1 = 0 \<or> l = mm_error \<and> may_release nic1 (sy_dev s1))" by auto
  have k1: "nic_my_id nic1 = nic_my_id nic" "nic_cdm_id nic1 = nic_cdm_id nic" "nic_sm_pkt_id nic1 = nic_sm_pkt_id nic"
    "nic_sm_chnl_hndl nic1 = None" "nic_sm_pkts nic1 = None" "nic_rw_page_desc nic1 = None" "nic_cq_interrupt_mask_desc nic1 = None"
    using j(7) f by (simp_all add: keeps_def same_att_def)
  show ?thesis
  proof (cases x1)
    case (Some el)
    with j k1 show ?thesis by (cases el) (auto simp: attach_setup_def and_then_def pages_def)
  next
    case None
    from attach_map_ok[OF j(2,6) k1(6,7), of ae] e(2) j(5) obtain x2 s2 nic2 where m: "attach_map ae n s1 = Some (x2, s2)" "att_inv env s2"
      "frame n s1 s2" "chnls (sy_k s2) = chnls (sy_k s1)" "sy_dev s2 = sy_dev s1" "nics (sy_k s2) n = Some nic2" "same_att nic1 nic2"
      "nic_ptag nic2 = nic_ptag nic1" "nic_cdm_type nic2 = nic_cdm_type nic1"
      "case x2 of None \<Rightarrow> mapped nic2
       | Some (e, l) \<Rightarrow> e \<noteq> 0 \<and> nic_cq_interrupt_mask_desc nic2 = None \<and> nic_cdm_type nic1 \<noteq> GNI_CDM_TYPE_KERNEL \<and>
         (l = rw_page_error \<and> nic_rw_page_desc nic2 = None \<or> l = cq_interrupt_mask_page_error \<and> nic_rw_page_desc nic2 \<noteq> None)" by auto
    have f2: "frame n s s2" by (rule frame_trans[OF j(3) m(3)])
    have k2: "nic_my_id nic2 = nic_my_id nic" "nic_cdm_id nic2 = nic_cdm_id nic" "nic_sm_pkt_id nic2 = nic_sm_pkt_id nic"
      "nic_sm_chnl_hndl nic2 = None" "nic_sm_pkts nic2 = None" "may_release nic2 (sy_dev s2)"
      using m(5,7,8) k1 j(8) None by (simp_all add: same_att_def may_release_def)
    show ?thesis
    proof (cases x2)
      case (Some el)
      obtain e l where el: "el = (e, l)" by (cases el)
      have "attach_setup env ae at n d s = Some (Some (e, l), s2)" using j(1) m(1) None Some el by (simp add: attach_setup_def and_then_def)
      moreover have "at_label l nic2" using m(9,10) Some el k2 by (auto simp: pages_def)
      ultimately show ?thesis using f2 m(2,4,6) j(4) k2 by (intro exI[of _ "Some (e, l)"] exI[of _ s2] exI[of _ nic2]) simp
    next
      case none2: None
      have d2: "cdms (sy_k s2) d = Some c" using d frame_k(1)[OF f2] by simp
      have ch2: "chnls (sy_k s2) = chnls (sy_k s)" using m(4) j(4) by simp
      then have "chnl_env_ok env ae n (sy_k s2)" using e(3) by (simp add: chnl_env_ok_def)
      from attach_chnl_ok[OF m(2,6) _ k2(4,5) _ d2 this] id k2 f obtain x3 s3 ch ps where c3: "attach_chnl env ae n d s2 = Some (x3, s3)"
        "att_inv env s3" "frame n s2 s3" "sy_dev s3 = sy_dev s2" "nics (sy_k s3) n = Some (nic2\<lparr>nic_sm_chnl_hndl := ch, nic_sm_pkts := ps\<rparr>)"
        "case ch of None \<Rightarrow> chnls (sy_k s3) = chnls (sy_k s2) | Some c \<Rightarrow> chnls (sy_k s2) c = None \<and> (\<exists>cn. chnls (sy_k s3) = (chnls (sy_k s2))(c \<mapsto> cn))"
        "case x3 of None \<Rightarrow> ch \<noteq> None
         | Some (e, l) \<Rightarrow> l = pdev_init_error \<and> ch = None \<and> ps = None \<or> l = chnl_error \<and> ch = None \<or> l \<in> {fma_init_err, subscribe_error} \<and> ch \<noteq> None"
        by auto
      let ?nic = "nic2\<lparr>nic_sm_chnl_hndl := ch, nic_sm_pkts := ps\<rparr>"
      have set: "attach_setup env ae at n d s = Some (x3, s3)" using j(1) m(1) c3(1) None none2 by (simp add: attach_setup_def and_then_def)
      have rel: "may_release ?nic (sy_dev s3)" using k2(6) c3(4) by (simp add: may_release_def)
      have mp: "mapped ?nic" using m(10) none2 by simp
      have lab: "at_label l ?nic" if "x3 = Some (e, l)" for e l using c3(7) that mp by auto
      show ?thesis
        by (intro exI[of _ x3] exI[of _ s3] exI[of _ ?nic])
          (use set frame_trans[OF f2 c3(3)] c3(2,5,6,7) k2 ch2 rel lab in \<open>auto split: option.splits\<close>)
    qed
  qed
qed

end
