(* ===== verification/Cdm_Attach.thy ===== *)
theory Cdm_Attach
  imports Cdm_Stages
begin

text \<open>
  The search for a free entry of the domain and the attach as a whole: it never faults, and when it fails the driver is as
  before.
\<close>

lemma undone_back:
  assumes fr: "frame n s s1" and nic: "nics (sy_k s) n = Some nic" "nics (sy_k s1) n = Some nic1" "nic_my_id nic1 = nic_my_id nic"
      "nic_sm_pkt_id nic1 = nic_sm_pkt_id nic" "nic_sm_chnl_hndl nic = None"
    and ch: "case nic_sm_chnl_hndl nic1 of None \<Rightarrow> chnls (sy_k s1) = chnls (sy_k s)
       | Some c \<Rightarrow> chnls (sy_k s) c = None \<and> (\<exists>cn. chnls (sy_k s1) = (chnls (sy_k s))(c \<mapsto> cn))"
    and u: "undone n d (sy_k s1) k'"
  shows "undone n d (sy_k s) k'"
proof -
  have k: "cdms (sy_k s1) = cdms (sy_k s)" "sms (sy_k s1) = sms (sy_k s)" "kgni_sm_list (sy_k s1) = kgni_sm_list (sy_k s)"
    "kgni_cdm_array (sy_k s1) = kgni_cdm_array (sy_k s)" "(nics (sy_k s1))(n \<mapsto> x) = (nics (sy_k s))(n \<mapsto> x)" for x
    using frame_k[OF fr] by (auto simp: fun_eq_iff)
  have c: "(case nic_sm_chnl_hndl nic1 of None \<Rightarrow> chnls (sy_k s1) | Some ch \<Rightarrow> (chnls (sy_k s1))(ch := None)) = chnls (sy_k s)"
    using ch by (auto split: option.splits simp: fun_eq_iff)
  from u[unfolded undone_def k] nic c show ?thesis
    unfolding undone_def by (elim exE conjE) (rule exI, rule exI, rule exI, intro conjI, assumption+, auto simp: Let_def)
qed

lemma attach_tail:
  assumes inv: "att_inv env s" and nic: "nics (sy_k s) n = Some nic" "nic_cdm_id nic = cdm_my_id c" "fresh_nic nic" "no_sessions n (sy_k s)"
    and d: "cdms (sy_k s) d = Some c" and ptag: "(ucast (sa_ptag at) :: u8) \<noteq> 0" and env: "setup_env_ok env ae n s"
  shows "\<exists>x s1. attach_setup env ae at n d s = Some (x, s1) \<and>
    (case x of None \<Rightarrow> att_inv env s1 \<and> frame n s s1 \<and> (\<exists>nic'. nics (sy_k s1) n = Some nic' \<and> nic_sm_chnl_hndl nic' \<noteq> None \<and>
         nic_cdm_id nic' = nic_cdm_id nic)
     | Some (e, l) \<Rightarrow> \<exists>s2. attach_unwind ae n d l s1 = Some s2 \<and> att_inv env (clr n s2) \<and> undone n d (sy_k s) (sy_k s2))"
proof -
  from attach_setup_ok[OF assms] obtain x s1 nic1 where s1: "attach_setup env ae at n d s = Some (x, s1)" "frame n s s1" "att_inv env s1"
    "nics (sy_k s1) n = Some nic1" "nic_my_id nic1 = nic_my_id nic" "nic_cdm_id nic1 = nic_cdm_id nic" "nic_sm_pkt_id nic1 = nic_sm_pkt_id nic"
    "case nic_sm_chnl_hndl nic1 of None \<Rightarrow> chnls (sy_k s1) = chnls (sy_k s)
       | Some ch \<Rightarrow> chnls (sy_k s) ch = None \<and> (\<exists>cn. chnls (sy_k s1) = (chnls (sy_k s))(ch \<mapsto> cn))"
    "case x of None \<Rightarrow> nic_sm_chnl_hndl nic1 \<noteq> None
     | Some (e, l) \<Rightarrow> l = incref_error \<and> at_label mm_error nic1 \<and> nic_ptag nic1 = 0 \<or> at_label l nic1 \<and> may_release nic1 (sy_dev s1)" by auto
  have ns: "no_sessions n (sy_k s1)" "cdms (sy_k s1) d = Some c" using nic(4) d frame_k[OF s1(2)] by (simp_all add: no_sessions_def)
  have ch: "nic_sm_chnl_hndl nic = None" using nic(3) by (simp add: fresh_nic_def)
  show ?thesis
  proof (cases x)
    case None
    with s1 show ?thesis by auto
  next
    case (Some el)
    obtain e l where el: "el = (e, l)" by (cases el)
    have "\<exists>s2. attach_unwind ae n d l s1 = Some s2 \<and> att_inv env (clr n s2) \<and> undone n d (sy_k s1) (sy_k s2)"
    proof (cases "at_label l nic1 \<and> may_release nic1 (sy_dev s1)")
      case True
      with s1(3,4,6) ns nic(2) have "attaching env n d nic1 s1" by (auto simp: attaching_def)
      from attach_unwind_safe[OF this] True env show ?thesis by (simp add: unwinds_def setup_env_ok_def)
    next
      case False
      with s1(9) Some el have l: "l = incref_error" "at_label mm_error nic1" "nic_ptag nic1 = 0" by auto
      have "upd_nic n (\<lambda>x. x\<lparr>nic_ptag := 0\<rparr>) (sy_k s1) = sy_k s1" using s1(4) l(3) by (simp add: upd_nic_def fun_upd_idem)
      then have "clr n s1 = s1" by (simp add: clr_def sys_nic_def)
      with unwind_incref[of env n s1 nic1 c d ae] s1(3,4,6) ns l nic(2) show ?thesis by auto
    qed
    with undone_back[OF s1(2) nic(1) s1(4,5,7) ch s1(8)] s1(1) Some el show ?thesis by auto
  qed
qed

text \<open>The search for an entry, when the NIC has taken entry \<open>i\<close>: it stays, or is given up again.\<close>

definition link :: "addr \<Rightarrow> addr \<Rightarrow> nat \<Rightarrow> u32 \<Rightarrow> kgni \<Rightarrow> kgni" where
  "link n d i cid k = upd_nic n (\<lambda>x. x\<lparr>nic_cdm_id := cid, nic_my_id := of_nat i\<rparr>) (upd_slot d i (Some n) k)"

lemma slot_loop_linked:
  assumes k: "nics k n = Some nic" "cdms k d = Some c" "nic_cdm_id nic \<noteq> GNI_CDM_INVALID_ID"
    and live: "\<forall>j \<in> set is. j < length (cdm_nic_hndls c) \<and> (\<forall>x. cdm_nic_hndls c ! j = Some x \<longrightarrow> nics k x \<noteq> None)"
    and my: "unat (nic_my_id nic) < length (cdm_nic_hndls c)"
  shows "slot_loop n d is k = Some (True, k) \<or> (\<exists>j \<in> set is. cdm_nic_hndls c ! j \<noteq> None) \<and>
    slot_loop n d is k = Some (False, upd_nic n (\<lambda>x. x\<lparr>nic_cdm_id := GNI_CDM_INVALID_ID\<rparr>) (upd_slot d (unat (nic_my_id nic)) None k))"
  using live
proof (induction "is")
  case (Cons j js)
  show ?case
  proof (cases "cdm_nic_hndls c ! j")
    case None
    with Cons k show ?thesis by auto
  next
    case (Some x)
    with Cons.prems obtain y where y: "nics k x = Some y" by auto
    show ?thesis
      by (cases "nic_pe y = nic_pe nic") (use Some y Cons k my in auto)
  qed
qed simp

lemma link_undo:
  assumes nic: "nics k n = Some nic" "nic_cdm_id nic = GNI_CDM_INVALID_ID" and d: "cdms k d = Some c" and None: "cdm_nic_hndls c ! j = None"
  shows "upd_nic n (\<lambda>x. x\<lparr>nic_cdm_id := GNI_CDM_INVALID_ID\<rparr>) (upd_slot d j None (link n d j cid k)) =
    upd_nic n (\<lambda>x. x\<lparr>nic_my_id := of_nat j\<rparr>) k"
proof -
  have e: "nic\<lparr>nic_my_id := of_nat j, nic_cdm_id := GNI_CDM_INVALID_ID\<rparr> = nic\<lparr>nic_my_id := of_nat j\<rparr>"
    using nic(2) by (intro gni_nic.equality) simp_all
  have c: "c\<lparr>cdm_nic_hndls := (cdm_nic_hndls c)[j := None]\<rparr> = c" using None by (metis gni_cdm.surjective gni_cdm.update_convs(2) list_update_id)
  let ?l = "upd_nic n (\<lambda>x. x\<lparr>nic_cdm_id := GNI_CDM_INVALID_ID\<rparr>) (upd_slot d j None (link n d j cid k))" and ?r = "upd_nic n (\<lambda>x. x\<lparr>nic_my_id := of_nat j\<rparr>) k"
  have "nics ?l = (nics k)(n \<mapsto> nic\<lparr>nic_my_id := of_nat j, nic_cdm_id := GNI_CDM_INVALID_ID\<rparr>)"
    using nic by (simp add: link_def upd_nic_def)
  then have a: "nics ?l = nics ?r" unfolding e using nic by (simp add: upd_nic_def)
  have "cdms ?l = (cdms k)(d \<mapsto> c\<lparr>cdm_nic_hndls := (cdm_nic_hndls c)[j := None]\<rparr>)"
    using d by (simp add: link_def upd_slot_cdms)
  then have b: "cdms ?l = cdms ?r" unfolding c using d by (simp add: fun_upd_idem)
  show ?thesis
    by (rule kgni.equality) (simp_all only: a b, simp_all add: link_def upd_nic_def upd_slot_def upd_cdm_def)
qed

lemma slot_loop_free:
  assumes nic: "nics k n = Some nic" "nic_cdm_id nic = GNI_CDM_INVALID_ID" and d: "cdms k d = Some c" "cdm_my_id c \<noteq> GNI_CDM_INVALID_ID"
    and live: "\<forall>j \<in> set is. j < length (cdm_nic_hndls c) \<and> (\<forall>x. cdm_nic_hndls c ! j = Some x \<longrightarrow> x \<noteq> n \<and> nics k x \<noteq> None)"
    and "distinct is" and "\<forall>j \<in> set is. j < 2 ^ 32"
  shows "\<exists>b k'. slot_loop n d is k = Some (b, k') \<and>
    (\<not> b \<longrightarrow> (\<exists>j \<in> set is. cdm_nic_hndls c ! j \<noteq> None)) \<and>
    (k' = k \<and> (b \<longrightarrow> (\<forall>j \<in> set is. cdm_nic_hndls c ! j \<noteq> None)) \<or> (\<exists>i \<in> set is. cdm_nic_hndls c ! i = None \<and>
       k' = (if b then link n d i (cdm_my_id c) k else upd_nic n (\<lambda>x. x\<lparr>nic_my_id := of_nat i\<rparr>) k)))"
  using live assms(6,7)
proof (induction "is")
  case (Cons j js)
  show ?case
  proof (cases "cdm_nic_hndls c ! j")
    case (Some x)
    with Cons.prems obtain y where y: "nics k x = Some y" by auto
    have j: "array_get (cdm_nic_hndls c) j = Some (Some x)" using Some Cons.prems(1) by (simp add: array_get_def)
    show ?thesis
    proof (cases "nic_pe y = nic_pe nic")
      case True
      with Some j y nic d show ?thesis by auto
    next
      case False
      with j y nic d have e: "slot_loop n d (j # js) k = slot_loop n d js k" by simp
      have "\<forall>j \<in> set js. j < length (cdm_nic_hndls c) \<and> (\<forall>x. cdm_nic_hndls c ! j = Some x \<longrightarrow> x \<noteq> n \<and> nics k x \<noteq> None)"
        "distinct js" "\<forall>j \<in> set js. j < 2 ^ 32" using Cons.prems by simp_all
      from Cons.IH[OF this] obtain b k' where "slot_loop n d js k = Some (b, k')" "\<not> b \<longrightarrow> (\<exists>j \<in> set js. cdm_nic_hndls c ! j \<noteq> None)"
        "k' = k \<and> (b \<longrightarrow> (\<forall>j \<in> set js. cdm_nic_hndls c ! j \<noteq> None)) \<or> (\<exists>i \<in> set js. cdm_nic_hndls c ! i = None \<and>
         k' = (if b then link n d i (cdm_my_id c) k else upd_nic n (\<lambda>x. x\<lparr>nic_my_id := of_nat i\<rparr>) k))" by blast
      then show ?thesis unfolding e using Some by (intro exI[of _ b] exI[of _ k']) auto
    qed
  next
    case None
    let ?k = "link n d j (cdm_my_id c) k" and ?nic = "nic\<lparr>nic_cdm_id := cdm_my_id c, nic_my_id := of_nat j\<rparr>"
    let ?c = "c\<lparr>cdm_nic_hndls := (cdm_nic_hndls c)[j := Some n]\<rparr>"
    have j: "j < length (cdm_nic_hndls c)" "unat (of_nat j :: u32) = j"
      using Cons.prems by (simp_all add: unsigned_of_nat take_bit_nat_eq_self)
    have kk: "nics ?k n = Some ?nic" "cdms ?k d = Some ?c" "\<And>x. x \<noteq> n \<Longrightarrow> nics ?k x = nics k x"
      using nic d by (auto simp: link_def upd_nic_def upd_slot_cdms)
    have "slot_loop n d js ?k = Some (True, ?k) \<or> (\<exists>l \<in> set js. cdm_nic_hndls ?c ! l \<noteq> None) \<and>
      slot_loop n d js ?k = Some (False, upd_nic n (\<lambda>x. x\<lparr>nic_cdm_id := GNI_CDM_INVALID_ID\<rparr>) (upd_slot d (unat (nic_my_id ?nic)) None ?k))"
    proof (rule slot_loop_linked[OF kk(1,2)])
      show "\<forall>l \<in> set js. l < length (cdm_nic_hndls ?c) \<and> (\<forall>x. cdm_nic_hndls ?c ! l = Some x \<longrightarrow> nics ?k x \<noteq> None)"
        using Cons.prems(1,2) kk by (auto simp: nth_list_update)
    qed (use d j in simp_all)
    moreover note link_undo[OF nic d(1) None, of "cdm_my_id c"]
    moreover have "slot_loop n d (j # js) k = slot_loop n d js ?k" using None j nic d by (simp add: link_def)
    moreover have "cdm_nic_hndls ?c ! l = cdm_nic_hndls c ! l" if "l \<in> set js" for l
      using that Cons.prems(2) by (cases "l = j") simp_all
    ultimately show ?thesis using None j by auto
  qed
qed auto

text \<open>Finding or creating the domain, when nobody else is at work.\<close>

definition att_key :: "gni_nic_setattr_args \<Rightarrow> u8 \<times> u32 \<times> u32" where
  "att_key at = (ucast (sa_ptag at), sa_cookie at, sa_rank at)"

lemma attach_find_ok:
  assumes inv: "att_inv env s" and mem: "\<And>a. cdm_mem ae = Some a \<Longrightarrow> cdms (sy_k s) a = None"
    and room: "cdm_abs (sy_k s) (att_key at) = None \<Longrightarrow> tab_room (sy_k s)"
  shows "(\<exists>e. attach_find env ae [\<lambda>k. k, \<lambda>k. k] at (sy_k s) = Some (Inl e, sy_k s)) \<or>
    (\<exists>d c k. attach_find env ae [\<lambda>k. k, \<lambda>k. k] at (sy_k s) = Some (Inr d, k) \<and> att_inv env (s\<lparr>sy_k := k\<rparr>) \<and> cdms k d = Some c \<and>
       (k = sy_k s \<and> cdm_abs (sy_k s) (att_key at) = Some d \<or>
        cdm_abs (sy_k s) (att_key at) = None \<and> cdms (sy_k s) d = None \<and> (\<exists>j. kgni_cdm_array (sy_k s) ! j = None \<and> j < 2 ^ 32 - 1 \<and>
          k = add_cdm d j (new_cdm (sa_rank at) (ucast (sa_ptag at)) (sa_cookie at) (sa_modes at)) (sy_k s))))"
proof -
  let ?k = "sy_k s" and ?p = "ucast (sa_ptag at) :: u8"
  note t = att_invD(2)[OF inv] and len = att_invD(7)[OF inv] and mx = att_invD(6)[OF inv]
  from kgni_cdm_lookup_abs[OF t len, of ?p "sa_cookie at" "sa_rank at"] obtain r where
    r: "kgni_cdm_lookup env ?p (sa_cookie at) (sa_rank at) ?k = Some r" "map_option fst r = cdm_abs ?k (att_key at)"
    by (auto simp: att_key_def)
  show ?thesis
  proof (cases r)
    case (Some x)
    obtain d j where x: "x = (d, j)" by (cases x)
    with r(2) Some have a: "cdm_abs ?k (att_key at) = Some d" by simp
    then obtain c where c: "cdms ?k d = Some c" using cdm_abs_iff[OF t] by (auto simp: att_key_def)
    with tab_okD(2)[OF t c] r(1) Some x a inv show ?thesis by auto
  next
    case None
    with r(2) have a: "cdm_abs ?k (att_key at) = None" by simp
    show ?thesis
    proof (cases "cdm_mem ae")
      case None
      with \<open>r = None\<close> r(1) show ?thesis by (auto simp: gni_cdm_create_def)
    next
      case (Some m)
      have m: "cdms ?k m = None" using mem Some by blast
      obtain j where j: "j < length (kgni_cdm_array ?k)" "kgni_cdm_array ?k ! j = None"
        "gni_cdm_create env (Some m) (sa_rank at) ?p (sa_cookie at) (sa_modes at) True ?k =
           Some (GNI_RC_SUCCESS, Some m, add_cdm m j (new_cdm (sa_rank at) ?p (sa_cookie at) (sa_modes at)) ?k)"
        by (rule gni_cdm_create_new[OF t len mx m, of ?p "sa_cookie at" "sa_rank at" "sa_modes at"])
          (use a room[OF a] in \<open>auto simp: att_key_def\<close>)
      let ?k1 = "add_cdm m j (new_cdm (sa_rank at) ?p (sa_cookie at) (sa_modes at)) ?k"
      have "att_inv env (s\<lparr>sy_k := ?k1\<rparr>)"
        by (rule att_inv_add_cdm[OF inv m _ j(1,2)]) (use a in \<open>simp add: att_key_def\<close>)
      moreover have "\<exists>c. cdms ?k1 m = Some c \<and> cdm_type_id c = GNI_TYPE_CDM_HANDLE" by (simp add: add_cdm_def)
      ultimately have "attach_find env ae [\<lambda>k. k, \<lambda>k. k] at ?k = Some (Inr m, ?k1) \<and> att_inv env (s\<lparr>sy_k := ?k1\<rparr>) \<and> (\<exists>c. cdms ?k1 m = Some c)"
        using Some \<open>r = None\<close> r(1) j(3) by auto
      moreover have "j < 2 ^ 32 - 1" using j(1) len mx by simp
      ultimately show ?thesis using a m j(2) by blast
    qed
  qed
qed

text \<open>The answers a user attach may get from the code outside the repository.\<close>

definition att_env_ok :: "kgni_env \<Rightarrow> att_env \<Rightarrow> addr \<Rightarrow> gni_nic_setattr_args \<Rightarrow> sys \<Rightarrow> bool" where
  "att_env_ok env ae n at s \<longleftrightarrow> setup_env_ok env ae n s \<and> rsrc_env_ok (ae_rsrc ae) \<and> (\<forall>a. cdm_mem ae = Some a \<longrightarrow> cdms (sy_k s) a = None) \<and>
     (cdm_abs (sy_k s) (att_key at) = None \<longrightarrow> tab_room (sy_k s))"

text \<open>The domain is not empty, or is created by the attach.\<close>

definition dom_used :: "gni_nic_setattr_args \<Rightarrow> kgni \<Rightarrow> bool" where
  "dom_used at k \<longleftrightarrow> (\<forall>d c. cdm_abs k (att_key at) = Some d \<longrightarrow> cdms k d = Some c \<longrightarrow> (\<exists>e \<in> set (cdm_nic_hndls c). e \<noteq> None))"

lemma unattached_refl:
  "nics k n = Some nic \<Longrightarrow> nic_cdm_id nic = GNI_CDM_INVALID_ID \<Longrightarrow> fresh_nic nic \<Longrightarrow> unattached n k k"
  unfolding unattached_def by (auto simp: fun_upd_idem intro!: exI[of _ nic])

lemma undone_link:
  assumes d: "cdms k1 d = Some c" "cdm_nic_hndls c ! i = None" "i < length (cdm_nic_hndls c)" "i < 2 ^ 32"
    and n: "nics k1 n = Some nic" "fresh_nic nic" and u: "undone n d (link n d i cid k1) k'"
  shows "\<exists>nic'. nics k' = (nics k1)(n \<mapsto> nic') \<and> nic_cdm_id nic' = GNI_CDM_INVALID_ID \<and> fresh_nic (nic'\<lparr>nic_ptag := 0\<rparr>) \<and>
    chnls k' = chnls k1 \<and> sms k' = sms k1 \<and> kgni_sm_list k' = kgni_sm_list k1 \<and>
    (if \<forall>e \<in> set (cdm_nic_hndls c). e = None
     then cdms k' = (cdms k1)(d := None) \<and> kgni_cdm_array k' = (kgni_cdm_array k1)[unat (cdm_my_id c) := None]
     else cdms k' = cdms k1 \<and> kgni_cdm_array k' = kgni_cdm_array k1)"
proof -
  let ?c = "c\<lparr>cdm_nic_hndls := (cdm_nic_hndls c)[i := Some n]\<rparr>" and ?nic = "nic\<lparr>nic_cdm_id := cid, nic_my_id := of_nat i\<rparr>"
  have i: "unat (of_nat i :: u32) = i" using d(4) by (simp add: unsigned_of_nat take_bit_nat_eq_self)
  have lk: "cdms (link n d i cid k1) = (cdms k1)(d \<mapsto> ?c)" "nics (link n d i cid k1) = (nics k1)(n \<mapsto> ?nic)"
    "chnls (link n d i cid k1) = chnls k1" "sms (link n d i cid k1) = sms k1" "kgni_sm_list (link n d i cid k1) = kgni_sm_list k1"
    "kgni_cdm_array (link n d i cid k1) = kgni_cdm_array k1"
    using d(1) n(1) by (simp_all add: link_def upd_slot_cdms upd_nic_def)
  have hs: "(cdm_nic_hndls ?c)[unat (nic_my_id ?nic) := None] = cdm_nic_hndls c" using d(2) i by (simp) (metis list_update_id)
  have cc: "?c\<lparr>cdm_nic_hndls := cdm_nic_hndls c\<rparr> = c" by simp
  have bk: "(cdms k1)(d \<mapsto> c) = cdms k1" using d(1) by (simp add: fun_upd_idem)
  from u[unfolded undone_def lk] obtain nic' where nic': "nics k' = (nics k1)(n \<mapsto> nic')" "nic_cdm_id nic' = GNI_CDM_INVALID_ID"
    "nic_sm_chnl_hndl nic' = None" "nic_sm_pkts nic' = None" "pages nic' = {}" "nic_sm_pkt_id nic' = nic_sm_pkt_id nic"
    "chnls k' = chnls k1" "sms k' = sms k1" "kgni_sm_list k' = kgni_sm_list k1"
    "if \<forall>e \<in> set (cdm_nic_hndls c). e = None then cdms k' = (cdms k1)(d := None) \<and> kgni_cdm_array k' = (kgni_cdm_array k1)[unat (cdm_my_id c) := None]
     else cdms k' = cdms k1 \<and> kgni_cdm_array k' = kgni_cdm_array k1"
    using hs n(2) by (auto simp: Let_def cc bk fresh_nic_def)
  then show ?thesis using n(2) by (intro exI[of _ nic']) (auto simp: fresh_nic_def pages_def)
qed

text \<open>The attach from the search for an entry on.\<close>

definition attach_enter :: "kgni_env \<Rightarrow> att_env \<Rightarrow> gni_nic_setattr_args \<Rightarrow> addr \<Rightarrow> addr \<Rightarrow> sys \<Rightarrow> (int \<times> sys) run" where
  "attach_enter env ae at n d s = do {
     (fine, k) \<leftarrow> slot_loop n d [0..<GNI_MAX_NICS_ATTACHED] (sy_k s);
     let s = s\<lparr>sy_k := k\<rparr>;
     nic \<leftarrow> nics k n;
     if \<not> fine then Some (- EEXIST, s)
     else if nic_cdm_id nic = GNI_CDM_INVALID_ID then Some (- EMFILE, clr n s)
     else do {
       (r, s) \<leftarrow> attach_setup env ae at n d s;
       (case r of
          None \<Rightarrow> Some (0, s)
        | Some (e, l) \<Rightarrow> do {
            s \<leftarrow> attach_unwind ae n d l s;
            Some (e, clr n s)
          })
     }
   }"

definition left :: "addr \<Rightarrow> addr \<Rightarrow> gni_cdm \<Rightarrow> kgni \<Rightarrow> kgni \<Rightarrow> bool" where
  "left n d c k k' \<longleftrightarrow> (\<exists>nic'. nics k' = (nics k)(n \<mapsto> nic') \<and> nic_cdm_id nic' = GNI_CDM_INVALID_ID \<and> fresh_nic nic') \<and>
    chnls k' = chnls k \<and> sms k' = sms k \<and> kgni_sm_list k' = kgni_sm_list k \<and>
    (if \<forall>e \<in> set (cdm_nic_hndls c). e = None
     then cdms k' = (cdms k)(d := None) \<and> kgni_cdm_array k' = (kgni_cdm_array k)[unat (cdm_my_id c) := None]
     else cdms k' = cdms k \<and> kgni_cdm_array k' = kgni_cdm_array k)"

definition entered :: "addr \<Rightarrow> addr \<Rightarrow> gni_cdm \<Rightarrow> kgni \<Rightarrow> kgni \<Rightarrow> bool" where
  "entered n d c k k' \<longleftrightarrow> (\<exists>nic' i. nics k' = (nics k)(n \<mapsto> nic') \<and> nic_sm_chnl_hndl nic' \<noteq> None \<and> nic_cdm_id nic' = cdm_my_id c \<and>
     i < length (cdm_nic_hndls c) \<and> cdm_nic_hndls c ! i = None \<and> kgni_cdm_array k' = kgni_cdm_array k \<and>
     cdms k' = (cdms k)(d \<mapsto> c\<lparr>cdm_nic_hndls := (cdm_nic_hndls c)[i := Some n]\<rparr>))"

lemma left_nic:
  assumes "nics k n = Some nic" "nic_cdm_id nic = GNI_CDM_INVALID_ID" "fresh_nic nic" and "e \<in> set (cdm_nic_hndls c)" "e \<noteq> None"
  shows "left n d c k (upd_nic n (\<lambda>x. x\<lparr>nic_my_id := i\<rparr>) k)" "left n d c k k"
  using assms unfolding left_def by (auto simp: upd_nic_def fresh_nic_def fun_upd_idem intro: exI[of _ nic])

lemma upd_nic_rest:
  "chnls (upd_nic n f k) = chnls k" "sms (upd_nic n f k) = sms k" "kgni_sm_list (upd_nic n f k) = kgni_sm_list k"
  "cdms (upd_nic n f k) = cdms k" "kgni_cdm_array (upd_nic n f k) = kgni_cdm_array k"
  by (simp_all add: upd_nic_def)

lemma left_link:
  assumes "cdms k d = Some c" "cdm_nic_hndls c ! i = None" "i < length (cdm_nic_hndls c)" "i < 2 ^ 32"
    and "nics k n = Some nic" "fresh_nic nic" and "undone n d (link n d i cid k) k'"
  shows "left n d c k (upd_nic n (\<lambda>x. x\<lparr>nic_ptag := 0\<rparr>) k')"
proof -
  from undone_link[OF assms] obtain nic' where "nics k' = (nics k)(n \<mapsto> nic')" "nic_cdm_id nic' = GNI_CDM_INVALID_ID"
    "fresh_nic (nic'\<lparr>nic_ptag := 0\<rparr>)"
    and rest: "chnls k' = chnls k" "sms k' = sms k" "kgni_sm_list k' = kgni_sm_list k"
    "if \<forall>e \<in> set (cdm_nic_hndls c). e = None
     then cdms k' = (cdms k)(d := None) \<and> kgni_cdm_array k' = (kgni_cdm_array k)[unat (cdm_my_id c) := None]
     else cdms k' = cdms k \<and> kgni_cdm_array k' = kgni_cdm_array k" by blast
  then have "\<exists>y. nics (upd_nic n (\<lambda>x. x\<lparr>nic_ptag := 0\<rparr>) k') = (nics k)(n \<mapsto> y) \<and> nic_cdm_id y = GNI_CDM_INVALID_ID \<and> fresh_nic y"
    by (intro exI[of _ "nic'\<lparr>nic_ptag := 0\<rparr>"]) (simp add: upd_nic_def)
  then show ?thesis unfolding left_def upd_nic_rest by (intro conjI rest)
qed

lemma nth_not_None: "j < length xs \<Longrightarrow> xs ! j \<noteq> None \<Longrightarrow> \<exists>e \<in> set xs. e \<noteq> None"
  using nth_mem by blast

lemma attach_enter_safe:
  assumes inv: "att_inv env s" and nic: "nics (sy_k s) n = Some nic" "nic_cdm_id nic = GNI_CDM_INVALID_ID" "fresh_nic nic"
    and d: "cdms (sy_k s) d = Some c" and ptag: "(ucast (sa_ptag at) :: u8) \<noteq> 0" and env: "setup_env_ok env ae n s"
  shows "\<exists>e s'. attach_enter env ae at n d s = Some (e, s') \<and> att_inv env s' \<and>
    (e = 0 \<and> entered n d c (sy_k s) (sy_k s') \<or> left n d c (sy_k s) (sy_k s'))"
proof -
  let ?k = "sy_k s" and ?is = "[0..<GNI_MAX_NICS_ATTACHED]"
  note len = tab_okD(3)[OF att_invD(2)[OF inv] d] and vid = valid_id[OF inv d]
  have ent: "j < length (cdm_nic_hndls c) \<and> (\<forall>x. cdm_nic_hndls c ! j = Some x \<longrightarrow> x \<noteq> n \<and> nics ?k x \<noteq> None)" if "j \<in> set ?is" for j
    using that len nic(1,2) vid att_invD(3)[OF inv] d unfolding att_ok_def by fastforce
  have i32: "\<forall>j \<in> set ?is. j < 2 ^ 32" by simp
  from slot_loop_free[OF nic(1,2) d vid _ distinct_upt i32] ent obtain b k' where sl: "slot_loop n d ?is ?k = Some (b, k')"
    "\<not> b \<longrightarrow> (\<exists>j \<in> set ?is. cdm_nic_hndls c ! j \<noteq> None)"
    "k' = ?k \<and> (b \<longrightarrow> (\<forall>j \<in> set ?is. cdm_nic_hndls c ! j \<noteq> None)) \<or> (\<exists>i \<in> set ?is. cdm_nic_hndls c ! i = None \<and>
       k' = (if b then link n d i (cdm_my_id c) ?k else upd_nic n (\<lambda>x. x\<lparr>nic_my_id := of_nat i\<rparr>) ?k))" by blast
  from sl(3) consider (same) "k' = ?k" "b \<longrightarrow> (\<forall>j \<in> set ?is. cdm_nic_hndls c ! j \<noteq> None)"
    | (given) i where "\<not> b" "i \<in> set ?is" "cdm_nic_hndls c ! i = None" "k' = upd_nic n (\<lambda>x. x\<lparr>nic_my_id := of_nat i\<rparr>) ?k"
    | (linked) i where "b" "i \<in> set ?is" "cdm_nic_hndls c ! i = None" "k' = link n d i (cdm_my_id c) ?k"
    by (cases b; simp only: if_True if_False simp_thms; blast)
  then show ?thesis
  proof cases
    case same
    have "0 \<in> set ?is" by simp
    with same(2) sl(2) obtain j where "j \<in> set ?is" "cdm_nic_hndls c ! j \<noteq> None" by (cases b) blast+
    with ent nth_not_None obtain e where "e \<in> set (cdm_nic_hndls c)" "e \<noteq> None" by metis
    note l = left_nic(2)[OF nic this]
    have "clr n (s\<lparr>sy_k := ?k\<rparr>) = s" using nic(1,3) by (simp add: clr_def sys_nic_def upd_nic_def fresh_nic_def fun_upd_idem)
    with sl(1) same(1) nic inv l show ?thesis by (cases b) (simp_all add: attach_enter_def)
  next
    case given
    from given(1) sl(2) ent nth_not_None obtain e where "e \<in> set (cdm_nic_hndls c)" "e \<noteq> None" by metis
    note l = left_nic(1)[OF nic this]
    have i: "i < GNI_MAX_NICS_ATTACHED" "unat (of_nat i :: u32) = i" using given(2) i32 by (auto simp: unsigned_of_nat take_bit_nat_eq_self)
    let ?lk = "link n d i (cdm_my_id c) ?k"
    have lk: "nics ?lk n = Some (nic\<lparr>nic_cdm_id := cdm_my_id c, nic_my_id := of_nat i\<rparr>)" "sms ?lk = sms ?k"
      "cdms ?lk d = Some (c\<lparr>cdm_nic_hndls := (cdm_nic_hndls c)[i := Some n]\<rparr>)"
      using nic d by (simp_all add: link_def upd_nic_def upd_slot_cdms)
    have a: "att_inv env (s\<lparr>sy_k := ?lk\<rparr>)" unfolding link_def by (rule att_inv_link[OF inv nic(1,2) d i(1) given(3)])
    have "no_sessions n ?lk" using unattached_no_sessions[OF att_invD(1)[OF inv] nic(1,2)] lk(2) by (simp add: no_sessions_def)
    with att_inv_unlink[OF a, of n _ "c\<lparr>cdm_nic_hndls := (cdm_nic_hndls c)[i := Some n]\<rparr>" d i] lk i(2) nic(3)
    have "att_inv env (s\<lparr>sy_k := upd_nic n (\<lambda>x. x\<lparr>nic_cdm_id := GNI_CDM_INVALID_ID\<rparr>) (upd_slot d i None ?lk)\<rparr>)"
      by (auto simp: fresh_nic_def)
    from this[unfolded link_undo[OF nic(1,2) d given(3)]] sl(1) given(1,4) nic l show ?thesis
      by (simp add: attach_enter_def upd_nic_def)
  next
    case linked
    let ?s = "s\<lparr>sy_k := k'\<rparr>" and ?nic = "nic\<lparr>nic_cdm_id := cdm_my_id c, nic_my_id := of_nat i\<rparr>"
      and ?c = "c\<lparr>cdm_nic_hndls := (cdm_nic_hndls c)[i := Some n]\<rparr>"
    have i: "i < GNI_MAX_NICS_ATTACHED" "i < length (cdm_nic_hndls c)" "i < 2 ^ 32" using linked(2) i32 len by auto
    have lk: "nics k' n = Some ?nic" "sms k' = sms ?k" "chnls k' = chnls ?k" "cdms k' = (cdms ?k)(d \<mapsto> ?c)" "kgni_cdm_array k' = kgni_cdm_array ?k"
      using nic d by (simp_all add: linked(4) link_def upd_nic_def upd_slot_cdms)
    have a: "att_inv env ?s" unfolding linked(4) link_def by (rule att_inv_link[OF inv nic(1,2) d i(1) linked(3)])
    have ns: "no_sessions n k'" using unattached_no_sessions[OF att_invD(1)[OF inv] nic(1,2)] lk(2) by (simp add: no_sessions_def)
    have env': "setup_env_ok env ae n ?s" using env lk(3) by (simp add: setup_env_ok_def chnl_env_ok_def)
    have fr: "fresh_nic ?nic" using nic(3) by (simp add: fresh_nic_def)
    from attach_tail[OF a _ _ fr _ _ ptag env', of ?c d] lk ns obtain x s1 where x: "attach_setup env ae at n d ?s = Some (x, s1)"
      "case x of None \<Rightarrow> att_inv env s1 \<and> frame n ?s s1 \<and> (\<exists>nic'. nics (sy_k s1) n = Some nic' \<and> nic_sm_chnl_hndl nic' \<noteq> None \<and>
         nic_cdm_id nic' = nic_cdm_id ?nic)
     | Some (e, l) \<Rightarrow> \<exists>s2. attach_unwind ae n d l s1 = Some s2 \<and> att_inv env (clr n s2) \<and> undone n d (sy_k ?s) (sy_k s2)" by auto
    show ?thesis
    proof (cases x)
      case None
      with x(2) have y: "att_inv env s1" "frame n ?s s1" by simp_all
      from x(2) None obtain nic' where nic': "nics (sy_k s1) n = Some nic'" "nic_sm_chnl_hndl nic' \<noteq> None" "nic_cdm_id nic' = cdm_my_id c" by auto
      have "nics (sy_k s1) = (nics ?k)(n \<mapsto> nic')"
        using nic'(1) frame_k(5)[OF y(2)] by (auto simp: fun_eq_iff linked(4) link_def upd_nic_def)
      then have "entered n d c ?k (sy_k s1)" unfolding entered_def using nic' frame_k[OF y(2)] lk i(2) linked(3)
        by (intro exI[of _ nic'] exI[of _ i]) simp
      with y(1) x(1) sl(1) None linked(1) lk(1) vid show ?thesis by (simp add: attach_enter_def)
    next
      case (Some el)
      obtain e l where el: "el = (e, l)" by (cases el)
      with x(2) Some obtain s2 where s2: "attach_unwind ae n d l s1 = Some s2" "att_inv env (clr n s2)" "undone n d k' (sy_k s2)" by auto
      have "left n d c ?k (sy_k (clr n s2))" using left_link[OF d linked(3) i(2,3) nic(1,3), of "cdm_my_id c" "sy_k s2"] s2(3) linked(4)
        by (simp add: clr_def)
      with x(1) sl(1) Some el linked(1) lk(1) vid s2 show ?thesis by (simp add: attach_enter_def)
    qed
  qed
qed

lemma kgni_nic_attach_enter:
  assumes "nics (sy_k s) n = Some nic" "nic_cdm_id nic = GNI_CDM_INVALID_ID"
    and "kgni_user_ptag_pkey_check (ae_rsrc ae) (sa_ptag at) (GNI_COOKIE_PKEY (sa_cookie at)) = 0"
    and "attach_find env ae [b1, b2] at (sy_k s) = Some (Inr d, k)"
  shows "kgni_nic_attach env ae b1 b2 n at s = attach_enter env ae at n d (s\<lparr>sy_k := k\<rparr>)"
  using assms unfolding kgni_nic_attach_def attach_enter_def clr_def by (simp del: attach_find.simps)

text \<open>The NIC has joined the domain with the key of the call, which was there before or is new.\<close>

definition joined :: "addr \<Rightarrow> gni_nic_setattr_args \<Rightarrow> kgni \<Rightarrow> kgni \<Rightarrow> bool" where
  "joined n at k k' \<longleftrightarrow> (\<exists>d c k1. entered n d c k1 k' \<and> cdms k1 d = Some c \<and> cdm_match (ucast (sa_ptag at)) (sa_cookie at) (sa_rank at) c \<and>
     (k1 = k \<or> cdm_abs k (att_key at) = None \<and> cdms k d = None \<and> (\<exists>j. k1 = add_cdm d j (new_cdm (sa_rank at) (ucast (sa_ptag at)) (sa_cookie at) (sa_modes at)) k)))"

definition att_result :: "addr \<Rightarrow> gni_nic_setattr_args \<Rightarrow> sys \<Rightarrow> int \<times> sys \<Rightarrow> bool" where
  "att_result n at s r \<longleftrightarrow> (case r of (e, s') \<Rightarrow>
     e = 0 \<and> joined n at (sy_k s) (sy_k s') \<or> (dom_used at (sy_k s) \<longrightarrow> unattached n (sy_k s) (sy_k s')))"

lemma joined_attached:
  assumes inv: "att_inv env s'" and j: "joined n at k (sy_k s')"
  shows "\<exists>nic' d c. nics (sy_k s') n = Some nic' \<and> nic_sm_chnl_hndl nic' \<noteq> None \<and> nic_cdm_id nic' = cdm_my_id c \<and>
    cdm_abs (sy_k s') (att_key at) = Some d \<and> cdms (sy_k s') d = Some c \<and> Some n \<in> set (cdm_nic_hndls c)"
proof -
  from j obtain d c k1 where e: "entered n d c k1 (sy_k s')" and c: "cdm_match (ucast (sa_ptag at)) (sa_cookie at) (sa_rank at) c"
    unfolding joined_def by blast
  let ?c = "\<lambda>i. c\<lparr>cdm_nic_hndls := (cdm_nic_hndls c)[i := Some n]\<rparr>"
  from e obtain nic' i where i: "nics (sy_k s') = (nics k1)(n \<mapsto> nic')" "nic_sm_chnl_hndl nic' \<noteq> None" "nic_cdm_id nic' = cdm_my_id c"
    "i < length (cdm_nic_hndls c)" "cdms (sy_k s') = (cdms k1)(d \<mapsto> ?c i)" unfolding entered_def by blast
  have "cdm_match (ucast (sa_ptag at)) (sa_cookie at) (sa_rank at) (?c i)" using c by (simp add: cdm_match_def)
  then have a: "cdm_abs (sy_k s') (att_key at) = Some d" using cdm_abs_iff[OF att_invD(2)[OF inv]] i(5) by (simp add: att_key_def)
  have m: "Some n \<in> set ((cdm_nic_hndls c)[i := Some n])" using i(4) by (rule set_update_memI)
  show ?thesis using i a m by (intro conjI exI[of _ nic'] exI[of _ d] exI[of _ "?c i"]) simp_all
qed

lemma unattached_left:
  assumes l: "left n d c k k'" and c: "cdms k d = Some c"
    and src: "k = k0 \<and> (\<exists>e \<in> set (cdm_nic_hndls c). e \<noteq> None) \<or>
      cdms k0 d = None \<and> kgni_cdm_array k0 ! j = None \<and> j < 2 ^ 32 - 1 \<and> k = add_cdm d j (new_cdm i p ck m) k0"
  shows "unattached n k0 k'"
proof (cases "k = k0 \<and> (\<exists>e \<in> set (cdm_nic_hndls c). e \<noteq> None)")
  case True
  then have "\<not> (\<forall>e \<in> set (cdm_nic_hndls c). e = None)" by blast
  with l True show ?thesis unfolding left_def unattached_def if_not_P[OF \<open>\<not> _\<close>] by blast
next
  case False
  with src have n: "cdms k0 d = None" "kgni_cdm_array k0 ! j = None" "j < 2 ^ 32" "k = add_cdm d j (new_cdm i p ck m) k0" by auto
  with c have cc: "c = (new_cdm i p ck m)\<lparr>cdm_my_id := of_nat j\<rparr>" by (simp add: add_cdm_def)
  then have all: "\<forall>e \<in> set (cdm_nic_hndls c). e = None" by simp
  have j: "unat (cdm_my_id c) = j" using n(3) cc by (simp add: unsigned_of_nat take_bit_nat_eq_self)
  have "(kgni_cdm_array k0)[j := None] = kgni_cdm_array k0" using n(2) by (metis list_update_id)
  moreover have "(cdms k0)(d := None) = cdms k0" using n(1) by (simp add: fun_upd_idem)
  ultimately show ?thesis using l unfolding left_def unattached_def if_P[OF all] j n(4) by (simp add: add_cdm_def)
qed

text \<open>Of the NICs only the one that is attached changes, and it can be attached again unless it is attached now.\<close>

definition att_nic :: "addr \<Rightarrow> kgni \<Rightarrow> kgni \<Rightarrow> bool" where
  "att_nic n k k' \<longleftrightarrow> (\<exists>nic'. nics k' = (nics k)(n \<mapsto> nic') \<and> (nic_cdm_id nic' = GNI_CDM_INVALID_ID \<longrightarrow> fresh_nic nic'))"

lemma att_nic_unattached: "unattached n k k' \<Longrightarrow> att_nic n k k'"
  unfolding unattached_def att_nic_def by blast

lemma kgni_nic_attach_safe:
  assumes inv: "att_inv env s" and nic: "nics (sy_k s) n = Some nic" "nic_cdm_id nic = GNI_CDM_INVALID_ID" "fresh_nic nic"
    and env: "att_env_ok env ae n at s"
  shows "ok (kgni_nic_attach env ae (\<lambda>k. k) (\<lambda>k. k) n at s) (\<lambda>r. att_inv env (snd r) \<and> att_result n at s r \<and> att_nic n (sy_k s) (sy_k (snd r)))"
proof -
  let ?chk = "kgni_user_ptag_pkey_check (ae_rsrc ae) (sa_ptag at) (GNI_COOKIE_PKEY (sa_cookie at))"
  have stay: "att_result n at s (e, s\<lparr>sy_k := k\<rparr>)" if "unattached n (sy_k s) k" for e k using that by (simp add: att_result_def)
  have self: "unattached n (sy_k s) (sy_k s)" by (rule unattached_refl[OF nic])
  show ?thesis
  proof (cases "?chk = 0")
    case False
    with nic inv stay[OF self] att_nic_unattached[OF self] show ?thesis by (simp add: kgni_nic_attach_def)
  next
    case chk: True
    have ptag: "(ucast (sa_ptag at) :: u8) \<noteq> 0"
      using env chk ptag_ucast unfolding att_env_ok_def rsrc_env_ok_def by blast
    from attach_find_ok[OF inv, of ae at] env consider (err) e where "attach_find env ae [\<lambda>k. k, \<lambda>k. k] at (sy_k s) = Some (Inl e, sy_k s)"
      | (found) d c k where "attach_find env ae [\<lambda>k. k, \<lambda>k. k] at (sy_k s) = Some (Inr d, k)" "att_inv env (s\<lparr>sy_k := k\<rparr>)" "cdms k d = Some c"
        "k = sy_k s \<and> cdm_abs (sy_k s) (att_key at) = Some d \<or>
        cdm_abs (sy_k s) (att_key at) = None \<and> cdms (sy_k s) d = None \<and> (\<exists>j. kgni_cdm_array (sy_k s) ! j = None \<and> j < 2 ^ 32 - 1 \<and>
          k = add_cdm d j (new_cdm (sa_rank at) (ucast (sa_ptag at)) (sa_cookie at) (sa_modes at)) (sy_k s))"
      unfolding att_env_ok_def by blast
    then show ?thesis
    proof cases
      case err
      with chk nic inv stay[OF self] att_nic_unattached[OF self] show ?thesis by (simp add: kgni_nic_attach_def)
    next
      case found
      let ?s = "s\<lparr>sy_k := k\<rparr>"
      have k: "nics k = nics (sy_k s)" "chnls k = chnls (sy_k s)" using found(4) by (auto simp: add_cdm_def)
      have env': "setup_env_ok env ae n ?s" using env k(2) by (simp add: att_env_ok_def setup_env_ok_def chnl_env_ok_def)
      from attach_enter_safe[OF found(2) _ nic(2,3) _ ptag env', of d c] found(3) k(1) nic(1) obtain e s' where
        r: "attach_enter env ae at n d ?s = Some (e, s')" "att_inv env s'" "e = 0 \<and> entered n d c k (sy_k s') \<or> left n d c k (sy_k s')" by auto
      have match: "cdm_match (ucast (sa_ptag at)) (sa_cookie at) (sa_rank at) c"
        using found(3,4) cdm_abs_iff[OF att_invD(2)[OF inv]] by (auto simp: att_key_def add_cdm_def cdm_match_def)
      have "att_result n at s (e, s')"
      proof (cases "left n d c k (sy_k s')")
        case True
        have "unattached n (sy_k s) (sy_k s')" if "dom_used at (sy_k s)"
          using found(4)
        proof (elim disjE conjE exE)
          assume "k = sy_k s" "cdm_abs (sy_k s) (att_key at) = Some d"
          with that found(3) unattached_left[OF True found(3)] show ?thesis unfolding dom_used_def by metis
        qed (use unattached_left[OF True found(3)] in metis)
        then show ?thesis by (simp add: att_result_def)
      next
        case False
        with r(3) have e: "e = 0" "entered n d c k (sy_k s')" by auto
        have "joined n at (sy_k s) (sy_k s')"
          unfolding joined_def using e(2) found(3,4) match by (intro exI[of _ d] exI[of _ c] exI[of _ k]) blast
        with e(1) show ?thesis by (simp add: att_result_def)
      qed
      moreover have "att_nic n (sy_k s) (sy_k s')"
        using r(3) valid_id[OF found(2), of d c] found(3) k(1) unfolding att_nic_def entered_def left_def by (auto simp del: fun_upd_apply)
      ultimately show ?thesis using r(1,2) kgni_nic_attach_enter[OF nic(1,2) chk found(1)] by simp
    qed
  qed
qed

end
