(* ===== verification/Cdm_Detach.thy ===== *)
theory Cdm_Detach
  imports Cdm_Attach
begin

text \<open>
  What the session manager does keeps the invariant of the domains; the detach, which frees the domain with its last NIC, and
  the creation and destruction of NIC instances.
\<close>

section \<open>The session manager under the invariant of the domains\<close>

text \<open>What the other invariants see of a NIC.\<close>

definition same_own :: "gni_nic \<Rightarrow> gni_nic \<Rightarrow> bool" where
  "same_own nic nic' \<longleftrightarrow> nic_cdm_id nic' = nic_cdm_id nic \<and> nic_my_id nic' = nic_my_id nic \<and> nic_ptag nic' = nic_ptag nic \<and>
     nic_mm nic' = nic_mm nic \<and> nic_rw_page_desc nic' = nic_rw_page_desc nic \<and>
     nic_cq_interrupt_mask_desc nic' = nic_cq_interrupt_mask_desc nic \<and>
     (nic_sm_chnl_hndl nic = None \<longrightarrow> nic_sm_chnl_hndl nic' = None) \<and> (nic_sm_pkts nic = None \<longrightarrow> nic_sm_pkts nic' = None)"

lemma same_own_refl [simp]: "same_own nic nic"
  by (simp add: same_own_def)

lemma same_own_view:
  assumes "nic_view nic' = nic_view nic"
  shows "same_own nic nic'"
proof -
  have "f (nic_view nic') = f (nic_view nic)" for f :: "gni_nic \<Rightarrow> 'a" using assms by simp
  from this[of nic_cdm_id] this[of nic_my_id] this[of nic_ptag] this[of nic_mm] this[of nic_rw_page_desc]
    this[of nic_cq_interrupt_mask_desc] this[of nic_sm_chnl_hndl] this[of nic_sm_pkts]
  show ?thesis by (auto simp: same_own_def nic_view_def)
qed

lemma holders_same:
  assumes "\<And>n nic'. ni' n = Some nic' \<Longrightarrow> \<exists>nic. ni n = Some nic \<and> same_own nic nic'"
    and "\<And>n nic. ni n = Some nic \<Longrightarrow> \<exists>nic'. ni' n = Some nic' \<and> same_own nic nic'"
  shows "holders ni' p = holders ni p"
  using assms unfolding holders_def same_own_def by fastforce

lemma rs_inv_same:
  assumes inv: "rs_inv \<lparr>rs_dev = dev, rs_nics = ni\<rparr>"
    and a: "\<And>n nic'. ni' n = Some nic' \<Longrightarrow> \<exists>nic. ni n = Some nic \<and> same_own nic nic'"
    and b: "\<And>n nic. ni n = Some nic \<Longrightarrow> \<exists>nic'. ni' n = Some nic' \<and> same_own nic nic'"
  shows "rs_inv \<lparr>rs_dev = dev, rs_nics = ni'\<rparr>"
proof -
  have "dom ni' = dom ni" using a b by (auto simp: dom_def) blast+
  moreover have "\<forall>n nic'. ni' n = Some nic' \<longrightarrow> nic_ptag nic' \<noteq> 0 \<longrightarrow> resources dev (unat (nic_ptag nic')) \<noteq> None"
    using inv a unfolding rs_inv_def rsrc_inv_def same_own_def by (simp) metis
  ultimately show ?thesis using inv unfolding rs_inv_def rsrc_inv_def by (simp add: holders_same[of ni' ni, OF a b])
qed

lemma map_option_eqD: "map_option f x = map_option f y \<Longrightarrow> y = Some b \<Longrightarrow> \<exists>a. x = Some a \<and> f a = f b"
  by (cases x) auto

lemma att_inv_view:
  assumes inv: "att_inv env s" and k: "sm_inv env k" "kgni_cdm_array k = kgni_cdm_array (sy_k s)"
      "map_option cdm_view \<circ> cdms k = map_option cdm_view \<circ> cdms (sy_k s)"
    and a: "\<And>n nic'. nics k n = Some nic' \<Longrightarrow> \<exists>nic. nics (sy_k s) n = Some nic \<and> same_own nic nic'"
    and b: "\<And>n nic. nics (sy_k s) n = Some nic \<Longrightarrow> \<exists>nic'. nics k n = Some nic' \<and> same_own nic nic'"
  shows "att_inv env (s\<lparr>sy_k := k\<rparr>)"
proof -
  have v: "map_option cdm_view (cdms k d) = map_option cdm_view (cdms (sy_k s) d)" for d using k(3) by (simp add: fun_eq_iff)
  have sk: "same_key c c' \<and> cdm_nic_hndls c' = cdm_nic_hndls c" if "cdm_view c' = cdm_view c" for c c'
  proof -
    have "f (cdm_view c') = f (cdm_view c)" for f :: "gni_cdm \<Rightarrow> 'a" using that by simp
    from this[of cdm_type_id] this[of cdm_my_id] this[of cdm_nic_hndls] this[of cdm_ptag] this[of cdm_cookie] this[of cdm_inst_id]
    show ?thesis by (simp add: same_key_def cdm_view_def)
  qed
  have ca: "\<exists>c. cdms (sy_k s) d = Some c \<and> same_key c c' \<and> cdm_nic_hndls c' = cdm_nic_hndls c" if "cdms k d = Some c'" for d c'
    using map_option_eqD[OF v[symmetric] that] sk by metis
  have cb: "\<exists>c'. cdms k d = Some c' \<and> same_key c c' \<and> cdm_nic_hndls c' = cdm_nic_hndls c" if "cdms (sy_k s) d = Some c" for d c
    using map_option_eqD[OF v that] sk by metis
  have "tab_ok (kgni_cdm_array k) (cdms k)"
    unfolding k(2) by (rule tab_ok_same[OF att_invD(2)[OF inv]]) (use ca cb in blast)+
  moreover have "att_ok (cdms k) (nics k)"
  proof (rule att_okI)
    fix d c i n assume h: "cdms k d = Some c" "i < length (cdm_nic_hndls c)" "cdm_nic_hndls c ! i = Some n"
    from ca[OF h(1)] obtain c0 where c0: "cdms (sy_k s) d = Some c0" "same_key c0 c" "cdm_nic_hndls c = cdm_nic_hndls c0" by blast
    from att_okD(1)[OF att_invD(3)[OF inv] c0(1)] h c0(3) obtain nic where
      "nics (sy_k s) n = Some nic" "nic_cdm_id nic = cdm_my_id c0" "unat (nic_my_id nic) = i" by auto
    with b[of n nic] c0(2) show "\<exists>nic. nics k n = Some nic \<and> nic_cdm_id nic = cdm_my_id c \<and> unat (nic_my_id nic) = i"
      by (auto simp: same_own_def same_key_def)
  next
    fix n nic' assume h: "nics k n = Some nic'" "nic_cdm_id nic' \<noteq> GNI_CDM_INVALID_ID"
    from a[OF h(1)] obtain nic where nic: "nics (sy_k s) n = Some nic" "same_own nic nic'" by blast
    with h(2) att_okD(2)[OF att_invD(3)[OF inv] nic(1)] obtain d c where
      "cdms (sy_k s) d = Some c" "cdm_my_id c = nic_cdm_id nic" "unat (nic_my_id nic) < length (cdm_nic_hndls c)"
      "cdm_nic_hndls c ! unat (nic_my_id nic) = Some n" by (auto simp: same_own_def)
    moreover from cb[OF this(1)] obtain c' where "cdms k d = Some c'" "same_key c c'" "cdm_nic_hndls c' = cdm_nic_hndls c" by blast
    ultimately show "\<exists>d c. cdms k d = Some c \<and> cdm_my_id c = nic_cdm_id nic' \<and> unat (nic_my_id nic') < length (cdm_nic_hndls c) \<and>
        cdm_nic_hndls c ! unat (nic_my_id nic') = Some n"
      using nic(2) by (intro exI[of _ d] exI[of _ c']) (simp add: same_own_def same_key_def)
  next
    fix n nic' assume h: "nics k n = Some nic'" "nic_cdm_id nic' = GNI_CDM_INVALID_ID"
    from a[OF h(1)] obtain nic where nic: "nics (sy_k s) n = Some nic" "same_own nic nic'" by blast
    with h(2) att_okD(3)[OF att_invD(3)[OF inv] nic(1)] show "nic_sm_chnl_hndl nic' = None \<and> nic_sm_pkts nic' = None"
      by (auto simp: same_own_def)
  qed
  moreover have "rs_inv (rs_of (s\<lparr>sy_k := k\<rparr>))"
    using rs_inv_same[OF _ a b] att_invD(4)[OF inv] by (simp add: rs_of_def)
  moreover have "page_ok (nics k) (sy_mm s)"
  proof -
    have p: "pages nic' = pages nic" if "same_own nic nic'" for nic nic' using that by (simp add: same_own_def pages_def)
    show ?thesis
      unfolding page_ok_def
    proof (intro conjI allI impI)
      fix n nic' u assume h: "nics k n = Some nic'" "u \<in> pages nic'"
      from a[OF h(1)] obtain nic where nic: "nics (sy_k s) n = Some nic" "same_own nic nic'" by blast
      note pd = page_okD[OF att_invD(5)[OF inv] nic(1), of u]
      from h(2) p[OF nic(2)] have u: "u \<in> pages nic" by simp
      show "nic_mm nic' \<noteq> None" "umap_descs (sy_mm s) u \<noteq> None" using pd(1,2)[OF u] nic(2) by (auto simp: same_own_def)
      fix n' assume n': "n' \<noteq> n"
      show "u \<notin> own n' (sy_mm s)" by (rule pd(3)[OF u n'])
      fix x' assume "nics k n' = Some x'"
      from a[OF this] obtain x where x: "nics (sy_k s) n' = Some x" "same_own x x'" by blast
      show "u \<notin> pages x'" using pd(4)[OF u n' x(1)] p[OF x(2)] by simp
    next
      fix n nic' u assume h: "nics k n = Some nic'" "nic_rw_page_desc nic' = Some u"
      from a[OF h(1)] obtain nic where "nics (sy_k s) n = Some nic" "same_own nic nic'" by blast
      with h(2) att_invD(5)[OF inv] show "nic_cq_interrupt_mask_desc nic' \<noteq> Some u" unfolding page_ok_def same_own_def by metis
    qed
  qed
  moreover have "dom (nics k) = dom (nics (sy_k s))" using a b by (auto simp: dom_def) blast+
  ultimately show ?thesis using inv k(1) unfolding att_inv_def by simp
qed

lemma att_inv_objs:
  assumes inv: "att_inv env s" and k: "sm_inv env k" "same_objs (sy_k s) k"
  shows "att_inv env (s\<lparr>sy_k := k\<rparr>)"
proof (rule att_inv_view[OF inv k(1)])
  have v: "map_option nic_view (nics k n) = map_option nic_view (nics (sy_k s) n)" for n
    using k(2) by (simp add: same_objs_def fun_eq_iff)
  show "\<exists>nic. nics (sy_k s) n = Some nic \<and> same_own nic nic'" if "nics k n = Some nic'" for n nic'
    using map_option_eqD[OF v[symmetric] that] same_own_view by metis
  show "\<exists>nic'. nics k n = Some nic' \<and> same_own nic nic'" if "nics (sy_k s) n = Some nic" for n nic
    using map_option_eqD[OF v that] same_own_view by metis
qed (use k(2) in \<open>simp_all add: same_objs_def\<close>)

section \<open>Detach\<close>

text \<open>The sessions without those of a NIC.\<close>

definition no_more :: "addr \<Rightarrow> (addr \<rightharpoonup> kgni_sm_info) \<Rightarrow> addr \<rightharpoonup> kgni_sm_info" where
  "no_more n ss = (\<lambda>a. if \<exists>m. ss a = Some m \<and> sm_nic_hndl m = n then None else ss a)"

lemma cdm_view_eqD:
  assumes "cdm_view c = cdm_view c'"
  shows "cdm_my_id c = cdm_my_id c'" "cdm_nic_hndls c = cdm_nic_hndls c'" "cdm_type_id c = cdm_type_id c'"
proof -
  have "f (cdm_view c) = f (cdm_view c')" for f :: "gni_cdm \<Rightarrow> 'a" using assms by simp
  from this[of cdm_my_id] this[of cdm_nic_hndls] this[of cdm_type_id]
  show "cdm_my_id c = cdm_my_id c'" "cdm_nic_hndls c = cdm_nic_hndls c'" "cdm_type_id c = cdm_type_id c'" by (simp_all add: cdm_view_def)
qed

lemma drop_chnl_safe:
  assumes inv: "att_inv env s" and nic: "nics (sy_k s) n = Some nic" "nic_cdm_id nic \<noteq> GNI_CDM_INVALID_ID"
  shows "\<exists>k. drop_chnl n (sy_k s) = Some k \<and> att_inv env (s\<lparr>sy_k := k\<rparr>) \<and>
    nics k = (nics (sy_k s))(n \<mapsto> nic\<lparr>nic_sm_chnl_hndl := None\<rparr>) \<and> cdms k = cdms (sy_k s) \<and> sms k = sms (sy_k s) \<and>
    kgni_cdm_array k = kgni_cdm_array (sy_k s) \<and>
    chnls k = (case nic_sm_chnl_hndl nic of None \<Rightarrow> chnls (sy_k s) | Some ch \<Rightarrow> (chnls (sy_k s))(ch := None))"
proof (cases "nic_sm_chnl_hndl nic")
  case None
  then have "nic\<lparr>nic_sm_chnl_hndl := None\<rparr> = nic" by (intro gni_nic.equality) simp_all
  then have "(nics (sy_k s))(n \<mapsto> nic\<lparr>nic_sm_chnl_hndl := None\<rparr>) = nics (sy_k s)" using nic(1) by (simp add: fun_upd_idem)
  with None nic inv show ?thesis by (simp add: drop_chnl_def)
next
  case (Some ch)
  let ?k = "chnl_destroy ch (upd_nic n (\<lambda>x. x\<lparr>nic_sm_chnl_hndl := None\<rparr>) (sy_k s))"
  have k: "nics ?k = (nics (sy_k s))(n \<mapsto> nic\<lparr>nic_sm_chnl_hndl := None\<rparr>)" "cdms ?k = cdms (sy_k s)" "sms ?k = sms (sy_k s)"
    "kgni_cdm_array ?k = kgni_cdm_array (sy_k s)" "chnls ?k = (chnls (sy_k s))(ch := None)"
    using nic(1) by (simp_all add: chnl_destroy_def upd_nic_def)
  have "att_inv env (s\<lparr>sy_k := ?k\<rparr>)"
    by (rule att_inv_sm[OF inv nic _ k(1,4,2)])
      (use sm_inv_chnl_destroy[OF att_invD(1)[OF inv] nic(1) Some] in \<open>simp_all add: chnl_destroy_def upd_nic_def\<close>)
  with k Some nic(1) show ?thesis by (simp add: drop_chnl_def)
qed

lemma sm_cleanup_safe:
  assumes inv: "att_inv env s" and nic: "nics (sy_k s) n = Some nic" "nic_cdm_id nic \<noteq> GNI_CDM_INVALID_ID" "nic_sm_chnl_hndl nic = None"
    and d: "kgni_cdm_array (sy_k s) ! unat (nic_cdm_id nic) = Some d"
  shows "\<exists>k. kgni_sm_cleanup env n (Some d) (sy_k s) = Some k \<and> att_inv env (s\<lparr>sy_k := k\<rparr>) \<and>
    nics k = (nics (sy_k s))(n \<mapsto> nic\<lparr>nic_sm_pkts := None\<rparr>) \<and> map_option cdm_view \<circ> cdms k = map_option cdm_view \<circ> cdms (sy_k s) \<and>
    sms k = no_more n (sms (sy_k s)) \<and>
    kgni_cdm_array k = kgni_cdm_array (sy_k s) \<and> chnls k = chnls (sy_k s)"
proof -
  from attachedE[OF inv nic(1,2)] have id: "unat (nic_cdm_id nic) < KGNI_MAX_CDM_NUMBER env" by blast
  from okD[OF kgni_sm_cleanup_safe[OF att_invD(1)[OF inv] nic(1,3,2) d]] obtain k where
    k: "kgni_sm_cleanup env n (Some d) (sy_k s) = Some k" "sm_inv env k"
      "sms k = no_more n (sms (sy_k s))" unfolding no_more_def by blast
  note o = kgni_sm_cleanup_objs[OF k(1) nic(1,2) id]
  have "att_inv env (s\<lparr>sy_k := k\<rparr>)"
    by (rule att_inv_view[OF inv k(2) o(3,4)])
      (use o(1) nic(1) in \<open>auto simp: same_own_def split: if_splits intro: same_own_refl\<close>)
  with k(1,3) o show ?thesis by blast
qed

lemma unmap_rw_page_safe:
  assumes inv: "att_inv env s" and nic: "nics (sy_k s) n = Some nic"
  shows "\<exists>s' nic'. unmap_rw_page n s = Some s' \<and> att_inv env s' \<and> frame n s s' \<and> chnls (sy_k s') = chnls (sy_k s) \<and>
    nics (sy_k s') n = Some nic' \<and> nic_cdm_id nic' = nic_cdm_id nic \<and> sy_dev s' = sy_dev s \<and>
    (nic' = nic \<or> nic' = nic\<lparr>nic_rw_page_desc := None\<rparr>) \<and> (nic_cdm_type nic \<noteq> GNI_CDM_TYPE_KERNEL \<longrightarrow> nic_rw_page_desc nic' = None)"
proof (cases "\<exists>u. nic_rw_page_desc nic = Some u \<and> nic_cdm_type nic \<noteq> GNI_CDM_TYPE_KERNEL")
  case False
  with nic inv show ?thesis by (auto simp: unmap_rw_page_def frame_refl split: option.splits)
next
  case True
  then obtain u where u: "nic_rw_page_desc nic = Some u" "nic_cdm_type nic \<noteq> GNI_CDM_TYPE_KERNEL" by blast
  let ?f = "\<lambda>x. x\<lparr>nic_rw_page_desc := None\<rparr>"
  have p: "u \<in> pages nic" using u(1) by (simp add: pages_def)
  have "nic_cq_interrupt_mask_desc nic \<noteq> Some u" using att_invD(5)[OF inv] nic u(1) unfolding page_ok_def by blast
  then have "pages (?f nic) \<subseteq> pages nic - {u}" by (auto simp: pages_def)
  obtain mm where mm: "nic_mm nic = Some mm" using page_okD(1)[OF att_invD(5)[OF inv] nic p] by auto
  from unmap_page_safe[OF inv nic p, where f = ?f and mm = mm, OF _ _ _ \<open>pages (?f nic) \<subseteq> _\<close>] mm obtain m' where
    m: "nic_mm nic = Some mm" "kgni_unmap_area mm u (sy_mm s) = Some m'" "att_inv env (sys_nic n ?f (s\<lparr>sy_mm := m'\<rparr>))"
    by (auto simp: same_att_def)
  have "frame n s (sys_nic n ?f (s\<lparr>sy_mm := m'\<rparr>))" using frame_sys_nic[where n = n and s = s and f = ?f and dev = "sy_dev s" and m = m'] by simp
  with m u nic show ?thesis by (auto simp: unmap_rw_page_def upd_nic_def)
qed

text \<open>What a detach does: the NIC, its channel and its sessions are gone from the driver, and the domain is freed exactly when no
  other NIC is attached to it.\<close>

definition detached :: "addr \<Rightarrow> gni_nic \<Rightarrow> addr \<Rightarrow> gni_cdm \<Rightarrow> kgni \<Rightarrow> kgni \<Rightarrow> bool" where
  "detached n nic d c k k' \<longleftrightarrow>
     (\<exists>nic'. nics k' = (nics k)(n \<mapsto> nic') \<and> nic_cdm_id nic' = GNI_CDM_INVALID_ID \<and> nic_sm_chnl_hndl nic' = None \<and> nic_sm_pkts nic' = None) \<and>
     sms k' = no_more n (sms k) \<and>
     chnls k' = (case nic_sm_chnl_hndl nic of None \<Rightarrow> chnls k | Some ch \<Rightarrow> (chnls k)(ch := None)) \<and>
     (let hs = (cdm_nic_hndls c)[unat (nic_my_id nic) := None] in
      if \<forall>e \<in> set hs. e = None
      then map_option cdm_view \<circ> cdms k' = (map_option cdm_view \<circ> cdms k)(d := None) \<and>
        kgni_cdm_array k' = (kgni_cdm_array k)[unat (cdm_my_id c) := None]
      else map_option cdm_view \<circ> cdms k' = (map_option cdm_view \<circ> cdms k)(d \<mapsto> cdm_view (c\<lparr>cdm_nic_hndls := hs\<rparr>)) \<and>
        kgni_cdm_array k' = kgni_cdm_array k)"

lemma cdm_view_hndls: "cdm_view c = cdm_view c' \<Longrightarrow> cdm_view (c\<lparr>cdm_nic_hndls := hs\<rparr>) = cdm_view (c'\<lparr>cdm_nic_hndls := hs\<rparr>)"
proof -
  assume "cdm_view c = cdm_view c'"
  then have "(cdm_view c)\<lparr>cdm_nic_hndls := hs\<rparr> = (cdm_view c')\<lparr>cdm_nic_hndls := hs\<rparr>" by simp
  moreover have "cdm_view (x\<lparr>cdm_nic_hndls := hs\<rparr>) = (cdm_view x)\<lparr>cdm_nic_hndls := hs\<rparr>" for x
    unfolding cdm_view_def by (rule gni_cdm.equality) simp_all
  ultimately show ?thesis by simp
qed

lemma kgni_nic_detach_safe:
  assumes inv: "att_inv env s" and nic: "nics (sy_k s) n = Some nic" "nic_cdm_id nic \<noteq> GNI_CDM_INVALID_ID"
  shows "\<exists>s' d c. kgni_nic_detach env n s = Some (0, s') \<and> att_inv env s' \<and> cdms (sy_k s) d = Some c \<and> cdm_my_id c = nic_cdm_id nic \<and>
    detached n nic d c (sy_k s) (sy_k s') \<and> files s' = files s \<and> sy_dev s' = sy_dev s \<and>
    (\<exists>nic'. nics (sy_k s') n = Some nic' \<and> nic_ptag nic' = nic_ptag nic \<and> nic_cdm_type nic' = nic_cdm_type nic \<and>
       (nic_cdm_type nic \<noteq> GNI_CDM_TYPE_KERNEL \<longrightarrow> nic_rw_page_desc nic' = None))"
proof -
  obtain d c where d: "cdms (sy_k s) d = Some c" "cdm_my_id c = nic_cdm_id nic" "unat (nic_my_id nic) < GNI_MAX_NICS_ATTACHED"
    "unat (nic_cdm_id nic) < KGNI_MAX_CDM_NUMBER env" "kgni_cdm_array (sy_k s) ! unat (nic_cdm_id nic) = Some d"
    using attachedE[OF inv nic] by metis
  have my: "nic_my_id nic \<noteq> GNI_NIC_INVALID_ID"
    using d(3) by (auto simp: unsigned_minus_1_eq_mask mask_eq_exp_minus_1)
  have of_id: "cdm_of_id (nic_cdm_id nic) (sy_k s) = Some (Some d)"
    using d(4,5) att_invD(7)[OF inv] by (simp add: cdm_of_id_def)
  let ?s = "ext (Gni_release_errors n) s"
  have inv': "att_inv env ?s" using inv by simp
  from drop_chnl_safe[OF inv', simplified ext_sel, OF nic] obtain k1 where k1: "drop_chnl n (sy_k s) = Some k1" "att_inv env (?s\<lparr>sy_k := k1\<rparr>)"
    "nics k1 = (nics (sy_k s))(n \<mapsto> nic\<lparr>nic_sm_chnl_hndl := None\<rparr>)" "cdms k1 = cdms (sy_k s)" "sms k1 = sms (sy_k s)"
    "kgni_cdm_array k1 = kgni_cdm_array (sy_k s)"
    "chnls k1 = (case nic_sm_chnl_hndl nic of None \<Rightarrow> chnls (sy_k s) | Some ch \<Rightarrow> (chnls (sy_k s))(ch := None))" by blast
  let ?n2 = "nic\<lparr>nic_sm_chnl_hndl := None, nic_sm_pkts := None\<rparr>"
  from sm_cleanup_safe[OF k1(2), of n "nic\<lparr>nic_sm_chnl_hndl := None\<rparr>" d] k1(3,6) nic(2) d(5) obtain k2 where
    k2: "kgni_sm_cleanup env n (Some d) k1 = Some k2" "att_inv env (?s\<lparr>sy_k := k2\<rparr>)"
    "nics k2 = (nics (sy_k s))(n \<mapsto> ?n2)" "map_option cdm_view \<circ> cdms k2 = map_option cdm_view \<circ> cdms (sy_k s)"
    "sms k2 = no_more n (sms (sy_k s))"
    "kgni_cdm_array k2 = kgni_cdm_array (sy_k s)" "chnls k2 = chnls k1" using k1(4,5) by auto
  obtain c2 where c2: "cdms k2 d = Some c2" "cdm_view c2 = cdm_view c"
    using map_option_eqD[OF fun_cong[OF k2(4), of d, unfolded comp_apply] d(1)] by blast
  note c2f = cdm_view_eqD[OF c2(2)]
  have ns: "no_sessions n k2" unfolding no_sessions_def k2(5) no_more_def by auto
  let ?i = "unat (nic_my_id nic)"
  let ?k3 = "upd_nic n (\<lambda>x. x\<lparr>nic_cdm_id := GNI_CDM_INVALID_ID\<rparr>) (upd_slot d ?i None k2)"
  have dis: "dissociate n d k2 = Some ?k3" "att_inv env (?s\<lparr>sy_k := ?k3\<rparr>)"
    using dissociate_safe[OF k2(2), of n ?n2 c2 d] k2(3) c2(1) c2f(1) d(2) ns by simp_all
  have k3n: "nics ?k3 = (nics (sy_k s))(n \<mapsto> ?n2\<lparr>nic_cdm_id := GNI_CDM_INVALID_ID\<rparr>)" using k2(3) by (simp add: upd_nic_def)
  let ?n3 = "?n2\<lparr>nic_cdm_id := GNI_CDM_INVALID_ID\<rparr>"
  have "nics (sy_k (?s\<lparr>sy_k := ?k3\<rparr>)) n = Some ?n3" using k3n by simp
  from unmap_rw_page_safe[OF dis(2) this] obtain s4 nic4 where
    s4: "unmap_rw_page n (?s\<lparr>sy_k := ?k3\<rparr>) = Some s4" "att_inv env s4" "frame n (?s\<lparr>sy_k := ?k3\<rparr>) s4"
    "chnls (sy_k s4) = chnls (sy_k (?s\<lparr>sy_k := ?k3\<rparr>))" "nics (sy_k s4) n = Some nic4" "nic_cdm_id nic4 = nic_cdm_id ?n3"
    "sy_dev s4 = sy_dev (?s\<lparr>sy_k := ?k3\<rparr>)" "nic4 = ?n3 \<or> nic4 = ?n3\<lparr>nic_rw_page_desc := None\<rparr>"
    "nic_cdm_type ?n3 \<noteq> GNI_CDM_TYPE_KERNEL \<longrightarrow> nic_rw_page_desc nic4 = None" by blast
  have n4f: "nic_cdm_id nic4 = GNI_CDM_INVALID_ID" "nic_sm_chnl_hndl nic4 = None \<and> nic_sm_pkts nic4 = None"
    "nic_ptag nic4 = nic_ptag nic" "nic_cdm_type nic4 = nic_cdm_type nic" "nic_cdm_type nic \<noteq> GNI_CDM_TYPE_KERNEL \<longrightarrow> nic_rw_page_desc nic4 = None"
    "sy_dev s4 = sy_dev s" "chnls (sy_k s4) = chnls k2"
    using s4(4,7,8,9) by auto
  note fk = frame_k[OF s4(3), simplified]
  let ?c3 = "c2\<lparr>cdm_nic_hndls := (cdm_nic_hndls c)[?i := None]\<rparr>"
  have c4: "cdms (sy_k s4) = (cdms k2)(d \<mapsto> ?c3)" using fk(1) c2(1) c2f(2) by (simp add: upd_slot_cdms)
  then have c4d: "cdms (sy_k s4) d = Some ?c3" by simp
  from free_if_last_safe[OF s4(2) c4d] obtain k5 where k5: "free_if_last d (sy_k s4) = Some k5" "att_inv env (s4\<lparr>sy_k := k5\<rparr>)"
    "k5 = (if \<forall>e \<in> set (cdm_nic_hndls ?c3). e = None
      then (sy_k s4)\<lparr>kgni_cdm_array := (kgni_cdm_array (sy_k s4))[unat (cdm_my_id ?c3) := None], cdms := (cdms (sy_k s4))(d := None)\<rparr> else sy_k s4)"
    by (auto simp: ok_def simp del: gni_cdm.select_convs)
  have n4: "nics (sy_k s4) = (nics (sy_k s))(n \<mapsto> nic4)" using fk(5) k3n s4(5) by (auto simp: fun_eq_iff)
  have v: "map_option cdm_view \<circ> (cdms k2)(d := x) = (map_option cdm_view \<circ> cdms (sy_k s))(d := map_option cdm_view x)" for x
    using k2(4) by (auto simp: fun_eq_iff)
  have vc: "cdm_view ?c3 = cdm_view (c\<lparr>cdm_nic_hndls := (cdm_nic_hndls c)[?i := None]\<rparr>)" using c2(2) by (rule cdm_view_hndls)
  have r4: "sms (sy_k s4) = sms k2" "kgni_cdm_array (sy_k s4) = kgni_cdm_array (sy_k s)" "chnls (sy_k s4) = chnls k1"
    using fk(2,3) k2(6,7) n4f(7) by simp_all
  have nx: "\<exists>nic'. nics k5 = (nics (sy_k s))(n \<mapsto> nic') \<and> nic_cdm_id nic' = GNI_CDM_INVALID_ID \<and> nic_sm_chnl_hndl nic' = None \<and> nic_sm_pkts nic' = None"
    using n4f(1,2) n4 k5(3) by (intro exI[of _ nic4]) simp
  have r5: "sms k5 = no_more n (sms (sy_k s))" "chnls k5 = (case nic_sm_chnl_hndl nic of None \<Rightarrow> chnls (sy_k s) | Some ch \<Rightarrow> (chnls (sy_k s))(ch := None))"
    using r4 k1(7) k2(5) k5(3) by simp_all
  let ?hs = "(cdm_nic_hndls c)[?i := None]"
  have "detached n nic d c (sy_k s) k5"
  proof (cases "\<forall>e \<in> set ?hs. e = None")
    case True
    have "k5 = (sy_k s4)\<lparr>kgni_cdm_array := (kgni_cdm_array (sy_k s4))[unat (cdm_my_id c) := None], cdms := (cdms (sy_k s4))(d := None)\<rparr>"
      using k5(3) True c2f(1) by simp
    then have "kgni_cdm_array k5 = (kgni_cdm_array (sy_k s))[unat (cdm_my_id c) := None]" "cdms k5 = (cdms k2)(d := None)"
      using r4(2) c4 by simp_all
    with nx r5 v[of None] show ?thesis unfolding detached_def Let_def if_P[OF True] by (intro conjI) (assumption+, simp_all)
  next
    case False
    have "k5 = sy_k s4" using k5(3) False by simp
    with r4(2) c4 nx r5 v[of "Some ?c3"] vc show ?thesis unfolding detached_def Let_def if_not_P[OF False]
      by (intro conjI) (assumption+, simp_all)
  qed
  moreover have "kgni_nic_detach env n s = Some (0, s4\<lparr>sy_k := k5\<rparr>)"
    using nic my of_id k1(1) k2(1) c2(1) c2f(3) tab_okD(2)[OF att_invD(2)[OF inv] d(1)] dis(1) s4(1) k5(1)
    by (simp add: kgni_nic_detach_def Let_def)
  moreover have "files s4 = files s" using s4(3) by (simp add: frame_def)
  moreover have "nics k5 n = Some nic4" using k5(3) s4(5) by simp
  ultimately show ?thesis using k5(2) d(1,2) n4f(3-6) by (intro exI[of _ "s4\<lparr>sy_k := k5\<rparr>"] exI[of _ d] exI[of _ c]) simp
qed

section \<open>Creating and destroying instances\<close>

lemma page_ok_two: "page_ok ni m \<Longrightarrow> ni n = Some nic \<Longrightarrow> nic_rw_page_desc nic = Some u \<Longrightarrow> nic_cq_interrupt_mask_desc nic \<noteq> Some u"
  unfolding page_ok_def by blast

lemma kgni_nic_create_safe:
  assumes inv: "att_inv env s" and fresh: "\<And>n. nic_mem ae = Some n \<Longrightarrow> nics (sy_k s) n = None"
    and r: "kgni_nic_create ae s = (e, h, s')"
  shows "att_inv env s'"
proof (cases h)
  case None
  with r inv show ?thesis by (auto simp: kgni_nic_create_def Let_def split: option.splits if_splits)
next
  case (Some n)
  with r obtain pg where m: "nic_mem ae = Some n" "page_mem ae = Some pg" "kgni_subscribe_errors ae = 0"
    by (auto simp: kgni_nic_create_def Let_def split: option.splits if_splits)
  let ?nic = "new_nic (dev_nic_pe ae)" and ?k = "sy_k s"
  have n: "nics ?k n = None" using fresh m(1) by blast
  let ?k' = "?k\<lparr>nics := (nics ?k)(n \<mapsto> ?nic)\<rparr>"
  let ?m = "(sy_mm s)\<lparr>umap_list := (umap_list (sy_mm s))(n := []), child_list := (child_list (sy_mm s))(n := [])\<rparr>"
  have s': "s' = (ext (Kgni_subscribe_errors n) s)\<lparr>sy_k := ?k', sy_mm := ?m, sy_flsh := (sy_flsh s)(n \<mapsto> pg)\<rparr>"
    using r m Some by (simp add: kgni_nic_create_def Let_def)
  have sel: "nic_cdm_id ?nic = GNI_CDM_INVALID_ID" "nic_sm_chnl_hndl ?nic = None" "nic_sm_pkts ?nic = None" "nic_ptag ?nic = 0" "pages ?nic = {}"
    by (simp_all add: new_nic_def pages_def)
  have sm: "sm_inv env ?k'"
  proof (rule sm_inv_frame[OF att_invD(1)[OF inv]])
    show "inv_cdm env (kgni_cdm_array ?k') (cdms ?k') (nics ?k')"
      using att_invD(1)[OF inv] sel(1) unfolding sm_inv_def inv_cdm_def by auto
  qed (use n sel in \<open>auto simp: same_sm_def split: if_splits\<close>)
  have at: "att_ok (cdms ?k) ((nics ?k)(n \<mapsto> ?nic))"
  proof (rule att_okI)
    fix d c i x assume "cdms ?k d = Some c" "i < length (cdm_nic_hndls c)" "cdm_nic_hndls c ! i = Some x"
    with att_okD(1)[OF att_invD(3)[OF inv]] n show "\<exists>nic. ((nics ?k)(n \<mapsto> ?nic)) x = Some nic \<and> nic_cdm_id nic = cdm_my_id c \<and> unat (nic_my_id nic) = i"
      by (metis fun_upd_apply option.distinct(1))
  next
    fix x nic assume "((nics ?k)(n \<mapsto> ?nic)) x = Some nic" "nic_cdm_id nic \<noteq> GNI_CDM_INVALID_ID"
    then show "\<exists>d c. cdms ?k d = Some c \<and> cdm_my_id c = nic_cdm_id nic \<and> unat (nic_my_id nic) < length (cdm_nic_hndls c) \<and>
        cdm_nic_hndls c ! unat (nic_my_id nic) = Some x"
      using sel(1) att_okD(2)[OF att_invD(3)[OF inv], of x nic] by (auto split: if_splits)
  next
    fix x nic assume "((nics ?k)(n \<mapsto> ?nic)) x = Some nic" "nic_cdm_id nic = GNI_CDM_INVALID_ID"
    then show "nic_sm_chnl_hndl nic = None \<and> nic_sm_pkts nic = None"
      using sel att_okD(3)[OF att_invD(3)[OF inv], of x nic] by (auto split: if_splits)
  qed
  have own: "own x ?m \<subseteq> own x (sy_mm s)" for x by (auto simp: own_def)
  have pg: "page_ok ((nics ?k)(n \<mapsto> ?nic)) ?m"
    unfolding page_ok_def
  proof (intro conjI allI impI)
    fix x nic u assume h: "((nics ?k)(n \<mapsto> ?nic)) x = Some nic" "u \<in> pages nic"
    with sel(5) have x: "nics ?k x = Some nic" "x \<noteq> n" by (auto split: if_splits)
    note pd = page_okD[OF att_invD(5)[OF inv] x(1) h(2)]
    show "nic_mm nic \<noteq> None" "umap_descs ?m u \<noteq> None" using pd(1,2) by simp_all
    fix y assume y: "y \<noteq> x"
    show "u \<notin> own y ?m" using pd(3)[OF y] own by blast
    fix nic' assume "((nics ?k)(n \<mapsto> ?nic)) y = Some nic'"
    then show "u \<notin> pages nic'" using pd(4)[OF y] sel(5) by (auto split: if_splits)
  next
    fix x nic u assume h: "((nics ?k)(n \<mapsto> ?nic)) x = Some nic" "nic_rw_page_desc nic = Some u"
    then have "nics ?k x = Some nic" by (auto simp: new_nic_def split: if_splits)
    from page_ok_two[OF att_invD(5)[OF inv] this h(2)] show "nic_cq_interrupt_mask_desc nic \<noteq> Some u" .
  qed
  have rs: "rs_inv \<lparr>rs_dev = sy_dev s, rs_nics = (nics ?k)(n \<mapsto> ?nic)\<rparr>"
    using rs_inv_open[OF att_invD(4)[OF inv], of n ?nic] n sel(4) by (simp add: rs_of_def)
  show ?thesis
    using inv sm at pg rs unfolding att_inv_def s' by (simp add: rs_of_def)
qed

lemma att_inv_remove_nic:
  assumes inv: "att_inv env s" and nic: "nics (sy_k s) n = Some nic" "nic_cdm_id nic = GNI_CDM_INVALID_ID"
    and rs: "rs_inv \<lparr>rs_dev = dev, rs_nics = (nics (sy_k s))(n := None)\<rparr>"
  shows "att_inv env (s\<lparr>sy_dev := dev, sy_flsh := (sy_flsh s)(n := None), sy_k := (sy_k s)\<lparr>nics := (nics (sy_k s))(n := None)\<rparr>\<rparr>)"
proof -
  let ?k = "sy_k s"
  let ?k' = "?k\<lparr>nics := (nics ?k)(n := None)\<rparr>"
  note ns = unattached_no_sessions[OF att_invD(1)[OF inv] nic]
  note u = att_okD(3)[OF att_invD(3)[OF inv] nic]
  have sm: "sm_inv env ?k'"
  proof (rule sm_inv_frame[OF att_invD(1)[OF inv]])
    show "inv_cdm env (kgni_cdm_array ?k') (cdms ?k') (nics ?k')"
      using att_invD(1)[OF inv] unfolding sm_inv_def inv_cdm_def by auto
  qed (use u ns nic in \<open>auto simp: same_sm_def no_sessions_def split: if_splits\<close>)
  have at: "att_ok (cdms ?k) ((nics ?k)(n := None))"
  proof (rule att_okI)
    fix d c i x assume h: "cdms ?k d = Some c" "i < length (cdm_nic_hndls c)" "cdm_nic_hndls c ! i = Some x"
    from att_okD(1)[OF att_invD(3)[OF inv] h] obtain y where y: "nics ?k x = Some y" "nic_cdm_id y = cdm_my_id c" "unat (nic_my_id y) = i" by blast
    with valid_id[OF inv h(1)] nic have "x \<noteq> n" by auto
    with y show "\<exists>nic. ((nics ?k)(n := None)) x = Some nic \<and> nic_cdm_id nic = cdm_my_id c \<and> unat (nic_my_id nic) = i" by simp
  next
    fix x y assume "((nics ?k)(n := None)) x = Some y" "nic_cdm_id y \<noteq> GNI_CDM_INVALID_ID"
    then show "\<exists>d c. cdms ?k d = Some c \<and> cdm_my_id c = nic_cdm_id y \<and> unat (nic_my_id y) < length (cdm_nic_hndls c) \<and>
        cdm_nic_hndls c ! unat (nic_my_id y) = Some x"
      using att_okD(2)[OF att_invD(3)[OF inv], of x y] by (auto split: if_splits)
  next
    fix x y assume "((nics ?k)(n := None)) x = Some y" "nic_cdm_id y = GNI_CDM_INVALID_ID"
    then show "nic_sm_chnl_hndl y = None \<and> nic_sm_pkts y = None"
      using att_okD(3)[OF att_invD(3)[OF inv], of x y] by (auto split: if_splits)
  qed
  have pg: "page_ok ((nics ?k)(n := None)) (sy_mm s)"
    unfolding page_ok_def
  proof (intro conjI allI impI)
    fix x y v assume h: "((nics ?k)(n := None)) x = Some y" "v \<in> pages y"
    then have x: "nics ?k x = Some y" by (auto split: if_splits)
    note pd = page_okD[OF att_invD(5)[OF inv] x h(2)]
    show "nic_mm y \<noteq> None" "umap_descs (sy_mm s) v \<noteq> None" using pd(1,2) by simp_all
    fix z assume z: "z \<noteq> x"
    show "v \<notin> own z (sy_mm s)" by (rule pd(3)[OF z])
    fix w assume "((nics ?k)(n := None)) z = Some w"
    then show "v \<notin> pages w" using pd(4)[OF z] by (auto split: if_splits)
  next
    fix x y v assume h: "((nics ?k)(n := None)) x = Some y" "nic_rw_page_desc y = Some v"
    then have "nics ?k x = Some y" by (auto split: if_splits)
    from page_ok_two[OF att_invD(5)[OF inv] this h(2)] show "nic_cq_interrupt_mask_desc y \<noteq> Some v" .
  qed
  have "dom ((sy_flsh s)(n := None)) = dom ((nics ?k)(n := None))" using att_invD(8)[OF inv] by auto
  with inv sm at pg rs show ?thesis unfolding att_inv_def by (simp add: rs_of_def)
qed

lemma kgni_nic_destroy_safe:
  assumes inv: "att_inv env s" and nic: "nics (sy_k s) n = Some nic" "nic_cdm_id nic = GNI_CDM_INVALID_ID" "pages nic = {}"
    and rel: "may_release nic (sy_dev s)" and env: "mm_env_ok ae"
  shows "ok (kgni_nic_destroy ae n s) (\<lambda>(e, s'). e = 0 \<and> att_inv env s' \<and> nics (sy_k s') = (nics (sy_k s))(n := None) \<and> files s' = files s \<and>
      cdms (sy_k s') = cdms (sy_k s) \<and> kgni_cdm_array (sy_k s') = kgni_cdm_array (sy_k s))"
proof -
  let ?s = "ext (Kgni_fma_fini n) (ext (Kgni_dla_cleanup n) (ext (Kgni_ce_cleanup n) (ext (Kgni_error_cleanup n) s)))"
  have i: "att_inv env ?s" "nics (sy_k ?s) n = Some nic" using inv nic by simp_all
  from mm_fini_safe[OF i nic(3) env] obtain mm s1 where s1: "mm_fini ae n ?s = Some s1" "att_inv env s1"
    "sy_k s1 = upd_nic n (\<lambda>x. x\<lparr>nic_mm := mm\<rparr>) (sy_k s)" "sy_dev s1 = sy_dev s" by auto
  let ?nic = "nic\<lparr>nic_mm := mm\<rparr>"
  have n1: "nics (sy_k s1) n = Some ?nic" "nic_cdm_id ?nic = GNI_CDM_INVALID_ID" using s1(3) nic by (simp_all add: upd_nic_def)
  have rel1: "may_release ?nic (sy_dev s1)" using rel s1(4) by (simp add: may_release_def)
  from kgni_resource_decref_safe[OF att_invD(4)[OF s1(2)], of n ?nic] n1 rel1 obtain dev where
    dev: "kgni_resource_decref ?nic (sy_dev s1) = Some dev" "rs_inv \<lparr>rs_dev = dev, rs_nics = (nics (sy_k s1))(n := None)\<rparr>"
    by (auto simp: rs_of_def ok_def)
  have nn: "(nics (sy_k s1))(n := None) = (nics (sy_k s))(n := None)" using s1(3) by (auto simp: upd_nic_def)
  have fl: "files s1 = files s" using s1(1) nic(1) by (auto simp: mm_fini_def case_prod_unfold Let_def)
  have "resource_decref n s1 = Some (s1\<lparr>sy_dev := dev\<rparr>)" using n1 dev(1) by (simp add: resource_decref_def)
  with nic s1(1) att_inv_remove_nic[OF s1(2) n1 dev(2)] nn fl s1(3) show ?thesis by (simp add: kgni_nic_destroy_def Let_def)
qed

end
