(* ===== verification/Cdm_Driver.thy ===== *)
theory Cdm_Driver
  imports Cdm_Detach
begin

text \<open>
  The driver as a machine: a device file is opened, its NIC attached, and the file closed, between the calls and callbacks of
  the session manager. The invariant of the machine joins those of its components with that of the open files.
\<close>

section \<open>The open files\<close>

text \<open>The kind of each NIC (user or kernel) and the open files: no call but those that open and close a file changes them.\<close>

definition kinds :: "sys \<Rightarrow> (addr \<rightharpoonup> gni_cdm_type) \<times> (addr \<rightharpoonup> kgni_file)" where
  "kinds s = (map_option nic_cdm_type \<circ> nics (sy_k s), files s)"

lemma kinds_nic:
  assumes "\<And>nic. nics (sy_k s) n = Some nic \<Longrightarrow> nic_cdm_type (f nic) = nic_cdm_type nic"
  shows "kinds (sys_nic n f s) = kinds s"
  using assms by (auto simp: kinds_def upd_nic_def fun_eq_iff option.map_comp comp_def split: option.splits intro!: option.map_cong)

lemma kinds_const: "nics (sy_k s) n = Some nic \<Longrightarrow> nic_cdm_type nic' = nic_cdm_type nic \<Longrightarrow> kinds (sys_nic n (\<lambda>_. nic') s) = kinds s"
  by (rule kinds_nic) simp

lemma kinds_k: "nics k = nics (sy_k s) \<Longrightarrow> kinds (s\<lparr>sy_k := k\<rparr>) = kinds s"
  by (simp add: kinds_def)

lemma kinds_sel [simp]: "kinds (ext c s) = kinds s" "kinds (s\<lparr>sy_mm := m\<rparr>) = kinds s" "kinds (s\<lparr>sy_dev := dev\<rparr>) = kinds s"
  by (simp_all add: kinds_def)

lemma mm_fini_kinds: "mm_env_ok ae \<Longrightarrow> mm_fini ae n s = Some s' \<Longrightarrow> kinds s' = kinds s"
proof -
  assume env: "mm_env_ok ae" and f: "mm_fini ae n s = Some s'"
  from f obtain nic where nic: "nics (sy_k s) n = Some nic" by (auto simp: mm_fini_def bind_eq_Some_conv)
  obtain mm m' where "kgni_mm_fini ae n (nic, sy_mm s) = (nic\<lparr>nic_mm := mm\<rparr>, m')" using mm_finiE[OF env] by metis
  with f nic kinds_const[of "s\<lparr>sy_mm := m'\<rparr>" n nic "nic\<lparr>nic_mm := mm\<rparr>"] show ?thesis by (auto simp: mm_fini_def)
qed

lemma dissociate_nics: "dissociate n d k = Some k' \<Longrightarrow> nics k' = nics (upd_nic n (\<lambda>x. x\<lparr>nic_cdm_id := GNI_CDM_INVALID_ID\<rparr>) k)"
  by (auto simp: dissociate_def bind_eq_Some_conv upd_nic_def split: if_split_asm)

lemma free_if_last_nics: "free_if_last d k = Some k' \<Longrightarrow> nics k' = nics k"
  by (auto simp: free_if_last_def bind_eq_Some_conv split: if_splits)

lemma dissociate_kinds: "dissociate n d (sy_k s) = Some k \<Longrightarrow> kinds (s\<lparr>sy_k := k\<rparr>) = kinds s"
  using kinds_nic[of s n "\<lambda>x. x\<lparr>nic_cdm_id := GNI_CDM_INVALID_ID\<rparr>"] dissociate_nics[of n d "sy_k s" k]
  by (simp add: kinds_def sys_nic_def)

lemma attach_unwind_kinds:
  assumes "mm_env_ok ae" and "attach_unwind ae n d l s = Some s'"
  shows "kinds s' = kinds s"
  using assms(2,1)
proof (induction ae n d l s arbitrary: s' rule: attach_unwind.induct)
  case (1 ae n d s)
  then obtain k k' where k: "dissociate n d (sy_k s) = Some k" "free_if_last d k = Some k'" "s' = s\<lparr>sy_k := k'\<rparr>"
    by (auto simp: bind_eq_Some_conv)
  with dissociate_kinds[OF k(1)] free_if_last_nics[OF k(2)] show ?case by (simp add: kinds_def)
next
  case (2 ae n d s)
  then show ?case by (fastforce simp: bind_eq_Some_conv resource_decref_def)
next
  case (3 ae n d s)
  then show ?case by (fastforce simp: bind_eq_Some_conv dest: mm_fini_kinds)
next
  case (4 ae n d s)
  then show ?case by (fastforce simp: bind_eq_Some_conv kinds_nic split: if_split_asm)
next
  case (5 ae n d s)
  then show ?case by (fastforce simp: bind_eq_Some_conv kinds_nic split: if_split_asm)
next
  case (6 ae n d s)
  then show ?case by (simp add: kinds_nic)
next
  case (7 ae n d s)
  from "7.prems"(1) obtain nic ch where n: "nics (sy_k s) n = Some nic" "nic_sm_chnl_hndl nic = Some ch"
    "attach_unwind ae n d chnl_error (sys_nic n (\<lambda>x. x\<lparr>nic_sm_chnl_hndl := None\<rparr>) (s\<lparr>sy_k := chnl_destroy ch (sy_k s)\<rparr>)) = Some s'"
    unfolding attach_unwind.simps(7) bind_eq_Some_conv by blast
  from "7.IH"[OF n "7.prems"(2)] show ?case by (simp add: kinds_nic kinds_k chnl_destroy_def)
next
  case (8 ae n d s)
  then show ?case by simp
qed

lemma attach_job_kinds:
  assumes env: "mm_env_ok ae" and a: "attach_job ae at n s = Some (x, s')"
  shows "kinds s' = kinds s"
proof -
  let ?f = "\<lambda>nic. nic\<lparr>nic_inst_id := sa_rank at, nic_cookie := sa_cookie at, nic_pkey := GNI_COOKIE_PKEY (sa_cookie at), nic_modes := sa_modes at\<rparr>"
  from a obtain nic e nic1 dev where n: "nics (sy_k s) n = Some nic"
    "kgni_resource_incref (ae_rsrc ae) (rsrc_mem ae) (\<lambda>d. d) (ucast (sa_ptag at)) (?f nic) (sy_dev s) = Some (e, nic1, dev)"
    by (auto simp: attach_job_def bind_eq_Some_conv Let_def)
  have t1: "nic_cdm_type nic1 = nic_cdm_type nic" using incref_nic[OF n(2)] by (simp add: keeps_def)
  obtain e' mm where mm: "kgni_mm_init ae nic1 = (e', nic1\<lparr>nic_mm := mm\<rparr>)" using env unfolding mm_env_ok_def by metis
  have k1: "kinds (sys_nic n (\<lambda>_. nic1) (s\<lparr>sy_dev := dev\<rparr>)) = kinds s" 
    using n(1) t1 kinds_const[of "s\<lparr>sy_dev := dev\<rparr>" n nic nic1] by simp
  have k2: "kinds (sys_nic n (\<lambda>_. nic1\<lparr>nic_mm := mm\<rparr>) (sys_nic n (\<lambda>_. nic1) (s\<lparr>sy_dev := dev\<rparr>))) = kinds s"
    using k1 n(1) kinds_const[of "sys_nic n (\<lambda>_. nic1) (s\<lparr>sy_dev := dev\<rparr>)" n nic1 "nic1\<lparr>nic_mm := mm\<rparr>"] by (simp add: upd_nic_def)
  show ?thesis using a n mm k1 k2 by (auto simp: attach_job_def Let_def split: if_split_asm)
qed

lemma attach_map_kinds: "attach_map ae n s = Some (x, s') \<Longrightarrow> kinds s' = kinds s"
  by (auto simp: attach_map_def bind_eq_Some_conv Let_def kinds_nic case_prod_unfold split: if_split_asm)

lemma attach_chnl_kinds: "attach_chnl env ae n d s = Some (x, s') \<Longrightarrow> kinds s' = kinds s"
proof -
  have k: "kinds (s\<lparr>sy_k := add_chnl n ch c (sy_k s)\<rparr>) = kinds s" for ch c s
    using kinds_nic[of s n "\<lambda>x. x\<lparr>nic_sm_chnl_hndl := Some ch\<rparr>"] by (simp add: kinds_def sys_nic_def add_chnl_def upd_nic_def)
  have k': "kinds ((sys_nic n f s)\<lparr>sy_k := add_chnl n ch c (upd_nic n f (sy_k s))\<rparr>) = kinds (sys_nic n f s)" for f ch c
    using k[where s = "sys_nic n f s"] by simp
  show "attach_chnl env ae n d s = Some (x, s') \<Longrightarrow> kinds s' = kinds s"
    by (auto simp: attach_chnl_def Let_def kinds_nic k' split: Option.bind_split_asm if_split_asm sum.split_asm prod.split_asm)
qed

lemma slot_loop_kinds: "slot_loop n d is (sy_k s) = Some (b, k) \<Longrightarrow> kinds (s\<lparr>sy_k := k\<rparr>) = kinds s"
proof (induction "is" arbitrary: s)
  case Nil
  then show ?case by (simp add: kinds_def)
next
  case (Cons i js)
  have c: "kinds (s\<lparr>sy_k := upd_nic n f (upd_slot d j e (sy_k s))\<rparr>) = kinds s" if "\<And>x. nic_cdm_type (f x) = nic_cdm_type x" for f j e
    using kinds_nic[of s n f] that by (simp add: kinds_def sys_nic_def upd_nic_def)
  from Cons.prems obtain c nic e where h: "cdms (sy_k s) d = Some c" "nics (sy_k s) n = Some nic" "array_get (cdm_nic_hndls c) i = Some e"
    by (auto simp: bind_eq_Some_conv)
  show ?case
  proof (cases e)
    case None
    let ?k = "upd_nic n (\<lambda>x. x\<lparr>nic_cdm_id := cdm_my_id c, nic_my_id := of_nat i\<rparr>) (upd_slot d i (Some n) (sy_k s))"
    show ?thesis using Cons.prems h None Cons.IH[of s] Cons.IH[of "s\<lparr>sy_k := ?k\<rparr>"] c by (auto split: if_split_asm)
  next
    case (Some y)
    with Cons.prems h Cons.IH[of s] c show ?thesis by (auto simp: bind_eq_Some_conv kinds_k split: if_split_asm)
  qed
qed

lemma create_loop_nics: "create_loop a p ck i is k = Some (rc, k') \<Longrightarrow> nics k' = nics k"
  by (induction "is" arbitrary: k) (fastforce simp: bind_eq_Some_conv upd_cdm_def split: if_split_asm option.split_asm)+

lemma gni_cdm_create_nics: "gni_cdm_create env mem i p ck m out k = Some (rc, h, k') \<Longrightarrow> nics k' = nics k"
  by (auto simp: gni_cdm_create_def bind_eq_Some_conv Let_def dest!: create_loop_nics split: if_split_asm option.split_asm)

lemma attach_find_nics: "set bs \<subseteq> {\<lambda>k. k} \<Longrightarrow> attach_find env ae bs at k = Some (r, k') \<Longrightarrow> nics k' = nics k"
proof (induction bs arbitrary: k)
  case (Cons b bs)
  then have b: "b = (\<lambda>k. k)" by auto
  from Cons.prems(2) obtain x r1 k1 where x: "kgni_cdm_lookup env (ucast (sa_ptag at)) (sa_cookie at) (sa_rank at) k = Some x"
    and r1: "(case x of
         Some (d, _) \<Rightarrow> Some (Inr d, k)
       | None \<Rightarrow> do {
           (rc, dp, k) \<leftarrow> gni_cdm_create env (cdm_mem ae) (sa_rank at) (ucast (sa_ptag at)) (sa_cookie at) (sa_modes at) True k;
           if rc \<noteq> GNI_RC_SUCCESS then Some (Inl (KGNI_ERROR_FROM_GNI_RETURN_CODE ae rc), k)
           else do { d \<leftarrow> dp; Some (Inr d, k) }
         }) = Some (r1, k1)" by (auto simp: bind_eq_Some_conv)
  from r1 have k1: "nics k1 = nics k"
    by (auto simp: bind_eq_Some_conv dest!: gni_cdm_create_nics split: option.split_asm if_split_asm prod.split_asm)
  show ?case using Cons.prems(2) x r1 k1 b Cons.IH[of k1] Cons.prems(1)
    by (auto simp: bind_eq_Some_conv Let_def split: sum.split_asm if_split_asm)
qed simp

lemma kgni_nic_attach_kinds:
  assumes env: "mm_env_ok ae" and a: "kgni_nic_attach env ae (\<lambda>k. k) (\<lambda>k. k) n at s = Some (e, s')"
  shows "kinds s' = kinds s"
proof -
  have st: "kinds s2 = kinds s1" if "attach_setup env ae at n d s1 = Some (x, s2)" for d s1 x s2
    using that attach_job_kinds[OF env] attach_map_kinds attach_chnl_kinds
    by (auto simp: attach_setup_def and_then_def bind_eq_Some_conv split: option.split_asm)
  have clr: "kinds (sys_nic n (\<lambda>x. x\<lparr>nic_ptag := 0\<rparr>) s1) = kinds s1" for s1 by (simp add: kinds_nic)
  have en: "kinds s' = kinds s1" if h: "attach_enter env ae at n d s1 = Some (e, s')" for d s1
  proof -
    from h obtain b k1 nic where sl: "slot_loop n d [0..<GNI_MAX_NICS_ATTACHED] (sy_k s1) = Some (b, k1)" "nics k1 n = Some nic"
      by (auto simp: attach_enter_def bind_eq_Some_conv Let_def)
    note k1 = slot_loop_kinds[OF sl(1)]
    show ?thesis
    proof (cases "b \<and> nic_cdm_id nic \<noteq> GNI_CDM_INVALID_ID")
      case False
      with h sl k1 clr show ?thesis by (auto simp: attach_enter_def Let_def clr_def split: if_split_asm)
    next
      case True
      with h sl obtain x s2 where x: "attach_setup env ae at n d (s1\<lparr>sy_k := k1\<rparr>) = Some (x, s2)"
        by (auto simp: attach_enter_def Let_def bind_eq_Some_conv)
      with st k1 have k2: "kinds s2 = kinds s1" by metis
      show ?thesis
      proof (cases x)
        case None
        with h sl True x k2 show ?thesis by (simp add: attach_enter_def Let_def)
      next
        case (Some y)
        obtain e1 l where y: "y = (e1, l)" by (cases y)
        from h sl True x Some y obtain s3 where s3: "attach_unwind ae n d l s2 = Some s3" "s' = clr n s3"
          by (auto simp: attach_enter_def Let_def bind_eq_Some_conv)
        with attach_unwind_kinds[OF env s3(1)] k2 clr show ?thesis by (simp add: clr_def)
      qed
    qed
  qed
  from a obtain nic where nic: "nics (sy_k s) n = Some nic" by (auto simp: kgni_nic_attach_def bind_eq_Some_conv)
  let ?chk = "kgni_user_ptag_pkey_check (ae_rsrc ae) (sa_ptag at) (GNI_COOKIE_PKEY (sa_cookie at))"
  show ?thesis
  proof (cases "nic_cdm_id nic = GNI_CDM_INVALID_ID \<and> ?chk = 0")
    case False
    with a nic show ?thesis by (auto simp: kgni_nic_attach_def Let_def split: if_split_asm)
  next
    case True
    with a nic obtain r k where f: "attach_find env ae [\<lambda>k. k, \<lambda>k. k] at (sy_k s) = Some (r, k)"
      by (auto simp: kgni_nic_attach_def Let_def bind_eq_Some_conv simp del: attach_find.simps)
    have k: "kinds (s\<lparr>sy_k := k\<rparr>) = kinds s" using attach_find_nics[OF _ f] by (simp add: kinds_k)
    show ?thesis
    proof (cases r)
      case (Inl e1)
      with a nic True f k show ?thesis by (simp add: kgni_nic_attach_def Let_def del: attach_find.simps)
    next
      case (Inr d)
      with True nic f a kgni_nic_attach_enter[OF nic _ _ f[unfolded Inr]] en[of d "s\<lparr>sy_k := k\<rparr>"] k show ?thesis by simp
    qed
  qed
qed

section \<open>The driver as a machine\<close>

text \<open>Every open file has a NIC of its own, which is attached or can be attached.\<close>

definition files_ok :: "sys \<Rightarrow> bool" where
  "files_ok s \<longleftrightarrow>
     (\<forall>f fl. files s f = Some fl \<longrightarrow> (\<exists>n nic. fl_nic_hndl fl = Some n \<and> nics (sy_k s) n = Some nic \<and>
        nic_cdm_type nic = GNI_CDM_TYPE_USER \<and> (nic_cdm_id nic = GNI_CDM_INVALID_ID \<longrightarrow> fresh_nic nic))) \<and>
     (\<forall>f f' fl fl'. files s f = Some fl \<longrightarrow> files s f' = Some fl' \<longrightarrow> fl_nic_hndl fl = fl_nic_hndl fl' \<longrightarrow> f = f')"

lemma files_okE:
  assumes "files_ok s" and "files s f = Some fl"
  obtains n nic where "fl_nic_hndl fl = Some n" "nics (sy_k s) n = Some nic" "nic_cdm_type nic = GNI_CDM_TYPE_USER"
    "nic_cdm_id nic = GNI_CDM_INVALID_ID \<longrightarrow> fresh_nic nic"
  using assms unfolding files_ok_def by blast

lemma files_ok_kinds:
  assumes ok: "files_ok s" and k: "kinds s' = kinds s"
    and n: "\<And>n nic nic'. nics (sy_k s) n = Some nic \<Longrightarrow> nics (sy_k s') n = Some nic' \<Longrightarrow> (nic_cdm_id nic = GNI_CDM_INVALID_ID \<longrightarrow> fresh_nic nic) \<Longrightarrow>
      nic_cdm_id nic' = GNI_CDM_INVALID_ID \<Longrightarrow> fresh_nic nic'"
  shows "files_ok s'"
proof -
  have fs: "files s' = files s" and ty: "map_option nic_cdm_type (nics (sy_k s') x) = map_option nic_cdm_type (nics (sy_k s) x)" for x
    using k by (simp_all add: kinds_def fun_eq_iff)
  have "\<exists>n nic. fl_nic_hndl fl = Some n \<and> nics (sy_k s') n = Some nic \<and> nic_cdm_type nic = GNI_CDM_TYPE_USER \<and>
      (nic_cdm_id nic = GNI_CDM_INVALID_ID \<longrightarrow> fresh_nic nic)" if f: "files s f = Some fl" for f fl
  proof -
    obtain x nic where x: "fl_nic_hndl fl = Some x" "nics (sy_k s) x = Some nic" "nic_cdm_type nic = GNI_CDM_TYPE_USER"
      "nic_cdm_id nic = GNI_CDM_INVALID_ID \<longrightarrow> fresh_nic nic" by (rule files_okE[OF ok f])
    from map_option_eqD[OF ty x(2)] obtain nic' where "nics (sy_k s') x = Some nic'" "nic_cdm_type nic' = nic_cdm_type nic" by blast
    with x n show ?thesis by auto
  qed
  with ok fs show ?thesis unfolding files_ok_def by simp
qed

text \<open>The calls on a device fl, and what the session manager does on behalf of the NICs.\<close>

datatype drv_op =
    Drv_open att_env
  | Drv_attach addr att_env gni_nic_setattr_args
  | Drv_close addr att_env "(addr \<times> addr) option list"
  | Drv_sm sm_op

fun drv_exec :: "kgni_env \<Rightarrow> drv_op \<Rightarrow> sys \<Rightarrow> sys run" where
  "drv_exec env (Drv_open ae) s = Some (snd (kgni_open ae s))"
| "drv_exec env (Drv_attach f ae at) s = do {
     file \<leftarrow> files s f;
     n \<leftarrow> fl_nic_hndl file;
     map_option snd (kgni_nic_attach env ae (\<lambda>k. k) (\<lambda>k. k) n at s)
   }"
| "drv_exec env (Drv_close f ae cqs) s = kgni_close env ae cqs f s"
| "drv_exec env (Drv_sm op) s = map_option (\<lambda>k. s\<lparr>sy_k := k\<rparr>) (sm_exec env op (sy_k s))"

text \<open>The calling conventions: allocators return free memory, the code outside the repository answers as documented, the
  table of domains has room, the memory of a job is deregistered when its last NIC goes, and those of the session manager,
  whose clean-up is part of the detach.\<close>

fun sm_call :: "sm_op \<Rightarrow> bool" where
  "sm_call (Op_cleanup _ _) = False"
| "sm_call _ = True"

fun drv_pre :: "kgni_env \<Rightarrow> drv_op \<Rightarrow> sys \<Rightarrow> bool" where
  "drv_pre env (Drv_open ae) s \<longleftrightarrow> (\<forall>n. nic_mem ae = Some n \<longrightarrow> nics (sy_k s) n = None) \<and> (\<forall>f. file_mem ae = Some f \<longrightarrow> files s f = None)"
| "drv_pre env (Drv_attach f ae at) s \<longleftrightarrow> (case files s f of None \<Rightarrow> False
     | Some file \<Rightarrow> \<forall>n. fl_nic_hndl file = Some n \<longrightarrow> att_env_ok env ae n at s)"
| "drv_pre env (Drv_close f ae cqs) s \<longleftrightarrow> mm_env_ok ae \<and> (case files s f of None \<Rightarrow> False
     | Some file \<Rightarrow> \<forall>n nic. fl_nic_hndl file = Some n \<longrightarrow> nics (sy_k s) n = Some nic \<longrightarrow> may_release nic (sy_dev s))"
| "drv_pre env (Drv_sm op) s \<longleftrightarrow> sm_call op \<and> sm_pre env op (sy_k s)"

definition drv_inv :: "kgni_env \<Rightarrow> sys \<Rightarrow> bool" where
  "drv_inv env s \<longleftrightarrow> env_ok env \<and> att_inv env s \<and> files_ok s"

lemma sm_call_objs: "sm_call op \<Longrightarrow> sm_exec env op s = Some s' \<Longrightarrow> same_objs s s'"
  by (cases op) (auto dest: kgni_sm_add_session_objs kgni_sm_chnl_rcv_objs kgni_sm_chnl_event_objs kgni_sm_task_objs
      kgni_sm_terminate_objs kgni_sm_get_state_objs)

lemma drv_sm_safe:
  assumes inv: "drv_inv env s" and op: "sm_call op" "sm_pre env op (sy_k s)"
  shows "ok (drv_exec env (Drv_sm op) s) (drv_inv env)"
proof -
  note i = inv[unfolded drv_inv_def]
  from okD[OF sm_exec_safe[OF att_invD(1) _ op(2)]] i obtain k where k: "sm_exec env op (sy_k s) = Some k" "sm_inv env k" by blast
  have so: "same_objs (sy_k s) k" by (rule sm_call_objs[OF op(1) k(1)])
  have a: "att_inv env (s\<lparr>sy_k := k\<rparr>)" using att_inv_objs[OF _ k(2) so] i by blast
  have v: "map_option nic_view (nics k x) = map_option nic_view (nics (sy_k s) x)" for x
    using so by (simp add: same_objs_def fun_eq_iff)
  have "files_ok (s\<lparr>sy_k := k\<rparr>)"
  proof (rule files_ok_kinds)
    show "kinds (s\<lparr>sy_k := k\<rparr>) = kinds s"
    proof -
      have "map_option nic_cdm_type x = map_option (nic_cdm_type \<circ> nic_view) x" for x by (cases x) (simp_all add: nic_view_def)
      then have "map_option nic_cdm_type (nics k x) = map_option nic_cdm_type (nics (sy_k s) x)" for x
        using v[of x] by (metis option.map_comp)
      then show ?thesis by (simp add: kinds_def fun_eq_iff)
    qed
    fix n nic nic' assume h: "nics (sy_k s) n = Some nic" "nics (sy_k (s\<lparr>sy_k := k\<rparr>)) n = Some nic'"
      "nic_cdm_id nic = GNI_CDM_INVALID_ID \<longrightarrow> fresh_nic nic" "nic_cdm_id nic' = GNI_CDM_INVALID_ID"
    with v[of n] have w: "nic_view nic' = nic_view nic" by simp
    have "g (nic_view nic') = g (nic_view nic)" for g :: "gni_nic \<Rightarrow> 'a" using w by simp
    from this[of nic_cdm_id] this[of nic_sm_pkts] this[of nic_sm_pkt_id] this[of nic_ptag] this[of nic_rw_page_desc]
      this[of nic_cq_interrupt_mask_desc] this[of nic_sm_chnl_hndl] h(3,4)
    show "fresh_nic nic'" by (auto simp: nic_view_def fresh_nic_def)
  qed (use i in simp)
  with a i k(1) show ?thesis by (simp add: drv_inv_def)
qed

lemma drv_attach_safe:
  assumes inv: "drv_inv env s" and pre: "drv_pre env (Drv_attach f ae at) s"
  shows "ok (drv_exec env (Drv_attach f ae at) s) (drv_inv env)"
proof -
  note i = inv[unfolded drv_inv_def]
  from pre obtain fl where f: "files s f = Some fl" by (auto split: option.splits)
  from files_okE[of s f fl] i f obtain n nic where n: "fl_nic_hndl fl = Some n" "nics (sy_k s) n = Some nic"
    "nic_cdm_id nic = GNI_CDM_INVALID_ID \<longrightarrow> fresh_nic nic" by blast
  show ?thesis
  proof (cases "nic_cdm_id nic = GNI_CDM_INVALID_ID")
    case False
    with inv f n show ?thesis by (simp add: kgni_nic_attach_def Let_def)
  next
    case True
    have env: "att_env_ok env ae n at s" using pre f n(1) by simp
    then have mm: "mm_env_ok ae" by (simp add: att_env_ok_def setup_env_ok_def)
    from okD[OF kgni_nic_attach_safe[OF _ n(2) True n(3)[rule_format, OF True] env]] i obtain e s' where
      r: "kgni_nic_attach env ae (\<lambda>k. k) (\<lambda>k. k) n at s = Some (e, s')" "att_inv env s'" "att_nic n (sy_k s) (sy_k s')" by auto
    have "files_ok s'"
      by (rule files_ok_kinds[OF _ kgni_nic_attach_kinds[OF mm r(1)]]) (use i r(3) in \<open>auto simp: att_nic_def split: if_splits\<close>)
    with r i f n(1) show ?thesis by (simp add: drv_inv_def)
  qed
qed

lemma drv_open_safe:
  assumes inv: "drv_inv env s" and pre: "drv_pre env (Drv_open ae) s"
  shows "ok (drv_exec env (Drv_open ae) s) (drv_inv env)"
proof (cases "file_mem ae")
  case None
  with inv show ?thesis by (simp add: kgni_open_def)
next
  case (Some f)
  note i = inv[unfolded drv_inv_def]
  obtain e h s1 where c: "kgni_nic_create ae s = (e, h, s1)" by (cases "kgni_nic_create ae s")
  have a: "att_inv env s1" using kgni_nic_create_safe[OF _ _ c] i pre by simp
  show ?thesis
  proof (cases h)
    case None
    with c have "\<exists>c. s1 = ext c s \<or> s1 = s" by (auto simp: kgni_nic_create_def Let_def split: option.splits if_splits)
    then have "files_ok s1" using i by (auto simp: files_ok_def)
    with None Some c a i show ?thesis by (simp add: kgni_open_def drv_inv_def)
  next
    case (Some n)
    let ?u = "\<lambda>x. x\<lparr>nic_cdm_type := GNI_CDM_TYPE_USER\<rparr>" and ?nic = "new_nic (dev_nic_pe ae)"
    from c Some pre have n: "nics (sy_k s) n = None" by (auto simp: kgni_nic_create_def Let_def split: option.splits if_splits)
    from c Some have s1: "nics (sy_k s1) = (nics (sy_k s))(n \<mapsto> ?nic)" "files s1 = files s"
      by (auto simp: kgni_nic_create_def Let_def split: option.splits if_splits)
    let ?s = "sys_nic n ?u (s1\<lparr>files := (files s)(f \<mapsto> \<lparr>fl_nic_hndl = Some n, fl_app_cleanup = False\<rparr>)\<rparr>)"
    have "att_inv env (sys_nic n ?u s1)"
      by (rule att_inv_nic[OF a]) (use s1 in \<open>auto simp: same_att_def new_nic_def\<close>)
    then have at: "att_inv env ?s" by (simp add: att_inv_def rs_of_def)
    have fs: "files ?s = (files s)(f \<mapsto> \<lparr>fl_nic_hndl = Some n, fl_app_cleanup = False\<rparr>)"
      and ni: "nics (sy_k ?s) = (nics (sy_k s))(n \<mapsto> ?u ?nic)" using s1 by (simp_all add: upd_nic_def)
    have old: "fl_nic_hndl fl \<noteq> Some n" if "files s f' = Some fl" for f' fl
      using files_okE[of s f' fl] i that n by (metis option.distinct(1) option.inject)
    have fo: "files_ok s" using i by blast
    have "files_ok ?s"
      unfolding files_ok_def fs ni
    proof (intro conjI allI impI)
      fix f' fl assume h: "((files s)(f \<mapsto> \<lparr>fl_nic_hndl = Some n, fl_app_cleanup = False\<rparr>)) f' = Some fl"
      show "\<exists>m nic. fl_nic_hndl fl = Some m \<and> ((nics (sy_k s))(n \<mapsto> ?u ?nic)) m = Some nic \<and> nic_cdm_type nic = GNI_CDM_TYPE_USER \<and>
          (nic_cdm_id nic = GNI_CDM_INVALID_ID \<longrightarrow> fresh_nic nic)"
      proof (cases "f' = f")
        case True
        with h show ?thesis by (auto simp: fresh_nic_def new_nic_def)
      next
        case False
        with h have h': "files s f' = Some fl" by simp
        from files_okE[OF fo h'] old[OF h'] show ?thesis by (metis fun_upd_other)
      qed
    next
      fix f1 f2 l1 l2 assume "((files s)(f \<mapsto> \<lparr>fl_nic_hndl = Some n, fl_app_cleanup = False\<rparr>)) f1 = Some l1"
        "((files s)(f \<mapsto> \<lparr>fl_nic_hndl = Some n, fl_app_cleanup = False\<rparr>)) f2 = Some l2" "fl_nic_hndl l1 = fl_nic_hndl l2"
      with fo old show "f1 = f2" unfolding files_ok_def
        by (metis fun_upd_apply kgni_file.select_convs(1) option.inject)
    qed
    with at i c Some \<open>file_mem ae = Some f\<close> s1(2) show ?thesis by (simp add: kgni_open_def drv_inv_def)
  qed
qed


lemma unmap_cq_mask_safe:
  assumes inv: "att_inv env s" and nic: "nics (sy_k s) n = Some nic" and user: "nic_cdm_type nic \<noteq> GNI_CDM_TYPE_KERNEL" "nic_rw_page_desc nic = None"
  shows "\<exists>s'. unmap_cq_mask n s = Some s' \<and> att_inv env s' \<and> nics (sy_k s') = (nics (sy_k s))(n \<mapsto> nic\<lparr>nic_cq_interrupt_mask_desc := None\<rparr>) \<and>
    sy_dev s' = sy_dev s \<and> files s' = files s \<and> cdms (sy_k s') = cdms (sy_k s) \<and> kgni_cdm_array (sy_k s') = kgni_cdm_array (sy_k s)"
proof (cases "nic_cq_interrupt_mask_desc nic")
  case None
  then have "nic\<lparr>nic_cq_interrupt_mask_desc := None\<rparr> = nic" by (intro gni_nic.equality) simp_all
  then have "(nics (sy_k s))(n \<mapsto> nic\<lparr>nic_cq_interrupt_mask_desc := None\<rparr>) = nics (sy_k s)" using nic by (simp add: fun_upd_idem)
  moreover have "unmap_cq_mask n s = Some s" using None nic by (cases "nic_mm nic") (simp_all add: unmap_cq_mask_def)
  ultimately show ?thesis using inv by (intro exI[of _ s]) simp
next
  case (Some u)
  let ?f = "\<lambda>x. x\<lparr>nic_cq_interrupt_mask_desc := None\<rparr>"
  have p: "u \<in> pages nic" using Some by (simp add: pages_def)
  obtain mm where mm: "nic_mm nic = Some mm" using page_okD(1)[OF att_invD(5)[OF inv] nic p] by auto
  have "pages (?f nic) \<subseteq> pages nic - {u}" using user(2) by (simp add: pages_def)
  from unmap_page_safe[OF inv nic p, where f = ?f and mm = mm, OF _ _ _ this] mm obtain m' where
    m: "kgni_unmap_area mm u (sy_mm s) = Some m'" "att_inv env (sys_nic n ?f (s\<lparr>sy_mm := m'\<rparr>))"
    by (auto simp: same_att_def)
  with mm Some user nic show ?thesis by (simp add: unmap_cq_mask_def upd_nic_def)
qed

text \<open>What a close does to the domains: that of its NIC, if it has one, loses the NIC.\<close>

definition closed :: "addr \<Rightarrow> gni_nic \<Rightarrow> kgni \<Rightarrow> kgni \<Rightarrow> bool" where
  "closed n nic k k' \<longleftrightarrow> (if nic_cdm_id nic = GNI_CDM_INVALID_ID then cdms k' = cdms k \<and> kgni_cdm_array k' = kgni_cdm_array k
     else \<exists>d c k1. cdms k d = Some c \<and> cdm_my_id c = nic_cdm_id nic \<and> detached n nic d c k k1 \<and> cdms k' = cdms k1 \<and>
       kgni_cdm_array k' = kgni_cdm_array k1)"

lemma drv_close_safe:
  assumes inv: "drv_inv env s" and pre: "drv_pre env (Drv_close f ae cqs) s"
  shows "ok (drv_exec env (Drv_close f ae cqs) s) (\<lambda>s'. drv_inv env s' \<and> files s' = (files s)(f := None) \<and>
    (\<exists>fl n nic. files s f = Some fl \<and> fl_nic_hndl fl = Some n \<and> nics (sy_k s) n = Some nic \<and> closed n nic (sy_k s) (sy_k s')))"
proof -
  note i = inv[unfolded drv_inv_def]
  from pre obtain fl where f: "files s f = Some fl" by (auto split: option.splits)
  have fo: "files_ok s" using i by blast
  obtain n nic where n: "fl_nic_hndl fl = Some n" "nics (sy_k s) n = Some nic" "nic_cdm_type nic = GNI_CDM_TYPE_USER"
    "nic_cdm_id nic = GNI_CDM_INVALID_ID \<longrightarrow> fresh_nic nic" by (rule files_okE[OF fo f])
  have rel: "may_release nic (sy_dev s)" and mm: "mm_env_ok ae" using pre f n(1,2) by auto
  have "\<exists>e s1 nic1. kgni_nic_detach env n s = Some (e, s1) \<and> att_inv env s1 \<and> nics (sy_k s1) = (nics (sy_k s))(n \<mapsto> nic1) \<and>
      nic_cdm_id nic1 = GNI_CDM_INVALID_ID \<and> nic_ptag nic1 = nic_ptag nic \<and> nic_cdm_type nic1 = GNI_CDM_TYPE_USER \<and> nic_rw_page_desc nic1 = None \<and>
      files s1 = files s \<and> sy_dev s1 = sy_dev s \<and> closed n nic (sy_k s) (sy_k s1)"
  proof (cases "nic_cdm_id nic = GNI_CDM_INVALID_ID")
    case True
    with n i show ?thesis by (intro exI[of _ "- ENXIO"] exI[of _ s] exI[of _ nic])
        (auto simp: kgni_nic_detach_def fresh_nic_def fun_upd_idem closed_def)
  next
    case False
    from kgni_nic_detach_safe[OF _ n(2) False, of env] i obtain s1 d c nic1 where
      d: "kgni_nic_detach env n s = Some (0, s1)" "att_inv env s1" "detached n nic d c (sy_k s) (sy_k s1)" "files s1 = files s"
        "sy_dev s1 = sy_dev s" "nics (sy_k s1) n = Some nic1" "nic_ptag nic1 = nic_ptag nic" "nic_cdm_type nic1 = nic_cdm_type nic"
        "nic_cdm_type nic \<noteq> GNI_CDM_TYPE_KERNEL \<longrightarrow> nic_rw_page_desc nic1 = None" "cdms (sy_k s) d = Some c" "cdm_my_id c = nic_cdm_id nic" by blast
    have "closed n nic (sy_k s) (sy_k s1)" unfolding closed_def if_not_P[OF False] using d(3,10,11) by blast
    moreover from d(3) d(6) have "nics (sy_k s1) = (nics (sy_k s))(n \<mapsto> nic1)" "nic_cdm_id nic1 = GNI_CDM_INVALID_ID"
      unfolding detached_def by auto
    ultimately show ?thesis using d n(3) by auto
  qed
  then obtain e s1 nic1 where s1: "kgni_nic_detach env n s = Some (e, s1)" "att_inv env s1" "nics (sy_k s1) = (nics (sy_k s))(n \<mapsto> nic1)"
      "nic_cdm_id nic1 = GNI_CDM_INVALID_ID" "nic_ptag nic1 = nic_ptag nic" "nic_cdm_type nic1 = GNI_CDM_TYPE_USER" "nic_rw_page_desc nic1 = None"
      "files s1 = files s" "sy_dev s1 = sy_dev s" "closed n nic (sy_k s) (sy_k s1)" by blast
  let ?fold = "\<lambda>s. fold (\<lambda>e s. case e of None \<Rightarrow> s | Some (m, q) \<Rightarrow> if m = n then ext (Kgni_cq_destroy n q) s else s) cqs s"
  have fold: "att_inv env (?fold t) = att_inv env t \<and> sy_k (?fold t) = sy_k t \<and> files (?fold t) = files t \<and> sy_dev (?fold t) = sy_dev t" for t
    by (induction cqs arbitrary: t) (auto split: option.splits prod.splits)
  let ?s2 = "?fold s1"
  have s2: "att_inv env ?s2" "nics (sy_k ?s2) n = Some nic1" "sy_k ?s2 = sy_k s1" "files ?s2 = files s" "sy_dev ?s2 = sy_dev s"
    using fold s1 by simp_all
  from unmap_cq_mask_safe[OF s2(1,2) _ s1(7)] s1(6) obtain s3 where s3: "unmap_cq_mask n ?s2 = Some s3" "att_inv env s3"
    "nics (sy_k s3) = (nics (sy_k ?s2))(n \<mapsto> nic1\<lparr>nic_cq_interrupt_mask_desc := None\<rparr>)" "sy_dev s3 = sy_dev ?s2" "files s3 = files ?s2"
    "cdms (sy_k s3) = cdms (sy_k ?s2)" "kgni_cdm_array (sy_k s3) = kgni_cdm_array (sy_k ?s2)" by auto
  let ?s4 = "ext (Kgni_vmdh_release n) (ext (Kgni_mem_cleanup n) (ext (Kgni_fma_put_all n) s3))"
  let ?nic = "nic1\<lparr>nic_cq_interrupt_mask_desc := None\<rparr>"
  have p: "att_inv env ?s4" "nics (sy_k ?s4) n = Some ?nic" "nic_cdm_id ?nic = GNI_CDM_INVALID_ID" "pages ?nic = {}" "may_release ?nic (sy_dev ?s4)"
    using s3 s1(4,5,7) s2(5) rel by (simp_all add: pages_def may_release_def)
  from okD[OF kgni_nic_destroy_safe[OF p mm]] obtain s5 where s5: "kgni_nic_destroy ae n ?s4 = Some (0, s5)" "att_inv env s5"
    "nics (sy_k s5) = (nics (sy_k s))(n := None)" "files s5 = files s"
    "cdms (sy_k s5) = cdms (sy_k s1)" "kgni_cdm_array (sy_k s5) = kgni_cdm_array (sy_k s1)"
    using s3(3,5-7) s2(3,4) s1(3) by auto
  have cl: "closed n nic (sy_k s) (sy_k s5)" using s1(10) unfolding closed_def s5(5,6) .
  let ?s6 = "if fl_app_cleanup fl then ext (App_cleanup f) s5 else s5"
  have a6: "att_inv env (?s6\<lparr>files := (files ?s6)(f := None)\<rparr>)" using s5(2) by (simp add: att_inv_def rs_of_def)
  have fs: "files ?s6 = files s" "nics (sy_k ?s6) = (nics (sy_k s))(n := None)" using s5(3,4) by simp_all
  have "files_ok (?s6\<lparr>files := (files ?s6)(f := None)\<rparr>)"
    unfolding files_ok_def fs
  proof (intro conjI allI impI)
    fix f' fl' assume h: "files (?s6\<lparr>files := (files s)(f := None)\<rparr>) f' = Some fl'"
    then have f': "files s f' = Some fl'" "f' \<noteq> f" by (auto split: if_splits)
    obtain m nic' where m: "fl_nic_hndl fl' = Some m" "nics (sy_k s) m = Some nic'" "nic_cdm_type nic' = GNI_CDM_TYPE_USER"
      "nic_cdm_id nic' = GNI_CDM_INVALID_ID \<longrightarrow> fresh_nic nic'" by (rule files_okE[OF fo f'(1)])
    have "m \<noteq> n" using fo f f' n(1) m(1) unfolding files_ok_def by metis
    with m fs(2) show "\<exists>m nic. fl_nic_hndl fl' = Some m \<and> nics (sy_k (?s6\<lparr>files := (files s)(f := None)\<rparr>)) m = Some nic \<and>
        nic_cdm_type nic = GNI_CDM_TYPE_USER \<and> (nic_cdm_id nic = GNI_CDM_INVALID_ID \<longrightarrow> fresh_nic nic)" by auto
  next
    fix f1 f2 l1 l2 assume "files (?s6\<lparr>files := (files s)(f := None)\<rparr>) f1 = Some l1"
      "files (?s6\<lparr>files := (files s)(f := None)\<rparr>) f2 = Some l2" "fl_nic_hndl l1 = fl_nic_hndl l2"
    with fo show "f1 = f2" unfolding files_ok_def by (auto split: if_splits)
  qed
  moreover have "kgni_close env ae cqs f s = Some (?s6\<lparr>files := (files ?s6)(f := None)\<rparr>)"
    using f n(1) s1(1) s3(1) s5(1) by (simp add: kgni_close_def Let_def)
  moreover have "closed n nic (sy_k s) (sy_k (?s6\<lparr>files := (files ?s6)(f := None)\<rparr>))" using cl by simp
  ultimately show ?thesis using a6 i fs(1) f n(1,2) by (simp add: drv_inv_def)
qed

interpretation drv: safe_machine "drv_pre env" "drv_exec env" "drv_inv env" for env
proof
  fix s op assume inv: "drv_inv env s" and "drv_pre env op s"
  moreover have "ok (drv_exec env (Drv_close f ae cqs) s) (drv_inv env)" if "drv_pre env (Drv_close f ae cqs) s" for f ae cqs
    using drv_close_safe[OF inv that] by (rule ok_mono) simp
  ultimately show "ok (drv_exec env op s) (drv_inv env)"
    using drv_open_safe[of env s] drv_attach_safe[of env s] drv_sm_safe[of env s]
    by (cases op) (auto simp del: drv_exec.simps)
qed

end
