(* ===== verification/Cdm_Spec.thy ===== *)
theory Cdm_Spec
  imports Cdm_Driver
begin

text \<open>
  What the domains promise to their users, as an abstract machine on maps from keys to sets of NICs, and that the driver
  implements it.
\<close>

section \<open>What the domains promise\<close>

text \<open>To its users a domain is a key with the set of the NICs that are attached to it. A NIC joins the domain of a key, or the
  attach fails and nothing changes; a NIC leaves; a domain without NICs is gone.\<close>

type_synonym dom_key = "u8 \<times> u32 \<times> u32"
type_synonym doms = "dom_key \<rightharpoonup> addr set"

datatype dom_event = Stay | Join addr dom_key | Leave addr

definition leave :: "addr \<Rightarrow> doms \<Rightarrow> doms" where
  "leave n m = (\<lambda>key. case m key of None \<Rightarrow> None | Some S \<Rightarrow> if S - {n} = {} then None else Some (S - {n}))"

fun dom_spec :: "dom_event \<Rightarrow> doms \<Rightarrow> doms \<Rightarrow> bool" where
  "dom_spec Stay m m' \<longleftrightarrow> m' = m"
| "dom_spec (Join n key) m m' \<longleftrightarrow> m' = m \<or>
     (\<forall>S \<in> ran m. n \<notin> S) \<and> m' = m(key \<mapsto> insert n (case m key of None \<Rightarrow> {} | Some S \<Rightarrow> S))"
| "dom_spec (Leave n) m m' \<longleftrightarrow> m' = leave n m"

lemma dom_spec_nonempty: "dom_spec e m m' \<Longrightarrow> {} \<notin> ran m \<Longrightarrow> {} \<notin> ran m'"
  by (cases e) (auto simp: ran_def leave_def split: option.splits if_splits)

text \<open>The specification keeps the domains of a key non-empty and a NIC in one domain at most.\<close>

definition doms_ok :: "doms \<Rightarrow> bool" where
  "doms_ok m \<longleftrightarrow> {} \<notin> ran m \<and> (\<forall>k k' S S'. m k = Some S \<longrightarrow> m k' = Some S' \<longrightarrow> k \<noteq> k' \<longrightarrow> S \<inter> S' = {})"

lemma dom_spec_ok: "dom_spec e m m' \<Longrightarrow> doms_ok m \<Longrightarrow> doms_ok m'"
proof (cases e)
  case (Join n key)
  assume h: "dom_spec e m m'" "doms_ok m"
  have r: "{} \<notin> ran m'" using dom_spec_nonempty[OF h(1)] h(2) by (simp add: doms_ok_def)
  have d: "S \<inter> S' = {}" if "m k = Some S" "m k' = Some S'" "k \<noteq> k'" for k k' S S' using h(2) that unfolding doms_ok_def by blast
  from h(1) Join have "m' = m \<or> (\<forall>S \<in> ran m. n \<notin> S) \<and> m' = m(key \<mapsto> insert n (case m key of None \<Rightarrow> {} | Some S \<Rightarrow> S))" by simp
  then show ?thesis
  proof
    assume j: "(\<forall>S \<in> ran m. n \<notin> S) \<and> m' = m(key \<mapsto> insert n (case m key of None \<Rightarrow> {} | Some S \<Rightarrow> S))"
    then have n: "n \<notin> S" if "m k = Some S" for k S using ranI[of m k S] that by blast
    have "S \<inter> S' = {}" if "m' k = Some S" "m' k' = Some S'" "k \<noteq> k'" for k k' S S'
      using that j n[of k S] n[of k' S'] d[of k S k' S'] d[of key _ k' S'] d[of k S key]
      by (auto split: if_splits option.splits)
    with r show ?thesis unfolding doms_ok_def by blast
  qed (use h in simp)
next
  case (Leave n)
  assume h: "dom_spec e m m'" "doms_ok m"
  have r: "{} \<notin> ran m'" using dom_spec_nonempty[OF h(1)] h(2) by (simp add: doms_ok_def)
  have "S \<inter> S' = {}" if "m' k = Some S" "m' k' = Some S'" "k \<noteq> k'" for k k' S S'
  proof -
    have sub: "\<exists>T. m k = Some T \<and> S \<subseteq> T" if "m' k = Some S" for k S
      using that h(1) Leave by (auto simp: leave_def split: option.splits if_splits)
    obtain T T' where t: "m k = Some T" "S \<subseteq> T" "m k' = Some T'" "S' \<subseteq> T'" using sub \<open>m' k = Some S\<close> \<open>m' k' = Some S'\<close> by metis
    have "T \<inter> T' = {}" using h(2) t(1,3) \<open>k \<noteq> k'\<close> unfolding doms_ok_def by blast
    with t(2,4) show ?thesis by blast
  qed
  with r show ?thesis unfolding doms_ok_def by blast
qed simp

section \<open>What the driver keeps\<close>

definition members :: "gni_cdm \<Rightarrow> addr set" where
  "members c = {n. Some n \<in> set (cdm_nic_hndls c)}"

definition dom_abs :: "kgni \<Rightarrow> doms" where
  "dom_abs k key = (case cdm_abs k key of None \<Rightarrow> None | Some d \<Rightarrow> map_option members (cdms k d))"

lemma dom_abs_iff:
  assumes t: "tab_ok (kgni_cdm_array k) (cdms k)"
  shows "dom_abs k (p, ck, i) = Some S \<longleftrightarrow> (\<exists>d c. cdms k d = Some c \<and> cdm_match p ck i c \<and> S = members c)"
proof
  assume "dom_abs k (p, ck, i) = Some S"
  then obtain d where d: "cdm_abs k (p, ck, i) = Some d" "map_option members (cdms k d) = Some S"
    by (auto simp: dom_abs_def split: option.splits)
  with cdm_abs_iff[OF t, of p ck i d] obtain c where "cdms k d = Some c" "cdm_match p ck i c" "S = members c" by auto
  then show "\<exists>d c. cdms k d = Some c \<and> cdm_match p ck i c \<and> S = members c" by blast
next
  assume "\<exists>d c. cdms k d = Some c \<and> cdm_match p ck i c \<and> S = members c"
  then obtain d c where d: "cdms k d = Some c" "cdm_match p ck i c" "S = members c" by blast
  with cdm_abs_iff[OF t, of p ck i d] have "cdm_abs k (p, ck, i) = Some d" by blast
  with d show "dom_abs k (p, ck, i) = Some S" by (simp add: dom_abs_def)
qed

lemma dom_abs_eqI:
  assumes "tab_ok (kgni_cdm_array k) (cdms k)"
    and "\<And>p ck i S. m (p, ck, i) = Some S \<longleftrightarrow> (\<exists>d c. cdms k d = Some c \<and> cdm_match p ck i c \<and> S = members c)"
  shows "dom_abs k = m"
proof (rule ext)
  fix x :: dom_key
  obtain p ck i where x: "x = (p, ck, i)" by (cases x)
  have "dom_abs k x = Some S \<longleftrightarrow> m x = Some S" for S unfolding x dom_abs_iff[OF assms(1)] assms(2) ..
  then show "dom_abs k x = m x" by (metis option.exhaust)
qed

lemma members_view: "cdm_view c = cdm_view c' \<Longrightarrow> members c = members c'"
  by (drule cdm_view_eqD(2)) (simp add: members_def)

lemma match_view: "cdm_view c = cdm_view c' \<Longrightarrow> cdm_match p ck i c = cdm_match p ck i c'"
proof -
  assume h: "cdm_view c = cdm_view c'"
  have "f (cdm_view c) = f (cdm_view c')" for f :: "gni_cdm \<Rightarrow> 'a" using h by simp
  from this[of cdm_ptag] this[of cdm_cookie] this[of cdm_inst_id] show ?thesis by (simp add: cdm_match_def cdm_view_def)
qed

lemma dom_abs_view:
  assumes t: "tab_ok (kgni_cdm_array k) (cdms k)" "tab_ok (kgni_cdm_array k') (cdms k')"
    and v: "map_option cdm_view \<circ> cdms k' = map_option cdm_view \<circ> cdms k"
  shows "dom_abs k' = dom_abs k"
proof (rule dom_abs_eqI[OF t(2)])
  fix p ck i S
  have v': "map_option cdm_view (cdms k' d) = map_option cdm_view (cdms k d)" for d using v by (simp add: fun_eq_iff)
  show "dom_abs k (p, ck, i) = Some S \<longleftrightarrow> (\<exists>d c. cdms k' d = Some c \<and> cdm_match p ck i c \<and> S = members c)"
    unfolding dom_abs_iff[OF t(1)]
    using map_option_eqD[OF v'] map_option_eqD[OF v'[symmetric]] members_view match_view by metis
qed

lemma no_member:
  assumes inv: "att_inv env s" and nic: "nics (sy_k s) n = Some nic" and c: "cdms (sy_k s) d = Some c" "cdm_my_id c \<noteq> nic_cdm_id nic"
  shows "n \<notin> members c"
proof
  assume "n \<in> members c"
  then obtain i where "i < length (cdm_nic_hndls c)" "cdm_nic_hndls c ! i = Some n" by (auto simp: members_def in_set_conv_nth)
  from att_okD(1)[OF att_invD(3)[OF inv] c(1) this] nic c(2) show False by simp
qed

lemma dom_abs_outside:
  assumes inv: "att_inv env s" and nic: "nics (sy_k s) n = Some nic" "nic_cdm_id nic = GNI_CDM_INVALID_ID"
    and S: "S \<in> ran (dom_abs (sy_k s))"
  shows "n \<notin> S"
proof -
  from S obtain p ck i where "dom_abs (sy_k s) (p, ck, i) = Some S" by (auto simp: ran_def)
  then obtain d c where c: "cdms (sy_k s) d = Some c" "S = members c" using dom_abs_iff[OF att_invD(2)[OF inv]] by blast
  show ?thesis unfolding c(2) by (rule no_member[OF inv nic(1) c(1)]) (use valid_id[OF inv c(1)] nic(2) in simp)
qed

lemma dom_abs_joined:
  assumes inv: "att_inv env s" "att_inv env s'" and j: "joined n at (sy_k s) (sy_k s')"
  shows "dom_abs (sy_k s') = (dom_abs (sy_k s))(att_key at \<mapsto> insert n (case dom_abs (sy_k s) (att_key at) of None \<Rightarrow> {} | Some S \<Rightarrow> S))"
proof -
  let ?k = "sy_k s" and ?k' = "sy_k s'"
  note t = att_invD(2)[OF inv(1)] and t' = att_invD(2)[OF inv(2)]
  from j obtain d c k1 where e: "entered n d c k1 ?k'" and c: "cdms k1 d = Some c" "cdm_match (ucast (sa_ptag at)) (sa_cookie at) (sa_rank at) c"
    and k1: "k1 = ?k \<or> cdm_abs ?k (att_key at) = None \<and> cdms ?k d = None \<and> (\<exists>j. k1 = add_cdm d j (new_cdm (sa_rank at) (ucast (sa_ptag at)) (sa_cookie at) (sa_modes at)) ?k)"
    unfolding joined_def by blast
  let ?c = "\<lambda>i. c\<lparr>cdm_nic_hndls := (cdm_nic_hndls c)[i := Some n]\<rparr>"
  from e obtain i where i: "i < length (cdm_nic_hndls c)" "cdm_nic_hndls c ! i = None" "cdms ?k' = (cdms k1)(d \<mapsto> ?c i)" unfolding entered_def by blast
  have mem: "members (?c i) = insert n (members c)"
    using i(1,2) set_update_memI[OF i(1)] unfolding members_def in_set_conv_nth by (auto simp: nth_list_update) (metis option.distinct(1))+
  have old: "members c = (case dom_abs ?k (att_key at) of None \<Rightarrow> {} | Some S \<Rightarrow> S)"
  proof (cases "k1 = ?k")
    case True
    with c dom_abs_iff[OF t] have "dom_abs ?k (att_key at) = Some (members c)" by (auto simp: att_key_def)
    then show ?thesis by simp
  next
    case False
    with k1 c(1) show ?thesis by (auto simp: dom_abs_def add_cdm_def members_def)
  qed
  have cd: "cdms ?k' = (cdms ?k)(d \<mapsto> ?c i)" using i(3) k1 by (auto simp: add_cdm_def)
  have was: "cdms ?k d = None \<or> cdms ?k d = Some c" using k1 c(1) by auto
  have mt: "cdm_match p ck r (?c i) \<longleftrightarrow> att_key at = (p, ck, r)" for p ck r
    using c(2) by (auto simp: cdm_match_def att_key_def)
  have uniq: "d' = d" if "cdms ?k' d' = Some c'" "cdm_match p ck r c'" "att_key at = (p, ck, r)" for d' c' p ck r
    using tab_okD(6)[OF t', of d "?c i" d' c'] that cd c(2) by (auto simp: cdm_match_def att_key_def)
  show ?thesis
    unfolding old[symmetric]
  proof (rule dom_abs_eqI[OF t'])
    fix p ck r S
    show "((dom_abs ?k)(att_key at \<mapsto> insert n (members c))) (p, ck, r) = Some S \<longleftrightarrow>
        (\<exists>d c. cdms ?k' d = Some c \<and> cdm_match p ck r c \<and> S = members c)"
    proof (cases "att_key at = (p, ck, r)")
      case True
      have "cdms ?k' d = Some (?c i)" "cdm_match p ck r (?c i)" using cd mt True by simp_all
      with uniq[OF _ _ True] mem True show ?thesis by (metis fun_upd_same option.inject)
    next
      case False
      have "(\<exists>d' c'. cdms ?k' d' = Some c' \<and> cdm_match p ck r c' \<and> S = members c') \<longleftrightarrow> (\<exists>d' c'. cdms ?k d' = Some c' \<and> cdm_match p ck r c' \<and> S = members c')"
        using cd mt[of p ck r] False was by (auto simp: cdm_match_def) (metis option.inject c(2) cdm_match_def att_key_def option.distinct(1))+
      with False dom_abs_iff[OF t, of p ck r S] show ?thesis by simp
    qed
  qed
qed


lemma leave_outside: "(\<And>S. S \<in> ran m \<Longrightarrow> n \<notin> S) \<Longrightarrow> {} \<notin> ran m \<Longrightarrow> leave n m = m"
proof (rule ext)
  fix key assume h: "\<And>S. S \<in> ran m \<Longrightarrow> n \<notin> S" "{} \<notin> ran m"
  show "leave n m key = m key"
  proof (cases "m key")
    case (Some S)
    then have "S \<in> ran m" by (rule ranI)
    with h have "n \<notin> S" "S \<noteq> {}" by auto
    with Some show ?thesis by (simp add: leave_def)
  qed (simp add: leave_def)
qed

lemma members_clear:
  assumes i: "i < length xs" "xs ! i = Some n" and only: "\<And>j. j < length xs \<Longrightarrow> xs ! j = Some n \<Longrightarrow> j = i"
  shows "{x. Some x \<in> set (xs[i := None])} = {x. Some x \<in> set xs} - {n}"
proof -
  have "Some n \<notin> set (xs[i := None])"
  proof
    assume "Some n \<in> set (xs[i := None])"
    then obtain j where "j < length (xs[i := None])" "xs[i := None] ! j = Some n" unfolding in_set_conv_nth by blast
    with only[of j] i(1) show False by (cases "j = i") simp_all
  qed
  moreover have "Some x \<in> set (xs[i := None])" if x: "Some x \<in> set xs" "x \<noteq> n" for x
  proof -
    from x(1) obtain j where j: "j < length xs" "xs ! j = Some x" unfolding in_set_conv_nth by blast
    with i(2) x(2) have "j \<noteq> i" by auto
    with j have "xs[i := None] ! j = Some x" "j < length (xs[i := None])" by simp_all
    then show ?thesis unfolding in_set_conv_nth by blast
  qed
  ultimately show ?thesis using set_update_SomeD[of _ xs i] by blast
qed

lemma dom_abs_detached:
  assumes inv: "att_inv env s" and t': "tab_ok (kgni_cdm_array k') (cdms k')" and nic: "nics (sy_k s) n = Some nic"
    and d: "cdms (sy_k s) d = Some c" "cdm_my_id c = nic_cdm_id nic" "nic_cdm_id nic \<noteq> GNI_CDM_INVALID_ID"
    and k1: "detached n nic d c (sy_k s) k1" "cdms k' = cdms k1" and ne: "{} \<notin> ran (dom_abs (sy_k s))"
  shows "dom_abs k' = leave n (dom_abs (sy_k s))"
proof (rule dom_abs_eqI[OF t'])
  let ?k = "sy_k s" and ?i = "unat (nic_my_id nic)"
  let ?hs = "(cdm_nic_hndls c)[?i := None]"
  let ?c = "c\<lparr>cdm_nic_hndls := ?hs\<rparr>"
  note t = att_invD(2)[OF inv] and at = att_invD(3)[OF inv]
  obtain d0 c0 where "cdms ?k d0 = Some c0" "cdm_my_id c0 = nic_cdm_id nic" "?i < length (cdm_nic_hndls c0)" "cdm_nic_hndls c0 ! ?i = Some n"
    using att_okD(2)[OF at nic d(3)] by blast
  with my_id_inj[OF t d(1)] d(1,2) have i: "?i < length (cdm_nic_hndls c)" "cdm_nic_hndls c ! ?i = Some n" by auto
  have only: "j = ?i" if "j < length (cdm_nic_hndls c)" "cdm_nic_hndls c ! j = Some n" for j
    using att_okD(1)[OF at d(1) that] nic by auto
  have mem: "members ?c = members c - {n}" using members_clear[OF i only] by (simp add: members_def)
  have all: "(\<forall>e \<in> set ?hs. e = None) \<longleftrightarrow> members ?c = {}" unfolding members_def by (auto) (metis option.exhaust)
  have mt: "cdm_match p ck r ?c = cdm_match p ck r c" for p ck r by (simp add: cdm_match_def)
  have other: "n \<notin> members c'" "members c' \<noteq> {}" if "cdms ?k d' = Some c'" "d' \<noteq> d" for d' c'
  proof -
    show "n \<notin> members c'" by (rule no_member[OF inv nic that(1)]) (use my_id_inj[OF t d(1) that(1)] d(2) that(2) in auto)
    have "dom_abs ?k (cdm_ptag c', cdm_cookie c', cdm_inst_id c') = Some (members c')"
      unfolding dom_abs_iff[OF t] using that(1) by (auto simp: cdm_match_def)
    then show "members c' \<noteq> {}" using ranI[of "dom_abs ?k" _ "members c'"] ne by auto
  qed
  have v: "map_option cdm_view (cdms k' x) = (if x = d then (if members ?c = {} then None else Some (cdm_view ?c)) else map_option cdm_view (cdms ?k x))" for x
  proof -
    have "map_option cdm_view \<circ> cdms k1 = (if members ?c = {} then (map_option cdm_view \<circ> cdms ?k)(d := None)
        else (map_option cdm_view \<circ> cdms ?k)(d \<mapsto> cdm_view ?c))"
      using k1(1) unfolding detached_def Let_def all by (auto split: if_splits)
    then have "(map_option cdm_view \<circ> cdms k1) x = (if members ?c = {} then (map_option cdm_view \<circ> cdms ?k)(d := None)
        else (map_option cdm_view \<circ> cdms ?k)(d \<mapsto> cdm_view ?c)) x" by simp
    then show ?thesis unfolding k1(2) by simp
  qed
  fix p ck r S
  have "(\<exists>x c'. cdms k' x = Some c' \<and> cdm_match p ck r c' \<and> S = members c') \<longleftrightarrow>
      (\<exists>x c'. map_option cdm_view (cdms k' x) = Some (cdm_view c') \<and> cdm_match p ck r c' \<and> S = members c')"
  proof (intro iffI; elim exE conjE)
    fix x c' assume h: "map_option cdm_view (cdms k' x) = Some (cdm_view c')" "cdm_match p ck r c'" "S = members c'"
    from h(1) obtain c2 where c2: "cdms k' x = Some c2" "cdm_view c2 = cdm_view c'" by auto
    show "\<exists>x c'. cdms k' x = Some c' \<and> cdm_match p ck r c' \<and> S = members c'"
      using c2(1) h(2,3) members_view[OF c2(2)] match_view[OF c2(2), of p ck r] by blast
  qed auto
  also have "\<dots> \<longleftrightarrow> (\<exists>x c'. cdms ?k x = Some c' \<and> cdm_match p ck r c' \<and> S = members c' - {n} \<and> S \<noteq> {})"
    (is "?l \<longleftrightarrow> ?r")
  proof
    assume ?l
    then obtain x c' where x: "map_option cdm_view (cdms k' x) = Some (cdm_view c')" "cdm_match p ck r c'" "S = members c'" by blast
    show ?r
    proof (cases "x = d")
      case True
      with x(1) v[of x] have "members ?c \<noteq> {}" "cdm_view c' = cdm_view ?c" by (auto split: if_splits)
      with x(2,3) mem members_view[of c' ?c] match_view[of c' ?c p ck r] mt[of p ck r] d(1) show ?thesis by blast
    next
      case False
      with x(1) v[of x] obtain c'' where "cdms ?k x = Some c''" "cdm_view c'' = cdm_view c'" by auto
      moreover from this have "members c' = members c''" "cdm_match p ck r c''" using members_view match_view x(2) by blast+
      ultimately show ?thesis using other[of x c''] False x(3) by (intro exI[of _ x] exI[of _ c'']) auto
    qed
  next
    assume ?r
    then obtain x c' where x: "cdms ?k x = Some c'" "cdm_match p ck r c'" "S = members c' - {n}" "S \<noteq> {}" by blast
    show ?l
    proof (cases "x = d")
      case True
      with x d(1) have "c' = c" by simp
      with True x mem v[of d] mt[of p ck r] show ?thesis by (intro exI[of _ d] exI[of _ ?c]) simp
    next
      case False
      with v[of x] x other(1)[OF x(1) False] show ?thesis by (intro exI[of _ x] exI[of _ c']) simp
    qed
  qed
  also have "\<dots> \<longleftrightarrow> (\<exists>T. dom_abs ?k (p, ck, r) = Some T \<and> S = T - {n} \<and> S \<noteq> {})"
    unfolding dom_abs_iff[OF t] by blast
  also have "\<dots> \<longleftrightarrow> leave n (dom_abs ?k) (p, ck, r) = Some S"
    by (auto simp: leave_def split: option.splits)
  finally show "leave n (dom_abs ?k) (p, ck, r) = Some S \<longleftrightarrow> (\<exists>x c'. cdms k' x = Some c' \<and> cdm_match p ck r c' \<and> S = members c')" by blast
qed


fun drv_event :: "drv_op \<Rightarrow> sys \<Rightarrow> dom_event" where
  "drv_event (Drv_attach f ae at) s =
     (case Option.bind (files s f) fl_nic_hndl of None \<Rightarrow> Stay | Some n \<Rightarrow> Join n (att_key at))"
| "drv_event (Drv_close f ae cqs) s = (case Option.bind (files s f) fl_nic_hndl of None \<Rightarrow> Stay | Some n \<Rightarrow> Leave n)"
| "drv_event _ s = Stay"

definition no_empty :: "sys \<Rightarrow> bool" where
  "no_empty s \<longleftrightarrow> {} \<notin> ran (dom_abs (sy_k s))"

lemma no_empty_used:
  assumes inv: "att_inv env s" and ne: "no_empty s"
  shows "dom_used at (sy_k s)"
  unfolding dom_used_def
proof (intro allI impI)
  fix d c assume h: "cdm_abs (sy_k s) (att_key at) = Some d" "cdms (sy_k s) d = Some c"
  then have "dom_abs (sy_k s) (att_key at) = Some (members c)" by (simp add: dom_abs_def)
  then have "members c \<noteq> {}" using ne ranI[of "dom_abs (sy_k s)" "att_key at" "members c"] by (auto simp: no_empty_def)
  then show "\<exists>e \<in> set (cdm_nic_hndls c). e \<noteq> None" by (auto simp: members_def)
qed

lemma drv_sim:
  assumes inv: "drv_inv env s" and ne: "no_empty s" and pre: "drv_pre env op s" and ex: "drv_exec env op s = Some s'"
  shows "dom_spec (drv_event op s) (dom_abs (sy_k s)) (dom_abs (sy_k s'))"
proof -
  note i = inv[unfolded drv_inv_def]
  have i': "att_inv env s'" using drv.op_safe[OF inv pre] ex by (simp add: drv_inv_def)
  have a: "att_inv env s" using i by blast
  note t = att_invD(2)[OF a] and t' = att_invD(2)[OF i']
  show ?thesis
  proof (cases op)
    case (Drv_open ae)
    with ex have "cdms (sy_k s') = cdms (sy_k s)"
      by (auto simp: kgni_open_def kgni_nic_create_def Let_def split: option.splits if_splits)
    then have "dom_abs (sy_k s') = dom_abs (sy_k s)" by (intro dom_abs_view[OF t t']) simp
    with Drv_open show ?thesis by simp
  next
    case (Drv_sm op')
    with ex pre obtain k where k: "sm_exec env op' (sy_k s) = Some k" "s' = s\<lparr>sy_k := k\<rparr>" "sm_call op'" by auto
    have "dom_abs (sy_k s') = dom_abs (sy_k s)"
      by (rule dom_abs_view[OF t t']) (use sm_call_objs[OF k(3,1)] k(2) in \<open>simp add: same_objs_def\<close>)
    with Drv_sm show ?thesis by simp
  next
    case (Drv_attach f ae at)
    with pre obtain fl where f: "files s f = Some fl" by (auto split: option.splits)
    obtain n nic where n: "fl_nic_hndl fl = Some n" "nics (sy_k s) n = Some nic" "nic_cdm_id nic = GNI_CDM_INVALID_ID \<longrightarrow> fresh_nic nic"
      using files_okE[of s f fl] i f by blast
    have ev: "drv_event op s = Join n (att_key at)" using Drv_attach f n(1) by simp
    show ?thesis
    proof (cases "nic_cdm_id nic = GNI_CDM_INVALID_ID")
      case False
      with ex Drv_attach f n have "s' = s" by (simp add: kgni_nic_attach_def Let_def)
      with ev show ?thesis by simp
    next
      case True
      have env: "att_env_ok env ae n at s" using pre f n(1) Drv_attach by simp
      from okD[OF kgni_nic_attach_safe[OF a n(2) True n(3)[rule_format, OF True] env]] ex Drv_attach f n(1)
      obtain e where r: "att_result n at s (e, s')" by auto
      show ?thesis
      proof (cases "joined n at (sy_k s) (sy_k s')")
        case j: True
        show ?thesis unfolding ev dom_spec.simps
          using dom_abs_joined[OF a i' j] dom_abs_outside[OF a n(2) True] by blast
      next
        case False
        with r no_empty_used[OF a ne, of at] have "unattached n (sy_k s) (sy_k s')" by (auto simp: att_result_def)
        then have "cdms (sy_k s') = cdms (sy_k s)" by (simp add: unattached_def)
        then have "dom_abs (sy_k s') = dom_abs (sy_k s)" by (intro dom_abs_view[OF t t']) simp
        with ev show ?thesis by simp
      qed
    qed
  next
    case (Drv_close f ae cqs)
    from drv_close_safe[OF inv pre[unfolded Drv_close]] ex Drv_close obtain fl n nic where
      c: "files s f = Some fl" "fl_nic_hndl fl = Some n" "nics (sy_k s) n = Some nic" "closed n nic (sy_k s) (sy_k s')" by auto
    have ev: "drv_event op s = Leave n" using Drv_close c by simp
    have ne': "{} \<notin> ran (dom_abs (sy_k s))" using ne by (simp add: no_empty_def)
    show ?thesis
    proof (cases "nic_cdm_id nic = GNI_CDM_INVALID_ID")
      case True
      with c(4) have "cdms (sy_k s') = cdms (sy_k s)" by (simp add: closed_def)
      then have "dom_abs (sy_k s') = dom_abs (sy_k s)" by (intro dom_abs_view[OF t t']) simp
      with ev leave_outside[OF _ ne', of n] dom_abs_outside[OF a c(3) True] show ?thesis by simp
    next
      case False
      with c(4) obtain d cd k1 where d: "cdms (sy_k s) d = Some cd" "cdm_my_id cd = nic_cdm_id nic" "detached n nic d cd (sy_k s) k1"
        "cdms (sy_k s') = cdms k1" unfolding closed_def if_not_P[OF False] by blast
      show ?thesis unfolding ev dom_spec.simps by (rule dom_abs_detached[OF a t' c(3) d(1,2) False d(3,4) ne'])
    qed
  qed
qed

interpretation doms: refining_machine "drv_pre env" "drv_exec env" "drv_inv env" no_empty "\<lambda>s. dom_abs (sy_k s)" drv_event dom_spec for env
proof
  show "no_empty s'" if "drv_inv env s" "no_empty s" "drv_pre env op s" "drv_exec env op s = Some s'" for s op s'
    using dom_spec_nonempty[OF drv_sim[OF that]] that(2) by (simp add: no_empty_def)
qed (rule drv_sim)

end
