(* ===== verification/Cdm_Props.thy ===== *)
theory Cdm_Props
  imports Cdm_Spec Session_Props Resource_Props
begin

text \<open>
  The properties of the communication domains and of the driver as a whole, with an example in which a process opens the device
  and attaches.
\<close>

section \<open>The driver after it is loaded\<close>

definition drv_start :: "kgni_env \<Rightarrow> u64 \<Rightarrow> mm_state \<Rightarrow> sys" where
  "drv_start env g m = \<lparr>sy_k = \<lparr>kgni_cdm_array = replicate (KGNI_MAX_CDM_NUMBER env) None, kgni_sm_list = [], sm_generation = g,
       sm_work = False, sm_wakeups = [], cdms = Map.empty, nics = Map.empty, chnls = Map.empty, sms = Map.empty\<rparr>,
     sy_dev = rs_dev rs_start, sy_mm = m, sy_flsh = Map.empty, qsce_list = [], files = Map.empty, sy_ext = []\<rparr>"

lemma drv_start_inv:
  assumes "env_ok env" and "KGNI_MAX_CDM_NUMBER env < 2 ^ 32 - 1"
  shows "drv_inv env (drv_start env g m)"
proof -
  have "rs_inv (rs_of (drv_start env g m))"
    using rs_start_inv by (simp add: rs_of_def drv_start_def rs_start_def)
  moreover have "sm_inv env (sy_k (drv_start env g m))"
    by (simp add: sm_inv_def inv_defs drv_start_def)
  moreover have "tab_ok (kgni_cdm_array (sy_k (drv_start env g m))) (cdms (sy_k (drv_start env g m)))"
    by (simp add: tab_ok_def drv_start_def)
  ultimately show ?thesis
    using assms by (simp add: drv_inv_def att_inv_def att_ok_def page_ok_def files_ok_def drv_start_def)
qed

section \<open>An example\<close>

text \<open>One process opens the device and attaches.\<close>

definition ex_ae :: att_env where
  "ex_ae = \<lparr>ae_rsrc = ex_rsrc_env, ae_cur = 2, ae_umap_rw = ex_umap_env, ae_umap_cq = ex_umap_env\<lparr>desc_mem := Some 4\<rparr>,
     rw_page_phys = 0xA000, cq_mask_phys = 0xB000, PAGE_SIZE = 0x1000, KGNI_CQ_INTERRUPT_MASK_SIZE = 0x1000, dev_nic_pe = 5,
     file_mem = Some 30, nic_mem = Some 10, page_mem = Some 40, cdm_mem = Some 100, rsrc_mem = True, pkts_mem = True,
     kgni_subscribe_errors = 0, kgni_kern_ptag_pkey_check = (\<lambda>_ _. GNI_RC_SUCCESS),
     kgni_mm_init = (\<lambda>nic. (0, nic\<lparr>nic_mm := Some 2\<rparr>)), kgni_mm_fini = (\<lambda>n (nic, m). (nic\<lparr>nic_mm := None\<rparr>, m)),
     kgni_chnl_create = (\<lambda>n i mx. Inr (20, \<lparr>chnl_nic_hndl = n, datagram_cnt_kern = None, max_tx_pkts = mx\<rparr>)),
     kgni_fma_init = 0, kgni_dla_init = GNI_RC_SUCCESS, gni_subscribe_errors = GNI_RC_SUCCESS,
     KGNI_ERROR_FROM_GNI_RETURN_CODE = (\<lambda>_. - EINVAL), GNI_RETURN_CODE_OF_ERROR = (\<lambda>_. GNI_RC_ERROR_RESOURCE)\<rparr>"

definition ex_at :: gni_nic_setattr_args where
  "ex_at = \<lparr>sa_ptag = 4, sa_cookie = 0x00070001, sa_rank = 6, sa_modes = 0\<rparr>"

definition ex_opened :: sys where
  "ex_opened = snd (kgni_open ex_ae (drv_start ex_env 1 ex_mm))"

lemma ex_opened_reachable: "reachable (drv_pre ex_env) (drv_exec ex_env) (drv_start ex_env 1 ex_mm) ex_opened"
proof (rule reachable.step[OF reachable.start, where op = "Drv_open ex_ae"])
  show "drv_pre ex_env (Drv_open ex_ae) (drv_start ex_env 1 ex_mm)" by (simp add: drv_start_def)
qed (simp add: ex_opened_def)

lemma ex_max: "KGNI_MAX_CDM_NUMBER ex_env < 2 ^ 32 - 1" by (simp add: ex_env_def)


lemma ex_opened_sel:
  "nics (sy_k ex_opened) = [10 \<mapsto> (new_nic 5)\<lparr>nic_cdm_type := GNI_CDM_TYPE_USER\<rparr>]" "cdms (sy_k ex_opened) = Map.empty"
  "kgni_cdm_array (sy_k ex_opened) = [None, None]" "chnls (sy_k ex_opened) = Map.empty"
  "files ex_opened = [30 \<mapsto> \<lparr>fl_nic_hndl = Some 10, fl_app_cleanup = False\<rparr>]" "umap_descs (sy_mm ex_opened) = Map.empty"
  "own x (sy_mm ex_opened) = {}"
  by (simp_all add: ex_opened_def drv_start_def kgni_open_def kgni_nic_create_def ex_ae_def upd_nic_def ex_env_def ex_mm_def own_def numeral_2_eq_2)

lemma ex_setup_ok: "att_env_ok ex_env ex_ae 10 ex_at ex_opened"
  unfolding att_env_ok_def setup_env_ok_def mm_env_ok_def map_env_ok_def chnl_env_ok_def rsrc_env_ok_def desc_fresh_def ex_opened_sel
  by (auto simp: ex_ae_def ex_rsrc_env_def ex_umap_env_def tab_room_def ex_opened_sel)







text \<open>
  C18. A detach frees the domain exactly with its last NIC: it returns success and keeps the invariant; afterwards the NIC is not
  attached, its channel is destroyed and none of its sessions is left, while the sessions of the other NICs stay; the domain is
  gone from memory if and only if no other NIC was attached to it.
\<close>

theorem detach_frees_last:
  assumes inv: "att_inv env s" and nic: "nics (sy_k s) n = Some nic" "nic_cdm_id nic \<noteq> GNI_CDM_INVALID_ID"
  shows "\<exists>s' d c. kgni_nic_detach env n s = Some (0, s') \<and> att_inv env s' \<and> cdms (sy_k s) d = Some c \<and> cdm_my_id c = nic_cdm_id nic \<and>
    (\<exists>nic'. nics (sy_k s') n = Some nic' \<and> nic_cdm_id nic' = GNI_CDM_INVALID_ID \<and> nic_sm_chnl_hndl nic' = None) \<and>
    (\<forall>ch. nic_sm_chnl_hndl nic = Some ch \<longrightarrow> chnls (sy_k s') ch = None) \<and>
    (\<forall>a. sms (sy_k s') a = (if \<exists>m. sms (sy_k s) a = Some m \<and> sm_nic_hndl m = n then None else sms (sy_k s) a)) \<and>
    (cdms (sy_k s') d = None \<longleftrightarrow> (\<forall>e \<in> set (cdm_nic_hndls c). e = None \<or> e = Some n))"
proof -
  from kgni_nic_detach_safe[OF assms] obtain s' d c where d: "kgni_nic_detach env n s = Some (0, s')" "att_inv env s'"
    "cdms (sy_k s) d = Some c" "cdm_my_id c = nic_cdm_id nic" "detached n nic d c (sy_k s) (sy_k s')" by blast
  let ?i = "unat (nic_my_id nic)"
  let ?hs = "(cdm_nic_hndls c)[?i := None]"
  note at = att_invD(3)[OF inv]
  obtain d' c' where "cdms (sy_k s) d' = Some c'" "cdm_my_id c' = nic_cdm_id nic" "?i < length (cdm_nic_hndls c')" "cdm_nic_hndls c' ! ?i = Some n"
    using att_okD(2)[OF at nic] by blast
  with my_id_inj[OF att_invD(2)[OF inv] d(3)] d(3,4) have i: "?i < length (cdm_nic_hndls c)" "cdm_nic_hndls c ! ?i = Some n" by auto
  have only: "j = ?i" if "j < length (cdm_nic_hndls c)" "cdm_nic_hndls c ! j = Some n" for j
    using att_okD(1)[OF at d(3) that] nic(1) by auto
  have eq: "(\<forall>e \<in> set ?hs. e = None) \<longleftrightarrow> (\<forall>e \<in> set (cdm_nic_hndls c). e = None \<or> e = Some n)"
    unfolding all_set_conv_all_nth length_list_update
  proof (intro iffI allI impI)
    fix j assume "\<forall>j < length (cdm_nic_hndls c). ?hs ! j = None" "j < length (cdm_nic_hndls c)"
    then show "cdm_nic_hndls c ! j = None \<or> cdm_nic_hndls c ! j = Some n" using i(2) by (cases "j = ?i") auto
  next
    fix j assume h: "\<forall>j < length (cdm_nic_hndls c). cdm_nic_hndls c ! j = None \<or> cdm_nic_hndls c ! j = Some n" "j < length (cdm_nic_hndls c)"
    show "?hs ! j = None"
    proof (cases "j = ?i")
      case True
      with i(1) show ?thesis by simp
    next
      case False
      with h only have "cdm_nic_hndls c ! j = None" by blast
      with False show ?thesis by simp
    qed
  qed
  have gone: "cdms (sy_k s') d = None \<longleftrightarrow> (\<forall>e \<in> set ?hs. e = None)"
  proof (cases "\<forall>e \<in> set ?hs. e = None")
    case True
    then have "(map_option cdm_view \<circ> cdms (sy_k s')) d = None" using d(5) unfolding detached_def Let_def by simp
    with True show ?thesis by simp
  next
    case False
    then have "(map_option cdm_view \<circ> cdms (sy_k s')) d \<noteq> None" using d(5) unfolding detached_def Let_def if_not_P[OF False] by simp
    with False show ?thesis by auto
  qed
  have sm: "\<forall>a. sms (sy_k s') a = (if \<exists>m. sms (sy_k s) a = Some m \<and> sm_nic_hndl m = n then None else sms (sy_k s) a)"
    using d(5) unfolding detached_def no_more_def by simp
  have "\<exists>nic'. nics (sy_k s') n = Some nic' \<and> nic_cdm_id nic' = GNI_CDM_INVALID_ID \<and> nic_sm_chnl_hndl nic' = None"
    "\<forall>ch. nic_sm_chnl_hndl nic = Some ch \<longrightarrow> chnls (sy_k s') ch = None"
    using d(5) unfolding detached_def by auto
  with d(1-4) gone[unfolded eq] sm show ?thesis
    by - (rule exI[of _ s'], rule exI[of _ d], rule exI[of _ c], intro conjI, assumption+)
qed

definition ex_attached :: sys where
  "ex_attached = snd (the (kgni_nic_attach ex_env ex_ae (\<lambda>k. k) (\<lambda>k. k) 10 ex_at ex_opened))"

lemma ex_attach: "map_option fst (kgni_nic_attach ex_env ex_ae (\<lambda>k. k) (\<lambda>k. k) 10 ex_at ex_opened) = Some 0"
  by code_simp

lemma ex_attached_exec: "drv_exec ex_env (Drv_attach 30 ex_ae ex_at) ex_opened = Some ex_attached"
  using ex_attach by (auto simp: ex_opened_sel ex_attached_def)

lemma ex_attached_reachable: "reachable (drv_pre ex_env) (drv_exec ex_env) (drv_start ex_env 1 ex_mm) ex_attached"
  by (rule reachable.step[OF ex_opened_reachable _ ex_attached_exec]) (simp add: ex_opened_sel ex_setup_ok)

lemma ex_attached_inv: "drv_inv ex_env ex_attached"
  by (rule drv.reachable_inv[OF drv_start_inv[OF ex_env_ok ex_max] ex_attached_reachable])

lemma ex_attached_nic: "map_option nic_cdm_id (nics (sy_k ex_attached) 10) = Some 0" "map_option nic_sm_chnl_hndl (nics (sy_k ex_attached) 10) = Some (Some 20)"
  by code_simp+

theorem detach_frees_last_witness:
  "\<exists>s'. kgni_nic_detach ex_env 10 ex_attached = Some (0, s') \<and> chnls (sy_k s') 20 = None"
proof -
  from ex_attached_nic obtain nic where nic: "nics (sy_k ex_attached) 10 = Some nic" "nic_cdm_id nic \<noteq> GNI_CDM_INVALID_ID" "nic_sm_chnl_hndl nic = Some 20"
    by auto
  have "att_inv ex_env ex_attached" using ex_attached_inv by (simp add: drv_inv_def)
  from detach_frees_last[OF this nic(1,2)] nic(3) show ?thesis by blast
qed



section \<open>Where the domains go wrong\<close>

text \<open>A domain whose key is in the table already.\<close>

lemma create_loop_dup:
  assumes "cdms k a = Some new"
    and "\<forall>j \<in> set is. j < length (kgni_cdm_array k) \<and> (\<forall>d. kgni_cdm_array k ! j = Some d \<longrightarrow> cdms k d \<noteq> None)" and "distinct is"
    and "\<exists>j \<in> set is. \<exists>d c. kgni_cdm_array k ! j = Some d \<and> d \<noteq> a \<and> cdms k d = Some c \<and> cdm_match p ck i c"
  shows "\<exists>k'. create_loop a p ck i is k = Some (GNI_RC_INVALID_STATE, k') \<and> cdms k' a \<noteq> None"
  using assms
proof (induction "is" arbitrary: k new)
  case (Cons j js)
  show ?case
  proof (cases "kgni_cdm_array k ! j")
    case None
    let ?k = "upd_cdm a (\<lambda>c. c\<lparr>cdm_my_id := of_nat j\<rparr>) (k\<lparr>kgni_cdm_array := (kgni_cdm_array k)[j := Some a]\<rparr>)"
    have other: "\<exists>l \<in> set js. \<exists>d c. kgni_cdm_array k ! l = Some d \<and> d \<noteq> a \<and> cdms k d = Some c \<and> cdm_match p ck i c"
      using Cons.prems(4) None by auto
    show ?thesis
    proof (cases "cdm_my_id new = GNI_CDM_INVALID_ID")
      case False
      with Cons.IH[OF Cons.prems(1) _ _ other] Cons.prems None show ?thesis by simp
    next
      case True
      have k: "cdms ?k = (cdms k)(a \<mapsto> new\<lparr>cdm_my_id := of_nat j\<rparr>)" "kgni_cdm_array ?k = (kgni_cdm_array k)[j := Some a]"
        using Cons.prems(1) by (simp_all add: upd_cdm_def)
      have "\<exists>k'. create_loop a p ck i js ?k = Some (GNI_RC_INVALID_STATE, k') \<and> cdms k' a \<noteq> None"
      proof (rule Cons.IH)
        show "cdms ?k a = Some (new\<lparr>cdm_my_id := of_nat j\<rparr>)" using k by simp
        show "\<forall>l \<in> set js. l < length (kgni_cdm_array ?k) \<and> (\<forall>d. kgni_cdm_array ?k ! l = Some d \<longrightarrow> cdms ?k d \<noteq> None)"
          using Cons.prems(2,3) k by (auto simp: nth_list_update)
        show "\<exists>l \<in> set js. \<exists>d c. kgni_cdm_array ?k ! l = Some d \<and> d \<noteq> a \<and> cdms ?k d = Some c \<and> cdm_match p ck i c"
        proof -
          from other obtain l d c where l: "l \<in> set js" "kgni_cdm_array k ! l = Some d" "d \<noteq> a" "cdms k d = Some c" "cdm_match p ck i c" by blast
          moreover have "l \<noteq> j" using l(1) Cons.prems(3) by auto
          ultimately show ?thesis using k by (intro bexI[of _ l] exI[of _ d] exI[of _ c]) auto
        qed
      qed (use Cons.prems(3) in simp)
      with Cons.prems None True show ?thesis by simp
    qed
  next
    case (Some d)
    with Cons.prems(2) obtain c where c: "cdms k d = Some c" by auto
    show ?thesis
    proof (cases "cdm_match p ck i c")
      case True
      with Some c Cons.prems show ?thesis by simp
    next
      case False
      have "\<exists>l \<in> set js. \<exists>d c. kgni_cdm_array k ! l = Some d \<and> d \<noteq> a \<and> cdms k d = Some c \<and> cdm_match p ck i c"
        using Cons.prems(4) Some c False by auto
      with Cons.IH[OF Cons.prems(1)] Cons.prems Some c False show ?thesis by simp
    qed
  qed
qed simp

text \<open>
  C35. Creating a domain whose key is in the table already fails with \<open>GNI_RC_INVALID_STATE\<close>, but its error path tests for another
  code: the new domain is neither freed nor taken from the table, and its handle is stored for the caller.
\<close>

theorem create_duplicate_kept:
  assumes t: "tab_ok (kgni_cdm_array k) (cdms k)" and len: "length (kgni_cdm_array k) = KGNI_MAX_CDM_NUMBER env"
    and a: "cdms k a = None" and d: "cdm_abs k (p, ck, i) = Some d"
  shows "\<exists>k'. gni_cdm_create env (Some a) i p ck modes True k = Some (GNI_RC_INVALID_STATE, Some a, k') \<and> cdms k' a \<noteq> None"
proof -
  let ?k = "k\<lparr>cdms := (cdms k)(a \<mapsto> new_cdm i p ck modes)\<rparr>"
  from d cdm_abs_iff[OF t] obtain c where c: "cdms k d = Some c" "cdm_match p ck i c" by blast
  with a have da: "d \<noteq> a" by auto
  have "\<exists>k'. create_loop a p ck i [0..<KGNI_MAX_CDM_NUMBER env] ?k = Some (GNI_RC_INVALID_STATE, k') \<and> cdms k' a \<noteq> None"
  proof (rule create_loop_dup)
    show "\<exists>j \<in> set [0..<KGNI_MAX_CDM_NUMBER env]. \<exists>d c. kgni_cdm_array ?k ! j = Some d \<and> d \<noteq> a \<and> cdms ?k d = Some c \<and> cdm_match p ck i c"
      using tab_okD(4,5)[OF t c(1)] c da len by (intro bexI[of _ "unat (cdm_my_id c)"] exI[of _ d] exI[of _ c]) auto
    show "\<forall>j \<in> set [0..<KGNI_MAX_CDM_NUMBER env]. j < length (kgni_cdm_array ?k) \<and> (\<forall>d. kgni_cdm_array ?k ! j = Some d \<longrightarrow> cdms ?k d \<noteq> None)"
      using tab_okD(1)[OF t] len by fastforce
  qed simp_all
  then show ?thesis by (auto simp: gni_cdm_create_def)
qed

theorem create_duplicate_kept_witness:
  "\<exists>k'. gni_cdm_create ex_env (Some 101) 6 4 0x00070001 0 True (sy_k ex_attached) = Some (GNI_RC_INVALID_STATE, Some 101, k') \<and> cdms k' 101 \<noteq> None"
proof (rule create_duplicate_kept)
  have i: "att_inv ex_env ex_attached" using ex_attached_inv by (simp add: drv_inv_def)
  show "tab_ok (kgni_cdm_array (sy_k ex_attached)) (cdms (sy_k ex_attached))" by (rule att_invD(2)[OF i])
  show "length (kgni_cdm_array (sy_k ex_attached)) = KGNI_MAX_CDM_NUMBER ex_env" by (rule att_invD(7)[OF i])
  have "map_option (\<lambda>_. ()) (cdms (sy_k ex_attached) 101) = None" by code_simp
  then show "cdms (sy_k ex_attached) 101 = None" by simp
  show "cdm_abs (sy_k ex_attached) (4, 0x00070001, 6) = Some 100" by code_simp
qed






text \<open>
  C17. The objects of the driver are well typed in every state that it reaches: the table of domains has its fixed size, an entry
  that is not empty is the handle of a live domain with the type tag of domains, with the index of the entry as its id and
  with the fixed number of NIC entries; an entry of a domain is the handle of a live NIC that has the id of the domain and the
  index of the entry, and a NIC with the id of a domain is in the entry of that domain; and a device file has a live user NIC.
\<close>

theorem driver_well_typed:
  assumes "env_ok env" and "KGNI_MAX_CDM_NUMBER env < 2 ^ 32 - 1"
    and "reachable (drv_pre env) (drv_exec env) (drv_start env g m) s"
  shows "length (kgni_cdm_array (sy_k s)) = KGNI_MAX_CDM_NUMBER env \<and>
    (\<forall>i < KGNI_MAX_CDM_NUMBER env. \<forall>d. kgni_cdm_array (sy_k s) ! i = Some d \<longrightarrow>
       (\<exists>c. cdms (sy_k s) d = Some c \<and> cdm_type_id c = GNI_TYPE_CDM_HANDLE \<and> unat (cdm_my_id c) = i \<and>
          length (cdm_nic_hndls c) = GNI_MAX_NICS_ATTACHED \<and>
          (\<forall>j < GNI_MAX_NICS_ATTACHED. \<forall>n. cdm_nic_hndls c ! j = Some n \<longrightarrow>
             (\<exists>nic. nics (sy_k s) n = Some nic \<and> nic_cdm_id nic = cdm_my_id c \<and> unat (nic_my_id nic) = j)))) \<and>
    (\<forall>n nic. nics (sy_k s) n = Some nic \<longrightarrow> nic_cdm_id nic \<noteq> GNI_CDM_INVALID_ID \<longrightarrow>
       (\<exists>d c. kgni_cdm_array (sy_k s) ! unat (nic_cdm_id nic) = Some d \<and> cdms (sy_k s) d = Some c \<and>
          cdm_nic_hndls c ! unat (nic_my_id nic) = Some n)) \<and>
    (\<forall>f fl. files s f = Some fl \<longrightarrow> (\<exists>n nic. fl_nic_hndl fl = Some n \<and> nics (sy_k s) n = Some nic \<and>
       nic_cdm_type nic = GNI_CDM_TYPE_USER))"
proof -
  have inv: "drv_inv env s" by (rule drv.reachable_inv[OF drv_start_inv[OF assms(1,2)] assms(3)])
  then have a: "att_inv env s" and f: "files_ok s" by (simp_all add: drv_inv_def)
  have len: "length (kgni_cdm_array (sy_k s)) = KGNI_MAX_CDM_NUMBER env" by (rule att_invD(7)[OF a])
  note tab = att_invD(2)[OF a, unfolded tab_ok_def len]
  note att = att_invD(3)[OF a, unfolded att_ok_def]
  have dom: "\<exists>c. cdms (sy_k s) d = Some c \<and> cdm_type_id c = GNI_TYPE_CDM_HANDLE \<and> unat (cdm_my_id c) = i \<and>
      length (cdm_nic_hndls c) = GNI_MAX_NICS_ATTACHED \<and>
      (\<forall>j < GNI_MAX_NICS_ATTACHED. \<forall>n. cdm_nic_hndls c ! j = Some n \<longrightarrow>
         (\<exists>nic. nics (sy_k s) n = Some nic \<and> nic_cdm_id nic = cdm_my_id c \<and> unat (nic_my_id nic) = j))"
    if "i < KGNI_MAX_CDM_NUMBER env" "kgni_cdm_array (sy_k s) ! i = Some d" for i d
  proof -
    from conjunct1[OF tab] that obtain c where c: "cdms (sy_k s) d = Some c" "unat (cdm_my_id c) = i" by blast
    moreover have "cdm_type_id c = GNI_TYPE_CDM_HANDLE" "length (cdm_nic_hndls c) = GNI_MAX_NICS_ATTACHED"
      using conjunct1[OF conjunct2[OF tab]] c(1) by blast+
    ultimately show ?thesis using conjunct1[OF att] by simp
  qed
  have nicd: "\<exists>d c. kgni_cdm_array (sy_k s) ! unat (nic_cdm_id nic) = Some d \<and> cdms (sy_k s) d = Some c \<and>
      cdm_nic_hndls c ! unat (nic_my_id nic) = Some n"
    if "nics (sy_k s) n = Some nic" "nic_cdm_id nic \<noteq> GNI_CDM_INVALID_ID" for n nic
  proof -
    from conjunct1[OF conjunct2[OF att]] that obtain d c where c: "cdms (sy_k s) d = Some c" "cdm_my_id c = nic_cdm_id nic"
      "cdm_nic_hndls c ! unat (nic_my_id nic) = Some n" by blast
    moreover have "kgni_cdm_array (sy_k s) ! unat (cdm_my_id c) = Some d" using conjunct1[OF conjunct2[OF tab]] c(1) by blast
    ultimately show ?thesis by auto
  qed
  have "\<exists>n nic. fl_nic_hndl fl = Some n \<and> nics (sy_k s) n = Some nic \<and> nic_cdm_type nic = GNI_CDM_TYPE_USER"
    if "files s x = Some fl" for x fl
    using files_okE[OF f that] by blast
  with len dom nicd show ?thesis by blast
qed

theorem driver_well_typed_witness:
  "\<exists>c nic. cdms (sy_k ex_attached) 100 = Some c \<and> cdm_type_id c = GNI_TYPE_CDM_HANDLE \<and> length (cdm_nic_hndls c) = GNI_MAX_NICS_ATTACHED \<and>
     nics (sy_k ex_attached) 10 = Some nic \<and> nic_cdm_id nic = cdm_my_id c"
proof -
  have d: "kgni_cdm_array (sy_k ex_attached) ! 0 = Some 100"
    "(case cdms (sy_k ex_attached) 100 of None \<Rightarrow> False | Some c \<Rightarrow> cdm_nic_hndls c ! 0 = Some 10)"
    by code_simp+
  have k: "0 < KGNI_MAX_CDM_NUMBER ex_env" "0 < GNI_MAX_NICS_ATTACHED" by code_simp+
  from driver_well_typed[OF ex_env_ok ex_max ex_attached_reachable] k d(1) obtain c where
    c: "cdms (sy_k ex_attached) 100 = Some c" "cdm_type_id c = GNI_TYPE_CDM_HANDLE" "length (cdm_nic_hndls c) = GNI_MAX_NICS_ATTACHED"
      "\<And>j n. j < GNI_MAX_NICS_ATTACHED \<Longrightarrow> cdm_nic_hndls c ! j = Some n \<Longrightarrow>
         \<exists>nic. nics (sy_k ex_attached) n = Some nic \<and> nic_cdm_id nic = cdm_my_id c \<and> unat (nic_my_id nic) = j" by metis
  with d(2) k(2) show ?thesis by fastforce
qed

end
