(* ===== verification/Memseg.thy ===== *)
theory Memseg
  imports Machine
begin

text \<open>
  The list of memory segments of \<open>xmem_list.h\<close>, which both sides of the forwarding layer use to translate between addresses and
  segment ids: a linked list on the heap with a head and a tail pointer. The heap is explicit; an access to a freed element,
  to NULL, or a chain without end gives no result. The operations are proved to be those of a queue.
\<close>

section \<open>The list and its operations\<close>

text \<open>\<open>NOT_FOUND\<close> is the value -1 that the searches return.\<close>

record xpmem_seg =
  xs_segid :: u64
  xs_address :: u64
  xs_length :: u64
  xs_next :: "addr option"

record memseg_list =
  ml_head :: "addr option"
  ml_tail :: "addr option"

record seg_heap =
  segs :: "addr \<rightharpoonup> xpmem_seg"
  lists :: "addr \<rightharpoonup> memseg_list"

definition NOT_FOUND :: u64 where
  "NOT_FOUND = - 1"

text \<open>\<open>list_new\<close> with what \<open>malloc\<close> returns; a failure is reported, and then the NULL pointer is written through.\<close>

definition list_new :: "addr option \<Rightarrow> seg_heap \<Rightarrow> (addr \<times> seg_heap) run" where
  "list_new mem s = do {
     p \<leftarrow> mem;
     Some (p, s\<lparr>lists := (lists s)(p \<mapsto> \<lparr>ml_head = None, ml_tail = None\<rparr>)\<rparr>)
   }"

definition list_add_element :: "addr option \<Rightarrow> addr option \<Rightarrow> u64 \<Rightarrow> u64 \<Rightarrow> u64 \<Rightarrow> seg_heap \<Rightarrow> (addr option \<times> seg_heap) run" where
  "list_add_element mem l segid ad len s =
     (case mem of
        None \<Rightarrow> Some (l, s)
      | Some p \<Rightarrow>
          (let s1 = s\<lparr>segs := (segs s)(p \<mapsto> \<lparr>xs_segid = segid, xs_address = ad, xs_length = len, xs_next = None\<rparr>)\<rparr>;
               freed = s1\<lparr>segs := (segs s1)(p := None)\<rparr>
           in (case l of
                 None \<Rightarrow> Some (None, freed)
               | Some q \<Rightarrow> do {
                   m \<leftarrow> lists s1 q;
                   (case (ml_head m, ml_tail m) of
                      (None, None) \<Rightarrow> Some (l, s1\<lparr>lists := (lists s1)(q \<mapsto> m\<lparr>ml_head := Some p, ml_tail := Some p\<rparr>)\<rparr>)
                    | (Some _, Some t) \<Rightarrow> do {
                        e \<leftarrow> segs s1 t;
                        Some (l, s1\<lparr>segs := (segs s1)(t \<mapsto> e\<lparr>xs_next := Some p\<rparr>),
                                     lists := (lists s1)(q \<mapsto> m\<lparr>ml_tail := Some p\<rparr>)\<rparr>)
                      }
                    | _ \<Rightarrow> Some (None, freed))
                 })))"

definition list_remove_element :: "addr option \<Rightarrow> seg_heap \<Rightarrow> (addr option \<times> seg_heap) run" where
  "list_remove_element l s =
     (case l of
        None \<Rightarrow> Some (l, s)
      | Some q \<Rightarrow> do {
          m \<leftarrow> lists s q;
          (case (ml_head m, ml_tail m) of
             (Some h, Some _) \<Rightarrow> do {
               e \<leftarrow> segs s h;
               let m' = m\<lparr>ml_head := xs_next e\<rparr>;
               let m'' = (if xs_next e = None then m'\<lparr>ml_tail := None\<rparr> else m');
               Some (l, s\<lparr>segs := (segs s)(h := None), lists := (lists s)(q \<mapsto> m'')\<rparr>)
             }
           | _ \<Rightarrow> Some (l, s))
        })"

partial_function (option) list_free :: "addr \<Rightarrow> seg_heap \<Rightarrow> (addr \<times> seg_heap) option" where
  [code]: "list_free q s =
     Option.bind (lists s q) (\<lambda>m.
       if ml_head m = None then Some (q, s)
       else Option.bind (list_remove_element (Some q) s) (\<lambda>(_, s). list_free q s))"

definition seg_hit :: "u64 \<Rightarrow> xpmem_seg \<Rightarrow> bool" where
  "seg_hit ad e \<longleftrightarrow> xs_address e = ad \<or> xs_address e < ad \<and> ad < xs_address e + xs_length e"

partial_function (option) segid_loop :: "u64 \<Rightarrow> addr option \<Rightarrow> seg_heap \<Rightarrow> u64 option" where
  [code]: "segid_loop ad p s =
     (case p of
        None \<Rightarrow> Some NOT_FOUND
      | Some a \<Rightarrow> Option.bind (segs s a) (\<lambda>e. if seg_hit ad e then Some (xs_segid e) else segid_loop ad (xs_next e) s))"

partial_function (option) vaddr_loop :: "u64 \<Rightarrow> addr option \<Rightarrow> seg_heap \<Rightarrow> u64 option" where
  [code]: "vaddr_loop segid p s =
     (case p of
        None \<Rightarrow> Some NOT_FOUND
      | Some a \<Rightarrow> Option.bind (segs s a) (\<lambda>e. if xs_segid e = segid then Some (xs_address e) else vaddr_loop segid (xs_next e) s))"

text \<open>Without a list the searches end without a return value: no result of theirs is defined.\<close>

definition list_find_segid_by_vaddr :: "addr option \<Rightarrow> u64 \<Rightarrow> seg_heap \<Rightarrow> u64 run" where
  "list_find_segid_by_vaddr l ad s = do { q \<leftarrow> l; m \<leftarrow> lists s q; segid_loop ad (ml_head m) s }"

definition list_find_vaddr_by_segid :: "addr option \<Rightarrow> u64 \<Rightarrow> seg_heap \<Rightarrow> u64 run" where
  "list_find_vaddr_by_segid l segid s = do { q \<leftarrow> l; m \<leftarrow> lists s q; vaddr_loop segid (ml_head m) s }"

section \<open>The list as a sequence\<close>

type_synonym seg = "u64 \<times> u64 \<times> u64"

definition seg_val :: "xpmem_seg \<Rightarrow> seg" where
  "seg_val e = (xs_segid e, xs_address e, xs_length e)"

text \<open>\<open>chain h p as xs\<close>: from \<open>p\<close> the elements at \<open>as\<close> follow each other up to the NULL pointer and hold \<open>xs\<close>.\<close>

fun chain :: "(addr \<rightharpoonup> xpmem_seg) \<Rightarrow> addr option \<Rightarrow> addr list \<Rightarrow> seg list \<Rightarrow> bool" where
  "chain h p [] xs \<longleftrightarrow> p = None \<and> xs = []"
| "chain h p (a # as) xs \<longleftrightarrow> p = Some a \<and> (\<exists>e ys. h a = Some e \<and> xs = seg_val e # ys \<and> chain h (xs_next e) as ys)"

definition list_rep :: "addr \<Rightarrow> seg_heap \<Rightarrow> addr list \<Rightarrow> seg list \<Rightarrow> bool" where
  "list_rep q s as xs \<longleftrightarrow> distinct as \<and>
     (\<exists>m. lists s q = Some m \<and> chain (segs s) (ml_head m) as xs \<and> ml_tail m = (if as = [] then None else Some (last as)))"

lemma chain_frame: "a \<notin> set as \<Longrightarrow> chain (h(a := v)) p as xs \<longleftrightarrow> chain h p as xs"
  by (induction as arbitrary: p xs) auto

lemma chain_live: "chain h p as xs \<Longrightarrow> a \<in> set as \<Longrightarrow> h a \<noteq> None"
  by (induction as arbitrary: p xs) auto

lemma chain_unique: "chain h p as xs \<Longrightarrow> chain h p as' xs' \<Longrightarrow> as = as' \<and> xs = xs'"
proof (induction as arbitrary: p xs as' xs')
  case Nil
  then show ?case by (cases as') auto
next
  case (Cons a as)
  then show ?case by (cases as') fastforce+
qed

lemma list_rep_unique: "list_rep q s as xs \<Longrightarrow> list_rep q s as' xs' \<Longrightarrow> as = as' \<and> xs = xs'"
  unfolding list_rep_def using chain_unique by fastforce

lemma chain_snoc:
  assumes "chain h p as xs" and "as \<noteq> []" and "distinct as" and "n \<notin> set as" and "h (last as) = Some e"
    and "xs_next f = None"
  shows "chain (h(n \<mapsto> f, last as \<mapsto> e\<lparr>xs_next := Some n\<rparr>)) p (as @ [n]) (xs @ [seg_val f])"
  using assms
proof (induction as arbitrary: p xs)
  case (Cons a as)
  show ?case
  proof (cases "as = []")
    case True
    with Cons.prems show ?thesis by (auto simp: seg_val_def)
  next
    case False
    from Cons.prems(1) obtain e' ys where e': "p = Some a" "h a = Some e'" "xs = seg_val e' # ys" "chain h (xs_next e') as ys" by auto
    have c: "distinct as" "n \<notin> set as" "h (last as) = Some e" using Cons.prems(3-5) False by auto
    note Cons.IH[OF e'(4) False c Cons.prems(6)]
    moreover have "a \<noteq> last as" "a \<noteq> n" using Cons.prems(3,4) False by auto
    ultimately show ?thesis using e' False by auto
  qed
qed simp

section \<open>The operations on sequences\<close>

lemma list_new_rep: "list_rep q (snd (the (list_new (Some q) s))) [] []"
  by (simp add: list_new_def list_rep_def)

lemma list_add_rep:
  assumes "list_rep q s as xs" and "p \<notin> set as"
  shows "\<exists>s'. list_add_element (Some p) (Some q) segid ad len s = Some (Some q, s') \<and>
    list_rep q s' (as @ [p]) (xs @ [(segid, ad, len)])"
proof -
  let ?f = "\<lparr>xs_segid = segid, xs_address = ad, xs_length = len, xs_next = None\<rparr>"
  from assms(1) obtain m where m: "lists s q = Some m" "chain (segs s) (ml_head m) as xs" "distinct as"
    "ml_tail m = (if as = [] then None else Some (last as))" by (auto simp: list_rep_def)
  show ?thesis
  proof (cases "as = []")
    case True
    with m have "ml_head m = None" "ml_tail m = None" "xs = []" by auto
    with True m(1) show ?thesis by (simp add: list_add_element_def Let_def list_rep_def seg_val_def)
  next
    case False
    then obtain a as' where as: "as = a # as'" by (cases as) auto
    with m(2) have h: "ml_head m = Some a" by simp
    have l: "last as \<in> set as" using False by simp
    with chain_live[OF m(2)] obtain e where e: "segs s (last as) = Some e" by blast
    have lp: "last as \<noteq> p" using l assms(2) by blast
    have "chain ((segs s)(p \<mapsto> ?f, last as \<mapsto> e\<lparr>xs_next := Some p\<rparr>)) (ml_head m) (as @ [p]) (xs @ [seg_val ?f])"
      by (rule chain_snoc[OF m(2) False m(3) assms(2) e]) simp
    with False m h e lp assms(2) show ?thesis
      by (auto simp: list_add_element_def Let_def list_rep_def seg_val_def)
  qed
qed

lemma list_remove_rep:
  assumes "list_rep q s as xs"
  shows "\<exists>s'. list_remove_element (Some q) s = Some (Some q, s') \<and> list_rep q s' (tl as) (tl xs)"
proof -
  from assms obtain m where m: "lists s q = Some m" "chain (segs s) (ml_head m) as xs" "distinct as"
    "ml_tail m = (if as = [] then None else Some (last as))" by (auto simp: list_rep_def)
  show ?thesis
  proof (cases as)
    case Nil
    with m show ?thesis by (auto simp: list_remove_element_def list_rep_def)
  next
    case (Cons a as')
    with m(2) obtain e ys where e: "ml_head m = Some a" "segs s a = Some e" "xs = seg_val e # ys" "chain (segs s) (xs_next e) as' ys" by auto
    have "chain ((segs s)(a := None)) (xs_next e) as' ys" using e(4) m(3) Cons by (simp add: chain_frame)
    moreover have "xs_next e = None \<longleftrightarrow> as' = []" using e(4) by (cases as') auto
    ultimately show ?thesis using m Cons e by (auto simp: list_remove_element_def list_rep_def)
  qed
qed

lemma list_free_rep:
  assumes "list_rep q s as xs"
  shows "\<exists>s'. list_free q s = Some (q, s') \<and> list_rep q s' [] []"
  using assms
proof (induction as arbitrary: s xs)
  case Nil
  then show ?case by (subst list_free.simps) (auto simp: list_rep_def)
next
  case (Cons a as)
  from list_remove_rep[OF Cons.prems] obtain s' where s': "list_remove_element (Some q) s = Some (Some q, s')" "list_rep q s' as (tl xs)" by auto
  from Cons.prems obtain m where "lists s q = Some m" "ml_head m = Some a" by (auto simp: list_rep_def)
  with Cons.IH[OF s'(2)] s'(1) show ?case by (subst list_free.simps) auto
qed

section \<open>The searches\<close>

definition hit :: "u64 \<Rightarrow> seg \<Rightarrow> bool" where
  "hit ad = (\<lambda>(_, a, n). a = ad \<or> a < ad \<and> ad < a + n)"

definition segid_at :: "u64 \<Rightarrow> seg list \<Rightarrow> u64" where
  "segid_at ad xs = (case find (hit ad) xs of None \<Rightarrow> NOT_FOUND | Some (i, _, _) \<Rightarrow> i)"

definition vaddr_of :: "u64 \<Rightarrow> seg list \<Rightarrow> u64" where
  "vaddr_of i xs = (case find (\<lambda>(j, _, _). j = i) xs of None \<Rightarrow> NOT_FOUND | Some (_, a, _) \<Rightarrow> a)"

lemma segid_loop_chain: "chain (segs s) p as xs \<Longrightarrow> segid_loop ad p s = Some (segid_at ad xs)"
proof (induction as arbitrary: p xs)
  case Nil
  then show ?case by (subst segid_loop.simps) (simp add: segid_at_def)
next
  case (Cons a as)
  then show ?case by (subst segid_loop.simps) (auto simp: segid_at_def hit_def seg_hit_def seg_val_def)
qed

lemma vaddr_loop_chain: "chain (segs s) p as xs \<Longrightarrow> vaddr_loop i p s = Some (vaddr_of i xs)"
proof (induction as arbitrary: p xs)
  case Nil
  then show ?case by (subst vaddr_loop.simps) (simp add: vaddr_of_def)
next
  case (Cons a as)
  then show ?case by (subst vaddr_loop.simps) (auto simp: vaddr_of_def seg_val_def)
qed

lemma find_rep:
  assumes "list_rep q s as xs"
  shows "list_find_segid_by_vaddr (Some q) ad s = Some (segid_at ad xs)" "list_find_vaddr_by_segid (Some q) i s = Some (vaddr_of i xs)"
  using assms by (auto simp: list_rep_def list_find_segid_by_vaddr_def list_find_vaddr_by_segid_def segid_loop_chain vaddr_loop_chain)

section \<open>Runs of the list\<close>

datatype ml_op = Ml_add "addr option" seg | Ml_remove | Ml_free

fun ml_exec :: "addr \<Rightarrow> ml_op \<Rightarrow> seg_heap \<Rightarrow> seg_heap run" where
  "ml_exec q (Ml_add mem (i, a, n)) s = map_option snd (list_add_element mem (Some q) i a n s)"
| "ml_exec q Ml_remove s = map_option snd (list_remove_element (Some q) s)"
| "ml_exec q Ml_free s = map_option snd (list_free q s)"

text \<open>The allocator returns memory that is not in use.\<close>

fun ml_pre :: "ml_op \<Rightarrow> seg_heap \<Rightarrow> bool" where
  "ml_pre (Ml_add mem x) s \<longleftrightarrow> (\<forall>p. mem = Some p \<longrightarrow> segs s p = None)"
| "ml_pre _ s \<longleftrightarrow> True"

definition ml_inv :: "addr \<Rightarrow> seg_heap \<Rightarrow> bool" where
  "ml_inv q s \<longleftrightarrow> (\<exists>as xs. list_rep q s as xs)"

definition ml_abs :: "addr \<Rightarrow> seg_heap \<Rightarrow> seg list" where
  "ml_abs q s = (THE xs. \<exists>as. list_rep q s as xs)"

lemma ml_abs_eq: "list_rep q s as xs \<Longrightarrow> ml_abs q s = xs"
  unfolding ml_abs_def using list_rep_unique by blast

lemma ml_invE:
  assumes "ml_inv q s"
  obtains as where "list_rep q s as (ml_abs q s)"
  using assms ml_abs_eq unfolding ml_inv_def by blast

text \<open>The queue that the list stands for.\<close>

fun queue_spec :: "ml_op \<Rightarrow> seg list \<Rightarrow> seg list \<Rightarrow> bool" where
  "queue_spec (Ml_add mem x) xs xs' \<longleftrightarrow> xs' = (case mem of None \<Rightarrow> xs | Some _ \<Rightarrow> xs @ [x])"
| "queue_spec Ml_remove xs xs' \<longleftrightarrow> xs' = tl xs"
| "queue_spec Ml_free xs xs' \<longleftrightarrow> xs' = []"

lemma ml_step:
  assumes "ml_inv q s" and "ml_pre op s"
  shows "\<exists>s'. ml_exec q op s = Some s' \<and> ml_inv q s' \<and> queue_spec op (ml_abs q s) (ml_abs q s')"
proof -
  from assms(1) obtain as where r: "list_rep q s as (ml_abs q s)" by (rule ml_invE)
  have fin: ?thesis if "ml_exec q op s = Some s'" "list_rep q s' as' xs'" "queue_spec op (ml_abs q s) xs'" for s' as' xs'
    using that ml_abs_eq[OF that(2)] by (auto simp: ml_inv_def)
  show ?thesis
  proof (cases op)
    case (Ml_add mem x)
    obtain i a n where x: "x = (i, a, n)" by (cases x) auto
    show ?thesis
    proof (cases mem)
      case None
      with Ml_add x r show ?thesis by (intro fin[of s as]) (auto simp: list_add_element_def)
    next
      case (Some p)
      have "p \<notin> set as" using assms(2) Ml_add Some r chain_live by (fastforce simp: list_rep_def)
      from list_add_rep[OF r this, of i a n] obtain s' where "list_add_element (Some p) (Some q) i a n s = Some (Some q, s')"
        "list_rep q s' (as @ [p]) (ml_abs q s @ [(i, a, n)])" by blast
      with Ml_add Some x show ?thesis by (intro fin) auto
    qed
  next
    case Ml_remove
    with list_remove_rep[OF r] show ?thesis by (auto simp: ml_inv_def dest: ml_abs_eq)
  next
    case Ml_free
    with list_free_rep[OF r] show ?thesis by (auto simp: ml_inv_def dest: ml_abs_eq)
  qed
qed

interpretation mlq: refining_machine ml_pre "ml_exec q" "ml_inv q" "\<lambda>_. True" "ml_abs q" "\<lambda>op s. op" queue_spec
proof unfold_locales
  fix op s assume "ml_inv q s" "ml_pre op s"
  from ml_step[OF this] show "ok (ml_exec q op s) (ml_inv q)" by (auto simp: ok_def)
next
  fix s op s' assume "ml_inv q s" "ml_pre op s" "ml_exec q op s = Some s'"
  with ml_step[of q s op] show "queue_spec op (ml_abs q s) (ml_abs q s')" by auto
qed simp

definition ml_start :: "addr \<Rightarrow> seg_heap" where
  "ml_start q = snd (the (list_new (Some q) \<lparr>segs = Map.empty, lists = Map.empty\<rparr>))"

lemma ml_start_inv: "ml_inv q (ml_start q)" "ml_abs q (ml_start q) = []"
  using list_new_rep ml_abs_eq unfolding ml_inv_def ml_start_def by blast+

text \<open>
  C27. The linked list of memory segments is a queue: from a new list on, whatever elements are added and removed, with any results
  of the allocator, every operation returns and acts on the sequence of the elements as on a queue, adding at the end and
  removing in front; freeing the list ends and leaves it empty; and the two searches return the id and the address of the
  first element with the address or the id they are given, or -1.
\<close>

theorem memseg_list_is_queue:
  assumes "reachable ml_pre (ml_exec q) (ml_start q) s" and "ml_pre op s"
  shows "\<exists>s'. ml_exec q op s = Some s' \<and> queue_spec op (ml_abs q s) (ml_abs q s') \<and> ml_abs q (ml_start q) = [] \<and>
    list_find_segid_by_vaddr (Some q) ad s' = Some (segid_at ad (ml_abs q s')) \<and>
    list_find_vaddr_by_segid (Some q) i s' = Some (vaddr_of i (ml_abs q s'))"
proof -
  from mlq.no_fault[OF ml_start_inv(1) assms] obtain s' where s': "ml_exec q op s = Some s'" "ml_inv q s'" by blast
  from s'(2) obtain as where "list_rep q s' as (ml_abs q s')" by (rule ml_invE)
  with s' mlq.reachable_sim[OF ml_start_inv(1) TrueI assms s'(1)] show ?thesis by (simp add: find_rep ml_start_inv(2))
qed

theorem memseg_list_is_queue_witness:
  "\<exists>s'. ml_exec 7 (Ml_add (Some 1) (5, 0x1000, 0x100)) (ml_start 7) = Some s' \<and>
     list_find_segid_by_vaddr (Some 7) 0x1080 s' = Some 5 \<and> list_find_vaddr_by_segid (Some 7) 5 s' = Some 0x1000"
proof -
  let ?op = "Ml_add (Some 1) (5, 0x1000, 0x100)"
  have "ml_pre ?op (ml_start 7)" by (simp add: ml_start_def list_new_def)
  from memseg_list_is_queue[OF reachable.start this, of "0x1080" 5] obtain s' where
    "ml_exec 7 ?op (ml_start 7) = Some s'" "ml_abs 7 s' = [(5, 0x1000, 0x100)]"
    "list_find_segid_by_vaddr (Some 7) 0x1080 s' = Some (segid_at 0x1080 (ml_abs 7 s'))"
    "list_find_vaddr_by_segid (Some 7) 5 s' = Some (vaddr_of 5 (ml_abs 7 s'))" by (auto simp: ml_start_inv(2))
  then show ?thesis by (auto simp: segid_at_def vaddr_of_def hit_def)
qed

end
