(* ===== verification/Forward.thy ===== *)
theory Forward
  imports Cdm Memseg Memhndl
begin

text \<open>
  The forwarding of calls between enclaves: the client library \<open>xpmem_chnl_client.c\<close>, which takes the place of \<open>open\<close> and
  \<open>ioctl\<close> in an application, and the server \<open>xpmem_chnl_serv.c\<close>, which owns the device. A call of the application becomes a command
  on a queue; addresses are replaced by the ids of shared-memory segments on the client and by the addresses at which the
  segments are attached on the server. The command queue is an argument of the client; the client reads the answer right after
  it issues a command, so the queue hands a command to the server and comes back with its answer. The device, \<open>xemem\<close>, the
  allocator and the process management interface are fields of environment records.
\<close>

section \<open>Arguments of the calls\<close>

type_synonym bytes = "u8 list"

record gni_nic_setattr_io = gni_nic_setattr_args +
  sa_nic_pe :: u32
  sa_cq_revisit_mode :: u32
  sa_fma_window :: u64
  sa_fma_window_nwc :: u64
  sa_fma_window_get :: u64
  sa_fma_ctrl :: u64
  sa_datagram_counter :: u64

record gni_mem_register_args =
  mr_segments_cnt :: u32
  mr_address :: u64
  mr_length :: u64
  mr_mem_segments :: u64
  mr_kern_cq_descr :: u64
  mr_flags :: u32
  mr_vmdh_index :: u32
  mr_mem_hndl :: gni_mem_handle
  mr_xargs :: "u64 \<times> u32"

record gni_cq_create_args =
  cc_queue :: u64
  cc_entry_count :: u32
  cc_mem_hndl :: gni_mem_handle
  cc_delay_count :: u32
  cc_mode :: u32
  cc_hw_rd_index_ptr :: u64
  cc_kern_cq_descr :: u64
  cc_allow_user_interrupt_mask :: u8
  cc_interrupt_mask :: u64

record gni_cq_wait_event_args =
  cw_kern_cq_descr :: u64
  cw_timeout :: u64
  cw_next_event_ptr :: u64
  cw_num_cqs :: u32
  cw_which :: u32

record gni_post_descriptor =
  pd_next_descr :: u64
  pd_prev_descr :: u64
  pd_post_id :: u64
  pd_status :: u64
  pd_cq_mode_complete :: u16
  pd_type :: u32
  pd_cq_mode :: u16
  pd_dlvr_mode :: u16
  pd_local_addr :: u64
  pd_local_mem_hndl :: gni_mem_handle
  pd_remote_addr :: u64
  pd_remote_mem_hndl :: gni_mem_handle
  pd_length :: u64
  pd_rdma_mode :: u16
  pd_src_cq_hndl :: u64
  pd_sync_flag_value :: u64
  pd_sync_flag_addr :: u64
  pd_amo_cmd :: u32
  pd_first_operand :: u64
  pd_second_operand :: u64
  pd_cqwrite_value :: u64

record gni_post_rdma_args =
  ra_remote_pe :: u32
  ra_post_desc :: u64
  ra_kern_cq_descr :: u64
  ra_src_cq_data :: u64
  ra_usr_event_data :: u64

record pmi_allgather_args =
  ga_in_data :: bytes
  ga_in_data_len :: u16
  ga_out_data :: bytes

text \<open>
  The calls of the client with the memory their argument points to: a call gives the request back with that memory as the call
  leaves it. \<open>Req_local\<close> stands for the requests that the client only reports on its error stream.
\<close>

datatype request =
    Req_setattr gni_nic_setattr_io
  | Req_cq_create gni_cq_create_args
  | Req_mem_register gni_mem_register_args
  | Req_cq_wait_event gni_cq_wait_event_args
  | Req_cq_destroy u64
  | Req_allgather pmi_allgather_args
  | Req_getsize u32
  | Req_getrank u32
  | Req_finalize
  | Req_barrier
  | Req_post_rdma gni_post_rdma_args gni_post_descriptor
  | Req_local

text \<open>What the command queue carries, with the command code as the constructor.\<close>

datatype hcq_msg =
    M_setattr gni_nic_setattr_io
  | M_cq_create gni_cq_create_args
  | M_mem_register gni_mem_register_args
  | M_cq_wait_event gni_cq_wait_event_args
  | M_cq_destroy u64
  | M_allgather bytes
  | M_getsize u32
  | M_getrank u32
  | M_finalize
  | M_barrier
  | M_post_rdma gni_post_descriptor gni_post_rdma_args
  | M_malloc u32
  | M_segid u64
  | M_rc int

text \<open>The server answers a command, does not answer it, or ends.\<close>

datatype outcome = Answer hcq_msg | Silent | Exit

section \<open>The memory handles in a gather\<close>

text \<open>A handle with an address, \<open>mdh_addr_t\<close>, as the bytes it is gathered as: two words of the handle, then the address.\<close>

definition MDH_ADDR_SIZE :: nat where
  "MDH_ADDR_SIZE = 24"

definition le64 :: "u64 \<Rightarrow> bytes" where
  "le64 v = map (byte_of v) [0..<8]"

definition of_le64 :: "bytes \<Rightarrow> u64" where
  "of_le64 bs = foldr (\<lambda>b v. ucast b OR push_bit 8 v) bs 0"

definition mdh_addr :: "bytes \<Rightarrow> u64" where
  "mdh_addr bs = of_le64 (take 8 (drop 16 bs))"

definition set_mdh_addr :: "u64 \<Rightarrow> bytes \<Rightarrow> bytes" where
  "set_mdh_addr v bs = take 16 bs @ le64 v @ drop 24 bs"

section \<open>The server\<close>

text \<open>The calls that reach the device.\<close>

datatype dev_call =
    Dev_setattr gni_nic_setattr_io
  | Dev_register gni_mem_register_args
  | Dev_cq_create gni_cq_create_args
  | Dev_post_rdma gni_post_rdma_args gni_post_descriptor

text \<open>
  What the server gets from outside: the device, the shared-memory segments of \<open>xemem\<close>, the allocator, the job launcher and the
  process management interface.
\<close>

record srv_env =
  dev_setattr :: "gni_nic_setattr_io \<Rightarrow> int \<times> gni_nic_setattr_io"
  dev_register :: "gni_mem_register_args \<Rightarrow> int \<times> gni_mem_register_args"
  dev_cq_create :: "gni_cq_create_args \<Rightarrow> int \<times> gni_cq_create_args"
  dev_post_rdma :: "gni_post_rdma_args \<Rightarrow> gni_post_descriptor \<Rightarrow> int"
  xemem_make :: "u64 \<Rightarrow> u64 \<Rightarrow> u64"
  xemem_get :: "u64 \<Rightarrow> int"
  xemem_attach :: "int \<Rightarrow> u64 \<Rightarrow> u64"
  node_mem :: "addr option"
  posix_memalign :: "u32 \<Rightarrow> u64 option"
  fresh_bytes :: "nat \<Rightarrow> bytes"
  post_desc_ptr :: u64
  alps_cookie :: u32
  alps_ptag :: u32
  instance_id :: u32
  PMI_size :: nat
  PMI_rank :: nat
  PMI_Allgather_rank :: "nat \<Rightarrow> nat list"
  PMI_Allgather :: "bytes \<Rightarrow> bytes"

definition MAP_FAILED :: u64 where
  "MAP_FAILED = - 1"

record server =
  sv_heap :: seg_heap
  sv_mt :: "addr option"
  sv_attr :: gni_nic_setattr_io
  sv_ivec :: "(nat \<times> nat list) option"
  sv_dev :: "dev_call list"

definition dev_log :: "dev_call \<Rightarrow> server \<Rightarrow> server" where
  "dev_log c sv = sv\<lparr>sv_dev := sv_dev sv @ [c]\<rparr>"

definition sv_add :: "srv_env \<Rightarrow> u64 \<Rightarrow> u64 \<Rightarrow> u64 \<Rightarrow> server \<Rightarrow> server run" where
  "sv_add env segid ad len sv = do {
     (_, h) \<leftarrow> list_add_element (node_mem env) (sv_mt sv) segid ad len (sv_heap sv);
     Some (sv\<lparr>sv_heap := h\<rparr>)
   }"

text \<open>The loop that puts the gathered blocks into the order of the ranks.\<close>

fun gather_loop :: "nat \<Rightarrow> bytes \<Rightarrow> nat list \<Rightarrow> nat \<Rightarrow> bytes \<Rightarrow> bytes run" where
  "gather_loop len tmp [] i out = Some out"
| "gather_loop len tmp (r # rs) i out = do {
     in_bounds (len * r + len \<le> length out \<and> i * len + len \<le> length tmp);
     gather_loop len tmp rs (Suc i) (take (len * r) out @ take len (drop (i * len) tmp) @ drop (len * r + len) out)
   }"

definition allgather :: "srv_env \<Rightarrow> bytes \<Rightarrow> bytes \<Rightarrow> nat \<Rightarrow> server \<Rightarrow> (bytes \<times> server) run" where
  "allgather env inp out len sv =
     (let (job_size, ivec) = (case sv_ivec sv of
            Some v \<Rightarrow> v
          | None \<Rightarrow> (PMI_size env, PMI_Allgather_rank env (PMI_rank env)))
      in do {
        in_bounds (job_size \<le> length ivec);
        out \<leftarrow> gather_loop len (PMI_Allgather env inp) (take job_size ivec) 0 out;
        Some (out, sv\<lparr>sv_ivec := Some (job_size, ivec)\<rparr>)
      })"

text \<open>One turn of the command loop in \<open>main\<close>.\<close>

fun serve :: "srv_env \<Rightarrow> hcq_msg \<Rightarrow> server \<Rightarrow> (outcome \<times> server) run" where
  "serve env (M_setattr _) sv =
     (let attr = (sv_attr sv)\<lparr>sa_modes := 0, sa_cookie := alps_cookie env, sa_ptag := alps_ptag env, sa_rank := instance_id env\<rparr>;
          (status, attr') = dev_setattr env attr;
          sv = dev_log (Dev_setattr attr) (sv\<lparr>sv_attr := attr'\<rparr>)
      in if status < 0 then Some (Exit, sv) else Some (Answer (M_setattr attr'), sv))"
| "serve env (M_mem_register r) sv = do {
     (go, r, sv) \<leftarrow>
       (if mr_segments_cnt r = 1 then
          (let apid = xemem_get env (mr_address r) in
           if apid \<le> 0 then Some (False, r, sv)
           else (let buffer = xemem_attach env apid (mr_length r) in
             if buffer = MAP_FAILED then Some (False, r, sv)
             else do {
               sv \<leftarrow> sv_add env (mr_address r) buffer (mr_length r) sv;
               Some (True, r\<lparr>mr_address := buffer\<rparr>, sv)
             }))
        else Some (True, r, sv));
     if \<not> go then Some (Exit, sv)
     else (let (rc, r') = dev_register env r; sv = dev_log (Dev_register r) sv
       in if rc < 0 then Some (Exit, sv) else Some (Answer (M_mem_register r'), sv))
   }"
| "serve env (M_post_rdma desc args) sv = do {
     buffer \<leftarrow> list_find_vaddr_by_segid (sv_mt sv) (pd_local_addr desc) (sv_heap sv);
     let desc = desc\<lparr>pd_local_addr := buffer\<rparr>;
     let args = args\<lparr>ra_post_desc := post_desc_ptr env\<rparr>;
     let rc = dev_post_rdma env args desc;
     let sv = dev_log (Dev_post_rdma args desc) sv;
     if rc < 0 then Some (Exit, sv) else Some (Answer (M_rc rc), sv)
   }"
| "serve env (M_cq_create c) sv = do {
     buffer \<leftarrow> list_find_vaddr_by_segid (sv_mt sv) (cc_queue c) (sv_heap sv);
     let c = c\<lparr>cc_queue := buffer\<rparr>;
     let (rc, c') = dev_cq_create env c;
     let sv = dev_log (Dev_cq_create c) sv;
     if rc < 0 then Some (Exit, sv) else Some (Answer (M_cq_create c'), sv)
   }"
| "serve env (M_allgather inp) sv = do {
     inp \<leftarrow> (if length inp = MDH_ADDR_SIZE then do {
                buffer \<leftarrow> list_find_vaddr_by_segid (sv_mt sv) (mdh_addr inp) (sv_heap sv);
                Some (set_mdh_addr buffer inp)
              }
              else Some inp);
     (out, sv) \<leftarrow> allgather env inp (fresh_bytes env (PMI_size env * length inp)) (length inp) sv;
     Some (Answer (M_allgather out), sv)
   }"
| "serve env (M_getrank _) sv = Some (Answer (M_getrank (of_nat (PMI_rank env))), sv)"
| "serve env (M_getsize _) sv = Some (Answer (M_getsize (of_nat (PMI_size env))), sv)"
| "serve env M_finalize sv = Some (Answer M_finalize, sv)"
| "serve env (M_malloc n) sv = do {
     buffer \<leftarrow> posix_memalign env n;
     let seg = xemem_make env buffer (ucast n);
     sv \<leftarrow> sv_add env seg buffer (ucast n) sv;
     Some (Answer (M_segid seg), sv)
   }"
| "serve env (M_cq_wait_event _) sv = Some (Silent, sv)"
| "serve env (M_cq_destroy _) sv = Some (Silent, sv)"
| "serve env M_barrier sv = Some (Silent, sv)"
| "serve env (M_segid _) sv = Some (Silent, sv)"
| "serve env (M_rc _) sv = Some (Silent, sv)"

section \<open>The client\<close>

definition FMA_WINDOW_SIZE :: u64 where
  "FMA_WINDOW_SIZE = 1024 * 1024 * 1024"

definition GHAL_FMA_CTRL_SIZE :: u64 where
  "GHAL_FMA_CTRL_SIZE = 0x1000"

text \<open>What the client gets from outside; \<open>cl_node_mem\<close> are the results of the allocator for the list elements of one call.\<close>

record cl_env =
  cl_xemem_make :: "u64 \<Rightarrow> u64 \<Rightarrow> u64"
  xemem_lookup_segid :: "string \<Rightarrow> u64"
  cl_xemem_get :: "u64 \<Rightarrow> int"
  xemem_attach_nocache :: "int \<Rightarrow> u64 \<Rightarrow> u64"
  cl_node_mem :: "nat \<Rightarrow> addr option"

record client =
  cl_heap :: seg_heap
  cl_mt :: "addr option"
  cl_comm_size :: u32
  cl_my_rank :: u32

definition cl_add :: "addr option \<Rightarrow> u64 \<Rightarrow> u64 \<Rightarrow> u64 \<Rightarrow> client \<Rightarrow> client run" where
  "cl_add mem segid ad len cl = do {
     (_, h) \<leftarrow> list_add_element mem (cl_mt cl) segid ad len (cl_heap cl);
     Some (cl\<lparr>cl_heap := h\<rparr>)
   }"

abbreviation cl_segid :: "client \<Rightarrow> u64 \<Rightarrow> u64 run" where
  "cl_segid cl ad \<equiv> list_find_segid_by_vaddr (cl_mt cl) ad (cl_heap cl)"

text \<open>
  \<open>pack_args\<close>: the translation of addresses, the command and its answer. \<open>hcq\<close> is the command queue with the server behind it. A
  result without request means that the client waits for an answer that does not come. The first eight bytes of
  the attributes, which are all that is copied back, are the protection tag and the cookie.
\<close>

definition pack_args :: "cl_env \<Rightarrow> (hcq_msg \<Rightarrow> 's \<Rightarrow> (outcome \<times> 's) run) \<Rightarrow> request \<Rightarrow> client \<Rightarrow> 's \<Rightarrow> (request option \<times> client \<times> 's) run" where
  "pack_args env hcq req cl sv =
     (case req of
        Req_setattr attr \<Rightarrow> do {
          (r, sv) \<leftarrow> hcq (M_setattr attr) sv;
          Some (case r of
              Answer (M_setattr attr') \<Rightarrow> (Some (Req_setattr (attr\<lparr>sa_ptag := sa_ptag attr', sa_cookie := sa_cookie attr'\<rparr>)), cl, sv)
            | _ \<Rightarrow> (None, cl, sv))
        }
      | Req_cq_create c \<Rightarrow> do {
          seg \<leftarrow> cl_segid cl (cc_queue c);
          (r, sv) \<leftarrow> hcq (M_cq_create (c\<lparr>cc_queue := seg\<rparr>)) sv;
          Some (case r of
              Answer (M_cq_create c') \<Rightarrow> (Some (Req_cq_create (c'\<lparr>cc_queue := cc_queue c\<rparr>)), cl, sv)
            | _ \<Rightarrow> (None, cl, sv))
        }
      | Req_mem_register a \<Rightarrow> do {
          let seg = cl_xemem_make env (mr_address a) (mr_length a);
          cl \<leftarrow> cl_add (cl_node_mem env 0) seg (mr_address a) (mr_length a) cl;
          (r, sv) \<leftarrow> hcq (M_mem_register (a\<lparr>mr_address := seg\<rparr>)) sv;
          Some (case r of
              Answer (M_mem_register a') \<Rightarrow> (Some (Req_mem_register a'), cl, sv)
            | _ \<Rightarrow> (None, cl, sv))
        }
      | Req_cq_wait_event w \<Rightarrow> do {
          seg \<leftarrow> cl_segid cl (cw_next_event_ptr w);
          let w = w\<lparr>cw_next_event_ptr := seg\<rparr>;
          (r, sv) \<leftarrow> hcq (M_cq_wait_event w) sv;
          Some (case r of
              Answer (M_cq_wait_event w') \<Rightarrow> (Some (Req_cq_wait_event (w\<lparr>cw_kern_cq_descr := cw_kern_cq_descr w'\<rparr>)), cl, sv)
            | _ \<Rightarrow> (None, cl, sv))
        }
      | Req_cq_destroy d \<Rightarrow> do {
          (r, sv) \<leftarrow> hcq (M_cq_destroy d) sv;
          Some (case r of
              Answer (M_cq_destroy d') \<Rightarrow> (Some (Req_cq_destroy d'), cl, sv)
            | _ \<Rightarrow> (None, cl, sv))
        }
      | Req_allgather g \<Rightarrow> do {
          inp \<leftarrow> (if unat (ga_in_data_len g) = MDH_ADDR_SIZE then do {
                     seg \<leftarrow> cl_segid cl (mdh_addr (ga_in_data g));
                     Some (set_mdh_addr seg (ga_in_data g))
                   }
                   else Some (ga_in_data g));
          (r, sv) \<leftarrow> hcq (M_allgather (take (unat (ga_in_data_len g)) inp)) sv;
          (case r of
             Answer (M_allgather out) \<Rightarrow>
               (let n = unat (cl_comm_size cl) * unat (ga_in_data_len g) in do {
                  in_bounds (n \<le> length out \<and> n \<le> length (ga_out_data g));
                  Some (Some (Req_allgather (g\<lparr>ga_in_data := inp, ga_out_data := memcpy (ga_out_data g) out n\<rparr>)), cl, sv)
                })
           | _ \<Rightarrow> Some (None, cl, sv))
        }
      | Req_getsize _ \<Rightarrow> do {
          (r, sv) \<leftarrow> hcq (M_getsize 0) sv;
          Some (case r of
              Answer (M_getsize n) \<Rightarrow> (Some (Req_getsize n), cl\<lparr>cl_comm_size := n\<rparr>, sv)
            | _ \<Rightarrow> (None, cl, sv))
        }
      | Req_getrank _ \<Rightarrow> do {
          (r, sv) \<leftarrow> hcq (M_getrank 0) sv;
          Some (case r of
              Answer (M_getrank n) \<Rightarrow> (Some (Req_getrank n), cl\<lparr>cl_my_rank := n\<rparr>, sv)
            | _ \<Rightarrow> (None, cl, sv))
        }
      | Req_finalize \<Rightarrow> do {
          (r, sv) \<leftarrow> hcq M_finalize sv;
          Some (case r of Answer _ \<Rightarrow> (Some Req_finalize, cl, sv) | _ \<Rightarrow> (None, cl, sv))
        }
      | Req_barrier \<Rightarrow> do {
          (r, sv) \<leftarrow> hcq M_barrier sv;
          Some (case r of Answer _ \<Rightarrow> (Some Req_barrier, cl, sv) | _ \<Rightarrow> (None, cl, sv))
        }
      | Req_post_rdma args desc \<Rightarrow> do {
          seg \<leftarrow> cl_segid cl (pd_local_addr desc);
          let desc = desc\<lparr>pd_local_addr := seg\<rparr>;
          (r, sv) \<leftarrow> hcq (M_post_rdma desc args) sv;
          Some (case r of Answer _ \<Rightarrow> (Some (Req_post_rdma args desc), cl, sv) | _ \<Rightarrow> (None, cl, sv))
        }
      | Req_local \<Rightarrow> Some (Some Req_local, cl, sv))"

text \<open>
  The windows that \<open>unpack_args\<close> attaches: the name of the segment and the size; whatever the size, the list gets
  \<open>FMA_WINDOW_SIZE\<close>. The attach stops at the first window that is not available.
\<close>

definition fma_windows :: "(string \<times> u64) list" where
  "fma_windows = [(''fma_win_seg'', FMA_WINDOW_SIZE), (''fma_win_put'', FMA_WINDOW_SIZE), (''fma_win_get'', FMA_WINDOW_SIZE),
     (''fma_win_ctrl'', GHAL_FMA_CTRL_SIZE)]"

fun attach_windows :: "cl_env \<Rightarrow> (string \<times> u64) list \<Rightarrow> nat \<Rightarrow> client \<Rightarrow> (u64 list option \<times> client) run" where
  "attach_windows env [] k cl = Some (Some [], cl)"
| "attach_windows env ((name, sz) # ws) k cl =
     (let seg = xemem_lookup_segid env name; apid = cl_xemem_get env seg in
      if apid \<le> 0 then Some (None, cl)
      else (let p = xemem_attach_nocache env apid sz in
        if p = 0 then Some (None, cl)
        else do {
          cl \<leftarrow> cl_add (cl_node_mem env k) seg p FMA_WINDOW_SIZE cl;
          (ps, cl) \<leftarrow> attach_windows env ws (Suc k) cl;
          Some (map_option ((#) p) ps, cl)
        }))"

definition unpack_args :: "cl_env \<Rightarrow> request \<Rightarrow> client \<Rightarrow> (request \<times> client) run" where
  "unpack_args env req cl =
     (case req of
        Req_setattr attr \<Rightarrow> do {
          (ps, cl) \<leftarrow> attach_windows env fma_windows 0 cl;
          Some (case ps of
              Some [win, put, get, ctrl] \<Rightarrow>
                (Req_setattr (attr\<lparr>sa_fma_window := win, sa_fma_window_nwc := put, sa_fma_window_get := get, sa_fma_ctrl := ctrl\<rparr>), cl)
            | _ \<Rightarrow> (Req_setattr attr, cl))
        }
      | _ \<Rightarrow> Some (req, cl))"

definition handle_ioctl :: "cl_env \<Rightarrow> (hcq_msg \<Rightarrow> 's \<Rightarrow> (outcome \<times> 's) run) \<Rightarrow> request \<Rightarrow> client \<Rightarrow> 's \<Rightarrow> (request option \<times> client \<times> 's) run" where
  "handle_ioctl env hcq req cl sv = do {
     (r, cl, sv) \<leftarrow> pack_args env hcq req cl sv;
     (case r of
        None \<Rightarrow> Some (None, cl, sv)
      | Some req \<Rightarrow> do {
          (req, cl) \<leftarrow> unpack_args env req cl;
          Some (Some req, cl, sv)
        })
   }"

section \<open>The library calls that are replaced\<close>

text \<open>The descriptors of the two devices; before they are opened both are 0.\<close>

record shim =
  client_fd :: int
  pmi_fd :: int

datatype ioctl_target = To_client | To_next

definition ioctl_target :: "shim \<Rightarrow> int \<Rightarrow> ioctl_target" where
  "ioctl_target sh fd = (if fd = client_fd sh then To_client else if fd = pmi_fd sh then To_client else To_next)"

definition open_shim :: "(string \<Rightarrow> int) \<Rightarrow> string \<Rightarrow> shim \<Rightarrow> int \<times> shim" where
  "open_shim orig_open pathname sh =
     (if take 10 pathname = ''/dev/kgni0'' then
        (let fd = orig_open ''/home/smukher/temp'' in (fd, sh\<lparr>client_fd := fd\<rparr>))
      else if take 8 pathname = ''/dev/pmi'' then
        (let fd = orig_open ''/home/smukher/temp1'' in (fd, sh\<lparr>pmi_fd := fd\<rparr>))
      else (orig_open pathname, sh))"

section \<open>The instance id\<close>

definition NIC_ADDR_SHIFT :: nat where "NIC_ADDR_SHIFT = 10"
definition CPU_NUM_SHIFT :: nat where "CPU_NUM_SHIFT = 3"

definition GNI_INSTID :: "u32 \<Rightarrow> u32 \<Rightarrow> u32 \<Rightarrow> u32" where
  "GNI_INSTID nic_addr cpu_num thr_num =
     push_bit NIC_ADDR_SHIFT (nic_addr AND 0x3FFFFF) OR push_bit CPU_NUM_SHIFT (cpu_num AND 0x7F) OR (thr_num AND 0x7)"

text \<open>The loops over the processors that the thread may run on; \<open>None\<close> is the value of a variable that was not set.\<close>

fun run_length :: "bool list \<Rightarrow> nat" where
  "run_length (True # bs) = Suc (run_length bs)"
| "run_length _ = 0"

fun cpunum_loop :: "bool list \<Rightarrow> nat \<Rightarrow> nat option \<Rightarrow> nat option" where
  "cpunum_loop [] i cpu_num = cpu_num"
| "cpunum_loop (b # bs) i cpu_num =
     (if b then (if run_length bs = 0 then cpunum_loop bs (Suc i) (Some i) else cpunum_loop bs (Suc i) (Some i))
      else cpunum_loop bs (Suc i) cpu_num)"

definition get_cpunum :: "bool list \<Rightarrow> nat option" where
  "get_cpunum coremask = cpunum_loop coremask 0 None"

end
