(* ===== verification/Forward_Inv.thy ===== *)
theory Forward_Inv
  imports Forward
begin

text \<open>
  Client and server as one machine: the lists of segments stay well formed and only grow, and what a call makes of an address
  in a registered region.
\<close>

section \<open>Client and server together\<close>

record fw =
  fw_cl :: client
  fw_sv :: server
  fw_blocked :: bool

datatype fw_op = Fw cl_env srv_env request

fun fw_exec :: "fw_op \<Rightarrow> fw \<Rightarrow> fw run" where
  "fw_exec (Fw ce se req) s = do {
     (r, cl, sv) \<leftarrow> handle_ioctl ce (serve se) req (fw_cl s) (fw_sv s);
     Some \<lparr>fw_cl = cl, fw_sv = sv, fw_blocked = (r = None)\<rparr>
   }"

definition cl_segs :: "client \<Rightarrow> seg list" where
  "cl_segs cl = ml_abs (the (cl_mt cl)) (cl_heap cl)"

definition sv_segs :: "server \<Rightarrow> seg list" where
  "sv_segs sv = ml_abs (the (sv_mt sv)) (sv_heap sv)"

text \<open>The lists are well formed; the regions of the client do not overlap and the ids of the server are different.\<close>

definition cl_ok :: "client \<Rightarrow> bool" where
  "cl_ok cl \<longleftrightarrow> (\<exists>q. cl_mt cl = Some q \<and> ml_inv q (cl_heap cl)) \<and>
     (\<forall>e \<in> set (cl_segs cl). \<forall>e' \<in> set (cl_segs cl). \<forall>x. hit x e \<longrightarrow> hit x e' \<longrightarrow> e = e')"

definition sv_ok :: "server \<Rightarrow> bool" where
  "sv_ok sv \<longleftrightarrow> (\<exists>q. sv_mt sv = Some q \<and> ml_inv q (sv_heap sv)) \<and>
     (\<forall>e \<in> set (sv_segs sv). \<forall>e' \<in> set (sv_segs sv). fst e = fst e' \<longrightarrow> e = e')"

definition fw_inv :: "fw \<Rightarrow> bool" where
  "fw_inv s \<longleftrightarrow> cl_ok (fw_cl s) \<and> sv_ok (fw_sv s)"

text \<open>
  What the calls rely on: the allocator returns unused memory, a new region of the client overlaps no earlier one, and
  \<open>xemem\<close> gives a new segment an id of its own. For a gather it is assumed that it stays inside its buffers.
\<close>

fun adds_ok :: "(addr option \<times> seg) list \<Rightarrow> seg_heap \<Rightarrow> seg list \<Rightarrow> bool" where
  "adds_ok [] h xs \<longleftrightarrow> True"
| "adds_ok ((mem, e) # es) h xs \<longleftrightarrow> (\<forall>p. mem = Some p \<longrightarrow> segs h p = None \<and> mem \<notin> fst ` set es) \<and>
     (\<forall>e' \<in> set xs. \<forall>x. hit x e \<longrightarrow> \<not> hit x e') \<and> adds_ok es h (xs @ [e])"

definition window_adds :: "cl_env \<Rightarrow> (string \<times> u64) list \<Rightarrow> nat \<Rightarrow> (addr option \<times> seg) list" where
  "window_adds ce ws k = map (\<lambda>(j, name, sz). let seg = xemem_lookup_segid ce name in
     (cl_node_mem ce j, (seg, xemem_attach_nocache ce (cl_xemem_get ce seg) sz, FMA_WINDOW_SIZE))) (zip [k..<k + length ws] ws)"

fun fw_pre :: "fw_op \<Rightarrow> fw \<Rightarrow> bool" where
  "fw_pre (Fw ce se req) s \<longleftrightarrow> \<not> fw_blocked s \<and>
     (case req of
        Req_mem_register a \<Rightarrow>
          (let seg = cl_xemem_make ce (mr_address a) (mr_length a) in
           adds_ok [(cl_node_mem ce 0, (seg, mr_address a, mr_length a))] (cl_heap (fw_cl s)) (cl_segs (fw_cl s)) \<and>
           (\<forall>p. node_mem se = Some p \<longrightarrow> segs (sv_heap (fw_sv s)) p = None) \<and> seg \<notin> fst ` set (sv_segs (fw_sv s)))
      | Req_setattr _ \<Rightarrow> adds_ok (window_adds ce fma_windows 0) (cl_heap (fw_cl s)) (cl_segs (fw_cl s))
      | Req_allgather _ \<Rightarrow> handle_ioctl ce (serve se) req (fw_cl s) (fw_sv s) \<noteq> None
      | _ \<Rightarrow> True)"

section \<open>Adding and searching\<close>

lemma add_abs:
  assumes "ml_inv q h" and "\<forall>p. mem = Some p \<longrightarrow> segs h p = None"
  shows "\<exists>r h'. list_add_element mem (Some q) i a n h = Some (r, h') \<and> ml_inv q h' \<and>
    ml_abs q h' = (case mem of None \<Rightarrow> ml_abs q h | Some _ \<Rightarrow> ml_abs q h @ [(i, a, n)])"
proof -
  have "ml_pre (Ml_add mem (i, a, n)) h" using assms(2) by simp
  from ml_step[OF assms(1) this] show ?thesis by auto
qed

lemma add_fresh:
  assumes "list_add_element mem l i a n h = Some (r, h')" and "segs h p = None" and "mem \<noteq> Some p"
  shows "segs h' p = None"
  using assms by (auto simp: list_add_element_def Let_def bind_eq_Some_conv split: option.splits if_splits)

lemma find_abs:
  assumes "ml_inv q h"
  shows "list_find_segid_by_vaddr (Some q) x h = Some (segid_at x (ml_abs q h))"
    "list_find_vaddr_by_segid (Some q) j h = Some (vaddr_of j (ml_abs q h))"
proof -
  from assms obtain as where "list_rep q h as (ml_abs q h)" by (rule ml_invE)
  then show "list_find_segid_by_vaddr (Some q) x h = Some (segid_at x (ml_abs q h))"
    "list_find_vaddr_by_segid (Some q) j h = Some (vaddr_of j (ml_abs q h))" by (rule find_rep)+
qed

lemma find_unique:
  assumes "e \<in> set xs" and "P e" and "\<forall>e' \<in> set xs. P e' \<longrightarrow> e' = e"
  shows "find P xs = Some e"
proof (cases "find P xs")
  case None
  then have "\<not> P e" using assms(1) by (simp add: find_None_iff)
  with assms(2) show ?thesis by blast
next
  case (Some e')
  then have "P e'" "e' \<in> set xs" by (auto simp: find_Some_iff)
  with assms(3) Some show ?thesis by blast
qed

lemma segid_at_hit:
  assumes "cl_ok cl" and "(i, a, n) \<in> set (cl_segs cl)" and "hit x (i, a, n)"
  shows "cl_segid cl x = Some i"
proof -
  from assms(1) obtain q where q: "cl_mt cl = Some q" "ml_inv q (cl_heap cl)" by (auto simp: cl_ok_def)
  have "find (hit x) (cl_segs cl) = Some (i, a, n)"
    using assms by (intro find_unique) (auto simp: cl_ok_def)
  with find_abs(1)[OF q(2)] q(1) show ?thesis by (simp add: segid_at_def cl_segs_def)
qed

lemma vaddr_of_seg:
  assumes "sv_ok sv" and "(i, b, m) \<in> set (sv_segs sv)"
  shows "list_find_vaddr_by_segid (sv_mt sv) i (sv_heap sv) = Some b"
proof -
  from assms(1) obtain q where q: "sv_mt sv = Some q" "ml_inv q (sv_heap sv)" by (auto simp: sv_ok_def)
  have "find (\<lambda>(j, _, _). j = i) (sv_segs sv) = Some (i, b, m)"
    using assms by (intro find_unique) (fastforce simp: sv_ok_def)+
  with find_abs(2)[OF q(2)] q(1) show ?thesis by (simp add: vaddr_of_def sv_segs_def)
qed

lemma cl_segid_Some: "cl_ok cl \<Longrightarrow> \<exists>i. cl_segid cl x = Some i"
  using find_abs by (auto simp: cl_ok_def)

lemma sv_vaddr_Some: "sv_ok sv \<Longrightarrow> \<exists>b. list_find_vaddr_by_segid (sv_mt sv) i (sv_heap sv) = Some b"
  using find_abs by (auto simp: sv_ok_def)

lemma cl_add_ok:
  assumes "cl_ok cl" and "adds_ok ((mem, (i, a, n)) # es) (cl_heap cl) (cl_segs cl)"
  shows "\<exists>cl'. cl_add mem i a n cl = Some cl' \<and> cl_ok cl' \<and> set (cl_segs cl) \<subseteq> set (cl_segs cl') \<and>
    (mem \<noteq> None \<longrightarrow> (i, a, n) \<in> set (cl_segs cl')) \<and> adds_ok es (cl_heap cl') (cl_segs cl') \<and> cl_mt cl' = cl_mt cl"
proof -
  from assms(1) obtain q where q: "cl_mt cl = Some q" "ml_inv q (cl_heap cl)" by (auto simp: cl_ok_def)
  have cs: "cl_segs cl = ml_abs q (cl_heap cl)" using q(1) by (simp add: cl_segs_def)
  have "\<forall>p. mem = Some p \<longrightarrow> segs (cl_heap cl) p = None" using assms(2) by auto
  from add_abs[OF q(2) this, of i a n] obtain r h' where h: "list_add_element mem (Some q) i a n (cl_heap cl) = Some (r, h')" "ml_inv q h'"
    "ml_abs q h' = (case mem of None \<Rightarrow> cl_segs cl | Some _ \<Rightarrow> cl_segs cl @ [(i, a, n)])" unfolding cs by blast
  let ?cl = "cl\<lparr>cl_heap := h'\<rparr>"
  have segs: "cl_segs ?cl = (case mem of None \<Rightarrow> cl_segs cl | Some _ \<Rightarrow> cl_segs cl @ [(i, a, n)])" using h(3) q(1) by (simp add: cl_segs_def)
  have mono: "adds_ok es h ys" if "adds_ok es h xs" "set ys \<subseteq> set xs" for es h xs ys
    using that
  proof (induction es arbitrary: xs ys)
    case (Cons y es)
    obtain m e where y: "y = (m, e)" by (cases y) auto
    with Cons.prems Cons.IH[of "xs @ [e]" "ys @ [e]"] show ?case by auto
  qed simp
  have fresh: "adds_ok es h' xs" if "adds_ok es (cl_heap cl) xs" "mem = None \<or> mem \<notin> fst ` set es" for xs
    using that
  proof (induction es arbitrary: xs)
    case (Cons y es)
    obtain m e where y: "y = (m, e)" by (cases y) auto
    have "m = Some p \<longrightarrow> mem \<noteq> Some p" for p using Cons.prems(2) y by auto
    then have "m = Some p \<longrightarrow> segs h' p = None" for p using add_fresh[OF h(1), of p] Cons.prems(1) y by auto
    with Cons.prems Cons.IH[of "xs @ [e]"] y show ?case by auto
  qed simp
  have "adds_ok es (cl_heap cl) (cl_segs ?cl)" using mono[of es "cl_heap cl" "cl_segs cl @ [(i, a, n)]"] assms(2) segs by (auto split: option.splits)
  moreover have "mem = None \<or> mem \<notin> fst ` set es" using assms(2) by (cases mem) auto
  ultimately have "adds_ok es h' (cl_segs ?cl)" by (rule fresh)
  moreover have "cl_ok ?cl"
    using assms q h segs unfolding cl_ok_def by (auto split: option.splits)
  ultimately show ?thesis using h(1) q(1) segs by (auto simp: cl_add_def split: option.splits)
qed

lemma sv_add_ok:
  assumes "sv_ok sv" and "\<forall>p. node_mem se = Some p \<longrightarrow> segs (sv_heap sv) p = None" and "i \<notin> fst ` set (sv_segs sv)"
  shows "\<exists>sv'. sv_add se i b n sv = Some sv' \<and> sv_ok sv' \<and> set (sv_segs sv) \<subseteq> set (sv_segs sv') \<and>
    (node_mem se \<noteq> None \<longrightarrow> (i, b, n) \<in> set (sv_segs sv'))"
proof -
  from assms(1) obtain q where q: "sv_mt sv = Some q" "ml_inv q (sv_heap sv)" by (auto simp: sv_ok_def)
  have ss: "sv_segs sv = ml_abs q (sv_heap sv)" using q(1) by (simp add: sv_segs_def)
  from add_abs[OF q(2) assms(2), of i b n] obtain r h' where h: "list_add_element (node_mem se) (Some q) i b n (sv_heap sv) = Some (r, h')"
    "ml_inv q h'" "ml_abs q h' = (case node_mem se of None \<Rightarrow> sv_segs sv | Some _ \<Rightarrow> sv_segs sv @ [(i, b, n)])" unfolding ss by blast
  have "sv_segs (sv\<lparr>sv_heap := h'\<rparr>) = (case node_mem se of None \<Rightarrow> sv_segs sv | Some _ \<Rightarrow> sv_segs sv @ [(i, b, n)])"
    using h(3) q(1) by (simp add: sv_segs_def)
  with assms(1,3) q h show ?thesis unfolding sv_ok_def by (force simp: sv_add_def split: option.splits)
qed

section \<open>Every call keeps the lists\<close>

text \<open>What a step of one side keeps: its list stays well formed and only grows.\<close>

definition cl_step :: "client \<Rightarrow> client \<Rightarrow> bool" where
  "cl_step cl cl' \<longleftrightarrow> cl_ok cl' \<and> set (cl_segs cl) \<subseteq> set (cl_segs cl')"

definition sv_step :: "server \<Rightarrow> server \<Rightarrow> bool" where
  "sv_step sv sv' \<longleftrightarrow> sv_ok sv' \<and> set (sv_segs sv) \<subseteq> set (sv_segs sv')"

lemma sv_step_same: "sv_ok sv \<Longrightarrow> sv_heap sv' = sv_heap sv \<Longrightarrow> sv_mt sv' = sv_mt sv \<Longrightarrow> sv_step sv sv'"
  by (simp add: sv_step_def sv_ok_def sv_segs_def)

lemma cl_step_same: "cl_ok cl \<Longrightarrow> cl_heap cl' = cl_heap cl \<Longrightarrow> cl_mt cl' = cl_mt cl \<Longrightarrow> cl_step cl cl'"
  by (simp add: cl_step_def cl_ok_def cl_segs_def)

lemma cl_step_trans: "cl_step cl cl' \<Longrightarrow> cl_step cl' cl'' \<Longrightarrow> cl_step cl cl''"
  by (auto simp: cl_step_def)

lemma dev_log_sel [simp]: "sv_heap (dev_log c sv) = sv_heap sv" "sv_mt (dev_log c sv) = sv_mt sv" "sv_segs (dev_log c sv) = sv_segs sv"
  by (simp_all add: dev_log_def sv_segs_def)

lemma sv_step_log: "sv_step sv sv' \<Longrightarrow> sv_step sv (dev_log c sv')"
  by (simp add: sv_step_def sv_ok_def)

lemma serve_setattr: "sv_ok sv \<Longrightarrow> ok (serve se (M_setattr a) sv) (\<lambda>(r, sv'). sv_step sv sv')"
  by (auto simp: Let_def dev_log_def split: prod.splits intro!: sv_step_same)

lemma serve_cq_create: "sv_ok sv \<Longrightarrow> ok (serve se (M_cq_create c) sv) (\<lambda>(r, sv'). sv_step sv sv')"
  using sv_vaddr_Some[of sv "cc_queue c"] by (auto simp: Let_def dev_log_def split: prod.splits intro!: sv_step_same)

lemma serve_post_rdma: "sv_ok sv \<Longrightarrow> ok (serve se (M_post_rdma d a) sv) (\<lambda>(r, sv'). sv_step sv sv')"
  using sv_vaddr_Some[of sv "pd_local_addr d"] by (auto simp: Let_def dev_log_def intro!: sv_step_same)

lemma serve_small:
  assumes "sv_ok sv" and "msg \<in> {M_getsize n, M_getrank n, M_finalize, M_barrier, M_cq_wait_event w, M_cq_destroy d}"
  shows "ok (serve se msg sv) (\<lambda>(r, sv'). sv_step sv sv')"
  using assms by (auto intro!: sv_step_same)

lemma allgather_sv: "allgather se i out n sv = Some (x, sv') \<Longrightarrow> sv_heap sv' = sv_heap sv \<and> sv_mt sv' = sv_mt sv"
  by (cases "case sv_ivec sv of Some v \<Rightarrow> v | None \<Rightarrow> (PMI_size se, PMI_Allgather_rank se (PMI_rank se))")
    (auto simp: allgather_def bind_eq_Some_conv split: if_splits)

lemma serve_allgather:
  assumes "sv_ok sv" and "serve se (M_allgather b) sv = Some (r, sv')"
  shows "sv_step sv sv'"
  using assms by (auto simp: bind_eq_Some_conv split: if_splits dest!: allgather_sv intro!: sv_step_same)

lemma serve_register:
  assumes "sv_ok sv" and "\<forall>p. node_mem se = Some p \<longrightarrow> segs (sv_heap sv) p = None" and "mr_address r \<notin> fst ` set (sv_segs sv)"
  shows "ok (serve se (M_mem_register r) sv) (\<lambda>(x, sv'). sv_step sv sv' \<and> (mr_segments_cnt r = 1 \<longrightarrow> node_mem se \<noteq> None \<longrightarrow>
    (\<exists>m. x = Answer m) \<longrightarrow> (mr_address r, xemem_attach se (xemem_get se (mr_address r)) (mr_length r), mr_length r) \<in> set (sv_segs sv')))"
proof -
  let ?apid = "xemem_get se (mr_address r)"
  let ?b = "xemem_attach se ?apid (mr_length r)"
  have same: "sv_step sv sv" using assms(1) by (simp add: sv_step_same)
  show ?thesis
  proof (cases "mr_segments_cnt r = 1 \<and> \<not> ?apid \<le> 0 \<and> ?b \<noteq> MAP_FAILED")
    case True
    from sv_add_ok[OF assms, of ?b "mr_length r"] obtain sv' where "sv_add se (mr_address r) ?b (mr_length r) sv = Some sv'" "sv_step sv sv'"
      "node_mem se \<noteq> None \<longrightarrow> (mr_address r, ?b, mr_length r) \<in> set (sv_segs sv')" by (auto simp: sv_step_def)
    with True show ?thesis by (simp add: Let_def sv_step_log split: prod.splits)
  next
    case False
    with same show ?thesis by (auto simp: Let_def sv_step_log split: prod.splits)
  qed
qed

lemma attach_windows_step:
  assumes "cl_ok cl" and "adds_ok (window_adds ce ws k) (cl_heap cl) (cl_segs cl)"
  shows "ok (attach_windows ce ws k cl) (\<lambda>(ps, cl'). cl_step cl cl')"
  using assms
proof (induction ws arbitrary: k cl)
  case Nil
  then show ?case by (simp add: cl_step_same)
next
  case (Cons w ws)
  obtain name sz where w: "w = (name, sz)" by (cases w) auto
  let ?seg = "xemem_lookup_segid ce name"
  let ?p = "xemem_attach_nocache ce (cl_xemem_get ce ?seg) sz"
  have split: "window_adds ce (w # ws) k = (cl_node_mem ce k, (?seg, ?p, FMA_WINDOW_SIZE)) # window_adds ce ws (Suc k)"
    by (simp add: window_adds_def w upt_conv_Cons Let_def del: upt_Suc)
  from cl_add_ok[OF Cons.prems(1) Cons.prems(2)[unfolded split]] obtain cl' where
    c: "cl_add (cl_node_mem ce k) ?seg ?p FMA_WINDOW_SIZE cl = Some cl'" "cl_ok cl'" "cl_step cl cl'"
      "adds_ok (window_adds ce ws (Suc k)) (cl_heap cl') (cl_segs cl')" by (auto simp: cl_step_def)
  from okD[OF Cons.IH[OF c(2,4)]] obtain ps cl'' where "attach_windows ce ws (Suc k) cl' = Some (ps, cl'')" "cl_step cl' cl''" by auto
  with c Cons.prems(1) cl_step_trans[OF c(3)] show ?case by (auto simp: w Let_def cl_step_same)
qed

definition fw_step :: "fw \<Rightarrow> fw \<Rightarrow> bool" where
  "fw_step s s' \<longleftrightarrow> cl_step (fw_cl s) (fw_cl s') \<and> sv_step (fw_sv s) (fw_sv s')"

text \<open>The calls other than attach, registration and gather translate an address at most.\<close>

lemma handle_plain:
  assumes c: "cl_ok cl" and s: "sv_ok sv" and req: "\<forall>a. req \<noteq> Req_setattr a" "\<forall>a. req \<noteq> Req_mem_register a" "\<forall>g. req \<noteq> Req_allgather g"
  shows "ok (handle_ioctl ce (serve se) req cl sv) (\<lambda>(r, cl', sv'). cl_step cl cl' \<and> sv_step sv sv')"
proof -
  have same: "cl_step cl cl'" if "cl_heap cl' = cl_heap cl" "cl_mt cl' = cl_mt cl" for cl' using c that by (rule cl_step_same)
  have "ok (pack_args ce (serve se) req cl sv) (\<lambda>(r, cl', sv'). cl_step cl cl' \<and> sv_step sv sv' \<and> (\<forall>a. r \<noteq> Some (Req_setattr a)))"
  proof (cases req)
    case (Req_cq_create x)
    from cl_segid_Some[OF c] obtain i where "cl_segid cl (cc_queue x) = Some i" by blast
    moreover from okD[OF serve_cq_create[OF s, of se "x\<lparr>cc_queue := i\<rparr>"]] obtain r sv' where
      "serve se (M_cq_create (x\<lparr>cc_queue := i\<rparr>)) sv = Some (r, sv')" "sv_step sv sv'" by auto
    ultimately show ?thesis by (simp add: Req_cq_create pack_args_def same del: serve.simps split: outcome.splits hcq_msg.splits)
  next
    case (Req_cq_wait_event w)
    from cl_segid_Some[OF c] obtain i where "cl_segid cl (cw_next_event_ptr w) = Some i" by blast
    then show ?thesis by (simp add: Req_cq_wait_event pack_args_def same sv_step_same[OF s])
  next
    case (Req_post_rdma a d)
    from cl_segid_Some[OF c] obtain i where "cl_segid cl (pd_local_addr d) = Some i" by blast
    moreover from okD[OF serve_post_rdma[OF s, of se "d\<lparr>pd_local_addr := i\<rparr>" a]] obtain r sv' where
      "serve se (M_post_rdma (d\<lparr>pd_local_addr := i\<rparr>) a) sv = Some (r, sv')" "sv_step sv sv'" by auto
    ultimately show ?thesis by (simp add: Req_post_rdma pack_args_def same del: serve.simps split: outcome.splits)
  qed (use req in \<open>simp_all add: pack_args_def same sv_step_same[OF s]\<close>)
  then show ?thesis
    unfolding handle_ioctl_def ok_bind
    by (rule ok_mono) (auto simp: unpack_args_def split: option.splits request.splits)
qed

lemma handle_setattr:
  assumes c: "cl_ok cl" and s: "sv_ok sv" and w: "adds_ok (window_adds ce fma_windows 0) (cl_heap cl) (cl_segs cl)"
  shows "ok (handle_ioctl ce (serve se) (Req_setattr a) cl sv) (\<lambda>(r, cl', sv'). cl_step cl cl' \<and> sv_step sv sv')"
proof -
  from okD[OF serve_setattr[OF s, of se a]] obtain r sv' where r: "serve se (M_setattr a) sv = Some (r, sv')" "sv_step sv sv'" by auto
  from okD[OF attach_windows_step[OF c w]] obtain ps cl' where "attach_windows ce fma_windows 0 cl = Some (ps, cl')" "cl_step cl cl'" by auto
  then have "ok (unpack_args ce (Req_setattr a') cl) (\<lambda>(r, cl'). cl_step cl cl')" for a'
    by (auto simp: unpack_args_def split: option.splits list.splits)
  with r c show ?thesis
    by (auto simp: handle_ioctl_def pack_args_def ok_def cl_step_same simp del: serve.simps split: outcome.splits hcq_msg.splits)
      (metis (no_types, lifting) bind.bind_lunit case_prod_conv)
qed

lemma handle_register:
  assumes c: "cl_ok cl" and s: "sv_ok sv" and seg: "seg = cl_xemem_make ce (mr_address a) (mr_length a)"
    and add: "adds_ok [(cl_node_mem ce 0, (seg, mr_address a, mr_length a))] (cl_heap cl) (cl_segs cl)"
    and mem: "\<forall>p. node_mem se = Some p \<longrightarrow> segs (sv_heap sv) p = None" and new: "seg \<notin> fst ` set (sv_segs sv)"
  shows "ok (handle_ioctl ce (serve se) (Req_mem_register a) cl sv) (\<lambda>(r, cl', sv'). cl_step cl cl' \<and> sv_step sv sv' \<and>
    (r \<noteq> None \<longrightarrow> mr_segments_cnt a = 1 \<longrightarrow> cl_node_mem ce 0 \<noteq> None \<longrightarrow> node_mem se \<noteq> None \<longrightarrow>
       (seg, mr_address a, mr_length a) \<in> set (cl_segs cl') \<and>
       (seg, xemem_attach se (xemem_get se seg) (mr_length a), mr_length a) \<in> set (sv_segs sv')))"
proof -
  from cl_add_ok[OF c add] obtain cl' where cl': "cl_add (cl_node_mem ce 0) seg (mr_address a) (mr_length a) cl = Some cl'" "cl_step cl cl'"
    "cl_node_mem ce 0 \<noteq> None \<longrightarrow> (seg, mr_address a, mr_length a) \<in> set (cl_segs cl')" by (auto simp: cl_step_def)
  from okD[OF serve_register[OF s mem, of "a\<lparr>mr_address := seg\<rparr>"]] new obtain r sv' where
    r: "serve se (M_mem_register (a\<lparr>mr_address := seg\<rparr>)) sv = Some (r, sv')" "sv_step sv sv'"
      "mr_segments_cnt a = 1 \<longrightarrow> node_mem se \<noteq> None \<longrightarrow> (\<exists>m. r = Answer m) \<longrightarrow>
         (seg, xemem_attach se (xemem_get se seg) (mr_length a), mr_length a) \<in> set (sv_segs sv')" by auto
  with cl' show ?thesis
    by (auto simp: handle_ioctl_def pack_args_def unpack_args_def seg[symmetric] simp del: serve.simps split: outcome.splits hcq_msg.splits)
qed

lemma handle_allgather:
  assumes "cl_ok cl" and s: "sv_ok sv" and r: "handle_ioctl ce (serve se) (Req_allgather g) cl sv = Some (r, cl', sv')"
  shows "cl_step cl cl' \<and> sv_step sv sv'"
proof -
  let ?inp = "if unat (ga_in_data_len g) = MDH_ADDR_SIZE then do {
      seg \<leftarrow> cl_segid cl (mdh_addr (ga_in_data g)); Some (set_mdh_addr seg (ga_in_data g)) } else Some (ga_in_data g)"
  from r obtain inp where i: "?inp = Some inp"
    by (cases ?inp) (simp_all add: handle_ioctl_def pack_args_def)
  let ?b = "take (unat (ga_in_data_len g)) inp"
  from r i have "serve se (M_allgather ?b) sv \<noteq> None"
    by (cases "serve se (M_allgather ?b) sv") (simp_all add: handle_ioctl_def pack_args_def del: serve.simps)
  then obtain x sv'' where x: "serve se (M_allgather ?b) sv = Some (x, sv'')" by (cases "serve se (M_allgather ?b) sv") auto
  have "cl' = cl \<and> sv'' = sv'"
  proof (cases x)
    case (Answer m)
    with r i x show ?thesis
      by (cases m) (auto simp: handle_ioctl_def pack_args_def unpack_args_def Let_def simp del: serve.simps split: if_split_asm)
  qed (use r i x in \<open>simp_all add: handle_ioctl_def pack_args_def del: serve.simps\<close>)
  with serve_allgather[OF s] cl_step_same[OF assms(1)] x show ?thesis by blast
qed

lemma fw_exec_step:
  assumes "fw_inv s" and "fw_pre op s"
  shows "ok (fw_exec op s) (fw_step s)"
proof -
  obtain ce se req where op: "op = Fw ce se req" by (cases op)
  have c: "cl_ok (fw_cl s)" and sv: "sv_ok (fw_sv s)" using assms(1) by (simp_all add: fw_inv_def)
  have "ok (handle_ioctl ce (serve se) req (fw_cl s) (fw_sv s)) (\<lambda>(r, cl', sv'). cl_step (fw_cl s) cl' \<and> sv_step (fw_sv s) sv')"
  proof (cases req)
    case (Req_setattr a)
    with assms(2) op show ?thesis by (simp add: handle_setattr[OF c sv])
  next
    case (Req_mem_register a)
    with assms(2) op show ?thesis by (auto simp: Let_def intro!: ok_mono[OF handle_register[OF c sv refl]])
  next
    case (Req_allgather g)
    with assms(2) op handle_allgather[OF c sv] show ?thesis by (fastforce simp: ok_def)
  qed (use handle_plain[OF c sv] in \<open>simp_all\<close>)
  then show ?thesis by (auto simp: op ok_def fw_step_def)
qed

lemma fw_step_inv: "fw_step s s' \<Longrightarrow> fw_inv s'"
  by (simp add: fw_step_def cl_step_def sv_step_def fw_inv_def)

interpretation fwm: safe_machine_with fw_pre fw_exec fw_inv "\<lambda>s. C \<subseteq> set (cl_segs (fw_cl s)) \<and> S \<subseteq> set (sv_segs (fw_sv s))"
proof unfold_locales
  fix op s assume "fw_inv s" "fw_pre op s"
  then show "ok (fw_exec op s) fw_inv" by (rule ok_mono[OF fw_exec_step fw_step_inv])
next
  fix s op s' assume "fw_inv s" "C \<subseteq> set (cl_segs (fw_cl s)) \<and> S \<subseteq> set (sv_segs (fw_sv s))" "fw_pre op s" "fw_exec op s = Some s'"
  with fw_exec_step[of s op] show "C \<subseteq> set (cl_segs (fw_cl s')) \<and> S \<subseteq> set (sv_segs (fw_sv s'))"
    by (auto simp: fw_step_def cl_step_def sv_step_def)
qed

definition fw_start :: "gni_nic_setattr_io \<Rightarrow> fw" where
  "fw_start attr =
     \<lparr>fw_cl = \<lparr>cl_heap = ml_start 0, cl_mt = Some 0, cl_comm_size = 0, cl_my_rank = 0\<rparr>,
      fw_sv = \<lparr>sv_heap = ml_start 0, sv_mt = Some 0, sv_attr = attr, sv_ivec = None, sv_dev = []\<rparr>, fw_blocked = False\<rparr>"

lemma fw_start_inv: "fw_inv (fw_start attr)"
  by (simp add: fw_start_def fw_inv_def cl_ok_def sv_ok_def cl_segs_def sv_segs_def ml_start_inv)

text \<open>What a registered region and the address of a later call become.\<close>

lemma post_rdma_reaches:
  assumes "cl_ok cl" "sv_ok sv" and "(i, a, n) \<in> set (cl_segs cl)" and "(i, b, m) \<in> set (sv_segs sv)" and "hit (pd_local_addr d) (i, a, n)"
  shows "\<exists>r cl' sv'. handle_ioctl ce (serve se) (Req_post_rdma args d) cl sv = Some (r, cl', sv') \<and>
    sv_dev sv' = sv_dev sv @ [Dev_post_rdma (args\<lparr>ra_post_desc := post_desc_ptr se\<rparr>) (d\<lparr>pd_local_addr := b\<rparr>)] \<and>
    (dev_post_rdma se (args\<lparr>ra_post_desc := post_desc_ptr se\<rparr>) (d\<lparr>pd_local_addr := b\<rparr>) \<ge> 0 \<longrightarrow>
       r = Some (Req_post_rdma args (d\<lparr>pd_local_addr := i\<rparr>)))"
  using segid_at_hit[OF assms(1,3,5)] vaddr_of_seg[OF assms(2,4)]
  by (simp add: handle_ioctl_def pack_args_def unpack_args_def Let_def dev_log_def)

lemma cq_create_reaches:
  assumes "cl_ok cl" "sv_ok sv" and "(i, a, n) \<in> set (cl_segs cl)" and "(i, b, m) \<in> set (sv_segs sv)" and "hit (cc_queue c) (i, a, n)"
  shows "\<exists>r cl' sv'. handle_ioctl ce (serve se) (Req_cq_create c) cl sv = Some (r, cl', sv') \<and>
    sv_dev sv' = sv_dev sv @ [Dev_cq_create (c\<lparr>cc_queue := b\<rparr>)]"
  using segid_at_hit[OF assms(1,3,5)] vaddr_of_seg[OF assms(2,4)]
  by (auto simp: handle_ioctl_def pack_args_def unpack_args_def Let_def dev_log_def split: prod.splits)

end
