(* ===== verification/Forward_Props.thy ===== *)
theory Forward_Props
  imports Forward_Inv
begin

text \<open>
  The properties of the forwarding layer, with an example of a client that registers memory.
\<close>

section \<open>Registered memory\<close>


section \<open>Commands without an answer\<close>


section \<open>The gather\<close>

lemma concat_blocks_length: "\<forall>r \<in> set rs. length (f r) = n \<Longrightarrow> length (concat (map f rs)) = length rs * n"
  by (induction rs) auto

lemma concat_blocks_nth:
  "\<forall>r \<in> set rs. length (f r) = n \<Longrightarrow> i < length rs \<Longrightarrow> take n (drop (i * n) (concat (map f rs))) = f (rs ! i)"
  by (induction rs arbitrary: i) (auto simp: nth_Cons' drop_Cons' less_Suc_eq_0_disj)

lemma concat_blocks_upd:
  assumes "\<forall>r < k. length (f r) = n" and "r < k" and "length b = n"
  shows "take (n * r) (concat (map f [0..<k])) @ b @ drop (n * r + n) (concat (map f [0..<k])) = concat (map (f(r := b)) [0..<k])"
proof -
  have k: "[0..<k] = [0..<r] @ r # [Suc r..<k]" using assms(2) by (metis upt_add_eq_append upt_conv_Cons less_imp_add_positive le0 less_imp_le add_0 add.commute)
  have "length (concat (map f [0..<r])) = n * r" using assms(1,2) by (subst concat_blocks_length[of _ _ n]) auto
  moreover have "map (f(r := b)) [0..<r] = map f [0..<r]" "map (f(r := b)) [Suc r..<k] = map f [Suc r..<k]" by auto
  moreover have "length (f r) = n" using assms by simp
  ultimately show ?thesis unfolding k by simp
qed

lemma gather_loop_blocks:
  assumes "\<forall>r \<in> set order. length (blk r) = n" and "order = done @ rs" and "set order \<subseteq> {..<k}" and "\<forall>r < k. length (f r) = n"
  shows "gather_loop n (concat (map blk order)) rs (length done) (concat (map f [0..<k])) =
    Some (concat (map (\<lambda>r. if r \<in> set rs then blk r else f r) [0..<k]))"
  using assms
proof (induction rs arbitrary: "done" f)
  case (Cons r rs)
  have r: "r < k" "r \<in> set order" using Cons.prems by auto
  have len: "length (concat (map f [0..<k])) = k * n" using Cons.prems(4) by (subst concat_blocks_length[of _ _ n]) auto
  have "length (concat (map blk order)) = length order * n" using Cons.prems(1) by (rule concat_blocks_length)
  then have l2: "length done * n + n \<le> length (concat (map blk order))" using Cons.prems(2) by (simp add: algebra_simps)
  have l1: "n * r + n \<le> k * n" using r(1) by (metis Suc_leI mult.commute mult_Suc_right add.commute mult_le_mono1)
  have t: "take n (drop (length done * n) (concat (map blk order))) = blk r"
    using concat_blocks_nth[OF Cons.prems(1), of "length done"] Cons.prems(2) by simp
  have "gather_loop n (concat (map blk order)) rs (length (done @ [r])) (concat (map (f(r := blk r)) [0..<k])) =
      Some (concat (map (\<lambda>x. if x \<in> set rs then blk x else (f(r := blk r)) x) [0..<k]))"
    using Cons.prems r by (intro Cons.IH) auto
  moreover have "(\<lambda>x. if x \<in> set rs then blk x else (f(r := blk r)) x) = (\<lambda>x. if x \<in> set (r # rs) then blk x else f x)" by auto
  moreover have "n * r + n \<le> length (concat (map f [0..<k])) \<and> length done * n + n \<le> length (concat (map blk order))"
    using l1 l2 len by simp
  moreover have "take (n * r) (concat (map f [0..<k])) @ blk r @ drop (n * r + n) (concat (map f [0..<k])) = concat (map (f(r := blk r)) [0..<k])"
    using Cons.prems(1,4) r by (intro concat_blocks_upd) simp_all
  ultimately show ?case by (simp only: gather_loop.simps GASSERT_bind if_True t length_append_singleton simp_thms)
qed simp

lemma blocks_of: "length out = k * n \<Longrightarrow> concat (map (\<lambda>r. take n (drop (r * n) out)) [0..<k]) = out"
proof (induction k arbitrary: out)
  case (Suc k)
  have "concat (map (\<lambda>r. take n (drop (r * n) (take (k * n) out))) [0..<k]) = take (k * n) out" using Suc by simp
  moreover have "map (\<lambda>r. take n (drop (r * n) (take (k * n) out))) [0..<k] = map (\<lambda>r. take n (drop (r * n) out)) [0..<k]"
  proof (rule map_cong[OF refl])
    fix r assume "r \<in> set [0..<k]"
    then have "n + r * n \<le> k * n" by (metis Suc_leI atLeastLessThan_iff mult_Suc mult_le_mono1 set_upt)
    then have "min n (k * n - r * n) = n" by linarith
    then show "take n (drop (r * n) (take (k * n) out)) = take n (drop (r * n) out)" by (simp only: drop_take take_take)
  qed
  ultimately show ?case using Suc.prems by simp
qed simp

text \<open>
  C28. The server returns what all processes of the job contributed in the order of their ranks, whatever the order in which the
  process management interface gathers: with the order of the ranks that it remembers from its first gather, or finds out
  now, it puts the block of each rank into the place of that rank and leaves no byte of the result unset.
\<close>

theorem gather_in_rank_order:
  assumes "distinct order" and "set order = {..<PMI_size env}"
    and "sv_ivec sv = Some (PMI_size env, order) \<or> sv_ivec sv = None \<and> PMI_Allgather_rank env (PMI_rank env) = order"
    and "PMI_Allgather env inp = concat (map blk order)" and "\<forall>r < PMI_size env. length (blk r) = n"
    and "length out = PMI_size env * n"
  shows "allgather env inp out n sv = Some (concat (map blk [0..<PMI_size env]), sv\<lparr>sv_ivec := Some (PMI_size env, order)\<rparr>)"
proof -
  let ?k = "PMI_size env" and ?f = "\<lambda>r. take n (drop (r * n) out)"
  have k: "length order = ?k" using assms(1,2) distinct_card by fastforce
  have f: "length (?f r) = n" if "r < ?k" for r
  proof -
    have "r * n + n \<le> ?k * n" using that by (metis Suc_leI mult_Suc mult_le_mono1 add.commute)
    then show ?thesis using assms(6) by simp
  qed
  have "gather_loop n (concat (map blk order)) order (length ([] :: nat list)) (concat (map ?f [0..<?k])) =
      Some (concat (map (\<lambda>r. if r \<in> set order then blk r else ?f r) [0..<?k]))"
    using assms(2,5) f by (intro gather_loop_blocks) auto
  moreover have "map (\<lambda>r. if r \<in> set order then blk r else ?f r) [0..<?k] = map blk [0..<?k]" using assms(2) by auto
  ultimately have "gather_loop n (PMI_Allgather env inp) order 0 out = Some (concat (map blk [0..<?k]))"
    using blocks_of[OF assms(6)] assms(4) by simp
  with assms(3) k show ?thesis by (auto simp: allgather_def)
qed

section \<open>An example\<close>

definition ex_attr :: gni_nic_setattr_io where
  "ex_attr = \<lparr>sa_ptag = 0, sa_cookie = 0, sa_rank = 0, sa_modes = 0, sa_nic_pe = 0, sa_cq_revisit_mode = 0, sa_fma_window = 0,
     sa_fma_window_nwc = 0, sa_fma_window_get = 0, sa_fma_ctrl = 0, sa_datagram_counter = 0\<rparr>"


text \<open>The job has two processes, and the process management interface gathers rank 1 before rank 0.\<close>

definition ex_se :: srv_env where
  "ex_se = \<lparr>dev_setattr = (\<lambda>a. (0, a)), dev_register = (\<lambda>a. (0, a)), dev_cq_create = (\<lambda>c. (0, c)), dev_post_rdma = (\<lambda>_ _. 0),
     xemem_make = (\<lambda>_ _. 7), xemem_get = (\<lambda>_. 1), xemem_attach = (\<lambda>_ _. 0x9000), node_mem = Some 1, posix_memalign = (\<lambda>_. None),
     fresh_bytes = (\<lambda>n. replicate n 0), post_desc_ptr = 0x20, alps_cookie = 0, alps_ptag = 0, instance_id = 0, PMI_size = 2, PMI_rank = 0,
     PMI_Allgather_rank = (\<lambda>_. [1, 0]), PMI_Allgather = (\<lambda>b. [8, 9] @ b)\<rparr>"







theorem gather_in_rank_order_witness:
  "allgather ex_se [3, 4] (replicate 4 0) 2 (fw_sv (fw_start ex_attr)) = Some ([3, 4, 8, 9], (fw_sv (fw_start ex_attr))\<lparr>sv_ivec := Some (2, [1, 0])\<rparr>)"
proof -
  let ?blk = "\<lambda>r :: nat. if r = 0 then [3, 4 :: u8] else [8, 9]"
  have k: "PMI_size ex_se = 2" by (simp add: ex_se_def)
  have "allgather ex_se [3, 4] (replicate 4 0) 2 (fw_sv (fw_start ex_attr)) =
      Some (concat (map ?blk [0..<PMI_size ex_se]), (fw_sv (fw_start ex_attr))\<lparr>sv_ivec := Some (PMI_size ex_se, [1, 0])\<rparr>)"
    by (rule gather_in_rank_order) (auto simp: ex_se_def fw_start_def)
  then show ?thesis by (simp add: k upt_rec)
qed

section \<open>The identity of a process\<close>

lemma take_bit_small: "x < 2 ^ n \<Longrightarrow> take_bit n (x :: u32) = x"
  by (simp add: take_bit_eq_mod mod_word_less)

lemma instid_masks: "x AND 0x3FFFFF = take_bit 22 x" "x AND 0x7F = take_bit 7 x" "x AND 0x7 = take_bit 3 x" for x :: u32
  by (simp_all add: take_bit_eq_mask mask_eq_exp_minus_1)

lemma instid_fields:
  "take_bit 3 (GNI_INSTID nic cpu thr) = take_bit 3 thr" "take_bit 7 (drop_bit 3 (GNI_INSTID nic cpu thr)) = take_bit 7 cpu"
  "drop_bit 10 (GNI_INSTID nic cpu thr) = take_bit 22 nic"
  unfolding GNI_INSTID_def NIC_ADDR_SHIFT_def CPU_NUM_SHIFT_def instid_masks by (rule bit_eqI; auto simp: bit_simps)+

lemma cpunum_loop_snoc: "cpunum_loop (bs @ [b]) i c = (if b then Some (i + length bs) else cpunum_loop bs i c)"
  by (induction bs arbitrary: i c) auto

lemma get_cpunum_highest:
  "get_cpunum cpus = Some m \<longleftrightarrow> m < length cpus \<and> cpus ! m \<and> (\<forall>j. m < j \<and> j < length cpus \<longrightarrow> \<not> cpus ! j)"
  unfolding get_cpunum_def
  by (induction cpus rule: rev_induct) (auto simp: cpunum_loop_snoc nth_append less_Suc_eq)

text \<open>
  C38. The instance id under which the server attaches determines the address of the NIC, the processor and the thread, as long as
  they fit their 22, 7 and 3 bits; and the processor is the highest one that the thread may run on, although the report
  of the code says that the lowest one is used.
\<close>

theorem instance_id_unique:
  assumes "nic < 2 ^ 22" "nic' < 2 ^ 22" "cpu < 2 ^ 7" "cpu' < 2 ^ 7" "thr < 2 ^ 3" "thr' < 2 ^ 3"
  shows "(GNI_INSTID nic cpu thr = GNI_INSTID nic' cpu' thr' \<longleftrightarrow> nic = nic' \<and> cpu = cpu' \<and> thr = thr') \<and>
    (get_cpunum cpus = Some m \<longleftrightarrow> m < length cpus \<and> cpus ! m \<and> (\<forall>j. m < j \<and> j < length cpus \<longrightarrow> \<not> cpus ! j))"
proof -
  have "nic = nic' \<and> cpu = cpu' \<and> thr = thr'" if e: "GNI_INSTID nic cpu thr = GNI_INSTID nic' cpu' thr'"
  proof -
    note small = take_bit_small[OF assms(1)] take_bit_small[OF assms(2)] take_bit_small[OF assms(3)] take_bit_small[OF assms(4)]
      take_bit_small[OF assms(5)] take_bit_small[OF assms(6)]
    from arg_cong[OF e, of "drop_bit 10"] have "nic = nic'" by (simp only: instid_fields small)
    moreover from arg_cong[OF e, of "\<lambda>x. take_bit 7 (drop_bit 3 x)"] have "cpu = cpu'" by (simp only: instid_fields small)
    moreover from arg_cong[OF e, of "take_bit 3"] have "thr = thr'" by (simp only: instid_fields small)
    ultimately show ?thesis by blast
  qed
  then show ?thesis using get_cpunum_highest by blast
qed

theorem instance_id_unique_witness:
  "GNI_INSTID 5 3 0 \<noteq> GNI_INSTID 5 4 0 \<and> get_cpunum [False, True, True, False] = Some 2"
proof -
  have h: "(5 :: u32) < 2 ^ 22" "(3 :: u32) < 2 ^ 7" "(4 :: u32) < 2 ^ 7" "(0 :: u32) < 2 ^ 3" by simp_all
  have "get_cpunum [False, True, True, False] = Some 2 \<longleftrightarrow> True"
    using instance_id_unique[OF h(1,1,2,3,4,4), of "[False, True, True, False]" 2] by (auto simp: less_Suc_eq numeral_eq_Suc)
  with instance_id_unique[OF h(1,1,2,3,4,4)] show ?thesis by simp
qed

end
