(* ===== verification/Rx.thy ===== *)
theory Rx
  imports Machine
begin

text \<open>
  The receiving half of a channel of the block transfer engine (\<open>kgni_main.c\<close>): the ring of receive descriptors and their buffers, the
  interrupt handler that takes completed packets from the ring, in place or by copy, the tasklet that hands them to the channels,
  and the allocation, release and stop of the ring. Buffers are objects on an explicit heap: an access to a freed buffer, to NULL or
  outside a buffer gives no result. The 0xFF with which a new buffer is filled is left out, since nothing reads it.
\<close>

section \<open>The state of a receive channel\<close>

type_synonym packet = "u8 list"

text \<open>
  A receive buffer: its size, the packet that the NIC has written to it, and the packet descriptor that the driver keeps at its
  beginning, which has the place of the payload, its length and the immediate data.
\<close>

record kgni_rx_buff =
  rb_size :: nat
  rb_payload :: packet
  rb_data_ptr :: nat
  rb_pkt_len :: nat
  rb_immediate :: u64

record kgni_buffer =
  buff_ptr :: "addr option"
  data_ptr :: nat

text \<open>A receive descriptor of the virtual channel: its status, length and immediate data, and the address of its buffer.\<close>

record ghal_rx_desc =
  rd_complete :: bool
  rd_error :: bool
  rd_immed :: bool
  rd_length :: nat
  rd_immediate :: u64
  rd_base_addr :: nat

text \<open>
  The receiving half of \<open>kgni_bte_ctrl_t\<close> with the memory of the buffers: \<open>given\<close> are the buffers that the handlers of channels have
  taken over, \<open>delivered\<close> what was handed to them, \<open>hw_next\<close> the descriptor that the NIC fills next.
\<close>

record rx_ctrl =
  rx_next_to_use :: nat
  rx_next_to_clean :: nat
  rx_buffer_info :: "kgni_buffer list"
  rxds :: "ghal_rx_desc list"
  wr_index :: "nat option"
  rxq :: "addr list"
  rx_tasklet :: bool
  bufs :: "addr \<rightharpoonup> kgni_rx_buff"
  given :: "addr list"
  delivered :: "(nat \<times> packet \<times> u64) list"
  hw_next :: nat

abbreviation rx_count :: "rx_ctrl \<Rightarrow> nat" where
  "rx_count s \<equiv> length (rx_buffer_info s)"

text \<open>
  Parameters: the sizes, the switches of the device, whether a descriptor reads back as written in a given try, which channel
  has a handler and is the destination of immediate data, and what the handler answers.
\<close>

record rx_env =
  SIZEOF_PKTDSC :: nat
  GHAL_BTE_RX_ALLIGMENT :: nat
  rx_buff_size :: nat
  copyout_data_on :: bool
  do_rx_readback :: bool
  readback_equal :: "nat \<Rightarrow> nat \<Rightarrow> bool"
  KGNI_MAX_CHNL_NUMBER :: nat
  chnl_dest :: "nat \<Rightarrow> u64 \<Rightarrow> bool"
  rcv_handled :: "nat \<Rightarrow> packet \<Rightarrow> bool"

definition ALIGN :: "nat \<Rightarrow> nat \<Rightarrow> nat" where
  "ALIGN x a = (x + a - 1) div a * a"

definition next_entry :: "rx_ctrl \<Rightarrow> nat \<Rightarrow> nat" where
  "next_entry s i = (if Suc i = rx_count s then 0 else Suc i)"

definition kfree :: "addr \<Rightarrow> rx_ctrl \<Rightarrow> rx_ctrl run" where
  "kfree p s = do { _ \<leftarrow> bufs s p; Some (s\<lparr>bufs := (bufs s)(p := None)\<rparr>) }"

definition upd_info :: "nat \<Rightarrow> (kgni_buffer \<Rightarrow> kgni_buffer) \<Rightarrow> rx_ctrl \<Rightarrow> rx_ctrl" where
  "upd_info i f s = s\<lparr>rx_buffer_info := (rx_buffer_info s)[i := f (rx_buffer_info s ! i)]\<rparr>"

definition upd_rxd :: "nat \<Rightarrow> (ghal_rx_desc \<Rightarrow> ghal_rx_desc) \<Rightarrow> rx_ctrl \<Rightarrow> rx_ctrl" where
  "upd_rxd i f s = s\<lparr>rxds := (rxds s)[i := f (rxds s ! i)]\<rparr>"

text \<open>\<open>GHAL_VC_CLEAR_RXD_STATUS\<close> sets the flags to 0; length, immediate data and address stay.\<close>

definition clear_status :: "ghal_rx_desc \<Rightarrow> ghal_rx_desc" where
  "clear_status d = d\<lparr>rd_complete := False, rd_error := False, rd_immed := False\<rparr>"

declare clear_status_def [simp]

section \<open>Allocation of buffers\<close>

text \<open>A descriptor is written and read back up to eleven times; the eleventh difference is fatal.\<close>

fun readback_loop :: "rx_env \<Rightarrow> nat \<Rightarrow> nat list \<Rightarrow> unit run" where
  "readback_loop env i [] = Some ()"
| "readback_loop env i (check_num # cs) =
     (if do_rx_readback env then
        if \<not> readback_equal env i check_num then
          if check_num = 10 then GASSERT False else readback_loop env i cs
        else Some ()
      else Some ())"

definition post_buff :: "rx_env \<Rightarrow> addr \<Rightarrow> nat \<Rightarrow> rx_ctrl \<Rightarrow> rx_ctrl run" where
  "post_buff env p i s =
     (let buff_size = rx_buff_size env + SIZEOF_PKTDSC env + GHAL_BTE_RX_ALLIGMENT env;
          data = ALIGN (p + SIZEOF_PKTDSC env) (GHAL_BTE_RX_ALLIGMENT env);
          s = s\<lparr>bufs := (bufs s)(p \<mapsto> \<lparr>rb_size = buff_size, rb_payload = [], rb_data_ptr = 0, rb_pkt_len = 0, rb_immediate = 0\<rparr>)\<rparr>;
          s = upd_info i (\<lambda>b. b\<lparr>buff_ptr := Some p, data_ptr := data\<rparr>) s;
          s = upd_rxd i (\<lambda>d. (clear_status d)\<lparr>rd_base_addr := data\<rparr>) s
      in do {
        _ \<leftarrow> readback_loop env i [0..<11];
        Some s
      })"

text \<open>The loop over the empty entries; \<open>mems\<close> are the buffers that \<open>kmalloc\<close> returns, after them it fails.\<close>

fun alloc_loop :: "rx_env \<Rightarrow> addr list \<Rightarrow> nat \<Rightarrow> u16 \<Rightarrow> rx_ctrl \<Rightarrow> (nat \<times> u16 \<times> rx_ctrl) run" where
  "alloc_loop env [] i last_entry s = do { _ \<leftarrow> array_get (rx_buffer_info s) i; Some (i, last_entry, s) }"
| "alloc_loop env (p # mems) i last_entry s = do {
     b \<leftarrow> array_get (rx_buffer_info s) i;
     (case buff_ptr b of
        Some _ \<Rightarrow> Some (i, last_entry, s)
      | None \<Rightarrow> do {
          s \<leftarrow> post_buff env p i s;
          alloc_loop env mems (next_entry s i) (of_nat i) s
        })
   }"

definition kgni_alloc_rx_buffs :: "rx_env \<Rightarrow> addr list \<Rightarrow> rx_ctrl \<Rightarrow> (int \<times> rx_ctrl) run" where
  "kgni_alloc_rx_buffs env mems s = do {
     (i, last_entry, s) \<leftarrow> alloc_loop env mems (rx_next_to_use s) 0xFFFF s;
     if last_entry \<noteq> 0xFFFF then Some (0, s\<lparr>wr_index := Some (unat last_entry), rx_next_to_use := i\<rparr>)
     else Some (- ENOMEM, s)
   }"

fun free_loop :: "nat list \<Rightarrow> rx_ctrl \<Rightarrow> rx_ctrl run" where
  "free_loop [] s = Some s"
| "free_loop (i # is) s = do {
     b \<leftarrow> array_get (rx_buffer_info s) i;
     (case buff_ptr b of
        None \<Rightarrow> free_loop is s
      | Some p \<Rightarrow> do {
          s \<leftarrow> kfree p s;
          free_loop is (upd_info i (\<lambda>b. b\<lparr>buff_ptr := None\<rparr>) s)
        })
   }"

definition kgni_free_rx_buffs :: "rx_ctrl \<Rightarrow> rx_ctrl run" where
  "kgni_free_rx_buffs s = free_loop [0..<rx_count s] s"

text \<open>The ring pointers after a reset of the channel, and what the reset does to the descriptors.\<close>

definition kgni_reset_rings :: "rx_ctrl \<Rightarrow> rx_ctrl" where
  "kgni_reset_rings s = s\<lparr>rx_next_to_clean := 0, rx_next_to_use := 0\<rparr>"

definition ghal_reset_vc :: "rx_ctrl \<Rightarrow> rx_ctrl" where
  "ghal_reset_vc s = s\<lparr>rxds := map clear_status (rxds s), hw_next := 0\<rparr>"

definition kgni_bte_stop :: "rx_ctrl \<Rightarrow> rx_ctrl run" where
  "kgni_bte_stop s = do {
     s \<leftarrow> kgni_free_rx_buffs (ghal_reset_vc s);
     Some (kgni_reset_rings s)
   }"

section \<open>The interrupt handler\<close>

text \<open>
  \<open>kgni_copy_rx_buff\<close>: header and data go to a new buffer, \<open>mem\<close>, and the old one is overwritten, also when there is no new one.
\<close>

definition kgni_copy_rx_buff :: "addr option \<Rightarrow> addr \<Rightarrow> nat \<Rightarrow> nat \<Rightarrow> rx_ctrl \<Rightarrow> rx_ctrl run" where
  "kgni_copy_rx_buff mem p hdr_len data_len s = do {
     ob \<leftarrow> bufs s p;
     in_bounds (hdr_len + data_len \<le> rb_size ob);
     let s = (case mem of
         None \<Rightarrow> s
       | Some q \<Rightarrow> s\<lparr>bufs := (bufs s)(q \<mapsto> ob\<lparr>rb_size := hdr_len + data_len, rb_payload := take data_len (rb_payload ob), rb_data_ptr := q + hdr_len\<rparr>)\<rparr>);
     Some (s\<lparr>bufs := (bufs s)(p \<mapsto> ob\<lparr>rb_payload := replicate (length (rb_payload ob)) 0xFF\<rparr>)\<rparr>)
   }"

text \<open>One completed descriptor: a bad packet is dropped, a good one queued. \<open>mem\<close> is the memory for a copy.\<close>

definition rx_one :: "rx_env \<Rightarrow> addr option \<Rightarrow> nat \<Rightarrow> ghal_rx_desc \<Rightarrow> rx_ctrl \<Rightarrow> rx_ctrl run" where
  "rx_one env mem entry status s = do {
     b \<leftarrow> array_get (rx_buffer_info s) entry;
     if rd_error status \<or> \<not> rd_immed status then
       (if copyout_data_on env then Some s
        else do {
          s \<leftarrow> (case buff_ptr b of None \<Rightarrow> Some s | Some p \<Rightarrow> kfree p s);
          Some (upd_info entry (\<lambda>b. b\<lparr>buff_ptr := None\<rparr>) s)
        })
     else do {
       p \<leftarrow> buff_ptr b;
       (pkt, s) \<leftarrow>
         (if copyout_data_on env then do {
            s \<leftarrow> kgni_copy_rx_buff mem p (data_ptr b - p) (rd_length status) s;
            Some (mem, s)
          }
          else do {
            ob \<leftarrow> bufs s p;
            Some (Some p, upd_info entry (\<lambda>b. b\<lparr>buff_ptr := None\<rparr>) (s\<lparr>bufs := (bufs s)(p \<mapsto> ob\<lparr>rb_data_ptr := data_ptr b\<rparr>)\<rparr>))
          });
       (case pkt of
          None \<Rightarrow> Some s
        | Some q \<Rightarrow> do {
            ob \<leftarrow> bufs s q;
            Some (s\<lparr>bufs := (bufs s)(q \<mapsto> ob\<lparr>rb_pkt_len := rd_length status, rb_immediate := rd_immediate status\<rparr>), rxq := rxq s @ [q]\<rparr>)
          })
     }
   }"

partial_function (option) irq_rx_loop :: "rx_env \<Rightarrow> (nat \<Rightarrow> addr option) \<Rightarrow> nat \<Rightarrow> nat \<Rightarrow> bool \<Rightarrow> rx_ctrl \<Rightarrow> (nat \<times> nat \<times> bool \<times> rx_ctrl) option" where
  "irq_rx_loop env copies entry last_entry handled s =
     Option.bind (array_get (rxds s) entry) (\<lambda>status.
       if \<not> rd_complete status then Some (entry, last_entry, handled, s)
       else Option.bind (rx_one env (copies entry) entry status (upd_rxd entry clear_status s)) (\<lambda>s.
         irq_rx_loop env copies (next_entry s entry) entry True s))"

lemma irq_rx_loop_code [code]:
  "irq_rx_loop env copies entry last_entry handled s =
     (case array_get (rxds s) entry of
        None \<Rightarrow> None
      | Some status \<Rightarrow>
          if \<not> rd_complete status then Some (entry, last_entry, handled, s)
          else (case rx_one env (copies entry) entry status (upd_rxd entry clear_status s) of
             None \<Rightarrow> None
           | Some s \<Rightarrow> irq_rx_loop env copies (next_entry s entry) entry True s))"
  by (subst irq_rx_loop.simps) (simp add: Option.bind_def split: option.split)

definition kgni_irq_rx_hndlr :: "rx_env \<Rightarrow> (nat \<Rightarrow> addr option) \<Rightarrow> addr list \<Rightarrow> rx_ctrl \<Rightarrow> rx_ctrl run" where
  "kgni_irq_rx_hndlr env copies mems s = do {
     (entry, last_entry, handled, s) \<leftarrow> irq_rx_loop env copies (rx_next_to_clean s) 0xFFFF False s;
     let s = (if handled then s\<lparr>rx_next_to_clean := entry, rx_tasklet := True\<rparr> else s);
     if copyout_data_on env then
       Some (if last_entry \<noteq> 0xFFFF then s\<lparr>wr_index := Some last_entry\<rparr> else s)
     else map_option snd (kgni_alloc_rx_buffs env mems s)
   }"

section \<open>The tasklet\<close>

text \<open>The first channel that is a destination and handles the packet.\<close>

definition rx_chnl :: "rx_env \<Rightarrow> kgni_rx_buff \<Rightarrow> nat option" where
  "rx_chnl env ob = find (\<lambda>i. chnl_dest env i (rb_immediate ob) \<and> rcv_handled env i (take (rb_pkt_len ob) (rb_payload ob))) [0..<KGNI_MAX_CHNL_NUMBER env]"

text \<open>Two words before the payload, in the padding of the descriptor, take its offset and the channel.\<close>

definition rx_deliver :: "rx_env \<Rightarrow> addr \<Rightarrow> rx_ctrl \<Rightarrow> rx_ctrl run" where
  "rx_deliver env p s = do {
     ob \<leftarrow> bufs s p;
     in_bounds (p + 16 \<le> rb_data_ptr ob \<and> rb_data_ptr ob + rb_pkt_len ob \<le> p + rb_size ob);
     (case rx_chnl env ob of
        Some i \<Rightarrow> Some (s\<lparr>given := given s @ [p], delivered := delivered s @ [(i, take (rb_pkt_len ob) (rb_payload ob), rb_immediate ob)]\<rparr>)
      | None \<Rightarrow> kfree p s)
   }"

text \<open>\<open>late\<close> tells after which packets the time slice is over; the queue is given as the list that the loop runs over.\<close>

fun proc_rx_loop :: "rx_env \<Rightarrow> (nat \<Rightarrow> bool) \<Rightarrow> nat \<Rightarrow> addr list \<Rightarrow> rx_ctrl \<Rightarrow> rx_ctrl run" where
  "proc_rx_loop env late n [] s = Some s"
| "proc_rx_loop env late n (p # ps) s = do {
     s \<leftarrow> rx_deliver env p (s\<lparr>rxq := ps\<rparr>);
     if late n then Some (s\<lparr>rx_tasklet := True\<rparr>) else proc_rx_loop env late (Suc n) ps s
   }"

definition kgni_proc_rx_queue :: "rx_env \<Rightarrow> (nat \<Rightarrow> bool) \<Rightarrow> rx_ctrl \<Rightarrow> rx_ctrl run" where
  "kgni_proc_rx_queue env late s = proc_rx_loop env late 0 (rxq s) (s\<lparr>rx_tasklet := False\<rparr>)"

section \<open>Configuration\<close>

text \<open>\<open>kgni_conf_rings\<close> for the receiving half: the entries are cleared. The size comes from the virtual channel.\<close>

definition conf_rx_ring :: "nat \<Rightarrow> rx_ctrl" where
  "conf_rx_ring n = \<lparr>rx_next_to_use = 0, rx_next_to_clean = 0, rx_buffer_info = replicate n \<lparr>buff_ptr = None, data_ptr = 0\<rparr>,
     rxds = replicate n \<lparr>rd_complete = False, rd_error = False, rd_immed = False, rd_length = 0, rd_immediate = 0, rd_base_addr = 0\<rparr>,
     wr_index = None, rxq = [], rx_tasklet = False, bufs = Map.empty, given = [], delivered = [], hw_next = 0\<rparr>"

end
