(* ===== verification/Rx_Inv.thy ===== *)
theory Rx_Inv
  imports Rx "HOL-Library.Sublist"
begin

text \<open>
  The invariant of the receive ring, ring arithmetic, the abstraction to the list of packets on their way, and the allocation loop.
\<close>

section \<open>The invariant\<close>

text \<open>
  Seen from the entry \<open>c\<close> that is cleaned next, the ring has first \<open>k\<close> completed entries with a buffer, then \<open>m\<close> entries with a
  buffer that the NIC has not filled yet, then the entries without buffer.
\<close>

definition idx :: "nat \<Rightarrow> rx_ctrl \<Rightarrow> nat \<Rightarrow> nat" where
  "idx c s j = (c + j) mod rx_count s"

definition shape :: "nat \<Rightarrow> nat \<Rightarrow> nat \<Rightarrow> rx_ctrl \<Rightarrow> bool" where
  "shape c k m s \<longleftrightarrow> c < rx_count s \<and> k + m \<le> rx_count s \<and> length (rxds s) = rx_count s \<and> rx_count s \<le> 0xFFFF \<and>
     hw_next s = idx c s k \<and>
     (\<forall>j < rx_count s. rd_complete (rxds s ! idx c s j) \<longleftrightarrow> j < k) \<and>
     (\<forall>j < rx_count s. buff_ptr (rx_buffer_info s ! idx c s j) \<noteq> None \<longleftrightarrow> j < k + m)"

text \<open>Every buffer is in exactly one place: in an entry of the ring, in the queue, or with a channel.\<close>

definition ring_bufs :: "rx_ctrl \<Rightarrow> addr set" where
  "ring_bufs s = {p. \<exists>i < rx_count s. buff_ptr (rx_buffer_info s ! i) = Some p}"

definition owned :: "rx_ctrl \<Rightarrow> bool" where
  "owned s \<longleftrightarrow> dom (bufs s) = ring_bufs s \<union> set (rxq s) \<union> set (given s) \<and>
     distinct (rxq s @ given s) \<and> ring_bufs s \<inter> set (rxq s @ given s) = {} \<and>
     (\<forall>i < rx_count s. \<forall>j < rx_count s. buff_ptr (rx_buffer_info s ! i) \<noteq> None \<longrightarrow>
        buff_ptr (rx_buffer_info s ! i) = buff_ptr (rx_buffer_info s ! j) \<longrightarrow> i = j)"

text \<open>A buffer in the ring has room for its packet and for the descriptor before it; a queued packet lies inside its buffer.\<close>

definition entry_ok :: "rx_env \<Rightarrow> rx_ctrl \<Rightarrow> nat \<Rightarrow> addr \<Rightarrow> kgni_rx_buff \<Rightarrow> bool" where
  "entry_ok env s i p ob \<longleftrightarrow> p + 16 \<le> data_ptr (rx_buffer_info s ! i) \<and> data_ptr (rx_buffer_info s ! i) + rx_buff_size env \<le> p + rb_size ob \<and>
     (rd_complete (rxds s ! i) \<longrightarrow> rd_length (rxds s ! i) = length (rb_payload ob) \<and> length (rb_payload ob) \<le> rx_buff_size env)"

definition queued_ok :: "addr \<Rightarrow> kgni_rx_buff \<Rightarrow> bool" where
  "queued_ok p ob \<longleftrightarrow> p + 16 \<le> rb_data_ptr ob \<and> rb_data_ptr ob + rb_pkt_len ob \<le> p + rb_size ob \<and> rb_pkt_len ob = length (rb_payload ob)"

definition objs_ok :: "rx_env \<Rightarrow> rx_ctrl \<Rightarrow> bool" where
  "objs_ok env s \<longleftrightarrow>
     (\<forall>i < rx_count s. \<forall>p. buff_ptr (rx_buffer_info s ! i) = Some p \<longrightarrow> (\<forall>ob. bufs s p = Some ob \<longrightarrow> entry_ok env s i p ob)) \<and>
     (\<forall>p \<in> set (rxq s). \<forall>ob. bufs s p = Some ob \<longrightarrow> queued_ok p ob)"

definition rx_at :: "rx_env \<Rightarrow> nat \<Rightarrow> nat \<Rightarrow> nat \<Rightarrow> rx_ctrl \<Rightarrow> bool" where
  "rx_at env c k m s \<longleftrightarrow> shape c k m s \<and> owned s \<and> objs_ok env s"

text \<open>Where the next buffer goes; in copy-out mode the ring is full or empty.\<close>

definition use_ok :: "rx_env \<Rightarrow> nat \<Rightarrow> nat \<Rightarrow> nat \<Rightarrow> rx_ctrl \<Rightarrow> nat \<Rightarrow> bool" where
  "use_ok env c k m s i \<longleftrightarrow> i < rx_count s \<and> (k + m < rx_count s \<or> \<not> copyout_data_on env \<longrightarrow> i = idx c s (k + m))"

definition full_ok :: "rx_env \<Rightarrow> nat \<Rightarrow> rx_ctrl \<Rightarrow> bool" where
  "full_ok env b s \<longleftrightarrow> (copyout_data_on env \<longrightarrow> b = 0 \<or> b = rx_count s)"

definition rx_env_ok :: "rx_env \<Rightarrow> bool" where
  "rx_env_ok env \<longleftrightarrow> 16 \<le> SIZEOF_PKTDSC env \<and> 0 < GHAL_BTE_RX_ALLIGMENT env \<and> (\<forall>i. \<exists>t \<in> set [0..<11]. readback_equal env i t)"

definition rx_inv :: "rx_env \<Rightarrow> rx_ctrl \<Rightarrow> bool" where
  "rx_inv env s \<longleftrightarrow> rx_env_ok env \<and> (\<exists>k m. rx_at env (rx_next_to_clean s) k m s \<and> use_ok env (rx_next_to_clean s) k m s (rx_next_to_use s) \<and>
     full_ok env (k + m) s)"

section \<open>Ring indices\<close>

lemma idx_less: "0 < rx_count s \<Longrightarrow> idx c s j < rx_count s"
  by (simp add: idx_def)

lemma idx_0: "c < rx_count s \<Longrightarrow> idx c s 0 = c"
  by (simp add: idx_def)

lemma mod_once: "x < n \<Longrightarrow> j < n \<Longrightarrow> (x + j) mod n = (if x + j < n then x + j else x + j - n)" for x j n :: nat
  by (simp add: le_mod_geq)

lemma idx_if:
  assumes "j < rx_count s"
  shows "idx c s j = (if c mod rx_count s + j < rx_count s then c mod rx_count s + j else c mod rx_count s + j - rx_count s)"
proof -
  have c: "c mod rx_count s < rx_count s" using assms by (intro mod_less_divisor) linarith
  have "idx c s j = (c mod rx_count s + j) mod rx_count s" by (simp add: idx_def mod_add_left_eq)
  with mod_once[OF c assms] show ?thesis by simp
qed

lemma idx_inj: "idx c s i = idx c s j \<Longrightarrow> i < rx_count s \<Longrightarrow> j < rx_count s \<Longrightarrow> i = j"
  by (simp add: idx_if split: if_splits)

lemma next_entry_mod: "i < rx_count s \<Longrightarrow> next_entry s i = Suc i mod rx_count s"
  by (auto simp: next_entry_def)

lemma idx_next: "c < rx_count s \<Longrightarrow> idx (next_entry s c) s j = idx c s (Suc j)"
  by (simp add: next_entry_mod idx_def mod_add_left_eq)

lemma next_idx: "0 < rx_count s \<Longrightarrow> next_entry s (idx c s j) = idx c s (Suc j)"
  by (simp add: next_entry_mod idx_less) (simp add: idx_def mod_Suc_eq)

lemma idx_surj:
  assumes "c < rx_count s" and "i < rx_count s"
  obtains j where "j < rx_count s" and "i = idx c s j"
proof (cases "c \<le> i")
  case True
  show ?thesis by (rule that[of "i - c"]) (use True assms in \<open>simp_all add: idx_def\<close>)
next
  case False
  show ?thesis by (rule that[of "i + rx_count s - c"]) (use False assms in \<open>simp_all add: idx_def\<close>)
qed

text \<open>The updates leave the size of the ring.\<close>

lemma upd_sel [simp]:
  "rx_count (upd_info i f s) = rx_count s" "rxds (upd_info i f s) = rxds s" "bufs (upd_info i f s) = bufs s" "rxq (upd_info i f s) = rxq s"
  "given (upd_info i f s) = given s" "hw_next (upd_info i f s) = hw_next s" "rx_next_to_use (upd_info i f s) = rx_next_to_use s"
  "rx_next_to_clean (upd_info i f s) = rx_next_to_clean s" "delivered (upd_info i f s) = delivered s"
  "rx_buffer_info (upd_rxd i g s) = rx_buffer_info s" "length (rxds (upd_rxd i g s)) = length (rxds s)" "bufs (upd_rxd i g s) = bufs s"
  "rxq (upd_rxd i g s) = rxq s" "given (upd_rxd i g s) = given s" "hw_next (upd_rxd i g s) = hw_next s"
  "rx_next_to_use (upd_rxd i g s) = rx_next_to_use s" "rx_next_to_clean (upd_rxd i g s) = rx_next_to_clean s" "delivered (upd_rxd i g s) = delivered s"
  by (simp_all add: upd_info_def upd_rxd_def)

lemma upd_info_nth: "i < rx_count s \<Longrightarrow> rx_buffer_info (upd_info i f s) ! j = (if j = i then f (rx_buffer_info s ! i) else rx_buffer_info s ! j)"
  by (simp add: upd_info_def nth_list_update split: if_splits)

lemma upd_rxd_nth: "i < length (rxds s) \<Longrightarrow> rxds (upd_rxd i f s) ! j = (if j = i then f (rxds s ! i) else rxds s ! j)"
  by (simp add: upd_rxd_def nth_list_update)

lemma idx_cong: "rx_count s' = rx_count s \<Longrightarrow> idx c s' = idx c s"
  by (rule ext) (simp add: idx_def)

section \<open>What is in the channel\<close>

text \<open>The packets in the order of their arrival: first those in the queue, then the good ones of the completed entries.\<close>

definition good :: "ghal_rx_desc \<Rightarrow> bool" where
  "good d \<longleftrightarrow> \<not> rd_error d \<and> rd_immed d"

definition queue_pkt :: "rx_ctrl \<Rightarrow> addr \<Rightarrow> packet \<times> u64" where
  "queue_pkt s p = (case bufs s p of None \<Rightarrow> ([], 0) | Some ob \<Rightarrow> (take (rb_pkt_len ob) (rb_payload ob), rb_immediate ob))"

definition ring_pkt :: "rx_ctrl \<Rightarrow> nat \<Rightarrow> packet \<times> u64" where
  "ring_pkt s i = (case buff_ptr (rx_buffer_info s ! i) of
       None \<Rightarrow> ([], 0)
     | Some p \<Rightarrow> (case bufs s p of None \<Rightarrow> ([], 0) | Some ob \<Rightarrow> (rb_payload ob, rd_immediate (rxds s ! i))))"

definition ring_pkts :: "nat \<Rightarrow> nat \<Rightarrow> rx_ctrl \<Rightarrow> (packet \<times> u64) list" where
  "ring_pkts c k s = map (ring_pkt s) (filter (\<lambda>i. good (rxds s ! i)) (map (idx c s) [0..<k]))"

definition fifo_at :: "nat \<Rightarrow> nat \<Rightarrow> rx_ctrl \<Rightarrow> (packet \<times> u64) list" where
  "fifo_at c k s = map (queue_pkt s) (rxq s) @ ring_pkts c k s"

lemma ring_pkts_0 [simp]: "ring_pkts c 0 s = []"
  by (simp add: ring_pkts_def)

lemma ring_pkts_Suc:
  assumes "c < rx_count s"
  shows "ring_pkts c (Suc k) s = (if good (rxds s ! c) then [ring_pkt s c] else []) @ ring_pkts (next_entry s c) k s"
proof -
  have "map (idx c s) [0..<Suc k] = c # map (idx (next_entry s c) s) [0..<k]"
    using assms by (simp add: upt_conv_Cons idx_0 map_Suc_upt[symmetric] idx_next comp_def del: upt_Suc)
  then show ?thesis by (simp add: ring_pkts_def)
qed

lemma ring_pkts_cong:
  assumes "rx_count s' = rx_count s" and "\<And>j. j < k \<Longrightarrow> ring_pkt s' (idx c s j) = ring_pkt s (idx c s j)"
    and "\<And>j. j < k \<Longrightarrow> good (rxds s' ! idx c s j) = good (rxds s ! idx c s j)"
  shows "ring_pkts c k s' = ring_pkts c k s"
proof -
  have "filter (\<lambda>i. good (rxds s' ! i)) (map (idx c s) [0..<k]) = filter (\<lambda>i. good (rxds s ! i)) (map (idx c s) [0..<k])"
    by (rule filter_cong) (auto simp: assms(3))
  then show ?thesis by (auto simp: ring_pkts_def idx_cong[OF assms(1)] assms(2))
qed

lemma align_bounds: "0 < a \<Longrightarrow> x \<le> ALIGN x a \<and> ALIGN x a < x + a"
  unfolding ALIGN_def using div_mult_mod_eq[of "x + a - 1" a] mod_less_divisor[of a "x + a - 1"] by linarith

lemma readback_ok:
  assumes "\<exists>t \<in> set cs. readback_equal env i t" and "\<forall>t \<in> set (butlast cs). t \<noteq> 10"
  shows "readback_loop env i cs = Some ()"
  using assms
proof (induction cs)
  case (Cons a cs)
  show ?case
  proof (cases "cs = []")
    case False
    have "a \<noteq> 10" "\<forall>t \<in> set (butlast cs). t \<noteq> 10" using Cons.prems(2) False by auto
    with Cons.IH Cons.prems(1) show ?thesis by auto
  qed (use Cons.prems in simp)
qed simp

section \<open>Putting buffers into the ring\<close>

lemma rx_atD:
  assumes "rx_at env c k m s"
  shows "c < rx_count s" "k + m \<le> rx_count s" "length (rxds s) = rx_count s" "rx_count s \<le> 0xFFFF" "hw_next s = idx c s k"
    "\<And>j. j < rx_count s \<Longrightarrow> rd_complete (rxds s ! idx c s j) \<longleftrightarrow> j < k"
    "\<And>j. j < rx_count s \<Longrightarrow> buff_ptr (rx_buffer_info s ! idx c s j) \<noteq> None \<longleftrightarrow> j < k + m"
    "owned s" "objs_ok env s" "0 < rx_count s"
  using assms unfolding rx_at_def shape_def by auto

lemma ring_bufsI: "i < rx_count s \<Longrightarrow> buff_ptr (rx_buffer_info s ! i) = Some p \<Longrightarrow> p \<in> ring_bufs s"
  by (auto simp: ring_bufs_def)

lemma ownedD:
  assumes "owned s" and "i < rx_count s" and "buff_ptr (rx_buffer_info s ! i) = Some p"
  shows "\<exists>ob. bufs s p = Some ob" "p \<notin> set (rxq s)" "p \<notin> set (given s)"
    "\<And>j. j < rx_count s \<Longrightarrow> buff_ptr (rx_buffer_info s ! j) = Some p \<Longrightarrow> j = i"
  using assms ring_bufsI[OF assms(2,3)] unfolding owned_def by auto

lemma ring_bufs_put:
  assumes "rx_count s' = rx_count s" and "\<And>j. j \<noteq> i \<Longrightarrow> buff_ptr (rx_buffer_info s' ! j) = buff_ptr (rx_buffer_info s ! j)"
    and "i < rx_count s" and "buff_ptr (rx_buffer_info s ! i) = None" and "buff_ptr (rx_buffer_info s' ! i) = Some p"
  shows "ring_bufs s' = insert p (ring_bufs s)"
proof (intro set_eqI iffI)
  fix q assume "q \<in> ring_bufs s'"
  then obtain j where "j < rx_count s" "buff_ptr (rx_buffer_info s' ! j) = Some q" using assms(1) by (auto simp: ring_bufs_def)
  with assms(2)[of j] assms(5) show "q \<in> insert p (ring_bufs s)" by (cases "j = i") (auto simp: ring_bufs_def)
next
  fix q assume "q \<in> insert p (ring_bufs s)"
  then consider "q = p" | j where "j < rx_count s" "buff_ptr (rx_buffer_info s ! j) = Some q" by (auto simp: ring_bufs_def)
  then show "q \<in> ring_bufs s'"
  proof cases
    case 2
    with assms(4) have "j \<noteq> i" by auto
    with 2 assms(1,2) show ?thesis by (auto simp: ring_bufs_def)
  qed (use assms(1,3,5) in \<open>auto simp: ring_bufs_def\<close>)
qed

lemma ring_bufs_take:
  assumes "rx_count s' = rx_count s" and "\<And>j. j \<noteq> i \<Longrightarrow> buff_ptr (rx_buffer_info s' ! j) = buff_ptr (rx_buffer_info s ! j)"
    and "i < rx_count s" and "buff_ptr (rx_buffer_info s ! i) = Some p" and "buff_ptr (rx_buffer_info s' ! i) = None" and "owned s"
  shows "ring_bufs s' = ring_bufs s - {p}"
proof (intro set_eqI iffI)
  fix q assume "q \<in> ring_bufs s'"
  then obtain j where j: "j < rx_count s" "buff_ptr (rx_buffer_info s' ! j) = Some q" using assms(1) by (auto simp: ring_bufs_def)
  with assms(5) have "j \<noteq> i" by auto
  with j assms(2) have "buff_ptr (rx_buffer_info s ! j) = Some q" by simp
  with j(1) ownedD(4)[OF assms(6,3,4)] \<open>j \<noteq> i\<close> show "q \<in> ring_bufs s - {p}" by (auto simp: ring_bufs_def)
next
  fix q assume "q \<in> ring_bufs s - {p}"
  then obtain j where j: "j < rx_count s" "buff_ptr (rx_buffer_info s ! j) = Some q" "q \<noteq> p" by (auto simp: ring_bufs_def)
  with assms(4) have "j \<noteq> i" by auto
  with j assms(1,2) show "q \<in> ring_bufs s'" by (auto simp: ring_bufs_def)
qed

lemma ring_bufs_cong: "rx_buffer_info s' = rx_buffer_info s \<Longrightarrow> ring_bufs s' = ring_bufs s"
  by (simp add: ring_bufs_def)

lemma objs_okD:
  assumes "objs_ok env s"
  shows "\<And>i p ob. i < rx_count s \<Longrightarrow> buff_ptr (rx_buffer_info s ! i) = Some p \<Longrightarrow> bufs s p = Some ob \<Longrightarrow> entry_ok env s i p ob"
    "\<And>p ob. p \<in> set (rxq s) \<Longrightarrow> bufs s p = Some ob \<Longrightarrow> queued_ok p ob"
  using assms unfolding objs_ok_def by blast+

text \<open>The effect of \<open>post_buff\<close> on a free entry.\<close>

definition with_buff :: "rx_env \<Rightarrow> addr \<Rightarrow> nat \<Rightarrow> rx_ctrl \<Rightarrow> rx_ctrl" where
  "with_buff env p i s =
     (let data = ALIGN (p + SIZEOF_PKTDSC env) (GHAL_BTE_RX_ALLIGMENT env) in
      upd_rxd i (\<lambda>d. (clear_status d)\<lparr>rd_base_addr := data\<rparr>)
        (upd_info i (\<lambda>b. b\<lparr>buff_ptr := Some p, data_ptr := data\<rparr>)
          (s\<lparr>bufs := (bufs s)(p \<mapsto> \<lparr>rb_size = rx_buff_size env + SIZEOF_PKTDSC env + GHAL_BTE_RX_ALLIGMENT env, rb_payload = [],
               rb_data_ptr = 0, rb_pkt_len = 0, rb_immediate = 0\<rparr>)\<rparr>)))"

lemma post_buff_with_buff: "rx_env_ok env \<Longrightarrow> post_buff env p i s = Some (with_buff env p i s)"
  using readback_ok[of "[0..<11]" env i] by (simp add: rx_env_ok_def post_buff_def with_buff_def Let_def del: upt_Suc) (simp add: upt_rec)

lemma with_buff_sel [simp]:
  "rx_count (with_buff env p i s) = rx_count s" "length (rxds (with_buff env p i s)) = length (rxds s)" "rxq (with_buff env p i s) = rxq s"
  "given (with_buff env p i s) = given s" "hw_next (with_buff env p i s) = hw_next s" "delivered (with_buff env p i s) = delivered s"
  "rx_next_to_clean (with_buff env p i s) = rx_next_to_clean s" "rx_next_to_use (with_buff env p i s) = rx_next_to_use s"
  "dom (bufs (with_buff env p i s)) = insert p (dom (bufs s))" "q \<noteq> p \<Longrightarrow> bufs (with_buff env p i s) q = bufs s q"
  by (simp_all add: with_buff_def Let_def)

lemma with_buff_nth:
  assumes "i < rx_count s" and "length (rxds s) = rx_count s"
  shows "j \<noteq> i \<Longrightarrow> rx_buffer_info (with_buff env p i s) ! j = rx_buffer_info s ! j" "j \<noteq> i \<Longrightarrow> rxds (with_buff env p i s) ! j = rxds s ! j"
    "buff_ptr (rx_buffer_info (with_buff env p i s) ! i) = Some p" "\<not> rd_complete (rxds (with_buff env p i s) ! i)"
  using assms by (simp_all add: with_buff_def Let_def upd_info_nth upd_rxd_nth)

lemma with_buff_entry_ok:
  assumes "rx_env_ok env" and "i < rx_count s" and "length (rxds s) = rx_count s" and "bufs (with_buff env p i s) p = Some ob"
  shows "entry_ok env (with_buff env p i s) i p ob"
  using assms align_bounds[of "GHAL_BTE_RX_ALLIGMENT env" "p + SIZEOF_PKTDSC env"]
  by (auto simp: entry_ok_def with_buff_def Let_def upd_info_nth upd_rxd_nth rx_env_ok_def)

lemma with_buff_at:
  assumes env: "rx_env_ok env" and at: "rx_at env c k m s" and less: "k + m < rx_count s" and p: "bufs s p = None"
  shows "rx_at env c k (Suc m) (with_buff env p (idx c s (k + m)) s) \<and>
    fifo_at c k (with_buff env p (idx c s (k + m)) s) = fifo_at c k s"
proof -
  let ?i = "idx c s (k + m)"
  let ?s = "with_buff env p ?i s"
  note d = rx_atD[OF at]
  have i: "?i < rx_count s" by (rule idx_less[OF d(10)])
  have none: "buff_ptr (rx_buffer_info s ! ?i) = None" using d(7)[OF less] by auto
  have eq: "idx c ?s = idx c s" by (rule idx_cong) simp
  have neq: "idx c s j \<noteq> ?i" if "j < rx_count s" "j \<noteq> k + m" for j using idx_inj[of c s j "k + m"] that less by blast
  note nth = with_buff_nth[OF i d(3), where env = env and p = p]
  have pn: "p \<notin> ring_bufs s" "p \<notin> set (rxq s)" "p \<notin> set (given s)" using d(8) p unfolding owned_def by auto
  have sh: "shape c k (Suc m) ?s"
    unfolding shape_def eq
  proof (intro conjI allI impI)
    fix j assume "j < rx_count ?s"
    then have j: "j < rx_count s" by simp
    show "rd_complete (rxds ?s ! idx c s j) \<longleftrightarrow> j < k"
      using nth(2)[OF neq[OF j]] nth(4) d(6)[OF j] by (cases "j = k + m") auto
    show "buff_ptr (rx_buffer_info ?s ! idx c s j) \<noteq> None \<longleftrightarrow> j < k + Suc m"
      using nth(1)[OF neq[OF j]] nth(3) d(7)[OF j] by (cases "j = k + m") auto
  qed (use d less in auto)
  have rb: "ring_bufs ?s = insert p (ring_bufs s)"
    by (rule ring_bufs_put[of _ _ ?i]) (use nth none i in simp_all)
  have ow: "owned ?s"
    unfolding owned_def
  proof (intro conjI allI impI)
    fix a b assume ab: "a < rx_count ?s" "b < rx_count ?s" "buff_ptr (rx_buffer_info ?s ! a) \<noteq> None"
      "buff_ptr (rx_buffer_info ?s ! a) = buff_ptr (rx_buffer_info ?s ! b)"
    show "a = b"
    proof (cases "a = ?i \<or> b = ?i")
      case True
      have "buff_ptr (rx_buffer_info s ! j) \<noteq> Some p" if "j < rx_count s" for j using ring_bufsI[OF that] pn(1) by blast
      with True ab nth(1)[of a] nth(1)[of b] nth(3) show ?thesis by (cases "a = ?i"; cases "b = ?i") auto
    next
      case False
      with ab nth(1) d(8) show ?thesis unfolding owned_def by auto
    qed
  qed (use d(8) rb pn in \<open>auto simp: owned_def\<close>)
  have ob: "objs_ok env ?s"
    unfolding objs_ok_def
  proof (intro conjI allI impI ballI)
    fix a q ob assume a: "a < rx_count ?s" "buff_ptr (rx_buffer_info ?s ! a) = Some q" "bufs ?s q = Some ob"
    show "entry_ok env ?s a q ob"
    proof (cases "a = ?i")
      case True
      with a nth(3) have "q = p" by simp
      with True a(3) with_buff_entry_ok[OF env i d(3)] show ?thesis by simp
    next
      case False
      with a nth(1) have b: "buff_ptr (rx_buffer_info s ! a) = Some q" "a < rx_count s" by simp_all
      with pn(1) have "q \<noteq> p" using ring_bufsI by blast
      with a(3) have "bufs s q = Some ob" by simp
      with objs_okD(1)[OF d(9) b(2,1)] False nth show ?thesis by (simp add: entry_ok_def)
    qed
  next
    fix q ob assume q: "q \<in> set (rxq ?s)" "bufs ?s q = Some ob"
    with pn have "q \<noteq> p" by auto
    with q objs_okD(2)[OF d(9)] show "queued_ok q ob" by simp
  qed
  have "ring_pkts c k ?s = ring_pkts c k s"
  proof (rule ring_pkts_cong)
    fix j assume j: "j < k"
    have ne: "idx c s j \<noteq> ?i" using neq[of j] j less by simp
    have "buff_ptr (rx_buffer_info s ! idx c s j) \<noteq> Some p" using pn(1) ring_bufsI[OF idx_less[OF d(10)]] by blast
    then show "ring_pkt ?s (idx c s j) = ring_pkt s (idx c s j)" by (auto simp: ring_pkt_def nth(1,2)[OF ne] split: option.split)
    show "good (rxds ?s ! idx c s j) = good (rxds s ! idx c s j)" by (simp add: nth(2)[OF ne])
  qed simp
  moreover have "queue_pkt ?s q = queue_pkt s q" if "q \<in> set (rxq s)" for q
  proof -
    have "q \<noteq> p" using that pn(2) by auto
    then show ?thesis by (simp add: queue_pkt_def)
  qed
  ultimately show ?thesis using sh ow ob by (simp add: rx_at_def fifo_at_def)
qed

text \<open>What the loop over the empty entries does: \<open>m'\<close> entries wait for the NIC afterwards instead of \<open>m\<close>.\<close>

definition alloc_post :: "rx_env \<Rightarrow> addr list \<Rightarrow> nat \<Rightarrow> nat \<Rightarrow> nat \<Rightarrow> rx_ctrl \<Rightarrow> nat \<Rightarrow> u16 \<Rightarrow> nat \<Rightarrow> u16 \<Rightarrow> rx_ctrl \<Rightarrow> nat \<Rightarrow> bool" where
  "alloc_post env mems c k m s i l i' l' s' m' \<longleftrightarrow>
     (m \<le> m' \<and> (m' = m \<longrightarrow> s' = s \<and> l' = l \<and> i' = i) \<and> (m < m' \<longrightarrow> l' \<noteq> 0xFFFF) \<and> (mems \<noteq> [] \<longrightarrow> k + m < rx_count s \<longrightarrow> m < m') \<and>
      (rx_count s \<le> k + m + length mems \<longrightarrow> k + m' = rx_count s)) \<and>
     (rx_at env c k m' s' \<and> use_ok env c k m' s' i' \<and> fifo_at c k s' = fifo_at c k s) \<and>
     (rx_count s' = rx_count s \<and> rxq s' = rxq s \<and> given s' = given s \<and> delivered s' = delivered s \<and>
      rx_next_to_clean s' = rx_next_to_clean s) \<and>
     (dom (bufs s) \<subseteq> dom (bufs s') \<and> dom (bufs s') \<subseteq> dom (bufs s) \<union> set mems)"

lemma alloc_loop_at:
  assumes "rx_env_ok env" and "rx_at env c k m s" and "use_ok env c k m s i" and "distinct mems" and "set mems \<inter> dom (bufs s) = {}"
  shows "\<exists>i' l' s' m'. alloc_loop env mems i l s = Some (i', l', s') \<and> alloc_post env mems c k m s i l i' l' s' m'"
  using assms
proof (induction mems arbitrary: m i l s)
  case Nil
  note d = rx_atD[OF Nil.prems(2)]
  from Nil.prems(3) have "i < rx_count s" by (simp add: use_ok_def)
  with Nil.prems(2,3) d(2) show ?case
    by (intro exI[of _ i] exI[of _ l] exI[of _ s] exI[of _ m]) (simp add: alloc_post_def)
next
  case (Cons p mems)
  note d = rx_atD[OF Cons.prems(2)]
  from Cons.prems(3) have i: "i < rx_count s" by (simp add: use_ok_def)
  show ?case
  proof (cases "k + m < rx_count s")
    case False
    with d(2) have full: "k + m = rx_count s" by simp
    obtain j where "j < rx_count s" "i = idx c s j" using idx_surj[OF d(1) i] by blast
    with d(7)[of j] full obtain q where "buff_ptr (rx_buffer_info s ! i) = Some q" by auto
    with Cons.prems(2,3) i full show ?thesis
      by (intro exI[of _ i] exI[of _ l] exI[of _ s] exI[of _ m]) (auto simp: alloc_post_def)
  next
    case True
    with Cons.prems(3) have ii: "i = idx c s (k + m)" by (simp add: use_ok_def)
    let ?s = "with_buff env p i s"
    have p: "bufs s p = None" using Cons.prems(5) by auto
    note at = with_buff_at[OF Cons.prems(1,2) True p, folded ii]
    have none: "buff_ptr (rx_buffer_info s ! i) = None" using d(7)[OF True] ii by auto
    have use: "use_ok env c k (Suc m) ?s (next_entry ?s i)"
      using next_idx[of ?s c "k + m"] d(10) idx_less[of ?s c "Suc (k + m)"] idx_cong[of ?s s c]
      by (simp add: use_ok_def ii)
    have fresh: "set mems \<inter> dom (bufs ?s) = {}" and dist: "distinct mems" using Cons.prems(4,5) by auto
    from Cons.IH[OF Cons.prems(1) conjunct1[OF at] use dist fresh, of "of_nat i"] obtain i' l' s' m' where
      r1: "alloc_loop env mems (next_entry ?s i) (of_nat i) ?s = Some (i', l', s')" and
      r2: "alloc_post env mems c k (Suc m) ?s (next_entry ?s i) (of_nat i) i' l' s' m'" by blast
    have "i < 0xFFFF" using i d(4) by simp
    then have "unat (of_nat i :: u16) = i" by (simp add: unat_of_nat)
    then have l: "(of_nat i :: u16) \<noteq> 0xFFFF" using \<open>i < 0xFFFF\<close> by auto
    have "alloc_loop env (p # mems) i l s = Some (i', l', s')" using r1 none i Cons.prems(1) by (simp add: post_buff_with_buff)
    moreover have "alloc_post env (p # mems) c k m s i l i' l' s' m'"
      unfolding alloc_post_def
    proof (intro conjI)
      show "m < m' \<longrightarrow> l' \<noteq> 0xFFFF" using r2 l by (cases "m' = Suc m") (auto simp: alloc_post_def)
      show "dom (bufs s') \<subseteq> dom (bufs s) \<union> set (p # mems)" "dom (bufs s) \<subseteq> dom (bufs s')" using r2 by (auto simp: alloc_post_def)
    qed (use r2 at in \<open>simp_all add: alloc_post_def\<close>)
    ultimately show ?thesis by blast
  qed
qed

end
