(* ===== verification/Rx_Irq.thy ===== *)
theory Rx_Irq
  imports Rx_Inv
begin

text \<open>
  The interrupt handler: what one completed entry, the loop over the entries and the allocation afterwards do to the ring and to the
  packets on their way.
\<close>

section \<open>Taking packets from the ring\<close>

lemma idx_last: "c < rx_count s \<Longrightarrow> idx c s (rx_count s) = c"
  by (simp add: idx_def)

lemma next_less: "c < rx_count s \<Longrightarrow> next_entry s c < rx_count s"
  by (auto simp: next_entry_def)

lemma next_cong: "rx_count s' = rx_count s \<Longrightarrow> next_entry s' = next_entry s"
  by (rule ext) (simp add: next_entry_def)

text \<open>
  A step that deals with the completed entry \<open>c\<close>: it changes no other entry, the status of \<open>c\<close> is cleared, and \<open>c\<close> keeps its buffer
  only when the ring was full.
\<close>

definition entry_done :: "rx_env \<Rightarrow> nat \<Rightarrow> rx_ctrl \<Rightarrow> rx_ctrl \<Rightarrow> bool" where
  "entry_done env c s s' \<longleftrightarrow> rx_count s' = rx_count s \<and> length (rxds s') = length (rxds s) \<and> hw_next s' = hw_next s \<and>
     (\<forall>j. j \<noteq> c \<longrightarrow> rx_buffer_info s' ! j = rx_buffer_info s ! j \<and> rxds s' ! j = rxds s ! j) \<and> \<not> rd_complete (rxds s' ! c) \<and>
     (\<forall>q \<in> ring_bufs s. Some q \<noteq> buff_ptr (rx_buffer_info s ! c) \<longrightarrow> bufs s' q = bufs s q) \<and>
     (\<forall>p. buff_ptr (rx_buffer_info s' ! c) = Some p \<longrightarrow> (\<forall>ob. bufs s' p = Some ob \<longrightarrow> entry_ok env s' c p ob)) \<and>
     (\<forall>p \<in> set (rxq s'). \<forall>ob. bufs s' p = Some ob \<longrightarrow> queued_ok p ob)"

lemma entry_done_at:
  assumes at: "rx_at env c (Suc k) m s" and dn: "entry_done env c s s'" and ow: "owned s'"
    and m': "m' = (if buff_ptr (rx_buffer_info s' ! c) = None then m else Suc m)" and full: "buff_ptr (rx_buffer_info s' ! c) \<noteq> None \<Longrightarrow> Suc k + m = rx_count s"
  shows "rx_at env (next_entry s c) k m' s' \<and> ring_pkts (next_entry s c) k s' = ring_pkts (next_entry s c) k s"
proof -
  note d = rx_atD[OF at]
  note e = dn[unfolded entry_done_def]
  have n: "rx_count s' = rx_count s" using e by blast
  have ix: "idx (next_entry s c) s' = idx (next_entry s c) s" by (rule idx_cong[OF n])
  have nx: "idx (next_entry s c) s j = idx c s (Suc j)" for j by (rule idx_next[OF d(1)])
  have ne: "idx c s (Suc j) \<noteq> c" if "Suc j < rx_count s" for j using idx_inj[of c s "Suc j" 0] idx_0[OF d(1)] that d(10) by auto
  have sh: "shape (next_entry s c) k m' s'"
    unfolding shape_def ix nx n
  proof (intro conjI allI impI)
    fix j assume j: "j < rx_count s"
    show "rd_complete (rxds s' ! idx c s (Suc j)) \<longleftrightarrow> j < k"
    proof (cases "Suc j < rx_count s")
      case True
      with e ne[OF True] d(6)[OF True] show ?thesis by auto
    next
      case False
      with j have "Suc j = rx_count s" by simp
      with idx_last[OF d(1)] e d(2) show ?thesis by auto
    qed
    show "buff_ptr (rx_buffer_info s' ! idx c s (Suc j)) \<noteq> None \<longleftrightarrow> j < k + m'"
    proof (cases "Suc j < rx_count s")
      case True
      have "buff_ptr (rx_buffer_info s' ! idx c s (Suc j)) \<noteq> None \<longleftrightarrow> Suc j < Suc k + m" using e ne[OF True] d(7)[OF True] by auto
      with True full m' show ?thesis by (cases "buff_ptr (rx_buffer_info s' ! c)") auto
    next
      case False
      with j have "Suc j = rx_count s" by simp
      with idx_last[OF d(1)] full m' d(2) show ?thesis by (cases "buff_ptr (rx_buffer_info s' ! c)") auto
    qed
  qed (use d e full m' next_less[OF d(1)] nx in \<open>auto split: if_splits\<close>)
  have b: "bufs s' q = bufs s q" if "i < rx_count s" "i \<noteq> c" "buff_ptr (rx_buffer_info s ! i) = Some q" for i q
  proof -
    have "Some q \<noteq> buff_ptr (rx_buffer_info s ! c)" using ownedD(4)[OF d(8) that(1,3), of c] d(1) that(2) by auto
    with e ring_bufsI[OF that(1,3)] show ?thesis by blast
  qed
  have ob: "objs_ok env s'"
    unfolding objs_ok_def n
  proof (intro conjI allI impI)
    fix i p ob assume a: "i < rx_count s" "buff_ptr (rx_buffer_info s' ! i) = Some p" "bufs s' p = Some ob"
    show "entry_ok env s' i p ob"
    proof (cases "i = c")
      case False
      with e a(2) have q: "buff_ptr (rx_buffer_info s ! i) = Some p" by simp
      have "bufs s p = Some ob" using b[OF a(1) False q] a(3) by simp
      note objs_okD(1)[OF d(9) a(1) q this]
      moreover have "rx_buffer_info s' ! i = rx_buffer_info s ! i" "rxds s' ! i = rxds s ! i" using e False by blast+
      ultimately show ?thesis by (simp add: entry_ok_def)
    qed (use e a in blast)
  qed (use e in blast)
  have "ring_pkts (next_entry s c) k s' = ring_pkts (next_entry s c) k s"
  proof (rule ring_pkts_cong[OF n])
    fix j assume "j < k"
    then have j: "Suc j < rx_count s" using d(2) by simp
    show "good (rxds s' ! idx (next_entry s c) s j) = good (rxds s ! idx (next_entry s c) s j)" using e ne[OF j] by (simp add: nx)
    show "ring_pkt s' (idx (next_entry s c) s j) = ring_pkt s (idx (next_entry s c) s j)"
      using e ne[OF j] b[OF idx_less[OF d(10)] ne[OF j]] by (auto simp: nx ring_pkt_def split: option.split)
  qed
  with sh ow ob show ?thesis by (simp add: rx_at_def)
qed

text \<open>What the handler does with one entry, in terms of the channel as a whole.\<close>

definition one_post :: "rx_env \<Rightarrow> addr option \<Rightarrow> nat \<Rightarrow> nat \<Rightarrow> nat \<Rightarrow> rx_ctrl \<Rightarrow> rx_ctrl \<Rightarrow> bool" where
  "one_post env mem c k m s s' \<longleftrightarrow>
     (\<exists>m'. rx_at env (next_entry s c) k m' s' \<and> k + m' = (if copyout_data_on env then rx_count s else k + m)) \<and>
     rx_count s' = rx_count s \<and> given s' = given s \<and> delivered s' = delivered s \<and> rx_next_to_use s' = rx_next_to_use s \<and>
     dom (bufs s') \<subseteq> dom (bufs s) \<union> set_option mem \<and>
     subseq (fifo_at (next_entry s c) k s') (fifo_at c (Suc k) s) \<and>
     ((copyout_data_on env \<longrightarrow> mem \<noteq> None) \<longrightarrow> fifo_at (next_entry s c) k s' = fifo_at c (Suc k) s)"

lemma dropped_at:
  assumes at: "rx_at env c (Suc k) m s" and dn: "entry_done env c s s'" and ow: "owned s'"
    and full: "buff_ptr (rx_buffer_info s' ! c) \<noteq> None \<longleftrightarrow> copyout_data_on env" "copyout_data_on env \<longrightarrow> Suc k + m = rx_count s"
    and fr: "given s' = given s" "delivered s' = delivered s" "rx_next_to_use s' = rx_next_to_use s" "dom (bufs s') \<subseteq> dom (bufs s) \<union> set_option mem"
    and q: "map (queue_pkt s') (rxq s') = map (queue_pkt s) (rxq s) @ new"
    and new: "subseq new (if good (rxds s ! c) then [ring_pkt s c] else [])"
      "(copyout_data_on env \<longrightarrow> mem \<noteq> None) \<Longrightarrow> new = (if good (rxds s ! c) then [ring_pkt s c] else [])"
  shows "one_post env mem c k m s s'"
proof -
  note d = rx_atD[OF at]
  let ?m = "if buff_ptr (rx_buffer_info s' ! c) = None then m else Suc m"
  have a: "rx_at env (next_entry s c) k ?m s'" "ring_pkts (next_entry s c) k s' = ring_pkts (next_entry s c) k s"
    using entry_done_at[OF at dn ow refl] full by auto
  have m: "k + ?m = (if copyout_data_on env then rx_count s else k + m)" using full by auto
  have "fifo_at (next_entry s c) k s' = map (queue_pkt s) (rxq s) @ new @ ring_pkts (next_entry s c) k s"
    by (simp add: fifo_at_def q a(2))
  moreover have "fifo_at c (Suc k) s = map (queue_pkt s) (rxq s) @ (if good (rxds s ! c) then [ring_pkt s c] else []) @ ring_pkts (next_entry s c) k s"
    by (simp add: fifo_at_def ring_pkts_Suc[OF d(1)])
  moreover have "rx_count s' = rx_count s" using dn by (simp add: entry_done_def)
  ultimately show ?thesis
    unfolding one_post_def using a(1) m fr new by (auto simp: list_emb_append_mono)
qed

text \<open>The state after one entry, case by case: status cleared, buffer taken out or kept, memory and queue as given.\<close>

definition cleared :: "nat \<Rightarrow> bool \<Rightarrow> (addr \<rightharpoonup> kgni_rx_buff) \<Rightarrow> addr list \<Rightarrow> rx_ctrl \<Rightarrow> rx_ctrl" where
  "cleared c keep bs q s =
     (let s = (upd_rxd c clear_status s)\<lparr>bufs := bs, rxq := q\<rparr>
      in if keep then s else upd_info c (\<lambda>b. b\<lparr>buff_ptr := None\<rparr>) s)"

lemma cleared_sel [simp]:
  "rx_count (cleared c keep bs q s) = rx_count s" "length (rxds (cleared c keep bs q s)) = length (rxds s)"
  "hw_next (cleared c keep bs q s) = hw_next s" "bufs (cleared c keep bs q s) = bs" "rxq (cleared c keep bs q s) = q"
  "given (cleared c keep bs q s) = given s" "delivered (cleared c keep bs q s) = delivered s"
  "rx_next_to_use (cleared c keep bs q s) = rx_next_to_use s"
  by (simp_all add: cleared_def Let_def upd_rxd_def upd_info_def)

lemma cleared_nth:
  assumes "c < rx_count s" and "length (rxds s) = rx_count s"
  shows "j \<noteq> c \<Longrightarrow> rx_buffer_info (cleared c keep bs q s) ! j = rx_buffer_info s ! j" "j \<noteq> c \<Longrightarrow> rxds (cleared c keep bs q s) ! j = rxds s ! j"
    "\<not> rd_complete (rxds (cleared c keep bs q s) ! c)"
    "buff_ptr (rx_buffer_info (cleared c keep bs q s) ! c) = (if keep then buff_ptr (rx_buffer_info s ! c) else None)"
    "data_ptr (rx_buffer_info (cleared c keep bs q s) ! c) = data_ptr (rx_buffer_info s ! c)"
  using assms by (simp_all add: cleared_def Let_def upd_rxd_def upd_info_def)

lemma cleared_done:
  assumes at: "rx_at env c (Suc k) m s" and p: "buff_ptr (rx_buffer_info s ! c) = Some p"
    and bs: "\<And>x. x \<in> ring_bufs s \<Longrightarrow> x \<noteq> p \<Longrightarrow> bs x = bufs s x" and keep: "keep \<Longrightarrow> \<exists>ob'. bs p = Some ob' \<and> (\<exists>ob. bufs s p = Some ob \<and> rb_size ob' = rb_size ob)"
    and q: "\<And>x ob. x \<in> set q \<Longrightarrow> bs x = Some ob \<Longrightarrow> queued_ok x ob"
  shows "entry_done env c s (cleared c keep bs q s)"
proof -
  note d = rx_atD[OF at]
  note nth = cleared_nth[OF d(1,3), where keep = keep and bs = bs and q = q]
  have "entry_ok env (cleared c keep bs q s) c x ob" if "buff_ptr (rx_buffer_info (cleared c keep bs q s) ! c) = Some x" "bs x = Some ob" for x ob
  proof -
    have x: "keep" "x = p" using that nth(4) p by (auto split: if_splits)
    have "bs p = Some ob" using that(2) x(2) by simp
    with keep[OF x(1)] obtain ob0 where "bufs s p = Some ob0" "rb_size ob = rb_size ob0" by auto
    with objs_okD(1)[OF d(9) d(1) p] nth(3,5) x(2) show ?thesis by (auto simp: entry_ok_def)
  qed
  then show ?thesis using nth bs q p unfolding entry_done_def by auto
qed

lemma cleared_inj:
  assumes at: "rx_at env c (Suc k) m s" and "a < rx_count s" "b < rx_count s" "buff_ptr (rx_buffer_info (cleared c keep bs q s) ! a) \<noteq> None"
    "buff_ptr (rx_buffer_info (cleared c keep bs q s) ! a) = buff_ptr (rx_buffer_info (cleared c keep bs q s) ! b)"
  shows "a = b"
proof -
  note d = rx_atD[OF at]
  note nth = cleared_nth[OF d(1,3), where keep = keep and bs = bs and q = q]
  have sub: "buff_ptr (rx_buffer_info s ! x) = Some y" if "buff_ptr (rx_buffer_info (cleared c keep bs q s) ! x) = Some y" for x y
    using that nth(1)[of x] nth(4) by (cases "x = c") (auto split: if_splits)
  from assms(4) obtain y where "buff_ptr (rx_buffer_info (cleared c keep bs q s) ! a) = Some y" by auto
  with sub[of a y] sub[of b y] assms ownedD(4)[OF d(8), of b y a] show ?thesis by auto
qed

lemma cleared_ring:
  assumes at: "rx_at env c (Suc k) m s" and p: "buff_ptr (rx_buffer_info s ! c) = Some p"
  shows "ring_bufs (cleared c keep bs q s) = (if keep then ring_bufs s else ring_bufs s - {p})"
proof -
  note d = rx_atD[OF at]
  note nth = cleared_nth[OF d(1,3), where keep = keep and bs = bs and q = q]
  show ?thesis
  proof (cases keep)
    case True
    have "buff_ptr (rx_buffer_info (cleared c keep bs q s) ! j) = buff_ptr (rx_buffer_info s ! j)" for j
      using nth(1)[of j] nth(4) True by (cases "j = c") auto
    with True show ?thesis by (simp add: ring_bufs_def)
  next
    case False
    have "ring_bufs (cleared c keep bs q s) = ring_bufs s - {p}"
      by (rule ring_bufs_take[OF _ _ d(1) p _ d(8)]) (use nth False in simp_all)
    with False show ?thesis by simp
  qed
qed

lemma cleared_owned:
  assumes at: "rx_at env c (Suc k) m s" and p: "buff_ptr (rx_buffer_info s ! c) = Some p"
    and dm: "dom bs = (if keep then ring_bufs s else ring_bufs s - {p}) \<union> set q \<union> set (given s)"
    and q: "distinct (q @ given s)" "(if keep then ring_bufs s else ring_bufs s - {p}) \<inter> set (q @ given s) = {}"
  shows "owned (cleared c keep bs q s)"
  unfolding owned_def cleared_ring[OF at p]
proof (intro conjI allI impI)
  fix a b assume "a < rx_count (cleared c keep bs q s)" "b < rx_count (cleared c keep bs q s)"
    "buff_ptr (rx_buffer_info (cleared c keep bs q s) ! a) \<noteq> None"
    "buff_ptr (rx_buffer_info (cleared c keep bs q s) ! a) = buff_ptr (rx_buffer_info (cleared c keep bs q s) ! b)"
  then show "a = b" by (intro cleared_inj[OF at]) simp_all
qed (use dm q in simp_all)

lemma queued_ok_copy:
  "16 \<le> h \<Longrightarrow> n = length pl \<Longrightarrow> queued_ok x (ob\<lparr>rb_size := h + n, rb_payload := take n pl, rb_data_ptr := x + h, rb_pkt_len := n, rb_immediate := i\<rparr>)"
  by (simp add: queued_ok_def)

lemma rx_one_at:
  assumes env: "rx_env_ok env" and at: "rx_at env c (Suc k) m s" and full: "copyout_data_on env \<longrightarrow> Suc k + m = rx_count s"
    and mem: "\<forall>q. mem = Some q \<longrightarrow> bufs s q = None"
  shows "\<exists>s'. rx_one env mem c (rxds s ! c) (upd_rxd c clear_status s) = Some s' \<and> one_post env mem c k m s s'"
proof -
  note d = rx_atD[OF at]
  let ?d = "rxds s ! c"
  have c0: "idx c s 0 = c" by (rule idx_0[OF d(1)])
  have cmp: "rd_complete ?d" using d(6)[OF d(10)] c0 by simp
  obtain p where p: "buff_ptr (rx_buffer_info s ! c) = Some p" using d(7)[OF d(10)] c0 by auto
  obtain ob where ob: "bufs s p = Some ob" using ownedD(1)[OF d(8) d(1) p] by blast
  have eo: "entry_ok env s c p ob" by (rule objs_okD(1)[OF d(9) d(1) p ob])
  then have len: "rd_length ?d = length (rb_payload ob)" "length (rb_payload ob) \<le> rx_buff_size env" using cmp by (simp_all add: entry_ok_def)
  have pn: "p \<notin> set (rxq s)" "p \<notin> set (given s)" "p \<in> ring_bufs s" using ownedD(2,3)[OF d(8) d(1) p] ring_bufsI[OF d(1) p] by auto
  note ow = d(8)[unfolded owned_def]
  have qok: "queued_ok x obx" if "x \<in> set (rxq s)" "bufs s x = Some obx" for x obx by (rule objs_okD(2)[OF d(9) that])
  have rp: "ring_pkt s c = (rb_payload ob, rd_immediate ?d)" by (simp add: ring_pkt_def p ob)
  have ag: "array_get (rx_buffer_info s) c = Some (rx_buffer_info s ! c)" using d(1) by simp
  have qm: "map (queue_pkt s') (rxq s) = map (queue_pkt s) (rxq s)" if "\<And>x. x \<in> set (rxq s) \<Longrightarrow> bufs s' x = bufs s x" for s'
    using that by (simp add: queue_pkt_def)
  consider (bad) "\<not> good ?d" | (good) "good ?d" by blast
  then show ?thesis
  proof cases
    case bad
    show ?thesis
    proof (cases "copyout_data_on env")
      case True
      let ?s = "cleared c True (bufs s) (rxq s) s"
      have "rx_one env mem c ?d (upd_rxd c clear_status s) = Some ?s"
        using bad True ag by (simp add: rx_one_def good_def cleared_def Let_def upd_rxd_def)
      moreover have "one_post env mem c k m s ?s"
      proof (rule dropped_at[OF at, where new = "[]"])
        show "entry_done env c s ?s" by (rule cleared_done[OF at p]) (use ob qok in auto)
        show "owned ?s" by (rule cleared_owned[OF at p]) (use ow in auto)
        show "map (queue_pkt ?s) (rxq ?s) = map (queue_pkt s) (rxq s) @ []" using qm[of ?s] by simp
      qed (use True full bad p cleared_nth(4)[OF d(1,3)] in auto)
      ultimately show ?thesis by blast
    next
      case False
      let ?s = "cleared c False ((bufs s)(p := None)) (rxq s) s"
      have "rx_one env mem c ?d (upd_rxd c clear_status s) = Some ?s"
        using bad False ag p ob by (auto simp: rx_one_def good_def cleared_def Let_def upd_rxd_def kfree_def upd_info_def)
      moreover have "one_post env mem c k m s ?s"
      proof (rule dropped_at[OF at, where new = "[]"])
        show "entry_done env c s ?s" by (rule cleared_done[OF at p]) (use ob qok in \<open>auto split: if_splits\<close>)
        show "owned ?s" by (rule cleared_owned[OF at p]) (use ow pn in auto)
        have "bufs ?s x = bufs s x" if "x \<in> set (rxq s)" for x using that pn(1) by auto
        then show "map (queue_pkt ?s) (rxq ?s) = map (queue_pkt s) (rxq s) @ []" using qm[of ?s] by simp
      qed (use False bad p cleared_nth(4)[OF d(1,3)] in auto)
      ultimately show ?thesis by blast
    qed
  next
    case good
    show ?thesis
    proof (cases "copyout_data_on env")
      case False
      let ?o = "ob\<lparr>rb_data_ptr := data_ptr (rx_buffer_info s ! c), rb_pkt_len := rd_length ?d, rb_immediate := rd_immediate ?d\<rparr>"
      let ?s = "cleared c False ((bufs s)(p \<mapsto> ?o)) (rxq s @ [p]) s"
      have po: "queued_ok p ?o" using eo len by (simp add: queued_ok_def entry_ok_def)
      have "rx_one env mem c ?d (upd_rxd c clear_status s) = Some ?s"
        using good False ag p ob by (simp add: rx_one_def good_def cleared_def Let_def upd_rxd_def upd_info_def)
      moreover have "one_post env mem c k m s ?s"
      proof (rule dropped_at[OF at, where new = "[ring_pkt s c]"])
        show "entry_done env c s ?s" by (rule cleared_done[OF at p]) (use ob qok po in \<open>auto split: if_splits\<close>)
        show "owned ?s" by (rule cleared_owned[OF at p]) (use ow pn in auto)
        have "bufs ?s x = bufs s x" if "x \<in> set (rxq s)" for x using that pn(1) by auto
        then show "map (queue_pkt ?s) (rxq ?s) = map (queue_pkt s) (rxq s) @ [ring_pkt s c]"
          using qm[of ?s] len by (simp add: queue_pkt_def rp)
      qed (use False good p ob cleared_nth(4)[OF d(1,3)] in auto)
      ultimately show ?thesis by blast
    next
      case True
      let ?ff = "ob\<lparr>rb_payload := replicate (length (rb_payload ob)) 0xFF\<rparr>"
      let ?h = "data_ptr (rx_buffer_info s ! c) - p"
      have in_b: "?h + rd_length ?d \<le> rb_size ob" "16 \<le> ?h" using eo len by (auto simp: entry_ok_def)
      show ?thesis
      proof (cases mem)
        case None
        let ?s = "cleared c True ((bufs s)(p \<mapsto> ?ff)) (rxq s) s"
        have "rx_one env mem c ?d (upd_rxd c clear_status s) = Some ?s"
          using good True ag p ob in_b None by (simp add: rx_one_def good_def cleared_def Let_def upd_rxd_def kgni_copy_rx_buff_def)
        moreover have "one_post env mem c k m s ?s"
        proof (rule dropped_at[OF at, where new = "[]"])
          show "entry_done env c s ?s" by (rule cleared_done[OF at p]) (use ob qok pn in \<open>auto split: if_splits\<close>)
          show "owned ?s" by (rule cleared_owned[OF at p]) (use ow pn in auto)
          have "bufs ?s x = bufs s x" if "x \<in> set (rxq s)" for x using that pn(1) by auto
          then show "map (queue_pkt ?s) (rxq ?s) = map (queue_pkt s) (rxq s) @ []" using qm[of ?s] by simp
        qed (use True None full p ob cleared_nth(4)[OF d(1,3)] in auto)
        ultimately show ?thesis by blast
      next
        case (Some x)
        have xn: "bufs s x = None" using mem Some by simp
        then have xq: "x \<noteq> p" "x \<notin> set (rxq s)" "x \<notin> set (given s)" "x \<notin> ring_bufs s" using ob ow by auto
        let ?o = "ob\<lparr>rb_size := ?h + rd_length ?d, rb_payload := take (rd_length ?d) (rb_payload ob), rb_data_ptr := x + ?h,
            rb_pkt_len := rd_length ?d, rb_immediate := rd_immediate ?d\<rparr>"
        let ?s = "cleared c True ((bufs s)(p \<mapsto> ?ff, x \<mapsto> ?o)) (rxq s @ [x]) s"
        have po: "queued_ok x ?o" by (rule queued_ok_copy[OF in_b(2) len(1)])
        have "rx_one env mem c ?d (upd_rxd c clear_status s) = Some ?s"
          using good True ag p ob in_b Some xq(1)
          by (simp add: rx_one_def good_def cleared_def Let_def upd_rxd_def kgni_copy_rx_buff_def fun_upd_twist[of p x])
        moreover have "one_post env mem c k m s ?s"
        proof (rule dropped_at[OF at, where new = "[ring_pkt s c]"])
          show "entry_done env c s ?s" by (rule cleared_done[OF at p]) (use ob qok po pn xq in \<open>auto split: if_splits\<close>)
          show "owned ?s" by (rule cleared_owned[OF at p]) (use ow pn xq in auto)
          have "bufs ?s y = bufs s y" if "y \<in> set (rxq s)" for y using that pn(1) xq(2) by auto
          then show "map (queue_pkt ?s) (rxq ?s) = map (queue_pkt s) (rxq s) @ [ring_pkt s c]"
            using qm[of ?s] len by (simp add: queue_pkt_def rp)
        qed (use True Some full good p ob cleared_nth(4)[OF d(1,3)] in auto)
        ultimately show ?thesis by blast
      qed
    qed
  qed
qed

lemma idx_idx: "idx (idx c s k) s j = idx c s (k + j)"
  by (simp add: idx_def mod_add_left_eq add.assoc)

text \<open>What the loop over the completed entries does.\<close>

definition loop_post :: "rx_env \<Rightarrow> (nat \<Rightarrow> addr option) \<Rightarrow> nat \<Rightarrow> nat \<Rightarrow> nat \<Rightarrow> rx_ctrl \<Rightarrow> nat \<Rightarrow> rx_ctrl \<Rightarrow> bool" where
  "loop_post env copies c k m s e s' \<longleftrightarrow>
     rx_at env e 0 (if copyout_data_on env then k + m else m) s' \<and> e = idx c s k \<and>
     rx_count s' = rx_count s \<and> given s' = given s \<and> delivered s' = delivered s \<and> rx_next_to_use s' = rx_next_to_use s \<and>
     dom (bufs s') \<subseteq> dom (bufs s) \<union> {q. \<exists>j < k. copies (idx c s j) = Some q} \<and>
     subseq (fifo_at e 0 s') (fifo_at c k s) \<and>
     ((copyout_data_on env \<longrightarrow> (\<forall>i. copies i \<noteq> None)) \<longrightarrow> fifo_at e 0 s' = fifo_at c k s)"

text \<open>The memory for copies is unused, and different for different entries.\<close>

definition copies_ok :: "(nat \<Rightarrow> addr option) \<Rightarrow> nat \<Rightarrow> nat \<Rightarrow> rx_ctrl \<Rightarrow> bool" where
  "copies_ok copies c k s \<longleftrightarrow> (\<forall>j < k. \<forall>q. copies (idx c s j) = Some q \<longrightarrow> bufs s q = None) \<and>
     (\<forall>i j. copies i \<noteq> None \<longrightarrow> copies i = copies j \<longrightarrow> i = j)"

lemma irq_rx_loop_at:
  assumes "rx_env_ok env" and "rx_at env c k m s" and "0 < k \<Longrightarrow> copyout_data_on env \<Longrightarrow> k + m = rx_count s" and "copies_ok copies c k s"
  shows "\<exists>e l h s'. irq_rx_loop env copies c l0 h0 s = Some (e, l, h, s') \<and> loop_post env copies c k m s e s' \<and>
    (if k = 0 then l = l0 \<and> h = h0 \<and> s' = s else h \<and> l < rx_count s)"
  using assms
proof (induction k arbitrary: c m s l0 h0)
  case 0
  note d = rx_atD[OF "0.prems"(2)]
  have "\<not> rd_complete (rxds s ! c)" using d(6)[OF d(10)] idx_0[OF d(1)] by simp
  with d have "irq_rx_loop env copies c l0 h0 s = Some (c, l0, h0, s)" by (subst irq_rx_loop.simps) simp
  with "0.prems"(2) idx_0[OF d(1)] show ?case by (simp add: loop_post_def)
next
  case (Suc k)
  note d = rx_atD[OF Suc.prems(2)]
  let ?c = "next_entry s c"
  have c0: "idx c s 0 = c" by (rule idx_0[OF d(1)])
  have cmp: "rd_complete (rxds s ! c)" using d(6)[OF d(10)] c0 by simp
  have mem: "\<forall>q. copies c = Some q \<longrightarrow> bufs s q = None" using Suc.prems(4) c0 unfolding copies_ok_def by (metis zero_less_Suc)
  from rx_one_at[OF Suc.prems(1,2) _ mem] Suc.prems(3) obtain s1 where
    s1: "rx_one env (copies c) c (rxds s ! c) (upd_rxd c clear_status s) = Some s1" "one_post env (copies c) c k m s s1" by blast
  note o = s1(2)[unfolded one_post_def]
  obtain m1 where m1: "rx_at env ?c k m1 s1" "k + m1 = (if copyout_data_on env then rx_count s else k + m)" using o by blast
  have n1: "rx_count s1 = rx_count s" using o by blast
  have nx: "next_entry s1 c = ?c" using next_cong[OF n1] by simp
  have ix: "idx ?c s1 j = idx c s (Suc j)" for j using idx_cong[OF n1] idx_next[OF d(1)] by simp
  have cp: "copies_ok copies ?c k s1"
    unfolding copies_ok_def ix
  proof (intro conjI allI impI)
    fix j q assume j: "j < k" and q: "copies (idx c s (Suc j)) = Some q"
    have "idx c s (Suc j) \<noteq> c" using idx_inj[of c s "Suc j" 0] c0 j d(2,10) by auto
    with Suc.prems(4) q have "copies c \<noteq> Some q" unfolding copies_ok_def by (metis option.distinct(1))
    moreover have "bufs s q = None" using Suc.prems(4) q j unfolding copies_ok_def by (meson Suc_mono)
    ultimately show "bufs s1 q = None" using o by (auto simp: subset_iff domIff)
  next
    fix i j assume "copies i \<noteq> None" "copies i = copies j"
    with Suc.prems(4) show "i = j" unfolding copies_ok_def by blast
  qed
  have full: "0 < k \<Longrightarrow> copyout_data_on env \<Longrightarrow> k + m1 = rx_count s1" using m1(2) n1 by simp
  from Suc.IH[OF Suc.prems(1) m1(1) full cp, of c True] obtain e l h s' where
    r: "irq_rx_loop env copies ?c c True s1 = Some (e, l, h, s')" "loop_post env copies ?c k m1 s1 e s'"
      "if k = 0 then l = c \<and> h = True \<and> s' = s1 else h \<and> l < rx_count s1" by blast
  note p = r(2)[unfolded loop_post_def]
  have "irq_rx_loop env copies c l0 h0 s = Some (e, l, h, s')"
    using r(1) cmp d s1(1) by (subst irq_rx_loop.simps) (simp add: nx)
  moreover have "loop_post env copies c (Suc k) m s e s'"
    unfolding loop_post_def
  proof (intro conjI)
    have "(if copyout_data_on env then k + m1 else m1) = (if copyout_data_on env then Suc k + m else m)" using m1(2) Suc.prems(3) by auto
    from conjunct1[OF p, unfolded this] show "rx_at env e 0 (if copyout_data_on env then Suc k + m else m) s'" .
    show "e = idx c s (Suc k)" using p unfolding ix by blast
    have "set_option (copies c) \<subseteq> {q. \<exists>j < Suc k. copies (idx c s j) = Some q}" using c0 by (auto intro!: exI[of _ 0])
    moreover have "{q. \<exists>j < k. copies (idx c s (Suc j)) = Some q} \<subseteq> {q. \<exists>j < Suc k. copies (idx c s j) = Some q}" by (auto intro: Suc_mono)
    moreover have "dom (bufs s1) \<subseteq> dom (bufs s) \<union> set_option (copies c)" using o by blast
    moreover have "dom (bufs s') \<subseteq> dom (bufs s1) \<union> {q. \<exists>j < k. copies (idx c s (Suc j)) = Some q}" using p unfolding ix by blast
    ultimately show "dom (bufs s') \<subseteq> dom (bufs s) \<union> {q. \<exists>j < Suc k. copies (idx c s j) = Some q}" by blast
    show "subseq (fifo_at e 0 s') (fifo_at c (Suc k) s)" using p o subseq_order.order_trans by blast
    show "(copyout_data_on env \<longrightarrow> (\<forall>i. copies i \<noteq> None)) \<longrightarrow> fifo_at e 0 s' = fifo_at c (Suc k) s" using p o by auto
  qed (use p o in simp_all)
  moreover have "h \<and> l < rx_count s" using r(3) n1 d(1) by (auto split: if_splits)
  ultimately show ?case by auto
qed

lemma rx_at_frame [simp]:
  "rx_at env c k m (s\<lparr>wr_index := w\<rparr>) = rx_at env c k m s" "rx_at env c k m (s\<lparr>rx_next_to_use := i\<rparr>) = rx_at env c k m s"
  "rx_at env c k m (s\<lparr>rx_next_to_clean := i\<rparr>) = rx_at env c k m s" "rx_at env c k m (s\<lparr>rx_tasklet := t\<rparr>) = rx_at env c k m s"
  by (simp_all add: rx_at_def shape_def owned_def ring_bufs_def objs_ok_def entry_ok_def idx_def)

lemma use_ok_frame [simp]:
  "use_ok env c k m (s\<lparr>wr_index := w\<rparr>) j = use_ok env c k m s j" "use_ok env c k m (s\<lparr>rx_next_to_use := i\<rparr>) j = use_ok env c k m s j"
  "use_ok env c k m (s\<lparr>rx_next_to_clean := i\<rparr>) j = use_ok env c k m s j" "use_ok env c k m (s\<lparr>rx_tasklet := t\<rparr>) j = use_ok env c k m s j"
  by (simp_all add: use_ok_def idx_def)

lemma fifo_at_frame [simp]:
  "fifo_at c k (s\<lparr>wr_index := w\<rparr>) = fifo_at c k s" "fifo_at c k (s\<lparr>rx_next_to_use := i\<rparr>) = fifo_at c k s"
  "fifo_at c k (s\<lparr>rx_next_to_clean := i\<rparr>) = fifo_at c k s" "fifo_at c k (s\<lparr>rx_tasklet := t\<rparr>) = fifo_at c k s"
  by (simp_all add: fifo_at_def ring_pkts_def ring_pkt_def[abs_def] queue_pkt_def[abs_def] idx_def[abs_def] cong: option.case_cong)

lemma kgni_alloc_at:
  assumes "rx_env_ok env" and "rx_at env c k m s" and "use_ok env c k m s (rx_next_to_use s)" and "distinct mems" and "set mems \<inter> dom (bufs s) = {}"
  shows "\<exists>rc s' m'. kgni_alloc_rx_buffs env mems s = Some (rc, s') \<and> m \<le> m' \<and> rx_at env c k m' s' \<and> use_ok env c k m' s' (rx_next_to_use s') \<and>
    fifo_at c k s' = fifo_at c k s \<and> (rx_count s \<le> k + m + length mems \<longrightarrow> k + m' = rx_count s) \<and>
    (rc = 0 \<longleftrightarrow> m < m') \<and> (rc = - ENOMEM \<longleftrightarrow> m' = m) \<and> (m' = m \<longrightarrow> s' = s) \<and> (mems \<noteq> [] \<longrightarrow> k + m < rx_count s \<longrightarrow> m < m') \<and>
    rx_count s' = rx_count s \<and> delivered s' = delivered s \<and> given s' = given s \<and> rxq s' = rxq s \<and> rx_next_to_clean s' = rx_next_to_clean s"
proof -
  from alloc_loop_at[OF assms, of "0xFFFF"] obtain i l s' m' where
    r: "alloc_loop env mems (rx_next_to_use s) 0xFFFF s = Some (i, l, s')" and ap: "alloc_post env mems c k m s (rx_next_to_use s) 0xFFFF i l s' m'" by blast
  note p = ap[unfolded alloc_post_def]
  show ?thesis
  proof (cases "m' = m")
    case True
    with p have e: "s' = s" "l = 0xFFFF" by blast+
    have "kgni_alloc_rx_buffs env mems s = Some (- ENOMEM, s)" using r e by (simp add: kgni_alloc_rx_buffs_def)
    moreover have "rx_count s \<le> k + m + length mems \<longrightarrow> k + m = rx_count s" "mems \<noteq> [] \<longrightarrow> k + m < rx_count s \<longrightarrow> m < m" using p unfolding True by blast+
    ultimately show ?thesis using assms(2,3) by (intro exI[of _ "- ENOMEM"] exI[of _ s] exI[of _ m]) simp
  next
    case False
    let ?s = "s'\<lparr>wr_index := Some (unat l), rx_next_to_use := i\<rparr>"
    have "rx_at env c k m' ?s" "use_ok env c k m' ?s i" "fifo_at c k ?s = fifo_at c k s"
      using p by simp_all
    moreover from False p have m: "m < m'" "l \<noteq> 0xFFFF" by auto
    moreover have "kgni_alloc_rx_buffs env mems s = Some (0, ?s)" using r m(2) by (simp add: kgni_alloc_rx_buffs_def)
    ultimately show ?thesis using p by (intro exI[of _ 0] exI[of _ ?s] exI[of _ m']) simp
  qed
qed

section \<open>The operations on the channel as a whole\<close>

text \<open>The number of completed entries that wait to be cleaned, and all packets on their way to a channel.\<close>

definition done_count :: "rx_ctrl \<Rightarrow> nat" where
  "done_count s = length (takeWhile (\<lambda>j. rd_complete (rxds s ! idx (rx_next_to_clean s) s j)) [0..<rx_count s])"

definition fifo :: "rx_ctrl \<Rightarrow> (packet \<times> u64) list" where
  "fifo s = fifo_at (rx_next_to_clean s) (done_count s) s"

lemma done_countI:
  assumes "rx_at env (rx_next_to_clean s) k m s"
  shows "done_count s = k"
proof -
  note d = rx_atD[OF assms]
  have "k \<le> rx_count s" using d(2) by simp
  then have "[0..<rx_count s] = [0..<k] @ [k..<rx_count s]" using upt_add_eq_append[of 0 k "rx_count s - k"] by simp
  moreover have "takeWhile (\<lambda>j. rd_complete (rxds s ! idx (rx_next_to_clean s) s j)) ([0..<k] @ [k..<rx_count s]) = [0..<k]"
  proof (cases "k < rx_count s")
    case True
    with d(6) have "\<not> rd_complete (rxds s ! idx (rx_next_to_clean s) s k)" by simp
    with True have "takeWhile (\<lambda>j. rd_complete (rxds s ! idx (rx_next_to_clean s) s j)) [k..<rx_count s] = []" by (simp add: upt_rec)
    with d(2,6) show ?thesis by (subst takeWhile_append2) auto
  next
    case False
    with d(2,6) show ?thesis by (simp add: takeWhile_eq_all_conv)
  qed
  ultimately show ?thesis by (simp add: done_count_def)
qed

lemma fifoI: "rx_at env (rx_next_to_clean s) k m s \<Longrightarrow> fifo s = fifo_at (rx_next_to_clean s) k s"
  by (simp add: fifo_def done_countI)

lemma rx_invI:
  "rx_env_ok env \<Longrightarrow> rx_at env (rx_next_to_clean s) k m s \<Longrightarrow> use_ok env (rx_next_to_clean s) k m s (rx_next_to_use s) \<Longrightarrow> full_ok env (k + m) s \<Longrightarrow> rx_inv env s"
  unfolding rx_inv_def by blast

lemma rx_invE:
  assumes "rx_inv env s"
  obtains k m where "rx_env_ok env" "rx_at env (rx_next_to_clean s) k m s" "use_ok env (rx_next_to_clean s) k m s (rx_next_to_use s)" "full_ok env (k + m) s"
    "fifo s = fifo_at (rx_next_to_clean s) k s"
  using assms fifoI unfolding rx_inv_def by blast

text \<open>Memory that the allocator hands out: not in use, and no block twice.\<close>

definition fresh :: "addr list \<Rightarrow> rx_ctrl \<Rightarrow> bool" where
  "fresh mems s \<longleftrightarrow> distinct mems \<and> (\<forall>p \<in> set mems. bufs s p = None)"

definition fresh_copies :: "(nat \<Rightarrow> addr option) \<Rightarrow> addr list \<Rightarrow> rx_ctrl \<Rightarrow> bool" where
  "fresh_copies copies mems s \<longleftrightarrow> (\<forall>i q. copies i = Some q \<longrightarrow> bufs s q = None \<and> q \<notin> set mems) \<and>
     (\<forall>i j. copies i \<noteq> None \<longrightarrow> copies i = copies j \<longrightarrow> i = j)"

lemma kgni_alloc_inv:
  assumes inv: "rx_inv env s" and "fresh mems s" and "copyout_data_on env \<longrightarrow> rx_count s \<le> length mems"
  shows "\<exists>rc s'. kgni_alloc_rx_buffs env mems s = Some (rc, s') \<and> rx_inv env s' \<and> fifo s' = fifo s \<and> delivered s' = delivered s"
proof -
  from inv obtain k m where k: "rx_env_ok env" "rx_at env (rx_next_to_clean s) k m s" "use_ok env (rx_next_to_clean s) k m s (rx_next_to_use s)"
    "full_ok env (k + m) s" "fifo s = fifo_at (rx_next_to_clean s) k s" by (rule rx_invE)
  have m: "distinct mems" "set mems \<inter> dom (bufs s) = {}" using assms(2) by (auto simp: fresh_def)
  from kgni_alloc_at[OF k(1-3) m] obtain rc s' m' where
    r: "kgni_alloc_rx_buffs env mems s = Some (rc, s')" "rx_at env (rx_next_to_clean s) k m' s'" "use_ok env (rx_next_to_clean s) k m' s' (rx_next_to_use s')"
      "fifo_at (rx_next_to_clean s) k s' = fifo_at (rx_next_to_clean s) k s" "rx_count s \<le> k + m + length mems \<longrightarrow> k + m' = rx_count s"
      "rx_count s' = rx_count s" "delivered s' = delivered s" "rx_next_to_clean s' = rx_next_to_clean s" by blast
  have "full_ok env (k + m') s'" using r(5,6) assms(3) by (auto simp: full_ok_def)
  then have "rx_inv env s'" by (intro rx_invI[OF k(1)]) (use r(2,3,8) in simp_all)
  moreover have "fifo s' = fifo s" using fifoI[of env s' k m'] r(2,4,8) k(5) by simp
  ultimately show ?thesis using r(1,7) by blast
qed

lemma kgni_irq_rx_hndlr_inv:
  assumes inv: "rx_inv env s" and fr: "fresh mems s" "fresh_copies copies mems s"
  shows "\<exists>s'. kgni_irq_rx_hndlr env copies mems s = Some s' \<and> rx_inv env s' \<and> delivered s' = delivered s \<and> subseq (fifo s') (fifo s) \<and>
    ((copyout_data_on env \<longrightarrow> (\<forall>i. copies i \<noteq> None)) \<longrightarrow> fifo s' = fifo s)"
proof -
  let ?c = "rx_next_to_clean s"
  from inv obtain k m where k: "rx_env_ok env" "rx_at env ?c k m s" "use_ok env ?c k m s (rx_next_to_use s)"
    "full_ok env (k + m) s" "fifo s = fifo_at ?c k s" by (rule rx_invE)
  note d = rx_atD[OF k(2)]
  have cp: "copies_ok copies ?c k s" using fr(2) unfolding fresh_copies_def copies_ok_def by blast
  have full: "0 < k \<Longrightarrow> copyout_data_on env \<Longrightarrow> k + m = rx_count s" using k(4) by (simp add: full_ok_def)
  from irq_rx_loop_at[OF k(1,2) full cp, where ?l0.0 = "0xFFFF" and ?h0.0 = False] obtain e l h s1 where
    r: "irq_rx_loop env copies ?c 0xFFFF False s = Some (e, l, h, s1)" "loop_post env copies ?c k m s e s1"
      "if k = 0 then l = 0xFFFF \<and> h = False \<and> s1 = s else h \<and> l < rx_count s" by blast
  note p = r(2)[unfolded loop_post_def]
  let ?m = "if copyout_data_on env then k + m else m"
  let ?s = "if h then s1\<lparr>rx_next_to_clean := e, rx_tasklet := True\<rparr> else s1"
  have e: "e = idx ?c s k" "rx_count s1 = rx_count s" "rx_next_to_use s1 = rx_next_to_use s" "delivered s1 = delivered s" using p by blast+
  have nc: "rx_next_to_clean ?s = e" using r(3) e(1) idx_0[OF d(1)] by (auto split: if_splits)
  have at: "rx_at env (rx_next_to_clean ?s) 0 ?m ?s" using conjunct1[OF p] unfolding nc by auto
  have f: "fifo_at (rx_next_to_clean ?s) 0 ?s = fifo_at e 0 s1" unfolding nc by simp
  have sel: "rx_count ?s = rx_count s" "rx_next_to_use ?s = rx_next_to_use s" "delivered ?s = delivered s" "bufs ?s = bufs s1" using e by simp_all
  have use: "use_ok env (rx_next_to_clean ?s) 0 ?m ?s (rx_next_to_use ?s)"
  proof -
    have "idx e ?s m = idx ?c s (k + m)" using idx_idx[of ?c s k m] idx_cong[OF sel(1), of e] e(1) by simp
    then show ?thesis using k(3,4) unfolding nc use_ok_def sel full_ok_def by auto
  qed
  have ful: "copyout_data_on env \<Longrightarrow> full_ok env (0 + ?m) ?s" using k(4) sel(1) by (simp add: full_ok_def)
  have fifo: "subseq (fifo_at e 0 s1) (fifo s)" "(copyout_data_on env \<longrightarrow> (\<forall>i. copies i \<noteq> None)) \<Longrightarrow> fifo_at e 0 s1 = fifo s" using p k(5) by auto
  show ?thesis
  proof (cases "copyout_data_on env")
    case True
    let ?t = "if l \<noteq> 0xFFFF then ?s\<lparr>wr_index := Some l\<rparr> else ?s"
    have "kgni_irq_rx_hndlr env copies mems s = Some ?t" using r(1) True by (simp add: kgni_irq_rx_hndlr_def)
    moreover have t: "rx_at env (rx_next_to_clean ?t) 0 ?m ?t" "rx_next_to_clean ?t = e" "rx_count ?t = rx_count ?s" "delivered ?t = delivered s"
      using at nc sel by simp_all
    moreover have "rx_inv env ?t" by (rule rx_invI[OF k(1) t(1)]) (use use ful[OF True] in \<open>simp_all add: full_ok_def\<close>)
    moreover have "fifo ?t = fifo_at e 0 s1" using fifoI[OF t(1)] unfolding t(2) by simp
    ultimately show ?thesis using fifo by auto
  next
    case False
    have "set mems \<inter> dom (bufs s1) = {}" using p fr unfolding fresh_def fresh_copies_def by blast
    then have m: "distinct mems" "set mems \<inter> dom (bufs ?s) = {}" using fr(1) sel(4) by (simp_all add: fresh_def)
    have inv2: "rx_inv env ?s" by (rule rx_invI[OF k(1) at use]) (use False in \<open>simp add: full_ok_def\<close>)
    have fs: "fresh mems ?s" using m by (auto simp: fresh_def)
    from kgni_alloc_inv[OF inv2 fs] False obtain rc s2 where
      s2: "kgni_alloc_rx_buffs env mems ?s = Some (rc, s2)" "rx_inv env s2" "fifo s2 = fifo ?s" "delivered s2 = delivered ?s" by blast
    have "kgni_irq_rx_hndlr env copies mems s = Some s2" using r(1) False s2(1) by (simp add: kgni_irq_rx_hndlr_def Let_def)
    moreover have "fifo s2 = fifo_at e 0 s1" using s2(3) fifoI[OF at] f by simp
    ultimately show ?thesis using fifo s2 sel(3) by auto
  qed
qed

end
