(* ===== verification/Rx_Runs.thy ===== *)
theory Rx_Runs
  imports Rx_Irq
begin

text \<open>
  The other operations on the channel, arrival of packets, the tasklet, release and stop, and the runs of all of them.
\<close>

section \<open>The NIC\<close>

text \<open>The NIC writes a packet to the buffer of the next descriptor and sets the status of the descriptor.\<close>

definition rxd_ready :: "rx_env \<Rightarrow> packet \<Rightarrow> rx_ctrl \<Rightarrow> bool" where
  "rxd_ready env pl s \<longleftrightarrow> length pl \<le> rx_buff_size env \<and> \<not> rd_complete (rxds s ! hw_next s) \<and> buff_ptr (rx_buffer_info s ! hw_next s) \<noteq> None"

definition nic_arrive :: "packet \<Rightarrow> u64 \<Rightarrow> bool \<Rightarrow> bool \<Rightarrow> rx_ctrl \<Rightarrow> rx_ctrl run" where
  "nic_arrive pl imm err has_imm s = do {
     b \<leftarrow> array_get (rx_buffer_info s) (hw_next s);
     p \<leftarrow> buff_ptr b;
     ob \<leftarrow> bufs s p;
     let s = upd_rxd (hw_next s) (\<lambda>d. d\<lparr>rd_complete := True, rd_error := err, rd_immed := has_imm, rd_length := length pl, rd_immediate := imm\<rparr>) s;
     Some (s\<lparr>bufs := (bufs s)(p \<mapsto> ob\<lparr>rb_payload := pl\<rparr>), hw_next := next_entry s (hw_next s)\<rparr>)
   }"

lemma nic_arrive_at:
  assumes at: "rx_at env c k m s" and rdy: "rxd_ready env pl s"
  shows "\<exists>s' m'. nic_arrive pl imm err has_imm s = Some s' \<and> m = Suc m' \<and> rx_at env c (Suc k) m' s' \<and>
    fifo_at c (Suc k) s' = fifo_at c k s @ (if \<not> err \<and> has_imm then [(pl, imm)] else []) \<and> delivered s' = delivered s \<and>
    rx_count s' = rx_count s \<and> rx_next_to_use s' = rx_next_to_use s \<and> rx_next_to_clean s' = rx_next_to_clean s"
proof -
  note d = rx_atD[OF at]
  let ?i = "idx c s k"
  have i: "hw_next s = ?i" "?i < rx_count s" using d(5) idx_less[OF d(10)] by simp_all
  have "k \<noteq> rx_count s"
  proof
    assume "k = rx_count s"
    then have "?i = idx c s 0" using idx_last[OF d(1)] idx_0[OF d(1)] by simp
    with d(6)[OF d(10)] \<open>k = rx_count s\<close> d(10) rdy i(1) show False by (simp add: rxd_ready_def)
  qed
  then have k: "k < rx_count s" using d(2) by simp
  with d(7) rdy i(1) have "k < k + m" by (simp add: rxd_ready_def)
  then obtain m' where m': "m = Suc m'" by (cases m) auto
  obtain p where p: "buff_ptr (rx_buffer_info s ! ?i) = Some p" using rdy i(1) by (auto simp: rxd_ready_def)
  obtain ob where ob: "bufs s p = Some ob" using ownedD(1)[OF d(8) i(2) p] by blast
  have eo: "entry_ok env s ?i p ob" by (rule objs_okD(1)[OF d(9) i(2) p ob])
  have pn: "p \<notin> set (rxq s)" using ownedD(2)[OF d(8) i(2) p] .
  let ?f = "\<lambda>d :: ghal_rx_desc. d\<lparr>rd_complete := True, rd_error := err, rd_immed := has_imm, rd_length := length pl, rd_immediate := imm\<rparr>"
  let ?s = "(upd_rxd ?i ?f s)\<lparr>bufs := (bufs s)(p \<mapsto> ob\<lparr>rb_payload := pl\<rparr>), hw_next := next_entry s ?i\<rparr>"
  have run: "nic_arrive pl imm err has_imm s = Some ?s" using i p ob by (simp add: nic_arrive_def Let_def upd_rxd_def next_entry_def)
  have sel: "rx_buffer_info ?s = rx_buffer_info s" "rxq ?s = rxq s" "given ?s = given s" "length (rxds ?s) = rx_count s" using d(3) by simp_all
  have nth: "rxds ?s ! j = (if j = ?i then ?f (rxds s ! ?i) else rxds s ! j)" for j using upd_rxd_nth[of ?i s ?f j] i(2) d(3) by simp
  have eq: "idx c ?s = idx c s" by (rule idx_cong) simp
  have neq: "idx c s j = ?i \<longleftrightarrow> j = k" if "j < rx_count s" for j using idx_inj[of c s j k] that k by blast
  have sh: "shape c (Suc k) m' ?s"
    unfolding shape_def eq sel
  proof (intro conjI allI impI)
    fix j assume j: "j < rx_count s"
    show "rd_complete (rxds ?s ! idx c s j) \<longleftrightarrow> j < Suc k" using d(6)[OF j] neq[OF j] unfolding nth by auto
    show "buff_ptr (rx_buffer_info s ! idx c s j) \<noteq> None \<longleftrightarrow> j < Suc k + m'" using d(7)[OF j] m' by simp
  qed (use d m' next_idx[OF d(10)] in auto)
  have ow: "owned ?s" using d(8) p ob ring_bufsI[OF i(2) p] ring_bufs_cong[OF sel(1)] unfolding owned_def sel by auto
  have ok: "objs_ok env ?s"
    unfolding objs_ok_def sel
  proof (intro conjI allI impI ballI)
    fix j q oq assume j: "j < rx_count s" "buff_ptr (rx_buffer_info s ! j) = Some q" "bufs ?s q = Some oq"
    show "entry_ok env ?s j q oq"
    proof (cases "j = ?i")
      case True
      with j p have "q = p" "oq = ob\<lparr>rb_payload := pl\<rparr>" by auto
      with eo rdy True show ?thesis unfolding entry_ok_def nth sel by (simp add: rxd_ready_def)
    next
      case False
      then have "q \<noteq> p" using ownedD(4)[OF d(8) i(2) p j(1)] j(2) by auto
      with j(3) objs_okD(1)[OF d(9) j(1,2)] False show ?thesis unfolding entry_ok_def nth sel by auto
    qed
  next
    fix q oq assume q: "q \<in> set (rxq s)" "bufs ?s q = Some oq"
    with pn have "q \<noteq> p" by auto
    with q objs_okD(2)[OF d(9) q(1)] show "queued_ok q oq" by simp
  qed
  have rk: "ring_pkt ?s (idx c s j) = ring_pkt s (idx c s j)" "good (rxds ?s ! idx c s j) = good (rxds s ! idx c s j)" if "j < k" for j
  proof -
    have ne: "idx c s j \<noteq> ?i" using neq[of j] that k by simp
    then have "buff_ptr (rx_buffer_info s ! idx c s j) \<noteq> Some p" using ownedD(4)[OF d(8) i(2) p idx_less[OF d(10)]] by blast
    with ne show "ring_pkt ?s (idx c s j) = ring_pkt s (idx c s j)" unfolding ring_pkt_def nth sel by (auto split: option.split)
    show "good (rxds ?s ! idx c s j) = good (rxds s ! idx c s j)" using ne unfolding nth by simp
  qed
  have pk: "ring_pkts c k ?s = ring_pkts c k s" by (rule ring_pkts_cong) (use rk in simp_all)
  have ps: "ring_pkts c (Suc k) ?s = ring_pkts c k ?s @ (if good (rxds ?s ! ?i) then [ring_pkt ?s ?i] else [])"
    by (simp add: ring_pkts_def eq)
  have gd: "good (rxds ?s ! ?i) \<longleftrightarrow> \<not> err \<and> has_imm" unfolding nth by (simp add: good_def)
  have rp: "ring_pkt ?s ?i = (pl, imm)" unfolding ring_pkt_def nth sel using p by simp
  have qp: "map (queue_pkt ?s) (rxq s) = map (queue_pkt s) (rxq s)" using pn by (auto simp: queue_pkt_def)
  have "fifo_at c (Suc k) ?s = fifo_at c k s @ (if \<not> err \<and> has_imm then [(pl, imm)] else [])"
    unfolding fifo_at_def sel ps pk gd rp qp append_assoc ..
  with run m' sh ow ok show ?thesis by (intro exI[of _ ?s] exI[of _ m']) (simp add: rx_at_def)
qed

lemma nic_arrive_inv:
  assumes inv: "rx_inv env s" and rdy: "rxd_ready env pl s"
  shows "\<exists>s'. nic_arrive pl imm err has_imm s = Some s' \<and> rx_inv env s' \<and> delivered s' = delivered s \<and>
    fifo s' = fifo s @ (if \<not> err \<and> has_imm then [(pl, imm)] else [])"
proof -
  from inv obtain k m where k: "rx_env_ok env" "rx_at env (rx_next_to_clean s) k m s" "use_ok env (rx_next_to_clean s) k m s (rx_next_to_use s)"
    "full_ok env (k + m) s" "fifo s = fifo_at (rx_next_to_clean s) k s" by (rule rx_invE)
  from nic_arrive_at[OF k(2) rdy, of imm err has_imm] obtain s' m' where
    r: "nic_arrive pl imm err has_imm s = Some s'" "m = Suc m'" "rx_at env (rx_next_to_clean s) (Suc k) m' s'"
      "fifo_at (rx_next_to_clean s) (Suc k) s' = fifo_at (rx_next_to_clean s) k s @ (if \<not> err \<and> has_imm then [(pl, imm)] else [])" "delivered s' = delivered s"
      "rx_count s' = rx_count s" "rx_next_to_use s' = rx_next_to_use s" "rx_next_to_clean s' = rx_next_to_clean s" by blast
  have "use_ok env (rx_next_to_clean s') (Suc k) m' s' (rx_next_to_use s')" "full_ok env (Suc k + m') s'"
    using k(3,4) r idx_cong[OF r(6)] by (simp_all add: use_ok_def full_ok_def)
  with r(3,8) have "rx_inv env s'" unfolding rx_inv_def by (metis k(1))
  moreover have "fifo s' = fifo s @ (if \<not> err \<and> has_imm then [(pl, imm)] else [])" using fifoI[of env s'] r(3,4,8) k(5) by simp
  ultimately show ?thesis using r(1,5) by blast
qed

section \<open>The queue and the channels\<close>

text \<open>A step that leaves the ring alone and moves or frees buffers outside it.\<close>

lemma rx_at_outside:
  assumes at: "rx_at env c k m s" and ring: "rx_buffer_info s' = rx_buffer_info s" "rxds s' = rxds s" "hw_next s' = hw_next s"
    and bs: "\<And>q. q \<in> ring_bufs s \<Longrightarrow> bufs s' q = bufs s q" and dm: "dom (bufs s') = ring_bufs s \<union> set (rxq s') \<union> set (given s')"
    and ds: "distinct (rxq s' @ given s')" "ring_bufs s \<inter> set (rxq s' @ given s') = {}"
    and ok: "\<And>p ob. p \<in> set (rxq s') \<Longrightarrow> bufs s' p = Some ob \<Longrightarrow> queued_ok p ob"
  shows "rx_at env c k m s' \<and> ring_pkts c k s' = ring_pkts c k s"
proof -
  note d = rx_atD[OF at]
  have eq: "idx c s' = idx c s" "ring_bufs s' = ring_bufs s" using idx_cong[of s' s c] ring_bufs_cong[OF ring(1)] ring(1) by simp_all
  have b: "bufs s' q = bufs s q" if "i < rx_count s" "buff_ptr (rx_buffer_info s ! i) = Some q" for i q using bs[OF ring_bufsI[OF that]] .
  have "shape c k m s'" using at unfolding rx_at_def shape_def eq ring by blast
  moreover have "owned s'" using d(8) dm ds unfolding owned_def eq ring by blast
  moreover have "objs_ok env s'"
    unfolding objs_ok_def ring
  proof (intro conjI allI impI ballI)
    fix i p ob assume i: "i < rx_count s" "buff_ptr (rx_buffer_info s ! i) = Some p" "bufs s' p = Some ob"
    with b[OF i(1,2)] have "bufs s p = Some ob" by simp
    from objs_okD(1)[OF d(9) i(1,2) this] show "entry_ok env s' i p ob" by (simp add: entry_ok_def ring)
  qed (rule ok)
  moreover have "ring_pkts c k s' = ring_pkts c k s"
  proof (rule ring_pkts_cong)
    fix j
    show "ring_pkt s' (idx c s j) = ring_pkt s (idx c s j)"
      using b[OF idx_less[OF d(10), of c j]] unfolding ring_pkt_def ring by (auto split: option.split)
  qed (simp_all add: ring)
  ultimately show ?thesis by (simp add: rx_at_def)
qed

text \<open>What becomes of a packet: the first channel that handles it gets it, otherwise it is dropped.\<close>

definition accept :: "rx_env \<Rightarrow> packet \<times> u64 \<Rightarrow> (nat \<times> packet \<times> u64) list" where
  "accept env = (\<lambda>(pl, imm). (case find (\<lambda>i. chnl_dest env i imm \<and> rcv_handled env i pl) [0..<KGNI_MAX_CHNL_NUMBER env] of
       None \<Rightarrow> [] | Some i \<Rightarrow> [(i, pl, imm)]))"

definition accepted :: "rx_env \<Rightarrow> (packet \<times> u64) list \<Rightarrow> (nat \<times> packet \<times> u64) list" where
  "accepted env xs = concat (map (accept env) xs)"

lemma accepted_simps [simp]: "accepted env [] = []" "accepted env (x # xs) = accept env x @ accepted env xs"
    "accepted env (xs @ ys) = accepted env xs @ accepted env ys"
  by (simp_all add: accepted_def)

lemma accepted_subseq: "subseq xs ys \<Longrightarrow> subseq (accepted env xs) (accepted env ys)"
  by (induction rule: list_emb.induct) (auto simp: list_emb_append_mono intro: list_emb_append2)

definition same_ring :: "rx_ctrl \<Rightarrow> rx_ctrl \<Rightarrow> bool" where
  "same_ring s s' \<longleftrightarrow> rx_count s' = rx_count s \<and> rx_next_to_use s' = rx_next_to_use s \<and> rx_next_to_clean s' = rx_next_to_clean s"

lemma rx_deliver_at:
  assumes at: "rx_at env c k m s" and q: "rxq s = p # ps"
  shows "\<exists>s'. rx_deliver env p (s\<lparr>rxq := ps\<rparr>) = Some s' \<and> rx_at env c k m s' \<and> rxq s' = ps \<and> same_ring s s' \<and>
    fifo_at c k s = queue_pkt s p # fifo_at c k s' \<and> delivered s' = delivered s @ accept env (queue_pkt s p)"
proof -
  note d = rx_atD[OF at]
  note ow = d(8)[unfolded owned_def q]
  have "p \<in> dom (bufs s)" using ow by auto
  then obtain ob where ob: "bufs s p = Some ob" by auto
  have po: "queued_ok p ob" by (rule objs_okD(2)[OF d(9) _ ob]) (simp add: q)
  have ps: "p \<notin> set ps" "p \<notin> set (given s)" "p \<notin> ring_bufs s" using ow by auto
  have qok: "queued_ok x ox" if "x \<in> set ps" "bufs s x = Some ox" for x ox using objs_okD(2)[OF d(9) _ that(2)] that(1) q by simp
  have qp: "queue_pkt s p = (take (rb_pkt_len ob) (rb_payload ob), rb_immediate ob)" by (simp add: queue_pkt_def ob)
  have ff: "fifo_at c k s = queue_pkt s p # fifo_at c k s'" if "rxq s' = ps" "ring_pkts c k s' = ring_pkts c k s" "\<And>x. x \<noteq> p \<Longrightarrow> bufs s' x = bufs s x" for s'
  proof -
    have "bufs s' x = bufs s x" if "x \<in> set ps" for x using that ps(1) by (intro \<open>\<And>x. x \<noteq> p \<Longrightarrow> bufs s' x = bufs s x\<close>) auto
    then have "queue_pkt s' x = queue_pkt s x" if "x \<in> set ps" for x using that by (simp add: queue_pkt_def)
    then show ?thesis using that(1,2) by (simp add: fifo_at_def q)
  qed
  show ?thesis
  proof (cases "rx_chnl env ob")
    case None
    let ?s = "s\<lparr>rxq := ps, bufs := (bufs s)(p := None)\<rparr>"
    have "rx_deliver env p (s\<lparr>rxq := ps\<rparr>) = Some ?s" using ob po None by (simp add: rx_deliver_def queued_ok_def kfree_def)
    moreover have a: "rx_at env c k m ?s \<and> ring_pkts c k ?s = ring_pkts c k s"
      by (rule rx_at_outside[OF at]) (use ow ps qok in \<open>auto split: if_splits\<close>)
    moreover have "accept env (queue_pkt s p) = []" using None by (simp add: accept_def qp rx_chnl_def)
    moreover have "fifo_at c k s = queue_pkt s p # fifo_at c k ?s" by (rule ff) (use a in simp_all)
    ultimately show ?thesis by (simp add: same_ring_def)
  next
    case (Some i)
    let ?s = "s\<lparr>rxq := ps, given := given s @ [p], delivered := delivered s @ [(i, take (rb_pkt_len ob) (rb_payload ob), rb_immediate ob)]\<rparr>"
    have "rx_deliver env p (s\<lparr>rxq := ps\<rparr>) = Some ?s" using ob po Some by (simp add: rx_deliver_def queued_ok_def)
    moreover have a: "rx_at env c k m ?s \<and> ring_pkts c k ?s = ring_pkts c k s"
      by (rule rx_at_outside[OF at]) (use ow ps qok in auto)
    moreover have "accept env (queue_pkt s p) = [(i, take (rb_pkt_len ob) (rb_payload ob), rb_immediate ob)]"
      using Some by (simp add: accept_def qp rx_chnl_def)
    moreover have "fifo_at c k s = queue_pkt s p # fifo_at c k ?s" by (rule ff) (use a in simp_all)
    ultimately show ?thesis by (simp add: same_ring_def)
  qed
qed

lemma proc_rx_loop_at:
  assumes "rx_at env c k m s" and "rxq s = ps"
  shows "\<exists>s' xs. proc_rx_loop env late n ps s = Some s' \<and> rx_at env c k m s' \<and> same_ring s s' \<and>
    fifo_at c k s = xs @ fifo_at c k s' \<and> delivered s' = delivered s @ accepted env xs"
  using assms
proof (induction ps arbitrary: n s)
  case Nil
  then show ?case by (intro exI[of _ s] exI[of _ "[]"]) (simp add: same_ring_def)
next
  case (Cons p ps)
  from rx_deliver_at[OF Cons.prems] obtain s1 where s1: "rx_deliver env p (s\<lparr>rxq := ps\<rparr>) = Some s1" "rx_at env c k m s1" "rxq s1 = ps" "same_ring s s1"
    "fifo_at c k s = queue_pkt s p # fifo_at c k s1" "delivered s1 = delivered s @ accept env (queue_pkt s p)" by blast
  show ?case
  proof (cases "late n")
    case True
    with s1 show ?thesis by (intro exI[of _ "s1\<lparr>rx_tasklet := True\<rparr>"] exI[of _ "[queue_pkt s p]"]) (simp add: same_ring_def)
  next
    case False
    from Cons.IH[OF s1(2,3), of "Suc n"] obtain s' xs where r: "proc_rx_loop env late (Suc n) ps s1 = Some s'" "rx_at env c k m s'" "same_ring s1 s'"
      "fifo_at c k s1 = xs @ fifo_at c k s'" "delivered s' = delivered s1 @ accepted env xs" by blast
    show ?thesis by (intro exI[of _ s'] exI[of _ "queue_pkt s p # xs"]) (use r s1 False in \<open>simp add: same_ring_def\<close>)
  qed
qed

lemma same_ring_inv:
  assumes inv: "rx_inv env s" and "\<And>k m. rx_at env (rx_next_to_clean s) k m s \<Longrightarrow> rx_at env (rx_next_to_clean s) k m s'" and "same_ring s s'"
  shows "rx_inv env s'"
proof -
  from inv obtain k m where k: "rx_env_ok env" "rx_at env (rx_next_to_clean s) k m s" "use_ok env (rx_next_to_clean s) k m s (rx_next_to_use s)"
    "full_ok env (k + m) s" by (rule rx_invE)
  with assms(2)[OF k(2)] assms(3) show ?thesis using idx_cong[of s' s] by (intro rx_invI[of env s' k m]) (auto simp: same_ring_def use_ok_def full_ok_def)
qed

lemma kgni_proc_rx_queue_inv:
  assumes inv: "rx_inv env s"
  shows "\<exists>s' xs. kgni_proc_rx_queue env late s = Some s' \<and> rx_inv env s' \<and> fifo s = xs @ fifo s' \<and> delivered s' = delivered s @ accepted env xs"
proof -
  let ?s = "s\<lparr>rx_tasklet := False\<rparr>"
  from inv obtain k m where k: "rx_env_ok env" "rx_at env (rx_next_to_clean s) k m s" "use_ok env (rx_next_to_clean s) k m s (rx_next_to_use s)"
    "full_ok env (k + m) s" "fifo s = fifo_at (rx_next_to_clean s) k s" by (rule rx_invE)
  have "rx_at env (rx_next_to_clean s) k m ?s" using k(2) by simp
  from proc_rx_loop_at[OF this, of "rxq s" late 0] obtain s' xs where
    r: "proc_rx_loop env late 0 (rxq s) ?s = Some s'" "rx_at env (rx_next_to_clean s) k m s'" "same_ring ?s s'"
      "fifo_at (rx_next_to_clean s) k ?s = xs @ fifo_at (rx_next_to_clean s) k s'" "delivered s' = delivered ?s @ accepted env xs" by auto
  have sr: "same_ring s s'" using r(3) by (simp add: same_ring_def)
  have "rx_inv env s'" using k r(2) sr idx_cong[of s' s] by (intro rx_invI[of env s' k m]) (auto simp: same_ring_def use_ok_def full_ok_def)
  moreover have "fifo s = xs @ fifo s'" using r(2,4) k(5) fifoI[of env s' k m] sr by (simp add: same_ring_def)
  ultimately show ?thesis using r(1,5) by (auto simp: kgni_proc_rx_queue_def)
qed

section \<open>Stopping the channel and giving buffers back\<close>

text \<open>Only the buffers in the ring are freed.\<close>

definition freed :: "nat list \<Rightarrow> rx_ctrl \<Rightarrow> rx_ctrl \<Rightarrow> bool" where
  "freed is s s' \<longleftrightarrow> rx_count s' = rx_count s \<and> rxds s' = rxds s \<and> hw_next s' = hw_next s \<and> rxq s' = rxq s \<and> given s' = given s \<and>
     delivered s' = delivered s \<and> (\<forall>q \<in> set (rxq s). bufs s' q = bufs s q) \<and>
     (\<forall>i. buff_ptr (rx_buffer_info s' ! i) = (if i \<in> set is \<and> i < rx_count s then None else buff_ptr (rx_buffer_info s ! i)))"

lemma free_one:
  assumes ow: "owned s" and i: "i < rx_count s" and p: "buff_ptr (rx_buffer_info s ! i) = Some p"
  shows "owned (upd_info i (\<lambda>b. b\<lparr>buff_ptr := None\<rparr>) (s\<lparr>bufs := (bufs s)(p := None)\<rparr>))" (is "owned ?s")
proof -
  have nth: "rx_buffer_info ?s ! j = (if j = i then (rx_buffer_info s ! i)\<lparr>buff_ptr := None\<rparr> else rx_buffer_info s ! j)" for j
    using i by (simp add: upd_info_def nth_list_update)
  have rb: "ring_bufs ?s = ring_bufs s - {p}" by (rule ring_bufs_take[OF _ _ i p _ ow]) (simp_all add: nth)
  have pn: "p \<notin> set (rxq s)" "p \<notin> set (given s)" using ownedD(2,3)[OF ow i p] .
  show ?thesis
    unfolding owned_def rb
  proof (intro conjI allI impI)
    fix a b assume "a < rx_count ?s" "b < rx_count ?s" "buff_ptr (rx_buffer_info ?s ! a) \<noteq> None"
      "buff_ptr (rx_buffer_info ?s ! a) = buff_ptr (rx_buffer_info ?s ! b)"
    then show "a = b" using ow unfolding nth owned_def by (auto split: if_splits)
  qed (use ow pn in \<open>auto simp: owned_def\<close>)
qed

lemma free_loop_at:
  assumes "owned s" and "\<forall>i \<in> set is. i < rx_count s"
  shows "\<exists>s'. free_loop is s = Some s' \<and> owned s' \<and> freed is s s'"
  using assms
proof (induction "is" arbitrary: s)
  case Nil
  then show ?case by (simp add: freed_def)
next
  case (Cons i "is")
  have i: "i < rx_count s" using Cons.prems(2) by simp
  show ?case
  proof (cases "buff_ptr (rx_buffer_info s ! i)")
    case None
    from Cons.IH[OF Cons.prems(1)] Cons.prems(2) obtain s' where "free_loop is s = Some s'" "owned s'" "freed is s s'" by auto
    with None i show ?thesis by (auto simp: freed_def)
  next
    case (Some p)
    let ?s = "upd_info i (\<lambda>b. b\<lparr>buff_ptr := None\<rparr>) (s\<lparr>bufs := (bufs s)(p := None)\<rparr>)"
    have ow: "owned ?s" by (rule free_one[OF Cons.prems(1) i Some])
    obtain ob where ob: "bufs s p = Some ob" using ownedD(1)[OF Cons.prems(1) i Some] by blast
    have pn: "p \<notin> set (rxq s)" using ownedD(2)[OF Cons.prems(1) i Some] .
    from Cons.IH[OF ow] Cons.prems(2) obtain s' where r: "free_loop is ?s = Some s'" "owned s'" "freed is ?s s'" by auto
    have nth: "buff_ptr (rx_buffer_info ?s ! j) = (if j = i then None else buff_ptr (rx_buffer_info s ! j))" for j
      using i by (simp add: upd_info_def nth_list_update)
    have "freed (i # is) s s'" using r(3) pn i unfolding freed_def nth by (auto simp: nth)
    with r Some i ob show ?thesis by (simp add: kfree_def)
  qed
qed

lemma owned_cong:
  "rx_buffer_info s' = rx_buffer_info s \<Longrightarrow> bufs s' = bufs s \<Longrightarrow> rxq s' = rxq s \<Longrightarrow> given s' = given s \<Longrightarrow> owned s' = owned s"
  unfolding owned_def ring_bufs_def by (simp only:)

lemma kgni_bte_stop_inv:
  assumes inv: "rx_inv env s"
  shows "\<exists>s' lost. kgni_bte_stop s = Some s' \<and> rx_inv env s' \<and> fifo s = fifo s' @ lost \<and> delivered s' = delivered s \<and> ring_bufs s' = {}"
proof -
  from inv obtain k m where k: "rx_env_ok env" "rx_at env (rx_next_to_clean s) k m s" "use_ok env (rx_next_to_clean s) k m s (rx_next_to_use s)"
    "full_ok env (k + m) s" "fifo s = fifo_at (rx_next_to_clean s) k s" by (rule rx_invE)
  note d = rx_atD[OF k(2)]
  let ?r = "ghal_reset_vc s"
  have ow: "owned ?r" using d(8) owned_cong[of ?r s] by (simp add: ghal_reset_vc_def)
  from free_loop_at[OF ow, of "[0..<rx_count ?r]"] obtain s1 where
    s1: "free_loop [0..<rx_count ?r] ?r = Some s1" "owned s1" "freed [0..<rx_count ?r] ?r s1" by auto
  let ?s = "kgni_reset_rings s1"
  note f = s1(3)[unfolded freed_def]
  have run: "kgni_bte_stop s = Some ?s" using s1(1) by (simp add: kgni_bte_stop_def kgni_free_rx_buffs_def)
  have n: "rx_count ?s = rx_count s" "rxq ?s = rxq s" "delivered ?s = delivered s" "rx_next_to_clean ?s = 0" "rx_next_to_use ?s = 0" "hw_next ?s = 0"
    "bufs ?s = bufs s1" "rxds ?s = map clear_status (rxds s)" using f by (simp_all add: kgni_reset_rings_def ghal_reset_vc_def)
  have none: "buff_ptr (rx_buffer_info ?s ! i) = None" if "i < rx_count s" for i using f that by (simp add: kgni_reset_rings_def ghal_reset_vc_def)
  have bq: "bufs ?s q = bufs s q" if "q \<in> set (rxq s)" for q using f that by (simp add: n(7) ghal_reset_vc_def)
  have i: "idx 0 ?s j < rx_count s" for j using idx_less[of ?s] d(10) n(1) by simp
  have "shape 0 0 0 ?s" unfolding shape_def using n(1,6,8) d(3,4,10) none[OF i] i by (auto simp: idx_0)
  moreover have "owned ?s" using s1(2) owned_cong[of ?s s1] by (simp add: kgni_reset_rings_def)
  moreover have "objs_ok env ?s" unfolding objs_ok_def n(1,2) using none bq objs_okD(2)[OF d(9)] by auto
  ultimately have at: "rx_at env (rx_next_to_clean ?s) 0 0 ?s" by (simp add: rx_at_def n)
  then have "rx_inv env ?s" by (rule rx_invI[OF k(1)]) (use d(10) n in \<open>simp_all add: use_ok_def full_ok_def idx_0\<close>)
  moreover have "fifo s = fifo ?s @ ring_pkts (rx_next_to_clean s) k s"
    using fifoI[OF at] k(5) bq by (auto simp: fifo_at_def n queue_pkt_def)
  moreover have "ring_bufs ?s = {}" using none n(1) by (auto simp: ring_bufs_def)
  ultimately show ?thesis using run n(3) by blast
qed

text \<open>A channel gives the buffer of a packet back.\<close>

definition chnl_pkt_free :: "addr \<Rightarrow> rx_ctrl \<Rightarrow> rx_ctrl run" where
  "chnl_pkt_free p s = kfree p (s\<lparr>given := remove1 p (given s)\<rparr>)"

lemma chnl_pkt_free_inv:
  assumes inv: "rx_inv env s" and p: "p \<in> set (given s)"
  shows "\<exists>s'. chnl_pkt_free p s = Some s' \<and> rx_inv env s' \<and> fifo s' = fifo s \<and> delivered s' = delivered s"
proof -
  let ?s = "s\<lparr>given := remove1 p (given s), bufs := (bufs s)(p := None)\<rparr>"
  from inv obtain k m where k: "rx_env_ok env" "rx_at env (rx_next_to_clean s) k m s" "use_ok env (rx_next_to_clean s) k m s (rx_next_to_use s)"
    "full_ok env (k + m) s" "fifo s = fifo_at (rx_next_to_clean s) k s" by (rule rx_invE)
  note d = rx_atD[OF k(2)]
  note ow = d(8)[unfolded owned_def]
  have pn: "p \<notin> set (rxq s)" "p \<notin> ring_bufs s" "p \<in> dom (bufs s)" using ow p by auto
  then have run: "chnl_pkt_free p s = Some ?s" by (auto simp: chnl_pkt_free_def kfree_def)
  have dg: "distinct (given s)" using ow by simp
  have at: "rx_at env (rx_next_to_clean s) k m ?s \<and> ring_pkts (rx_next_to_clean s) k ?s = ring_pkts (rx_next_to_clean s) k s"
    by (rule rx_at_outside[OF k(2)]) (use ow pn p objs_okD(2)[OF d(9)] in \<open>auto simp: dg split: if_splits\<close>)
  have sr: "same_ring s ?s" by (simp add: same_ring_def)
  have "rx_inv env ?s" using k at idx_cong[of ?s s] by (intro rx_invI[of env ?s k m]) (auto simp: use_ok_def full_ok_def)
  moreover have "map (queue_pkt ?s) (rxq s) = map (queue_pkt s) (rxq s)" using pn(1) by (auto simp: queue_pkt_def)
  then have "fifo ?s = fifo s" using fifoI[of env ?s k m] at k(5) by (simp add: fifo_at_def)
  ultimately show ?thesis using run by simp
qed

lemma conf_rx_ring_inv:
  assumes "rx_env_ok env" and "0 < n" and "n \<le> 0xFFFF"
  shows "rx_inv env (conf_rx_ring n)" "fifo (conf_rx_ring n) = []"
proof -
  have i: "idx 0 (conf_rx_ring n) j < n" for j using assms(2) by (simp add: idx_def conf_rx_ring_def)
  have "shape 0 0 0 (conf_rx_ring n)" using assms(2,3) i by (simp add: shape_def conf_rx_ring_def idx_def)
  moreover have "owned (conf_rx_ring n)" "objs_ok env (conf_rx_ring n)" by (auto simp: owned_def objs_ok_def ring_bufs_def conf_rx_ring_def)
  ultimately have at: "rx_at env (rx_next_to_clean (conf_rx_ring n)) 0 0 (conf_rx_ring n)" by (simp add: rx_at_def conf_rx_ring_def)
  then show "rx_inv env (conf_rx_ring n)" by (rule rx_invI[OF assms(1)]) (use assms(2) in \<open>simp_all add: use_ok_def full_ok_def conf_rx_ring_def idx_def\<close>)
  show "fifo (conf_rx_ring n) = []" using fifoI[OF at] by (simp add: fifo_at_def conf_rx_ring_def)
qed

section \<open>Runs\<close>

text \<open>
  The operations in any order: allocation by the watchdog or at start-up, the interrupt handler, the tasklet, a packet written by the
  NIC, a buffer given back by a channel, and the stop of the channel. The first part of the state is the list of good packets that
  have arrived.
\<close>

datatype rx_op =
    RxAlloc "addr list"
  | RxIrq "nat \<Rightarrow> addr option" "addr list"
  | RxTasklet "nat \<Rightarrow> bool"
  | RxArrive packet u64 bool bool
  | RxFree addr
  | RxStop

type_synonym rx_run = "(packet \<times> u64) list \<times> rx_ctrl"

fun rx_pre :: "rx_env \<Rightarrow> bool \<Rightarrow> rx_op \<Rightarrow> rx_run \<Rightarrow> bool" where
  "rx_pre env lossless (RxAlloc mems) (h, s) \<longleftrightarrow> fresh mems s \<and> (copyout_data_on env \<longrightarrow> rx_count s \<le> length mems)"
| "rx_pre env lossless (RxIrq copies mems) (h, s) \<longleftrightarrow> fresh mems s \<and> fresh_copies copies mems s \<and>
     (lossless \<and> copyout_data_on env \<longrightarrow> (\<forall>i. copies i \<noteq> None))"
| "rx_pre env lossless (RxTasklet late) (h, s) \<longleftrightarrow> True"
| "rx_pre env lossless (RxArrive pl imm err has_imm) (h, s) \<longleftrightarrow> rxd_ready env pl s"
| "rx_pre env lossless (RxFree p) (h, s) \<longleftrightarrow> p \<in> set (given s)"
| "rx_pre env lossless RxStop (h, s) \<longleftrightarrow> \<not> lossless"

fun rx_exec :: "rx_env \<Rightarrow> rx_op \<Rightarrow> rx_run \<Rightarrow> rx_run run" where
  "rx_exec env (RxAlloc mems) (h, s) = do { (rc, s) \<leftarrow> kgni_alloc_rx_buffs env mems s; Some (h, s) }"
| "rx_exec env (RxIrq copies mems) (h, s) = do { s \<leftarrow> kgni_irq_rx_hndlr env copies mems s; Some (h, s) }"
| "rx_exec env (RxTasklet late) (h, s) = do { s \<leftarrow> kgni_proc_rx_queue env late s; Some (h, s) }"
| "rx_exec env (RxArrive pl imm err has_imm) (h, s) = do {
     s \<leftarrow> nic_arrive pl imm err has_imm s;
     Some (h @ (if \<not> err \<and> has_imm then [(pl, imm)] else []), s)
   }"
| "rx_exec env (RxFree p) (h, s) = do { s \<leftarrow> chnl_pkt_free p s; Some (h, s) }"
| "rx_exec env RxStop (h, s) = do { s \<leftarrow> kgni_bte_stop s; Some (h, s) }"

definition rx_safe :: "rx_env \<Rightarrow> rx_run \<Rightarrow> bool" where
  "rx_safe env r \<longleftrightarrow> rx_inv env (snd r)"

text \<open>What the channels got, followed by what they are going to get, against what they should get of the packets that arrived.\<close>

definition rx_order :: "rx_env \<Rightarrow> bool \<Rightarrow> rx_run \<Rightarrow> bool" where
  "rx_order env lossless r \<longleftrightarrow>
     subseq (delivered (snd r) @ accepted env (fifo (snd r))) (accepted env (fst r)) \<and>
     (lossless \<longrightarrow> delivered (snd r) @ accepted env (fifo (snd r)) = accepted env (fst r))"

text \<open>One operation: it returns, and the packets on their way change as the operation allows.\<close>

definition rx_moves :: "rx_env \<Rightarrow> bool \<Rightarrow> rx_run \<Rightarrow> rx_run \<Rightarrow> bool" where
  "rx_moves env lossless r r' \<longleftrightarrow> (\<exists>new got.
     fst r' = fst r @ new \<and> delivered (snd r') = delivered (snd r) @ accepted env got \<and>
     subseq (got @ fifo (snd r')) (fifo (snd r) @ new) \<and> (lossless \<longrightarrow> got @ fifo (snd r') = fifo (snd r) @ new))"

lemma rx_movesI:
  "fst r' = fst r @ new \<Longrightarrow> delivered (snd r') = delivered (snd r) @ accepted env got \<Longrightarrow> subseq (got @ fifo (snd r')) (fifo (snd r) @ new) \<Longrightarrow>
   (lossless \<Longrightarrow> got @ fifo (snd r') = fifo (snd r) @ new) \<Longrightarrow> rx_moves env lossless r r'"
  unfolding rx_moves_def by blast

lemma rx_step:
  assumes "rx_safe env r" and "rx_pre env lossless op r"
  shows "\<exists>r'. rx_exec env op r = Some r' \<and> rx_safe env r' \<and> rx_moves env lossless r r'"
proof -
  obtain h s where r: "r = (h, s)" by (cases r)
  have inv: "rx_inv env s" using assms(1) by (simp add: rx_safe_def r)
  show ?thesis
  proof (cases op)
    case (RxAlloc mems)
    then have "fresh mems s" "copyout_data_on env \<longrightarrow> rx_count s \<le> length mems" using assms(2) by (simp_all add: r)
    from kgni_alloc_inv[OF inv this] obtain rc s' where "kgni_alloc_rx_buffs env mems s = Some (rc, s')" "rx_inv env s'" "fifo s' = fifo s" "delivered s' = delivered s" by blast
    then show ?thesis by (intro exI[of _ "(h, s')"] conjI rx_movesI[of _ _ "[]" _ "[]"]) (simp_all add: RxAlloc r rx_safe_def)
  next
    case (RxIrq copies mems)
    then have f: "fresh mems s" "fresh_copies copies mems s" "lossless \<Longrightarrow> copyout_data_on env \<longrightarrow> (\<forall>i. copies i \<noteq> None)" using assms(2) by (simp_all add: r)
    from kgni_irq_rx_hndlr_inv[OF inv f(1,2)] obtain s' where "kgni_irq_rx_hndlr env copies mems s = Some s'" "rx_inv env s'" "delivered s' = delivered s"
      "subseq (fifo s') (fifo s)" "(copyout_data_on env \<longrightarrow> (\<forall>i. copies i \<noteq> None)) \<longrightarrow> fifo s' = fifo s" by blast
    with f(3) show ?thesis by (intro exI[of _ "(h, s')"] conjI rx_movesI[of _ _ "[]" _ "[]"]) (simp_all add: RxIrq r rx_safe_def)
  next
    case (RxTasklet late)
    from kgni_proc_rx_queue_inv[OF inv, of late] obtain s' xs where "kgni_proc_rx_queue env late s = Some s'" "rx_inv env s'" "fifo s = xs @ fifo s'"
      "delivered s' = delivered s @ accepted env xs" by blast
    then show ?thesis by (intro exI[of _ "(h, s')"] conjI rx_movesI[of _ _ "[]" _ xs]) (simp_all add: RxTasklet r rx_safe_def)
  next
    case (RxArrive pl imm err has_imm)
    then have "rxd_ready env pl s" using assms(2) by (simp add: r)
    from nic_arrive_inv[OF inv this, of imm err has_imm] obtain s' where "nic_arrive pl imm err has_imm s = Some s'" "rx_inv env s'" "delivered s' = delivered s"
      "fifo s' = fifo s @ (if \<not> err \<and> has_imm then [(pl, imm)] else [])" by blast
    then show ?thesis
      by (intro exI[of _ "(h @ (if \<not> err \<and> has_imm then [(pl, imm)] else []), s')"] conjI rx_movesI[of _ _ "if \<not> err \<and> has_imm then [(pl, imm)] else []" _ "[]"])
        (simp_all add: RxArrive r rx_safe_def)
  next
    case (RxFree p)
    then have "p \<in> set (given s)" using assms(2) by (simp add: r)
    from chnl_pkt_free_inv[OF inv this] obtain s' where "chnl_pkt_free p s = Some s'" "rx_inv env s'" "fifo s' = fifo s" "delivered s' = delivered s" by blast
    then show ?thesis by (intro exI[of _ "(h, s')"] conjI rx_movesI[of _ _ "[]" _ "[]"]) (simp_all add: RxFree r rx_safe_def)
  next
    case RxStop
    from kgni_bte_stop_inv[OF inv] obtain s' lost where "kgni_bte_stop s = Some s'" "rx_inv env s'" "fifo s = fifo s' @ lost" "delivered s' = delivered s" by blast
    moreover have "subseq (fifo s') (fifo s' @ lost)" by (rule prefix_imp_subseq) simp
    ultimately show ?thesis using assms(2) by (intro exI[of _ "(h, s')"] conjI rx_movesI[of _ _ "[]" _ "[]"]) (simp_all add: RxStop r rx_safe_def)
  qed
qed

lemma rx_moves_order:
  assumes "rx_order env lossless r" and "rx_moves env lossless r r'"
  shows "rx_order env lossless r'"
proof -
  from assms(2) obtain new got where m: "fst r' = fst r @ new" "delivered (snd r') = delivered (snd r) @ accepted env got"
    "subseq (got @ fifo (snd r')) (fifo (snd r) @ new)" "lossless \<longrightarrow> got @ fifo (snd r') = fifo (snd r) @ new" unfolding rx_moves_def by blast
  have "subseq (accepted env (got @ fifo (snd r'))) (accepted env (fifo (snd r) @ new))" by (rule accepted_subseq[OF m(3)])
  then have "subseq (delivered (snd r) @ accepted env (got @ fifo (snd r'))) (delivered (snd r) @ accepted env (fifo (snd r) @ new))"
    by (rule list_emb_append_mono[OF subseq_order.order_refl])
  moreover have "subseq ((delivered (snd r) @ accepted env (fifo (snd r))) @ accepted env new) (accepted env (fst r) @ accepted env new)"
    using assms(1) by (intro list_emb_append_mono) (simp_all add: rx_order_def)
  ultimately have "subseq (delivered (snd r') @ accepted env (fifo (snd r'))) (accepted env (fst r'))"
    using subseq_order.order_trans by (fastforce simp: m)
  moreover have "delivered (snd r') @ accepted env (fifo (snd r')) = accepted env (fst r')" if lossless
  proof -
    have a: "accepted env got @ accepted env (fifo (snd r')) = accepted env (fifo (snd r)) @ accepted env new"
      using m(4) that accepted_simps(3)[of env got "fifo (snd r')"] by simp
    have b: "accepted env (fst r) = delivered (snd r) @ accepted env (fifo (snd r))" using assms(1) that by (simp add: rx_order_def)
    show ?thesis by (simp add: m a b)
  qed
  ultimately show ?thesis by (simp add: rx_order_def)
qed

interpretation rx: safe_machine_with "rx_pre env lossless" "rx_exec env" "rx_safe env" "rx_order env lossless" for env lossless
proof
  show "ok (rx_exec env op r) (rx_safe env)" if "rx_safe env r" "rx_pre env lossless op r" for r op
    using rx_step[OF that] by (auto simp: ok_def)
  show "rx_order env lossless r'" if "rx_safe env r" "rx_order env lossless r" "rx_pre env lossless op r" "rx_exec env op r = Some r'" for r op r'
    using rx_step[OF that(1,3)] rx_moves_order[OF that(2)] that(4) by auto
qed

lemma conf_rx_ring_start:
  assumes "rx_env_ok env" and "0 < n" and "n \<le> 0xFFFF"
  shows "rx_safe env ([], conf_rx_ring n)" "rx_order env lossless ([], conf_rx_ring n)"
  using conf_rx_ring_inv[OF assms] by (simp_all add: rx_safe_def rx_order_def) (simp_all add: conf_rx_ring_def)

end
