(* ===== verification/Rx_Props.thy ===== *)
theory Rx_Props
  imports Rx_Runs
begin

text \<open>
  The properties of the receive path over all its runs.
\<close>

section \<open>Properties\<close>

lemma no_room:
  assumes "rx_at env c k m s"
  shows "(\<exists>i < rx_count s. buff_ptr (rx_buffer_info s ! i) = None) \<longleftrightarrow> k + m < rx_count s"
proof
  note d = rx_atD[OF assms]
  assume "\<exists>i < rx_count s. buff_ptr (rx_buffer_info s ! i) = None"
  then obtain i where i: "i < rx_count s" "buff_ptr (rx_buffer_info s ! i) = None" by blast
  obtain j where "j < rx_count s" "i = idx c s j" using idx_surj[OF d(1) i(1)] by blast
  with d(7)[of j] i(2) show "k + m < rx_count s" by auto
next
  note d = rx_atD[OF assms]
  assume "k + m < rx_count s"
  with d(7)[of "k + m"] idx_less[OF d(10)] show "\<exists>i < rx_count s. buff_ptr (rx_buffer_info s ! i) = None" by auto
qed

text \<open>A channel with one descriptor, and a run in which a packet arrives and is handed over.\<close>

definition rx_env0 :: "bool \<Rightarrow> rx_env" where
  "rx_env0 copyout = \<lparr>SIZEOF_PKTDSC = 64, GHAL_BTE_RX_ALLIGMENT = 8, rx_buff_size = 16, copyout_data_on = copyout, do_rx_readback = True,
     readback_equal = (\<lambda>i t. t = 1), KGNI_MAX_CHNL_NUMBER = 3, chnl_dest = (\<lambda>i imm. imm = of_nat i), rcv_handled = (\<lambda>i pl. pl \<noteq> [])\<rparr>"

lemma rx_env0_ok: "rx_env_ok (rx_env0 copyout)"
  by (simp add: rx_env_ok_def rx_env0_def upt_rec)

definition rx_state0 :: "addr option \<Rightarrow> ghal_rx_desc \<Rightarrow> addr list \<Rightarrow> kgni_rx_buff \<Rightarrow> rx_ctrl" where
  "rx_state0 p d q b = (conf_rx_ring 1)\<lparr>rx_buffer_info := [\<lparr>buff_ptr = p, data_ptr = 1064\<rparr>], rxds := [d\<lparr>rd_base_addr := 1064\<rparr>], wr_index := Some 0,
     rxq := q, bufs := [1000 \<mapsto> b\<lparr>rb_size := 88\<rparr>]\<rparr>"

definition rx_desc0 :: "bool \<Rightarrow> ghal_rx_desc" where
  "rx_desc0 complete = \<lparr>rd_complete = complete, rd_error = False, rd_immed = complete, rd_length = 2, rd_immediate = 1, rd_base_addr = 1064\<rparr>"

definition rx_buff0 :: "packet \<Rightarrow> nat \<Rightarrow> nat \<Rightarrow> u64 \<Rightarrow> kgni_rx_buff" where
  "rx_buff0 pl dp len imm = \<lparr>rb_size = 88, rb_payload = pl, rb_data_ptr = dp, rb_pkt_len = len, rb_immediate = imm\<rparr>"

definition rx_run1 :: "rx_run" where
  "rx_run1 = ([], rx_state0 (Some 1000) \<lparr>rd_complete = False, rd_error = False, rd_immed = False, rd_length = 0, rd_immediate = 0, rd_base_addr = 1064\<rparr>
     [] (rx_buff0 [] 0 0 0))"

definition rx_run2 :: "rx_run" where
  "rx_run2 = ([([1, 2], 1)], rx_state0 (Some 1000) (rx_desc0 True) [] (rx_buff0 [1, 2] 0 0 0))"

definition rx_run3 :: "rx_run" where
  "rx_run3 = ([([1, 2], 1)], (rx_state0 None (rx_desc0 False) [1000] (rx_buff0 [1, 2] 1064 2 1))\<lparr>rx_tasklet := True\<rparr>)"

definition rx_run4 :: "rx_run" where
  "rx_run4 = ([([1, 2], 1)], (rx_state0 None (rx_desc0 False) [] (rx_buff0 [1, 2] 1064 2 1))\<lparr>given := [1000], delivered := [(1, [1, 2], 1)]\<rparr>)"

lemmas rx_run_defs = rx_run1_def rx_run2_def rx_run3_def rx_run4_def rx_state0_def rx_desc0_def rx_buff0_def rx_env0_def conf_rx_ring_def
  kgni_alloc_rx_buffs_def post_buff_def Let_def upd_info_def upd_rxd_def next_entry_def ALIGN_def upt_rec nic_arrive_def kgni_irq_rx_hndlr_def
  rx_one_def kgni_proc_rx_queue_def rx_deliver_def rx_chnl_def irq_rx_loop_code fresh_def fresh_copies_def rxd_ready_def

lemma rx_run1_reachable: "reachable (rx_pre (rx_env0 False) lossless) (rx_exec (rx_env0 False)) ([], conf_rx_ring 1) rx_run1"
proof (rule reachable.step[OF reachable.start])
  show "rx_exec (rx_env0 False) (RxAlloc [1000]) ([], conf_rx_ring 1) = Some rx_run1" by (simp add: rx_run_defs)
qed (simp add: rx_run_defs)

lemma rx_run2_reachable: "reachable (rx_pre (rx_env0 False) lossless) (rx_exec (rx_env0 False)) ([], conf_rx_ring 1) rx_run2"
proof (rule reachable.step[OF rx_run1_reachable])
  show "rx_exec (rx_env0 False) (RxArrive [1, 2] 1 False True) rx_run1 = Some rx_run2" by (simp add: rx_run_defs)
qed (simp add: rx_run_defs)

lemma rx_run3_reachable: "reachable (rx_pre (rx_env0 False) lossless) (rx_exec (rx_env0 False)) ([], conf_rx_ring 1) rx_run3"
proof (rule reachable.step[OF rx_run2_reachable])
  show "rx_exec (rx_env0 False) (RxIrq (\<lambda>_. None) []) rx_run2 = Some rx_run3" by (simp add: rx_run_defs)
qed (simp add: rx_run_defs)

lemma rx_run4_reachable: "reachable (rx_pre (rx_env0 False) lossless) (rx_exec (rx_env0 False)) ([], conf_rx_ring 1) rx_run4"
proof (rule reachable.step[OF rx_run3_reachable])
  show "rx_exec (rx_env0 False) (RxTasklet (\<lambda>_. False)) rx_run3 = Some rx_run4" by (simp add: rx_run_defs)
qed (simp add: rx_run_defs)

text \<open>
  C11. In every interleaving of allocation, interrupts, tasklet runs, arriving packets, release by the channels and stops of the
  receive channel, the next operation returns without touching a freed or foreign buffer, and afterwards every receive buffer is in
  exactly one place: in one entry of the ring, once in the queue, or with the channel that got it.
\<close>

theorem rx_buffers_owned:
  assumes "rx_env_ok env" and "0 < n" and "n \<le> 0xFFFF" and "reachable (rx_pre env False) (rx_exec env) ([], conf_rx_ring n) (h, s)" and "rx_pre env False op (h, s)"
  shows "\<exists>h' s'. rx_exec env op (h, s) = Some (h', s') \<and> dom (bufs s') = ring_bufs s' \<union> set (rxq s') \<union> set (given s') \<and>
    distinct (rxq s' @ given s') \<and> ring_bufs s' \<inter> set (rxq s' @ given s') = {} \<and>
    (\<forall>i < rx_count s'. \<forall>j < rx_count s'. buff_ptr (rx_buffer_info s' ! i) \<noteq> None \<longrightarrow> buff_ptr (rx_buffer_info s' ! i) = buff_ptr (rx_buffer_info s' ! j) \<longrightarrow> i = j)"
proof -
  from rx.no_fault[OF conf_rx_ring_start(1)[OF assms(1-3)] assms(4,5)] obtain h' s' where
    r: "rx_exec env op (h, s) = Some (h', s')" "rx_safe env (h', s')" by auto
  then have "owned s'" by (auto simp: rx_safe_def elim!: rx_invE dest: rx_atD(8))
  with r(1) show ?thesis unfolding owned_def by blast
qed

theorem rx_buffers_owned_witness:
  "rx_exec (rx_env0 False) (RxTasklet (\<lambda>_. False)) rx_run3 = Some rx_run4 \<and>
   dom (bufs (snd rx_run4)) = ring_bufs (snd rx_run4) \<union> set (rxq (snd rx_run4)) \<union> set (given (snd rx_run4))"
proof -
  obtain h s where hs: "rx_run3 = (h, s)" by (cases rx_run3)
  have run: "rx_exec (rx_env0 False) (RxTasklet (\<lambda>_. False)) rx_run3 = Some rx_run4" by (simp add: rx_run_defs)
  have pre: "rx_pre (rx_env0 False) False (RxTasklet (\<lambda>_. False)) (h, s)" by simp
  from rx_buffers_owned[OF rx_env0_ok _ _ rx_run3_reachable[unfolded hs] pre] obtain h' s' where
    "rx_exec (rx_env0 False) (RxTasklet (\<lambda>_. False)) rx_run3 = Some (h', s')" "dom (bufs s') = ring_bufs s' \<union> set (rxq s') \<union> set (given s')"
    unfolding hs by auto
  with run show ?thesis by (metis option.inject snd_conv)
qed

text \<open>
  C10. The packets handed to the channels so far, followed by those still on their way, are among the good packets that have arrived and
  that a channel takes, each at most once and in the order of arrival, whatever the order of interrupts, tasklet runs and stops. As
  long as the channel is not stopped and there is memory for the copies of the copy-out mode, they are all of them.
\<close>

theorem rx_in_order:
  assumes "rx_env_ok env" and "0 < n" and "n \<le> 0xFFFF" and "reachable (rx_pre env lossless) (rx_exec env) ([], conf_rx_ring n) (h, s)"
  shows "subseq (delivered s @ accepted env (fifo s)) (accepted env h) \<and> (lossless \<longrightarrow> delivered s @ accepted env (fifo s) = accepted env h)"
  using rx.reachable_extra[OF conf_rx_ring_start[OF assms(1-3)] assms(4)] by (simp add: rx_order_def)

theorem rx_in_order_witness:
  "delivered (snd rx_run4) = [(1, [1, 2], 1)] \<and> delivered (snd rx_run4) @ accepted (rx_env0 False) (fifo (snd rx_run4)) = accepted (rx_env0 False) (fst rx_run4)"
proof
  show "delivered (snd rx_run4) = [(1, [1, 2], 1)]" by (simp add: rx_run_defs)
  obtain h s where hs: "rx_run4 = (h, s)" by (cases rx_run4)
  show "delivered (snd rx_run4) @ accepted (rx_env0 False) (fifo (snd rx_run4)) = accepted (rx_env0 False) (fst rx_run4)"
    using rx_in_order[OF rx_env0_ok _ _ rx_run4_reachable[of True, unfolded hs]] unfolding hs by simp
qed

text \<open>
  C39. \<open>kgni_alloc_rx_buffs\<close> in any reachable state: it returns 0 exactly when it has put at least one buffer into the ring, which it
  does when some entry is empty and the first allocation succeeds; otherwise it returns -ENOMEM and changes nothing, so a ring that
  is already full is reported as an allocation failure too. With memory for a whole ring it leaves no entry empty.
\<close>

theorem rx_alloc_result:
  assumes "rx_env_ok env" and "0 < n" and "n \<le> 0xFFFF" and "reachable (rx_pre env False) (rx_exec env) ([], conf_rx_ring n) (h, s)" and "fresh mems s"
  shows "\<exists>rc s'. kgni_alloc_rx_buffs env mems s = Some (rc, s') \<and>
    (rc = 0 \<longleftrightarrow> mems \<noteq> [] \<and> (\<exists>i < rx_count s. buff_ptr (rx_buffer_info s ! i) = None)) \<and> (rc \<noteq> 0 \<longrightarrow> rc = - ENOMEM \<and> s' = s) \<and>
    (rx_count s \<le> length mems \<longrightarrow> (\<forall>i < rx_count s'. buff_ptr (rx_buffer_info s' ! i) \<noteq> None))"
proof -
  have "rx_inv env s" using rx.reachable_inv[OF conf_rx_ring_start(1)[OF assms(1-3)] assms(4)] by (simp add: rx_safe_def)
  then obtain k m where k: "rx_env_ok env" "rx_at env (rx_next_to_clean s) k m s" "use_ok env (rx_next_to_clean s) k m s (rx_next_to_use s)" by (rule rx_invE)
  have fr: "distinct mems" "set mems \<inter> dom (bufs s) = {}" using assms(5) by (auto simp: fresh_def)
  from kgni_alloc_at[OF k fr] obtain rc s' m' where r: "kgni_alloc_rx_buffs env mems s = Some (rc, s')" "m \<le> m'" "rx_at env (rx_next_to_clean s) k m' s'"
    "rx_count s \<le> k + m + length mems \<longrightarrow> k + m' = rx_count s" "rc = 0 \<longleftrightarrow> m < m'" "rc = - ENOMEM \<longleftrightarrow> m' = m" "m' = m \<longrightarrow> s' = s"
    "mems \<noteq> [] \<longrightarrow> k + m < rx_count s \<longrightarrow> m < m'" "rx_count s' = rx_count s" by blast
  have "m < m' \<longleftrightarrow> mems \<noteq> [] \<and> k + m < rx_count s"
  proof
    assume "m < m'"
    then have "rc \<noteq> - ENOMEM" using r(6) by simp
    then have "mems \<noteq> []" using r(1) k(3) by (auto simp: kgni_alloc_rx_buffs_def use_ok_def)
    with \<open>m < m'\<close> rx_atD(2)[OF r(3)] r(9) show "mems \<noteq> [] \<and> k + m < rx_count s" by simp
  qed (use r(8) in blast)
  then have "rc = 0 \<longleftrightarrow> mems \<noteq> [] \<and> (\<exists>i < rx_count s. buff_ptr (rx_buffer_info s ! i) = None)" unfolding r(5) no_room[OF k(2)] .
  moreover have "rc = - ENOMEM \<and> s' = s" if "rc \<noteq> 0" using that r(2,5-7) by auto
  moreover have "\<forall>i < rx_count s'. buff_ptr (rx_buffer_info s' ! i) \<noteq> None" if "rx_count s \<le> length mems" using no_room[OF r(3)] r(4,9) that by auto
  ultimately show ?thesis using r(1) by blast
qed

theorem rx_alloc_result_witness:
  "kgni_alloc_rx_buffs (rx_env0 False) [4000] (snd rx_run1) = Some (- ENOMEM, snd rx_run1) \<and>
   (\<exists>rc s'. kgni_alloc_rx_buffs (rx_env0 False) [4000] (snd rx_run1) = Some (rc, s') \<and> (rc \<noteq> 0 \<longrightarrow> s' = snd rx_run1))"
proof
  show "kgni_alloc_rx_buffs (rx_env0 False) [4000] (snd rx_run1) = Some (- ENOMEM, snd rx_run1)" by (simp add: rx_run_defs)
  obtain h s where hs: "rx_run1 = (h, s)" by (cases rx_run1)
  have "fresh [4000] (snd rx_run1)" by (simp add: rx_run_defs)
  then show "\<exists>rc s'. kgni_alloc_rx_buffs (rx_env0 False) [4000] (snd rx_run1) = Some (rc, s') \<and> (rc \<noteq> 0 \<longrightarrow> s' = snd rx_run1)"
    using rx_alloc_result[OF rx_env0_ok _ _ rx_run1_reachable[unfolded hs], of "[4000]"] unfolding hs by auto
qed

end
