(* ===== verification/Tx.thy ===== *)
theory Tx
  imports Machine Forward
begin

text \<open>
  The transmitting half of the channels of the block transfer engine: posting of RDMA transactions (\<open>kgni_rdma_post\<close> of
  \<open>kgni_ops.c\<close>), the tasklet that moves queued requests into the rings and the interrupt handler that takes completed descriptors from
  them (\<open>kgni_main.c\<close>), with the transmit descriptor of \<open>gemini_hw.h\<close>. Every call is one step: the source holds the lock of a ring
  or a queue while it changes it. The counts of transactions are integers without a width. \<open>GHAL_TXD_SET_WC\<close> is empty for this NIC.
\<close>

unbundle bit_operations_syntax

section \<open>Descriptors, rings and queues\<close>

text \<open>A transmit descriptor with the widths of its bit fields.\<close>

record ghal_tx_desc =
  td_dest_pe :: "18 word"
  td_mode1 :: "12 word"
  td_dest_mem_off :: "40 word"
  td_dest_mem_dh :: "12 word"
  td_mode2 :: "2 word"
  td_src_cq_hndl :: "10 word"
  td_dest_ptag :: u8
  td_src_ptag :: u8
  td_data_len :: u32
  td_src_mem_off :: "40 word"
  td_src_mem_dh :: "12 word"
  td_mode4 :: "3 word"
  td_src_cq_data :: "56 word"
  td_user_data :: u64

definition GHAL_TXD_INIT :: ghal_tx_desc where
  "GHAL_TXD_INIT = \<lparr>td_dest_pe = 0, td_mode1 = 0, td_dest_mem_off = 0, td_dest_mem_dh = 0, td_mode2 = 0, td_src_cq_hndl = 0, td_dest_ptag = 0, td_src_ptag = 0,
     td_data_len = 0, td_src_mem_off = 0, td_src_mem_dh = 0, td_mode4 = 0, td_src_cq_data = 0, td_user_data = 0\<rparr>"

definition GHAL_TXD_SET_MODE1 :: "12 word \<Rightarrow> ghal_tx_desc \<Rightarrow> ghal_tx_desc" where
  "GHAL_TXD_SET_MODE1 v t = t\<lparr>td_mode1 := td_mode1 t OR v\<rparr>"

definition GHAL_TXD_SET_MODE2 :: "2 word \<Rightarrow> ghal_tx_desc \<Rightarrow> ghal_tx_desc" where
  "GHAL_TXD_SET_MODE2 v t = t\<lparr>td_mode2 := td_mode2 t OR v\<rparr>"

definition GHAL_TXD_SET_MODE4 :: "3 word \<Rightarrow> ghal_tx_desc \<Rightarrow> ghal_tx_desc" where
  "GHAL_TXD_SET_MODE4 v t = t\<lparr>td_mode4 := td_mode4 t OR v\<rparr>"

abbreviation GHAL_CQ_MAX_NUMBER :: u64 where "GHAL_CQ_MAX_NUMBER \<equiv> 1024"
abbreviation GHAL_BTE_MAX_LENGTH :: u64 where "GHAL_BTE_MAX_LENGTH \<equiv> 0xFFFFFFFF"
abbreviation GNI_POST_RDMA_PUT :: u32 where "GNI_POST_RDMA_PUT \<equiv> 1"
abbreviation GNI_POST_RDMA_GET :: u32 where "GNI_POST_RDMA_GET \<equiv> 2"

datatype tx_type = KGNI_CHNL | KGNI_CQ | KGNI_RDMA | KGNI_TX_UNKNOWN

datatype ring_status = KGNI_RING_EMPTY | KGNI_RING_FULL | KGNI_RING_LOCKED

text \<open>\<open>kgni_buffer_t\<close> as the transmitting side uses it; no virtual channel is \<open>KGNI_BTE_VCID_ANY\<close>.\<close>

record tx_info =
  ti_type :: tx_type
  ti_ptag :: u8
  ti_rsrc_gen :: u64
  ti_vcid :: "nat option"

record tx_ring =
  tx_next_to_use :: nat
  tx_next_to_clean :: nat
  tx_status :: ring_status
  tx_buffer_info :: "tx_info list"
  tx_descs :: "ghal_tx_desc list"
  tx_complete :: "bool list"
  tx_error :: "nat list"
  tx_wr_index :: nat

abbreviation tx_count :: "tx_ring \<Rightarrow> nat" where
  "tx_count r \<equiv> length (tx_buffer_info r)"

record bte_ctrl =
  bc_vcid :: nat
  bc_direct :: bool
  bc_ring :: tx_ring

record tx_pkt =
  pk_info :: tx_info
  pk_desc :: ghal_tx_desc

text \<open>What the transmit path uses of the resources of a protection tag: generation, count and limit of RDMA transactions.\<close>

record tx_res =
  tr_generation :: u64
  tr_rdma_count :: int
  tr_rdma_limit :: u64
  tr_direct_count :: int

datatype ghal_error_category = GHAL_TRANSACTION_ERRORS | GHAL_ADDRESS_TRANSLATION_ERRORS | GHAL_TRANSIENT_ERRORS

record tx_dev =
  tx_chnls :: "bte_ctrl list"
  tx_queue :: "gni_cdm_type \<Rightarrow> tx_pkt list"
  tx_resources :: "u8 \<Rightarrow> tx_res option"
  tx_cur_chnl :: u32
  tx_job_generation :: u64
  tx_tasklet :: bool
  tx_errors :: "(ghal_error_category \<times> nat \<times> u8) list"

text \<open>
  Parameters: whether the checks of \<open>GNI_DEBUG\<close> are compiled in, the switch for several channels and their number, the choice of the
  channel for a turn, the macro \<open>KGNI_NEXT_RING_ENTRY\<close>, whether a locked ring counts as full, the hardware's translation of
  processing elements and memory handles, the setting of the routing control, and which NIC owns a completion queue.
\<close>

record tx_env =
  GNI_DEBUG :: bool
  multi_bte :: bool
  num_bte_chnls :: nat
  kgni_bte_next_chnl :: "nat \<Rightarrow> nat"
  KGNI_NEXT_RING_ENTRY :: "tx_ring \<Rightarrow> nat \<times> tx_ring"
  locked_is_full :: bool
  tx_ntt_to_pe :: "u32 \<Rightarrow> int"
  kgni_translate_mdh :: "u64 \<Rightarrow> u64 \<Rightarrow> u64"
  kgni_bte_tx_set_rc :: "u16 \<Rightarrow> ghal_tx_desc \<Rightarrow> ghal_tx_desc option"
  domain_bte_ctrl :: "gni_cdm_type \<Rightarrow> nat"
  cq_nic :: "u64 \<Rightarrow> addr option"

record tx_nic =
  tn_addr :: addr
  tn_is_nic :: bool
  tn_modes :: u32
  tn_cdm_type :: gni_cdm_type
  tn_ntt_grp_size :: u32
  tn_ntt_base :: u32
  tn_ptag :: u8
  tn_vmdh_blk_size :: u64
  tn_vmdh_blk_base :: u64

definition ring_full :: "tx_env \<Rightarrow> tx_ring \<Rightarrow> bool" where
  "ring_full env r \<longleftrightarrow> tx_status r = KGNI_RING_FULL \<or> tx_status r = KGNI_RING_LOCKED \<and> locked_is_full env"

definition upd_bte :: "nat \<Rightarrow> (tx_ring \<Rightarrow> tx_ring) \<Rightarrow> tx_dev \<Rightarrow> tx_dev" where
  "upd_bte i f d = d\<lparr>tx_chnls := (tx_chnls d)[i := (tx_chnls d ! i)\<lparr>bc_ring := f (bc_ring (tx_chnls d ! i))\<rparr>]\<rparr>"

definition upd_count :: "u8 \<Rightarrow> int \<Rightarrow> tx_dev \<Rightarrow> tx_dev run" where
  "upd_count p n d = do {
     r \<leftarrow> tx_resources d p;
     Some (d\<lparr>tx_resources := (tx_resources d)(p \<mapsto> r\<lparr>tr_rdma_count := tr_rdma_count r + n\<rparr>)\<rparr>)
   }"

text \<open>
  A request goes into the next entry of the ring of channel \<open>i\<close>: protection tag and generation are written for RDMA only.
\<close>

definition put_entry :: "tx_env \<Rightarrow> nat \<Rightarrow> tx_info \<Rightarrow> ghal_tx_desc \<Rightarrow> tx_dev \<Rightarrow> tx_dev run" where
  "put_entry env i b t d = do {
     c \<leftarrow> array_get (tx_chnls d) i;
     let (entry, r) = KGNI_NEXT_RING_ENTRY env (bc_ring c);
     ob \<leftarrow> array_get (tx_buffer_info r) entry;
     in_bounds (entry < length (tx_descs r));
     let nb = (if ti_type b = KGNI_RDMA then ob\<lparr>ti_type := ti_type b, ti_ptag := ti_ptag b, ti_rsrc_gen := ti_rsrc_gen b\<rparr> else ob\<lparr>ti_type := ti_type b\<rparr>);
     Some (upd_bte i (\<lambda>_. r\<lparr>tx_buffer_info := (tx_buffer_info r)[entry := nb], tx_descs := (tx_descs r)[entry := t], tx_wr_index := tx_next_to_use r\<rparr>) d)
   }"

section \<open>Posting of RDMA transactions\<close>

definition in_region :: "u64 \<Rightarrow> u64 \<Rightarrow> gni_mem_handle \<Rightarrow> bool" where
  "in_region a len h \<longleftrightarrow> \<not> (a < GNI_MEMHNDL_GET_VA h \<or>
     a + len > GNI_MEMHNDL_GET_VA h + GNI_MEMHNDL_GET_PAGESIZE h * GNI_MEMHNDL_GET_NPAGES h)"

text \<open>The checks under \<open>GNI_DEBUG\<close>.\<close>

definition debug_checks :: "tx_nic \<Rightarrow> gni_post_descriptor \<Rightarrow> u64 \<Rightarrow> bool" where
  "debug_checks nic pd hw_cq \<longleftrightarrow>
     tn_is_nic nic \<and> GNI_MEMHNDL_VERIFY (pd_local_mem_hndl pd) \<and> GNI_MEMHNDL_VERIFY (pd_remote_mem_hndl pd) \<and>
     (pd_type pd = GNI_POST_RDMA_GET \<or> pd_type pd = GNI_POST_RDMA_PUT) \<and> pd_length pd \<noteq> 0 \<and>
     in_region (pd_local_addr pd) (pd_length pd) (pd_local_mem_hndl pd) \<and> in_region (pd_remote_addr pd) (pd_length pd) (pd_remote_mem_hndl pd) \<and>
     \<not> (pd_cq_mode pd AND 3 \<noteq> 0 \<and> GHAL_CQ_MAX_NUMBER \<le> hw_cq) \<and> \<not> GHAL_BTE_MAX_LENGTH < pd_length pd"

text \<open>The translation of a virtual processing element.\<close>

definition translate_pe :: "tx_env \<Rightarrow> tx_nic \<Rightarrow> u32 \<Rightarrow> int + u32" where
  "translate_pe env nic rem_pe =
     (if tn_ntt_grp_size nic \<noteq> 0 then
        if tn_ntt_grp_size nic \<le> rem_pe then Inl (- ENXIO)
        else (let trans_pe = tx_ntt_to_pe env (tn_ntt_base nic + rem_pe) in
          if trans_pe < 0 then Inl trans_pe else Inr (of_int trans_pe))
      else Inr rem_pe)"

text \<open>Rights, alignment and the limit of the job.\<close>

definition access_denied :: "gni_post_descriptor \<Rightarrow> bool" where
  "access_denied pd \<longleftrightarrow>
     pd_type pd = GNI_POST_RDMA_PUT \<and> GNI_MEMHNDL_GET_FLAGS (pd_remote_mem_hndl pd) AND 1 \<noteq> 0 \<or>
     pd_type pd = GNI_POST_RDMA_GET \<and> GNI_MEMHNDL_GET_FLAGS (pd_local_mem_hndl pd) AND 1 \<noteq> 0"

definition misaligned :: "gni_post_descriptor \<Rightarrow> bool" where
  "misaligned pd \<longleftrightarrow> pd_type pd = GNI_POST_RDMA_GET \<and>
     (pd_local_addr pd AND 3 \<noteq> 0 \<or> pd_remote_addr pd AND 3 \<noteq> 0 \<or> pd_length pd AND 3 \<noteq> 0)"

definition limit_reached :: "tx_res \<Rightarrow> bool" where
  "limit_reached r \<longleftrightarrow> tr_rdma_limit r \<le> (of_int (tr_rdma_count r) :: u64)"

text \<open>The descriptor of a transaction, or the error that its fields lead to.\<close>

definition tx_events :: "gni_post_descriptor \<Rightarrow> u64 \<Rightarrow> u64 \<Rightarrow> u64 \<Rightarrow> ghal_tx_desc \<Rightarrow> ghal_tx_desc" where
  "tx_events pd hw_cq src_cq_data usr_event_data t =
     (let t = (if hw_cq < GHAL_CQ_MAX_NUMBER then t\<lparr>td_src_cq_hndl := ucast hw_cq\<rparr> else t);
          t = (if pd_cq_mode pd AND 1 \<noteq> 0 then (GHAL_TXD_SET_MODE1 0x20 t)\<lparr>td_src_cq_data := ucast src_cq_data\<rparr> else t);
          t = (if pd_cq_mode pd AND 2 \<noteq> 0 then (GHAL_TXD_SET_MODE1 0x40 t)\<lparr>td_user_data := usr_event_data\<rparr> else t)
      in if pd_cq_mode pd AND 4 \<noteq> 0 then (GHAL_TXD_SET_MODE1 0x8 t)\<lparr>td_user_data := usr_event_data\<rparr> else t)"

definition tx_address :: "tx_nic \<Rightarrow> u32 \<Rightarrow> gni_post_descriptor \<Rightarrow> u64 \<Rightarrow> ghal_tx_desc \<Rightarrow> ghal_tx_desc" where
  "tx_address nic pe pd loc_mdh t =
     (let t = GHAL_TXD_SET_MODE4 4 (GHAL_TXD_SET_MODE4 2 (GHAL_TXD_SET_MODE4 1 (GHAL_TXD_SET_MODE2 2 (GHAL_TXD_SET_MODE2 1 (t\<lparr>td_src_mem_dh := ucast loc_mdh\<rparr>)))))
      in t\<lparr>td_dest_pe := ucast pe, td_data_len := ucast (pd_length pd), td_dest_mem_dh := ucast (GNI_MEMHNDL_GET_MDH (pd_remote_mem_hndl pd)),
           td_src_ptag := tn_ptag nic, td_dest_ptag := tn_ptag nic,
           td_src_mem_off := ucast (pd_local_addr pd - GNI_MEMHNDL_GET_VA (pd_local_mem_hndl pd)),
           td_dest_mem_off := ucast (pd_remote_addr pd - GNI_MEMHNDL_GET_VA (pd_remote_mem_hndl pd))\<rparr>)"

definition tx_descriptor :: "tx_env \<Rightarrow> tx_nic \<Rightarrow> bool \<Rightarrow> u32 \<Rightarrow> gni_post_descriptor \<Rightarrow> u64 \<Rightarrow> u64 \<Rightarrow> u64 \<Rightarrow> int + ghal_tx_desc" where
  "tx_descriptor env nic single pe pd hw_cq src_cq_data usr_event_data =
     (let t = GHAL_TXD_SET_MODE1 (if pd_type pd = GNI_POST_RDMA_GET then 4 else 2) GHAL_TXD_INIT in
      if hw_cq < GHAL_CQ_MAX_NUMBER \<and> cq_nic env hw_cq \<noteq> Some (tn_addr nic) then Inl (- EINVAL)
      else (case kgni_bte_tx_set_rc env (pd_dlvr_mode pd) (tx_events pd hw_cq src_cq_data usr_event_data t) of
          None \<Rightarrow> Inl (- EINVAL)
        | Some t \<Rightarrow>
            if pd_rdma_mode pd AND 2 \<noteq> 0 \<and> \<not> single then Inl (- EINVAL)
            else
              (let t = (if pd_rdma_mode pd AND 2 \<noteq> 0 then GHAL_TXD_SET_MODE1 0x10 t else t);
                   t = (if GNI_MEMHNDL_GET_FLAGS (pd_remote_mem_hndl pd) AND 2 \<noteq> 0 then GHAL_TXD_SET_MODE1 0x800 t else t)
               in if GNI_MEMHNDL_GET_FLAGS (pd_local_mem_hndl pd) AND 2 \<noteq> 0 then
                    if tn_vmdh_blk_size nic = 0 then Inl (- EINVAL)
                    else Inr (tx_address nic pe pd (kgni_translate_mdh env (GNI_MEMHNDL_GET_MDH (pd_local_mem_hndl pd)) (tn_vmdh_blk_base nic)) t)
                  else Inr (tx_address nic pe pd (GNI_MEMHNDL_GET_MDH (pd_local_mem_hndl pd)) t))))"

text \<open>
  The last part: the transaction is counted, and queued behind others, put into the ring of the chosen channel or of the channel of the
  domain, or queued. \<open>mem\<close> tells whether there is memory for a queue element.
\<close>

definition tx_enqueue :: "bool \<Rightarrow> tx_nic \<Rightarrow> tx_pkt \<Rightarrow> tx_dev \<Rightarrow> (int \<times> tx_dev) run" where
  "tx_enqueue mem nic k d =
     (if \<not> mem then do {
        d \<leftarrow> upd_count (tn_ptag nic) (- 1) d;
        Some (- ENOMEM, d)
      }
      else Some (0, d\<lparr>tx_queue := (tx_queue d)(tn_cdm_type nic := tx_queue d (tn_cdm_type nic) @ [k])\<rparr>))"

definition tx_submit :: "tx_env \<Rightarrow> bool \<Rightarrow> tx_nic \<Rightarrow> nat \<Rightarrow> nat option \<Rightarrow> ghal_tx_desc \<Rightarrow> tx_dev \<Rightarrow> (int \<times> tx_dev) run" where
  "tx_submit env mem nic tx vcid t d = do {
     d \<leftarrow> upd_count (tn_ptag nic) 1 d;
     res \<leftarrow> tx_resources d (tn_ptag nic);
     let b = \<lparr>ti_type = KGNI_RDMA, ti_ptag = tn_ptag nic, ti_rsrc_gen = tr_generation res, ti_vcid = vcid\<rparr>;
     let k = \<lparr>pk_info = b, pk_desc = t\<rparr>;
     if tx_queue d (tn_cdm_type nic) \<noteq> [] then tx_enqueue mem nic k d
     else do {
       c \<leftarrow> array_get (tx_chnls d) tx;
       if ring_full env (bc_ring c) then do {
         let tx = domain_bte_ctrl env (tn_cdm_type nic);
         c \<leftarrow> array_get (tx_chnls d) tx;
         if ring_full env (bc_ring c) then tx_enqueue mem nic k d
         else do { d \<leftarrow> put_entry env tx b t d; Some (0, d) }
       }
       else do { d \<leftarrow> put_entry env tx b t d; Some (0, d) }
     }
   }"

definition kgni_rdma_post :: "tx_env \<Rightarrow> bool \<Rightarrow> tx_nic \<Rightarrow> u32 \<Rightarrow> gni_post_descriptor \<Rightarrow> u64 \<Rightarrow> u64 \<Rightarrow> u64 \<Rightarrow> tx_dev \<Rightarrow> (int \<times> tx_dev) run" where
  "kgni_rdma_post env mem nic rem_pe pd hw_cq src_cq_data usr_event_data d =
     (if GNI_DEBUG env \<and> \<not> debug_checks nic pd hw_cq then Some (- EINVAL, d)
      else do {
        let single_bte = (tn_modes nic AND 0x40 \<noteq> 0 \<or> \<not> multi_bte env);
        cur \<leftarrow> array_get (tx_chnls d) (domain_bte_ctrl env (tn_cdm_type nic));
        let (tx, vcid, d) =
          (if single_bte then (domain_bte_ctrl env (tn_cdm_type nic), Some (bc_vcid cur), d)
           else (let n = tx_cur_chnl d + 1 in (kgni_bte_next_chnl env (unat n mod num_bte_chnls env), None, d\<lparr>tx_cur_chnl := n\<rparr>)));
        (case translate_pe env nic rem_pe of
           Inl rc \<Rightarrow> Some (rc, d)
         | Inr pe \<Rightarrow>
             if access_denied pd then Some (- EACCES, d)
             else if misaligned pd then Some (- EFAULT, d)
             else do {
               res \<leftarrow> tx_resources d (tn_ptag nic);
               if limit_reached res then Some (- ENOSPC, d)
               else (case tx_descriptor env nic single_bte pe pd hw_cq src_cq_data usr_event_data of
                   Inl rc \<Rightarrow> Some (rc, d)
                 | Inr t \<Rightarrow> tx_submit env mem nic tx vcid t d)
             })
      })"

section \<open>The tasklet that empties the queues\<close>

text \<open>The state of \<open>kgni_push_tx_queue\<close>: whose turn it is, and what is locked.\<close>

record push_tx =
  pt_next_txq :: gni_cdm_type
  pt_blocked_txq :: "gni_cdm_type option"
  pt_next_chnl :: nat
  pt_locked_bte :: "nat option"
  pt_locked_txq :: "gni_cdm_type option"

definition kgni_push_tx_init :: "tx_env \<Rightarrow> tx_dev \<Rightarrow> push_tx" where
  "kgni_push_tx_init env d = \<lparr>pt_next_txq = GNI_CDM_TYPE_KERNEL, pt_blocked_txq = None, pt_next_chnl = unat (tx_cur_chnl d) mod num_bte_chnls env,
     pt_locked_bte = None, pt_locked_txq = None\<rparr>"

fun get_chnl_loop :: "tx_env \<Rightarrow> tx_dev \<Rightarrow> nat \<Rightarrow> push_tx \<Rightarrow> push_tx run" where
  "get_chnl_loop env d 0 p = Some p"
| "get_chnl_loop env d (Suc n) p =
     (let i = kgni_bte_next_chnl env (pt_next_chnl p);
          p = p\<lparr>pt_next_chnl := (pt_next_chnl p + 1) mod num_bte_chnls env\<rparr>
      in do {
        c \<leftarrow> array_get (tx_chnls d) i;
        if \<not> ring_full env (bc_ring c) then do { GASSERT (bc_direct c); Some (p\<lparr>pt_locked_bte := Some i\<rparr>) }
        else get_chnl_loop env d n p
      })"

definition kgni_push_tx_get_chnl :: "tx_env \<Rightarrow> tx_dev \<Rightarrow> push_tx \<Rightarrow> push_tx run" where
  "kgni_push_tx_get_chnl env d p = do {
     GASSERT (pt_locked_bte p = None);
     get_chnl_loop env d (num_bte_chnls env) p
   }"

definition next_txq :: "gni_cdm_type \<Rightarrow> gni_cdm_type" where
  "next_txq q = (case q of GNI_CDM_TYPE_KERNEL \<Rightarrow> GNI_CDM_TYPE_USER | GNI_CDM_TYPE_USER \<Rightarrow> GNI_CDM_TYPE_KERNEL)"

definition can_send :: "bte_ctrl \<Rightarrow> tx_pkt \<Rightarrow> bool" where
  "can_send c k \<longleftrightarrow> ti_vcid (pk_info k) = None \<or> ti_vcid (pk_info k) = Some (bc_vcid c)"

fun get_queue_loop :: "tx_env \<Rightarrow> tx_dev \<Rightarrow> bte_ctrl \<Rightarrow> nat \<Rightarrow> push_tx \<Rightarrow> push_tx run" where
  "get_queue_loop env d c 0 p = Some p"
| "get_queue_loop env d c (Suc n) p =
     (let curr = pt_next_txq p;
          p = p\<lparr>pt_next_txq := next_txq curr\<rparr>
      in (case tx_queue d curr of
            [] \<Rightarrow> get_queue_loop env d c n p
          | k # ks \<Rightarrow>
              if can_send c k then Some (p\<lparr>pt_locked_txq := Some curr\<rparr>)
              else do {
                GASSERT (1 < num_bte_chnls env);
                get_queue_loop env d c n (p\<lparr>pt_blocked_txq := Some curr\<rparr>)
              }))"

definition kgni_push_tx_get_queue :: "tx_env \<Rightarrow> tx_dev \<Rightarrow> bte_ctrl \<Rightarrow> push_tx \<Rightarrow> push_tx run" where
  "kgni_push_tx_get_queue env d c p = do {
     GASSERT (pt_locked_txq p = None);
     p \<leftarrow> get_queue_loop env d c 2 (p\<lparr>pt_blocked_txq := None\<rparr>);
     Some (case pt_blocked_txq p of None \<Rightarrow> p | Some q \<Rightarrow> p\<lparr>pt_next_txq := q\<rparr>)
   }"

text \<open>The loop of \<open>kgni_push_tx_get_queued_entry\<close>; its first argument is \<open>chnls_left\<close>.\<close>

fun queued_loop :: "tx_env \<Rightarrow> nat \<Rightarrow> tx_dev \<Rightarrow> push_tx \<Rightarrow> (tx_pkt option \<times> push_tx \<times> tx_dev) run" where
  "queued_loop env left d p =
     (case pt_locked_bte p of
        None \<Rightarrow> Some (None, p, d)
      | Some i \<Rightarrow> do {
          c \<leftarrow> array_get (tx_chnls d) i;
          p \<leftarrow> kgni_push_tx_get_queue env d c p;
          (case pt_locked_txq p of
             Some q \<Rightarrow>
               (case tx_queue d q of
                  [] \<Rightarrow> None
                | k # ks \<Rightarrow> Some (Some k, p\<lparr>pt_locked_txq := None\<rparr>, d\<lparr>tx_queue := (tx_queue d)(q := ks)\<rparr>))
           | None \<Rightarrow>
               (let p = p\<lparr>pt_locked_bte := None\<rparr> in
                if pt_blocked_txq p \<noteq> None then
                  (case left of
                     Suc (Suc n) \<Rightarrow> do { p \<leftarrow> kgni_push_tx_get_chnl env d p; queued_loop env (Suc n) d p }
                   | _ \<Rightarrow> Some (None, p, d))
                else Some (None, p, d)))
        })"

definition kgni_push_tx_get_queued_entry :: "tx_env \<Rightarrow> tx_dev \<Rightarrow> push_tx \<Rightarrow> (tx_pkt option \<times> push_tx \<times> tx_dev) run" where
  "kgni_push_tx_get_queued_entry env d p = do {
     p \<leftarrow> kgni_push_tx_get_chnl env d p;
     queued_loop env (num_bte_chnls env) d p
   }"

text \<open>An RDMA transaction is launched only if its protection tag has not been given up since.\<close>

definition push_one :: "tx_env \<Rightarrow> nat \<Rightarrow> tx_pkt \<Rightarrow> tx_dev \<Rightarrow> tx_dev run" where
  "push_one env i k d =
     (if ti_type (pk_info k) = KGNI_RDMA then
        (case tx_resources d (ti_ptag (pk_info k)) of
           None \<Rightarrow> Some d
         | Some res \<Rightarrow> if tr_generation res = ti_rsrc_gen (pk_info k) then put_entry env i (pk_info k) (pk_desc k) d else Some d)
      else put_entry env i (pk_info k) (pk_desc k) d)"

text \<open>\<open>late\<close> tells after which packets the time slice is over.\<close>

partial_function (option) push_loop :: "tx_env \<Rightarrow> (nat \<Rightarrow> bool) \<Rightarrow> nat \<Rightarrow> push_tx \<Rightarrow> tx_dev \<Rightarrow> tx_dev option" where
  "push_loop env late n p d =
     Option.bind (kgni_push_tx_get_queued_entry env d p) (\<lambda>(elm, p, d).
       (case elm of
          None \<Rightarrow> Some d
        | Some k \<Rightarrow>
            Option.bind (pt_locked_bte p) (\<lambda>i.
            Option.bind (push_one env i k d) (\<lambda>d.
              if late n then Some (d\<lparr>tx_tasklet := True\<rparr>)
              else push_loop env late (Suc n) (p\<lparr>pt_locked_bte := None\<rparr>) d))))"

definition kgni_push_tx_queue :: "tx_env \<Rightarrow> (nat \<Rightarrow> bool) \<Rightarrow> tx_dev \<Rightarrow> tx_dev run" where
  "kgni_push_tx_queue env late d = (let d = d\<lparr>tx_tasklet := False\<rparr> in push_loop env late 0 (kgni_push_tx_init env d) d)"

section \<open>The interrupt handler\<close>

definition tx_error_category :: "nat \<Rightarrow> ghal_error_category option" where
  "tx_error_category e =
     (if e \<in> {2, 5} then Some GHAL_TRANSACTION_ERRORS
      else if e \<in> {6, 7, 8, 9} then Some GHAL_ADDRESS_TRANSLATION_ERRORS
      else if e = 11 then Some GHAL_TRANSIENT_ERRORS
      else None)"

definition kgni_bte_tx_status_check :: "nat \<Rightarrow> u8 \<Rightarrow> tx_dev \<Rightarrow> tx_dev" where
  "kgni_bte_tx_status_check e ptag d = (case tx_error_category e of None \<Rightarrow> d | Some c \<Rightarrow> d\<lparr>tx_errors := tx_errors d @ [(c, e, ptag)]\<rparr>)"

definition tx_done :: "tx_info \<Rightarrow> nat \<Rightarrow> tx_dev \<Rightarrow> tx_dev run" where
  "tx_done b e d =
     (case ti_type b of
        KGNI_CHNL \<Rightarrow> Some d
      | KGNI_CQ \<Rightarrow> Some d
      | KGNI_RDMA \<Rightarrow> do {
          d \<leftarrow> (case tx_resources d (ti_ptag b) of
              None \<Rightarrow> Some d
            | Some res \<Rightarrow>
                if tr_generation res = ti_rsrc_gen b then do {
                  GASSERT (tr_rdma_count res \<noteq> 0);
                  Some (d\<lparr>tx_resources := (tx_resources d)(ti_ptag b \<mapsto> res\<lparr>tr_rdma_count := tr_rdma_count res - 1, tr_direct_count := tr_direct_count res + 1\<rparr>)\<rparr>)
                }
                else Some d);
          Some (kgni_bte_tx_status_check e (ti_ptag b) d)
        }
      | KGNI_TX_UNKNOWN \<Rightarrow> None)"

definition next_tx :: "tx_ring \<Rightarrow> nat \<Rightarrow> nat" where
  "next_tx r i = (if Suc i = tx_count r then 0 else Suc i)"

partial_function (option) irq_tx_loop :: "nat \<Rightarrow> nat \<Rightarrow> bool \<Rightarrow> tx_dev \<Rightarrow> (nat \<times> bool \<times> tx_dev) option" where
  "irq_tx_loop i entry handled d =
     Option.bind (array_get (tx_chnls d) i) (\<lambda>c.
     Option.bind (array_get (tx_complete (bc_ring c)) entry) (\<lambda>complete.
       if \<not> complete then Some (entry, handled, d)
       else
         Option.bind (array_get (tx_buffer_info (bc_ring c)) entry) (\<lambda>b.
         Option.bind (array_get (tx_error (bc_ring c)) entry) (\<lambda>e.
         Option.bind (tx_done b e (upd_bte i (\<lambda>r. r\<lparr>tx_complete := (tx_complete r)[entry := False]\<rparr>) d)) (\<lambda>d.
           irq_tx_loop i (next_tx (bc_ring c) entry) True d)))))"

definition kgni_irq_tx_hndlr :: "nat \<Rightarrow> tx_dev \<Rightarrow> tx_dev run" where
  "kgni_irq_tx_hndlr i d = do {
     c \<leftarrow> array_get (tx_chnls d) i;
     GASSERT (bc_direct c);
     (entry, handled, d) \<leftarrow> irq_tx_loop i (tx_next_to_clean (bc_ring c)) False d;
     if handled then
       (let d = upd_bte i (\<lambda>r. r\<lparr>tx_next_to_clean := entry, tx_status := (if tx_status r = KGNI_RING_LOCKED then KGNI_RING_LOCKED else KGNI_RING_EMPTY)\<rparr>) d
        in Some (if tx_queue d GNI_CDM_TYPE_USER \<noteq> [] \<or> tx_queue d GNI_CDM_TYPE_KERNEL \<noteq> [] then d\<lparr>tx_tasklet := True\<rparr> else d))
     else Some d
   }"

end
