(* ===== verification/Tx_Inv.thy ===== *)
theory Tx_Inv
  imports Tx
begin

text \<open>
  The invariant of the transmit path: which descriptors of a ring are in flight, what an entry added and an entry retired do to
  them, and the transactions that a job has in queues and rings.
\<close>

section \<open>The invariant\<close>

text \<open>The number of descriptors in flight, and what they stand for, beginning with the one that is cleaned next.\<close>

definition flight :: "tx_ring \<Rightarrow> nat" where
  "flight r = (if tx_next_to_use r = tx_next_to_clean r then (if tx_status r = KGNI_RING_FULL then tx_count r else 0)
     else (tx_next_to_use r + tx_count r - tx_next_to_clean r) mod tx_count r)"

definition tpos :: "tx_ring \<Rightarrow> nat \<Rightarrow> nat" where
  "tpos r j = (tx_next_to_clean r + j) mod tx_count r"

definition flight_infos :: "tx_ring \<Rightarrow> tx_info list" where
  "flight_infos r = map (\<lambda>j. tx_buffer_info r ! tpos r j) [0..<flight r]"

definition ring_ok :: "tx_ring \<Rightarrow> bool" where
  "ring_ok r \<longleftrightarrow> tx_next_to_use r < tx_count r \<and> tx_next_to_clean r < tx_count r \<and> length (tx_descs r) = tx_count r \<and> length (tx_complete r) = tx_count r \<and>
     length (tx_error r) = tx_count r \<and> tx_status r \<noteq> KGNI_RING_LOCKED \<and> (\<forall>j < tx_count r. tx_complete r ! tpos r j \<longrightarrow> j < flight r) \<and>
     (\<forall>b \<in> set (flight_infos r). ti_type b \<noteq> KGNI_TX_UNKNOWN)"

lemma flight_cases:
  assumes "tx_next_to_use r < tx_count r" and "tx_next_to_clean r < tx_count r"
  shows "flight r \<le> tx_count r" "tpos r (flight r) = tx_next_to_use r" "tx_status r \<noteq> KGNI_RING_FULL \<Longrightarrow> flight r < tx_count r"
proof -
  have "0 < tx_count r" using assms(1) by linarith
  then have "x mod tx_count r < tx_count r" for x by (rule mod_less_divisor)
  then show "flight r \<le> tx_count r" "tx_status r \<noteq> KGNI_RING_FULL \<Longrightarrow> flight r < tx_count r"
    using assms by (auto simp: flight_def intro: less_imp_le)
  show "tpos r (flight r) = tx_next_to_use r"
  proof (cases "tx_next_to_use r = tx_next_to_clean r")
    case True
    with assms show ?thesis by (simp add: flight_def tpos_def)
  next
    case False
    have "tpos r (flight r) = (tx_next_to_clean r + (tx_next_to_use r + tx_count r - tx_next_to_clean r)) mod tx_count r"
      using False by (simp add: flight_def tpos_def mod_add_right_eq)
    also have "\<dots> = tx_next_to_use r" using assms by simp
    finally show ?thesis .
  qed
qed

text \<open>The number is determined by the two indices and by whether the ring is full.\<close>

lemma flight_unique:
  assumes "tx_next_to_clean r < tx_count r" and "k \<le> tx_count r" and "tx_next_to_use r = tpos r k"
    and "k = tx_count r \<longrightarrow> tx_status r = KGNI_RING_FULL" and "k = 0 \<longrightarrow> tx_status r \<noteq> KGNI_RING_FULL"
  shows "flight r = k"
proof -
  let ?c = "tx_next_to_clean r" and ?n = "tx_count r"
  consider "k = 0" | "k = ?n" "0 < k" | "0 < k" "k < ?n" "?c + k < ?n" | "0 < k" "k < ?n" "?n \<le> ?c + k" using assms(2) by linarith
  then show ?thesis
  proof cases
    case 1
    with assms show ?thesis by (simp add: flight_def tpos_def)
  next
    case 2
    with assms show ?thesis by (simp add: flight_def tpos_def)
  next
    case 3
    with assms show ?thesis by (simp add: flight_def tpos_def)
  next
    case 4
    then have "tpos r k = ?c + k - ?n" using assms(1) by (simp add: tpos_def le_mod_geq)
    with 4 assms show ?thesis by (simp add: flight_def)
  qed
qed

lemma tpos_less: "tx_next_to_clean r < tx_count r \<Longrightarrow> tpos r j < tx_count r"
  unfolding tpos_def by (rule mod_less_divisor) linarith

lemma tpos_inj: "tpos r i = tpos r j \<Longrightarrow> i < tx_count r \<Longrightarrow> j < tx_count r \<Longrightarrow> tx_next_to_clean r < tx_count r \<Longrightarrow> i = j"
  by (auto simp: tpos_def le_mod_geq not_less mod_if split: if_splits)

lemma tpos_0: "tx_next_to_clean r < tx_count r \<Longrightarrow> tpos r 0 = tx_next_to_clean r"
  by (simp add: tpos_def)

text \<open>What the source relies on of \<open>KGNI_NEXT_RING_ENTRY\<close> when the ring is not full.\<close>

definition next_entry_ok :: "(tx_ring \<Rightarrow> nat \<times> tx_ring) \<Rightarrow> bool" where
  "next_entry_ok f \<longleftrightarrow> (\<forall>r. tx_status r = KGNI_RING_EMPTY \<longrightarrow> tx_next_to_use r < tx_count r \<longrightarrow>
     (\<exists>st. f r = (tx_next_to_use r, r\<lparr>tx_next_to_use := next_tx r (tx_next_to_use r), tx_status := st\<rparr>) \<and>
        (st = KGNI_RING_EMPTY \<and> next_tx r (tx_next_to_use r) \<noteq> tx_next_to_clean r \<or> st = KGNI_RING_FULL)))"

lemma next_tx_tpos: "0 < tx_count r \<Longrightarrow> next_tx r (tpos r j) = tpos r (Suc j)"
  using mod_Suc[of "tx_next_to_clean r + j" "tx_count r"] by (simp add: next_tx_def tpos_def)

lemma ring_frame [simp]: "flight_infos (r\<lparr>tx_wr_index := w\<rparr>) = flight_infos r" "ring_ok (r\<lparr>tx_wr_index := w\<rparr>) = ring_ok r"
proof -
  have fl: "flight (r\<lparr>tx_wr_index := w\<rparr>) = flight r" by (simp add: flight_def)
  have pos: "tpos (r\<lparr>tx_wr_index := w\<rparr>) = tpos r" by (rule ext) (simp add: tpos_def)
  show inf: "flight_infos (r\<lparr>tx_wr_index := w\<rparr>) = flight_infos r" unfolding flight_infos_def fl pos by simp
  show "ring_ok (r\<lparr>tx_wr_index := w\<rparr>) = ring_ok r" unfolding ring_ok_def inf fl pos by simp
qed

text \<open>An entry added to a ring.\<close>

lemma ring_put:
  assumes ok: "ring_ok r" and st: "tx_status r = KGNI_RING_EMPTY" and nre: "next_entry_ok f" and b: "ti_type nb \<noteq> KGNI_TX_UNKNOWN"
  shows "\<exists>r1. f r = (tx_next_to_use r, r1) \<and> tx_buffer_info r1 = tx_buffer_info r \<and> tx_descs r1 = tx_descs r \<and>
    (let r2 = r1\<lparr>tx_buffer_info := (tx_buffer_info r1)[tx_next_to_use r := nb], tx_descs := (tx_descs r1)[tx_next_to_use r := t]\<rparr>
     in ring_ok r2 \<and> flight_infos r2 = flight_infos r @ [nb])"
proof -
  have l: "tx_next_to_use r < tx_count r" "tx_next_to_clean r < tx_count r" using ok by (simp_all add: ring_ok_def)
  from nre st l(1) obtain st' where f: "f r = (tx_next_to_use r, r\<lparr>tx_next_to_use := next_tx r (tx_next_to_use r), tx_status := st'\<rparr>)"
    and st': "st' = KGNI_RING_EMPTY \<and> next_tx r (tx_next_to_use r) \<noteq> tx_next_to_clean r \<or> st' = KGNI_RING_FULL"
    unfolding next_entry_ok_def by blast
  let ?r1 = "r\<lparr>tx_next_to_use := next_tx r (tx_next_to_use r), tx_status := st'\<rparr>"
  let ?r = "?r1\<lparr>tx_buffer_info := (tx_buffer_info ?r1)[tx_next_to_use r := nb], tx_descs := (tx_descs ?r1)[tx_next_to_use r := t]\<rparr>"
  note fl = flight_cases[OF l]
  have k: "flight r < tx_count r" using fl(3) st by simp
  have use: "tx_next_to_use r = tpos r (flight r)" using fl(2) by simp
  have nx: "next_tx r (tx_next_to_use r) = tpos r (Suc (flight r))" unfolding use by (rule next_tx_tpos) (use l in linarith)
  have pos: "tpos ?r = tpos r" by (rule ext) (simp add: tpos_def)
  have fr: "flight ?r = Suc (flight r)"
  proof (rule flight_unique)
    show "Suc (flight r) = tx_count ?r \<longrightarrow> tx_status ?r = KGNI_RING_FULL"
    proof
      assume "Suc (flight r) = tx_count ?r"
      then have "next_tx r (tx_next_to_use r) = tx_next_to_clean r" unfolding nx using l(2) by (simp add: tpos_def)
      with st' show "tx_status ?r = KGNI_RING_FULL" by simp
    qed
  qed (use l k nx pos in simp_all)
  have neq: "tpos r j \<noteq> tx_next_to_use r" if "j < flight r" for j using tpos_inj[of r j "flight r"] that k l(2) use by auto
  have inf: "flight_infos ?r = flight_infos r @ [nb]"
  proof -
    have "map (\<lambda>j. tx_buffer_info ?r ! tpos r j) [0..<flight r] = flight_infos r"
      unfolding flight_infos_def by (rule map_cong) (use neq[symmetric] in simp_all)
    moreover have "tx_buffer_info ?r ! tpos r (flight r) = nb" using l(1) use by simp
    moreover have "flight_infos ?r = map (\<lambda>j. tx_buffer_info ?r ! tpos r j) [0..<flight r] @ [tx_buffer_info ?r ! tpos r (flight r)]"
      unfolding flight_infos_def[of ?r] fr pos by simp
    ultimately show ?thesis by simp
  qed
  have "ring_ok ?r" unfolding ring_ok_def inf fr pos
    using ok st' l nx tpos_less[of r "Suc (flight r)"] b by (auto simp: ring_ok_def less_Suc_eq)
  with inf f show ?thesis by (simp add: Let_def)
qed

text \<open>The first entry leaves the ring.\<close>

definition retired :: "tx_ring \<Rightarrow> tx_ring" where
  "retired r = r\<lparr>tx_complete := (tx_complete r)[tx_next_to_clean r := False], tx_next_to_clean := next_tx r (tx_next_to_clean r), tx_status := KGNI_RING_EMPTY\<rparr>"

lemma ring_retire:
  assumes ok: "ring_ok r" and c: "tx_complete r ! tx_next_to_clean r"
  shows "ring_ok (retired r)" "flight r = Suc (flight (retired r))" "flight_infos r = tx_buffer_info r ! tx_next_to_clean r # flight_infos (retired r)"
proof -
  have l: "tx_next_to_use r < tx_count r" "tx_next_to_clean r < tx_count r" using ok by (simp_all add: ring_ok_def)
  note fl = flight_cases[OF l]
  have "0 < flight r" using ok c tpos_0[OF l(2)] l(2) unfolding ring_ok_def by (metis gr_implies_not0 neq0_conv)
  then obtain k where k: "flight r = Suc k" by (cases "flight r") auto
  have nx: "next_tx r (tx_next_to_clean r) = tpos r 1" using next_tx_tpos[of r 0] tpos_0[OF l(2)] l(2) by fastforce
  have pos: "tpos (retired r) j = tpos r (Suc j)" for j by (simp add: retired_def tpos_def nx mod_add_left_eq)
  have n: "tx_count (retired r) = tx_count r" "tx_next_to_use (retired r) = tx_next_to_use r" "tx_status (retired r) = KGNI_RING_EMPTY"
    "tx_next_to_clean (retired r) = tpos r 1" "tx_buffer_info (retired r) = tx_buffer_info r" by (simp_all add: retired_def nx)
  have fr: "flight (retired r) = k"
  proof (rule flight_unique)
    show "tx_next_to_use (retired r) = tpos (retired r) k" using fl(2) k pos n by simp
  qed (use l n k fl(1) tpos_less[of r 1] in auto)
  then show "flight r = Suc (flight (retired r))" using k by simp
  show inf: "flight_infos r = tx_buffer_info r ! tx_next_to_clean r # flight_infos (retired r)"
    unfolding flight_infos_def fr k n pos using tpos_0[OF l(2)] by (simp add: upt_conv_Cons map_Suc_upt[symmetric] del: upt_Suc)
  have "tx_complete (retired r) ! tpos (retired r) j \<longrightarrow> j < k" if j: "j < tx_count r" for j
  proof (cases "Suc j < tx_count r")
    case True
    then have "tpos r (Suc j) \<noteq> tx_next_to_clean r" using tpos_inj[of r "Suc j" 0] tpos_0[OF l(2)] l(2) by fastforce
    then show ?thesis using ok True k unfolding ring_ok_def pos by (auto simp: retired_def)
  next
    case False
    then have "Suc j = tx_count r" using j by simp
    then have "tpos r (Suc j) = tx_next_to_clean r" using l(2) by (simp only: tpos_def mod_add_self2 mod_less)
    then show ?thesis using ok l unfolding pos by (simp add: retired_def ring_ok_def)
  qed
  moreover have "set (flight_infos (retired r)) \<subseteq> set (flight_infos r)" unfolding inf by auto
  ultimately show "ring_ok (retired r)" using ok l tpos_less[of r 1] unfolding ring_ok_def n fr by (auto simp: retired_def nx)
qed

section \<open>Outstanding transactions\<close>

text \<open>The RDMA transactions of one generation of a protection tag, in the queues and in the rings.\<close>

definition mine :: "u8 \<Rightarrow> u64 \<Rightarrow> tx_info \<Rightarrow> bool" where
  "mine p g b \<longleftrightarrow> ti_type b = KGNI_RDMA \<and> ti_ptag b = p \<and> ti_rsrc_gen b = g"

definition in_queue :: "u8 \<Rightarrow> u64 \<Rightarrow> tx_pkt list \<Rightarrow> nat" where
  "in_queue p g ks = length (filter (\<lambda>k. mine p g (pk_info k)) ks)"

definition in_ring :: "u8 \<Rightarrow> u64 \<Rightarrow> tx_ring \<Rightarrow> nat" where
  "in_ring p g r = length (filter (mine p g) (flight_infos r))"

definition outstanding :: "u8 \<Rightarrow> u64 \<Rightarrow> tx_dev \<Rightarrow> nat" where
  "outstanding p g d = in_queue p g (tx_queue d GNI_CDM_TYPE_KERNEL) + in_queue p g (tx_queue d GNI_CDM_TYPE_USER) +
     sum_list (map (\<lambda>c. in_ring p g (bc_ring c)) (tx_chnls d))"

text \<open>
  The channels that take part are direct ones with an index, the channel of a domain is one of them, and \<open>KGNI_NEXT_RING_ENTRY\<close> is as
  the code relies on.
\<close>

definition chnls_ok :: "tx_env \<Rightarrow> tx_dev \<Rightarrow> bool" where
  "chnls_ok env d \<longleftrightarrow> 0 < num_bte_chnls env \<and>
     (\<forall>j < num_bte_chnls env. kgni_bte_next_chnl env j < length (tx_chnls d) \<and> bc_direct (tx_chnls d ! kgni_bte_next_chnl env j)) \<and>
     (\<forall>q. \<exists>j < num_bte_chnls env. domain_bte_ctrl env q = kgni_bte_next_chnl env j) \<and> next_entry_ok (KGNI_NEXT_RING_ENTRY env)"

text \<open>A transaction carries a generation that has been given out.\<close>

definition gen_fine :: "tx_dev \<Rightarrow> tx_info \<Rightarrow> bool" where
  "gen_fine d b \<longleftrightarrow> (ti_type b = KGNI_RDMA \<longrightarrow> ti_rsrc_gen b < tx_job_generation d)"

definition pkt_fine :: "tx_env \<Rightarrow> tx_dev \<Rightarrow> tx_pkt \<Rightarrow> bool" where
  "pkt_fine env d k \<longleftrightarrow> ti_type (pk_info k) \<noteq> KGNI_TX_UNKNOWN \<and> gen_fine d (pk_info k) \<and>
     (\<forall>v. ti_vcid (pk_info k) = Some v \<longrightarrow> (\<exists>j < num_bte_chnls env. v = bc_vcid (tx_chnls d ! kgni_bte_next_chnl env j)))"

definition tx_base :: "tx_env \<Rightarrow> tx_dev \<Rightarrow> bool" where
  "tx_base env d \<longleftrightarrow> chnls_ok env d \<and> (\<forall>c \<in> set (tx_chnls d). ring_ok (bc_ring c) \<and> (\<forall>b \<in> set (flight_infos (bc_ring c)). gen_fine d b)) \<and> (\<forall>q. \<forall>k \<in> set (tx_queue d q). pkt_fine env d k)"

definition counts :: "(u8 \<Rightarrow> u64 \<Rightarrow> int) \<Rightarrow> tx_dev \<Rightarrow> bool" where
  "counts f d \<longleftrightarrow> (\<forall>p r. tx_resources d p = Some r \<longrightarrow> tr_rdma_count r = int (outstanding p (tr_generation r) d) + f p (tr_generation r))"

definition gens_ok :: "tx_dev \<Rightarrow> bool" where
  "gens_ok d \<longleftrightarrow> (\<forall>p r. tx_resources d p = Some r \<longrightarrow> tr_generation r < tx_job_generation d)"

definition tx_inv :: "tx_env \<Rightarrow> tx_dev \<Rightarrow> bool" where
  "tx_inv env d \<longleftrightarrow> tx_base env d \<and> counts (\<lambda>_ _. 0) d \<and> gens_ok d"

lemma upd_bte_sel [simp]:
  "tx_queue (upd_bte i f d) = tx_queue d" "tx_resources (upd_bte i f d) = tx_resources d" "length (tx_chnls (upd_bte i f d)) = length (tx_chnls d)"
  "tx_cur_chnl (upd_bte i f d) = tx_cur_chnl d" "tx_errors (upd_bte i f d) = tx_errors d" "tx_tasklet (upd_bte i f d) = tx_tasklet d"
  "tx_job_generation (upd_bte i f d) = tx_job_generation d" "gen_fine (upd_bte i f d) b = gen_fine d b" "gens_ok (upd_bte i f d) = gens_ok d"
  by (simp_all add: upd_bte_def gen_fine_def gens_ok_def)

lemma upd_bte_nth:
  "j < length (tx_chnls d) \<Longrightarrow> bc_vcid (tx_chnls (upd_bte i f d) ! j) = bc_vcid (tx_chnls d ! j)"
  "j < length (tx_chnls d) \<Longrightarrow> bc_direct (tx_chnls (upd_bte i f d) ! j) = bc_direct (tx_chnls d ! j)"
  "i < length (tx_chnls d) \<Longrightarrow> tx_chnls (upd_bte i f d) ! i = (tx_chnls d ! i)\<lparr>bc_ring := f (bc_ring (tx_chnls d ! i))\<rparr>"
  by (cases "i = j"; simp add: upd_bte_def)+

lemma pkt_fine_upd: "chnls_ok env d \<Longrightarrow> pkt_fine env (upd_bte i f d) k = pkt_fine env d k"
proof -
  assume c: "chnls_ok env d"
  have "bc_vcid (tx_chnls (upd_bte i f d) ! kgni_bte_next_chnl env j) = bc_vcid (tx_chnls d ! kgni_bte_next_chnl env j)" if "j < num_bte_chnls env" for j
    by (rule upd_bte_nth(1)) (use c that in \<open>simp add: chnls_ok_def\<close>)
  then have "(\<exists>j < num_bte_chnls env. v = bc_vcid (tx_chnls (upd_bte i f d) ! kgni_bte_next_chnl env j)) \<longleftrightarrow>
      (\<exists>j < num_bte_chnls env. v = bc_vcid (tx_chnls d ! kgni_bte_next_chnl env j))" for v
    by (intro ex_cong1) auto
  then show ?thesis unfolding pkt_fine_def by simp
qed

lemma tx_base_upd:
  assumes b: "tx_base env d" and i: "i < length (tx_chnls d)" and r: "ring_ok (f (bc_ring (tx_chnls d ! i)))" "\<forall>b \<in> set (flight_infos (f (bc_ring (tx_chnls d ! i)))). gen_fine d b"
  shows "tx_base env (upd_bte i f d)"
proof -
  have c: "chnls_ok env d" using b by (simp add: tx_base_def)
  then have "chnls_ok env (upd_bte i f d)" unfolding chnls_ok_def by (simp add: upd_bte_nth(2))
  moreover have "ring_ok (bc_ring x) \<and> (\<forall>b \<in> set (flight_infos (bc_ring x)). gen_fine d b)" if "x \<in> set (tx_chnls (upd_bte i f d))" for x
    using that b r i unfolding tx_base_def upd_bte_def by (auto dest!: set_update_subset_insert[THEN subsetD])
  ultimately show ?thesis using b pkt_fine_upd[OF c] by (simp add: tx_base_def)
qed

lemma outstanding_upd:
  assumes i: "i < length (tx_chnls d)"
  shows "outstanding p g (upd_bte i f d) + in_ring p g (bc_ring (tx_chnls d ! i)) = outstanding p g d + in_ring p g (f (bc_ring (tx_chnls d ! i)))"
proof -
  let ?h = "\<lambda>c. in_ring p g (bc_ring c)"
  have "map ?h (tx_chnls (upd_bte i f d)) = (map ?h (tx_chnls d))[i := in_ring p g (f (bc_ring (tx_chnls d ! i)))]"
    by (simp add: upd_bte_def map_update)
  moreover have "?h (tx_chnls d ! i) \<le> sum_list (map ?h (tx_chnls d))" using i member_le_sum_list[of "map ?h (tx_chnls d) ! i"] by simp
  ultimately show ?thesis using i by (simp add: outstanding_def sum_list_update)
qed

lemma tx_base_ring: "tx_base env d \<Longrightarrow> i < length (tx_chnls d) \<Longrightarrow> ring_ok (bc_ring (tx_chnls d ! i))"
  "tx_base env d \<Longrightarrow> i < length (tx_chnls d) \<Longrightarrow> b \<in> set (flight_infos (bc_ring (tx_chnls d ! i))) \<Longrightarrow> gen_fine d b"
  unfolding tx_base_def by (metis nth_mem)+

definition in_flight :: "tx_dev \<Rightarrow> nat \<Rightarrow> bool" where
  "in_flight d i \<longleftrightarrow> flight_infos (bc_ring (tx_chnls d ! i)) \<noteq> []"

lemma full_in_flight:
  assumes "tx_base env d" and i: "i < length (tx_chnls d)" and "ring_full env (bc_ring (tx_chnls d ! i))"
  shows "in_flight d i"
proof -
  let ?r = "bc_ring (tx_chnls d ! i)"
  have ok: "ring_ok ?r" by (rule tx_base_ring(1)[OF assms(1) i])
  then have st: "tx_status ?r = KGNI_RING_FULL" using assms(3) by (auto simp: ring_full_def ring_ok_def)
  have l: "tx_next_to_use ?r < tx_count ?r" "tx_next_to_clean ?r < tx_count ?r" using ok by (simp_all add: ring_ok_def)
  have "flight ?r \<noteq> 0"
  proof
    assume z: "flight ?r = 0"
    then have "tx_next_to_use ?r = tx_next_to_clean ?r" using flight_cases(2)[OF l] tpos_0[OF l(2)] by simp
    with z st l show False by (simp add: flight_def)
  qed
  then show ?thesis by (simp add: in_flight_def flight_infos_def)
qed

lemma put_entry_at:
  assumes b: "tx_base env d" and i: "i < length (tx_chnls d)" and nf: "\<not> ring_full env (bc_ring (tx_chnls d ! i))" and k: "ti_type b' \<noteq> KGNI_TX_UNKNOWN" "gen_fine d b'"
  shows "\<exists>d' f. put_entry env i b' t d = Some d' \<and> d' = upd_bte i f d \<and> tx_base env d' \<and>
    (\<forall>p g. outstanding p g d' = outstanding p g d + (if mine p g b' then 1 else 0)) \<and>
    (\<forall>j < length (tx_chnls d). in_flight d j \<or> j = i \<longrightarrow> in_flight d' j)"
proof -
  let ?r = "bc_ring (tx_chnls d ! i)"
  have ok: "ring_ok ?r" by (rule tx_base_ring(1)[OF b i])
  have st: "tx_status ?r = KGNI_RING_EMPTY" using nf ok by (cases "tx_status ?r") (auto simp: ring_full_def ring_ok_def)
  have nre: "next_entry_ok (KGNI_NEXT_RING_ENTRY env)" using b by (simp add: tx_base_def chnls_ok_def)
  have l: "tx_next_to_use ?r < tx_count ?r" "length (tx_descs ?r) = tx_count ?r" using ok by (simp_all add: ring_ok_def)
  let ?ob = "tx_buffer_info ?r ! tx_next_to_use ?r"
  let ?nb = "if ti_type b' = KGNI_RDMA then ?ob\<lparr>ti_type := ti_type b', ti_ptag := ti_ptag b', ti_rsrc_gen := ti_rsrc_gen b'\<rparr> else ?ob\<lparr>ti_type := ti_type b'\<rparr>"
  have nb: "ti_type ?nb \<noteq> KGNI_TX_UNKNOWN" "mine p g ?nb = mine p g b'" "gen_fine d ?nb" for p g using k by (simp_all add: mine_def gen_fine_def)
  from ring_put[OF ok st nre nb(1), of t] obtain r1 where r1: "KGNI_NEXT_RING_ENTRY env ?r = (tx_next_to_use ?r, r1)" "tx_buffer_info r1 = tx_buffer_info ?r" "tx_descs r1 = tx_descs ?r"
    and r2: "ring_ok (r1\<lparr>tx_buffer_info := (tx_buffer_info r1)[tx_next_to_use ?r := ?nb], tx_descs := (tx_descs r1)[tx_next_to_use ?r := t]\<rparr>)"
      "flight_infos (r1\<lparr>tx_buffer_info := (tx_buffer_info r1)[tx_next_to_use ?r := ?nb], tx_descs := (tx_descs r1)[tx_next_to_use ?r := t]\<rparr>) = flight_infos ?r @ [?nb]"
    unfolding Let_def by blast
  let ?f = "\<lambda>_ :: tx_ring. r1\<lparr>tx_buffer_info := (tx_buffer_info r1)[tx_next_to_use ?r := ?nb], tx_descs := (tx_descs r1)[tx_next_to_use ?r := t], tx_wr_index := tx_next_to_use r1\<rparr>"
  have "put_entry env i b' t d = Some (upd_bte i ?f d)" using i l r1 by (simp add: put_entry_def Let_def)
  moreover have "tx_base env (upd_bte i ?f d)" by (rule tx_base_upd[OF b i]) (use r2 nb(3) tx_base_ring(2)[OF b i] in auto)
  moreover have "outstanding p g (upd_bte i ?f d) = outstanding p g d + (if mine p g b' then 1 else 0)" for p g
    using outstanding_upd[OF i, of p g ?f] nb(2)[of p g] by (simp add: in_ring_def r2(2))
  moreover have "in_flight (upd_bte i ?f d) j" if j: "j < length (tx_chnls d)" "in_flight d j \<or> j = i" for j
  proof (cases "j = i")
    case True
    then show ?thesis using i by (simp add: in_flight_def upd_bte_nth(3) r2(2))
  next
    case False
    with j show ?thesis by (simp add: in_flight_def upd_bte_def)
  qed
  ultimately show ?thesis by blast
qed

end
