(* ===== verification/Tx_Post.thy ===== *)
theory Tx_Post
  imports Tx_Inv
begin

text \<open>
  What \<open>kgni_rdma_post\<close> does, on every branch.
\<close>

section \<open>Posting\<close>

lemma cong_simps [simp]:
  "outstanding p g (d\<lparr>tx_resources := x\<rparr>) = outstanding p g d" "outstanding p g (d\<lparr>tx_cur_chnl := c\<rparr>) = outstanding p g d"
  "outstanding p g (d\<lparr>tx_tasklet := b\<rparr>) = outstanding p g d" "outstanding p g (d\<lparr>tx_errors := e\<rparr>) = outstanding p g d"
  "tx_base env (d\<lparr>tx_resources := x\<rparr>) = tx_base env d" "tx_base env (d\<lparr>tx_cur_chnl := c\<rparr>) = tx_base env d"
  "tx_base env (d\<lparr>tx_tasklet := b\<rparr>) = tx_base env d" "tx_base env (d\<lparr>tx_errors := e\<rparr>) = tx_base env d"
  "gen_fine (d\<lparr>tx_resources := x\<rparr>) b' = gen_fine d b'"
  by (simp_all add: outstanding_def tx_base_def chnls_ok_def pkt_fine_def gen_fine_def)

lemma inv_simps [simp]:
  "tx_inv env (d\<lparr>tx_cur_chnl := c\<rparr>) = tx_inv env d" "tx_inv env (d\<lparr>tx_tasklet := b\<rparr>) = tx_inv env d" "tx_inv env (d\<lparr>tx_errors := e\<rparr>) = tx_inv env d"
  by (simp_all add: tx_inv_def counts_def gens_ok_def)

text \<open>One RDMA request more, in the ring of a channel or at the end of the queue of its domain.\<close>

definition tx_placed :: "tx_env \<Rightarrow> tx_nic \<Rightarrow> ghal_tx_desc \<Rightarrow> tx_dev \<Rightarrow> tx_dev \<Rightarrow> bool" where
  "tx_placed env nic t d d' \<longleftrightarrow> (\<exists>b. ti_type b = KGNI_RDMA \<and> ti_ptag b = tn_ptag nic \<and> map_option tr_generation (tx_resources d (tn_ptag nic)) = Some (ti_rsrc_gen b) \<and>
     ((\<exists>j i d1. j < num_bte_chnls env \<and> i = kgni_bte_next_chnl env j \<and> tx_chnls d1 = tx_chnls d \<and> tx_queue d1 = tx_queue d \<and> tx_tasklet d1 = tx_tasklet d \<and>
         \<not> ring_full env (bc_ring (tx_chnls d ! i)) \<and> put_entry env i b t d1 = Some d' \<and> in_flight d' i) \<or>
      (tx_queue d (tn_cdm_type nic) \<noteq> [] \<or> ring_full env (bc_ring (tx_chnls d ! domain_bte_ctrl env (tn_cdm_type nic)))) \<and>
      tx_chnls d' = tx_chnls d \<and> tx_tasklet d' = tx_tasklet d \<and> tx_queue d' = (tx_queue d)(tn_cdm_type nic := tx_queue d (tn_cdm_type nic) @ [\<lparr>pk_info = b, pk_desc = t\<rparr>])))"

lemma out_append:
  "outstanding p g (d\<lparr>tx_queue := (tx_queue d)(q := tx_queue d q @ [k])\<rparr>) = outstanding p g d + (if mine p g (pk_info k) then 1 else 0)"
  by (cases q) (simp_all add: outstanding_def in_queue_def)

lemma base_append:
  "tx_base env d \<Longrightarrow> pkt_fine env d k \<Longrightarrow> tx_base env (d\<lparr>tx_queue := (tx_queue d)(q := tx_queue d q @ [k])\<rparr>)"
  by (auto simp: tx_base_def chnls_ok_def pkt_fine_def gen_fine_def)

text \<open>The transaction has been counted, and is put into a ring, queued or given up.\<close>

definition counted :: "tx_nic \<Rightarrow> tx_res \<Rightarrow> tx_dev \<Rightarrow> tx_dev" where
  "counted nic r d = d\<lparr>tx_resources := (tx_resources d)(tn_ptag nic \<mapsto> r\<lparr>tr_rdma_count := tr_rdma_count r + 1\<rparr>)\<rparr>"

definition rdma_info :: "tx_nic \<Rightarrow> tx_res \<Rightarrow> nat option \<Rightarrow> tx_info" where
  "rdma_info nic r vcid = \<lparr>ti_type = KGNI_RDMA, ti_ptag = tn_ptag nic, ti_rsrc_gen = tr_generation r, ti_vcid = vcid\<rparr>"

lemma counted_sel [simp]:
  "tx_queue (counted nic r d) = tx_queue d" "tx_chnls (counted nic r d) = tx_chnls d" "tx_tasklet (counted nic r d) = tx_tasklet d"
  "tx_base env (counted nic r d) = tx_base env d" "outstanding p g (counted nic r d) = outstanding p g d" "gen_fine (counted nic r d) b = gen_fine d b"
  by (simp_all add: counted_def)

lemma rdma_info_sel [simp]:
  "ti_type (rdma_info nic r v) = KGNI_RDMA" "ti_ptag (rdma_info nic r v) = tn_ptag nic" "ti_rsrc_gen (rdma_info nic r v) = tr_generation r" "ti_vcid (rdma_info nic r v) = v"
  by (simp_all add: rdma_info_def)

lemma counted_facts:
  assumes inv: "tx_inv env d" and res: "tx_resources d (tn_ptag nic) = Some r"
  shows "tx_resources (counted nic r d) x = Some s \<Longrightarrow>
      tr_rdma_count s = int (outstanding x (tr_generation s) d) + (if mine x (tr_generation s) (rdma_info nic r v) then 1 else 0)"
    "gen_fine d (rdma_info nic r v)" "gens_ok (counted nic r d)"
  using inv res by (auto simp: tx_inv_def counts_def mine_def counted_def gens_ok_def gen_fine_def split: if_splits)

text \<open>The invariant is restored once the transaction is in a ring or a queue.\<close>

lemma counted_inv:
  assumes inv: "tx_inv env d" and res: "tx_resources d (tn_ptag nic) = Some r" and rs: "tx_resources d' = tx_resources (counted nic r d)"
    and base: "tx_base env d'" and gok: "gens_ok d'" and out: "\<forall>x g. outstanding x g d' = outstanding x g d + (if mine x g (rdma_info nic r v) then 1 else 0)"
  shows "tx_inv env d'"
proof -
  have "tr_rdma_count s = int (outstanding x (tr_generation s) d') + 0" if "tx_resources d' x = Some s" for x s
    using counted_facts(1)[OF inv res, of x s v] that out unfolding rs by simp
  with base gok show ?thesis unfolding tx_inv_def counts_def by blast
qed

lemma counted_put:
  assumes inv: "tx_inv env d" and res: "tx_resources d (tn_ptag nic) = Some r" and j: "j < num_bte_chnls env" "i = kgni_bte_next_chnl env j"
    and i: "i < length (tx_chnls d)" "\<not> ring_full env (bc_ring (tx_chnls d ! i))"
  shows "\<exists>d'. put_entry env i (rdma_info nic r v) t (counted nic r d) = Some d' \<and> tx_inv env d' \<and> tx_placed env nic t d d'"
proof -
  let ?b = "rdma_info nic r v" and ?d = "counted nic r d"
  note c = counted_facts[OF inv res]
  have base: "tx_base env ?d" using inv by (simp add: tx_inv_def)
  have "\<exists>d' f. put_entry env i ?b t ?d = Some d' \<and> d' = upd_bte i f ?d \<and> tx_base env d' \<and> (\<forall>x g. outstanding x g d' = outstanding x g ?d + (if mine x g ?b then 1 else 0)) \<and>
      (\<forall>j < length (tx_chnls ?d). in_flight ?d j \<or> j = i \<longrightarrow> in_flight d' j)"
    by (rule put_entry_at[OF base]) (use i c(2) in simp_all)
  then obtain d' f where d': "put_entry env i ?b t ?d = Some d'" "d' = upd_bte i f ?d" "tx_base env d'"
    "\<forall>x g. outstanding x g d' = outstanding x g d + (if mine x g ?b then 1 else 0)" "in_flight d' i" using i(1) by auto
  have "tx_inv env d'" by (rule counted_inv[OF inv res _ d'(3) _ d'(4)]) (use d'(2) c(3) in simp_all)
  moreover have "\<exists>j i d1. j < num_bte_chnls env \<and> i = kgni_bte_next_chnl env j \<and> tx_chnls d1 = tx_chnls d \<and> tx_queue d1 = tx_queue d \<and> tx_tasklet d1 = tx_tasklet d \<and>
      \<not> ring_full env (bc_ring (tx_chnls d ! i)) \<and> put_entry env i ?b t d1 = Some d' \<and> in_flight d' i"
    by (rule exI[of _ j], rule exI[of _ i], rule exI[of _ ?d]) (use i(2) j d'(1,5) in simp)
  then have "tx_placed env nic t d d'" unfolding tx_placed_def using res by (intro exI[of _ ?b]) simp
  ultimately show ?thesis using d'(1) by blast
qed

lemma counted_enqueue:
  assumes inv: "tx_inv env d" and res: "tx_resources d (tn_ptag nic) = Some r"
    and v: "\<forall>v. vcid = Some v \<longrightarrow> (\<exists>j < num_bte_chnls env. v = bc_vcid (tx_chnls d ! kgni_bte_next_chnl env j))"
    and blk: "tx_queue d (tn_cdm_type nic) \<noteq> [] \<or> ring_full env (bc_ring (tx_chnls d ! domain_bte_ctrl env (tn_cdm_type nic)))"
  shows "\<exists>rc d'. tx_enqueue mem nic \<lparr>pk_info = rdma_info nic r vcid, pk_desc = t\<rparr> (counted nic r d) = Some (rc, d') \<and> tx_inv env d' \<and>
    (rc = 0 \<and> tx_placed env nic t d d' \<or> rc = - ENOMEM \<and> \<not> mem \<and> d' = d)"
proof (cases mem)
  case True
  let ?b = "rdma_info nic r vcid" and ?d = "counted nic r d" and ?q = "tn_cdm_type nic"
  let ?k = "\<lparr>pk_info = ?b, pk_desc = t\<rparr>"
  let ?e = "?d\<lparr>tx_queue := (tx_queue ?d)(?q := tx_queue ?d ?q @ [?k])\<rparr>"
  note c = counted_facts[OF inv res]
  have "pkt_fine env ?d ?k" using v c(2) by (simp add: pkt_fine_def)
  then have b: "tx_base env ?e" using inv by (intro base_append) (simp_all add: tx_inv_def)
  have "tx_inv env ?e"
  proof (rule counted_inv[OF inv res _ b])
    show "gens_ok ?e" using c(3) by (simp add: gens_ok_def)
    show "\<forall>x g. outstanding x g ?e = outstanding x g d + (if mine x g ?b then 1 else 0)" using out_append[of _ _ ?d ?q ?k] by simp
  qed simp
  moreover have "tx_placed env nic t d ?e" unfolding tx_placed_def by (rule exI[of _ ?b]) (use res blk in simp)
  ultimately show ?thesis using True by (simp add: tx_enqueue_def)
next
  case False
  have "(tx_resources d)(tn_ptag nic \<mapsto> r) = tx_resources d" using res by (simp add: fun_upd_idem)
  then have "tx_enqueue mem nic k (counted nic r d) = Some (- ENOMEM, d)" for k using False by (simp add: tx_enqueue_def upd_count_def counted_def)
  with inv False show ?thesis by simp
qed

lemma tx_submit_at:
  assumes inv: "tx_inv env d" and res: "tx_resources d (tn_ptag nic) = Some r" and tx: "\<exists>j < num_bte_chnls env. tx = kgni_bte_next_chnl env j"
    and v: "\<forall>v. vcid = Some v \<longrightarrow> (\<exists>j < num_bte_chnls env. v = bc_vcid (tx_chnls d ! kgni_bte_next_chnl env j))"
  shows "\<exists>rc d'. tx_submit env mem nic tx vcid t d = Some (rc, d') \<and> tx_inv env d' \<and> (rc = 0 \<and> tx_placed env nic t d d' \<or> rc = - ENOMEM \<and> \<not> mem \<and> d' = d)"
proof -
  let ?q = "tn_cdm_type nic" and ?b = "rdma_info nic r vcid" and ?d = "counted nic r d"
  have ch: "chnls_ok env d" using inv by (simp add: tx_inv_def tx_base_def)
  obtain jd jt where jd: "jd < num_bte_chnls env" "domain_bte_ctrl env ?q = kgni_bte_next_chnl env jd" and jt: "jt < num_bte_chnls env" "tx = kgni_bte_next_chnl env jt"
    using ch tx unfolding chnls_ok_def by blast
  have dom: "domain_bte_ctrl env ?q < length (tx_chnls d)" and txl: "tx < length (tx_chnls d)" using ch jd jt by (simp_all add: chnls_ok_def)
  have run: "tx_submit env mem nic tx vcid t d =
    (if tx_queue d ?q \<noteq> [] \<or> ring_full env (bc_ring (tx_chnls d ! tx)) \<and> ring_full env (bc_ring (tx_chnls d ! domain_bte_ctrl env ?q))
     then tx_enqueue mem nic \<lparr>pk_info = ?b, pk_desc = t\<rparr> ?d
     else do { d' \<leftarrow> put_entry env (if ring_full env (bc_ring (tx_chnls d ! tx)) then domain_bte_ctrl env ?q else tx) ?b t ?d; Some (0, d') })"
    using res txl dom by (simp add: tx_submit_def upd_count_def Let_def counted_def rdma_info_def)
  show ?thesis
  proof (cases "tx_queue d ?q \<noteq> [] \<or> ring_full env (bc_ring (tx_chnls d ! tx)) \<and> ring_full env (bc_ring (tx_chnls d ! domain_bte_ctrl env ?q))")
    case True
    with run counted_enqueue[OF inv res v] show ?thesis by auto
  next
    case False
    show ?thesis
    proof (cases "ring_full env (bc_ring (tx_chnls d ! tx))")
      case True
      with run False counted_put[OF inv res jd dom, where v = vcid and t = t] show ?thesis by auto
    next
      case f: False
      with run False counted_put[OF inv res jt txl f, where v = vcid and t = t] show ?thesis by auto
    qed
  qed
qed

text \<open>What a call of \<open>kgni_rdma_post\<close> does.\<close>

definition rdma_post_spec :: "tx_env \<Rightarrow> tx_nic \<Rightarrow> u32 \<Rightarrow> gni_post_descriptor \<Rightarrow> u64 \<Rightarrow> u64 \<Rightarrow> u64 \<Rightarrow> tx_dev \<Rightarrow> int \<Rightarrow> tx_dev \<Rightarrow> bool" where
  "rdma_post_spec env nic rpe pd hw_cq src usr d rc d' \<longleftrightarrow>
     (if rc \<noteq> 0 then d' = d\<lparr>tx_cur_chnl := tx_cur_chnl d'\<rparr>
      else (GNI_DEBUG env \<longrightarrow> debug_checks nic pd hw_cq) \<and> \<not> access_denied pd \<and> \<not> misaligned pd \<and>
        (\<exists>r pe t. tx_resources d (tn_ptag nic) = Some r \<and> \<not> limit_reached r \<and> translate_pe env nic rpe = Inr pe \<and>
           tx_descriptor env nic (tn_modes nic AND 0x40 \<noteq> 0 \<or> \<not> multi_bte env) pe pd hw_cq src usr = Inr t \<and> tx_placed env nic t d d'))"

lemma tx_descriptor_err: "tx_descriptor env nic single pe pd hw_cq src usr = Inl rc \<Longrightarrow> rc \<noteq> 0"
  by (auto simp: tx_descriptor_def Let_def split: if_splits option.splits)

lemma translate_pe_err: "translate_pe env nic rpe = Inl rc \<Longrightarrow> rc \<noteq> 0"
  by (auto simp: translate_pe_def Let_def split: if_splits)

lemma kgni_rdma_post_at:
  assumes inv: "tx_inv env d" and res: "tx_resources d (tn_ptag nic) = Some r"
  shows "\<exists>rc d'. kgni_rdma_post env mem nic rpe pd hw_cq src usr d = Some (rc, d') \<and> tx_inv env d' \<and> rdma_post_spec env nic rpe pd hw_cq src usr d rc d'"
proof (cases "GNI_DEBUG env \<and> \<not> debug_checks nic pd hw_cq")
  case True
  with inv show ?thesis by (simp add: kgni_rdma_post_def rdma_post_spec_def)
next
  case False
  let ?q = "tn_cdm_type nic"
  let ?single = "tn_modes nic AND 0x40 \<noteq> 0 \<or> \<not> multi_bte env"
  let ?n = "tx_cur_chnl d + 1"
  let ?tx = "if ?single then domain_bte_ctrl env ?q else kgni_bte_next_chnl env (unat ?n mod num_bte_chnls env)"
  let ?v = "if ?single then Some (bc_vcid (tx_chnls d ! domain_bte_ctrl env ?q)) else None"
  let ?d = "if ?single then d else d\<lparr>tx_cur_chnl := ?n\<rparr>"
  have ch: "chnls_ok env d" using inv by (simp add: tx_inv_def tx_base_def)
  obtain jd where jd: "jd < num_bte_chnls env" "domain_bte_ctrl env ?q = kgni_bte_next_chnl env jd" using ch unfolding chnls_ok_def by blast
  have dom: "domain_bte_ctrl env ?q < length (tx_chnls d)" using ch jd by (simp add: chnls_ok_def)
  have m: "unat ?n mod num_bte_chnls env < num_bte_chnls env" using ch by (intro mod_less_divisor) (simp add: chnls_ok_def)
  have tx: "\<exists>j < num_bte_chnls env. ?tx = kgni_bte_next_chnl env j" using m jd by (simp only: split: if_split) blast
  have v: "\<forall>v. ?v = Some v \<longrightarrow> (\<exists>j < num_bte_chnls env. v = bc_vcid (tx_chnls ?d ! kgni_bte_next_chnl env j))" using jd by auto
  have inv': "tx_inv env ?d" and res': "tx_resources ?d (tn_ptag nic) = Some r" using inv res by simp_all
  have cc: "?d = d\<lparr>tx_cur_chnl := tx_cur_chnl ?d\<rparr>" by simp
  have run: "kgni_rdma_post env mem nic rpe pd hw_cq src usr d =
    (case translate_pe env nic rpe of
       Inl rc \<Rightarrow> Some (rc, ?d)
     | Inr pe \<Rightarrow> if access_denied pd then Some (- EACCES, ?d) else if misaligned pd then Some (- EFAULT, ?d)
        else if limit_reached r then Some (- ENOSPC, ?d)
        else (case tx_descriptor env nic ?single pe pd hw_cq src usr of Inl rc \<Rightarrow> Some (rc, ?d) | Inr t \<Rightarrow> tx_submit env mem nic ?tx ?v t ?d))"
    using False dom res by (cases ?single) (auto simp: kgni_rdma_post_def Let_def split: sum.split)
  have err: "tx_inv env ?d \<and> rdma_post_spec env nic rpe pd hw_cq src usr d rc ?d" if "rc \<noteq> 0" for rc using that inv' cc by (simp add: rdma_post_spec_def)
  show ?thesis
  proof (cases "translate_pe env nic rpe")
    case (Inl rc)
    with run err[OF translate_pe_err[OF Inl]] show ?thesis by simp
  next
    case (Inr pe)
    show ?thesis
    proof (cases "access_denied pd \<or> misaligned pd \<or> limit_reached r")
      case True
      then obtain rc where "kgni_rdma_post env mem nic rpe pd hw_cq src usr d = Some (rc, ?d)" "rc \<noteq> 0" using run Inr by (auto split: if_splits)
      with err show ?thesis by blast
    next
      case ok: False
      show ?thesis
      proof (cases "tx_descriptor env nic ?single pe pd hw_cq src usr")
        case (Inl rc)
        with run Inr ok err[OF tx_descriptor_err[OF Inl]] show ?thesis by simp
      next
        case t: (Inr t)
        from tx_submit_at[OF inv' res' tx v, of mem t] obtain rc d' where
          s: "tx_submit env mem nic ?tx ?v t ?d = Some (rc, d')" "tx_inv env d'" "rc = 0 \<and> tx_placed env nic t ?d d' \<or> rc = - ENOMEM \<and> \<not> mem \<and> d' = ?d" by blast
        have pl: "tx_placed env nic t ?d d' = tx_placed env nic t d d'" by (simp add: tx_placed_def)
        have "rdma_post_spec env nic rpe pd hw_cq src usr d rc d'"
        proof (cases "rc = 0")
          case True
          with s(3) pl False Inr ok t res show ?thesis unfolding rdma_post_spec_def by auto
        next
          case r: False
          with s(3) have "d' = ?d" by simp
          with r cc show ?thesis by (simp add: rdma_post_spec_def)
        qed
        with run Inr ok t s(1,2) show ?thesis by simp
      qed
    qed
  qed
qed

end
