(* ===== verification/Tx_Push.thy ===== *)
theory Tx_Push
  imports Tx_Post
begin

text \<open>
  The tasklet: the search for a channel and a queue, the tour over the channels, and the loop over the queued requests.
\<close>

section \<open>The tasklet\<close>

declare queued_loop.simps [simp del]

text \<open>A channel that takes part and has room.\<close>

definition open_chnl :: "tx_env \<Rightarrow> tx_dev \<Rightarrow> nat \<Rightarrow> bool" where
  "open_chnl env d i \<longleftrightarrow> (\<exists>j < num_bte_chnls env. i = kgni_bte_next_chnl env j) \<and> \<not> ring_full env (bc_ring (tx_chnls d ! i))"

definition push_ok :: "tx_env \<Rightarrow> tx_dev \<Rightarrow> push_tx \<Rightarrow> bool" where
  "push_ok env d p \<longleftrightarrow> pt_next_chnl p < num_bte_chnls env \<and> pt_locked_txq p = None \<and> (\<forall>i. pt_locked_bte p = Some i \<longrightarrow> open_chnl env d i)"

lemma open_chnlD:
  assumes "tx_base env d" and "open_chnl env d i"
  shows "i < length (tx_chnls d)" "bc_direct (tx_chnls d ! i)" "\<not> ring_full env (bc_ring (tx_chnls d ! i))"
  using assms unfolding tx_base_def chnls_ok_def open_chnl_def by auto

lemma get_chnl_loop_at:
  assumes "tx_base env d" and "push_ok env d p" and "pt_locked_bte p = None"
  shows "\<exists>p'. get_chnl_loop env d n p = Some p' \<and> push_ok env d p'"
  using assms(2,3)
proof (induction n arbitrary: p)
  case (Suc n)
  let ?i = "kgni_bte_next_chnl env (pt_next_chnl p)"
  let ?p = "p\<lparr>pt_next_chnl := (pt_next_chnl p + 1) mod num_bte_chnls env\<rparr>"
  have num: "0 < num_bte_chnls env" "pt_next_chnl p < num_bte_chnls env" using assms(1) Suc.prems(1) by (simp_all add: tx_base_def chnls_ok_def push_ok_def)
  then have i: "?i < length (tx_chnls d)" "bc_direct (tx_chnls d ! ?i)" using assms(1) by (simp_all add: tx_base_def chnls_ok_def)
  have p: "push_ok env d ?p" "pt_locked_bte ?p = None" using Suc.prems num(1) by (simp_all add: push_ok_def)
  show ?case
  proof (cases "ring_full env (bc_ring (tx_chnls d ! ?i))")
    case True
    with Suc.IH[OF p] i show ?thesis by (simp add: Let_def)
  next
    case False
    then have "open_chnl env d ?i" using num(2) by (auto simp: open_chnl_def)
    then have "push_ok env d (?p\<lparr>pt_locked_bte := Some ?i\<rparr>)" using p(1) by (simp add: push_ok_def)
    with False i show ?thesis by (simp add: Let_def GASSERT_def)
  qed
qed simp

lemma get_chnl_at:
  "tx_base env d \<Longrightarrow> push_ok env d p \<Longrightarrow> pt_locked_bte p = None \<Longrightarrow> \<exists>p'. kgni_push_tx_get_chnl env d p = Some p' \<and> push_ok env d p'"
  using get_chnl_loop_at by (simp add: kgni_push_tx_get_chnl_def GASSERT_def)

text \<open>With one channel only, every request can go to it.\<close>

lemma cannot_send:
  assumes b: "tx_base env d" and i: "open_chnl env d i" and k: "k \<in> set (tx_queue d q)" and n: "\<not> can_send (tx_chnls d ! i) k"
  shows "1 < num_bte_chnls env"
proof (rule ccontr)
  assume "\<not> 1 < num_bte_chnls env"
  then have one: "j = j'" if "j < num_bte_chnls env" "j' < num_bte_chnls env" for j j' using that by simp
  have "pkt_fine env d k" using b k by (simp add: tx_base_def)
  moreover obtain v where v: "ti_vcid (pk_info k) = Some v" "v \<noteq> bc_vcid (tx_chnls d ! i)" using n by (cases "ti_vcid (pk_info k)") (auto simp: can_send_def)
  ultimately obtain j where j: "j < num_bte_chnls env" "v = bc_vcid (tx_chnls d ! kgni_bte_next_chnl env j)" by (auto simp: pkt_fine_def)
  obtain j' where "j' < num_bte_chnls env" "i = kgni_bte_next_chnl env j'" using i by (auto simp: open_chnl_def)
  with one[OF j(1)] j v(2) show False by auto
qed

text \<open>The packet that the tasklet has found.\<close>

definition found :: "tx_dev \<Rightarrow> bte_ctrl \<Rightarrow> push_tx \<Rightarrow> bool" where
  "found d c p \<longleftrightarrow> (\<forall>q. pt_locked_txq p = Some q \<longrightarrow> tx_queue d q \<noteq> [] \<and> can_send c (hd (tx_queue d q)))"

lemma get_queue_loop_at:
  assumes "tx_base env d" and "open_chnl env d i" and "found d (tx_chnls d ! i) p"
  shows "\<exists>p'. get_queue_loop env d (tx_chnls d ! i) n p = Some p' \<and> pt_next_chnl p' = pt_next_chnl p \<and> pt_locked_bte p' = pt_locked_bte p \<and> found d (tx_chnls d ! i) p'"
  using assms(3)
proof (induction n arbitrary: p)
  case (Suc n)
  let ?q = "pt_next_txq p"
  let ?p = "p\<lparr>pt_next_txq := next_txq ?q\<rparr>"
  have p: "found d (tx_chnls d ! i) ?p" "found d (tx_chnls d ! i) (?p\<lparr>pt_blocked_txq := Some ?q\<rparr>)" using Suc.prems by (simp_all add: found_def)
  show ?case
  proof (cases "tx_queue d ?q")
    case Nil
    with Suc.IH[OF p(1)] show ?thesis by (simp add: Let_def)
  next
    case (Cons k ks)
    show ?thesis
    proof (cases "can_send (tx_chnls d ! i) k")
      case True
      with Cons show ?thesis by (simp add: Let_def found_def)
    next
      case False
      have "1 < num_bte_chnls env" by (rule cannot_send[OF assms(1,2) _ False, of ?q]) (simp add: Cons)
      with Suc.IH[OF p(2)] Cons False show ?thesis by (simp add: Let_def GASSERT_def)
    qed
  qed
qed simp

lemma get_queue_at:
  assumes "tx_base env d" and "open_chnl env d i" and "pt_locked_txq p = None"
  shows "\<exists>p'. kgni_push_tx_get_queue env d (tx_chnls d ! i) p = Some p' \<and> pt_next_chnl p' = pt_next_chnl p \<and> pt_locked_bte p' = pt_locked_bte p \<and> found d (tx_chnls d ! i) p'"
proof -
  have "found d (tx_chnls d ! i) (p\<lparr>pt_blocked_txq := None\<rparr>)" using assms(3) by (simp add: found_def)
  from get_queue_loop_at[OF assms(1,2) this, of 2] obtain p' where
    p': "get_queue_loop env d (tx_chnls d ! i) 2 (p\<lparr>pt_blocked_txq := None\<rparr>) = Some p'" "pt_next_chnl p' = pt_next_chnl p" "pt_locked_bte p' = pt_locked_bte p" "found d (tx_chnls d ! i) p'" by auto
  then show ?thesis using assms(3) by (simp add: kgni_push_tx_get_queue_def GASSERT_def found_def split: option.split)
qed

text \<open>A request is taken from the head of a queue, and a channel with room is locked for it; or nothing changes.\<close>

definition taken :: "tx_env \<Rightarrow> tx_dev \<Rightarrow> tx_pkt option \<Rightarrow> push_tx \<Rightarrow> tx_dev \<Rightarrow> bool" where
  "taken env d elm p' d' \<longleftrightarrow>
     (case elm of
        None \<Rightarrow> d' = d
      | Some k \<Rightarrow> pt_next_chnl p' < num_bte_chnls env \<and> pt_locked_txq p' = None \<and>
          (\<exists>i q ks. pt_locked_bte p' = Some i \<and> open_chnl env d i \<and> tx_queue d q = k # ks \<and> d' = d\<lparr>tx_queue := (tx_queue d)(q := ks)\<rparr>))"

lemma queued_loop_at:
  assumes b: "tx_base env d" and "push_ok env d p"
  shows "\<exists>elm p' d'. queued_loop env n d p = Some (elm, p', d') \<and> taken env d elm p' d'"
  using assms(2)
proof (induction n arbitrary: p rule: less_induct)
  case (less n)
  show ?case
  proof (cases "pt_locked_bte p")
    case None
    then show ?thesis by (subst queued_loop.simps) (simp add: taken_def)
  next
    case (Some i)
    have i: "open_chnl env d i" using less.prems Some by (simp add: push_ok_def)
    have "pt_locked_txq p = None" using less.prems by (simp add: push_ok_def)
    from get_queue_at[OF b i this] obtain p1 where p1: "kgni_push_tx_get_queue env d (tx_chnls d ! i) p = Some p1" "pt_next_chnl p1 = pt_next_chnl p"
      "pt_locked_bte p1 = pt_locked_bte p" "found d (tx_chnls d ! i) p1" by blast
    have nc: "pt_next_chnl p1 < num_bte_chnls env" using p1(2) less.prems by (simp add: push_ok_def)
    show ?thesis
    proof (cases "pt_locked_txq p1")
      case q: (Some q)
      then obtain k ks where k: "tx_queue d q = k # ks" using p1(4) unfolding found_def by (metis neq_Nil_conv)
      have "queued_loop env n d p = Some (Some k, p1\<lparr>pt_locked_txq := None\<rparr>, d\<lparr>tx_queue := (tx_queue d)(q := ks)\<rparr>)"
        using Some open_chnlD(1)[OF b i] p1(1) q k by (subst queued_loop.simps) simp
      moreover have "taken env d (Some k) (p1\<lparr>pt_locked_txq := None\<rparr>) (d\<lparr>tx_queue := (tx_queue d)(q := ks)\<rparr>)"
        using nc p1(3) Some i k by (auto simp: taken_def)
      ultimately show ?thesis by blast
    next
      case q: None
      let ?p = "p1\<lparr>pt_locked_bte := None\<rparr>"
      have ok: "push_ok env d ?p" "pt_locked_bte ?p = None" using nc q by (simp_all add: push_ok_def)
      show ?thesis
      proof (cases "pt_blocked_txq p1 \<noteq> None \<and> 2 \<le> n")
        case True
        then obtain m where m: "n = Suc (Suc m)" by (metis One_nat_def add_2_eq_Suc le_Suc_ex)
        from get_chnl_at[OF b ok] obtain p2 where p2: "kgni_push_tx_get_chnl env d ?p = Some p2" "push_ok env d p2" by blast
        from less.IH[of "Suc m" p2] m p2(2) obtain elm p' d' where "queued_loop env (Suc m) d p2 = Some (elm, p', d')" "taken env d elm p' d'" by auto
        then show ?thesis using Some open_chnlD(1)[OF b i] p1(1) q True m p2(1)
          by (subst queued_loop.simps) (auto simp: Let_def)
      next
        case False
        then have "queued_loop env n d p = Some (None, ?p, d)"
          using Some open_chnlD(1)[OF b i] p1(1) q by (subst queued_loop.simps) (auto simp: Let_def split: nat.split)
        then show ?thesis by (simp add: taken_def)
      qed
    qed
  qed
qed

section \<open>The tasklet finds what can be sent\<close>

text \<open>Both queues are looked at, and a queue that cannot be served is remembered.\<close>

lemma get_queue_finds:
  assumes "kgni_push_tx_get_queue env d c p = Some p'" and "tx_queue d q = k # ks" and "pt_locked_txq p = None"
  shows "can_send c k \<Longrightarrow> pt_locked_txq p' \<noteq> None" "pt_locked_txq p' = None \<Longrightarrow> pt_blocked_txq p' \<noteq> None"
  using assms by (cases "pt_next_txq p"; cases q;
    auto simp: kgni_push_tx_get_queue_def numeral_2_eq_2 Let_def next_txq_def GASSERT_def split: list.splits if_splits option.splits)+

text \<open>With room in every channel the next one is taken.\<close>

definition some_full :: "tx_env \<Rightarrow> tx_dev \<Rightarrow> bool" where
  "some_full env d \<longleftrightarrow> (\<exists>j < num_bte_chnls env. ring_full env (bc_ring (tx_chnls d ! kgni_bte_next_chnl env j)))"

lemma get_chnl_free:
  assumes b: "tx_base env d" and nf: "\<not> some_full env d" and p: "pt_next_chnl p < num_bte_chnls env" "pt_locked_bte p = None"
  shows "kgni_push_tx_get_chnl env d p =
    Some (p\<lparr>pt_next_chnl := (pt_next_chnl p + 1) mod num_bte_chnls env, pt_locked_bte := Some (kgni_bte_next_chnl env (pt_next_chnl p))\<rparr>)"
proof -
  let ?i = "kgni_bte_next_chnl env (pt_next_chnl p)"
  obtain m where m: "num_bte_chnls env = Suc m" using p(1) by (cases "num_bte_chnls env") auto
  have "?i < length (tx_chnls d)" "bc_direct (tx_chnls d ! ?i)" using b p(1) by (simp_all add: tx_base_def chnls_ok_def)
  moreover have "\<not> ring_full env (bc_ring (tx_chnls d ! ?i))" using nf p(1) by (auto simp: some_full_def)
  ultimately have "get_chnl_loop env d (Suc m) p = Some (p\<lparr>pt_next_chnl := (pt_next_chnl p + 1) mod num_bte_chnls env, pt_locked_bte := Some ?i\<rparr>)"
    by (simp add: Let_def GASSERT_def)
  then show ?thesis using p(2) m by (simp add: kgni_push_tx_get_chnl_def GASSERT_def)
qed

text \<open>The tour over the channels reaches the one that the first request of a queue is bound to.\<close>

lemma queued_loop_finds:
  assumes b: "tx_base env d" and nf: "\<not> some_full env d" and q: "tx_queue d q = k # ks" and j: "can_send (tx_chnls d ! kgni_bte_next_chnl env j) k"
  shows "push_ok env d p \<Longrightarrow> pt_locked_bte p = Some (kgni_bte_next_chnl env t) \<Longrightarrow> pt_next_chnl p = (t + 1) mod num_bte_chnls env \<Longrightarrow>
    t < num_bte_chnls env \<Longrightarrow> x < n \<Longrightarrow> (t + x) mod num_bte_chnls env = j \<Longrightarrow> queued_loop env n d p = Some (elm, p', d') \<Longrightarrow> elm \<noteq> None"
proof (induction x arbitrary: p t n)
  case (0 p t n)
  let ?i = "kgni_bte_next_chnl env t"
  have i: "open_chnl env d ?i" "pt_locked_txq p = None" using 0(1,2) by (simp_all add: push_ok_def)
  from get_queue_at[OF b i] obtain p1 where p1: "kgni_push_tx_get_queue env d (tx_chnls d ! ?i) p = Some p1" "found d (tx_chnls d ! ?i) p1" by blast
  have "j = t" using 0(4,6) by simp
  with get_queue_finds(1)[OF p1(1) q i(2)] j obtain y where y: "pt_locked_txq p1 = Some y" by auto
  then have "tx_queue d y \<noteq> []" using p1(2) by (simp add: found_def)
  then show ?case using 0(2,7) open_chnlD(1)[OF b i(1)] p1(1) y by (subst (asm) queued_loop.simps) (auto split: list.splits)
next
  case (Suc x p t n)
  let ?i = "kgni_bte_next_chnl env t" and ?N = "num_bte_chnls env"
  have i: "open_chnl env d ?i" "pt_locked_txq p = None" using Suc.prems(1,2) by (simp_all add: push_ok_def)
  from get_queue_at[OF b i] obtain p1 where p1: "kgni_push_tx_get_queue env d (tx_chnls d ! ?i) p = Some p1" "pt_next_chnl p1 = pt_next_chnl p"
    "found d (tx_chnls d ! ?i) p1" by blast
  show ?case
  proof (cases "pt_locked_txq p1")
    case (Some y)
    then have "tx_queue d y \<noteq> []" using p1(3) by (simp add: found_def)
    then show ?thesis using Suc.prems(2,7) open_chnlD(1)[OF b i(1)] p1(1) Some by (subst (asm) queued_loop.simps) (auto split: list.splits)
  next
    case None
    obtain m where m: "n = Suc (Suc m)" "x < Suc m" using Suc.prems(5) by (cases n; cases "n - 1") auto
    have N: "(t + 1) mod ?N < ?N" using Suc.prems(4) by (intro mod_less_divisor) simp
    let ?p = "p1\<lparr>pt_locked_bte := None\<rparr>"
    let ?p2 = "?p\<lparr>pt_next_chnl := ((t + 1) mod ?N + 1) mod ?N, pt_locked_bte := Some (kgni_bte_next_chnl env ((t + 1) mod ?N))\<rparr>"
    have nc: "pt_next_chnl ?p = (t + 1) mod ?N" "pt_locked_bte ?p = None" using p1(2) Suc.prems(3) by simp_all
    have g: "kgni_push_tx_get_chnl env d ?p = Some ?p2" using get_chnl_free[OF b nf, of ?p] N unfolding nc by simp
    have "push_ok env d ?p" using None N nc by (simp add: push_ok_def)
    with get_chnl_at[OF b _ nc(2)] g have ok: "push_ok env d ?p2" by auto
    have run: "queued_loop env n d p = queued_loop env (Suc m) d ?p2"
      using Suc.prems(2) open_chnlD(1)[OF b i(1)] p1(1) None get_queue_finds(2)[OF p1(1) q i(2) None] g m(1)
      by (subst queued_loop.simps) (simp add: Let_def)
    have j': "((t + 1) mod ?N + x) mod ?N = j" using Suc.prems(6) by (simp add: mod_add_left_eq)
    have r: "queued_loop env (Suc m) d ?p2 = Some (elm, p', d')" using run Suc.prems(7) by simp
    show ?thesis by (rule Suc.IH[OF ok _ _ N m(2) j' r]) simp_all
  qed
qed

lemma queued_entry_finds:
  assumes b: "tx_base env d" and p: "push_ok env d p" "pt_locked_bte p = None" and q: "tx_queue d q \<noteq> []"
    and r: "kgni_push_tx_get_queued_entry env d p = Some (None, p', d')"
  shows "some_full env d"
proof (rule ccontr)
  let ?N = "num_bte_chnls env" and ?t = "pt_next_chnl p"
  assume nf: "\<not> some_full env d"
  obtain k ks where k: "tx_queue d q = k # ks" using q by (cases "tx_queue d q") auto
  have t: "?t < ?N" using p(1) by (simp add: push_ok_def)
  have "pkt_fine env d k" using b k unfolding tx_base_def by (metis list.set_intros(1))
  then obtain j where j: "j < ?N" "can_send (tx_chnls d ! kgni_bte_next_chnl env j) k"
    using t by (cases "ti_vcid (pk_info k)") (auto simp: pkt_fine_def can_send_def)
  obtain x where x: "x < ?N" "(?t + x) mod ?N = j"
  proof (rule that[of "(j + ?N - ?t) mod ?N"])
    show "(j + ?N - ?t) mod ?N < ?N" using t by (intro mod_less_divisor) simp
    have "(?t + (j + ?N - ?t) mod ?N) mod ?N = (?t + (j + ?N - ?t)) mod ?N" by (simp add: mod_add_right_eq)
    with t j(1) show "(?t + (j + ?N - ?t) mod ?N) mod ?N = j" by simp
  qed
  let ?p = "p\<lparr>pt_next_chnl := (?t + 1) mod ?N, pt_locked_bte := Some (kgni_bte_next_chnl env ?t)\<rparr>"
  have g: "kgni_push_tx_get_chnl env d p = Some ?p" by (rule get_chnl_free[OF b nf t p(2)])
  with get_chnl_at[OF b p] have ok: "push_ok env d ?p" by auto
  have "queued_loop env ?N d ?p = Some (None, p', d')" using r g by (simp add: kgni_push_tx_get_queued_entry_def)
  from queued_loop_finds[OF b nf k j(2) ok _ _ t x this] show False by simp
qed

text \<open>A request in a queue is not forgotten: the tasklet will run, or a transaction is on its way whose interrupt will start it.\<close>

definition awake :: "tx_env \<Rightarrow> tx_dev \<Rightarrow> bool" where
  "awake env d \<longleftrightarrow> tx_tasklet d \<or> (\<exists>j < num_bte_chnls env. in_flight d (kgni_bte_next_chnl env j)) \<or> (\<forall>q. tx_queue d q = [])"

lemma awakeI: "awake env (d\<lparr>tx_tasklet := True\<rparr>)" "tx_queue d GNI_CDM_TYPE_USER = [] \<Longrightarrow> tx_queue d GNI_CDM_TYPE_KERNEL = [] \<Longrightarrow> awake env d"
  unfolding awake_def by (simp, metis gni_cdm_type.exhaust)

lemma full_awake: "tx_base env d \<Longrightarrow> some_full env d \<Longrightarrow> awake env d"
  unfolding some_full_def awake_def by (metis chnls_ok_def full_in_flight tx_base_def)

lemma pop_base: "tx_base env d \<Longrightarrow> tx_queue d q = k # ks \<Longrightarrow> tx_base env (d\<lparr>tx_queue := (tx_queue d)(q := ks)\<rparr>)"
proof -
  assume b: "tx_base env d" and q: "tx_queue d q = k # ks"
  let ?d = "d\<lparr>tx_queue := (tx_queue d)(q := ks)\<rparr>"
  have "pkt_fine env ?d x = pkt_fine env d x" "chnls_ok env ?d = chnls_ok env d" for x by (simp_all add: pkt_fine_def chnls_ok_def gen_fine_def)
  moreover have "x \<in> set (tx_queue d y)" if "x \<in> set (tx_queue ?d y)" for x y using that q by (cases "y = q") simp_all
  moreover have "tx_chnls ?d = tx_chnls d" "gen_fine ?d b = gen_fine d b" for b by (simp_all add: gen_fine_def)
  ultimately show ?thesis using b unfolding tx_base_def by metis
qed

lemma out_pop: "tx_queue d q = k # ks \<Longrightarrow>
    outstanding p g d = outstanding p g (d\<lparr>tx_queue := (tx_queue d)(q := ks)\<rparr>) + (if mine p g (pk_info k) then 1 else 0)"
  by (cases q) (simp_all add: outstanding_def in_queue_def)

text \<open>A request that is launched moves from its queue to a ring; one that is not belongs to no protection tag any more.\<close>

lemma push_one_at:
  assumes inv: "tx_inv env d" and i: "open_chnl env d i" and q: "tx_queue d q = k # ks"
  shows "\<exists>d'. push_one env i k (d\<lparr>tx_queue := (tx_queue d)(q := ks)\<rparr>) = Some d' \<and> tx_inv env d' \<and> tx_queue d' = (tx_queue d)(q := ks)"
proof -
  let ?b = "pk_info k" and ?d = "d\<lparr>tx_queue := (tx_queue d)(q := ks)\<rparr>"
  have base: "tx_base env d" "tx_base env ?d" using inv pop_base[OF _ q] by (simp_all add: tx_inv_def)
  have "pkt_fine env d k" using base(1) q unfolding tx_base_def by (metis list.set_intros(1))
  then have ty: "ti_type ?b \<noteq> KGNI_TX_UNKNOWN" "gen_fine ?d ?b" by (simp_all add: pkt_fine_def gen_fine_def)
  have gok: "gens_ok ?d" using inv by (simp add: tx_inv_def gens_ok_def)
  have cnt: "tr_rdma_count s = int (outstanding x (tr_generation s) ?d) + (if mine x (tr_generation s) ?b then 1 else 0)" if "tx_resources d x = Some s" for x s
  proof -
    have "tr_rdma_count s = int (outstanding x (tr_generation s) d)" using inv that by (simp add: tx_inv_def counts_def)
    with out_pop[OF q, of x "tr_generation s"] show ?thesis by simp
  qed
  show ?thesis
  proof (cases "ti_type ?b = KGNI_RDMA \<and> map_option tr_generation (tx_resources d (ti_ptag ?b)) \<noteq> Some (ti_rsrc_gen ?b)")
    case True
    then have "push_one env i k ?d = Some ?d" by (auto simp: push_one_def split: option.split)
    moreover have "tr_rdma_count s = int (outstanding x (tr_generation s) ?d) + 0" if "tx_resources d x = Some s" for x s
    proof -
      have "\<not> mine x (tr_generation s) ?b" using True that by (auto simp: mine_def)
      with cnt[OF that] show ?thesis by simp
    qed
    then have "tx_inv env ?d" using base(2) gok by (simp add: tx_inv_def counts_def)
    ultimately show ?thesis by simp
  next
    case False
    then have run: "push_one env i k ?d = put_entry env i ?b (pk_desc k) ?d" by (auto simp: push_one_def split: option.split)
    have "\<exists>d' f. put_entry env i ?b (pk_desc k) ?d = Some d' \<and> d' = upd_bte i f ?d \<and> tx_base env d' \<and>
        (\<forall>p g. outstanding p g d' = outstanding p g ?d + (if mine p g ?b then 1 else 0)) \<and> (\<forall>j < length (tx_chnls ?d). in_flight ?d j \<or> j = i \<longrightarrow> in_flight d' j)"
      by (rule put_entry_at[OF base(2) _ _ ty]) (use open_chnlD[OF base(1) i] in simp_all)
    then obtain d' f where d': "put_entry env i ?b (pk_desc k) ?d = Some d'" "d' = upd_bte i f ?d" "tx_base env d'"
      "\<forall>p g. outstanding p g d' = outstanding p g ?d + (if mine p g ?b then 1 else 0)" by blast
    have rs: "tx_resources d' = tx_resources d" "tx_queue d' = tx_queue ?d" using d'(2) by simp_all
    have "tr_rdma_count s = int (outstanding x (tr_generation s) d') + 0" if "tx_resources d' x = Some s" for x s
      using cnt[of x s] that d'(4) unfolding rs by simp
    then have "tx_inv env d'" using d'(3) gok unfolding tx_inv_def counts_def by (metis d'(2) upd_bte_sel(9))
    with run d'(1) rs(2) show ?thesis by simp
  qed
qed

definition backlog :: "tx_dev \<Rightarrow> nat" where
  "backlog d = length (tx_queue d GNI_CDM_TYPE_KERNEL) + length (tx_queue d GNI_CDM_TYPE_USER)"

lemma backlog_pop: "tx_queue d q = k # ks \<Longrightarrow> tx_queue d' = (tx_queue d)(q := ks) \<Longrightarrow> backlog d = Suc (backlog d')"
  by (cases q) (simp_all add: backlog_def)

lemma push_loop_at:
  assumes "tx_inv env d" and "push_ok env d p" and "pt_locked_bte p = None"
  shows "\<exists>d'. push_loop env late n p d = Some d' \<and> tx_inv env d' \<and> awake env d' \<and> ((\<forall>n. \<not> late n) \<longrightarrow> some_full env d' \<or> (\<forall>q. tx_queue d' q = []))"
  using assms
proof (induction "backlog d" arbitrary: d p n rule: less_induct)
  case less
  have b: "tx_base env d" using less.prems(1) by (simp add: tx_inv_def)
  from get_chnl_at[OF b less.prems(2,3)] obtain p1 where p1: "kgni_push_tx_get_chnl env d p = Some p1" "push_ok env d p1" by blast
  from queued_loop_at[OF b p1(2), of "num_bte_chnls env"] obtain elm p' d' where
    r: "queued_loop env (num_bte_chnls env) d p1 = Some (elm, p', d')" "taken env d elm p' d'" by blast
  have run: "kgni_push_tx_get_queued_entry env d p = Some (elm, p', d')" using p1(1) r(1) by (simp add: kgni_push_tx_get_queued_entry_def)
  show ?case
  proof (cases elm)
    case None
    with r(2) have "d' = d" by (simp add: taken_def)
    moreover have f: "some_full env d \<or> (\<forall>q. tx_queue d q = [])" using queued_entry_finds[OF b less.prems(2,3), of _ p' d'] run None by blast
    moreover have "awake env d" using f full_awake[OF b] unfolding awake_def by blast
    ultimately show ?thesis using None run less.prems(1) by (subst push_loop.simps) simp
  next
    case (Some k)
    with r(2) obtain i q ks where t: "pt_next_chnl p' < num_bte_chnls env" "pt_locked_txq p' = None" "pt_locked_bte p' = Some i" "open_chnl env d i"
      "tx_queue d q = k # ks" "d' = d\<lparr>tx_queue := (tx_queue d)(q := ks)\<rparr>" by (auto simp: taken_def)
    from push_one_at[OF less.prems(1) t(4,5)] obtain d1 where d1: "push_one env i k d' = Some d1" "tx_inv env d1" "tx_queue d1 = (tx_queue d)(q := ks)" using t(6) by auto
    show ?thesis
    proof (cases "late n")
      case True
      with Some run t(3) d1 show ?thesis by (subst push_loop.simps) (auto simp: awake_def)
    next
      case False
      have "push_ok env d1 (p'\<lparr>pt_locked_bte := None\<rparr>)" using t by (simp add: push_ok_def)
      with less.hyps[of d1 "p'\<lparr>pt_locked_bte := None\<rparr>" "Suc n"] d1(2) backlog_pop[OF t(5) d1(3)]
      obtain d2 where "push_loop env late (Suc n) (p'\<lparr>pt_locked_bte := None\<rparr>) d1 = Some d2" "tx_inv env d2" "awake env d2"
        "(\<forall>n. \<not> late n) \<longrightarrow> some_full env d2 \<or> (\<forall>q. tx_queue d2 q = [])" by auto
      with Some run t(3) d1(1) False show ?thesis by (subst push_loop.simps) simp
    qed
  qed
qed

lemma kgni_push_tx_queue_at: "tx_inv env d \<Longrightarrow> \<exists>d'. kgni_push_tx_queue env late d = Some d' \<and> tx_inv env d' \<and> awake env d' \<and>
    ((\<forall>n. \<not> late n) \<longrightarrow> some_full env d' \<or> (\<forall>q. tx_queue d' q = []))"
proof -
  assume inv: "tx_inv env d"
  let ?d = "d\<lparr>tx_tasklet := False\<rparr>"
  have "0 < num_bte_chnls env" using inv by (simp add: tx_inv_def tx_base_def chnls_ok_def)
  then have "push_ok env ?d (kgni_push_tx_init env ?d)" "pt_locked_bte (kgni_push_tx_init env ?d) = None" by (simp_all add: push_ok_def kgni_push_tx_init_def)
  with push_loop_at[of env ?d] inv show ?thesis by (simp add: kgni_push_tx_queue_def Let_def)
qed

end
