(* ===== verification/Tx_Irq.thy ===== *)
theory Tx_Irq
  imports Tx_Push
begin

text \<open>
  The interrupt handler: one entry, the loop over the completed entries, and the handler.
\<close>

section \<open>The interrupt handler\<close>

text \<open>The end of one transaction: it is taken from the count of the job that has posted it, if that job still has the protection tag.\<close>

lemma countsI:
  "(\<And>x s. rs x = Some s \<Longrightarrow> tr_rdma_count s = int (outstanding x (tr_generation s) d) + f x (tr_generation s)) \<Longrightarrow> counts f (d\<lparr>tx_resources := rs, tx_errors := es\<rparr>)"
  unfolding counts_def by simp

lemma tx_done_at:
  assumes inv: "counts (\<lambda>p g. if mine p g b then 1 else 0) d" and ty: "ti_type b \<noteq> KGNI_TX_UNKNOWN"
  shows "\<exists>rs es. (\<forall>p. map_option tr_generation (rs p) = map_option tr_generation (tx_resources d p)) \<and> (\<forall>f. tx_done b e (upd_bte i f d) = Some ((upd_bte i f d)\<lparr>tx_resources := rs, tx_errors := es\<rparr>)) \<and> counts (\<lambda>_ _. 0) (d\<lparr>tx_resources := rs, tx_errors := es\<rparr>)"
proof (cases "ti_type b = KGNI_RDMA \<and> map_option tr_generation (tx_resources d (ti_ptag b)) = Some (ti_rsrc_gen b)")
  case True
  then obtain r where r: "tx_resources d (ti_ptag b) = Some r" "tr_generation r = ti_rsrc_gen b" by auto
  let ?r = "r\<lparr>tr_rdma_count := tr_rdma_count r - 1, tr_direct_count := tr_direct_count r + 1\<rparr>"
  let ?rs = "(tx_resources d)(ti_ptag b \<mapsto> ?r)"
  let ?es = "tx_errors (kgni_bte_tx_status_check e (ti_ptag b) d)"
  have m: "mine (ti_ptag b) (ti_rsrc_gen b) b" using True by (simp add: mine_def)
  have cr: "tr_rdma_count r = int (outstanding (ti_ptag b) (ti_rsrc_gen b) d) + 1" using inv r m by (auto simp: counts_def)
  have "tx_done b e (upd_bte i f d) = Some ((upd_bte i f d)\<lparr>tx_resources := ?rs, tx_errors := ?es\<rparr>)" for f
    using True r cr by (auto simp: tx_done_def GASSERT_def kgni_bte_tx_status_check_def upd_bte_def split: option.split)
  moreover have "tr_rdma_count s = int (outstanding x (tr_generation s) d) + 0" if "?rs x = Some s" for x s
  proof (cases "x = ti_ptag b")
    case True
    with that have "s = ?r" by simp
    with True cr r(2) show ?thesis by simp
  next
    case False
    then have nm: "\<not> mine x g b" for g by (auto simp: mine_def)
    have "tx_resources d x = Some s" using False that by simp
    with inv have "tr_rdma_count s = int (outstanding x (tr_generation s) d) + (if mine x (tr_generation s) b then 1 else 0)" unfolding counts_def by blast
    with nm show ?thesis by simp
  qed
  then have "counts (\<lambda>_ _. 0) (d\<lparr>tx_resources := ?rs, tx_errors := ?es\<rparr>)" by (rule countsI)
  moreover have "\<forall>p. map_option tr_generation (?rs p) = map_option tr_generation (tx_resources d p)" using r by simp
  ultimately show ?thesis by blast
next
  case False
  have nm: "\<not> mine x (tr_generation s) b" if "tx_resources d x = Some s" for x s using False that by (auto simp: mine_def)
  obtain es where "\<forall>f. tx_done b e (upd_bte i f d) = Some ((upd_bte i f d)\<lparr>tx_resources := tx_resources d, tx_errors := es\<rparr>)"
  proof (rule that[of "if ti_type b = KGNI_RDMA then tx_errors (kgni_bte_tx_status_check e (ti_ptag b) d) else tx_errors d"], intro allI)
    fix f show "tx_done b e (upd_bte i f d) = Some ((upd_bte i f d)\<lparr>tx_resources := tx_resources d,
        tx_errors := (if ti_type b = KGNI_RDMA then tx_errors (kgni_bte_tx_status_check e (ti_ptag b) d) else tx_errors d)\<rparr>)"
      using False ty by (cases "ti_type b") (auto simp: tx_done_def kgni_bte_tx_status_check_def upd_bte_def split: option.split)
  qed
  moreover have "tr_rdma_count s = int (outstanding x (tr_generation s) d) + 0" if "tx_resources d x = Some s" for x s
  proof -
    from inv that have "tr_rdma_count s = int (outstanding x (tr_generation s) d) + (if mine x (tr_generation s) b then 1 else 0)" unfolding counts_def by blast
    with nm[OF that] show ?thesis by simp
  qed
  then have "counts (\<lambda>_ _. 0) (d\<lparr>tx_resources := tx_resources d, tx_errors := es\<rparr>)" for es by (rule countsI)
  ultimately show ?thesis by blast
qed

text \<open>
  During the loop the index of the ring is behind; the invariant holds for the state in which it has been moved to the entry that the
  handler looks at next.
\<close>

definition ahead :: "nat \<Rightarrow> nat \<Rightarrow> ring_status \<Rightarrow> tx_dev \<Rightarrow> tx_dev" where
  "ahead i e st d = upd_bte i (\<lambda>r. r\<lparr>tx_next_to_clean := e, tx_status := st\<rparr>) d"

lemma upd_bte_upd: "i < length (tx_chnls d) \<Longrightarrow> upd_bte i f (upd_bte i g d) = upd_bte i (\<lambda>r. f (g r)) d"
  by (simp add: upd_bte_def)

lemma upd_bte_res: "upd_bte i f (d\<lparr>tx_resources := rs, tx_errors := es\<rparr>) = (upd_bte i f d)\<lparr>tx_resources := rs, tx_errors := es\<rparr>"
  by (simp add: upd_bte_def)

text \<open>One turn of the loop: the entry leaves the ring, and with it the transaction is taken from the count of its protection tag.\<close>

lemma irq_turn:
  assumes inv: "tx_inv env (ahead i e st d)" and i: "i < length (tx_chnls d)" and c: "tx_complete (bc_ring (tx_chnls d ! i)) ! e"
  defines "r \<equiv> bc_ring (tx_chnls d ! i)"
  defines "clear \<equiv> upd_bte i (\<lambda>r. r\<lparr>tx_complete := (tx_complete r)[e := False]\<rparr>) d"
  shows "\<exists>rs es. tx_done (tx_buffer_info r ! e) (tx_error r ! e) clear = Some (clear\<lparr>tx_resources := rs, tx_errors := es\<rparr>) \<and>
    tx_inv env (ahead i (next_tx r e) KGNI_RING_EMPTY (clear\<lparr>tx_resources := rs, tx_errors := es\<rparr>)) \<and>
    flight (r\<lparr>tx_next_to_clean := e, tx_status := st\<rparr>) = Suc (flight (retired (r\<lparr>tx_next_to_clean := e, tx_status := st\<rparr>)))"
proof -
  let ?g = "r\<lparr>tx_next_to_clean := e, tx_status := st\<rparr>" and ?b = "tx_buffer_info r ! e" and ?A = "ahead i e st d"
  let ?D = "upd_bte i (\<lambda>_. retired ?g) d"
  have g: "bc_ring (tx_chnls ?A ! i) = ?g" using i by (simp add: ahead_def upd_bte_nth r_def)
  have iA: "i < length (tx_chnls ?A)" using i by (simp add: ahead_def)
  have base: "tx_base env ?A" using inv by (simp add: tx_inv_def)
  have ok: "ring_ok ?g" using tx_base_ring(1)[OF base iA] g by simp
  have cg: "tx_complete ?g ! tx_next_to_clean ?g" using c by (simp add: r_def)
  note ret = ring_retire[OF ok cg]
  have D: "?D = upd_bte i (\<lambda>_. retired ?g) ?A" using i by (simp add: ahead_def upd_bte_upd)
  have baseD: "tx_base env ?D" unfolding D by (rule tx_base_upd[OF base iA ret(1)]) (use tx_base_ring(2)[OF base iA] g ret(3) in auto)
  have "ti_type ?b \<noteq> KGNI_TX_UNKNOWN" using ok ret(3) by (simp add: ring_ok_def)
  moreover have out: "outstanding p x ?A = outstanding p x ?D + (if mine p x ?b then 1 else 0)" for p x
    using outstanding_upd[OF iA, of p x "\<lambda>_. retired ?g"] unfolding g D[symmetric] in_ring_def ret(3) by (simp split: if_splits)
  have "counts (\<lambda>p x. if mine p x ?b then 1 else 0) ?D"
  proof (unfold counts_def, intro allI impI)
    fix p s assume "tx_resources ?D p = Some s"
    then have "tx_resources ?A p = Some s" by (simp add: ahead_def)
    with inv have "tr_rdma_count s = int (outstanding p (tr_generation s) ?A) + 0" unfolding tx_inv_def counts_def by blast
    then show "tr_rdma_count s = int (outstanding p (tr_generation s) ?D) + (if mine p (tr_generation s) ?b then 1 else 0)" unfolding out by simp
  qed
  ultimately obtain rs es where gen: "\<forall>p. map_option tr_generation (rs p) = map_option tr_generation (tx_resources ?D p)"
    and don: "\<forall>f. tx_done ?b (tx_error r ! e) (upd_bte i f ?D) = Some ((upd_bte i f ?D)\<lparr>tx_resources := rs, tx_errors := es\<rparr>)"
    "counts (\<lambda>_ _. 0) (?D\<lparr>tx_resources := rs, tx_errors := es\<rparr>)" using tx_done_at[of ?b ?D] by blast
  have cl: "upd_bte i (\<lambda>_. r\<lparr>tx_complete := (tx_complete r)[e := False]\<rparr>) ?D = clear" using i by (simp add: upd_bte_upd clear_def r_def) (simp add: upd_bte_def)
  have "retired ?g = r\<lparr>tx_complete := (tx_complete r)[e := False], tx_next_to_clean := next_tx r e, tx_status := KGNI_RING_EMPTY\<rparr>"
    by (simp add: retired_def next_tx_def)
  then have "ahead i (next_tx r e) KGNI_RING_EMPTY (clear\<lparr>tx_resources := rs, tx_errors := es\<rparr>) = ?D\<lparr>tx_resources := rs, tx_errors := es\<rparr>"
    using i by (simp add: ahead_def clear_def upd_bte_res upd_bte_upd) (simp add: upd_bte_def r_def)
  moreover have gok: "gens_ok (?D\<lparr>tx_resources := rs, tx_errors := es\<rparr>)"
    unfolding gens_ok_def
  proof (intro allI impI)
    fix p s assume s: "tx_resources (?D\<lparr>tx_resources := rs, tx_errors := es\<rparr>) p = Some s"
    with gen[rule_format, of p] obtain s0 where "tx_resources d p = Some s0" "tr_generation s0 = tr_generation s" by (cases "tx_resources d p") auto
    moreover have "gens_ok d" using inv by (simp add: tx_inv_def ahead_def)
    ultimately have "tr_generation s < tx_job_generation d" unfolding gens_ok_def by metis
    then show "tr_generation s < tx_job_generation (?D\<lparr>tx_resources := rs, tx_errors := es\<rparr>)" by simp
  qed
  moreover have "tx_inv env (?D\<lparr>tx_resources := rs, tx_errors := es\<rparr>)" using baseD don(2) gok by (simp add: tx_inv_def)
  ultimately show ?thesis using don(1)[rule_format, of "\<lambda>_. r\<lparr>tx_complete := (tx_complete r)[e := False]\<rparr>"] ret(2) unfolding cl
    by (intro exI[of _ rs] exI[of _ es] conjI) simp_all
qed


text \<open>The loop ends, and what it has counted down belongs to the entries it has passed.\<close>

lemma irq_tx_loop_at:
  assumes "tx_inv env (ahead i e st d)" and "i < length (tx_chnls d)"
  shows "\<exists>e' h' d' st'. irq_tx_loop i e h d = Some (e', h', d') \<and> tx_inv env (ahead i e' st' d') \<and> i < length (tx_chnls d') \<and>
    tx_status (bc_ring (tx_chnls d' ! i)) = tx_status (bc_ring (tx_chnls d ! i)) \<and> (h' = h \<and> d' = d \<and> st' = st \<or> h' \<and> st' = KGNI_RING_EMPTY)"
  using assms
proof (induction "flight ((bc_ring (tx_chnls d ! i))\<lparr>tx_next_to_clean := e, tx_status := st\<rparr>)" arbitrary: e st d h)
  case 0
  let ?r = "bc_ring (tx_chnls d ! i)"
  have n: "\<not> tx_complete ?r ! e" using irq_turn[OF 0(2,3)] 0(1) by auto
  have "ring_ok (bc_ring (tx_chnls (ahead i e st d) ! i))" by (rule tx_base_ring(1)[of env]) (use 0(2,3) in \<open>simp_all add: tx_inv_def ahead_def\<close>)
  then have "e < length (tx_complete ?r)" using 0(3) by (simp add: ring_ok_def ahead_def upd_bte_nth)
  then have "irq_tx_loop i e h d = Some (e, h, d)" using n 0(3) by (subst irq_tx_loop.simps) simp
  with 0(2,3) show ?case by blast
next
  case (Suc k)
  let ?r = "bc_ring (tx_chnls d ! i)"
  have "ring_ok (bc_ring (tx_chnls (ahead i e st d) ! i))" by (rule tx_base_ring(1)[of env]) (use Suc.prems in \<open>simp_all add: tx_inv_def ahead_def\<close>)
  then have l: "e < length (tx_complete ?r)" "e < length (tx_buffer_info ?r)" "e < length (tx_error ?r)" using Suc.prems(2) by (simp_all add: ring_ok_def ahead_def upd_bte_nth)
  show ?case
  proof (cases "tx_complete ?r ! e")
    case False
    then have "irq_tx_loop i e h d = Some (e, h, d)" using l Suc.prems(2) by (subst irq_tx_loop.simps) simp
    with Suc.prems show ?thesis by blast
  next
    case True
    let ?c = "upd_bte i (\<lambda>r. r\<lparr>tx_complete := (tx_complete r)[e := False]\<rparr>) d"
    from irq_turn[OF Suc.prems True] obtain rs es where
      t: "tx_done (tx_buffer_info ?r ! e) (tx_error ?r ! e) ?c = Some (?c\<lparr>tx_resources := rs, tx_errors := es\<rparr>)"
        "tx_inv env (ahead i (next_tx ?r e) KGNI_RING_EMPTY (?c\<lparr>tx_resources := rs, tx_errors := es\<rparr>))"
        "flight (?r\<lparr>tx_next_to_clean := e, tx_status := st\<rparr>) = Suc (flight (retired (?r\<lparr>tx_next_to_clean := e, tx_status := st\<rparr>)))" by blast
    let ?d = "?c\<lparr>tx_resources := rs, tx_errors := es\<rparr>"
    have i: "i < length (tx_chnls ?d)" using Suc.prems(2) by simp
    have rd: "bc_ring (tx_chnls ?d ! i) = ?r\<lparr>tx_complete := (tx_complete ?r)[e := False]\<rparr>" using Suc.prems(2) by (simp add: upd_bte_nth)
    have "k = flight ((bc_ring (tx_chnls ?d ! i))\<lparr>tx_next_to_clean := next_tx ?r e, tx_status := KGNI_RING_EMPTY\<rparr>)"
      using t(3) Suc.hyps(2) unfolding rd by (simp add: retired_def next_tx_def)
    from Suc.hyps(1)[OF this t(2) i, of True] obtain e' h' d' st' where
      r: "irq_tx_loop i (next_tx ?r e) True ?d = Some (e', h', d')" "tx_inv env (ahead i e' st' d')" "i < length (tx_chnls d')"
        "tx_status (bc_ring (tx_chnls d' ! i)) = tx_status (bc_ring (tx_chnls ?d ! i))" "h' = True \<and> d' = ?d \<and> st' = KGNI_RING_EMPTY \<or> h' \<and> st' = KGNI_RING_EMPTY" by blast
    have "irq_tx_loop i e h d = irq_tx_loop i (next_tx ?r e) True ?d" using l Suc.prems(2) True t(1) by (subst irq_tx_loop.simps) simp
    with r rd show ?thesis by (intro exI[of _ e'] exI[of _ h'] exI[of _ d'] exI[of _ st']) auto
  qed
qed


lemma ahead_queue: "tx_queue (ahead i e st d) = tx_queue d"
  by (simp add: ahead_def)

lemma kgni_irq_tx_hndlr_at:
  assumes inv: "tx_inv env d" and i: "i < length (tx_chnls d)" and dir: "bc_direct (tx_chnls d ! i)"
  shows "\<exists>d'. kgni_irq_tx_hndlr i d = Some d' \<and> tx_inv env d' \<and> (awake env d \<longrightarrow> awake env d')"
proof -
  let ?r = "bc_ring (tx_chnls d ! i)"
  have a: "ahead i (tx_next_to_clean ?r) (tx_status ?r) d = d" by (simp add: ahead_def upd_bte_def)
  from irq_tx_loop_at[of env i "tx_next_to_clean ?r" "tx_status ?r" d False] inv i obtain e' h' d' st' where
    r: "irq_tx_loop i (tx_next_to_clean ?r) False d = Some (e', h', d')" "tx_inv env (ahead i e' st' d')" "i < length (tx_chnls d')"
      "tx_status (bc_ring (tx_chnls d' ! i)) = tx_status ?r" "h' = False \<and> d' = d \<or> h' \<and> st' = KGNI_RING_EMPTY" unfolding a by blast
  show ?thesis
  proof (cases h')
    case False
    with r inv i dir show ?thesis by (simp add: kgni_irq_tx_hndlr_def GASSERT_def)
  next
    case True
    have "tx_status ?r \<noteq> KGNI_RING_LOCKED" using tx_base_ring(1)[of env d i] inv i by (simp add: tx_inv_def ring_ok_def)
    then have "upd_bte i (\<lambda>r. r\<lparr>tx_next_to_clean := e', tx_status := (if tx_status r = KGNI_RING_LOCKED then KGNI_RING_LOCKED else KGNI_RING_EMPTY)\<rparr>) d' = ahead i e' st' d'"
      using r(4,5) True by (simp add: ahead_def upd_bte_def)
    with True r i dir show ?thesis by (simp add: kgni_irq_tx_hndlr_def GASSERT_def Let_def awakeI ahead_queue)
  qed
qed

end
