(* ===== verification/Tx_Runs.thy ===== *)
theory Tx_Runs
  imports Tx_Irq
begin

text \<open>
  The NIC, jobs that come and go, packets of other code, and the runs of all operations of the transmit path.
\<close>

section \<open>Runs of the transmit path\<close>

text \<open>The NIC finishes a transaction of a ring, not always the oldest one.\<close>

definition nic_complete :: "nat \<Rightarrow> nat \<Rightarrow> nat \<Rightarrow> tx_dev \<Rightarrow> tx_dev" where
  "nic_complete i j e d = upd_bte i (\<lambda>r. r\<lparr>tx_complete := (tx_complete r)[tpos r j := True], tx_error := (tx_error r)[tpos r j := e]\<rparr>) d"

text \<open>The first NIC handle of a job, and the last one given up.\<close>

definition tx_job_start :: "u8 \<Rightarrow> u64 \<Rightarrow> tx_dev \<Rightarrow> tx_dev" where
  "tx_job_start p lim d = d\<lparr>tx_resources := (tx_resources d)(p \<mapsto> \<lparr>tr_generation = tx_job_generation d, tr_rdma_count = 0, tr_rdma_limit = lim, tr_direct_count = 0\<rparr>),
     tx_job_generation := tx_job_generation d + 1\<rparr>"

definition tx_job_end :: "u8 \<Rightarrow> tx_dev \<Rightarrow> tx_dev" where
  "tx_job_end p d = d\<lparr>tx_resources := (tx_resources d)(p := None)\<rparr>"

definition tx_set_limit :: "u8 \<Rightarrow> u64 \<Rightarrow> tx_dev \<Rightarrow> tx_dev" where
  "tx_set_limit p lim d = d\<lparr>tx_resources := (tx_resources d)(p := map_option (tr_rdma_limit_update (\<lambda>_. lim)) (tx_resources d p))\<rparr>"

lemma infos_complete: "flight_infos (r\<lparr>tx_complete := c, tx_error := e\<rparr>) = flight_infos r" "flight (r\<lparr>tx_complete := c, tx_error := e\<rparr>) = flight r"
  "tpos (r\<lparr>tx_complete := c, tx_error := e\<rparr>) j = tpos r j"
  by (simp_all add: flight_infos_def flight_def tpos_def)

lemma nic_complete_inv:
  assumes inv: "tx_inv env d" and i: "i < length (tx_chnls d)" and j: "j < flight (bc_ring (tx_chnls d ! i))"
  shows "tx_inv env (nic_complete i j e d)"
proof -
  let ?r = "bc_ring (tx_chnls d ! i)"
  let ?f = "\<lambda>r. r\<lparr>tx_complete := (tx_complete r)[tpos r j := True], tx_error := (tx_error r)[tpos r j := e]\<rparr>"
  have base: "tx_base env d" using inv by (simp add: tx_inv_def)
  have ok: "ring_ok ?r" by (rule tx_base_ring(1)[OF base i])
  then have l: "tx_next_to_use ?r < tx_count ?r" "tx_next_to_clean ?r < tx_count ?r" by (simp_all add: ring_ok_def)
  have jn: "j < tx_count ?r" using j flight_cases(1)[OF l] by simp
  have "tx_complete (?f ?r) ! tpos ?r k \<longrightarrow> k < flight ?r" if "k < tx_count ?r" for k
    using ok that j tpos_inj[of ?r k j] jn l(2) by (cases "tpos ?r k = tpos ?r j") (auto simp: ring_ok_def)
  then have "ring_ok (?f ?r)" using ok unfolding ring_ok_def infos_complete by simp
  moreover have "\<forall>b \<in> set (flight_infos (?f ?r)). gen_fine d b" using tx_base_ring(2)[OF base i] unfolding infos_complete by blast
  ultimately have b: "tx_base env (nic_complete i j e d)" unfolding nic_complete_def by (rule tx_base_upd[OF base i])
  have "outstanding p g (nic_complete i j e d) = outstanding p g d" for p g
    using outstanding_upd[OF i, of p g ?f] unfolding nic_complete_def in_ring_def infos_complete by simp
  with b inv show ?thesis unfolding tx_inv_def counts_def by (simp add: nic_complete_def)
qed

text \<open>No transaction on its way carries a generation that is not given out yet.\<close>

lemma outstanding_new:
  assumes "tx_base env d" and "\<not> g < tx_job_generation d"
  shows "outstanding p g d = 0"
proof -
  have n: "\<not> mine p g b" if "gen_fine d b" for b using that assms(2) by (auto simp: gen_fine_def mine_def)
  have "in_queue p g (tx_queue d q) = 0" for q using assms(1) n unfolding in_queue_def tx_base_def pkt_fine_def by (auto simp: filter_empty_conv)
  moreover have "in_ring p g (bc_ring c) = 0" if "c \<in> set (tx_chnls d)" for c using assms(1) n that unfolding in_ring_def tx_base_def by (auto simp: filter_empty_conv)
  ultimately show ?thesis by (simp add: outstanding_def)
qed

lemma word_less_Suc: "x \<noteq> - 1 \<Longrightarrow> x < x + 1" for x :: "'a::len word"
  using inc_less_eq_self_iff_eq[of x] by (simp add: not_le[symmetric])

lemma tx_job_start_inv:
  assumes inv: "tx_inv env d" and g: "tx_job_generation d \<noteq> - 1"
  shows "tx_inv env (tx_job_start p lim d)"
proof -
  let ?d = "tx_job_start p lim d"
  have less: "tx_job_generation d < tx_job_generation d + 1" by (rule word_less_Suc[OF g])
  have mono: "gen_fine ?d b" if "gen_fine d b" for b using that less by (auto simp: gen_fine_def tx_job_start_def intro: less_trans)
  have base: "tx_base env d" using inv by (simp add: tx_inv_def)
  have "chnls_ok env ?d" "pkt_fine env ?d k" if "pkt_fine env d k" for k using base that mono by (simp_all add: tx_base_def chnls_ok_def pkt_fine_def tx_job_start_def)
  moreover have sel: "tx_chnls ?d = tx_chnls d" "tx_queue ?d = tx_queue d" by (simp_all add: tx_job_start_def)
  moreover have "chnls_ok env ?d" using base by (simp add: tx_base_def chnls_ok_def tx_job_start_def)
  ultimately have b: "tx_base env ?d" using base mono unfolding tx_base_def by metis
  have o: "outstanding x y ?d = outstanding x y d" for x y by (simp add: outstanding_def sel)
  have "tr_rdma_count s = int (outstanding x (tr_generation s) ?d) + 0" if s: "tx_resources ?d x = Some s" for x s
  proof (cases "x = p")
    case True
    with s have "tr_rdma_count s = 0" "tr_generation s = tx_job_generation d" by (auto simp: tx_job_start_def)
    with outstanding_new[OF base, of "tr_generation s" x] show ?thesis unfolding o by simp
  next
    case False
    with s have "tx_resources d x = Some s" by (simp add: tx_job_start_def)
    with inv show ?thesis unfolding o tx_inv_def counts_def by blast
  qed
  then have "counts (\<lambda>_ _. 0) ?d" unfolding counts_def by blast
  moreover have "gens_ok ?d"
    unfolding gens_ok_def
  proof (intro allI impI)
    fix x s assume s: "tx_resources ?d x = Some s"
    have "tr_generation s \<le> tx_job_generation d"
    proof (cases "x = p")
      case True
      with s show ?thesis by (auto simp: tx_job_start_def)
    next
      case False
      with s have "tx_resources d x = Some s" by (simp add: tx_job_start_def)
      with inv show ?thesis unfolding tx_inv_def gens_ok_def by (metis less_imp_le)
    qed
    with less show "tr_generation s < tx_job_generation ?d" by (simp add: tx_job_start_def)
  qed
  ultimately show ?thesis using b by (simp add: tx_inv_def)
qed

lemma tx_job_end_inv: "tx_inv env d \<Longrightarrow> tx_inv env (tx_job_end p d)"
  by (auto simp: tx_inv_def tx_job_end_def counts_def gens_ok_def)

lemma tx_set_limit_inv: "tx_inv env d \<Longrightarrow> tx_inv env (tx_set_limit p lim d)"
  by (cases "tx_resources d p") (auto simp: tx_inv_def tx_set_limit_def counts_def gens_ok_def split: if_splits)

text \<open>
  What other code of the driver sends, packets of the kernel channels and completion queue requests: it is put into the ring of a
  channel with room, or queued behind others or when the channel of the domain is full, as \<open>kgni_rdma_post\<close> does.
\<close>

definition tx_other :: "tx_env \<Rightarrow> tx_pkt \<Rightarrow> tx_dev \<Rightarrow> bool" where
  "tx_other env k d \<longleftrightarrow> ti_type (pk_info k) \<in> {KGNI_CHNL, KGNI_CQ} \<and> pkt_fine env d k"

definition tx_queue_other :: "gni_cdm_type \<Rightarrow> tx_pkt \<Rightarrow> tx_dev \<Rightarrow> tx_dev" where
  "tx_queue_other q k d = d\<lparr>tx_queue := (tx_queue d)(q := tx_queue d q @ [k])\<rparr>"

datatype tx_op = TxPost bool tx_nic u32 gni_post_descriptor u64 u64 u64 | TxPush "nat \<Rightarrow> bool" | TxIrq nat | TxComplete nat nat nat |
  TxJobStart u8 u64 | TxJobEnd u8 | TxLimit u8 u64 | TxQueueOther gni_cdm_type tx_pkt | TxPutOther nat tx_pkt

fun tx_pre :: "tx_env \<Rightarrow> tx_op \<Rightarrow> tx_dev \<Rightarrow> bool" where
  "tx_pre env (TxPost mem nic rpe pd hw_cq src usr) d \<longleftrightarrow> tx_resources d (tn_ptag nic) \<noteq> None"
| "tx_pre env (TxPush late) d \<longleftrightarrow> True"
| "tx_pre env (TxIrq i) d \<longleftrightarrow> i < length (tx_chnls d) \<and> bc_direct (tx_chnls d ! i)"
| "tx_pre env (TxComplete i j e) d \<longleftrightarrow> i < length (tx_chnls d) \<and> j < flight (bc_ring (tx_chnls d ! i))"
| "tx_pre env (TxJobStart p lim) d \<longleftrightarrow> tx_resources d p = None \<and> tx_job_generation d \<noteq> - 1"
| "tx_pre env (TxJobEnd p) d \<longleftrightarrow> True"
| "tx_pre env (TxLimit p lim) d \<longleftrightarrow> True"
| "tx_pre env (TxQueueOther q k) d \<longleftrightarrow> tx_other env k d \<and> (tx_queue d q \<noteq> [] \<or> ring_full env (bc_ring (tx_chnls d ! domain_bte_ctrl env q)))"
| "tx_pre env (TxPutOther i k) d \<longleftrightarrow> tx_other env k d \<and> i < length (tx_chnls d) \<and> \<not> ring_full env (bc_ring (tx_chnls d ! i))"

fun tx_exec :: "tx_env \<Rightarrow> tx_op \<Rightarrow> tx_dev \<Rightarrow> tx_dev run" where
  "tx_exec env (TxPost mem nic rpe pd hw_cq src usr) d = map_option snd (kgni_rdma_post env mem nic rpe pd hw_cq src usr d)"
| "tx_exec env (TxPush late) d = kgni_push_tx_queue env late d"
| "tx_exec env (TxIrq i) d = kgni_irq_tx_hndlr i d"
| "tx_exec env (TxComplete i j e) d = Some (nic_complete i j e d)"
| "tx_exec env (TxJobStart p lim) d = Some (tx_job_start p lim d)"
| "tx_exec env (TxJobEnd p) d = Some (tx_job_end p d)"
| "tx_exec env (TxLimit p lim) d = Some (tx_set_limit p lim d)"
| "tx_exec env (TxQueueOther q k) d = Some (tx_queue_other q k d)"
| "tx_exec env (TxPutOther i k) d = put_entry env i (pk_info k) (pk_desc k) d"

lemma awake_cong: "tx_chnls d' = tx_chnls d \<Longrightarrow> tx_queue d' = tx_queue d \<Longrightarrow> tx_tasklet d' = tx_tasklet d \<Longrightarrow> awake env d \<Longrightarrow> awake env d'"
  by (simp add: awake_def in_flight_def)

lemma queued_awake:
  assumes inv: "tx_inv env d" and a: "awake env d" and q: "tx_queue d q \<noteq> [] \<or> ring_full env (bc_ring (tx_chnls d ! domain_bte_ctrl env q))"
    and d': "tx_chnls d' = tx_chnls d" "tx_tasklet d' = tx_tasklet d"
  shows "awake env d'"
proof -
  have b: "tx_base env d" "chnls_ok env d" using inv by (simp_all add: tx_inv_def tx_base_def)
  then obtain j where j: "j < num_bte_chnls env" "domain_bte_ctrl env q = kgni_bte_next_chnl env j" unfolding chnls_ok_def by blast
  have "in_flight d (kgni_bte_next_chnl env j)" if "ring_full env (bc_ring (tx_chnls d ! domain_bte_ctrl env q))"
    using full_in_flight[OF b(1), of "kgni_bte_next_chnl env j"] that j b(2) by (simp add: chnls_ok_def)
  then show ?thesis using q a j(1) unfolding awake_def in_flight_def d' by blast
qed

lemma post_awake:
  assumes "tx_inv env d" and "rdma_post_spec env nic rpe pd hw_cq src usr d rc d'" and "awake env d"
  shows "awake env d'"
proof (cases "rc = 0")
  case False
  with assms(2) obtain c where "d' = d\<lparr>tx_cur_chnl := c\<rparr>" unfolding rdma_post_spec_def by auto
  with assms(3) show ?thesis by (auto intro: awake_cong[of _ d])
next
  case True
  with assms(2) obtain t where "tx_placed env nic t d d'" by (auto simp: rdma_post_spec_def)
  then consider j where "j < num_bte_chnls env" "in_flight d' (kgni_bte_next_chnl env j)"
    | "tx_queue d (tn_cdm_type nic) \<noteq> [] \<or> ring_full env (bc_ring (tx_chnls d ! domain_bte_ctrl env (tn_cdm_type nic)))" "tx_chnls d' = tx_chnls d" "tx_tasklet d' = tx_tasklet d"
    unfolding tx_placed_def by blast
  then show ?thesis
  proof cases
    case 1
    then show ?thesis by (auto simp: awake_def)
  next
    case 2
    then show ?thesis by (rule queued_awake[OF assms(1,3)])
  qed
qed

lemma tx_other_step:
  assumes inv: "tx_inv env d" and k: "tx_other env k d"
  shows "tx_inv env (tx_queue_other q k d)"
    "i < length (tx_chnls d) \<Longrightarrow> \<not> ring_full env (bc_ring (tx_chnls d ! i)) \<Longrightarrow>
      \<exists>d'. put_entry env i (pk_info k) (pk_desc k) d = Some d' \<and> tx_inv env d' \<and> (awake env d \<longrightarrow> awake env d')"
proof -
  have f: "pkt_fine env d k" "ti_type (pk_info k) \<noteq> KGNI_TX_UNKNOWN" "gen_fine d (pk_info k)" using k by (auto simp: tx_other_def gen_fine_def)
  have nm: "\<not> mine p g (pk_info k)" for p g using k by (auto simp: tx_other_def mine_def)
  have base: "tx_base env d" using inv by (simp add: tx_inv_def)
  have "outstanding p g (tx_queue_other q k d) = outstanding p g d" for p g using nm out_append[of p g d q k] by (simp add: tx_queue_other_def)
  moreover have "tx_base env (tx_queue_other q k d)" using base_append[OF base f(1)] by (simp add: tx_queue_other_def)
  ultimately show "tx_inv env (tx_queue_other q k d)" using inv by (simp add: tx_inv_def counts_def gens_ok_def tx_queue_other_def)
  assume i: "i < length (tx_chnls d)" "\<not> ring_full env (bc_ring (tx_chnls d ! i))"
  from put_entry_at[OF base i f(2,3), of "pk_desc k"] nm obtain d' f where
    d': "put_entry env i (pk_info k) (pk_desc k) d = Some d'" "d' = upd_bte i f d" "tx_base env d'" "\<forall>p g. outstanding p g d' = outstanding p g d"
      "\<forall>j < length (tx_chnls d). in_flight d j \<or> j = i \<longrightarrow> in_flight d' j" by auto
  have "tx_inv env d'" using inv d'(3,4) unfolding tx_inv_def counts_def by (simp add: d'(2))
  moreover have "awake env d'" if "awake env d"
  proof -
    have "in_flight d' (kgni_bte_next_chnl env j)" if "j < num_bte_chnls env" "in_flight d (kgni_bte_next_chnl env j)" for j
      using that d'(5) base by (simp add: tx_base_def chnls_ok_def)
    with that d'(2) show ?thesis unfolding awake_def by auto
  qed
  ultimately show "\<exists>d'. put_entry env i (pk_info k) (pk_desc k) d = Some d' \<and> tx_inv env d' \<and> (awake env d \<longrightarrow> awake env d')" using d'(1) by blast
qed

lemma nic_complete_awake:
  assumes "awake env d"
  shows "awake env (nic_complete i j e d)"
proof -
  have "in_flight (nic_complete i j e d) x = in_flight d x" for x
    by (cases "i < length (tx_chnls d)"; cases "x = i") (simp_all add: in_flight_def nic_complete_def upd_bte_def infos_complete not_less list_update_beyond)
  with assms show ?thesis by (simp add: awake_def) (simp add: nic_complete_def)
qed

lemma tx_step:
  assumes inv: "tx_inv env d" and pre: "tx_pre env op d"
  shows "\<exists>d'. tx_exec env op d = Some d' \<and> tx_inv env d' \<and> (awake env d \<longrightarrow> awake env d')"
proof (cases op)
  case (TxPost mem nic rpe pd hw_cq src usr)
  with pre obtain r where r: "tx_resources d (tn_ptag nic) = Some r" by auto
  from kgni_rdma_post_at[OF inv r, of mem rpe pd hw_cq src usr] TxPost post_awake[OF inv] show ?thesis by auto
next
  case (TxPush late)
  with kgni_push_tx_queue_at[OF inv, of late] show ?thesis by auto
next
  case (TxIrq i)
  with pre kgni_irq_tx_hndlr_at[OF inv] show ?thesis by simp
next
  case (TxComplete i j e)
  with pre inv nic_complete_inv nic_complete_awake show ?thesis by simp
next
  case (TxJobStart p lim)
  with pre inv tx_job_start_inv awake_cong[of "tx_job_start p lim d" d] show ?thesis by (simp add: tx_job_start_def)
next
  case (TxJobEnd p)
  with pre inv tx_job_end_inv awake_cong[of "tx_job_end p d" d] show ?thesis by (simp add: tx_job_end_def)
next
  case (TxLimit p lim)
  with pre inv tx_set_limit_inv awake_cong[of "tx_set_limit p lim d" d] show ?thesis by (simp add: tx_set_limit_def)
next
  case (TxQueueOther q k)
  with pre tx_other_step(1)[OF inv] queued_awake[OF inv, of q "tx_queue_other q k d"] show ?thesis by (simp add: tx_queue_other_def)
next
  case (TxPutOther i k)
  with pre tx_other_step(2)[OF inv] show ?thesis by simp
qed

interpretation tx: safe_machine_with "tx_pre env" "tx_exec env" "tx_inv env" "awake env" for env
proof
  show "ok (tx_exec env op d) (tx_inv env)" if "tx_inv env d" "tx_pre env op d" for d op using tx_step[OF that] by (auto simp: ok_def)
  show "awake env d'" if "tx_inv env d" "awake env d" "tx_pre env op d" "tx_exec env op d = Some d'" for d d' op
    using tx_step[OF that(1,3)] that(2,4) by auto
qed

end
