(* ===== verification/Tx_Props.thy ===== *)
theory Tx_Props
  imports Tx_Runs Memhndl
begin

text \<open>
  The properties of the transmit path over all its runs.
\<close>

unbundle bit_operations_syntax

section \<open>Start of the device\<close>

definition conf_tx_ring :: "nat \<Rightarrow> tx_ring" where
  "conf_tx_ring n = \<lparr>tx_next_to_use = 0, tx_next_to_clean = 0, tx_status = KGNI_RING_EMPTY,
     tx_buffer_info = replicate n \<lparr>ti_type = KGNI_TX_UNKNOWN, ti_ptag = 0, ti_rsrc_gen = 0, ti_vcid = Some 0\<rparr>,
     tx_descs = replicate n GHAL_TXD_INIT, tx_complete = replicate n False, tx_error = replicate n 0, tx_wr_index = 0\<rparr>"

text \<open>The channels, each with its number and whether it is a direct one.\<close>

definition tx_start :: "(nat \<times> bool) list \<Rightarrow> nat \<Rightarrow> tx_dev" where
  "tx_start cs n = \<lparr>tx_chnls = map (\<lambda>(v, direct). \<lparr>bc_vcid = v, bc_direct = direct, bc_ring = conf_tx_ring n\<rparr>) cs, tx_queue = (\<lambda>_. []),
     tx_resources = Map.empty, tx_cur_chnl = 0, tx_job_generation = 0, tx_tasklet = False, tx_errors = []\<rparr>"

definition tx_env_ok :: "tx_env \<Rightarrow> (nat \<times> bool) list \<Rightarrow> bool" where
  "tx_env_ok env cs \<longleftrightarrow> 0 < num_bte_chnls env \<and> (\<forall>j < num_bte_chnls env. kgni_bte_next_chnl env j < length cs \<and> snd (cs ! kgni_bte_next_chnl env j)) \<and>
     (\<forall>q. \<exists>j < num_bte_chnls env. domain_bte_ctrl env q = kgni_bte_next_chnl env j) \<and> next_entry_ok (KGNI_NEXT_RING_ENTRY env)"

lemma conf_tx_ring_ok: "0 < n \<Longrightarrow> ring_ok (conf_tx_ring n) \<and> flight_infos (conf_tx_ring n) = []"
proof -
  assume n: "0 < n"
  have fl: "flight (conf_tx_ring n) = 0" by (simp add: flight_def conf_tx_ring_def)
  then have inf: "flight_infos (conf_tx_ring n) = []" by (simp add: flight_infos_def)
  have "tpos (conf_tx_ring n) j < n" for j using n by (simp add: tpos_def conf_tx_ring_def)
  then have "\<not> tx_complete (conf_tx_ring n) ! tpos (conf_tx_ring n) j" for j by (simp add: conf_tx_ring_def)
  with n inf show ?thesis by (simp add: ring_ok_def) (simp add: conf_tx_ring_def)
qed

lemma tx_start_inv:
  assumes "tx_env_ok env cs" and n: "0 < n"
  shows "tx_inv env (tx_start cs n)" "awake env (tx_start cs n)"
proof -
  let ?d = "tx_start cs n"
  have "chnls_ok env ?d" using assms(1) by (auto simp: chnls_ok_def tx_env_ok_def tx_start_def split: prod.split)
  moreover have "ring_ok (bc_ring c) \<and> (\<forall>b \<in> set (flight_infos (bc_ring c)). gen_fine ?d b)" if "c \<in> set (tx_chnls ?d)" for c
    using that conf_tx_ring_ok[OF n] by (auto simp: tx_start_def)
  ultimately have "tx_base env ?d" by (simp add: tx_base_def) (simp add: tx_start_def)
  then show "tx_inv env ?d" by (simp add: tx_inv_def counts_def gens_ok_def) (simp add: tx_start_def)
  show "awake env ?d" by (simp add: awake_def tx_start_def)
qed

section \<open>The fields of a descriptor\<close>

lemma tx_descriptor_fields:
  assumes "tx_descriptor env nic single pe pd hw_cq src usr = Inr t"
  shows "td_data_len t = ucast (pd_length pd)" "td_src_mem_off t = ucast (pd_local_addr pd - GNI_MEMHNDL_GET_VA (pd_local_mem_hndl pd))"
    "td_dest_mem_off t = ucast (pd_remote_addr pd - GNI_MEMHNDL_GET_VA (pd_remote_mem_hndl pd))" "td_dest_pe t = ucast pe"
    "td_src_ptag t = tn_ptag nic" "td_dest_ptag t = tn_ptag nic"
  using assms by (auto simp: tx_descriptor_def tx_address_def Let_def split: if_splits option.splits)

definition region_bytes :: "gni_mem_handle \<Rightarrow> nat" where
  "region_bytes h = unat (GNI_MEMHNDL_GET_PAGESIZE h) * unat (GNI_MEMHNDL_GET_NPAGES h)"

text \<open>A transfer that ends before the end of the address space, and a region that does and that an offset of 40 bits can address.\<close>

definition addressable :: "u64 \<Rightarrow> u64 \<Rightarrow> gni_mem_handle \<Rightarrow> bool" where
  "addressable a len h \<longleftrightarrow> unat a + unat len < 2 ^ 64 \<and> unat (GNI_MEMHNDL_GET_VA h) + region_bytes h < 2 ^ 64 \<and> region_bytes h \<le> 2 ^ 40"

lemma in_region_offset:
  assumes r: "in_region a len h" and s: "addressable a len h" and "len \<noteq> 0"
  shows "unat (ucast (a - GNI_MEMHNDL_GET_VA h) :: 40 word) + unat len \<le> region_bytes h"
proof -
  let ?va = "GNI_MEMHNDL_GET_VA h" and ?sz = "GNI_MEMHNDL_GET_PAGESIZE h * GNI_MEMHNDL_GET_NPAGES h"
  have sz: "unat ?sz = region_bytes h" using s by (simp add: region_bytes_def addressable_def unat_word_ariths)
  have e: "unat (a + len) = unat a + unat len" "unat (?va + ?sz) = unat ?va + region_bytes h"
    using s sz by (simp_all add: addressable_def unat_word_ariths)
  have le: "?va \<le> a" "unat a + unat len \<le> unat ?va + region_bytes h"
    using r e by (auto simp: in_region_def not_less word_le_nat_alt)
  then have o: "unat (a - ?va) + unat len \<le> region_bytes h" by (simp add: unat_sub word_le_nat_alt)
  have "0 < unat len" using assms(3) by (simp add: unat_gt_0)
  then have "unat (a - ?va) < 2 ^ 40" using o s by (simp add: addressable_def)
  then have "unat (ucast (a - ?va) :: 40 word) = unat (a - ?va)" by (simp add: unsigned_ucast_eq take_bit_nat_eq_self)
  with o show ?thesis by simp
qed

section \<open>A device with one channel\<close>

definition next_ring_entry :: "tx_ring \<Rightarrow> nat \<times> tx_ring" where
  "next_ring_entry r = (let n = next_tx r (tx_next_to_use r) in
     (tx_next_to_use r, r\<lparr>tx_next_to_use := n, tx_status := (if n = tx_next_to_clean r then KGNI_RING_FULL else KGNI_RING_EMPTY)\<rparr>))"

definition tx_env0 :: "bool \<Rightarrow> tx_env" where
  "tx_env0 debug = \<lparr>GNI_DEBUG = debug, multi_bte = False, num_bte_chnls = 1, kgni_bte_next_chnl = (\<lambda>_. 0), KGNI_NEXT_RING_ENTRY = next_ring_entry,
     locked_is_full = True, tx_ntt_to_pe = (\<lambda>_. 3), kgni_translate_mdh = (\<lambda>mdh base. mdh + base), kgni_bte_tx_set_rc = (\<lambda>_ t. Some t),
     domain_bte_ctrl = (\<lambda>_. 0), cq_nic = (\<lambda>_. None)\<rparr>"

lemma tx_env0_ok: "tx_env_ok (tx_env0 debug) [(2, True)]"
  by (auto simp: tx_env_ok_def tx_env0_def next_entry_ok_def next_ring_entry_def Let_def)

definition tx_nic0 :: tx_nic where
  "tx_nic0 = \<lparr>tn_addr = 1, tn_is_nic = True, tn_modes = 0, tn_cdm_type = GNI_CDM_TYPE_USER, tn_ntt_grp_size = 0, tn_ntt_base = 0, tn_ptag = 7,
     tn_vmdh_blk_size = 0, tn_vmdh_blk_base = 0\<rparr>"

text \<open>A handle of one page of 4096 bytes at address 0x1000, and a put of 16 bytes.\<close>

definition hndl0 :: gni_mem_handle where
  "hndl0 = GNI_MEMHNDL_SET_CRC \<lparr>qword1 = 1, qword2 = 0xC0000001\<rparr>"

definition post0 :: gni_post_descriptor where
  "post0 = \<lparr>pd_next_descr = 0, pd_prev_descr = 0, pd_post_id = 0, pd_status = 0, pd_cq_mode_complete = 0, pd_type = 1, pd_cq_mode = 0, pd_dlvr_mode = 0,
     pd_local_addr = 0x1010, pd_local_mem_hndl = hndl0, pd_remote_addr = 0x1020, pd_remote_mem_hndl = hndl0, pd_length = 16, pd_rdma_mode = 0,
     pd_src_cq_hndl = 0, pd_sync_flag_value = 0, pd_sync_flag_addr = 0, pd_amo_cmd = 0, pd_first_operand = 0, pd_second_operand = 0, pd_cqwrite_value = 0\<rparr>"

lemma hndl0: "GNI_MEMHNDL_VERIFY hndl0" "GNI_MEMHNDL_GET_VA hndl0 = 0x1000" "GNI_MEMHNDL_GET_PAGESIZE hndl0 = 0x1000" "GNI_MEMHNDL_GET_NPAGES hndl0 = 1"
  "GNI_MEMHNDL_GET_FLAGS hndl0 = 0" "GNI_MEMHNDL_GET_MDH hndl0 = 0"
proof -
  show "GNI_MEMHNDL_VERIFY hndl0" unfolding hndl0_def by (rule VERIFY_SET_CRC) (simp add: byte_of_def)
qed (unfold hndl0_def GNI_MEMHNDL_GET_PAGESIZE_def GET_SET_CRC, simp_all add: memhndl_defs)

definition tx_dev0 :: tx_dev where
  "tx_dev0 = tx_job_start 7 10 (tx_start [(2, True)] 2)"

lemma tx_dev0_reachable: "reachable (tx_pre (tx_env0 debug)) (tx_exec (tx_env0 debug)) (tx_start [(2, True)] 2) tx_dev0"
proof (rule reachable.step[OF reachable.start])
  show "tx_pre (tx_env0 debug) (TxJobStart 7 10) (tx_start [(2, True)] 2)" by (simp add: tx_start_def)
qed (simp add: tx_dev0_def)

lemma tx_dev0_res: "tx_resources tx_dev0 7 = Some \<lparr>tr_generation = 0, tr_rdma_count = 0, tr_rdma_limit = 10, tr_direct_count = 0\<rparr>"
  by (simp add: tx_dev0_def tx_job_start_def tx_start_def)

lemmas tx_run_defs = tx_dev0_def tx_job_start_def tx_start_def conf_tx_ring_def tx_env0_def tx_nic0_def post0_def hndl0 kgni_rdma_post_def debug_checks_def in_region_def
  translate_pe_def access_denied_def misaligned_def limit_reached_def tx_descriptor_def tx_events_def tx_address_def tx_submit_def upd_count_def ring_full_def put_entry_def
  next_ring_entry_def next_tx_def Let_def upd_bte_def GHAL_TXD_SET_MODE1_def GHAL_TXD_SET_MODE2_def GHAL_TXD_SET_MODE4_def GHAL_TXD_INIT_def

lemma post0_accepted: "map_option fst (kgni_rdma_post (tx_env0 debug) mem tx_nic0 5 post0 2000 0 0 tx_dev0) = Some 0"
  by (simp add: tx_run_defs)

section \<open>Properties\<close>

text \<open>
  C8. In every interleaving of posts, tasklet runs, interrupts, completions by the NIC, packets of other code and jobs that come and
  go, the next operation returns, so no assertion of the transmit path fails (in particular the one that the count of a completed
  transaction is not zero), and afterwards the RDMA count of every protection tag is the number of transactions that its present job
  has in the queues and the rings. Transactions of an earlier job with the same protection tag do not disturb it.
\<close>

theorem tx_counts_exact:
  assumes "tx_env_ok env cs" and "0 < n" and "reachable (tx_pre env) (tx_exec env) (tx_start cs n) d" and "tx_pre env op d"
  shows "\<exists>d'. tx_exec env op d = Some d' \<and> (\<forall>p r. tx_resources d' p = Some r \<longrightarrow> tr_rdma_count r = int (outstanding p (tr_generation r) d'))"
  using tx.no_fault[OF tx_start_inv(1)[OF assms(1,2)] assms(3,4)] unfolding tx_inv_def counts_def by auto

theorem tx_counts_exact_witness:
  "\<exists>d' r. tx_exec (tx_env0 True) (TxPost True tx_nic0 5 post0 2000 0 0) tx_dev0 = Some d' \<and> tx_resources d' 7 = Some r \<and> tr_rdma_count r = 1 \<and>
     tr_rdma_count r = int (outstanding 7 (tr_generation r) d')"
proof -
  let ?op = "TxPost True tx_nic0 5 post0 2000 0 0"
  have "tx_pre (tx_env0 True) ?op tx_dev0" using tx_dev0_res by (simp add: tx_nic0_def)
  from tx_counts_exact[OF tx_env0_ok _ tx_dev0_reachable this] obtain d' where
    d': "tx_exec (tx_env0 True) ?op tx_dev0 = Some d'" "\<forall>p r. tx_resources d' p = Some r \<longrightarrow> tr_rdma_count r = int (outstanding p (tr_generation r) d')" by auto
  moreover have "map_option (\<lambda>d. map_option tr_rdma_count (tx_resources d 7)) (tx_exec (tx_env0 True) ?op tx_dev0) = Some (Some 1)"
    by (simp add: tx_run_defs)
  ultimately show ?thesis by (cases "tx_resources d' 7") auto
qed



text \<open>
  C14. \<open>kgni_rdma_post\<close> in any reachable state, for a NIC with resources: it returns; when the result is not 0 it has changed nothing but
  the counter that chooses the channel; when it is 0, the checks have passed, the limit was not reached, and exactly the descriptor
  built from the arguments has been put into the next entry of the ring of a channel with room, or, behind other requests or when the
  channel of the domain is full, at the end of the queue of the domain.
\<close>

theorem rdma_post_result:
  assumes "tx_env_ok env cs" and "0 < n" and "reachable (tx_pre env) (tx_exec env) (tx_start cs n) d" and "tx_resources d (tn_ptag nic) = Some r"
  shows "\<exists>rc d'. kgni_rdma_post env mem nic rpe pd hw_cq src usr d = Some (rc, d') \<and> (rc \<noteq> 0 \<longrightarrow> d' = d\<lparr>tx_cur_chnl := tx_cur_chnl d'\<rparr>) \<and>
    (rc = 0 \<longrightarrow> (GNI_DEBUG env \<longrightarrow> debug_checks nic pd hw_cq) \<and> \<not> access_denied pd \<and> \<not> misaligned pd \<and> \<not> limit_reached r \<and>
      (\<exists>pe t. translate_pe env nic rpe = Inr pe \<and>
         tx_descriptor env nic (tn_modes nic AND 0x40 \<noteq> 0 \<or> \<not> multi_bte env) pe pd hw_cq src usr = Inr t \<and> tx_placed env nic t d d'))"
proof -
  have inv: "tx_inv env d" by (rule tx.reachable_inv[OF tx_start_inv(1)[OF assms(1,2)] assms(3)])
  from kgni_rdma_post_at[OF inv assms(4), of mem rpe pd hw_cq src usr] obtain rc d' where
    p: "kgni_rdma_post env mem nic rpe pd hw_cq src usr d = Some (rc, d')" "rdma_post_spec env nic rpe pd hw_cq src usr d rc d'" by blast
  show ?thesis
  proof (cases "rc = 0")
    case True
    with p assms(4) show ?thesis by (auto simp: rdma_post_spec_def)
  next
    case False
    with p show ?thesis by (auto simp: rdma_post_spec_def)
  qed
qed

theorem rdma_post_result_witness:
  "\<exists>d' t. kgni_rdma_post (tx_env0 True) True tx_nic0 5 post0 2000 0 0 tx_dev0 = Some (0, d') \<and> tx_placed (tx_env0 True) tx_nic0 t tx_dev0 d'"
proof -
  have r: "tx_resources tx_dev0 (tn_ptag tx_nic0) = Some \<lparr>tr_generation = 0, tr_rdma_count = 0, tr_rdma_limit = 10, tr_direct_count = 0\<rparr>"
    using tx_dev0_res by (simp add: tx_nic0_def)
  from rdma_post_result[OF tx_env0_ok _ tx_dev0_reachable r, of True True 5 post0 2000 0 0] post0_accepted[of True True] show ?thesis by auto
qed

text \<open>
  C15. With the checks of \<open>GNI_DEBUG\<close>, a transaction that is accepted stays inside both regions: the offsets and the length that the
  descriptor carries, in fields of 40 and 32 bits, are those of the request, and their sums are at most the sizes of the regions,
  provided that the transfer and the region end before the end of the address space and the region is not larger than 2 to the 40 bytes.
\<close>

theorem rdma_in_region:
  assumes "tx_env_ok env cs" and "0 < n" and "reachable (tx_pre env) (tx_exec env) (tx_start cs n) d" and "tx_resources d (tn_ptag nic) = Some r"
    and "GNI_DEBUG env" and post: "kgni_rdma_post env mem nic rpe pd hw_cq src usr d = Some (0, d')"
    and "addressable (pd_local_addr pd) (pd_length pd) (pd_local_mem_hndl pd)" and "addressable (pd_remote_addr pd) (pd_length pd) (pd_remote_mem_hndl pd)"
  shows "\<exists>t. tx_placed env nic t d d' \<and> unat (td_data_len t) = unat (pd_length pd) \<and> td_src_ptag t = tn_ptag nic \<and> td_dest_ptag t = tn_ptag nic \<and>
    unat (td_src_mem_off t) + unat (td_data_len t) \<le> region_bytes (pd_local_mem_hndl pd) \<and>
    unat (td_dest_mem_off t) + unat (td_data_len t) \<le> region_bytes (pd_remote_mem_hndl pd)"
proof -
  have inv: "tx_inv env d" by (rule tx.reachable_inv[OF tx_start_inv(1)[OF assms(1,2)] assms(3)])
  have "rdma_post_spec env nic rpe pd hw_cq src usr d 0 d'" using kgni_rdma_post_at[OF inv assms(4), of mem rpe pd hw_cq src usr] post by auto
  then obtain single pe t where dbg: "debug_checks nic pd hw_cq" and t: "tx_descriptor env nic single pe pd hw_cq src usr = Inr t" "tx_placed env nic t d d'"
    using assms(5) by (auto simp: rdma_post_spec_def)
  note f = tx_descriptor_fields[OF t(1)]
  have len: "pd_length pd \<noteq> 0" "\<not> GHAL_BTE_MAX_LENGTH < pd_length pd" using dbg by (simp_all add: debug_checks_def)
  then have "unat (pd_length pd) < 2 ^ 32" by (simp add: word_less_nat_alt)
  then have l: "unat (td_data_len t) = unat (pd_length pd)" unfolding f(1) by (simp add: unsigned_ucast_eq take_bit_nat_eq_self)
  have "in_region (pd_local_addr pd) (pd_length pd) (pd_local_mem_hndl pd)" "in_region (pd_remote_addr pd) (pd_length pd) (pd_remote_mem_hndl pd)"
    using dbg by (simp_all add: debug_checks_def)
  with in_region_offset[OF _ assms(7) len(1)] in_region_offset[OF _ assms(8) len(1)] have
    "unat (td_src_mem_off t) + unat (td_data_len t) \<le> region_bytes (pd_local_mem_hndl pd)"
    "unat (td_dest_mem_off t) + unat (td_data_len t) \<le> region_bytes (pd_remote_mem_hndl pd)" unfolding l f(2,3) by simp_all
  with t(2) l f(5,6) show ?thesis by blast
qed

theorem rdma_in_region_witness:
  "\<exists>d' t. kgni_rdma_post (tx_env0 True) True tx_nic0 5 post0 2000 0 0 tx_dev0 = Some (0, d') \<and> tx_placed (tx_env0 True) tx_nic0 t tx_dev0 d' \<and>
     unat (td_data_len t) = 16 \<and> unat (td_src_mem_off t) + 16 \<le> region_bytes hndl0 \<and> region_bytes hndl0 = 4096"
proof -
  have r: "tx_resources tx_dev0 (tn_ptag tx_nic0) = Some \<lparr>tr_generation = 0, tr_rdma_count = 0, tr_rdma_limit = 10, tr_direct_count = 0\<rparr>"
    using tx_dev0_res by (simp add: tx_nic0_def)
  obtain d' where p: "kgni_rdma_post (tx_env0 True) True tx_nic0 5 post0 2000 0 0 tx_dev0 = Some (0, d')" using post0_accepted[of True True] by auto
  have a: "addressable (pd_local_addr post0) (pd_length post0) (pd_local_mem_hndl post0)" "addressable (pd_remote_addr post0) (pd_length post0) (pd_remote_mem_hndl post0)"
    by (simp_all add: addressable_def region_bytes_def post0_def hndl0)
  have "GNI_DEBUG (tx_env0 True)" by (simp add: tx_env0_def)
  from rdma_in_region[OF tx_env0_ok _ tx_dev0_reachable r this p a] obtain t where t: "tx_placed (tx_env0 True) tx_nic0 t tx_dev0 d'"
    "unat (td_data_len t) = unat (pd_length post0)" "unat (td_src_mem_off t) + unat (td_data_len t) \<le> region_bytes (pd_local_mem_hndl post0)" by auto
  have "unat (pd_length post0) = 16" "pd_local_mem_hndl post0 = hndl0" "region_bytes hndl0 = 4096" by (simp_all add: post0_def region_bytes_def hndl0)
  with p t show ?thesis by auto
qed

text \<open>
  The range check of \<open>kgni_rdma_post\<close> adds address and length in 64 bits: a transfer of the last bytes of the address space passes
  it for every region that begins at or below that address, whatever the region's size, because the sum wraps to zero.
\<close>

lemma range_check_wraps: "in_region (- len) len h \<longleftrightarrow> GNI_MEMHNDL_GET_VA h \<le> - len"
  by (simp add: in_region_def not_less)

end
