(* ===== verification/Barrier.thy ===== *)
theory Barrier
  imports Machine
begin

text \<open>
  The barrier among the instances of a job (\<open>kgni_cdm_barr\<close> in \<open>kgni_ops.c\<close>), with the semaphore of the kernel on which its callers
  wait. Each lock region of the function is a step, so that calls interleave; a use of a freed barrier gives no result.
\<close>

section \<open>The barrier and its semaphore\<close>

text \<open>
  \<open>kgni_barr_res_t\<close>: the number of participants, how many have joined, the semaphore on which they wait and the number of callers
  that still use the barrier. The semaphore is the one of the kernel: a counter and a list of sleeping callers in order.
\<close>

record kgni_barr_res =
  barr_size :: u32
  barr_count :: u32
  sem_count :: nat
  sem_wait :: "nat list"
  barr_ref_cnt :: int

text \<open>
  Where a caller is: outside, between the two lock regions in which the barrier is looked up and set up, before \<open>down\<close>, asleep in \<open>down\<close>,
  after \<open>down\<close> with its result, or returned.
\<close>

datatype barr_pc = B_idle | B_alloc u32 | B_before | B_sleep | B_woken int | B_ret int

text \<open>The barrier of one protection tag, the callers, and whether the resource structure of the tag exists; it does as long as callers have it, since their NICs hold references.\<close>

record barr_state =
  b_barr :: "kgni_barr_res option"
  b_pc :: "nat \<Rightarrow> barr_pc"
  b_resource :: bool

definition barr_goto :: "nat \<Rightarrow> barr_pc \<Rightarrow> barr_state \<Rightarrow> barr_state" where
  "barr_goto t c s = s\<lparr>b_pc := (b_pc s)(t := c)\<rparr>"

text \<open>\<open>up\<close> wakes the first sleeper, or counts.\<close>

definition sem_up :: "barr_state \<Rightarrow> barr_state run" where
  "sem_up s = do {
     b \<leftarrow> b_barr s;
     (case sem_wait b of
        [] \<Rightarrow> Some (s\<lparr>b_barr := Some (b\<lparr>sem_count := sem_count b + 1\<rparr>)\<rparr>)
      | t # ts \<Rightarrow> Some (barr_goto t (B_woken 0) (s\<lparr>b_barr := Some (b\<lparr>sem_wait := ts\<rparr>)\<rparr>)))
   }"

fun sem_up_loop :: "nat \<Rightarrow> barr_state \<Rightarrow> barr_state run" where
  "sem_up_loop 0 s = Some s"
| "sem_up_loop (Suc n) s = do { s \<leftarrow> sem_up s; sem_up_loop n s }"

text \<open>\<open>down_timeout\<close> and \<open>down_interruptible\<close>: take a count or sleep; a sleeper may give up.\<close>

definition sem_down :: "nat \<Rightarrow> barr_state \<Rightarrow> barr_state run" where
  "sem_down t s = do {
     b \<leftarrow> b_barr s;
     if 0 < sem_count b then Some (barr_goto t (B_woken 0) (s\<lparr>b_barr := Some (b\<lparr>sem_count := sem_count b - 1\<rparr>)\<rparr>))
     else Some (barr_goto t B_sleep (s\<lparr>b_barr := Some (b\<lparr>sem_wait := sem_wait b @ [t]\<rparr>)\<rparr>))
   }"

definition sem_give_up :: "nat \<Rightarrow> barr_state \<Rightarrow> barr_state run" where
  "sem_give_up t s = do {
     b \<leftarrow> b_barr s;
     Some (barr_goto t (B_woken (- EAGAIN)) (s\<lparr>b_barr := Some (b\<lparr>sem_wait := remove1 t (sem_wait b)\<rparr>)\<rparr>))
   }"

section \<open>The lock regions of \<open>kgni_cdm_barr\<close>\<close>

definition barr_hold :: "nat \<Rightarrow> kgni_barr_res \<Rightarrow> barr_state \<Rightarrow> barr_state" where
  "barr_hold t b s = barr_goto t B_before (s\<lparr>b_barr := Some (b\<lparr>barr_ref_cnt := barr_ref_cnt b + 1\<rparr>)\<rparr>)"

definition barr_join :: "nat \<Rightarrow> u32 \<Rightarrow> barr_state \<Rightarrow> barr_state run" where
  "barr_join t n s = do {
     b \<leftarrow> b_barr s;
     if barr_count b = barr_size b then Some (barr_hold t (b\<lparr>barr_size := n, barr_count := 1\<rparr>) s)
     else if barr_size b \<noteq> n then Some (barr_goto t (B_ret (- EINVAL)) s)
     else
       (let b = b\<lparr>barr_count := barr_count b + 1\<rparr>
        in if barr_count b = barr_size b then do {
             s \<leftarrow> sem_up_loop (nat (sint (barr_size b) - 1)) (s\<lparr>b_barr := Some b\<rparr>);
             Some (barr_goto t (B_ret 0) s)
           }
           else Some (barr_hold t b s))
   }"

definition barr_enter :: "nat \<Rightarrow> u32 \<Rightarrow> barr_state \<Rightarrow> barr_state run" where
  "barr_enter t n s =
     (if n < 1 then Some (barr_goto t (B_ret (- EINVAL)) s)
      else if n = 1 then Some (barr_goto t (B_ret 0) s)
      else do {
        GASSERT (b_resource s);
        (case b_barr s of
           None \<Rightarrow> Some (barr_goto t (B_alloc n) s)
         | Some _ \<Rightarrow> barr_join t n s)
      })"

definition barr_setup :: "nat \<Rightarrow> bool \<Rightarrow> u32 \<Rightarrow> barr_state \<Rightarrow> barr_state run" where
  "barr_setup t mem n s =
     (if \<not> mem then Some (barr_goto t (B_ret (- ENOMEM)) s)
      else (case b_barr s of
          None \<Rightarrow> Some (barr_hold t \<lparr>barr_size = n, barr_count = 1, sem_count = 0, sem_wait = [], barr_ref_cnt = 0\<rparr> s)
        | Some _ \<Rightarrow> barr_join t n s))"

definition barr_leave :: "nat \<Rightarrow> int \<Rightarrow> barr_state \<Rightarrow> barr_state run" where
  "barr_leave t rc s = do {
     GASSERT (b_resource s);
     b \<leftarrow> b_barr s;
     let b = b\<lparr>barr_ref_cnt := barr_ref_cnt b - 1\<rparr>;
     Some (barr_goto t (B_ret rc) (s\<lparr>b_barr := (if barr_ref_cnt b = 0 then None else Some b)\<rparr>))
   }"

text \<open>The steps of a call in their order, each by one caller.\<close>

datatype barr_op = BEnter nat u32 | BSetup nat bool | BDown nat | BGiveUp nat | BLeave nat

fun barr_exec :: "barr_op \<Rightarrow> barr_state \<Rightarrow> barr_state run" where
  "barr_exec (BEnter t n) s = barr_enter t n s"
| "barr_exec (BSetup t mem) s = (case b_pc s t of B_alloc n \<Rightarrow> barr_setup t mem n s | _ \<Rightarrow> None)"
| "barr_exec (BDown t) s = sem_down t s"
| "barr_exec (BGiveUp t) s = sem_give_up t s"
| "barr_exec (BLeave t) s = (case b_pc s t of B_woken rc \<Rightarrow> barr_leave t rc s | _ \<Rightarrow> None)"

fun barr_pre :: "barr_op \<Rightarrow> barr_state \<Rightarrow> bool" where
  "barr_pre (BEnter t n) s = (case b_pc s t of B_idle \<Rightarrow> True | B_ret _ \<Rightarrow> True | _ \<Rightarrow> False)"
| "barr_pre (BSetup t mem) s = (case b_pc s t of B_alloc _ \<Rightarrow> True | _ \<Rightarrow> False)"
| "barr_pre (BDown t) s = (b_pc s t = B_before)"
| "barr_pre (BGiveUp t) s = (b_pc s t = B_sleep)"
| "barr_pre (BLeave t) s = (case b_pc s t of B_woken _ \<Rightarrow> True | _ \<Rightarrow> False)"

definition barr_start :: barr_state where
  "barr_start = \<lparr>b_barr = None, b_pc = (\<lambda>_. B_idle), b_resource = True\<rparr>"

section \<open>The invariant\<close>

definition waiting :: "barr_pc \<Rightarrow> bool" where
  "waiting c \<longleftrightarrow> (case c of B_before \<Rightarrow> True | B_sleep \<Rightarrow> True | B_woken _ \<Rightarrow> True | _ \<Rightarrow> False)"

abbreviation waiters :: "barr_state \<Rightarrow> nat set" where
  "waiters s \<equiv> {t. waiting (b_pc s t)}"

definition barr_inv :: "barr_state \<Rightarrow> bool" where
  "barr_inv s \<longleftrightarrow> b_resource s \<and> finite (waiters s) \<and>
     (case b_barr s of
        None \<Rightarrow> waiters s = {}
      | Some b \<Rightarrow> barr_ref_cnt b = int (card (waiters s)) \<and> waiters s \<noteq> {} \<and> distinct (sem_wait b) \<and> set (sem_wait b) = {t. b_pc s t = B_sleep})"

lemma goto_sel [simp]:
  "b_barr (barr_goto t c s) = b_barr s" "b_resource (barr_goto t c s) = b_resource s" "b_pc (barr_goto t c s) = (b_pc s)(t := c)"
  by (simp_all add: barr_goto_def)

lemma waiting_simps [simp]: "waiting B_before" "waiting B_sleep" "waiting (B_woken rc)" "\<not> waiting B_idle" "\<not> waiting (B_alloc n)" "\<not> waiting (B_ret rc)"
  by (simp_all add: waiting_def)

lemma waiters_goto: "waiters (barr_goto t c s) = (if waiting c then insert t (waiters s) else waiters s - {t})"
  by auto

lemma sleepers_goto: "{x. b_pc (barr_goto t c s) x = B_sleep} = (if c = B_sleep then insert t {x. b_pc s x = B_sleep} else {x. b_pc s x = B_sleep} - {t})"
  by auto

text \<open>All \<open>up\<close>s at once.\<close>

lemma sem_up_loop_eq:
  assumes "b_barr s = Some b"
  shows "sem_up_loop n s = Some (s\<lparr>b_barr := Some (b\<lparr>sem_wait := drop n (sem_wait b), sem_count := sem_count b + (n - length (sem_wait b))\<rparr>),
      b_pc := (\<lambda>t. if t \<in> set (take n (sem_wait b)) then B_woken 0 else b_pc s t)\<rparr>)"
  using assms
proof (induction n arbitrary: s b)
  case (Suc n)
  show ?case
  proof (cases "sem_wait b")
    case Nil
    with Suc.prems Suc.IH[of "s\<lparr>b_barr := Some (b\<lparr>sem_count := sem_count b + 1\<rparr>)\<rparr>"] show ?thesis by (simp add: sem_up_def)
  next
    case (Cons t ts)
    have "sem_up s = Some (barr_goto t (B_woken 0) (s\<lparr>b_barr := Some (b\<lparr>sem_wait := ts\<rparr>)\<rparr>))" using Suc.prems Cons by (simp add: sem_up_def)
    moreover note Suc.IH[of "barr_goto t (B_woken 0) (s\<lparr>b_barr := Some (b\<lparr>sem_wait := ts\<rparr>)\<rparr>)" "b\<lparr>sem_wait := ts\<rparr>"]
    ultimately show ?thesis using Cons by (auto simp: barr_goto_def fun_eq_iff)
  qed
qed simp

lemma barr_inv_goto:
  assumes "barr_inv s" and "\<not> waiting (b_pc s t)" and "\<not> waiting c"
  shows "barr_inv (barr_goto t c s)"
proof -
  have "waiters (barr_goto t c s) = waiters s" "{x. b_pc (barr_goto t c s) x = B_sleep} = {x. b_pc s x = B_sleep}"
    using assms(2,3) by (auto split: if_splits)
  with assms(1) show ?thesis by (simp add: barr_inv_def split: option.splits)
qed

lemma barr_inv_hold:
  assumes inv: "barr_inv s" and t: "\<not> waiting (b_pc s t)"
    and b: "case b_barr s of None \<Rightarrow> barr_ref_cnt b = 0 \<and> sem_wait b = [] | Some b0 \<Rightarrow> barr_ref_cnt b = barr_ref_cnt b0 \<and> sem_wait b = sem_wait b0"
  shows "barr_inv (barr_hold t b s)"
proof -
  let ?s = "barr_hold t b s"
  have pc: "b_pc ?s = (b_pc s)(t := B_before)" "b_resource ?s = b_resource s" "b_barr ?s = Some (b\<lparr>barr_ref_cnt := barr_ref_cnt b + 1\<rparr>)" by (simp_all add: barr_hold_def)
  have w: "waiters ?s = insert t (waiters s)" "{x. b_pc ?s x = B_sleep} = {x. b_pc s x = B_sleep}" using t by (auto simp: pc)
  have fin: "finite (waiters s)" using inv by (simp add: barr_inv_def)
  have "barr_ref_cnt b = int (card (waiters s)) \<and> distinct (sem_wait b) \<and> set (sem_wait b) = {x. b_pc s x = B_sleep}"
  proof (cases "b_barr s")
    case None
    with inv have "waiters s = {}" by (simp add: barr_inv_def)
    then have "card (waiters s) = 0" by simp
    moreover have "{x. b_pc s x = B_sleep} = {}" using \<open>waiters s = {}\<close> by (metis (mono_tags, lifting) Collect_empty_eq waiting_simps(2))
    ultimately show ?thesis using None b by simp
  qed (use inv b in \<open>simp add: barr_inv_def\<close>)
  moreover have "card (waiters ?s) = Suc (card (waiters s))" using w(1) fin t by simp
  ultimately show ?thesis using inv w fin unfolding barr_inv_def pc(2,3) by (simp add: w)
qed

lemma barr_inv_join:
  assumes inv: "barr_inv s" and t: "\<not> waiting (b_pc s t)" and b: "b_barr s = Some b"
  shows "ok (barr_join t n s) barr_inv"
proof -
  have "barr_inv (barr_hold t (b\<lparr>barr_size := n, barr_count := 1\<rparr>) s)" "barr_inv (barr_hold t (b\<lparr>barr_count := barr_count b + 1\<rparr>) s)"
    by (rule barr_inv_hold[OF inv t], simp add: b)+
  moreover have "barr_inv (barr_goto t (B_ret rc) s)" for rc by (rule barr_inv_goto[OF inv t]) simp
  moreover have "ok (do { s \<leftarrow> sem_up_loop k (s\<lparr>b_barr := Some (b\<lparr>barr_count := c\<rparr>)\<rparr>); Some (barr_goto t (B_ret 0) s) }) barr_inv" for k c
  proof -
    let ?b = "b\<lparr>barr_count := c, sem_wait := drop k (sem_wait b), sem_count := sem_count b + (k - length (sem_wait b))\<rparr>"
    let ?s = "s\<lparr>b_barr := Some ?b, b_pc := (\<lambda>x. if x \<in> set (take k (sem_wait b)) then B_woken 0 else b_pc s x)\<rparr>"
    have sw: "set (sem_wait b) = {x. b_pc s x = B_sleep}" "distinct (sem_wait b)" using inv b by (simp_all add: barr_inv_def)
    have tk: "x \<in> set (take k (sem_wait b)) \<Longrightarrow> b_pc s x = B_sleep" for x using sw(1) in_set_takeD by fastforce
    have w: "waiters ?s = waiters s" using tk by auto
    have "set (drop k (sem_wait b)) = set (sem_wait b) - set (take k (sem_wait b))"
      using sw(2) set_take_disj_set_drop_if_distinct[OF sw(2), of k k] append_take_drop_id[of k "sem_wait b"] by (metis Diff_triv Int_commute Un_Diff Un_empty_left Diff_cancel le_refl set_append)
    then have sl: "set (drop k (sem_wait b)) = {x. b_pc ?s x = B_sleep}" using sw(1) by auto
    have "barr_inv ?s" using inv b w sl sw(2) by (simp add: barr_inv_def)
    moreover have "\<not> waiting (b_pc ?s t)" using t tk[of t] by auto
    ultimately have "barr_inv (barr_goto t (B_ret 0) ?s)" by (rule barr_inv_goto) simp
    then show ?thesis by (simp add: sem_up_loop_eq[of _ "b\<lparr>barr_count := c\<rparr>"] cong: if_cong)
  qed
  ultimately show ?thesis by (simp add: barr_join_def b Let_def)
qed


lemma barr_step:
  assumes inv: "barr_inv s" and pre: "barr_pre op s"
  shows "ok (barr_exec op s) barr_inv"
proof (cases op)
  case (BEnter t n)
  have t: "\<not> waiting (b_pc s t)" using pre BEnter by (simp split: barr_pc.splits)
  have "b_resource s" using inv by (simp add: barr_inv_def)
  with BEnter barr_inv_join[OF inv t] barr_inv_goto[OF inv t] show ?thesis by (simp add: barr_enter_def GASSERT_def split: option.split)
next
  case (BSetup t mem)
  then obtain n where n: "b_pc s t = B_alloc n" using pre by (auto split: barr_pc.splits)
  then have t: "\<not> waiting (b_pc s t)" by simp
  have "b_barr s = None \<Longrightarrow> barr_inv (barr_hold t \<lparr>barr_size = n, barr_count = 1, sem_count = 0, sem_wait = [], barr_ref_cnt = 0\<rparr> s)"
    by (rule barr_inv_hold[OF inv t]) simp
  with BSetup n barr_inv_join[OF inv t] barr_inv_goto[OF inv t] show ?thesis by (simp add: barr_setup_def split: option.split)
next
  case (BDown t)
  then have t: "b_pc s t = B_before" using pre by simp
  then have "t \<in> waiters s" by simp
  with inv obtain b where b: "b_barr s = Some b" by (cases "b_barr s") (auto simp: barr_inv_def)
  have w: "waiters (barr_goto t c s') = waiters s" "{x. b_pc (barr_goto t B_sleep s') x = B_sleep} = insert t {x. b_pc s x = B_sleep}"
    "{x. b_pc (barr_goto t (B_woken 0) s') x = B_sleep} = {x. b_pc s x = B_sleep}" if "waiting c" "b_pc s' = b_pc s" for c s' using t that by auto
  have "t \<notin> set (sem_wait b)" using inv b t by (simp add: barr_inv_def)
  with inv b w show ?thesis by (simp add: BDown sem_down_def barr_inv_def, auto)
next
  case (BGiveUp t)
  then have t: "b_pc s t = B_sleep" using pre by simp
  then have "t \<in> waiters s" by simp
  with inv obtain b where b: "b_barr s = Some b" by (cases "b_barr s") (auto simp: barr_inv_def)
  have w: "waiters (barr_goto t (B_woken (- EAGAIN)) s') = waiters s" "{x. b_pc (barr_goto t (B_woken (- EAGAIN)) s') x = B_sleep} = {x. b_pc s x = B_sleep} - {t}"
    if "b_pc s' = b_pc s" for s' using t that by auto
  with inv b show ?thesis by (simp add: BGiveUp sem_give_up_def barr_inv_def)
next
  case (BLeave t)
  then obtain rc where t: "b_pc s t = B_woken rc" using pre by (auto split: barr_pc.splits)
  then have m: "t \<in> waiters s" by simp
  with inv obtain b where b: "b_barr s = Some b" by (cases "b_barr s") (auto simp: barr_inv_def)
  have w: "waiters (barr_goto t (B_ret rc) s') = waiters s - {t}" "{x. b_pc (barr_goto t (B_ret rc) s') x = B_sleep} = {x. b_pc s x = B_sleep}"
    if "b_pc s' = b_pc s" for s' using t that by auto
  have i: "finite (waiters s)" "barr_ref_cnt b = int (card (waiters s))" "b_resource s" using inv b by (simp_all add: barr_inv_def)
  have c: "card (waiters s - {t}) = card (waiters s) - 1" "0 < card (waiters s)" using i(1) m by (auto simp: card_gt_0_iff)
  then have "card (waiters s) = 1 \<longleftrightarrow> waiters s - {t} = {}" using i(1) by (metis One_nat_def Suc_pred card_0_eq diff_Suc_1 finite_Diff)
  with inv b w i c show ?thesis by (simp add: BLeave t barr_leave_def barr_inv_def GASSERT_def Let_def of_nat_diff)
qed

interpretation barr: safe_machine barr_pre barr_exec barr_inv
  by unfold_locales (rule barr_step)

lemma barr_start_inv: "barr_inv barr_start"
  by (simp add: barr_inv_def barr_start_def)

end
