(* ===== verification/Barrier_Props.thy ===== *)
theory Barrier_Props
  imports Barrier
begin

text \<open>
  The barrier in all interleavings, one round of it, and what happens when rounds overlap.
\<close>

section \<open>One round\<close>

text \<open>
  The callers 0 to \<open>N\<close> - 1 enter once each with the size \<open>N\<close>, none gives up and there is memory for the barrier.
\<close>

fun round_pre :: "nat \<Rightarrow> barr_op \<Rightarrow> barr_state \<Rightarrow> bool" where
  "round_pre N (BEnter t n) s \<longleftrightarrow> t < N \<and> b_pc s t = B_idle \<and> n = of_nat N"
| "round_pre N (BSetup t mem) s \<longleftrightarrow> barr_pre (BSetup t mem) s \<and> mem"
| "round_pre N (BGiveUp t) s \<longleftrightarrow> False"
| "round_pre N op s \<longleftrightarrow> barr_pre op s"

definition has_joined :: "barr_pc \<Rightarrow> bool" where
  "has_joined c \<longleftrightarrow> (case c of B_idle \<Rightarrow> False | B_alloc _ \<Rightarrow> False | _ \<Rightarrow> True)"

lemma has_joined_simps [simp]: "\<not> has_joined B_idle" "\<not> has_joined (B_alloc n)" "has_joined B_before" "has_joined B_sleep" "has_joined (B_woken rc)" "has_joined (B_ret rc)"
  by (simp_all add: has_joined_def)

abbreviation b_entered :: "barr_state \<Rightarrow> nat set" where
  "b_entered s \<equiv> {t. has_joined (b_pc s t)}"

text \<open>Before the last caller has joined all others wait; afterwards the semaphore counts exactly those that have not taken it yet.\<close>

definition round_barr :: "nat \<Rightarrow> kgni_barr_res \<Rightarrow> barr_state \<Rightarrow> bool" where
  "round_barr N b s \<longleftrightarrow> barr_size b = of_nat N \<and> barr_count b = of_nat (card (b_entered s)) \<and>
     (if card (b_entered s) < N then sem_count b = 0 \<and> (\<forall>t. has_joined (b_pc s t) \<longrightarrow> b_pc s t = B_before \<or> b_pc s t = B_sleep)
      else sem_wait b = [] \<and> sem_count b = card {t. b_pc s t = B_before} \<and> (\<forall>t < N. b_pc s t = B_before \<or> b_pc s t = B_woken 0 \<or> b_pc s t = B_ret 0))"

definition round_inv :: "nat \<Rightarrow> barr_state \<Rightarrow> bool" where
  "round_inv N s \<longleftrightarrow> 2 \<le> N \<and> N < 2 ^ 31 \<and> (\<forall>t. N \<le> t \<longrightarrow> b_pc s t = B_idle) \<and> (\<forall>t n. b_pc s t = B_alloc n \<longrightarrow> n = of_nat N) \<and>
     (case b_barr s of None \<Rightarrow> b_entered s = {} \<or> (\<forall>t < N. b_pc s t = B_ret 0) | Some b \<Rightarrow> round_barr N b s)"

lemma u32_eq: "j \<le> N \<Longrightarrow> N < 2 ^ 31 \<Longrightarrow> (of_nat j :: u32) = of_nat N \<longleftrightarrow> j = N"
  by (auto dest: arg_cong[of _ _ unat] simp: unat_of_nat)

lemma u32_ups: "N < 2 ^ 31 \<Longrightarrow> nat (sint (of_nat N :: u32) - 1) = N - 1"
proof -
  assume "N < 2 ^ 31"
  then have "signed_take_bit 31 (int N) = int N" by (intro signed_take_bit_int_eq_self) simp_all
  then have "sint (of_nat N :: u32) = int N" by (simp add: signed_of_nat)
  then show ?thesis by linarith
qed

lemma entered_goto: "b_entered (barr_goto t c s) = (if has_joined c then insert t (b_entered s) else b_entered s - {t})"
  by auto

lemma barr_of_waiter: "barr_inv s \<Longrightarrow> waiting (b_pc s t) \<Longrightarrow> \<exists>b. b_barr s = Some b"
  by (cases "b_barr s") (auto simp: barr_inv_def)

lemma round_entered:
  assumes "round_inv N s" and "t < N" and "\<not> has_joined (b_pc s t)"
  shows "finite (b_entered s)" "card (b_entered s) < N" "b_entered s \<subseteq> {..<N} - {t}"
proof -
  have "b_pc s x = B_idle" if "N \<le> x" for x using assms(1) that by (simp add: round_inv_def)
  then have "\<not> has_joined (b_pc s x)" if "N \<le> x" for x using that by simp
  then show sub: "b_entered s \<subseteq> {..<N} - {t}" using assms(3) not_le by blast
  then show "finite (b_entered s)" by (rule finite_subset) simp
  have "card (b_entered s) \<le> card ({..<N} - {t})" by (rule card_mono[OF _ sub]) simp
  also have "\<dots> < N" using assms(2) by simp
  finally show "card (b_entered s) < N" .
qed

lemma round_hold:
  assumes inv: "round_inv N s" and t: "t < N" "\<not> has_joined (b_pc s t)" and less: "Suc (card (b_entered s)) < N"
    and b: "barr_size b = of_nat N" "barr_count b = of_nat (Suc (card (b_entered s)))" "sem_count b = 0"
    and w: "\<forall>x. has_joined (b_pc s x) \<longrightarrow> b_pc s x = B_before \<or> b_pc s x = B_sleep"
  shows "round_inv N (barr_hold t b s)"
proof -
  let ?s = "barr_hold t b s"
  have pc: "b_pc ?s = (b_pc s)(t := B_before)" "b_barr ?s = Some (b\<lparr>barr_ref_cnt := barr_ref_cnt b + 1\<rparr>)" by (simp_all add: barr_hold_def)
  have "b_entered ?s = insert t (b_entered s)" by (auto simp: pc)
  moreover have "t \<notin> b_entered s" using t(2) by simp
  ultimately have c: "card (b_entered ?s) = Suc (card (b_entered s))" using round_entered(1)[OF inv t] by simp
  have "round_barr N (b\<lparr>barr_ref_cnt := barr_ref_cnt b + 1\<rparr>) ?s" unfolding round_barr_def c using b less w by (simp add: pc)
  with inv t(1) show ?thesis unfolding round_inv_def by (simp add: pc)
qed

lemma round_join:
  assumes bi: "barr_inv s" and inv: "round_inv N s" and t: "t < N" "\<not> has_joined (b_pc s t)" and b: "b_barr s = Some b" and run: "barr_join t (of_nat N) s = Some s'"
  shows "round_inv N s'"
proof -
  note e = round_entered[OF inv t]
  have N: "2 \<le> N" "N < 2 ^ 31" using inv by (simp_all add: round_inv_def)
  have rb: "barr_size b = of_nat N" "barr_count b = of_nat (card (b_entered s))" "sem_count b = 0" "\<forall>x. has_joined (b_pc s x) \<longrightarrow> b_pc s x = B_before \<or> b_pc s x = B_sleep"
    using inv b e(2) by (simp_all add: round_inv_def round_barr_def)
  have ne: "barr_count b \<noteq> barr_size b" using u32_eq[of "card (b_entered s)" N] e(2) N(2) rb by simp
  let ?b = "b\<lparr>barr_count := barr_count b + 1\<rparr>"
  have cnt: "barr_count ?b = of_nat (Suc (card (b_entered s)))" using rb(2) by simp
  show ?thesis
  proof (cases "Suc (card (b_entered s)) = N")
    case False
    then have less: "Suc (card (b_entered s)) < N" using e(2) by simp
    have "of_nat (Suc (card (b_entered s))) \<noteq> (of_nat N :: u32)" using u32_eq[of "Suc (card (b_entered s))" N] less N(2) by simp
    then have "s' = barr_hold t ?b s" using run ne rb cnt by (simp add: barr_join_def b Let_def add.commute)
    with round_hold[OF inv t less _ cnt] rb show ?thesis by simp
  next
    case True
    let ?B = "{x. b_pc s x = B_before}" and ?S = "{x. b_pc s x = B_sleep}"
    have un: "b_entered s = ?B \<union> ?S" using rb(4) by auto
    have fin: "finite ?B" "finite ?S" using e(1) un by (metis finite_Un)+
    have "card (b_entered s) = card ?B + card ?S" unfolding un by (rule card_Un_disjoint[OF fin]) auto
    moreover have sw: "distinct (sem_wait b)" "set (sem_wait b) = ?S" using bi b by (simp_all add: barr_inv_def)
    then have "card ?S = length (sem_wait b)" by (metis distinct_card)
    ultimately have len: "N - 1 = card ?B + length (sem_wait b)" using True by simp
    let ?s = "s\<lparr>b_barr := Some (?b\<lparr>sem_wait := [], sem_count := card ?B\<rparr>), b_pc := (\<lambda>x. if x \<in> set (sem_wait b) then B_woken 0 else b_pc s x)\<rparr>"
    have up: "sem_up_loop (N - 1) (s\<lparr>b_barr := Some ?b\<rparr>) = Some ?s"
      unfolding len using sem_up_loop_eq[of "s\<lparr>b_barr := Some ?b\<rparr>" ?b "card ?B + length (sem_wait b)"] rb(3) by (simp cong: if_cong)
    have "barr_count ?b = of_nat N" using cnt True by simp
    then have s': "s' = barr_goto t (B_ret 0) ?s" using run ne rb(1) up u32_ups[OF N(2)] by (simp add: barr_join_def b Let_def)
    have pc: "b_pc s' = (\<lambda>x. if x = t then B_ret 0 else if b_pc s x = B_sleep then B_woken 0 else b_pc s x)" unfolding s' using sw(2) by (auto simp: fun_eq_iff)
    have all: "b_entered s = {..<N} - {t}" using card_subset_eq[OF _ e(3)] True t(1) by simp
    have "has_joined (b_pc s' x) \<longleftrightarrow> x = t \<or> has_joined (b_pc s x)" for x unfolding pc by simp
    then have "b_entered s' = insert t (b_entered s)" by auto
    then have "b_entered s' = {..<N}" unfolding all using t(1) by auto
    moreover have "{x. b_pc s' x = B_before} = ?B" using t(2) unfolding pc by (auto split: if_splits)
    moreover have "\<forall>x < N. b_pc s' x = B_before \<or> b_pc s' x = B_woken 0 \<or> b_pc s' x = B_ret 0"
    proof (intro allI impI)
      fix x assume x: "x < N"
      then have "x = t \<or> has_joined (b_pc s x)" using all by blast
      with rb(4) show "b_pc s' x = B_before \<or> b_pc s' x = B_woken 0 \<or> b_pc s' x = B_ret 0" unfolding pc by auto
    qed
    moreover have "b_barr s' = Some (?b\<lparr>sem_wait := [], sem_count := card ?B\<rparr>)" unfolding s' by simp
    ultimately show ?thesis using inv t(1) rb(1) cnt True unfolding round_inv_def round_barr_def by (auto simp: pc)
  qed
qed

lemma round_step:
  assumes bi: "barr_inv s" and inv: "round_inv N s" and pre: "round_pre N op s" and run: "barr_exec op s = Some s'"
  shows "round_inv N s'"
proof (cases op)
  case (BEnter t n)
  then have t: "t < N" "b_pc s t = B_idle" "n = of_nat N" using pre by simp_all
  have N: "2 \<le> N" "N < 2 ^ 31" using inv by (simp_all add: round_inv_def)
  have "(of_nat N :: u32) \<noteq> of_nat 1" "(of_nat N :: u32) \<noteq> of_nat 0" using N u32_eq[of 1 N] u32_eq[of 0 N] by auto
  then have n: "\<not> n < 1" "n \<noteq> 1" using t(3) by (auto simp: word_less_nat_alt unat_eq_zero)
  show ?thesis
  proof (cases "b_barr s")
    case None
    then have s': "s' = barr_goto t (B_alloc n) s" using run n bi by (simp add: BEnter barr_enter_def barr_inv_def GASSERT_def)
    have "b_entered s' = b_entered s" unfolding s' using t(2) by auto
    moreover have "\<not> (\<forall>x < N. b_pc s x = B_ret 0)" using t(1,2) by auto
    ultimately show ?thesis using inv None t unfolding round_inv_def by (auto simp: s')
  next
    case (Some b)
    then have "barr_join t (of_nat N) s = Some s'" using run n bi t(3) by (simp add: BEnter barr_enter_def barr_inv_def GASSERT_def)
    with Some show ?thesis using round_join[OF bi inv t(1)] t(2) by simp
  qed
next
  case (BSetup t mem)
  then obtain n where n: "b_pc s t = B_alloc n" and mem using pre by (auto split: barr_pc.splits)
  then have nN: "n = of_nat N" and t: "t < N" "\<not> has_joined (b_pc s t)" using inv unfolding round_inv_def by (auto simp: not_le[symmetric])
  show ?thesis
  proof (cases "b_barr s")
    case None
    then have "b_entered s = {}" using inv n t(1) unfolding round_inv_def by auto
    moreover have "s' = barr_hold t \<lparr>barr_size = n, barr_count = 1, sem_count = 0, sem_wait = [], barr_ref_cnt = 0\<rparr> s"
      using run n \<open>mem\<close> None by (simp add: BSetup barr_setup_def)
    ultimately show ?thesis using round_hold[OF inv t, of "\<lparr>barr_size = n, barr_count = 1, sem_count = 0, sem_wait = [], barr_ref_cnt = 0\<rparr>"] inv nN
      by (simp add: round_inv_def)
  next
    case (Some b)
    then have "barr_join t (of_nat N) s = Some s'" using run n nN \<open>mem\<close> by (simp add: BSetup barr_setup_def)
    with Some show ?thesis using round_join[OF bi inv t] by simp
  qed
next
  case (BDown t)
  then have t: "b_pc s t = B_before" using pre by simp
  then obtain b where b: "b_barr s = Some b" using barr_of_waiter[OF bi, of t] by auto
  have rb: "round_barr N b s" using inv b by (simp add: round_inv_def)
  have tN: "t < N" using inv t unfolding round_inv_def by (metis barr_pc.distinct(3) not_le)
  have fin: "finite {x. b_pc s x = B_before}" using bi by (rule_tac finite_subset[of _ "waiters s"]) (auto simp: barr_inv_def)
  have pos: "0 < card {x. b_pc s x = B_before}" using fin t by (auto simp: card_gt_0_iff)
  show ?thesis
  proof (cases "0 < sem_count b")
    case True
    then have c: "\<not> card (b_entered s) < N" using rb by (auto simp: round_barr_def)
    have s': "s' = barr_goto t (B_woken 0) (s\<lparr>b_barr := Some (b\<lparr>sem_count := sem_count b - 1\<rparr>)\<rparr>)" using run True b by (simp add: BDown sem_down_def)
    have "b_entered s' = b_entered s" "{x. b_pc s' x = B_before} = {x. b_pc s x = B_before} - {t}" unfolding s' using t by auto
    with rb c fin t have "round_barr N (b\<lparr>sem_count := sem_count b - 1\<rparr>) s'" unfolding round_barr_def by (simp add: s')
    with inv tN show ?thesis unfolding round_inv_def by (simp add: s')
  next
    case False
    then have c: "card (b_entered s) < N" using rb pos by (auto simp: round_barr_def split: if_splits)
    have s': "s' = barr_goto t B_sleep (s\<lparr>b_barr := Some (b\<lparr>sem_wait := sem_wait b @ [t]\<rparr>)\<rparr>)" using run False b by (simp add: BDown sem_down_def)
    have "b_entered s' = b_entered s" unfolding s' using t by auto
    with rb c have "round_barr N (b\<lparr>sem_wait := sem_wait b @ [t]\<rparr>) s'" unfolding round_barr_def by (simp add: s')
    with inv tN show ?thesis unfolding round_inv_def by (simp add: s')
  qed
next
  case (BGiveUp t)
  with pre show ?thesis by simp
next
  case (BLeave t)
  then obtain rc where t: "b_pc s t = B_woken rc" using pre by (auto split: barr_pc.splits)
  then obtain b where b: "b_barr s = Some b" using barr_of_waiter[OF bi, of t] by auto
  have rb: "round_barr N b s" using inv b by (simp add: round_inv_def)
  have tN: "t < N" using inv t unfolding round_inv_def by (metis barr_pc.distinct(7) not_le)
  have c: "\<not> card (b_entered s) < N"
  proof
    assume "card (b_entered s) < N"
    with rb have "has_joined (b_pc s t) \<longrightarrow> b_pc s t = B_before \<or> b_pc s t = B_sleep" by (simp add: round_barr_def)
    with t show False by simp
  qed
  with rb tN t have rc: "rc = 0" by (auto simp: round_barr_def)
  let ?b = "b\<lparr>barr_ref_cnt := barr_ref_cnt b - 1\<rparr>"
  have s': "s' = barr_goto t (B_ret 0) (s\<lparr>b_barr := (if barr_ref_cnt b = 1 then None else Some ?b)\<rparr>)"
    using run bi b t rc by (simp add: BLeave barr_leave_def barr_inv_def GASSERT_def Let_def)
  have "b_entered s' = b_entered s" "{x. b_pc s' x = B_before} = {x. b_pc s x = B_before}" unfolding s' using t by auto
  with rb c have rb': "round_barr N ?b s'" unfolding round_barr_def by (auto simp: s')
  have "barr_inv s'" using barr_step[OF bi, of op] run BLeave t by simp
  then have "b_barr s' = None \<Longrightarrow> waiters s' = {}" by (simp add: barr_inv_def)
  then have "\<forall>x < N. b_pc s' x = B_ret 0" if "b_barr s' = None"
    using rb' c that \<open>b_entered s' = b_entered s\<close> unfolding round_barr_def by (metis (mono_tags, lifting) Collect_empty_eq waiting_simps(1,3))
  then show ?thesis using inv tN rb' unfolding round_inv_def by (auto simp: s' split: if_splits)
qed

lemma round_pre_pre: "round_pre N op s \<Longrightarrow> barr_pre op s"
  by (cases op) simp_all

interpretation brd: safe_machine_with "round_pre N" barr_exec barr_inv "round_inv N" for N
proof
  show "ok (barr_exec op s) barr_inv" if "barr_inv s" "round_pre N op s" for s op by (rule barr_step[OF that(1) round_pre_pre[OF that(2)]])
  show "round_inv N s'" if "barr_inv s" "round_inv N s" "round_pre N op s" "barr_exec op s = Some s'" for s op s' by (rule round_step[OF that])
qed

lemma round_start: "2 \<le> N \<Longrightarrow> N < 2 ^ 31 \<Longrightarrow> round_inv N barr_start"
  by (simp add: round_inv_def barr_start_def)

section \<open>Properties\<close>

text \<open>A run of given steps; a step that is not possible gives no result.\<close>

fun barr_play :: "(barr_op \<Rightarrow> barr_state \<Rightarrow> bool) \<Rightarrow> barr_op list \<Rightarrow> barr_state \<Rightarrow> barr_state run" where
  "barr_play pre [] s = Some s"
| "barr_play pre (op # ops) s = (if pre op s then Option.bind (barr_exec op s) (barr_play pre ops) else None)"

lemma barr_play_reachable: "barr_play pre ops s = Some s' \<Longrightarrow> reachable pre barr_exec s0 s \<Longrightarrow> reachable pre barr_exec s0 s'"
proof (induction ops arbitrary: s)
  case (Cons op ops)
  then show ?case by (auto split: if_splits bind_splits intro: reachable.step)
qed simp

lemma sem_up_loop_1: "sem_up_loop (Suc 0) s = sem_up s" "sem_up_loop 2 s = Option.bind (sem_up s) sem_up"
proof -
  show one: "sem_up_loop (Suc 0) s = sem_up s" for s by (cases "sem_up s") simp_all
  show "sem_up_loop 2 s = Option.bind (sem_up s) sem_up" unfolding numeral_2_eq_2 sem_up_loop.simps(2)[of "Suc 0"] one ..
qed

lemmas barr_run_defs = barr_start_def barr_enter_def barr_setup_def barr_join_def barr_hold_def barr_leave_def sem_down_def sem_up_def sem_give_up_def
  barr_goto_def GASSERT_def Let_def sem_up_loop_1

text \<open>
  C13. In every interleaving of calls of the kernel barrier with any sizes, time-outs, signals and failed allocations, no step uses a
  barrier that has been freed or fails an assertion; the barrier exists exactly while callers wait in it, and its reference count is
  their number.
\<close>

theorem barrier_no_fault:
  assumes "reachable barr_pre barr_exec barr_start s" and "barr_pre op s"
  shows "\<exists>s'. barr_exec op s = Some s' \<and> finite (waiters s') \<and>
    (case b_barr s' of None \<Rightarrow> waiters s' = {} | Some b \<Rightarrow> waiters s' \<noteq> {} \<and> barr_ref_cnt b = int (card (waiters s')))"
  using barr.no_fault[OF barr_start_inv assms] by (auto simp: barr_inv_def split: option.splits)

theorem barrier_no_fault_witness:
  "\<exists>s'. barr_exec (BEnter 0 3) barr_start = Some s' \<and> (case b_barr s' of None \<Rightarrow> waiters s' = {} | Some b \<Rightarrow> waiters s' \<noteq> {})"
  using barrier_no_fault[OF reachable.start, of "BEnter 0 3"] by (auto simp: barr_start_def split: option.splits)

text \<open>
  C12. When \<open>N\<close> callers with the size \<open>N\<close> enter the barrier once each and none gives up, then in every interleaving: no caller
  is woken or returns before all have joined, and every call that returns returns 0; once all have joined nobody is asleep and every
  caller that still has to wait gets through at once; and when all have returned the barrier has been freed.
\<close>

theorem barrier_one_round:
  assumes "2 \<le> N" and "N < 2 ^ 31" and "reachable (round_pre N) barr_exec barr_start s"
  shows "(\<forall>t rc. b_pc s t = B_woken rc \<or> b_pc s t = B_ret rc \<longrightarrow> rc = 0 \<and> (\<forall>x < N. has_joined (b_pc s x))) \<and>
    ((\<forall>x < N. has_joined (b_pc s x)) \<longrightarrow> (\<forall>t. b_pc s t \<noteq> B_sleep) \<and>
      (\<forall>t. b_pc s t = B_before \<longrightarrow> (\<exists>s'. barr_exec (BDown t) s = Some s' \<and> b_pc s' t = B_woken 0))) \<and>
    ((\<forall>x < N. \<exists>rc. b_pc s x = B_ret rc) \<longrightarrow> b_barr s = None)"
proof -
  have bi: "barr_inv s" and inv: "round_inv N s"
    using brd.reachable_inv[OF barr_start_inv assms(3)] brd.reachable_extra[OF barr_start_inv round_start[OF assms(1,2)] assms(3)] .
  have idle: "b_pc s x = B_idle" if "N \<le> x" for x using inv that by (simp add: round_inv_def)
  have sub: "b_entered s \<subseteq> {..<N}" using idle has_joined_simps(1) by (metis (mono_tags, lifting) lessThan_iff mem_Collect_eq not_le subsetI)
  have full: "card (b_entered s) < N \<longleftrightarrow> \<not> (\<forall>x < N. has_joined (b_pc s x))"
  proof
    assume less: "card (b_entered s) < N"
    show "\<not> (\<forall>x < N. has_joined (b_pc s x))"
    proof
      assume "\<forall>x < N. has_joined (b_pc s x)"
      then have "{..<N} \<subseteq> b_entered s" by auto
      from card_mono[OF finite_subset[OF sub] this] less show False by simp
    qed
  next
    assume "\<not> (\<forall>x < N. has_joined (b_pc s x))"
    then have "b_entered s \<subset> {..<N}" using sub by blast
    then show "card (b_entered s) < N" using psubset_card_mono[of "{..<N}"] by simp
  qed
  have tN: "t < N" if "b_pc s t \<noteq> B_idle" for t using idle[of t] that by (metis not_le)
  consider (none) "b_barr s = None" "b_entered s = {}" | (returned) "b_barr s = None" "\<forall>x < N. b_pc s x = B_ret 0"
    | (before) b where "b_barr s = Some b" "card (b_entered s) < N" "\<forall>t. has_joined (b_pc s t) \<longrightarrow> b_pc s t = B_before \<or> b_pc s t = B_sleep"
    | (complete) b where "b_barr s = Some b" "\<not> card (b_entered s) < N" "sem_count b = card {t. b_pc s t = B_before}"
        "\<forall>t < N. b_pc s t = B_before \<or> b_pc s t = B_woken 0 \<or> b_pc s t = B_ret 0"
    using inv unfolding round_inv_def round_barr_def by (cases "b_barr s") (auto split: if_splits)
  then show ?thesis
  proof cases
    case none
    then have "\<not> has_joined (b_pc s t)" for t by auto
    moreover have "0 < N" using assms(1) by simp
    ultimately show ?thesis using none(1) by (metis has_joined_simps(5,6))
  next
    case returned
    have r: "b_pc s t = B_ret 0" if "b_pc s t \<noteq> B_idle" for t using tN[OF that] returned(2) by simp
    have "b_pc s t \<noteq> B_sleep" "b_pc s t \<noteq> B_before" "b_pc s t \<noteq> B_woken rc" "b_pc s t = B_ret rc \<Longrightarrow> rc = 0" for t rc using r[of t] by auto
    with returned show ?thesis by auto
  next
    case before
    have "b_pc s t \<noteq> B_woken rc" "b_pc s t \<noteq> B_ret rc" for t rc using before(3) by (metis barr_pc.distinct has_joined_simps(5,6))+
    moreover have "0 < N" using assms(1) by simp
    ultimately show ?thesis using full before(2) by blast
  next
    case complete
    have fin: "finite {t. b_pc s t = B_before}" using bi by (rule_tac finite_subset[of _ "waiters s"]) (auto simp: barr_inv_def)
    have c: "b_pc s t = B_before \<or> b_pc s t = B_woken 0 \<or> b_pc s t = B_ret 0" if "b_pc s t \<noteq> B_idle" for t using tN[OF that] complete(4) by simp
    have "rc = 0" if "b_pc s t = B_woken rc \<or> b_pc s t = B_ret rc" for t rc using c[of t] that by auto
    moreover have "b_pc s t \<noteq> B_sleep" for t using c[of t] by auto
    moreover have "\<exists>s'. barr_exec (BDown t) s = Some s' \<and> b_pc s' t = B_woken 0" if "b_pc s t = B_before" for t
    proof -
      have "0 < sem_count b" using complete(3) fin that by (auto simp: card_gt_0_iff)
      then show ?thesis using complete(1) by (simp add: sem_down_def)
    qed
    moreover have "\<exists>x < N. waiting (b_pc s x)"
    proof -
      obtain x where "waiting (b_pc s x)" using bi complete(1) by (auto simp: barr_inv_def)
      then show ?thesis using tN[of x] by (metis waiting_simps(4))
    qed
    ultimately show ?thesis using full complete(2) by (metis waiting_simps(6))
  qed
qed

theorem barrier_one_round_witness:
  "\<exists>s. barr_play (round_pre 2) [BEnter 0 2, BSetup 0 True, BEnter 1 2] barr_start = Some s \<and> b_pc s 1 = B_ret 0 \<and> (\<forall>x < 2. has_joined (b_pc s x))"
proof -
  let ?ops = "[BEnter 0 2, BSetup 0 True, BEnter 1 2]"
  obtain s where s: "barr_play (round_pre 2) ?ops barr_start = Some s" "b_pc s 1 = B_ret 0" by (simp add: barr_run_defs)
  have "reachable (round_pre 2) barr_exec barr_start s" by (rule barr_play_reachable[OF s(1) reachable.start])
  with s show ?thesis using barrier_one_round[of 2 s] by auto
qed


end
