(* ===== verification/Spec2Isabelle.thy ===== *)
theory Spec2Isabelle
  imports Memhndl Umap Resource_Props Endpoint_Props Cdm_Props Forward_Props Rx_Props Tx_Props Barrier_Props
begin

text \<open>
  A verification of the kernel GNI driver of the repository: the modified sources \<open>kgni_ops.c\<close> and \<open>kgni_main.c\<close> under
  \<open>src/src/guests/gemini_proxy/host/kgni-driver-changes\<close>, with the data types of \<open>gni_pub.h\<close> and \<open>gni_priv.h\<close> under
  \<open>src/src/nvl/pisces/cray/include\<close>. The driver gives processes and kernel modules access to a Gemini or Aries NIC.

  \<^bold>\<open>The parts of the program and their theories.\<close>

  \<^item> \<^emph>\<open>Registered memory\<close> (\<open>Memhndl\<close>): the packed memory handle, its accessor macros and the CRC routines of \<open>gni_priv.h\<close>. Words
    are kept at their width. The CRC routines are proved equal to the bit-serial shift register of their polynomial, to
    detect every damaged byte, and the fields to read back what was stored.

  \<^item> \<^emph>\<open>Data structures\<close> (\<open>Prelude\<close>, \<open>Driver\<close>): return codes, error numbers, the structures for NICs, domains, channels and
    sessions. Objects live in maps from addresses; freeing an object removes it from its map, and an access to an address that
    is not in the map, an index out of bounds and a failed \<open>GASSERT\<close> make the call return \<open>None\<close> (\<open>run\<close>). So "the call
    returns \<open>Some\<close>" says that it commits none of these faults.

  \<^item> \<^emph>\<open>Machines\<close> (\<open>Machine\<close>): the locale \<open>safe_machine\<close> of operations with preconditions and an invariant, the inductive set of
    reachable states and what follows for them. It is interpreted by the session manager, the resources, the endpoints,
    the whole driver, the receive path and the transmit path. \<open>refining_machine\<close> extends it by a simulation of an abstract specification, for the domains
    of \<open>Cdm_Spec\<close> and the list of segments of \<open>Memseg\<close>.

  \<^item> \<^emph>\<open>Datagram sessions\<close> (\<open>Session\<close>, \<open>Session_Worker\<close>, \<open>Session_Calls\<close>, \<open>Session_Inv\<close>, \<open>Session_Machine\<close>, \<open>Session_Frame\<close>,
    \<open>Session_Props\<close>): the \<open>kgni_sm_\<close> functions of \<open>kgni_ops.c\<close>: adding, testing, waiting for and terminating sessions, the
    call-backs of the control channel, and the worker \<open>kgni_sm_task\<close> with its delays and retries. The lemmas show that no
    interleaving faults, that work is never forgotten, what a delivery and a test give, and that clean-up frees exactly the
    sessions of one NIC.

  \<^item> \<^emph>\<open>Job resources\<close> (\<open>Resource\<close>, \<open>Resource_Inv\<close>, \<open>Resource_Props\<close>): the reference-counted resources of a protection tag and
    the blocks of the node translation table. Reference counts are proved exact and blocks never freed while in use, also
    when another thread runs between the two lock regions of \<open>kgni_resource_incref\<close>.

  \<^item> \<^emph>\<open>Endpoints\<close> (\<open>Endpoint\<close>, \<open>Endpoint_Inv\<close>, \<open>Endpoint_Props\<close>): the \<open>gni_ep_\<close> and \<open>gni_postdata_\<close> calls and the request lists
    of completion queues, in any interleaving with the session manager.

  \<^item> \<^emph>\<open>Mappings\<close> (\<open>Umap\<close>): mapping of device pages into processes and the lists that record it.

  \<^item> \<^emph>\<open>Domains and NICs\<close> (\<open>Cdm\<close>, \<open>Cdm_Inv\<close>, \<open>Cdm_Stages\<close>, \<open>Cdm_Attach\<close>, \<open>Cdm_Detach\<close>, \<open>Cdm_Driver\<close>, \<open>Cdm_Spec\<close>, \<open>Cdm_Props\<close>): the table of
    communication domains, attach and detach with their staged error paths, open and close of the device file, and the calls
    for kernel applications. The state \<open>sys\<close> combines the sessions, the resources and the mappings. The machine of
    \<open>Cdm_Driver\<close> interleaves opens, closes and attaches with the calls and call-backs of the session manager; it never faults,
    its objects stay well typed, and it implements the abstract domains of \<open>Cdm_Spec\<close>: sets of NICs under a key.

  \<^item> \<^emph>\<open>Forwarding between enclaves\<close> (\<open>Memseg\<close>, \<open>Forward\<close>, \<open>Forward_Inv\<close>, \<open>Forward_Props\<close>): the files \<open>xmem_list.h\<close>,
    \<open>xpmem_chnl_client.c\<close> and \<open>xpmem_chnl_serv.c\<close> under \<open>src/src/nvl/pisces/cray\<close>. An application in one enclave calls the device in
    another: the client turns its calls into commands and the server carries them out. The linked list of
    segments is proved to be a queue, registered memory to be found again after any calls, and a gather to be in the
    order of the ranks.

  \<^item> \<^emph>\<open>Receive path\<close> (\<open>Rx\<close>, \<open>Rx_Inv\<close>, \<open>Rx_Irq\<close>, \<open>Rx_Runs\<close>, \<open>Rx_Props\<close>): the receive ring of a control channel in \<open>kgni_main.c\<close>, from
    \<open>kgni_alloc_rx_buffs\<close> over \<open>kgni_irq_rx_hndlr\<close> and \<open>kgni_proc_rx_queue\<close> to \<open>kgni_bte_stop\<close>, with the NIC as an operation of its
    own. Every buffer stays in exactly one place, and the packets reach the channels once and in the order of their arrival, both
    when buffers are handed over and when packets are copied out. In copy-out mode the interrupt handler never refills the ring, and
    the runs start with memory for the whole ring.

  \<^item> \<^emph>\<open>Transmit path\<close> (\<open>Tx\<close>, \<open>Tx_Inv\<close>, \<open>Tx_Post\<close>, \<open>Tx_Push\<close>, \<open>Tx_Irq\<close>, \<open>Tx_Runs\<close>, \<open>Tx_Props\<close>): \<open>kgni_rdma_post\<close> with all its checks and the
    descriptor it builds, the tasklet \<open>kgni_push_tx_queue\<close> that serves the queues of both domains over all channels, and
    \<open>kgni_irq_tx_hndlr\<close>. The RDMA count of a job is proved to be the number of its transactions in queues and rings, in every
    interleaving with completions and with jobs that end while their transactions are on the way; no queued transaction is
    stranded; and a transaction accepted under \<open>GNI_DEBUG\<close> stays inside its memory regions.

  \<^item> \<^emph>\<open>Barrier\<close> (\<open>Barrier\<close>, \<open>Barrier_Props\<close>): \<open>kgni_cdm_barr\<close> by its lock regions, with a semaphore that wakes sleepers in order. No
    interleaving uses a freed barrier, one round is a barrier, and overlapping rounds are shown not to be.

  \<^bold>\<open>Concurrency.\<close> A critical section under a lock is one step. Where a function gives a lock up and takes it again, the steps of
  other threads in between are an argument of the model (\<open>between\<close> of \<open>attach_find\<close> and \<open>kgni_resource_incref\<close>).

  \<^bold>\<open>Parameters.\<close> What is not under \<open>src/\<close> is a field of an environment record: sizes of tables (\<open>kgni_env\<close>), the hardware
  layer, allocation results, the channel layer and the memory management of the kernel (\<open>rsrc_env\<close>, \<open>umap_env\<close>, \<open>att_env\<close>, \<open>ep_env\<close>, \<open>rx_env\<close>, \<open>tx_env\<close>).
  What the code relies on is stated in the predicates \<open>env_ok\<close>, \<open>att_env_ok\<close>, \<open>rx_env_ok\<close>, \<open>tx_env_ok\<close> and those they use; of \<open>KGNI_NEXT_RING_ENTRY\<close>, a macro of
  a kernel header, the transmit path relies on \<open>next_entry_ok\<close>; the examples that the
  witnesses evaluate show that they can hold.

  \<^bold>\<open>Loops.\<close> Loops over tables are structural recursions over the list of indices. Loops that may run for ever are
  partial functions with the value \<open>None\<close> for not returning: the search for a free packet slot, of which \<open>slot_search_terminates\<close>
  says when it returns, the loops over linked lists, which are proved to return on every list the operations build, and the loops of
  the interrupt handlers over completed descriptors and of the transmit tasklet over queued requests, which return in every reachable state.
  No definition has fuel.

  \<^bold>\<open>Not modelled.\<close> Printing, statistics and sysfs files; the ioctl dispatcher, which copies arguments between user space and the calls
  modelled here; set-up and removal of the PCI device; the channels of the BTE
  that user space writes to directly (FLBTE), with their reclaim and reset; FMA transactions and completion queue events; the quiesce call-backs. The proxy drivers of the guest
  and of Palacios hand over single calls between virtual machines; the example programs and their copies of the headers are clients.
\<close>

end
